(* ===== verification/Prelude.thy ===== *)
theory Prelude
  imports Main "HOL-Library.Word" "HOL-Library.Monad_Syntax"
begin

text \<open>
  Shared vocabulary of the development.

  \<^item> C integers: \<open>uint8_t\<close>, \<open>uint16_t\<close>, \<open>uint32_t\<close> are words of that width, so that
    arithmetic wraps as in C; \<open>int\<close> and \<open>time_t\<close> are HOL integers.
  \<^item> C strings are lists of characters without the terminating NUL; a \<open>char *\<close> that may be
    NULL is an \<open>option\<close>. Buffers are byte lists.
  \<^item> Undefined behaviour, a failed \<open>assert\<close> and a self-deadlock are the value \<open>None\<close> of an
    \<open>option\<close>: a function of the model has an \<open>option\<close> result exactly when the C code can
    get there from some state of the model.
  \<^item> \<open>malloc\<close> and its kin may fail: the outcomes of successive allocations are a list of
    booleans, and the empty list stands for an allocator that keeps succeeding.
\<close>

unbundle bit_operations_syntax

type_synonym u8 = "8 word"
type_synonym u16 = "16 word"
type_synonym u32 = "32 word"

named_theorems state_simps \<open>record projections through the state transformers of the model\<close>

section \<open>Return codes of the library (enum mosq_err_t)\<close>

abbreviation MOSQ_ERR_SUCCESS :: int where "MOSQ_ERR_SUCCESS \<equiv> 0"
abbreviation MOSQ_ERR_NOMEM :: int where "MOSQ_ERR_NOMEM \<equiv> 1"
abbreviation MOSQ_ERR_PROTOCOL :: int where "MOSQ_ERR_PROTOCOL \<equiv> 2"
abbreviation MOSQ_ERR_INVAL :: int where "MOSQ_ERR_INVAL \<equiv> 3"
abbreviation MOSQ_ERR_NO_CONN :: int where "MOSQ_ERR_NO_CONN \<equiv> 4"
abbreviation MOSQ_ERR_CONN_REFUSED :: int where "MOSQ_ERR_CONN_REFUSED \<equiv> 5"
abbreviation MOSQ_ERR_NOT_FOUND :: int where "MOSQ_ERR_NOT_FOUND \<equiv> 6"
abbreviation MOSQ_ERR_CONN_LOST :: int where "MOSQ_ERR_CONN_LOST \<equiv> 7"
abbreviation MOSQ_ERR_PAYLOAD_SIZE :: int where "MOSQ_ERR_PAYLOAD_SIZE \<equiv> 9"
abbreviation MOSQ_ERR_ACL_DENIED :: int where "MOSQ_ERR_ACL_DENIED \<equiv> 12"
abbreviation MOSQ_ERR_UNKNOWN :: int where "MOSQ_ERR_UNKNOWN \<equiv> 13"
abbreviation MOSQ_ERR_ERRNO :: int where "MOSQ_ERR_ERRNO \<equiv> 14"
abbreviation MOSQ_ERR_EAI :: int where "MOSQ_ERR_EAI \<equiv> 15"

section \<open>Allocation\<close>

definition malloc_ok :: "bool list \<Rightarrow> bool \<times> bool list" where
  "malloc_ok al = (case al of [] \<Rightarrow> (True, []) | b # bs \<Rightarrow> (b, bs))"

lemma malloc_ok_simps [simp]:
  "malloc_ok [] = (True, [])" "malloc_ok (b # bs) = (b, bs)"
  by (simp_all add: malloc_ok_def)

section \<open>Characters and bytes\<close>

abbreviation NUL :: char where "NUL \<equiv> CHR 0x00"

definition byte_of_char :: "char \<Rightarrow> u8" where
  "byte_of_char c = word_of_nat (of_char c)"

definition char_of_byte :: "u8 \<Rightarrow> char" where
  "char_of_byte b = char_of (unat b)"

abbreviation bytes_of_string :: "string \<Rightarrow> u8 list" where
  "bytes_of_string s \<equiv> map byte_of_char s"

text \<open>
  A buffer read as a C string: its characters up to the first NUL. The buffers the library
  hands out have a NUL behind the data, so the end of the list acts as one.
\<close>

definition cstr :: "u8 list \<Rightarrow> string" where
  "cstr bs = map char_of_byte (takeWhile (\<lambda>b. b \<noteq> 0) bs)"

lemma unat_byte_of_char [simp]: "unat (byte_of_char c) = of_char c"
  by (simp add: byte_of_char_def unat_of_nat)

lemma char_of_byte_of_char [simp]: "char_of_byte (byte_of_char c) = c"
  by (simp add: char_of_byte_def)

lemma byte_of_char_of_byte [simp]: "byte_of_char (char_of_byte b) = b"
proof -
  have "unat b < 256" using unsigned_less [of b, where 'a = nat] by simp
  then show ?thesis by (simp add: byte_of_char_def char_of_byte_def)
qed

lemma byte_of_char_eq_0 [simp]: "byte_of_char c = 0 \<longleftrightarrow> c = CHR 0x00"
proof
  assume "byte_of_char c = 0"
  then have "char_of_byte (byte_of_char c) = char_of_byte 0" by simp
  moreover have "char_of_byte 0 = CHR 0x00" by (simp add: char_of_byte_def char_of_def)
  ultimately show "c = CHR 0x00" by simp
qed (simp add: byte_of_char_def)

lemma cstr_bytes_of_string [simp]:
  "CHR 0x00 \<notin> set s \<Longrightarrow> cstr (bytes_of_string s) = s"
proof -
  assume "CHR 0x00 \<notin> set s"
  then have "takeWhile (\<lambda>b. b \<noteq> 0) (bytes_of_string s) = bytes_of_string s"
    by (subst takeWhile_eq_all_conv) auto
  then show ?thesis by (simp add: cstr_def o_def del: takeWhile_eq_all_conv)
qed

section \<open>Splitting at a separator\<close>

fun split_on :: "'a \<Rightarrow> 'a list \<Rightarrow> 'a list list" where
  "split_on c [] = [[]]"
| "split_on c (x # xs) =
     (if x = c then [] # split_on c xs
      else (case split_on c xs of [] \<Rightarrow> [[x]] | y # ys \<Rightarrow> (x # y) # ys))"

fun join_with :: "'a \<Rightarrow> 'a list list \<Rightarrow> 'a list" where
  "join_with c [] = []"
| "join_with c [xs] = xs"
| "join_with c (xs # ys # zs) = xs @ c # join_with c (ys # zs)"

lemma split_on_neq_Nil [simp]: "split_on c xs \<noteq> []"
  by (induction xs) (auto split: list.splits)

lemma split_on_no_sep: "c \<notin> set xs \<Longrightarrow> split_on c xs = [xs]"
  by (induction xs) auto

lemma split_on_append_sep: "c \<notin> set xs \<Longrightarrow> split_on c (xs @ c # ys) = xs # split_on c ys"
  by (induction xs) auto

lemma split_on_join_with:
  "\<lbrakk>xss \<noteq> []; \<forall>xs \<in> set xss. c \<notin> set xs\<rbrakk> \<Longrightarrow> split_on c (join_with c xss) = xss"
  by (induction c xss rule: join_with.induct) (auto simp: split_on_no_sep split_on_append_sep)

lemma join_with_split_on: "join_with c (split_on c xs) = xs"
proof (induction xs)
  case (Cons x xs)
  obtain y ys where s: "split_on c xs = y # ys" by (cases "split_on c xs") auto
  show ?case using Cons by (cases ys) (auto simp: s)
qed simp

lemma split_on_sep_free: "ts \<in> set (split_on c xs) \<Longrightarrow> c \<notin> set ts"
proof (induction xs arbitrary: ts)
  case (Cons x xs)
  obtain y ys where s: "split_on c xs = y # ys" by (cases "split_on c xs") auto
  show ?case using Cons.prems Cons.IH [of ts] Cons.IH [of y] by (auto simp: s split: if_splits)
qed simp

lemma length_split_on: "length (split_on c xs) = Suc (count_list xs c)"
  by (induction xs) (auto split: list.splits)

section \<open>Lists\<close>

lemma count_list_filter: "count_list xs c = length (filter (\<lambda>x. x = c) xs)"
  by (induction xs) auto

lemma drop_Suc_nth: "i < length xs \<Longrightarrow> drop i xs = xs ! i # drop (Suc i) xs"
  by (simp add: Cons_nth_drop_Suc)

lemma filter_length_le: "length (filter P xs) \<le> length xs"
  by (rule length_filter_le)

end
