(* ===== verification/Topics.thy ===== *)
theory Topics
  imports Prelude
begin

text \<open>
  Topic strings of MQTT: the checks and the matcher of \<open>mosquitto/lib/util_mosq.c\<close> and the
  tokeniser of \<open>mosquitto/lib/mosquitto.c\<close>.

  The reference is on topic levels, the parts between the separators: \<open>valid_levels\<close> says
  where wildcards may stand and \<open>level_match\<close> when a subscription covers a topic.
\<close>

section \<open>Model\<close>

abbreviation SEP :: char where "SEP \<equiv> CHR ''/''"
abbreviation PLUS :: char where "PLUS \<equiv> CHR ''+''"
abbreviation HASH :: char where "HASH \<equiv> CHR ''#''"
abbreviation DOLLAR :: char where "DOLLAR \<equiv> CHR 0x24"

fun wildcard_len_loop :: "string \<Rightarrow> int \<Rightarrow> int" where
  "wildcard_len_loop [] len = (if len > 65535 then MOSQ_ERR_INVAL else MOSQ_ERR_SUCCESS)"
| "wildcard_len_loop (c # str) len =
     (if c = PLUS \<or> c = HASH then MOSQ_ERR_INVAL else wildcard_len_loop str (len + 1))"

definition mosquitto_topic_wildcard_len_check :: "string option \<Rightarrow> int" where
  "mosquitto_topic_wildcard_len_check str =
     (case str of None \<Rightarrow> wildcard_len_loop [] 0 | Some s \<Rightarrow> wildcard_len_loop s 0)"

text \<open>The character after the current one; the terminating NUL at the end.\<close>

definition next_char :: "string \<Rightarrow> char" where
  "next_char str = (case str of [] \<Rightarrow> NUL | x # _ \<Rightarrow> x)"

fun wildcard_pos_loop :: "char \<Rightarrow> string \<Rightarrow> int \<Rightarrow> int" where
  "wildcard_pos_loop c [] len = (if len > 65535 then MOSQ_ERR_INVAL else MOSQ_ERR_SUCCESS)"
| "wildcard_pos_loop c (x # str) len =
     (if x = PLUS \<and> ((c \<noteq> NUL \<and> c \<noteq> SEP) \<or> (next_char str \<noteq> NUL \<and> next_char str \<noteq> SEP))
      then MOSQ_ERR_INVAL
      else if x = HASH \<and> ((c \<noteq> NUL \<and> c \<noteq> SEP) \<or> next_char str \<noteq> NUL)
      then MOSQ_ERR_INVAL
      else wildcard_pos_loop x str (len + 1))"

definition mosquitto_topic_wildcard_pos_check :: "string option \<Rightarrow> int" where
  "mosquitto_topic_wildcard_pos_check str =
     (case str of None \<Rightarrow> wildcard_pos_loop NUL [] 0 | Some s \<Rightarrow> wildcard_pos_loop NUL s 0)"

text \<open>The inner loop of the matcher: skip to the next separator or to the end.\<close>

function skip_level :: "string \<Rightarrow> nat \<Rightarrow> nat" where
  "skip_level topic tpos =
     (if tpos < length topic \<and> topic ! tpos \<noteq> SEP then skip_level topic (tpos + 1) else tpos)"
  by pat_completeness auto
termination
  by (relation "measure (\<lambda>(topic, tpos). length topic - tpos)") auto

declare skip_level.simps [simp del]

lemma skip_level_ge: "tpos \<le> skip_level topic tpos"
proof (induction topic tpos rule: skip_level.induct)
  case (1 topic tpos)
  then show ?case by (subst skip_level.simps) auto
qed

text \<open>
  The main loop. The flag \<open>multilevel_wildcard\<close> is set only right before a return, so it is
  still false when the loop ends; the result is \<open>None\<close> where \<open>*result\<close> is not written.
\<close>

function topic_matches_loop :: "string \<Rightarrow> string \<Rightarrow> nat \<Rightarrow> nat \<Rightarrow> bool option" where
  "topic_matches_loop sub topic spos tpos =
     (let slen = length sub; tlen = length topic;
          foo_hash = (\<lambda>sp tp. tp + 1 = tlen \<and> sp + 3 = slen
                        \<and> sub ! (sp + 1) = SEP \<and> sub ! (sp + 2) = HASH)
      in if spos < slen \<and> tpos < tlen then
           (if sub ! spos = topic ! tpos then
              (if spos + 1 = slen \<and> tpos + 1 = tlen then Some True
               else if tpos + 1 = tlen \<and> spos + 2 = slen \<and> sub ! (spos + 1) = PLUS then Some True
               else if foo_hash (spos + 1) (tpos + 1) then Some True
               else topic_matches_loop sub topic (spos + 1) (tpos + 1))
            else if sub ! spos = PLUS then
              (let tp = skip_level topic tpos in
               if tp = tlen \<and> spos + 1 = slen then Some True
               else if foo_hash (spos + 1) tp then Some True
               else topic_matches_loop sub topic (spos + 1) tp)
            else if sub ! spos = HASH then Some (spos + 1 = slen)
            else Some False)
         else if tpos < tlen \<or> spos < slen then Some False else None)"
  by pat_completeness auto
termination
  by (relation "measure (\<lambda>(sub, topic, spos, tpos). length sub - spos)") auto

declare topic_matches_loop.simps [simp del]

text \<open>
  The value is the return code with what the call stores through \<open>result\<close>
  (\<open>has_result\<close> is \<open>result != NULL\<close>).
\<close>

definition mosquitto_topic_matches_sub ::
    "string option \<Rightarrow> string option \<Rightarrow> bool \<Rightarrow> int \<times> bool option" where
  "mosquitto_topic_matches_sub sub topic has_result =
     (case (sub, topic, has_result) of
        (Some s, Some t, True) \<Rightarrow>
          (if s \<noteq> [] \<and> t \<noteq> [] \<and>
              ((s ! 0 = DOLLAR \<and> t ! 0 \<noteq> DOLLAR) \<or> (t ! 0 = DOLLAR \<and> s ! 0 \<noteq> DOLLAR))
           then (MOSQ_ERR_SUCCESS, Some False)
           else (MOSQ_ERR_SUCCESS, topic_matches_loop s t 0 0))
      | _ \<Rightarrow> (MOSQ_ERR_INVAL, None))"

text \<open>
  The tokeniser. \<open>topics\<close> is the array of \<open>hier_count\<close> pointers, all NULL at first; a level
  that is empty leaves its pointer NULL. Writing past the array would be \<open>None\<close>.
\<close>

fun hier_count_loop :: "string \<Rightarrow> nat \<Rightarrow> nat" where
  "hier_count_loop [] n = n"
| "hier_count_loop (c # cs) n = hier_count_loop cs (if c = SEP then n + 1 else n)"

function tokenise_loop ::
    "string \<Rightarrow> nat \<Rightarrow> nat \<Rightarrow> nat \<Rightarrow> string option list \<Rightarrow> bool list
      \<Rightarrow> (string option list option \<times> bool list) option" where
  "tokenise_loop subtopic i start hier topics al =
     (if i < length subtopic + 1 then
        if i = length subtopic \<or> subtopic ! i = SEP then
          if start \<noteq> i then
            (case malloc_ok al of
               (False, al') \<Rightarrow> Some (None, al')
             | (True, al') \<Rightarrow>
                 if hier < length topics then
                   tokenise_loop subtopic (i + 1) (i + 1) (hier + 1)
                     (topics[hier := Some (take (i - start) (drop start subtopic))]) al'
                 else None)
          else tokenise_loop subtopic (i + 1) (i + 1) (hier + 1) topics al
        else tokenise_loop subtopic (i + 1) start hier topics al
      else Some (Some topics, al))"
  by pat_completeness auto
termination
  by (relation "measure (\<lambda>(s, i, _). length s + 1 - i)") auto

declare tokenise_loop.simps [simp del]

text \<open>
  The outcome is the return code, the token array with its count (on success), and what is
  left of the allocator's outcomes.
\<close>

definition mosquitto_sub_topic_tokenise ::
    "string option \<Rightarrow> bool list \<Rightarrow> (int \<times> (string option list \<times> int) option \<times> bool list) option" where
  "mosquitto_sub_topic_tokenise subtopic al =
     (case subtopic of
        None \<Rightarrow> Some (MOSQ_ERR_INVAL, None, al)
      | Some s \<Rightarrow>
          (let hier_count = hier_count_loop s 1 in
           case malloc_ok al of
             (False, al') \<Rightarrow> Some (MOSQ_ERR_NOMEM, None, al')
           | (True, al') \<Rightarrow>
               do {
                 (res, al'') \<leftarrow> tokenise_loop s 0 0 0 (replicate hier_count None) al';
                 Some (case res of
                     None \<Rightarrow> (MOSQ_ERR_NOMEM, None, al'')
                   | Some topics \<Rightarrow> (MOSQ_ERR_SUCCESS, Some (topics, int hier_count), al''))
               }))"

section \<open>Reference: topic levels\<close>

abbreviation levels :: "string \<Rightarrow> string list" where "levels \<equiv> split_on SEP"

definition wildcard_free :: "string \<Rightarrow> bool" where
  "wildcard_free s \<longleftrightarrow> PLUS \<notin> set s \<and> HASH \<notin> set s"

fun valid_levels :: "string list \<Rightarrow> bool" where
  "valid_levels [] = True"
| "valid_levels [f] = (f = [PLUS] \<or> f = [HASH] \<or> wildcard_free f)"
| "valid_levels (f # g # fs) = ((f = [PLUS] \<or> wildcard_free f) \<and> valid_levels (g # fs))"

fun level_match :: "string list \<Rightarrow> string list \<Rightarrow> bool" where
  "level_match [] ts = (ts = [])"
| "level_match (f # fs) ts =
     (if f = [HASH] then fs = []
      else case ts of [] \<Rightarrow> False | t # ts' \<Rightarrow> (f = t \<or> f = [PLUS]) \<and> level_match fs ts')"

section \<open>The wildcard checks\<close>

lemma wildcard_free_simps [simp]:
  "wildcard_free []" "wildcard_free (c # s) \<longleftrightarrow> c \<noteq> PLUS \<and> c \<noteq> HASH \<and> wildcard_free s"
  by (auto simp: wildcard_free_def)

lemma wildcard_len_loop_iff:
  "wildcard_len_loop s n = MOSQ_ERR_SUCCESS \<longleftrightarrow> wildcard_free s \<and> n + int (length s) \<le> 65535"
  by (induction s arbitrary: n) auto

lemma levels_Cons:
  "c \<noteq> SEP \<Longrightarrow> \<exists>y ys. levels s = y # ys \<and> levels (c # s) = (c # y) # ys"
  by (cases "levels s") auto

lemma valid_levels_Cons: "ys \<noteq> [] \<Longrightarrow> valid_levels (y # ys) \<longleftrightarrow> (y = [PLUS] \<or> wildcard_free y) \<and> valid_levels ys"
  by (cases ys) auto

text \<open>
  What the position check accepts of a suffix: at the start of a level (\<open>c\<close> is NUL or a
  separator) any valid list of levels, inside a level one that goes on without wildcards.
\<close>

lemma wildcard_pos_loop_iff:
  assumes "NUL \<notin> set s"
  shows "wildcard_pos_loop c s n = MOSQ_ERR_SUCCESS \<longleftrightarrow>
    n + int (length s) \<le> 65535 \<and> valid_levels (levels s) \<and>
    (c = NUL \<or> c = SEP \<or> wildcard_free (hd (levels s)))"
  using assms
proof (induction s arbitrary: c n)
  case (Cons x s)
  obtain y ys where s: "levels s = y # ys" by (cases "levels s") auto
  have y: "next_char s = NUL \<or> next_char s = SEP \<longleftrightarrow> y = []"
    and e: "next_char s = NUL \<longleftrightarrow> y = [] \<and> ys = []"
    using Cons.prems s by (cases s; auto simp: next_char_def split: list.splits if_splits)+
  note IH = Cons.IH [of x "n + 1"]
  show ?case
  proof (cases "x = SEP")
    case True
    then show ?thesis using IH Cons.prems s by (simp add: valid_levels_Cons ac_simps)
  next
    case False
    then have l: "levels (x # s) = (x # y) # ys" using s by simp
    show ?thesis
    proof (cases "x = PLUS \<or> x = HASH")
      case wild: True
      show ?thesis using IH Cons.prems wild y e
        by (cases y; cases ys) (auto simp: l s valid_levels_Cons)
    next
      case plain: False
      have "x \<noteq> NUL" using Cons.prems by auto
      then show ?thesis using IH Cons.prems plain False l s
        by (cases ys) (auto simp: valid_levels_Cons)
    qed
  qed
qed auto

section \<open>The matcher on suffixes\<close>

text \<open>
  Every test of the loop looks at the rest of the two strings only, so the index loop is a
  recursion over suffixes; \<open>foo_hash\<close> is the test for a subscription that ends in a level
  separator and the multi-level wildcard, made one character before the topic's end.
\<close>

definition foo_hash :: "string \<Rightarrow> string \<Rightarrow> bool" where
  "foo_hash s t \<longleftrightarrow> length t = 1 \<and> length s = 3 \<and> s ! 1 = SEP \<and> s ! 2 = HASH"

function match_sfx :: "string \<Rightarrow> string \<Rightarrow> bool" where
  "match_sfx (x # s) (y # t) =
     (if x = y then
        if s = [] \<and> t = [] then True
        else if t = [] \<and> s = [PLUS] then True
        else if foo_hash s t then True
        else match_sfx s t
      else if x = PLUS then
        (let t' = dropWhile (\<lambda>c. c \<noteq> SEP) (y # t) in
         if t' = [] \<and> s = [] then True
         else if foo_hash s t' then True
         else match_sfx s t')
      else if x = HASH then s = []
      else False)"
| "match_sfx [] t = False"
| "match_sfx (x # s) [] = False"
  by pat_completeness auto
termination
  by (relation "measure (\<lambda>(s, t). length s)") auto

lemma match_sfx_Nil2 [simp]: "match_sfx s [] = False"
  by (cases s) auto

lemma skip_level_drop:
  "tpos \<le> length topic \<Longrightarrow>
     skip_level topic tpos \<le> length topic \<and>
     drop (skip_level topic tpos) topic = dropWhile (\<lambda>c. c \<noteq> SEP) (drop tpos topic)"
proof (induction topic tpos rule: skip_level.induct)
  case (1 topic tpos)
  show ?case
  proof (cases "tpos < length topic \<and> topic ! tpos \<noteq> SEP")
    case True
    then have "drop tpos topic = topic ! tpos # drop (Suc tpos) topic"
      by (simp add: drop_Suc_nth)
    with True "1.IH" show ?thesis by (simp add: skip_level.simps [of topic tpos])
  next
    case False
    show ?thesis
    proof (cases "tpos < length topic")
      case True
      with False have "topic ! tpos = SEP" by simp
      with True show ?thesis
        by (simp add: skip_level.simps [of topic tpos] drop_Suc_nth)
    next
      case out: False
      with "1.prems" have "tpos = length topic" by simp
      then show ?thesis by (simp add: skip_level.simps [of topic "length topic"])
    qed
  qed
qed

lemma foo_hash_drop:
  assumes "sp \<le> length sub" "tp \<le> length topic"
  shows "foo_hash (drop sp sub) (drop tp topic) \<longleftrightarrow>
    tp + 1 = length topic \<and> sp + 3 = length sub \<and> sub ! (sp + 1) = SEP \<and> sub ! (sp + 2) = HASH"
proof -
  have "length (drop tp topic) = 1 \<longleftrightarrow> tp + 1 = length topic"
    "length (drop sp sub) = 3 \<longleftrightarrow> sp + 3 = length sub" using assms by auto
  then show ?thesis by (auto simp: foo_hash_def)
qed

lemma drop_eq_single: "drop n xs = [a] \<longleftrightarrow> n + 1 = length xs \<and> xs ! n = a"
  by (cases "n < length xs") (auto simp: drop_Suc_nth)

lemma guard_chain:
  "(\<not> A \<Longrightarrow> \<not> B \<Longrightarrow> \<not> C \<Longrightarrow> X = Some M) \<Longrightarrow>
    (if A then Some True else if B then Some True else if C then Some True else X) =
    Some (if A then True else if B then True else if C then True else M)"
  by simp

lemma topic_matches_loop_sfx:
  "\<lbrakk>spos \<le> length sub; tpos \<le> length topic; spos < length sub \<or> tpos < length topic\<rbrakk> \<Longrightarrow>
    topic_matches_loop sub topic spos tpos =
      Some (match_sfx (drop spos sub) (drop tpos topic))"
proof (induction sub topic spos tpos rule: topic_matches_loop.induct)
  case (1 sub topic spos tpos)
  let ?tp = "skip_level topic tpos"
  show ?case
  proof (cases "spos < length sub \<and> tpos < length topic")
    case False
    with "1.prems" show ?thesis
      by (subst topic_matches_loop.simps) (auto simp: not_less)
  next
    case True
    have d: "drop spos sub = sub ! spos # drop (spos + 1) sub"
      "drop tpos topic = topic ! tpos # drop (tpos + 1) topic"
      using True by (simp_all add: drop_Suc_nth)
    have sk: "?tp \<le> length topic"
      "drop ?tp topic = dropWhile (\<lambda>c. c \<noteq> SEP) (topic ! tpos # drop (tpos + 1) topic)"
      using skip_level_drop [of tpos topic] True d(2) by auto
    note fh = foo_hash_drop [of "spos + 1" sub "tpos + 1" topic]
      foo_hash_drop [of "spos + 1" sub ?tp topic]
    consider (eq) "sub ! spos = topic ! tpos"
      | (plus) "sub ! spos \<noteq> topic ! tpos" "sub ! spos = PLUS"
      | (other) "sub ! spos \<noteq> topic ! tpos" "sub ! spos \<noteq> PLUS"
      by blast
    then show ?thesis
    proof cases
      case eq
      have c1: "(spos + 1 = length sub \<and> tpos + 1 = length topic) \<longleftrightarrow>
          drop (spos + 1) sub = [] \<and> drop (tpos + 1) topic = []" using True by auto
      have c2: "(tpos + 1 = length topic \<and> spos + 2 = length sub \<and> sub ! (spos + 1) = PLUS) \<longleftrightarrow>
          drop (tpos + 1) topic = [] \<and> drop (spos + 1) sub = [PLUS]"
        using True by (auto simp: drop_eq_single)
      have fh': "foo_hash (drop (spos + 1) sub) (drop (tpos + 1) topic) \<longleftrightarrow>
          tpos + 1 + 1 = length topic \<and> spos + 1 + 3 = length sub \<and>
          sub ! (spos + 1 + 1) = SEP \<and> sub ! (spos + 1 + 2) = HASH"
        using True by (intro fh(1)) auto
      have L: "topic_matches_loop sub topic spos tpos =
        (if drop (spos + 1) sub = [] \<and> drop (tpos + 1) topic = [] then Some True
         else if drop (tpos + 1) topic = [] \<and> drop (spos + 1) sub = [PLUS] then Some True
         else if foo_hash (drop (spos + 1) sub) (drop (tpos + 1) topic) then Some True
         else topic_matches_loop sub topic (spos + 1) (tpos + 1))"
        unfolding topic_matches_loop.simps [of sub topic spos tpos] Let_def
        using True eq by (simp only: c1 c2 fh' if_True simp_thms)
      have IH: "topic_matches_loop sub topic (spos + 1) (tpos + 1) =
          Some (match_sfx (drop (spos + 1) sub) (drop (tpos + 1) topic))"
        if "\<not> (drop (spos + 1) sub = [] \<and> drop (tpos + 1) topic = [])"
          "\<not> (drop (tpos + 1) topic = [] \<and> drop (spos + 1) sub = [PLUS])"
          "\<not> foo_hash (drop (spos + 1) sub) (drop (tpos + 1) topic)"
      proof (rule "1.IH"(1) [OF refl refl refl True eq])
        show "spos + 1 < length sub \<or> tpos + 1 < length topic" using that(1) by auto
      qed (use that c1 c2 fh' True in \<open>blast | simp\<close>)+
      show ?thesis unfolding d L match_sfx.simps(1) if_P [OF eq] by (rule guard_chain [OF IH])
    next
      case plus
      have c: "?tp = length topic \<longleftrightarrow> drop ?tp topic = []" using sk(1) by auto
      have c1: "(?tp = length topic \<and> spos + 1 = length sub) \<longleftrightarrow>
          drop ?tp topic = [] \<and> drop (spos + 1) sub = []" using True c by auto
      have fh': "foo_hash (drop (spos + 1) sub) (drop ?tp topic) \<longleftrightarrow>
          ?tp + 1 = length topic \<and> spos + 1 + 3 = length sub \<and>
          sub ! (spos + 1 + 1) = SEP \<and> sub ! (spos + 1 + 2) = HASH"
        using True sk(1) by (intro fh(2)) auto
      have L: "topic_matches_loop sub topic spos tpos =
        (if drop ?tp topic = [] \<and> drop (spos + 1) sub = [] then Some True
         else if foo_hash (drop (spos + 1) sub) (drop ?tp topic) then Some True
         else topic_matches_loop sub topic (spos + 1) ?tp)"
        unfolding topic_matches_loop.simps [of sub topic spos tpos] Let_def
        using True plus by (simp only: c1 fh' if_True if_False simp_thms)
      have IH: "topic_matches_loop sub topic (spos + 1) ?tp =
          Some (match_sfx (drop (spos + 1) sub) (drop ?tp topic))"
        if "\<not> (drop ?tp topic = [] \<and> drop (spos + 1) sub = [])"
          "\<not> foo_hash (drop (spos + 1) sub) (drop ?tp topic)"
      proof (rule "1.IH"(2) [OF refl refl refl True plus refl])
        show "spos + 1 < length sub \<or> ?tp < length topic" using that(1) by auto
      qed (use that c1 fh' True sk(1) in \<open>blast | simp\<close>)+
      show ?thesis
        unfolding d L match_sfx.simps(1) if_not_P [OF plus(1)] if_P [OF plus(2)] Let_def sk(2) [symmetric]
        using IH by simp
    next
      case other
      with True show ?thesis
        by (subst topic_matches_loop.simps) (auto simp: d)
    qed
  qed
qed

section \<open>The matcher against the reference\<close>

lemma levels_dropWhile:
  "levels t = takeWhile (\<lambda>c. c \<noteq> SEP) t #
     (case dropWhile (\<lambda>c. c \<noteq> SEP) t of [] \<Rightarrow> [] | _ # t' \<Rightarrow> levels t')"
  by (induction t) auto

lemma foo_hash_HASH: "foo_hash s t \<Longrightarrow> HASH \<in> set s"
  by (auto simp: foo_hash_def) (metis nth_mem less_numeral_extra(1) numeral_3_eq_3 lessI numeral_2_eq_2)

lemma level_match_end:
  assumes "HASH \<notin> set (join_with SEP (y # ys))"
  shows "level_match ys [] \<longleftrightarrow> ys = []"
proof (cases ys)
  case (Cons z zs)
  have "z \<noteq> [HASH]" using assms Cons by (cases zs) auto
  with Cons show ?thesis by simp
qed simp

lemma level_match_single:
  assumes "HASH \<notin> set s"
  shows "level_match (levels s) [[]] \<longleftrightarrow> s = [] \<or> s = [PLUS]"
proof -
  obtain y ys where l: "levels s = y # ys" by (cases "levels s") auto
  have s: "s = join_with SEP (y # ys)" using join_with_split_on [of SEP s] l by simp
  have "y \<noteq> [HASH]" using s assms by (cases ys) auto
  then show ?thesis using level_match_end [of y ys] s l assms by (cases ys) auto
qed

lemma match_sfx_levels:
  "\<lbrakk>s \<noteq> []; t \<noteq> []; valid_levels (levels s); HASH \<notin> set s; wildcard_free t\<rbrakk> \<Longrightarrow>
    match_sfx s t = level_match (levels s) (levels t)"
proof (induction s t rule: match_sfx.induct)
  case (1 x s y t)
  obtain a as where s: "levels s = a # as" by (cases "levels s") auto
  obtain b bs where t: "levels t = b # bs" by (cases "levels t") auto
  have nf: "\<not> foo_hash s u" for u using "1.prems"(4) foo_hash_HASH by fastforce
  show ?case
  proof (cases "x = y")
    case eq: True
    have x: "x \<noteq> PLUS" "x \<noteq> HASH" using "1.prems"(5) eq by auto
    have vs: "valid_levels (levels s)"
      using "1.prems"(3) s by (cases "x = SEP"; cases as) (auto simp: x)
    have HS: "HASH \<notin> set s" "wildcard_free t" using "1.prems"(4,5) by auto
    have IH: "match_sfx s t = level_match (levels s) (levels t)" if "s \<noteq> []" "t \<noteq> []"
      using "1.IH"(1) [OF eq _ _ nf that(1,2)] vs HS that by auto
    have wf: "x \<noteq> SEP \<Longrightarrow> wildcard_free a"
      using "1.prems"(3) s by (cases as) (auto simp: x)
    have lm: "level_match (levels (x # s)) (levels (y # t)) = level_match (levels s) (levels t)"
      using wf eq s t x by (cases "x = SEP") auto
    consider "s \<noteq> []" "t \<noteq> []" | "t = []" | "s = []" "t \<noteq> []" by blast
    then show ?thesis
    proof cases
      case 1
      then show ?thesis using eq IH lm nf by simp
    next
      case 2
      then show ?thesis using eq lm nf level_match_single [OF HS(1)] by auto
    next
      case 3
      then have "\<not> level_match [[]] (levels t)" using t join_with_split_on [of SEP t] by auto
      with 3 show ?thesis using eq lm nf by simp
    qed
  next
    case ne: False
    show ?thesis
    proof (cases "x = PLUS")
      case False
      have "x \<noteq> HASH" using "1.prems"(4) by auto
      then show ?thesis using ne False s t by (cases "x = SEP"; cases "y = SEP") auto
    next
      case plus: True
      let ?t = "dropWhile (\<lambda>c. c \<noteq> SEP) (y # t)"
      have l: "levels (x # s) = (PLUS # a) # as" using s plus by simp
      then have a: "a = []" using "1.prems"(3) by (cases as) auto
      have lt: "levels (y # t) = takeWhile (\<lambda>c. c \<noteq> SEP) (y # t) #
          (case ?t of [] \<Rightarrow> [] | _ # t' \<Rightarrow> levels t')"
        by (rule levels_dropWhile)
      have js: "s = join_with SEP ([] # as)" using join_with_split_on [of SEP s] s a by simp
      have vs: "valid_levels (levels s)" using "1.prems"(3) s a l by (cases as) auto
      have wt: "wildcard_free ?t" using "1.prems"(5) set_dropWhileD unfolding wildcard_free_def by metis
      have IH: "match_sfx s ?t = level_match (levels s) (levels ?t)" if "s \<noteq> []" "?t \<noteq> []"
        using "1.IH"(2) [OF ne plus refl _ nf that(1,2) vs _ wt] that "1.prems"(4) by auto
      have m: "match_sfx (x # s) (y # t) = (?t = [] \<and> s = [] \<or> match_sfx s ?t)"
        using ne plus nf by (auto simp: Let_def simp del: dropWhile.simps)
      show ?thesis
      proof (cases ?t)
        case Nil
        have "level_match as [] \<longleftrightarrow> as = []"
          by (rule level_match_end [of "[]"]) (use js "1.prems"(4) in simp)
        then show ?thesis using m Nil l a lt js by (cases as) auto
      next
        case (Cons c t')
        have c: "c = SEP" using hd_dropWhile [of "\<lambda>c. c \<noteq> SEP" "y # t"] Cons by auto
        have lt': "levels ?t = [] # levels t'" using Cons c by simp
        show ?thesis
        proof (cases as)
          case Nil
          then show ?thesis using m Cons js a l lt by simp
        next
          case (Cons g gs)
          then have "s \<noteq> []" using js by simp
          then show ?thesis using m IH \<open>?t = c # t'\<close> l lt s a lt' by simp
        qed
      qed
    qed
  qed
qed auto

lemma foo_hash_spurious: "p \<noteq> [] \<Longrightarrow> match_sfx (p @ [c, SEP, HASH]) (p @ [d])"
proof (induction p)
  case (Cons x p)
  then show ?case by (cases "p = []") (auto simp: foo_hash_def)
qed simp

section \<open>The tokeniser\<close>

definition token_of :: "string \<Rightarrow> string option" where
  "token_of l = (if l = [] then None else Some l)"

lemma hier_count_loop_eq: "hier_count_loop s n = n + count_list s SEP"
  by (induction s arbitrary: n) auto

lemma levels_at_sep:
  assumes "start \<le> i" "i < length s" "s ! i = SEP" "SEP \<notin> set (take (i - start) (drop start s))"
  shows "levels (drop start s) = take (i - start) (drop start s) # levels (drop (i + 1) s)"
proof -
  have "drop start s = take (i - start) (drop start s) @ SEP # drop (i + 1) s"
    using assms(1-3) id_take_nth_drop [of "i - start" "drop start s"] by simp
  then show ?thesis using split_on_append_sep [OF assms(4)] by metis
qed

lemma tokenise_loop_levels:
  assumes "i \<le> length s" "start \<le> i" "SEP \<notin> set (take (i - start) (drop start s))"
  shows "\<exists>res al'. tokenise_loop s i start (length done)
      (done @ replicate (length (levels (drop start s))) None) al = Some (res, al')
    \<and> (res = None \<or> res = Some (done @ map token_of (levels (drop start s))))
    \<and> (al = [] \<longrightarrow> res \<noteq> None \<and> al' = [])"
  using assms
proof (induction "length s - i" arbitrary: i start "done" al)
  case 0
  then have i: "i = length s" by simp
  let ?l = "drop start s"
  have l: "levels ?l = [?l]" using 0 i by (intro split_on_no_sep) simp
  have e: "tokenise_loop s (i + 1) u h topics al' = Some (Some topics, al')" for u h topics al'
    by (subst tokenise_loop.simps) (simp add: i)
  show ?case using e 0(3) unfolding l
    by (cases "malloc_ok al"; cases al)
       (auto simp: tokenise_loop.simps [of s "length s"] i token_of_def split: bool.splits)
next
  case (Suc n)
  then have lt: "i < length s" by simp
  show ?case
  proof (cases "s ! i = SEP")
    case False
    have "take (i + 1 - start) (drop start s) = take (i - start) (drop start s) @ [s ! i]"
      using Suc.prems(2) lt take_Suc_conv_app_nth [of "i - start" "drop start s"] by (simp add: Suc_diff_le)
    then have "SEP \<notin> set (take (i + 1 - start) (drop start s))" using Suc.prems(3) False by auto
    then show ?thesis using Suc.hyps Suc.prems lt False
      by (subst tokenise_loop.simps) (auto intro!: Suc.hyps)
  next
    case True
    let ?w = "take (i - start) (drop start s)"
    have l: "levels (drop start s) = ?w # levels (drop (i + 1) s)"
      using levels_at_sep [OF Suc.prems(2) lt True Suc.prems(3)] .
    have w: "?w = [] \<longleftrightarrow> start = i" using Suc.prems(2) lt by auto
    have IH: "\<exists>res al'. tokenise_loop s (i + 1) (i + 1) (Suc (length done))
        (done @ token_of ?w # replicate (length (levels (drop (i + 1) s))) None) al1 = Some (res, al')
      \<and> (res = None \<or> res = Some (done @ token_of ?w # map token_of (levels (drop (i + 1) s))))
      \<and> (al1 = [] \<longrightarrow> res \<noteq> None \<and> al' = [])" for al1
      using Suc.hyps(1) [of "i + 1" "i + 1" "done @ [token_of ?w]" al1] Suc.hyps(2) lt by simp
    show ?thesis
    proof (cases "start = i")
      case True
      then have "token_of ?w = None" by (simp add: token_of_def)
      then show ?thesis using IH [of al] lt \<open>s ! i = SEP\<close> True unfolding l
        by (subst tokenise_loop.simps) simp
    next
      case False
      then have "token_of ?w = Some ?w" using w by (simp add: token_of_def)
      then show ?thesis using IH [of "snd (malloc_ok al)"] lt \<open>s ! i = SEP\<close> False unfolding l
        by (subst tokenise_loop.simps)
           (cases al, auto split: bool.splits simp: list_update_append)
    qed
  qed
qed

lemma sub_topic_tokenise_ok:
  "(\<exists>rc res al'. mosquitto_sub_topic_tokenise (Some s) al = Some (rc, res, al') \<and>
      (rc = MOSQ_ERR_NOMEM \<and> res = None \<or>
       rc = MOSQ_ERR_SUCCESS \<and>
       res = Some (map token_of (levels s), int (length (levels s)))))
   \<and> mosquitto_sub_topic_tokenise (Some s) [] =
       Some (MOSQ_ERR_SUCCESS, Some (map token_of (levels s), int (length (levels s))), [])"
proof -
  have n: "hier_count_loop s (Suc 0) = length (levels s)"
    by (simp add: hier_count_loop_eq length_split_on)
  show ?thesis
    using tokenise_loop_levels [of 0 s 0 "[]" "snd (malloc_ok al)"]
      tokenise_loop_levels [of 0 s 0 "[]" "[]"]
    by (cases al) (auto simp: mosquitto_sub_topic_tokenise_def n Let_def split: bool.splits)
qed

section \<open>Properties\<close>

text \<open>
  C28: \<open>_mosquitto_topic_wildcard_pos_check\<close> accepts a subscription exactly when it is short
  enough for the protocol and every wildcard is a whole level, the multi-level one the last.
\<close>
theorem wildcard_pos_check_iff:
  assumes "NUL \<notin> set s"
  shows "mosquitto_topic_wildcard_pos_check (Some s) = MOSQ_ERR_SUCCESS \<longleftrightarrow>
    length s \<le> 65535 \<and> valid_levels (levels s)"
  using wildcard_pos_loop_iff [OF assms, of NUL 0]
  by (auto simp: mosquitto_topic_wildcard_pos_check_def)

theorem wildcard_pos_check_iff_witness:
  "mosquitto_topic_wildcard_pos_check (Some ''users/+/#'') = MOSQ_ERR_SUCCESS \<longleftrightarrow>
    length ''users/+/#'' \<le> 65535 \<and> valid_levels (levels ''users/+/#'')"
  by (rule wildcard_pos_check_iff) simp

text \<open>
  C17: for a subscription without the multi-level wildcard, \<open>mosquitto_topic_matches_sub\<close> always
  stores a result, and it is the level-by-level match of the MQTT specification: a topic of the
  system hierarchy (leading dollar sign) matches only a subscription that names that hierarchy.
\<close>
theorem topic_matches_sub_levels:
  assumes "sub \<noteq> []" "topic \<noteq> []" "valid_levels (levels sub)" "HASH \<notin> set sub" "wildcard_free topic"
  shows "mosquitto_topic_matches_sub (Some sub) (Some topic) True =
    (MOSQ_ERR_SUCCESS,
     Some ((hd sub = DOLLAR \<longleftrightarrow> hd topic = DOLLAR) \<and> level_match (levels sub) (levels topic)))"
  using topic_matches_loop_sfx [of 0 sub 0 topic] match_sfx_levels [OF assms] assms(1,2)
  by (auto simp: mosquitto_topic_matches_sub_def hd_conv_nth)

theorem topic_matches_sub_levels_witness:
  "mosquitto_topic_matches_sub (Some ''chat/+/bob'') (Some ''chat/peter/bob'') True =
    (MOSQ_ERR_SUCCESS, Some True)"
  using topic_matches_sub_levels [of "''chat/+/bob''" "''chat/peter/bob''"] by simp

text \<open>
  C39: with the multi-level wildcard the matcher is wrong one character before the end of the
  topic: a subscription to \<open>foo/#\<close> matches the topic \<open>fox\<close>. The last character of the topic is
  not compared, although the reference (and the ACL check that calls the matcher) tells the two
  levels apart.
\<close>
theorem topic_matches_sub_hash_spurious:
  assumes "p \<noteq> []" "wildcard_free p" "SEP \<notin> set p" "c \<noteq> d" "{c, d} \<inter> {SEP, PLUS, HASH} = {}"
  shows "mosquitto_topic_matches_sub (Some (p @ [c, SEP, HASH])) (Some (p @ [d])) True
      = (MOSQ_ERR_SUCCESS, Some True)
    \<and> \<not> level_match (levels (p @ [c, SEP, HASH])) (levels (p @ [d]))"
proof -
  have "levels (p @ [c, SEP, HASH]) = [p @ [c], [HASH]]"
    using split_on_append_sep [of SEP "p @ [c]" "[HASH]"] assms by simp
  moreover have "levels (p @ [d]) = [p @ [d]]" using assms by (intro split_on_no_sep) auto
  ultimately have "\<not> level_match (levels (p @ [c, SEP, HASH])) (levels (p @ [d]))"
    using assms by (cases p) auto
  then show ?thesis
    using assms(1) foo_hash_spurious [OF assms(1), of c d]
      topic_matches_loop_sfx [of 0 "p @ [c, SEP, HASH]" 0 "p @ [d]"]
    by (cases p) (auto simp: mosquitto_topic_matches_sub_def)
qed

theorem topic_matches_sub_hash_spurious_witness:
  "mosquitto_topic_matches_sub (Some ''foo/#'') (Some ''fox'') True = (MOSQ_ERR_SUCCESS, Some True)
    \<and> \<not> level_match (levels ''foo/#'') (levels ''fox'')"
  using topic_matches_sub_hash_spurious [of "''fo''" "CHR ''o''" "CHR ''x''"] by simp

text \<open>
  C29: \<open>mosquitto_sub_topic_tokenise\<close> never writes outside its array; unless an allocation fails
  it returns the levels of the topic in order, an empty level as a NULL pointer, and their number.
\<close>
theorem sub_topic_tokenise_levels:
  "(\<exists>rc res al'. mosquitto_sub_topic_tokenise (Some s) al = Some (rc, res, al') \<and>
      (rc = MOSQ_ERR_NOMEM \<and> res = None \<or>
       rc = MOSQ_ERR_SUCCESS \<and>
       res = Some (map token_of (levels s), int (length (levels s)))))
   \<and> mosquitto_sub_topic_tokenise (Some s) [] =
       Some (MOSQ_ERR_SUCCESS, Some (map token_of (levels s), int (length (levels s))), [])"
  by (rule sub_topic_tokenise_ok)

end
