(* ===== verification/Packet.thy ===== *)
theory Packet
  imports Prelude
begin

text \<open>
  The packet buffer of the library: \<open>struct _mosquitto_packet\<close>, its allocation with the
  variable-length size field (\<open>mosquitto/lib/util_mosq.c\<close>) and the readers and writers of
  \<open>mosquitto/lib/net_mosq.c\<close>.

  A buffer that comes from \<open>malloc\<close> holds unknown bytes: \<open>junk\<close> gives them. Reading or writing
  outside a buffer and a failed \<open>assert\<close> are \<open>None\<close>. A reader whose code is not success leaves
  its output unset in C; the model gives 0 or the empty list there.
\<close>

section \<open>Model\<close>

record packet =
  pk_command :: u8
  pk_have_remaining :: u8
  pk_remaining_count :: u8
  pk_mid :: u16
  pk_remaining_mult :: u32
  pk_remaining_length :: u32
  pk_packet_length :: u32
  pk_to_process :: u32
  pk_pos :: u32
  pk_payload :: "u8 list option"

text \<open>A zeroed packet, as \<open>_mosquitto_calloc(1, sizeof(struct _mosquitto_packet))\<close> returns it.\<close>

definition packet_calloc :: packet where
  "packet_calloc = \<lparr>pk_command = 0, pk_have_remaining = 0, pk_remaining_count = 0, pk_mid = 0,
     pk_remaining_mult = 0, pk_remaining_length = 0, pk_packet_length = 0, pk_to_process = 0,
     pk_pos = 0, pk_payload = None\<rparr>"

definition mosquitto_packet_cleanup :: "packet \<Rightarrow> packet" where
  "mosquitto_packet_cleanup p = p\<lparr>pk_command := 0, pk_have_remaining := 0, pk_remaining_count := 0,
     pk_remaining_mult := 1, pk_remaining_length := 0, pk_payload := None, pk_to_process := 0,
     pk_pos := 0\<rparr>"

definition malloc_buf :: "(nat \<Rightarrow> u8) \<Rightarrow> nat \<Rightarrow> u8 list" where
  "malloc_buf junk n = map junk [0..<n]"

text \<open>The do-while loop that writes the size field into \<open>remaining_bytes\<close>.\<close>

function remaining_bytes_loop :: "u32 \<Rightarrow> u8 list \<Rightarrow> u8 list" where
  "remaining_bytes_loop remaining_length bs =
     (let byte = ucast (remaining_length mod 128) :: u8;
          rl = remaining_length div 128;
          byte' = (if rl > 0 then byte OR 0x80 else byte);
          bs' = bs @ [byte']
      in if rl > 0 \<and> length bs' < 5 then remaining_bytes_loop rl bs' else bs')"
  by pat_completeness auto
termination
  by (relation "measure (\<lambda>(rl, bs). 5 - length bs)") auto

declare remaining_bytes_loop.simps [simp del]

definition mosquitto_packet_alloc ::
    "(nat \<Rightarrow> u8) \<Rightarrow> packet \<Rightarrow> bool list \<Rightarrow> int \<times> packet \<times> bool list" where
  "mosquitto_packet_alloc junk p al =
     (let remaining_bytes = remaining_bytes_loop (pk_remaining_length p) [];
          p = p\<lparr>pk_payload := None, pk_remaining_count := of_nat (length remaining_bytes)\<rparr>
      in if pk_remaining_count p = 5 then (MOSQ_ERR_PAYLOAD_SIZE, p, al)
         else
           (let p = p\<lparr>pk_packet_length := pk_remaining_length p + 1 + ucast (pk_remaining_count p)\<rparr>
            in case malloc_ok al of
                 (False, al') \<Rightarrow> (MOSQ_ERR_NOMEM, p, al')
               | (True, al') \<Rightarrow>
                   (let buf = malloc_buf junk (unat (pk_packet_length p));
                        buf = pk_command p # remaining_bytes @ drop (1 + length remaining_bytes) buf
                    in (MOSQ_ERR_SUCCESS,
                        p\<lparr>pk_payload := Some buf, pk_pos := 1 + ucast (pk_remaining_count p)\<rparr>,
                        al'))))"

definition mosquitto_read_byte :: "packet \<Rightarrow> (int \<times> u8 \<times> packet) option" where
  "mosquitto_read_byte p =
     (if pk_pos p + 1 > pk_remaining_length p then Some (MOSQ_ERR_PROTOCOL, 0, p)
      else case pk_payload p of
          None \<Rightarrow> None
        | Some buf \<Rightarrow>
            if unat (pk_pos p) < length buf
            then Some (MOSQ_ERR_SUCCESS, buf ! unat (pk_pos p), p\<lparr>pk_pos := pk_pos p + 1\<rparr>)
            else None)"

definition mosquitto_write_byte :: "packet \<Rightarrow> u8 \<Rightarrow> packet option" where
  "mosquitto_write_byte p byte =
     (if pk_pos p + 1 \<le> pk_packet_length p then
        case pk_payload p of
          None \<Rightarrow> None
        | Some buf \<Rightarrow>
            if unat (pk_pos p) < length buf
            then Some (p\<lparr>pk_payload := Some (buf[unat (pk_pos p) := byte]), pk_pos := pk_pos p + 1\<rparr>)
            else None
      else None)"

definition mosquitto_read_bytes :: "packet \<Rightarrow> u32 \<Rightarrow> (int \<times> u8 list \<times> packet) option" where
  "mosquitto_read_bytes p count =
     (if pk_pos p + count > pk_remaining_length p then Some (MOSQ_ERR_PROTOCOL, [], p)
      else case pk_payload p of
          None \<Rightarrow> if count = 0 then Some (MOSQ_ERR_SUCCESS, [], p) else None
        | Some buf \<Rightarrow>
            if unat (pk_pos p) + unat count \<le> length buf
            then Some (MOSQ_ERR_SUCCESS, take (unat count) (drop (unat (pk_pos p)) buf),
                       p\<lparr>pk_pos := pk_pos p + count\<rparr>)
            else None)"

text \<open>\<open>memcpy\<close> of \<open>count\<close> bytes from \<open>bytes\<close>: reading past the source is out of bounds too.\<close>

definition mosquitto_write_bytes :: "packet \<Rightarrow> u8 list \<Rightarrow> u32 \<Rightarrow> packet option" where
  "mosquitto_write_bytes p bytes count =
     (if pk_pos p + count \<le> pk_packet_length p then
        case pk_payload p of
          None \<Rightarrow> None
        | Some buf \<Rightarrow>
            if unat (pk_pos p) + unat count \<le> length buf \<and> unat count \<le> length bytes
            then Some (p\<lparr>pk_payload := Some (take (unat (pk_pos p)) buf @ take (unat count) bytes @
                                              drop (unat (pk_pos p) + unat count) buf),
                         pk_pos := pk_pos p + count\<rparr>)
            else None
      else None)"

definition mosquitto_read_uint16 :: "packet \<Rightarrow> (int \<times> u16 \<times> packet) option" where
  "mosquitto_read_uint16 p =
     (if pk_pos p + 2 > pk_remaining_length p then Some (MOSQ_ERR_PROTOCOL, 0, p)
      else case pk_payload p of
          None \<Rightarrow> None
        | Some buf \<Rightarrow>
            if unat (pk_pos p) + 1 < length buf
            then (let msb = buf ! unat (pk_pos p); lsb = buf ! (unat (pk_pos p) + 1)
                  in Some (MOSQ_ERR_SUCCESS, push_bit 8 (ucast msb) + ucast lsb,
                           p\<lparr>pk_pos := pk_pos p + 1 + 1\<rparr>))
            else None)"

definition MOSQ_MSB :: "u16 \<Rightarrow> u8" where
  "MOSQ_MSB a = ucast (drop_bit 8 (a AND 0xFF00))"

definition MOSQ_LSB :: "u16 \<Rightarrow> u8" where
  "MOSQ_LSB a = ucast (a AND 0x00FF)"

definition mosquitto_write_uint16 :: "packet \<Rightarrow> u16 \<Rightarrow> packet option" where
  "mosquitto_write_uint16 p word =
     do { p \<leftarrow> mosquitto_write_byte p (MOSQ_MSB word); mosquitto_write_byte p (MOSQ_LSB word) }"

text \<open>The buffer a string is read into has a NUL behind the \<open>len\<close> bytes (\<open>calloc(len+1)\<close>).\<close>

definition mosquitto_read_string ::
    "packet \<Rightarrow> bool list \<Rightarrow> (int \<times> u8 list \<times> packet \<times> bool list) option" where
  "mosquitto_read_string p al =
     do {
       (rc, len, p) \<leftarrow> mosquitto_read_uint16 p;
       if rc \<noteq> MOSQ_ERR_SUCCESS then Some (rc, [], p, al)
       else if pk_pos p + ucast len > pk_remaining_length p then Some (MOSQ_ERR_PROTOCOL, [], p, al)
       else
         (case malloc_ok al of
            (False, al') \<Rightarrow> Some (MOSQ_ERR_NOMEM, [], p, al')
          | (True, al') \<Rightarrow>
              (case pk_payload p of
                 None \<Rightarrow> None
               | Some buf \<Rightarrow>
                   if unat (pk_pos p) + unat len \<le> length buf
                   then Some (MOSQ_ERR_SUCCESS, take (unat len) (drop (unat (pk_pos p)) buf) @ [0],
                              p\<lparr>pk_pos := pk_pos p + ucast len\<rparr>, al')
                   else None))
     }"

definition mosquitto_write_string :: "packet \<Rightarrow> u8 list \<Rightarrow> u16 \<Rightarrow> packet option" where
  "mosquitto_write_string p str len =
     do { p \<leftarrow> mosquitto_write_uint16 p len; mosquitto_write_bytes p str (ucast len) }"

section \<open>The size field\<close>

text \<open>Reference: the variable-length encoding of MQTT, seven bits a byte, low bits first.\<close>

fun vbi :: "nat \<Rightarrow> u8 list" where
  "vbi n = (if n < 128 then [of_nat n] else of_nat (n mod 128 + 128) # vbi (n div 128))"

fun vbi_decode :: "u8 list \<Rightarrow> nat" where
  "vbi_decode [] = 0"
| "vbi_decode (b # bs) = unat b mod 128 + 128 * vbi_decode bs"

declare vbi.simps [simp del]

lemma or_128: "x < (128 :: u8) \<Longrightarrow> x OR 128 = x + 128"
proof -
  assume "x < 128"
  then have "x AND mask 7 = x" by (intro less_mask_eq) simp
  then have "\<not> (bit x n \<and> bit (2 ^ 7 :: u8) n)" for n
    by (metis bit_and_iff bit_mask_iff bit_exp_iff less_irrefl)
  then have "x AND 2 ^ 7 = 0" by (intro bit_eqI) (auto simp: bit_simps)
  then show ?thesis using disjunctive_add_eq_or [of x "2 ^ 7"] by simp
qed

lemma size_byte_low: "(ucast (rl mod 128 :: u32) :: u8) = of_nat (unat rl mod 128)"
proof -
  have "unat (ucast (rl mod 128) :: u8) = unat rl mod 128"
    by (simp add: unsigned_ucast_eq take_bit_eq_mod unat_mod)
  then show ?thesis using word_unat_eq_iff by (auto simp: word_unat_eq_iff unat_of_nat)
qed

lemma size_byte_high: "(ucast (rl mod 128 :: u32) :: u8) OR 128 = of_nat (unat rl mod 128 + 128)"
proof -
  have "(of_nat (unat rl mod 128) :: u8) < 128" by (simp add: word_less_nat_alt unat_of_nat)
  then show ?thesis by (simp add: size_byte_low or_128)
qed

lemma word_div_128: "unat (rl div 128 :: u32) = unat rl div 128" "rl div 128 > 0 \<longleftrightarrow> unat rl \<ge> 128"
proof -
  show "unat (rl div 128 :: u32) = unat rl div 128" by (simp add: unat_div)
  then show "rl div 128 > 0 \<longleftrightarrow> unat rl \<ge> 128"
    by (simp add: word_less_nat_alt div_greater_zero_iff)
qed

lemma remaining_bytes_loop_vbi:
  "\<lbrakk>length bs < 4; unat rl < 128 ^ (4 - length bs)\<rbrakk> \<Longrightarrow>
     remaining_bytes_loop rl bs = bs @ vbi (unat rl)"
proof (induction rl bs rule: remaining_bytes_loop.induct)
  case (1 rl bs)
  show ?case
  proof (cases "unat rl < 128")
    case True
    then show ?thesis
      by (subst remaining_bytes_loop.simps) (simp add: word_div_128 vbi.simps size_byte_low)
  next
    case False
    then have l: "Suc (length bs) < 4" using "1.prems" by (cases "length bs = 3") auto
    then obtain k where k: "4 - length bs = Suc k" "4 - Suc (length bs) = k"
      by (cases "4 - length bs") auto
    then have "unat rl div 128 < 128 ^ (4 - Suc (length bs))"
      using "1.prems"(2) by (simp add: div_less_iff_less_mult mult.commute)
    then show ?thesis using "1.IH" [OF refl refl refl refl] False l
      by (subst remaining_bytes_loop.simps, subst vbi.simps)
         (simp add: word_div_128 size_byte_high)
  qed
qed

lemma remaining_bytes_loop_too_long:
  "\<lbrakk>length bs \<le> 4; unat rl \<ge> 128 ^ (4 - length bs)\<rbrakk> \<Longrightarrow>
     length (remaining_bytes_loop rl bs) = 5"
proof (induction rl bs rule: remaining_bytes_loop.induct)
  case (1 rl bs)
  show ?case
  proof (cases "length bs = 4")
    case True
    then show ?thesis by (subst remaining_bytes_loop.simps) (simp add: Let_def)
  next
    case False
    then obtain k where k: "4 - length bs = Suc k" "4 - Suc (length bs) = k" "Suc (length bs) \<le> 4"
      using "1.prems"(1) by (cases "4 - length bs") auto
    have "128 \<le> unat rl" "128 ^ k \<le> unat rl div 128"
      using "1.prems"(2) k
      by (auto simp: less_eq_div_iff_mult_less_eq mult.commute intro: order_trans [rotated])
    then show ?thesis using "1.IH" [OF refl refl refl refl] k
      by (subst remaining_bytes_loop.simps) (simp add: word_div_128 Let_def)
  qed
qed

lemma vbi_decode_vbi: "vbi_decode (vbi n) = n"
proof (induction n rule: vbi.induct)
  case (1 n)
  have "unat (of_nat (n mod 128 + 128) :: u8) = n mod 128 + 128"
    by (simp only: unat_of_nat) simp
  then show ?case using 1 by (subst vbi.simps) (auto simp: unat_of_nat simp del: of_nat_add)
qed

lemma length_vbi_le: "n < 128 ^ k \<Longrightarrow> 0 < k \<Longrightarrow> length (vbi n) \<le> k"
proof (induction n arbitrary: k rule: vbi.induct)
  case (1 n)
  show ?case
  proof (cases "n < 128")
    case True
    then show ?thesis using "1.prems" by (subst vbi.simps) simp
  next
    case False
    then obtain j where j: "k = Suc j" "0 < j" using "1.prems" by (cases k; cases "k - 1") auto
    have "n div 128 < 128 ^ j" using "1.prems"(1) j by (simp add: div_less_iff_less_mult mult.commute)
    then show ?thesis using "1.IH" [OF False _ j(2)] False j(1) by (subst vbi.simps) simp
  qed
qed

section \<open>Views of a packet while it is written or read\<close>

text \<open>
  \<open>at_pos p d rest\<close> is the packet \<open>p\<close> with the bytes \<open>d\<close> before its position and \<open>rest\<close> from
  there on. Writers replace a prefix of \<open>rest\<close>, readers consume one.
\<close>

definition at_pos :: "packet \<Rightarrow> u8 list \<Rightarrow> u8 list \<Rightarrow> packet" where
  "at_pos p d rest = p\<lparr>pk_payload := Some (d @ rest), pk_pos := of_nat (length d)\<rparr>"

definition wr_fits :: "packet \<Rightarrow> u8 list \<Rightarrow> u8 list \<Rightarrow> bool" where
  "wr_fits p d rest \<longleftrightarrow> length d + length rest = unat (pk_packet_length p)"

definition rd_fits :: "packet \<Rightarrow> u8 list \<Rightarrow> u8 list \<Rightarrow> bool" where
  "rd_fits p d rest \<longleftrightarrow> length d + length rest = unat (pk_remaining_length p)
     \<and> length d + length rest < 2 ^ 31"

lemma at_pos_sel [simp]:
  "pk_payload (at_pos p d rest) = Some (d @ rest)"
  "pk_pos (at_pos p d rest) = of_nat (length d)"
  "pk_command (at_pos p d rest) = pk_command p"
  "pk_packet_length (at_pos p d rest) = pk_packet_length p"
  "pk_remaining_length (at_pos p d rest) = pk_remaining_length p"
  "pk_mid (at_pos p d rest) = pk_mid p"
  "pk_to_process (at_pos p d rest) = pk_to_process p"
  by (simp_all add: at_pos_def)

lemma u32_pos:
  fixes w :: u32
  assumes "n + k \<le> unat w"
  shows "of_nat n + of_nat k \<le> w" "unat (of_nat n :: u32) = n" "unat (of_nat k :: u32) = k"
proof -
  have "n + k < 2 ^ 32" using assms unsigned_less [of w, where 'a = nat] by simp
  then have u: "unat (of_nat (n + k) :: u32) = n + k"
    and "unat (of_nat n :: u32) = n" "unat (of_nat k :: u32) = k"
    by (simp_all only: unat_of_nat) simp_all
  then show "unat (of_nat n :: u32) = n" "unat (of_nat k :: u32) = k" by auto
  show "of_nat n + of_nat k \<le> w"
    using assms u unfolding of_nat_add [symmetric] word_le_nat_alt by simp
qed

lemma write_byte_at:
  assumes "wr_fits p d rest" "rest \<noteq> []"
  shows "mosquitto_write_byte (at_pos p d rest) b = Some (at_pos p (d @ [b]) (drop 1 rest))"
proof -
  have "length d + 1 \<le> unat (pk_packet_length p)" using assms by (cases rest) (auto simp: wr_fits_def)
  note u = u32_pos [OF this]
  show ?thesis using u assms(2)
    by (cases rest) (auto simp: mosquitto_write_byte_def at_pos_def add.commute)
qed

lemma write_bytes_at:
  assumes "wr_fits p d rest" "n = length bs" "length bs \<le> length rest"
  shows "mosquitto_write_bytes (at_pos p d rest) bs (of_nat n) =
    Some (at_pos p (d @ bs) (drop n rest))"
proof -
  have "length d + length bs \<le> unat (pk_packet_length p)" using assms by (auto simp: wr_fits_def)
  note u = u32_pos [OF this]
  show ?thesis using u assms(2,3) by (auto simp: mosquitto_write_bytes_def at_pos_def)
qed

lemma wr_fits_advance:
  "wr_fits p d rest \<Longrightarrow> length bs \<le> length rest \<Longrightarrow> n = length bs \<Longrightarrow> wr_fits p (d @ bs) (drop n rest)"
  by (auto simp: wr_fits_def)

lemma write_uint16_at:
  assumes "wr_fits p d rest" "2 \<le> length rest"
  shows "mosquitto_write_uint16 (at_pos p d rest) w =
    Some (at_pos p (d @ [MOSQ_MSB w, MOSQ_LSB w]) (drop 2 rest))"
proof -
  have "wr_fits p (d @ [MOSQ_MSB w]) (drop 1 rest)" using assms by (intro wr_fits_advance) auto
  moreover have "drop 1 rest \<noteq> []" "rest \<noteq> []" using assms(2) by auto
  ultimately show ?thesis
    using assms(1) by (simp add: mosquitto_write_uint16_def write_byte_at numeral_2_eq_2)
qed

lemma write_string_at:
  assumes "wr_fits p d rest" "n = length bs" "2 + n \<le> length rest" "n < 2 ^ 16"
  shows "mosquitto_write_string (at_pos p d rest) bs (of_nat n) =
    Some (at_pos p (d @ [MOSQ_MSB (of_nat n), MOSQ_LSB (of_nat n)] @ bs) (drop (2 + n) rest))"
proof -
  let ?h = "[MOSQ_MSB (of_nat n), MOSQ_LSB (of_nat n)]"
  have "unat (of_nat n :: u16) = n" using assms(4) by (simp add: unat_of_nat)
  then have "(ucast (of_nat n :: u16) :: u32) = of_nat n"
    by (metis of_nat_unat)
  moreover have "wr_fits p (d @ ?h) (drop 2 rest)" using assms by (intro wr_fits_advance) auto
  ultimately show ?thesis using assms
    by (simp add: mosquitto_write_string_def write_uint16_at write_bytes_at add.commute)
qed

lemma MSB_LSB: "push_bit 8 (ucast (MOSQ_MSB w)) + ucast (MOSQ_LSB w) = (w :: u16)"
proof -
  let ?h = "push_bit 8 (ucast (MOSQ_MSB w)) :: u16" and ?l = "ucast (MOSQ_LSB w) :: u16"
  have l: "(0xFF :: u16) = mask 8" by (simp add: mask_eq_exp_minus_1)
  have h: "(0xFF00 :: u16) = push_bit 8 (mask 8)" by (simp add: mask_eq_exp_minus_1 push_bit_eq_mult)
  have "?h AND ?l = 0"
    by (rule bit_eqI) (auto simp: MOSQ_LSB_def MOSQ_MSB_def l h bit_simps)
  then have "?h + ?l = ?h OR ?l" by (rule disjunctive_add_eq_or)
  also have "\<dots> = w"
    by (rule bit_eqI) (auto simp: MOSQ_LSB_def MOSQ_MSB_def l h bit_simps)
  finally show ?thesis .
qed

lemma u32_past:
  fixes w :: u32
  assumes "n + k < 2 ^ 32"
  shows "of_nat n + of_nat k > w \<longleftrightarrow> n + k > unat w"
proof -
  have "unat (of_nat (n + k) :: u32) = n + k" using assms by (simp only: unat_of_nat) simp
  then show ?thesis unfolding of_nat_add [symmetric] word_less_nat_alt by simp
qed

lemma rd_fits_bound: "rd_fits p d rest \<Longrightarrow> length d < 2 ^ 31 \<and> length rest < 2 ^ 31
    \<and> unat (pk_remaining_length p) = length d + length rest"
  by (auto simp: rd_fits_def)

lemma unat_u32: "n < 2 ^ 32 \<Longrightarrow> unat (of_nat n :: u32) = n"
  by (simp add: unat_of_nat)

lemma u32_minus:
  fixes w :: u32
  assumes "k \<le> unat w"
  shows "unat (w - of_nat k) = unat w - k"
proof -
  have "k < 2 ^ 32" using assms unsigned_less [of w, where 'a = nat] by simp
  then have "unat (of_nat k :: u32) = k" by (rule unat_u32)
  then show ?thesis using unat_sub [of "of_nat k" w] assms by (simp add: word_le_nat_alt)
qed

lemma u32_minus_int:
  fixes w :: u32
  assumes "0 \<le> n" "nat n \<le> unat w"
  shows "unat (w - of_int n) = unat w - nat n"
proof -
  have "(of_int n :: u32) = of_nat (nat n)" using assms by simp
  then show ?thesis using u32_minus [of "nat n" w] assms by simp
qed

lemma read_byte_at:
  assumes "rd_fits p d rest"
  shows "mosquitto_read_byte (at_pos p d rest) =
    (case rest of [] \<Rightarrow> Some (MOSQ_ERR_PROTOCOL, 0, at_pos p d rest)
     | b # r \<Rightarrow> Some (MOSQ_ERR_SUCCESS, b, at_pos p (d @ [b]) r))"
  using rd_fits_bound [OF assms] u32_past [of "length d" 1 "pk_remaining_length p"]
    unat_u32 [of "length d"]
  by (cases rest) (auto simp: mosquitto_read_byte_def at_pos_def add.commute)

lemma read_bytes_at:
  assumes "rd_fits p d rest" "n < 2 ^ 31"
  shows "mosquitto_read_bytes (at_pos p d rest) (of_nat n) =
    (if n > length rest then Some (MOSQ_ERR_PROTOCOL, [], at_pos p d rest)
     else Some (MOSQ_ERR_SUCCESS, take n rest, at_pos p (d @ take n rest) (drop n rest)))"
  using rd_fits_bound [OF assms(1)] u32_past [of "length d" n "pk_remaining_length p"]
    unat_u32 [of "length d"] unat_u32 [of n] assms(2)
  by (auto simp: mosquitto_read_bytes_def at_pos_def min_def)

lemma read_uint16_at:
  assumes "rd_fits p d rest"
  shows "mosquitto_read_uint16 (at_pos p d rest) =
    (case rest of a # b # r \<Rightarrow>
       Some (MOSQ_ERR_SUCCESS, push_bit 8 (ucast a) + ucast b, at_pos p (d @ [a, b]) r)
     | _ \<Rightarrow> Some (MOSQ_ERR_PROTOCOL, 0, at_pos p d rest))"
  using rd_fits_bound [OF assms] u32_past [of "length d" 2 "pk_remaining_length p"]
    unat_u32 [of "length d"]
  by (auto simp: mosquitto_read_uint16_def at_pos_def add.commute nth_append add.left_commute
      split: list.splits)

lemma rd_fits_advance: "rd_fits p d (bs @ rest) \<Longrightarrow> rd_fits p (d @ bs) rest"
  by (auto simp: rd_fits_def)

lemma rd_fits_advance2: "rd_fits p d (a # b # rest) \<Longrightarrow> rd_fits p (d @ [a, b]) rest"
  by (auto simp: rd_fits_def)

lemma read_string_at:
  assumes "rd_fits p d (a # b # rest)"
  shows "mosquitto_read_string (at_pos p d (a # b # rest)) al =
    (let n = unat (push_bit 8 (ucast a) + ucast b :: u16) in
     if n > length rest then Some (MOSQ_ERR_PROTOCOL, [], at_pos p (d @ [a, b]) rest, al)
     else case malloc_ok al of
         (False, al') \<Rightarrow> Some (MOSQ_ERR_NOMEM, [], at_pos p (d @ [a, b]) rest, al')
       | (True, al') \<Rightarrow> Some (MOSQ_ERR_SUCCESS, take n rest @ [0],
           at_pos p (d @ [a, b] @ take n rest) (drop n rest), al'))"
proof -
  define len :: u16 where "len = push_bit 8 (ucast a) + ucast b"
  let ?d = "d @ [a, b]"
  have n: "unat len < 2 ^ 16" using unsigned_less [of len, where 'a = nat] by simp
  have c: "(ucast len :: u32) = of_nat (unat len)" by (metis of_nat_unat)
  have f: "rd_fits p ?d rest" using assms by (rule rd_fits_advance2)
  have past: "of_nat (length ?d) + of_nat (unat len) > pk_remaining_length p \<longleftrightarrow> unat len > length rest"
    using u32_past [of "length ?d" "unat len" "pk_remaining_length p"] rd_fits_bound [OF f] n by auto
  have pos: "unat (of_nat (length ?d) :: u32) = length ?d"
    using rd_fits_bound [OF f] by (intro unat_u32) simp
  have "mosquitto_read_uint16 (at_pos p d (a # b # rest)) = Some (MOSQ_ERR_SUCCESS, len, at_pos p ?d rest)"
    using read_uint16_at [OF assms] by (simp add: len_def)
  then show ?thesis using past pos
    unfolding mosquitto_read_string_def len_def [symmetric] at_pos_sel c Let_def
    by (cases "malloc_ok al") (auto simp: at_pos_def min_def split: bool.splits)
qed

section \<open>Allocation\<close>

definition alloc_packet :: "packet \<Rightarrow> packet" where
  "alloc_packet p = p\<lparr>pk_remaining_count := of_nat (length (vbi (unat (pk_remaining_length p)))),
     pk_packet_length := of_nat (1 + length (vbi (unat (pk_remaining_length p))) + unat (pk_remaining_length p))\<rparr>"

lemma alloc_packet_sel [simp]:
  "pk_command (alloc_packet p) = pk_command p"
  "pk_remaining_length (alloc_packet p) = pk_remaining_length p"
  "pk_mid (alloc_packet p) = pk_mid p"
  "pk_to_process (alloc_packet p) = pk_to_process p"
  by (simp_all add: alloc_packet_def)

lemma packet_alloc_too_long:
  "unat (pk_remaining_length p) \<ge> 268435456 \<Longrightarrow>
    mosquitto_packet_alloc junk p al =
      (MOSQ_ERR_PAYLOAD_SIZE, p\<lparr>pk_payload := None, pk_remaining_count := 5\<rparr>, al)"
  using remaining_bytes_loop_too_long [of "[]" "pk_remaining_length p"]
  by (simp add: mosquitto_packet_alloc_def Let_def)

lemma packet_alloc_at:
  fixes p :: packet
  defines "n \<equiv> unat (pk_remaining_length p)"
  assumes "n < 268435456"
  shows "mosquitto_packet_alloc junk p al =
    (case malloc_ok al of
       (False, al') \<Rightarrow> (MOSQ_ERR_NOMEM, (alloc_packet p)\<lparr>pk_payload := None\<rparr>, al')
     | (True, al') \<Rightarrow> (MOSQ_ERR_SUCCESS,
         at_pos (alloc_packet p) (pk_command p # vbi n)
           (drop (1 + length (vbi n)) (malloc_buf junk (1 + length (vbi n) + n))), al'))"
    and "unat (pk_packet_length (alloc_packet p)) = 1 + length (vbi n) + n"
proof -
  have v: "remaining_bytes_loop (pk_remaining_length p) [] = vbi n"
    using remaining_bytes_loop_vbi [of "[]" "pk_remaining_length p"] assms by simp
  have l: "length (vbi n) \<le> 4" using length_vbi_le [of n 4] assms by simp
  have c: "unat (of_nat (length (vbi n)) :: u8) = length (vbi n)" using l by (simp add: unat_of_nat)
  then have c5: "(of_nat (length (vbi n)) :: u8) \<noteq> 5" using l by auto
  have cc: "(ucast (of_nat (length (vbi n)) :: u8) :: u32) = of_nat (length (vbi n))"
    using c by (metis of_nat_unat)
  have pl: "pk_remaining_length p + 1 + of_nat (length (vbi n)) = of_nat (1 + length (vbi n) + n)"
    by (simp add: n_def)
  show u: "unat (pk_packet_length (alloc_packet p)) = 1 + length (vbi n) + n"
    using assms(2) l unat_u32 [of "1 + length (vbi n) + n"]
    by (simp add: alloc_packet_def n_def del: of_nat_add of_nat_Suc)
  then have u': "unat (of_nat (1 + length (vbi n) + n) :: u32) = 1 + length (vbi n) + n"
    by (simp add: alloc_packet_def n_def)
  show "mosquitto_packet_alloc junk p al =
    (case malloc_ok al of
       (False, al') \<Rightarrow> (MOSQ_ERR_NOMEM, (alloc_packet p)\<lparr>pk_payload := None\<rparr>, al')
     | (True, al') \<Rightarrow> (MOSQ_ERR_SUCCESS,
         at_pos (alloc_packet p) (pk_command p # vbi n)
           (drop (1 + length (vbi n)) (malloc_buf junk (1 + length (vbi n) + n))), al'))"
    unfolding mosquitto_packet_alloc_def v Let_def at_pos_def alloc_packet_def n_def [symmetric]
    using c5 u' by (cases "malloc_ok al") (auto simp: cc pl split: bool.splits)
qed

lemma alloc_fits:
  "unat (pk_remaining_length p) < 268435456 \<Longrightarrow>
    wr_fits (alloc_packet p) (pk_command p # vbi (unat (pk_remaining_length p)))
      (drop (1 + length (vbi (unat (pk_remaining_length p))))
        (malloc_buf junk (1 + length (vbi (unat (pk_remaining_length p))) + unat (pk_remaining_length p))))"
  using packet_alloc_at(2) [of p] by (simp add: wr_fits_def malloc_buf_def)

section \<open>Properties\<close>

text \<open>
  C22: \<open>_mosquitto_packet_alloc\<close> refuses exactly the sizes that the protocol's size field cannot
  hold. Otherwise, if memory is available, the buffer is as long as \<open>packet_length\<close>, starts with
  the command byte and the variable-length encoding of the size, and the position is right
  behind them, so that the size is what the receiver decodes.
\<close>
theorem packet_alloc_layout:
  "let n = unat (pk_remaining_length p); (rc, p', al') = mosquitto_packet_alloc junk p [] in
   if n \<ge> 268435456 then rc = MOSQ_ERR_PAYLOAD_SIZE \<and> pk_payload p' = None
   else rc = MOSQ_ERR_SUCCESS \<and> vbi_decode (vbi n) = n \<and> length (vbi n) \<le> 4 \<and>
     unat (pk_packet_length p') = 1 + length (vbi n) + n \<and>
     unat (pk_pos p') = 1 + length (vbi n) \<and>
     (\<exists>rest. pk_payload p' = Some (pk_command p # vbi n @ rest) \<and> length rest = n)"
proof (cases "unat (pk_remaining_length p) \<ge> 268435456")
  case False
  have l: "length (vbi (unat (pk_remaining_length p))) \<le> 4" using length_vbi_le [of _ 4] False by simp
  then have "unat (1 + of_nat (length (vbi (unat (pk_remaining_length p)))) :: u32) =
      Suc (length (vbi (unat (pk_remaining_length p))))"
    using unat_u32 [of "Suc (length (vbi (unat (pk_remaining_length p))))"] by simp
  then show ?thesis
    using False packet_alloc_at(1) [of p junk "[]"] packet_alloc_at(2) [of p] l by (simp add: vbi_decode_vbi malloc_buf_def Let_def)
qed (simp add: packet_alloc_too_long)

text \<open>
  C23: what \<open>_mosquitto_write_string\<close> puts into a packet, \<open>_mosquitto_read_string\<close> takes out
  again: for a string of less than 65536 bytes the reader returns the string with a NUL behind
  it and stands right after it, whatever follows in the buffer.
\<close>
theorem string_roundtrip:
  assumes "wr_fits w d old" "2 + length str \<le> length old" "length str < 65536"
    and "mosquitto_write_string (at_pos w d old) str (of_nat (length str)) = Some w'"
    and "rd_fits r e (drop (length d) (the (pk_payload w')))"
  shows "\<exists>r'. mosquitto_read_string (at_pos r e (drop (length d) (the (pk_payload w')))) [] =
      Some (MOSQ_ERR_SUCCESS, str @ [0], r', [])
    \<and> unat (pk_pos r') = length e + 2 + length str"
proof -
  let ?n = "of_nat (length str) :: u16"
  have n: "unat ?n = length str" using assms(3) by (simp add: unat_of_nat)
  have w: "w' = at_pos w (d @ [MOSQ_MSB ?n, MOSQ_LSB ?n] @ str) (drop (2 + length str) old)"
    using write_string_at [OF assms(1) refl assms(2)] assms(3,4) by simp
  have "length e + 2 + length str < 2 ^ 32"
    using rd_fits_bound [OF assms(5)] assms(3) by simp
  then show ?thesis using read_string_at [OF assms(5) [unfolded w, simplified]] n
    by (simp add: w MSB_LSB unat_u32 Let_def del: of_nat_add of_nat_Suc)
qed

theorem string_roundtrip_witness:
  "\<exists>r'. mosquitto_read_string (at_pos (packet_calloc\<lparr>pk_remaining_length := 6\<rparr>) [] [0, 2, 104, 105, 0, 0]) [] =
      Some (MOSQ_ERR_SUCCESS, [104, 105, 0], r', []) \<and> unat (pk_pos r') = 4"
proof -
  let ?w = "packet_calloc\<lparr>pk_packet_length := 7\<rparr>"
  have w: "mosquitto_write_string (at_pos ?w [1] [0, 0, 0, 0, 0, 0]) [104, 105] (of_nat (length [104, 105 :: u8])) =
      Some (at_pos ?w [1, 0, 2, 104, 105] [0, 0])"
    by (simp add: mosquitto_write_string_def mosquitto_write_uint16_def mosquitto_write_byte_def
        mosquitto_write_bytes_def at_pos_def packet_calloc_def MOSQ_MSB_def MOSQ_LSB_def)
  have r: "drop (length [1 :: u8]) (the (pk_payload (at_pos ?w [1, 0, 2, 104, 105] [0, 0]))) =
      [0, 2, 104, 105, 0, 0]" by simp
  have n: "Suc (Suc (Suc (Suc 0))) = 4" by simp
  show ?thesis
    using string_roundtrip [OF _ _ _ w, unfolded r, of "packet_calloc\<lparr>pk_remaining_length := 6\<rparr>" "[]"]
    by (simp add: wr_fits_def rd_fits_def n)
qed

end
