(* ===== verification/Client_State.thy ===== *)
theory Client_State
  imports Packet
begin

text \<open>
  The state of a client, \<open>struct mosquitto\<close> of \<open>mosquitto/lib/mosquitto_internal.h\<close>, with the
  part of the environment its code observes.

  \<^item> Environment (prefix \<open>e_\<close>): the clock, the outcomes of future allocations, the contents of
    fresh memory, \<open>errno\<close>, what the socket will deliver (\<open>e_rx\<close>) and accept (\<open>e_wr\<close>), the
    bytes the socket has accepted so far (\<open>e_tx\<close>), and the results of future attempts to connect
    (\<open>e_connects\<close>: return code and socket of \<open>_mosquitto_try_connect\<close>).
  \<^item> Client (prefix \<open>c_\<close>): the fields of the structure. The list of out packets is a list (its
    last pointer is read only when the list is not empty, and is the end of the list then). The
    two message lists keep their last pointers, because the code can set them wrongly.
  \<^item> A mutex that is held while other functions of the library or callbacks run is a boolean;
    locking it twice in one thread is a deadlock. The mutexes that guard single accesses
    (\<open>out_packet_mutex\<close>, \<open>msgtime_mutex\<close>, \<open>state_mutex\<close>) are left out.
  \<^item> The callbacks are code of the application, a parameter \<open>app\<close> of the operations that call
    them; \<open>c_userdata\<close> is its state. The pointers are booleans that say whether one is set.
  \<^item> TLS is not configured (\<open>ssl\<close> is NULL), so the fields of TLS, and logging, are left out.
\<close>

section \<open>Constants\<close>

abbreviation INVALID_SOCKET :: int where "INVALID_SOCKET \<equiv> -1"
abbreviation EAGAIN :: int where "EAGAIN \<equiv> 11"
abbreviation ECONNRESET :: int where "ECONNRESET \<equiv> 104"
abbreviation EINVAL :: int where "EINVAL \<equiv> 22"
abbreviation ENOMEM :: int where "ENOMEM \<equiv> 12"

abbreviation CONNECT :: u8 where "CONNECT \<equiv> 0x10"
abbreviation CONNACK :: u8 where "CONNACK \<equiv> 0x20"
abbreviation PUBLISH :: u8 where "PUBLISH \<equiv> 0x30"
abbreviation PUBACK :: u8 where "PUBACK \<equiv> 0x40"
abbreviation PUBREC :: u8 where "PUBREC \<equiv> 0x50"
abbreviation PUBREL :: u8 where "PUBREL \<equiv> 0x60"
abbreviation PUBCOMP :: u8 where "PUBCOMP \<equiv> 0x70"
abbreviation SUBSCRIBE :: u8 where "SUBSCRIBE \<equiv> 0x80"
abbreviation SUBACK :: u8 where "SUBACK \<equiv> 0x90"
abbreviation UNSUBSCRIBE :: u8 where "UNSUBSCRIBE \<equiv> 0xA0"
abbreviation UNSUBACK :: u8 where "UNSUBACK \<equiv> 0xB0"
abbreviation PINGREQ :: u8 where "PINGREQ \<equiv> 0xC0"
abbreviation PINGRESP :: u8 where "PINGRESP \<equiv> 0xD0"
abbreviation DISCONNECT :: u8 where "DISCONNECT \<equiv> 0xE0"

abbreviation MQTT_MAX_PAYLOAD :: int where "MQTT_MAX_PAYLOAD \<equiv> 268435455"

section \<open>Data\<close>

datatype msg_direction = mosq_md_in | mosq_md_out

datatype msg_state =
    mosq_ms_invalid | mosq_ms_publish_qos0 | mosq_ms_publish_qos1 | mosq_ms_wait_for_puback
  | mosq_ms_publish_qos2 | mosq_ms_wait_for_pubrec | mosq_ms_resend_pubrel
  | mosq_ms_wait_for_pubrel | mosq_ms_resend_pubcomp | mosq_ms_wait_for_pubcomp
  | mosq_ms_send_pubrec | mosq_ms_queued

datatype client_state =
    mosq_cs_new | mosq_cs_connected | mosq_cs_disconnecting | mosq_cs_connect_async
  | mosq_cs_connect_pending | mosq_cs_connect_srv

datatype mosq_protocol = mosq_p_invalid | mosq_p_mqtt31 | mosq_p_mqtt311 | mosq_p_mqtts

text \<open>\<open>struct mosquitto_message\<close>: the payload buffer may be longer than \<open>payloadlen\<close>.\<close>

record message =
  m_mid :: int
  m_topic :: "string option"
  m_payload :: "u8 list option"
  m_payloadlen :: int
  m_qos :: int
  m_retain :: bool

record message_all =
  ma_timestamp :: int
  ma_state :: msg_state
  ma_dup :: bool
  ma_msg :: message

definition message_calloc :: message where
  "message_calloc = \<lparr>m_mid = 0, m_topic = None, m_payload = None, m_payloadlen = 0, m_qos = 0,
     m_retain = False\<rparr>"

definition message_all_calloc :: message_all where
  "message_all_calloc = \<lparr>ma_timestamp = 0, ma_state = mosq_ms_invalid, ma_dup = False,
     ma_msg = message_calloc\<rparr>"

text \<open>
  The last pointer of a message list: NULL, the end of the list, or an element in the middle of it. The two lists share the code, and
  \<open>_mosquitto_messages_reconnect_reset\<close> can leave the pointer of one list at an element of the other; then elements of
  the lists can be cut off, and a pointer can be at an element that is in neither list, or that was freed.
\<close>

datatype msg_end = E_null | E_list | E_at nat | E_other nat | E_lost | E_freed

text \<open>What \<open>read\<close> will return: some bytes (none: end of file) or an error with its number.\<close>

datatype rx_event = Rx_data "u8 list" | Rx_err int

text \<open>What \<open>write\<close> will accept: at most so many bytes, or an error.\<close>

datatype wr_event = Wr_n nat | Wr_err int

datatype cb_event =
    On_connect int
  | On_disconnect int
  | On_publish int
  | On_message message
  | On_subscribe int int "int list"
  | On_unsubscribe int

record 'u mosq =
  e_now :: int
  e_allocs :: "bool list"
  e_junk :: "nat \<Rightarrow> u8"
  e_errno :: int
  e_rx :: "rx_event list"
  e_wr :: "wr_event list"
  e_tx :: "u8 list"
  e_connects :: "(int \<times> int) list"
  c_sock :: int
  c_protocol :: mosq_protocol
  c_id :: "string option"
  c_username :: "string option"
  c_password :: "string option"
  c_keepalive :: u16
  c_clean_session :: bool
  c_state :: client_state
  c_last_msg_in :: int
  c_last_msg_out :: int
  c_ping_t :: int
  c_last_mid :: u16
  c_in_packet :: packet
  c_current_out_packet :: "packet option"
  c_out_packet :: "packet list"
  c_will :: "message option"
  c_callback_mutex :: bool
  c_current_out_packet_mutex :: bool
  c_in_message_mutex :: bool
  c_out_message_mutex :: bool
  c_userdata :: 'u
  c_in_callback :: bool
  c_message_retry :: int
  c_last_retry_check :: int
  c_in_messages :: "message_all list"
  c_in_messages_last :: msg_end
  c_out_messages :: "message_all list"
  c_out_messages_last :: msg_end
  c_on_connect :: bool
  c_on_disconnect :: bool
  c_on_publish :: bool
  c_on_message :: bool
  c_on_subscribe :: bool
  c_on_unsubscribe :: bool
  c_host :: "string option"
  c_port :: int
  c_in_queue_len :: int
  c_out_queue_len :: int
  c_bind_address :: "string option"
  c_threaded :: bool
  c_inflight_messages :: int
  c_max_inflight_messages :: int

type_synonym 'u app = "cb_event \<Rightarrow> 'u mosq \<Rightarrow> 'u mosq option"
type_synonym 'u res = "(int \<times> 'u mosq) option"

section \<open>Allocation and callbacks\<close>

definition mosq_alloc :: "'u mosq \<Rightarrow> bool \<times> 'u mosq" where
  "mosq_alloc m = (case malloc_ok (e_allocs m) of (b, al) \<Rightarrow> (b, m\<lparr>e_allocs := al\<rparr>))"

fun cb_registered :: "cb_event \<Rightarrow> 'u mosq \<Rightarrow> bool" where
  "cb_registered (On_connect _) m = c_on_connect m"
| "cb_registered (On_disconnect _) m = c_on_disconnect m"
| "cb_registered (On_publish _) m = c_on_publish m"
| "cb_registered (On_message _) m = c_on_message m"
| "cb_registered (On_subscribe _ _ _) m = c_on_subscribe m"
| "cb_registered (On_unsubscribe _) m = c_on_unsubscribe m"

text \<open>
  Every callback is called the same way: lock \<open>callback_mutex\<close>, and if the callback is set, call
  it with \<open>in_callback\<close> true. \<open>callback\<close> unlocks the mutex again, \<open>callback_keep_lock\<close> does not.
\<close>

definition callback_keep_lock :: "'u app \<Rightarrow> cb_event \<Rightarrow> 'u mosq \<Rightarrow> 'u mosq option" where
  "callback_keep_lock app ev m =
     (if c_callback_mutex m then None
      else
        (let m = m\<lparr>c_callback_mutex := True\<rparr> in
         if cb_registered ev m
         then do { m \<leftarrow> app ev (m\<lparr>c_in_callback := True\<rparr>); Some (m\<lparr>c_in_callback := False\<rparr>) }
         else Some m))"

definition callback :: "'u app \<Rightarrow> cb_event \<Rightarrow> 'u mosq \<Rightarrow> 'u mosq option" where
  "callback app ev m =
     do { m \<leftarrow> callback_keep_lock app ev m; Some (m\<lparr>c_callback_mutex := False\<rparr>) }"

text \<open>
  An application that only changes its own state, and the one that logs the calls it gets.
\<close>

definition passive_app :: "'u app \<Rightarrow> bool" where
  "passive_app app \<longleftrightarrow> (\<forall>ev m. \<exists>u. app ev m = Some (m\<lparr>c_userdata := u\<rparr>))"

definition log_app :: "cb_event list app" where
  "log_app ev m = Some (m\<lparr>c_userdata := c_userdata m @ [ev]\<rparr>)"

text \<open>An application that does not call back into the library, though it may fail.\<close>

definition quiet_app :: "'u app \<Rightarrow> bool" where
  "quiet_app app \<longleftrightarrow> (\<forall>ev m m'. app ev m = Some m' \<longrightarrow> (\<exists>al u. m' = m\<lparr>e_allocs := al, c_userdata := u\<rparr>))"

lemma quiet_log_app [simp]: "quiet_app log_app"
  unfolding quiet_app_def log_app_def
  by (metis mosq.surjective mosq.update_convs(2) option.inject)

lemma passive_log_app [simp]: "passive_app log_app"
  by (auto simp: passive_app_def log_app_def)

lemma callback_passive:
  assumes "passive_app app" "\<not> c_callback_mutex m" "\<not> c_in_callback m"
  shows "\<exists>u. callback app ev m = Some (m\<lparr>c_userdata := u\<rparr>)"
proof (cases "cb_registered ev (m\<lparr>c_callback_mutex := True\<rparr>)")
  case True
  obtain u where "app ev (m\<lparr>c_callback_mutex := True, c_in_callback := True\<rparr>) =
      Some (m\<lparr>c_callback_mutex := True, c_in_callback := True, c_userdata := u\<rparr>)"
    using assms(1) unfolding passive_app_def by blast
  then show ?thesis using True assms by (auto simp: callback_def callback_keep_lock_def intro!: exI [of _ u])
next
  case False
  then show ?thesis using assms
    by (auto simp: callback_def callback_keep_lock_def intro!: exI [of _ "c_userdata m"])
qed

lemma callback_log:
  "\<lbrakk>\<not> c_callback_mutex m; \<not> c_in_callback m\<rbrakk> \<Longrightarrow>
     callback log_app ev m =
       Some (if cb_registered ev m then m\<lparr>c_userdata := c_userdata m @ [ev]\<rparr> else m)"
  by (cases ev) (auto simp: callback_def callback_keep_lock_def log_app_def)

section \<open>Example states\<close>

text \<open>A zeroed structure with the invalid socket, and one that is connected, for examples.\<close>

definition mosq_calloc :: "'u \<Rightarrow> 'u mosq" where
  "mosq_calloc u = \<lparr>e_now = 0, e_allocs = [], e_junk = (\<lambda>_. 0), e_errno = 0, e_rx = [], e_wr = [],
     e_tx = [], e_connects = [], c_sock = INVALID_SOCKET, c_protocol = mosq_p_invalid, c_id = None,
     c_username = None, c_password = None, c_keepalive = 0, c_clean_session = False,
     c_state = mosq_cs_new, c_last_msg_in = 0, c_last_msg_out = 0, c_ping_t = 0, c_last_mid = 0,
     c_in_packet = packet_calloc, c_current_out_packet = None, c_out_packet = [], c_will = None,
     c_callback_mutex = False, c_current_out_packet_mutex = False, c_in_message_mutex = False,
     c_out_message_mutex = False, c_userdata = u, c_in_callback = False, c_message_retry = 0,
     c_last_retry_check = 0, c_in_messages = [], c_in_messages_last = E_null, c_out_messages = [],
     c_out_messages_last = E_null, c_on_connect = False, c_on_disconnect = False,
     c_on_publish = False, c_on_message = False, c_on_subscribe = False, c_on_unsubscribe = False,
     c_host = None, c_port = 0, c_in_queue_len = 0, c_out_queue_len = 0, c_bind_address = None,
     c_threaded = False, c_inflight_messages = 0, c_max_inflight_messages = 0\<rparr>"

definition demo_client :: "cb_event list mosq" where
  "demo_client = (mosq_calloc [])\<lparr>c_sock := 3, c_state := mosq_cs_connected, c_id := Some ''bob'',
     c_max_inflight_messages := 20, c_on_connect := True, c_on_disconnect := True,
     c_on_publish := True, c_on_message := True, c_on_subscribe := True, c_on_unsubscribe := True\<rparr>"

end
