(* ===== verification/Net.thy ===== *)
theory Net
  imports Client_State
begin

text \<open>
  The packet layer of \<open>mosquitto/lib/net_mosq.c\<close>: the queue of outgoing packets, the write loop
  that hands them to the socket, and the part of \<open>_mosquitto_packet_read\<close> that assembles an
  incoming packet (the dispatch to the handlers is in the theory \<open>Client\<close>).
\<close>

section \<open>Model\<close>

definition mosquitto_socket_close :: "'u mosq \<Rightarrow> 'u mosq" where
  "mosquitto_socket_close m =
     (if c_sock m \<noteq> INVALID_SOCKET then m\<lparr>c_sock := INVALID_SOCKET\<rparr> else m)"

definition mosquitto_net_read :: "'u mosq \<Rightarrow> nat \<Rightarrow> int \<times> u8 list \<times> 'u mosq" where
  "mosquitto_net_read m count =
     (let m = m\<lparr>e_errno := 0\<rparr> in
      case e_rx m of
        [] \<Rightarrow> (-1, [], m\<lparr>e_errno := EAGAIN\<rparr>)
      | Rx_err e # r \<Rightarrow> (-1, [], m\<lparr>e_errno := e, e_rx := r\<rparr>)
      | Rx_data bs # r \<Rightarrow>
          (int (min count (length bs)), take count bs,
           m\<lparr>e_rx := (if length bs \<le> count then r else Rx_data (drop count bs) # r)\<rparr>))"

definition mosquitto_net_write :: "'u mosq \<Rightarrow> u8 list \<Rightarrow> int \<times> 'u mosq" where
  "mosquitto_net_write m data =
     (let m = m\<lparr>e_errno := 0\<rparr> in
      case e_wr m of
        [] \<Rightarrow> (int (length data), m\<lparr>e_tx := e_tx m @ data\<rparr>)
      | Wr_n n # w \<Rightarrow> (int (min n (length data)), m\<lparr>e_wr := w, e_tx := e_tx m @ take n data\<rparr>)
      | Wr_err e # w \<Rightarrow> (-1, m\<lparr>e_errno := e, e_wr := w\<rparr>))"

lemma net_write_le: "mosquitto_net_write m data = (n, m') \<Longrightarrow> nat n \<le> length data"
  by (auto simp: mosquitto_net_write_def Let_def split: list.splits wr_event.splits)

text \<open>What a failed \<open>read\<close> or \<open>write\<close> returns to the caller.\<close>

definition io_error :: "'u mosq \<Rightarrow> int" where
  "io_error m = (if e_errno m = EAGAIN then MOSQ_ERR_SUCCESS
     else if e_errno m = ECONNRESET then MOSQ_ERR_CONN_LOST else MOSQ_ERR_ERRNO)"

text \<open>
  The inner loop of \<open>_mosquitto_packet_write\<close>: write what is left of one packet. The first
  component is the code to return, or \<open>None\<close> when the packet has been written.
\<close>

function packet_send_loop :: "'u mosq \<Rightarrow> packet \<Rightarrow> (int option \<times> packet \<times> 'u mosq) option" where
  "packet_send_loop m p =
     (if pk_to_process p > 0 then
        case pk_payload p of
          None \<Rightarrow> None
        | Some buf \<Rightarrow>
            if unat (pk_pos p) + unat (pk_to_process p) > length buf then None
            else
              (let data = take (unat (pk_to_process p)) (drop (unat (pk_pos p)) buf);
                   (write_length, m) = mosquitto_net_write m data
               in if write_length > 0
                  then packet_send_loop m (p\<lparr>pk_to_process := pk_to_process p - of_int write_length,
                                              pk_pos := pk_pos p + of_int write_length\<rparr>)
                  else Some (Some (io_error m), p, m))
      else Some (None, p, m))"
  by pat_completeness auto
termination
proof (relation "measure (\<lambda>(m, p). unat (pk_to_process p))", goal_cases)
  case (2 m p buf data res n m')
  let ?t = "pk_to_process p"
  have "nat n \<le> length data" using 2(5,6) net_write_le by metis
  then have n: "0 < n" "nat n \<le> unat ?t" using 2(3,4,7) by auto
  then have "unat (?t - of_int n) < unat ?t" using u32_minus_int [of n ?t] by linarith
  then show ?case by simp
qed simp

declare packet_send_loop.simps [simp del]

text \<open>Take the next packet of the queue as the current one.\<close>

definition next_out_packet :: "'u mosq \<Rightarrow> 'u mosq" where
  "next_out_packet m =
     (case c_out_packet m of
        [] \<Rightarrow> m\<lparr>c_current_out_packet := None\<rparr>
      | p # ps \<Rightarrow> m\<lparr>c_current_out_packet := Some p, c_out_packet := ps\<rparr>)"

text \<open>
  The outer loop. It may not end when a callback keeps queueing packets, so it is a partial
  function. The branch for DISCONNECT returns with \<open>callback_mutex\<close> still locked.
\<close>

partial_function (option) packet_write_loop :: "'u app \<Rightarrow> 'u mosq \<Rightarrow> 'u res" where
  "packet_write_loop app m =
     (case c_current_out_packet m of
        None \<Rightarrow> Some (MOSQ_ERR_SUCCESS, m\<lparr>c_current_out_packet_mutex := False\<rparr>)
      | Some packet \<Rightarrow>
          do {
            (r, packet, m) \<leftarrow> packet_send_loop m packet;
            let m = m\<lparr>c_current_out_packet := Some packet\<rparr>;
            case r of
              Some rc \<Rightarrow> Some (rc, m\<lparr>c_current_out_packet_mutex := False\<rparr>)
            | None \<Rightarrow>
                if pk_command packet AND 0xF6 = PUBLISH then
                  do {
                    m \<leftarrow> callback app (On_publish (uint (pk_mid packet))) m;
                    packet_write_loop app ((next_out_packet m)\<lparr>c_last_msg_out := e_now m\<rparr>)
                  }
                else if pk_command packet AND 0xF0 = DISCONNECT then
                  do {
                    let m = (next_out_packet (mosquitto_socket_close m))\<lparr>c_last_msg_out := e_now m\<rparr>;
                    m \<leftarrow> callback_keep_lock app (On_disconnect 0) m;
                    Some (MOSQ_ERR_SUCCESS, m\<lparr>c_current_out_packet_mutex := False\<rparr>)
                  }
                else packet_write_loop app ((next_out_packet m)\<lparr>c_last_msg_out := e_now m\<rparr>)
          })"

declare packet_write_loop.simps [code]

definition mosquitto_packet_write :: "'u app \<Rightarrow> 'u mosq \<Rightarrow> 'u res" where
  "mosquitto_packet_write app m =
     (if c_sock m = INVALID_SOCKET then Some (MOSQ_ERR_NO_CONN, m)
      else if c_current_out_packet_mutex m then None
      else
        (let m = m\<lparr>c_current_out_packet_mutex := True\<rparr>;
             m = (if c_out_packet m \<noteq> [] \<and> c_current_out_packet m = None
                  then next_out_packet m else m)
         in packet_write_loop app m))"

definition mosquitto_packet_queue :: "'u app \<Rightarrow> 'u mosq \<Rightarrow> packet \<Rightarrow> 'u res" where
  "mosquitto_packet_queue app m packet =
     (let packet = packet\<lparr>pk_pos := 0, pk_to_process := pk_packet_length packet\<rparr>;
          m = m\<lparr>c_out_packet := c_out_packet m @ [packet]\<rparr>
      in if \<not> c_in_callback m \<and> \<not> c_threaded m then mosquitto_packet_write app m
         else Some (MOSQ_ERR_SUCCESS, m))"

text \<open>
  The reading half of \<open>_mosquitto_packet_read\<close>. Each step returns the code to leave with, or
  \<open>None\<close> to go on with the next one.
\<close>

definition read_command :: "'u mosq \<Rightarrow> int option \<times> 'u mosq" where
  "read_command m =
     (if pk_command (c_in_packet m) = 0 then
        (let (read_length, bs, m) = mosquitto_net_read m 1 in
         if read_length = 1 then (None, m\<lparr>c_in_packet := (c_in_packet m)\<lparr>pk_command := hd bs\<rparr>\<rparr>)
         else if read_length = 0 then (Some MOSQ_ERR_CONN_LOST, m)
         else (Some (io_error m), m))
      else (None, m))"

text \<open>The bytes the socket holds, a bound for the loops that read them.\<close>

fun rx_size :: "rx_event list \<Rightarrow> nat" where
  "rx_size [] = 0"
| "rx_size (Rx_err _ # r) = rx_size r"
| "rx_size (Rx_data bs # r) = length bs + rx_size r"

lemma net_read_size:
  "mosquitto_net_read m count = (n, bs, m') \<Longrightarrow> 0 < n \<Longrightarrow>
     rx_size (e_rx m') + nat n = rx_size (e_rx m) \<and> nat n = length bs \<and> nat n \<le> count"
  by (cases "e_rx m"; cases "hd (e_rx m)")
     (auto simp: mosquitto_net_read_def Let_def min_def split: if_splits)

function read_remaining_loop :: "'u mosq \<Rightarrow> int option \<times> 'u mosq" where
  "read_remaining_loop m =
     (let (read_length, bs, m) = mosquitto_net_read m 1 in
      if read_length = 1 then
        (let byte = hd bs; p = c_in_packet m;
             p = p\<lparr>pk_remaining_count := pk_remaining_count p + 1\<rparr>
         in if pk_remaining_count p > 4 then (Some MOSQ_ERR_PROTOCOL, m\<lparr>c_in_packet := p\<rparr>)
            else
              (let p = p\<lparr>pk_remaining_length := pk_remaining_length p + ucast (byte AND 127) * pk_remaining_mult p,
                          pk_remaining_mult := pk_remaining_mult p * 128\<rparr>;
                   m = m\<lparr>c_in_packet := p\<rparr>
               in if byte AND 128 \<noteq> 0 then read_remaining_loop m else (None, m)))
      else if read_length = 0 then (Some MOSQ_ERR_CONN_LOST, m)
      else (Some (io_error m), m))"
  by pat_completeness auto
termination
proof (relation "measure (\<lambda>m. rx_size (e_rx m))", goal_cases)
  case (2 m res n y bs m' byte p p' p'' m'')
  then show ?case using net_read_size [of m 1 n bs m'] by auto
qed simp

declare read_remaining_loop.simps [simp del]

definition read_remaining :: "'u mosq \<Rightarrow> int option \<times> 'u mosq" where
  "read_remaining m =
     (if pk_have_remaining (c_in_packet m) = 0 then
        (case read_remaining_loop m of
           (Some rc, m) \<Rightarrow> (Some rc, m)
         | (None, m) \<Rightarrow>
             (let rl = pk_remaining_length (c_in_packet m) in
              if rl > 0 then
                (case mosq_alloc m of
                   (False, m) \<Rightarrow>
                     (Some MOSQ_ERR_NOMEM, m\<lparr>c_in_packet := (c_in_packet m)\<lparr>pk_payload := None\<rparr>\<rparr>)
                 | (True, m) \<Rightarrow>
                     (None, m\<lparr>c_in_packet := (c_in_packet m)
                       \<lparr>pk_payload := Some (malloc_buf (e_junk m) (unat rl)), pk_to_process := rl,
                         pk_have_remaining := 1\<rparr>\<rparr>))
              else (None, m\<lparr>c_in_packet := (c_in_packet m)\<lparr>pk_have_remaining := 1\<rparr>\<rparr>)))
      else (None, m))"

function read_payload_loop :: "'u mosq \<Rightarrow> (int option \<times> 'u mosq) option" where
  "read_payload_loop m =
     (let p = c_in_packet m in
      if pk_to_process p > 0 then
        (case pk_payload p of
           None \<Rightarrow> None
         | Some buf \<Rightarrow>
             if unat (pk_pos p) + unat (pk_to_process p) > length buf then None
             else
               (let (read_length, bs, m) = mosquitto_net_read m (unat (pk_to_process p)) in
                if read_length > 0 then
                  read_payload_loop (m\<lparr>c_in_packet := p
                    \<lparr>pk_payload := Some (take (unat (pk_pos p)) buf @ bs @
                                          drop (unat (pk_pos p) + length bs) buf),
                      pk_to_process := pk_to_process p - of_int read_length,
                      pk_pos := pk_pos p + of_int read_length\<rparr>\<rparr>)
                else
                  (let m = (if e_errno m = EAGAIN \<and> pk_to_process p > 1000
                            then m\<lparr>c_last_msg_in := e_now m\<rparr> else m)
                   in Some (Some (io_error m), m))))
      else Some (None, m))"
  by pat_completeness auto
termination
proof (relation "measure (\<lambda>m. rx_size (e_rx m))", goal_cases)
  case (2 m p buf res n y bs m')
  then show ?case using net_read_size [of m "unat (pk_to_process p)" n bs m'] by auto
qed simp

declare read_payload_loop.simps [simp del]

definition packet_read_in :: "'u mosq \<Rightarrow> (int option \<times> 'u mosq) option" where
  "packet_read_in m =
     (case read_command m of
        (Some rc, m) \<Rightarrow> Some (Some rc, m)
      | (None, m) \<Rightarrow>
          (case read_remaining m of
             (Some rc, m) \<Rightarrow> Some (Some rc, m)
           | (None, m) \<Rightarrow> read_payload_loop m))"

section \<open>Outgoing bytes\<close>

text \<open>
  A queued packet is consistent when the bytes still to be sent are the rest of its buffer;
  \<open>pending\<close> is what is left of the current packet and of the queue, in order.
\<close>

definition out_ok :: "packet \<Rightarrow> bool" where
  "out_ok p \<longleftrightarrow> (case pk_payload p of None \<Rightarrow> False
     | Some buf \<Rightarrow> unat (pk_pos p) + unat (pk_to_process p) = length buf \<and> length buf < 2 ^ 32)"

definition left_of :: "packet \<Rightarrow> u8 list" where
  "left_of p = drop (unat (pk_pos p)) (the (pk_payload p))"

definition cur_packets :: "'u mosq \<Rightarrow> packet list" where
  "cur_packets m = (case c_current_out_packet m of None \<Rightarrow> [] | Some p \<Rightarrow> [p]) @ c_out_packet m"

definition pending :: "'u mosq \<Rightarrow> u8 list" where
  "pending m = concat (map left_of (cur_packets m))"

lemma net_write_cases:
  assumes "mosquitto_net_write m data = (n, m')"
  obtains (wrote) k w where "n = int k" "k \<le> length data"
      "m' = m\<lparr>e_errno := 0, e_wr := w, e_tx := e_tx m @ take k data\<rparr>"
    | (failed) e w where "n = -1" "m' = m\<lparr>e_errno := e, e_wr := w\<rparr>"
proof (cases "e_wr m")
  case Nil
  then have "mosquitto_net_write m data = (int (length data), m\<lparr>e_errno := 0, e_tx := e_tx m @ data\<rparr>)"
    by (simp add: mosquitto_net_write_def)
  then show ?thesis using assms wrote [of "length data" "e_wr m"] by simp
next
  case (Cons w ws)
  then show ?thesis
    using assms wrote [of "min (case w of Wr_n k \<Rightarrow> k | _ \<Rightarrow> 0) (length data)" ws] failed [where w = ws]
    by (cases w) (auto simp: mosquitto_net_write_def min_def)
qed

lemma out_ok_advance:
  assumes "out_ok p" "k \<le> unat (pk_to_process p)" "pk_payload p = Some buf"
  defines "p' \<equiv> p\<lparr>pk_to_process := pk_to_process p - of_nat k, pk_pos := pk_pos p + of_nat k\<rparr>"
  shows "out_ok p'" "left_of p = take k (left_of p) @ left_of p'"
proof -
  have b: "unat (pk_pos p) + unat (pk_to_process p) = length buf" "length buf < 2 ^ 32"
    using assms(1,3) by (auto simp: out_ok_def)
  have t: "unat (pk_to_process p - of_nat k) = unat (pk_to_process p) - k"
    using assms(2) by (rule u32_minus)
  have "unat (of_nat (unat (pk_pos p) + k) :: u32) = unat (pk_pos p) + k"
    using b assms(2) by (intro unat_u32) simp
  then have s: "unat (pk_pos p + of_nat k) = unat (pk_pos p) + k" by simp
  show "out_ok p'" using b assms(2,3) t s by (simp add: out_ok_def p'_def)
  show "left_of p = take k (left_of p) @ left_of p'"
    using s assms(3) by (simp add: left_of_def p'_def add.commute flip: drop_drop)
qed

lemma packet_send_loop_step:
  assumes "out_ok p" "pk_to_process p > 0"
  shows "packet_send_loop m p =
    (case mosquitto_net_write m (left_of p) of (n, m') \<Rightarrow>
       if n > 0 then packet_send_loop m' (p\<lparr>pk_to_process := pk_to_process p - of_int n,
                                            pk_pos := pk_pos p + of_int n\<rparr>)
       else Some (Some (io_error m'), p, m'))"
proof -
  obtain buf where buf: "pk_payload p = Some buf"
      "unat (pk_pos p) + unat (pk_to_process p) = length buf"
    using assms by (auto simp: out_ok_def split: option.splits)
  then show ?thesis using assms(2) by (subst packet_send_loop.simps) (simp add: Let_def left_of_def)
qed

text \<open>Writing one packet moves bytes from the packet to the socket and changes nothing else.\<close>

lemma packet_send_loop_ok:
  "out_ok p \<Longrightarrow> \<exists>r p' e w sent. packet_send_loop m p =
      Some (r, p', m\<lparr>e_errno := e, e_wr := w, e_tx := e_tx m @ sent\<rparr>)
    \<and> out_ok p' \<and> left_of p = sent @ left_of p' \<and> (r = None \<longrightarrow> left_of p' = [])
    \<and> pk_command p' = pk_command p \<and> pk_mid p' = pk_mid p"
proof (induction m p rule: packet_send_loop.induct)
  case (1 m p)
  then obtain buf where buf: "pk_payload p = Some buf"
      "unat (pk_pos p) + unat (pk_to_process p) = length buf"
    by (auto simp: out_ok_def split: option.splits)
  show ?case
  proof (cases "pk_to_process p > 0")
    case False
    then have "left_of p = []" using buf by (simp add: left_of_def word_neq_0_conv [symmetric])
    then show ?thesis using False 1(2)
      by (intro exI [of _ None] exI [of _ p] exI [of _ "e_errno m"] exI [of _ "e_wr m"] exI [of _ "[]"])
         (simp add: packet_send_loop.simps)
  next
    case True
    obtain n m1 where w: "mosquitto_net_write m (left_of p) = (n, m1)" by fastforce
    from w show ?thesis
    proof (cases rule: net_write_cases)
      case (failed e ws)
      then show ?thesis using True w 1(2)
        by (intro exI [of _ "Some (io_error m1)"] exI [of _ p] exI [of _ e] exI [of _ ws] exI [of _ "[]"])
           (simp add: packet_send_loop_step)
    next
      case (wrote k ws)
      show ?thesis
      proof (cases "k = 0")
        case zero: True
        then show ?thesis using True w 1(2) wrote
          by (intro exI [of _ "Some (io_error m1)"] exI [of _ p] exI [of _ 0] exI [of _ ws] exI [of _ "[]"])
             (simp add: packet_send_loop_step)
      next
        case False
        let ?p = "p\<lparr>pk_to_process := pk_to_process p - of_nat k, pk_pos := pk_pos p + of_nat k\<rparr>"
        have k: "k \<le> unat (pk_to_process p)" using wrote(2) buf by (simp add: left_of_def)
        note adv = out_ok_advance [OF 1(2) k buf(1)]
        have step: "packet_send_loop m p = packet_send_loop m1 ?p"
          using True 1(2) w False wrote(1) by (simp add: packet_send_loop_step)
        have "\<exists>r p' e w sent. packet_send_loop m1 ?p =
            Some (r, p', m1\<lparr>e_errno := e, e_wr := w, e_tx := e_tx m1 @ sent\<rparr>)
          \<and> out_ok p' \<and> left_of ?p = sent @ left_of p' \<and> (r = None \<longrightarrow> left_of p' = [])
          \<and> pk_command p' = pk_command ?p \<and> pk_mid p' = pk_mid ?p"
          using 1(1) [OF True buf(1) _ refl refl, of n m1] w buf wrote(1) False adv(1)
          by (simp add: left_of_def)
        then obtain r p' e w' sent where IH: "packet_send_loop m1 ?p =
            Some (r, p', m1\<lparr>e_errno := e, e_wr := w', e_tx := e_tx m1 @ sent\<rparr>)"
          "out_ok p'" "left_of ?p = sent @ left_of p'" "r = None \<longrightarrow> left_of p' = []"
          "pk_command p' = pk_command p" "pk_mid p' = pk_mid p" by auto
        have "left_of p = (take k (left_of p) @ sent) @ left_of p'" using adv(2) IH(3) by simp
        then show ?thesis using IH step wrote(3)
          by (intro exI [of _ r] exI [of _ p'] exI [of _ e] exI [of _ w']
                exI [of _ "take k (left_of p) @ sent"]) simp
      qed
    qed
  qed
qed

lemma packet_send_loop_all:
  assumes "out_ok p" "e_wr m = []"
  shows "\<exists>p' e. packet_send_loop m p = Some (None, p', m\<lparr>e_errno := e, e_tx := e_tx m @ left_of p\<rparr>)
    \<and> pk_command p' = pk_command p \<and> pk_mid p' = pk_mid p"
proof (cases "pk_to_process p > 0")
  case False
  then have "left_of p = []" using assms(1) by (auto simp: left_of_def out_ok_def word_neq_0_conv [symmetric] split: option.splits)
  then show ?thesis using False by (auto simp: packet_send_loop.simps intro!: exI [of _ "e_errno m"])
next
  case True
  obtain buf where buf: "pk_payload p = Some buf" "unat (pk_pos p) + unat (pk_to_process p) = length buf"
    using assms by (auto simp: out_ok_def split: option.splits)
  then have l: "length (left_of p) = unat (pk_to_process p)" by (simp add: left_of_def)
  have "packet_send_loop m p = packet_send_loop (m\<lparr>e_errno := 0, e_tx := e_tx m @ left_of p\<rparr>)
      (p\<lparr>pk_to_process := 0, pk_pos := pk_pos p + pk_to_process p\<rparr>)"
    using True assms l by (simp add: packet_send_loop_step mosquitto_net_write_def word_less_def)
  then show ?thesis by (auto simp: packet_send_loop.simps [of "_\<lparr>e_errno := 0, e_tx := _\<rparr>"])
qed

lemma next_out_packet_cur:
  "c_current_out_packet m = Some p \<Longrightarrow> cur_packets (next_out_packet m) = tl (cur_packets m)"
  by (auto simp: next_out_packet_def cur_packets_def split: list.splits)

lemma next_out_packet_sel [simp]:
  "e_tx (next_out_packet m) = e_tx m" "e_wr (next_out_packet m) = e_wr m"
  "e_now (next_out_packet m) = e_now m" "c_sock (next_out_packet m) = c_sock m"
  "c_callback_mutex (next_out_packet m) = c_callback_mutex m"
  "c_in_callback (next_out_packet m) = c_in_callback m"
  "c_userdata (next_out_packet m) = c_userdata m"
  by (auto simp: next_out_packet_def split: list.splits)

lemma cur_packets_cong:
  "\<lbrakk>c_current_out_packet m = c_current_out_packet m'; c_out_packet m = c_out_packet m'\<rbrakk> \<Longrightarrow>
    cur_packets m = cur_packets m'"
  by (simp add: cur_packets_def)

lemma cur_packets_upd [simp]:
  "cur_packets (m\<lparr>e_errno := a1\<rparr>) = cur_packets m" "cur_packets (m\<lparr>e_wr := a2\<rparr>) = cur_packets m"
  "cur_packets (m\<lparr>e_tx := a3\<rparr>) = cur_packets m" "cur_packets (m\<lparr>c_userdata := a4\<rparr>) = cur_packets m"
  "cur_packets (m\<lparr>c_last_msg_out := a5\<rparr>) = cur_packets m"
  "cur_packets (m\<lparr>c_callback_mutex := a6\<rparr>) = cur_packets m"
  "cur_packets (m\<lparr>c_in_callback := a7\<rparr>) = cur_packets m"
  "cur_packets (m\<lparr>c_current_out_packet_mutex := a8\<rparr>) = cur_packets m"
  "cur_packets (m\<lparr>c_sock := a9\<rparr>) = cur_packets m"
  by (simp_all add: cur_packets_def)

lemma callback_keep_lock_passive:
  assumes "passive_app app" "\<not> c_callback_mutex m" "\<not> c_in_callback m"
  shows "\<exists>u. callback_keep_lock app ev m = Some (m\<lparr>c_callback_mutex := True, c_userdata := u\<rparr>)"
proof -
  obtain u where u: "app ev (m\<lparr>c_callback_mutex := True, c_in_callback := True\<rparr>) =
      Some (m\<lparr>c_callback_mutex := True, c_in_callback := True, c_userdata := u\<rparr>)"
    using assms(1) unfolding passive_app_def by blast
  show ?thesis
  proof (cases "cb_registered ev (m\<lparr>c_callback_mutex := True\<rparr>)")
    case True
    then show ?thesis using u assms by (auto simp: callback_keep_lock_def intro!: exI [of _ u])
  next
    case False
    then show ?thesis using assms
      by (auto simp: callback_keep_lock_def intro!: exI [of _ "c_userdata m"])
  qed
qed

definition is_disconnect :: "packet \<Rightarrow> bool" where
  "is_disconnect p \<longleftrightarrow> pk_command p AND 0xF6 \<noteq> PUBLISH \<and> pk_command p AND 0xF0 = DISCONNECT"

text \<open>The states in which the write loop can be entered.\<close>

definition out_inv :: "'u mosq \<Rightarrow> bool" where
  "out_inv m \<longleftrightarrow> \<not> c_callback_mutex m \<and> \<not> c_in_callback m \<and> list_all out_ok (cur_packets m)"

lemma next_out_packet_upd:
  "next_out_packet (m\<lparr>c_current_out_packet := x\<rparr>) = next_out_packet m"
  "next_out_packet (m\<lparr>c_userdata := u\<rparr>) = (next_out_packet m)\<lparr>c_userdata := u\<rparr>"
  "next_out_packet (m\<lparr>c_sock := k\<rparr>) = (next_out_packet m)\<lparr>c_sock := k\<rparr>"
  by (auto simp: next_out_packet_def split: list.splits)

lemma packet_write_loop_step:
  fixes m :: "'u mosq"
  assumes app: "passive_app app" and inv: "out_inv m" and cur: "c_current_out_packet m = Some p"
  obtains (stop) rc p' e w sent where
      "packet_write_loop app m = Some (rc, m\<lparr>e_errno := e, e_wr := w, e_tx := e_tx m @ sent,
         c_current_out_packet := Some p', c_current_out_packet_mutex := False\<rparr>)"
      "out_ok p'" "left_of p = sent @ left_of p'" "e_wr m \<noteq> []"
    | (disc) e w u where
      "is_disconnect p" "packet_write_loop app m = Some (MOSQ_ERR_SUCCESS,
         (next_out_packet (mosquitto_socket_close (m\<lparr>e_errno := e, e_wr := w, e_tx := e_tx m @ left_of p\<rparr>)))
           \<lparr>c_last_msg_out := e_now m, c_callback_mutex := True, c_userdata := u,
             c_current_out_packet_mutex := False\<rparr>)"
    | (more) e w u where
      "\<not> is_disconnect p" "packet_write_loop app m = packet_write_loop app
         ((next_out_packet (m\<lparr>e_errno := e, e_wr := w, e_tx := e_tx m @ left_of p\<rparr>))
           \<lparr>c_userdata := u, c_last_msg_out := e_now m\<rparr>)" "e_wr m = [] \<Longrightarrow> w = []"
proof -
  have ok: "out_ok p" "\<not> c_callback_mutex m" "\<not> c_in_callback m"
    using inv cur by (auto simp: out_inv_def cur_packets_def)
  obtain r p' e w sent where send: "packet_send_loop m p =
      Some (r, p', m\<lparr>e_errno := e, e_wr := w, e_tx := e_tx m @ sent\<rparr>)"
    and p': "out_ok p'" "left_of p = sent @ left_of p'" "r = None \<longrightarrow> left_of p' = []"
      "pk_command p' = pk_command p" "pk_mid p' = pk_mid p"
    using packet_send_loop_ok [OF ok(1)] by blast
  have all: "r = None \<and> w = []" if "e_wr m = []"
    using packet_send_loop_all [OF ok(1) that] send that by (auto dest: arg_cong [where f = e_wr])
  show thesis
  proof (cases r)
    case (Some rc)
    show thesis
      by (rule stop [where rc = rc and e = e and w = w and sent = sent and p' = p']) (use send p' cur Some all in \<open>auto simp: packet_write_loop.simps\<close>)
  next
    case None
    then have sent: "sent = left_of p" using p' by simp
    let ?m = "m\<lparr>e_errno := e, e_wr := w, e_tx := e_tx m @ left_of p, c_current_out_packet := Some p'\<rparr>"
    consider (pub) "pk_command p AND 0xF6 = PUBLISH" | (dis) "is_disconnect p"
      | (other) "pk_command p AND 0xF6 \<noteq> PUBLISH" "\<not> is_disconnect p" by (auto simp: is_disconnect_def)
    then show thesis
    proof cases
      case pub
      obtain u where u: "callback app (On_publish (uint (pk_mid p'))) ?m = Some (?m\<lparr>c_userdata := u\<rparr>)"
        using callback_passive [OF app, of ?m] ok by fastforce
      show thesis
        by (rule more [where e = e and w = w and u = u])
           (use send None cur pub u p'(4,5) sent all in
             \<open>auto simp: packet_write_loop.simps [of app m] is_disconnect_def next_out_packet_upd\<close>)
    next
      case dis
      let ?n = "(next_out_packet (mosquitto_socket_close ?m))\<lparr>c_last_msg_out := e_now m\<rparr>"
      have "\<not> c_callback_mutex ?n" "\<not> c_in_callback ?n"
        using ok by (auto simp: mosquitto_socket_close_def)
      then obtain u where u: "callback_keep_lock app (On_disconnect 0) ?n =
          Some (?n\<lparr>c_callback_mutex := True, c_userdata := u\<rparr>)"
        using callback_keep_lock_passive [OF app, of ?n] by fastforce
      show thesis
        by (rule disc [where e = e and w = w and u = u])
           (use send None cur dis u p'(4,5) sent in
             \<open>auto simp: packet_write_loop.simps [of app m] is_disconnect_def next_out_packet_upd
                mosquitto_socket_close_def Let_def\<close>)
    next
      case other
      let ?m = "m\<lparr>e_errno := e, e_wr := w, e_tx := e_tx m @ left_of p\<rparr>"
      have ud: "(next_out_packet ?m)\<lparr>c_userdata := c_userdata m\<rparr> = next_out_packet ?m"
        by (auto simp: next_out_packet_def split: list.splits)
      show thesis
        by (rule more [where e = e and w = w and u = "c_userdata m"])
           (use send None cur other p'(4,5) sent all in
             \<open>auto simp: packet_write_loop.simps [of app m] is_disconnect_def next_out_packet_upd ud\<close>)
    qed
  qed
qed

lemma out_inv_next:
  assumes "out_inv m" "c_current_out_packet m = Some p"
  shows "out_inv ((next_out_packet (m\<lparr>e_errno := e, e_wr := w, e_tx := t\<rparr>))\<lparr>c_userdata := u, c_last_msg_out := z\<rparr>)"
    and "length (cur_packets (next_out_packet (m\<lparr>e_errno := e, e_wr := w, e_tx := t\<rparr>))) < length (cur_packets m)"
    and "pending m = left_of p @ pending (next_out_packet (m\<lparr>e_errno := e, e_wr := w, e_tx := t\<rparr>))"
proof -
  let ?m = "m\<lparr>e_errno := e, e_wr := w, e_tx := t\<rparr>"
  have c: "cur_packets m = p # tl (cur_packets m)" using assms(2) by (simp add: cur_packets_def)
  have n: "cur_packets (next_out_packet ?m) = tl (cur_packets m)"
    using next_out_packet_cur [of ?m p] assms(2) by simp
  show "out_inv ((next_out_packet ?m)\<lparr>c_userdata := u, c_last_msg_out := z\<rparr>)"
    using assms(1) n c by (auto simp: out_inv_def) (metis list.pred_inject(2))
  show "length (cur_packets (next_out_packet ?m)) < length (cur_packets m)" using n c by (cases "cur_packets m") auto
  show "pending m = left_of p @ pending (next_out_packet ?m)"
    using n c by (cases "cur_packets m") (auto simp: pending_def)
qed

lemma pending_upd [simp]:
  "pending (m\<lparr>c_last_msg_out := a5\<rparr>) = pending m" "pending (m\<lparr>c_callback_mutex := a6\<rparr>) = pending m"
  "pending (m\<lparr>c_userdata := a4\<rparr>) = pending m" "pending (m\<lparr>c_current_out_packet_mutex := a8\<rparr>) = pending m"
  "pending (m\<lparr>c_sock := a9\<rparr>) = pending m"
  by (simp_all add: pending_def)

lemma packet_write_loop_ok:
  fixes m :: "'u mosq"
  assumes "passive_app app" "out_inv m"
  shows "\<exists>rc m'. packet_write_loop app m = Some (rc, m')
    \<and> e_tx m' @ pending m' = e_tx m @ pending m \<and> list_all out_ok (cur_packets m')
    \<and> \<not> c_current_out_packet_mutex m' \<and> \<not> c_in_callback m'
    \<and> (e_wr m = [] \<and> \<not> list_ex is_disconnect (cur_packets m) \<and> (c_current_out_packet m = None \<longrightarrow> c_out_packet m = [])
        \<longrightarrow> rc = MOSQ_ERR_SUCCESS \<and> cur_packets m' = [] \<and> \<not> c_callback_mutex m')"
  using assms(2)
proof (induction "length (cur_packets m)" arbitrary: m rule: less_induct)
  case less
  have i: "list_all out_ok (cur_packets m)" "\<not> c_in_callback m" "\<not> c_callback_mutex m" using less.prems by (auto simp: out_inv_def)
  show ?case
  proof (cases "c_current_out_packet m")
    case None
    then show ?thesis using i
      by (auto simp: packet_write_loop.simps [of app m] cur_packets_def)
  next
    case (Some p)
    have c: "cur_packets m = p # c_out_packet m" using Some by (simp add: cur_packets_def)
    from assms(1) less.prems Some show ?thesis
    proof (cases rule: packet_write_loop_step)
      case (stop rc p' e w sent)
      then show ?thesis using i c by (auto simp: pending_def cur_packets_def)
    next
      case (disc e w u)
      let ?m = "m\<lparr>e_errno := e, e_wr := w, e_tx := e_tx m @ left_of p\<rparr>"
      have s: "next_out_packet (mosquitto_socket_close ?m) =
          (next_out_packet ?m)\<lparr>c_sock := c_sock (mosquitto_socket_close ?m)\<rparr>"
        by (auto simp: mosquitto_socket_close_def next_out_packet_upd)
      have "list_all out_ok (cur_packets (next_out_packet ?m))"
        using out_inv_next(1) [OF less.prems Some] by (simp add: out_inv_def)
      then show ?thesis using disc i c out_inv_next(3) [OF less.prems Some, where e = e and w = w and t = "e_tx m @ left_of p"]
        by (auto simp: s)
    next
      case (more e w u)
      let ?n = "next_out_packet (m\<lparr>e_errno := e, e_wr := w, e_tx := e_tx m @ left_of p\<rparr>)"
      have cn: "cur_packets ?n = c_out_packet m"
        using next_out_packet_cur [of "m\<lparr>e_errno := e, e_wr := w, e_tx := e_tx m @ left_of p\<rparr>" p] Some c by simp
      have e: "c_current_out_packet ?n = None \<longrightarrow> c_out_packet ?n = []"
        by (auto simp: next_out_packet_def split: list.splits)
      show ?thesis
        using less.hyps [of "?n\<lparr>c_userdata := u, c_last_msg_out := e_now m\<rparr>"]
          out_inv_next [OF less.prems Some, where e = e and w = w and t = "e_tx m @ left_of p"] more cn e c
        by (auto simp: list_ex_iff)
    qed
  qed
qed

text \<open>\<open>_mosquitto_packet_write\<close> enters the loop with a current packet if there is any.\<close>

definition packet_write_start :: "'u mosq \<Rightarrow> 'u mosq" where
  "packet_write_start m =
     (let m = m\<lparr>c_current_out_packet_mutex := True\<rparr> in
      if c_out_packet m \<noteq> [] \<and> c_current_out_packet m = None then next_out_packet m else m)"

lemma packet_write_start_sel:
  "cur_packets (packet_write_start m) = cur_packets m" "e_tx (packet_write_start m) = e_tx m"
  "e_wr (packet_write_start m) = e_wr m" "c_callback_mutex (packet_write_start m) = c_callback_mutex m"
  "c_in_callback (packet_write_start m) = c_in_callback m"
  "c_current_out_packet (packet_write_start m) = None \<longrightarrow> c_out_packet (packet_write_start m) = []"
  by (auto simp: packet_write_start_def Let_def next_out_packet_def cur_packets_def split: list.splits)

lemma packet_write_ok:
  assumes "passive_app app" "out_inv m" "\<not> c_current_out_packet_mutex m" "c_sock m \<noteq> INVALID_SOCKET"
  shows "\<exists>rc m'. mosquitto_packet_write app m = Some (rc, m')
    \<and> e_tx m' @ pending m' = e_tx m @ pending m \<and> list_all out_ok (cur_packets m')
    \<and> \<not> c_current_out_packet_mutex m' \<and> \<not> c_in_callback m'
    \<and> (e_wr m = [] \<and> \<not> list_ex is_disconnect (cur_packets m)
        \<longrightarrow> rc = MOSQ_ERR_SUCCESS \<and> cur_packets m' = [] \<and> \<not> c_callback_mutex m')"
proof -
  have "mosquitto_packet_write app m = packet_write_loop app (packet_write_start m)"
    using assms(3,4) by (simp add: mosquitto_packet_write_def packet_write_start_def Let_def)
  moreover have "out_inv (packet_write_start m)" "pending (packet_write_start m) = pending m"
    using assms(2) by (simp_all add: out_inv_def packet_write_start_sel pending_def)
  ultimately show ?thesis
    using packet_write_loop_ok [OF assms(1), of "packet_write_start m"] packet_write_start_sel [of m]
    by auto
qed

section \<open>Properties\<close>

text \<open>A packet of two bytes, as the simple commands have it, for the examples.\<close>

definition demo_packet :: "u8 \<Rightarrow> packet" where
  "demo_packet c = packet_calloc\<lparr>pk_command := c, pk_packet_length := 2, pk_to_process := 2,
     pk_payload := Some [c, 0]\<rparr>"

text \<open>
  C7: \<open>_mosquitto_packet_write\<close> with an application that does not call back into the library:
  whatever partial writes and errors the socket answers with, the call returns, and the bytes
  given to the socket so far followed by the bytes still queued are the same sequence as
  before. No byte of a packet is lost, repeated or sent out of order, across any number of calls.
\<close>
theorem packet_write_stream:
  assumes "passive_app app" "out_inv m" "\<not> c_current_out_packet_mutex m" "c_sock m \<noteq> INVALID_SOCKET"
  shows "\<exists>rc m'. mosquitto_packet_write app m = Some (rc, m')
    \<and> e_tx m' @ pending m' = e_tx m @ pending m
    \<and> list_all out_ok (cur_packets m') \<and> \<not> c_current_out_packet_mutex m'"
  using packet_write_ok [OF assms] by blast

theorem packet_write_stream_witness:
  "\<exists>rc m'. mosquitto_packet_write log_app (demo_client\<lparr>e_wr := [Wr_n 1, Wr_err EAGAIN],
        c_out_packet := [demo_packet PINGREQ, demo_packet PINGRESP]\<rparr>) = Some (rc, m')
    \<and> e_tx m' @ pending m' = [0xC0, 0, 0xD0, 0]"
  using packet_write_stream [of log_app "demo_client\<lparr>e_wr := [Wr_n 1, Wr_err EAGAIN],
      c_out_packet := [demo_packet PINGREQ, demo_packet PINGRESP]\<rparr>"]
  by (auto simp: demo_client_def demo_packet_def packet_calloc_def mosq_calloc_def out_inv_def cur_packets_def out_ok_def
      pending_def left_of_def)

text \<open>
  C26: when the socket takes everything and no DISCONNECT is queued, one call of
  \<open>_mosquitto_packet_write\<close> succeeds and sends every queued byte, in order.
\<close>
theorem packet_write_drains:
  assumes "passive_app app" "out_inv m" "\<not> c_current_out_packet_mutex m" "c_sock m \<noteq> INVALID_SOCKET"
    and "e_wr m = []" "\<not> list_ex is_disconnect (cur_packets m)"
  shows "\<exists>m'. mosquitto_packet_write app m = Some (MOSQ_ERR_SUCCESS, m')
    \<and> e_tx m' = e_tx m @ pending m \<and> cur_packets m' = []"
  using packet_write_ok [OF assms(1-4)] assms(5,6) by (auto simp: pending_def)

theorem packet_write_drains_witness:
  "\<exists>m'. mosquitto_packet_write log_app
       (demo_client\<lparr>c_out_packet := [demo_packet PINGREQ, demo_packet PINGRESP]\<rparr>) = Some (MOSQ_ERR_SUCCESS, m')
    \<and> e_tx m' = [0xC0, 0, 0xD0, 0] \<and> cur_packets m' = []"
  using packet_write_drains [of log_app "demo_client\<lparr>c_out_packet := [demo_packet PINGREQ, demo_packet PINGRESP]\<rparr>"]
  by (auto simp: demo_client_def demo_packet_def packet_calloc_def mosq_calloc_def out_inv_def cur_packets_def out_ok_def
      pending_def left_of_def is_disconnect_def)

text \<open>
  C36: once a DISCONNECT packet has been written, \<open>_mosquitto_packet_write\<close> returns with
  \<open>callback_mutex\<close> locked: the next callback of the client, whichever it is, never returns.
\<close>
theorem packet_write_disconnect_locks:
  assumes "passive_app app" "out_inv m" "\<not> c_current_out_packet_mutex m" "c_sock m \<noteq> INVALID_SOCKET"
    and "c_current_out_packet m = Some p" "is_disconnect p" "e_wr m = []"
  shows "\<exists>m'. mosquitto_packet_write app m = Some (MOSQ_ERR_SUCCESS, m')
    \<and> c_sock m' = INVALID_SOCKET \<and> (\<forall>app' ev. callback app' ev m' = None)"
proof -
  let ?m = "packet_write_start m"
  have s: "c_current_out_packet ?m = Some p" "out_inv ?m"
    using assms by (auto simp: out_inv_def packet_write_start_sel) (auto simp: packet_write_start_def Let_def)
  have w: "mosquitto_packet_write app m = packet_write_loop app ?m"
    using assms(3,4) by (simp add: mosquitto_packet_write_def packet_write_start_def Let_def)
  from assms(1) s(2,1) show ?thesis
  proof (cases rule: packet_write_loop_step)
    case (disc e ws u)
    then show ?thesis
      by (auto simp: w callback_def callback_keep_lock_def mosquitto_socket_close_def next_out_packet_upd)
  qed (use assms(6,7) in \<open>auto simp: packet_write_start_sel\<close>)
qed

theorem packet_write_disconnect_locks_witness:
  "\<exists>m'. mosquitto_packet_write log_app (demo_client\<lparr>c_current_out_packet := Some (demo_packet DISCONNECT)\<rparr>)
      = Some (MOSQ_ERR_SUCCESS, m')
    \<and> c_sock m' = INVALID_SOCKET \<and> (\<forall>app' ev. callback app' ev m' = None)"
  by (rule packet_write_disconnect_locks [where p = "demo_packet DISCONNECT"])
     (auto simp: demo_client_def demo_packet_def packet_calloc_def mosq_calloc_def out_inv_def cur_packets_def out_ok_def
        is_disconnect_def)

end
