(* ===== verification/Assemble.thy ===== *)
theory Assemble
  imports Net
begin

text \<open>
  How \<open>_mosquitto_packet_read\<close> puts a packet together from what the socket delivers. TCP may
  cut the byte stream anywhere and \<open>read\<close> may report that nothing is there yet: the packet that
  reaches the handlers does not depend on it.
\<close>

section \<open>Bytes of the size field\<close>

lemma and_127: "unat (b AND 127 :: u8) = unat b mod 128"
proof -
  have "b AND 127 = take_bit 7 b" by (simp add: take_bit_eq_mask mask_eq_exp_minus_1)
  then show ?thesis by (simp add: unat_mod take_bit_eq_mod)
qed

lemma and_128: "b AND 128 = (0 :: u8) \<longleftrightarrow> unat b < 128"
proof -
  have "unat b < 256" using unsigned_less [of b, where 'a = nat] by simp
  then have "unat b div 128 = 1" if "\<not> unat b < 128" by (intro div_nat_eqI) (use that in auto)
  then have "odd (unat b div 128) \<longleftrightarrow> \<not> unat b < 128" by (cases "unat b < 128") auto
  moreover have "bit b 7 \<longleftrightarrow> odd (unat b div 128)"
    using bit_unsigned_iff [of b 7, where 'a = nat] by (simp add: bit_iff_odd)
  ultimately show ?thesis using and_exp_eq_0_iff_not_bit [of b 7] by simp
qed

lemma vbi_decode_snoc: "vbi_decode (v @ [b]) = vbi_decode v + (unat b mod 128) * 128 ^ length v"
  by (induction v) (auto simp: algebra_simps)

lemma vbi_more: "vbi n = v @ b # w \<Longrightarrow> unat b \<ge> 128 \<longleftrightarrow> w \<noteq> []"
proof (induction n arbitrary: v rule: vbi.induct)
  case (1 n)
  show ?case
  proof (cases "n < 128")
    case True
    then have "vbi n = [of_nat n]" by (subst vbi.simps) simp
    then show ?thesis using "1.prems" True by (cases v) (auto simp: unat_of_nat)
  next
    case False
    then have n: "vbi n = of_nat (n mod 128 + 128) # vbi (n div 128)" by (subst vbi.simps) simp
    have "vbi (n div 128) \<noteq> []" by (subst vbi.simps) simp
    moreover have "unat (of_nat (n mod 128 + 128) :: u8) = n mod 128 + 128"
      by (simp only: unat_of_nat) simp
    ultimately show ?thesis using "1.prems" "1.IH" [OF False] n
      by (cases v) (auto simp del: of_nat_add)
  qed
qed

section \<open>What the socket delivers\<close>

fun rx_ok :: "rx_event list \<Rightarrow> bool" where
  "rx_ok [] = True"
| "rx_ok (Rx_data bs # r) = (bs \<noteq> [] \<and> rx_ok r)"
| "rx_ok (Rx_err e # r) = (e = EAGAIN \<and> rx_ok r)"

fun rx_bytes :: "rx_event list \<Rightarrow> u8 list" where
  "rx_bytes [] = []"
| "rx_bytes (Rx_data bs # r) = bs @ rx_bytes r"
| "rx_bytes (Rx_err e # r) = rx_bytes r"

lemma net_read_cases:
  assumes "rx_ok (e_rx m)" "0 < count" "mosquitto_net_read m count = (n, bs, m')"
  obtains (again) r where "n = -1" "m' = m\<lparr>e_errno := EAGAIN, e_rx := r\<rparr>" "rx_ok r"
      "rx_bytes r = rx_bytes (e_rx m)" "e_rx m = [] \<or> length r < length (e_rx m)"
    | (got) r where "n = int (length bs)" "bs \<noteq> []" "length bs \<le> count" "rx_ok r"
      "m' = m\<lparr>e_errno := 0, e_rx := r\<rparr>" "rx_bytes (e_rx m) = bs @ rx_bytes r"
      "length r \<le> length (e_rx m)"
proof (cases "e_rx m")
  case Nil
  then have "mosquitto_net_read m count = (-1, [], m\<lparr>e_errno := EAGAIN, e_rx := e_rx m\<rparr>)"
    by (simp add: mosquitto_net_read_def)
  then show ?thesis using assms(3) again [of "e_rx m"] Nil by simp
next
  case (Cons ev r)
  show ?thesis
  proof (cases ev)
    case (Rx_err e)
    then show ?thesis using assms Cons again [of r] by (auto simp: mosquitto_net_read_def)
  next
    case (Rx_data ds)
    then have ds: "ds \<noteq> []" "rx_ok r" using assms(1) Cons by auto
    show ?thesis
    proof (cases "length ds \<le> count")
      case True
      then show ?thesis using assms(3) Cons Rx_data ds got [of r]
        by (auto simp: mosquitto_net_read_def)
    next
      case False
      then show ?thesis using assms(2,3) Cons Rx_data ds got [of "Rx_data (drop count ds) # r"]
        by (auto simp: mosquitto_net_read_def)
    qed
  qed
qed

section \<open>Progress of the assembly\<close>

text \<open>
  The state of \<open>in_packet\<close> inside the size field (\<open>v\<close> read so far) and inside the body (\<open>b\<close> read).
\<close>

definition in_fresh :: "packet \<Rightarrow> bool" where
  "in_fresh p \<longleftrightarrow> pk_command p = 0 \<and> pk_have_remaining p = 0 \<and> pk_remaining_count p = 0 \<and>
     pk_remaining_mult p = 1 \<and> pk_remaining_length p = 0 \<and> pk_to_process p = 0 \<and> pk_pos p = 0"

definition in_size :: "u8 \<Rightarrow> u8 list \<Rightarrow> packet \<Rightarrow> bool" where
  "in_size c v p \<longleftrightarrow> pk_command p = c \<and> pk_have_remaining p = 0 \<and>
     pk_remaining_count p = of_nat (length v) \<and> pk_remaining_mult p = of_nat (128 ^ length v) \<and>
     pk_remaining_length p = of_nat (vbi_decode v) \<and> pk_to_process p = 0 \<and> pk_pos p = 0"

definition in_body :: "u8 \<Rightarrow> nat \<Rightarrow> u8 list \<Rightarrow> packet \<Rightarrow> bool" where
  "in_body c n b p \<longleftrightarrow> pk_command p = c \<and> pk_have_remaining p = 1 \<and>
     pk_remaining_length p = of_nat n \<and> length b \<le> n \<and>
     pk_to_process p = of_nat (n - length b) \<and> pk_pos p = of_nat (length b) \<and>
     (n = 0 \<or> (\<exists>rest. pk_payload p = Some (b @ rest) \<and> length rest = n - length b))"

lemma in_size_Nil: "in_fresh p \<Longrightarrow> in_size c [] (p\<lparr>pk_command := c\<rparr>)"
  by (simp add: in_fresh_def in_size_def)

lemma in_size_snoc:
  assumes "in_size c v p"
  shows "in_size c (v @ [b]) (p\<lparr>pk_remaining_count := pk_remaining_count p + 1,
      pk_remaining_length := pk_remaining_length p + ucast (b AND 127) * pk_remaining_mult p,
      pk_remaining_mult := pk_remaining_mult p * 128\<rparr>)"
proof -
  have "(ucast (b AND 127) :: u32) = of_nat (unat b mod 128)" by (metis and_127 of_nat_unat)
  then show ?thesis using assms by (auto simp: in_size_def vbi_decode_snoc mult.commute)
qed

lemma in_size_count:
  assumes "in_size c v p" "length v < 4"
  shows "\<not> pk_remaining_count p + 1 > 4"
proof -
  have "unat (of_nat (Suc (length v)) :: u8) = Suc (length v)"
    using assms(2) by (simp only: unat_of_nat) simp
  moreover have "pk_remaining_count p + 1 = of_nat (Suc (length v))"
    using assms(1) by (simp add: in_size_def add.commute)
  moreover have "unat (4 :: u8) = 4" by simp
  ultimately show ?thesis using assms(2) unfolding word_less_nat_alt by (simp add: add.commute)
qed

lemma read_remaining_loop_ok:
  assumes "rx_ok (e_rx m)" "in_size c v (c_in_packet m)" "vbi n = v @ w" "w \<noteq> []" "length (vbi n) \<le> 4"
    and "rx_bytes (e_rx m) = w @ xs"
  shows "\<exists>r m'. read_remaining_loop m = (r, m') \<and> rx_ok (e_rx m') \<and> e_allocs m' = e_allocs m
    \<and> (r = None \<and> in_size c (vbi n) (c_in_packet m') \<and> rx_bytes (e_rx m') = xs
         \<and> length (e_rx m') \<le> length (e_rx m)
       \<or> (\<exists>v' w'. r = Some MOSQ_ERR_SUCCESS \<and> in_size c v' (c_in_packet m') \<and> vbi n = v' @ w' \<and> w' \<noteq> []
         \<and> rx_bytes (e_rx m') = w' @ xs \<and> length (e_rx m') < length (e_rx m)))"
  using assms
proof (induction w arbitrary: m v)
  case (Cons b w)
  obtain k bs m1 where rd: "mosquitto_net_read m 1 = (k, bs, m1)" by (cases "mosquitto_net_read m 1") auto
  from Cons.prems(1) zero_less_one rd show ?case
  proof (cases rule: net_read_cases)
    case (again r)
    have "e_rx m \<noteq> []" using Cons.prems(6) by auto
    then show ?thesis using again rd Cons.prems
      by (subst read_remaining_loop.simps) (auto simp: io_error_def)
  next
    case (got r)
    then have b: "bs = [b]" "rx_bytes r = w @ xs" using Cons.prems(6) by (cases bs; auto)+
    let ?p = "c_in_packet m"
    let ?q = "?p\<lparr>pk_remaining_count := pk_remaining_count ?p + 1,
        pk_remaining_length := pk_remaining_length ?p + ucast (b AND 127) * pk_remaining_mult ?p,
        pk_remaining_mult := pk_remaining_mult ?p * 128\<rparr>"
    let ?m = "m1\<lparr>c_in_packet := ?q\<rparr>"
    have q: "in_size c (v @ [b]) ?q" by (rule in_size_snoc [OF Cons.prems(2)])
    have cnt: "\<not> pk_remaining_count ?p + 1 > 4"
      using in_size_count [OF Cons.prems(2)] Cons.prems(3,5) by simp
    have cont: "b AND 128 \<noteq> 0 \<longleftrightarrow> w \<noteq> []"
      using vbi_more [OF Cons.prems(3)] and_128 [of b] by auto
    have step: "read_remaining_loop m = (if w \<noteq> [] then read_remaining_loop ?m else (None, ?m))"
      using rd got b cnt cont by (subst read_remaining_loop.simps) (simp add: Let_def)
    show ?thesis
    proof (cases "w = []")
      case True
      then show ?thesis using step got q Cons.prems(3) b by auto
    next
      case False
      then show ?thesis using Cons.IH [of ?m "v @ [b]"] step got(4,5,7) q b Cons.prems(3,5)
        by fastforce
    qed
  qed
qed simp

lemma prefix_split:
  assumes "length a \<le> length d" "a @ u = d @ v"
  shows "d = a @ drop (length a) d" "u = drop (length a) d @ v"
  using assms by (auto simp: append_eq_append_conv2)

lemma in_body_advance:
  assumes "in_body c n b p" "length b + length rest = n" "length bs \<le> length rest"
  shows "in_body c n (b @ bs) (p\<lparr>pk_payload := Some (b @ bs @ drop (length bs) rest),
      pk_to_process := pk_to_process p - of_nat (length bs), pk_pos := pk_pos p + of_nat (length bs)\<rparr>)"
proof -
  have "n - length b = (n - (length b + length bs)) + length bs" using assms(2,3) by simp
  then have "(of_nat (n - length b) :: u32) = of_nat (n - (length b + length bs)) + of_nat (length bs)"
    by (metis of_nat_add)
  then have t: "pk_to_process p - of_nat (length bs) = of_nat (n - (length b + length bs))"
    using assms(1) by (simp add: in_body_def)
  have o: "pk_pos p + of_nat (length bs) = of_nat (length b + length bs)"
    "pk_command p = c" "pk_have_remaining p = 1" "pk_remaining_length p = of_nat n"
    using assms(1) by (simp_all add: in_body_def)
  show ?thesis using t o assms(2,3) by (auto simp: in_body_def)
qed

lemma read_payload_loop_ok:
  assumes "rx_ok (e_rx m)" "in_body c n b (c_in_packet m)" "length b + length d = n" "n < 2 ^ 28"
    and "rx_bytes (e_rx m) = d @ xs"
  shows "\<exists>r m'. read_payload_loop m = Some (r, m') \<and> rx_ok (e_rx m') \<and> e_allocs m' = e_allocs m
    \<and> (r = None \<and> in_body c n (b @ d) (c_in_packet m') \<and> rx_bytes (e_rx m') = xs
       \<or> (\<exists>b' d'. r = Some MOSQ_ERR_SUCCESS \<and> in_body c n b' (c_in_packet m') \<and> b @ d = b' @ d'
         \<and> d' \<noteq> [] \<and> rx_bytes (e_rx m') = d' @ xs \<and> length (e_rx m') < length (e_rx m)))"
  using assms
proof (induction "length d" arbitrary: m b d rule: less_induct)
  case less
  let ?p = "c_in_packet m"
  have lt: "length b < 2 ^ 32" "length d < 2 ^ 32" using less.prems(3,4) by auto
  have tp: "unat (pk_to_process ?p) = length d" "unat (pk_pos ?p) = length b"
    using less.prems(2,3) lt by (auto simp: in_body_def unat_u32)
  show ?case
  proof (cases "d = []")
    case True
    then have "\<not> pk_to_process ?p > 0" using tp by (simp add: word_less_nat_alt)
    then show ?thesis using True less.prems by (auto simp: read_payload_loop.simps [of m])
  next
    case False
    then have pos: "pk_to_process ?p > 0" using tp by (simp add: word_less_nat_alt)
    obtain rest where pl: "pk_payload ?p = Some (b @ rest)" "length rest = length d"
      using less.prems(2,3) False by (auto simp: in_body_def)
    obtain k bs m1 where rd: "mosquitto_net_read m (length d) = (k, bs, m1)"
      by (cases "mosquitto_net_read m (length d)") auto
    have pos': "0 < length d" using False by simp
    from less.prems(1) pos' rd show ?thesis
    proof (cases rule: net_read_cases)
      case (again r)
      have "e_rx m \<noteq> []" using less.prems(5) False by auto
      then show ?thesis using again rd less.prems pos pl tp False
        by (subst read_payload_loop.simps) (auto simp: io_error_def Let_def)
    next
      case (got r)
      have d: "d = bs @ drop (length bs) d" "rx_bytes r = drop (length bs) d @ xs"
        using prefix_split [OF got(3), of "rx_bytes r" xs] got(6) less.prems(5) by auto
      let ?q = "?p\<lparr>pk_payload := Some (b @ bs @ drop (length bs) rest),
          pk_to_process := pk_to_process ?p - of_nat (length bs),
          pk_pos := pk_pos ?p + of_nat (length bs)\<rparr>"
      have step: "read_payload_loop m = read_payload_loop (m1\<lparr>c_in_packet := ?q\<rparr>)"
        using rd got(1,2) pos pl tp by (subst read_payload_loop.simps) (simp add: Let_def)
      have q: "in_body c n (b @ bs) ?q"
        by (rule in_body_advance [OF less.prems(2)]) (use pl got(3) less.prems(3) in auto)
      have shorter: "length (drop (length bs) d) < length d" using got(2,3) False by simp
      show ?thesis
        using less.hyps [OF shorter, of "m1\<lparr>c_in_packet := ?q\<rparr>" "b @ bs"] step got(4,5,7) q d
          less.prems(3,4) got(3)
        by fastforce
    qed
  qed
qed

text \<open>
  \<open>assembling c body got m\<close>: \<open>got\<close> is what the client has consumed of the packet with the fixed
  header \<open>c\<close> and the body \<open>body\<close>.
\<close>

definition frame :: "u8 \<Rightarrow> u8 list \<Rightarrow> u8 list" where
  "frame c body = c # vbi (length body) @ body"

definition assembling :: "u8 \<Rightarrow> u8 list \<Rightarrow> u8 list \<Rightarrow> packet \<Rightarrow> bool" where
  "assembling c body got p \<longleftrightarrow>
     got = [] \<and> in_fresh p
   \<or> (\<exists>v w. got = c # v \<and> vbi (length body) = v @ w \<and> w \<noteq> [] \<and> in_size c v p)
   \<or> (\<exists>b d. got = c # vbi (length body) @ b \<and> body = b @ d \<and> in_body c (length body) b p)"

definition complete :: "u8 \<Rightarrow> u8 list \<Rightarrow> packet \<Rightarrow> bool" where
  "complete c body p \<longleftrightarrow> in_body c (length body) body p"

lemma read_remaining_ok:
  assumes "rx_ok (e_rx m)" "in_size c v (c_in_packet m)" "vbi n = v @ w" "w \<noteq> []" "n < 2 ^ 28"
    and "rx_bytes (e_rx m) = w @ xs" "e_allocs m = []"
  shows "\<exists>r m'. read_remaining m = (r, m') \<and> rx_ok (e_rx m') \<and> e_allocs m' = []
    \<and> (r = None \<and> in_body c n [] (c_in_packet m') \<and> rx_bytes (e_rx m') = xs
         \<and> length (e_rx m') \<le> length (e_rx m)
       \<or> (\<exists>v' w'. r = Some MOSQ_ERR_SUCCESS \<and> in_size c v' (c_in_packet m') \<and> vbi n = v' @ w' \<and> w' \<noteq> []
         \<and> rx_bytes (e_rx m') = w' @ xs \<and> length (e_rx m') < length (e_rx m)))"
proof -
  have "length (vbi n) \<le> 4" using length_vbi_le [of n 4] assms(5) by simp
  then obtain r m' where l: "read_remaining_loop m = (r, m')" "rx_ok (e_rx m')" "e_allocs m' = []"
    and c: "r = None \<and> in_size c (vbi n) (c_in_packet m') \<and> rx_bytes (e_rx m') = xs
         \<and> length (e_rx m') \<le> length (e_rx m)
       \<or> (\<exists>v' w'. r = Some MOSQ_ERR_SUCCESS \<and> in_size c v' (c_in_packet m') \<and> vbi n = v' @ w' \<and> w' \<noteq> []
         \<and> rx_bytes (e_rx m') = w' @ xs \<and> length (e_rx m') < length (e_rx m))"
    using read_remaining_loop_ok [OF assms(1-4) _ assms(6)] assms(7) by metis
  have h: "pk_have_remaining (c_in_packet m) = 0" using assms(2) by (simp add: in_size_def)
  show ?thesis
  proof (cases r)
    case None
    then have s: "in_size c (vbi n) (c_in_packet m')" "rx_bytes (e_rx m') = xs" "length (e_rx m') \<le> length (e_rx m)"
      using c by auto
    have u: "unat (of_nat n :: u32) = n" using assms(5) by (intro unat_u32) simp
    have rl: "pk_remaining_length (c_in_packet m') = of_nat n"
      using s(1) by (simp add: in_size_def vbi_decode_vbi)
    show ?thesis
    proof (cases "n = 0")
      case True
      then show ?thesis using h l None s rl
        by (auto simp: read_remaining_def in_size_def in_body_def)
    next
      case False
      then have "(of_nat n :: u32) > 0" using u by (simp add: word_less_nat_alt)
      then show ?thesis using h l None s rl u
        by (auto simp: read_remaining_def in_size_def in_body_def mosq_alloc_def malloc_buf_def Let_def)
    qed
  next
    case (Some rc)
    then show ?thesis using h l c by (auto simp: read_remaining_def)
  qed
qed

text \<open>One call either completes the packet or stops where the socket has nothing yet.\<close>

definition read_progress ::
    "u8 \<Rightarrow> u8 list \<Rightarrow> u8 list \<Rightarrow> 'u mosq \<Rightarrow> int option \<times> 'u mosq \<Rightarrow> bool" where
  "read_progress c body xs m res \<longleftrightarrow>
     (case res of (r, m') \<Rightarrow> rx_ok (e_rx m') \<and> e_allocs m' = [] \<and>
       (r = None \<and> complete c body (c_in_packet m') \<and> rx_bytes (e_rx m') = xs \<or>
        (\<exists>got rem. r = Some MOSQ_ERR_SUCCESS \<and> assembling c body got (c_in_packet m') \<and>
           got @ rem = frame c body \<and> rx_bytes (e_rx m') = rem @ xs \<and>
           length (e_rx m') < length (e_rx m))))"

lemma progress_body:
  assumes "rx_ok (e_rx m)" "in_body c (length body) b (c_in_packet m)" "body = b @ d"
    and "length body < 2 ^ 28" "rx_bytes (e_rx m) = d @ xs" "e_allocs m = []" "length (e_rx m) \<le> length (e_rx m0)"
  shows "\<exists>res. read_payload_loop m = Some res \<and> read_progress c body xs m0 res"
proof -
  obtain r m' where l: "read_payload_loop m = Some (r, m')" "rx_ok (e_rx m')" "e_allocs m' = []"
    and c: "r = None \<and> in_body c (length body) body (c_in_packet m') \<and> rx_bytes (e_rx m') = xs
       \<or> (\<exists>b' d'. r = Some MOSQ_ERR_SUCCESS \<and> in_body c (length body) b' (c_in_packet m') \<and> body = b' @ d'
         \<and> d' \<noteq> [] \<and> rx_bytes (e_rx m') = d' @ xs \<and> length (e_rx m') < length (e_rx m))"
    using read_payload_loop_ok [OF assms(1,2) _ assms(4,5)] assms(3,6) by auto
  from c show ?thesis
  proof
    assume "\<exists>b' d'. r = Some MOSQ_ERR_SUCCESS \<and> in_body c (length body) b' (c_in_packet m') \<and> body = b' @ d'
         \<and> d' \<noteq> [] \<and> rx_bytes (e_rx m') = d' @ xs \<and> length (e_rx m') < length (e_rx m)"
    then obtain b' d' where i: "r = Some MOSQ_ERR_SUCCESS" "in_body c (length body) b' (c_in_packet m')"
      "body = b' @ d'" "rx_bytes (e_rx m') = d' @ xs" "length (e_rx m') < length (e_rx m)" by blast
    have "assembling c body (c # vbi (length body) @ b') (c_in_packet m')"
      using i(2,3) unfolding assembling_def by blast
    moreover have "(c # vbi (length body) @ b') @ d' = frame c body" using i(3) by (simp add: frame_def)
    ultimately show ?thesis using l i assms(7) unfolding read_progress_def
      by (intro exI [of _ "(r, m')"]) (simp, metis append_Cons append_assoc order_less_le_trans)
  qed (use l in \<open>auto simp: read_progress_def complete_def\<close>)
qed

lemma progress_size:
  assumes "rx_ok (e_rx m)" "in_size c v (c_in_packet m)" "vbi (length body) = v @ w" "w \<noteq> []"
    and "length body < 2 ^ 28" "rx_bytes (e_rx m) = w @ body @ xs" "e_allocs m = []"
    and "length (e_rx m) \<le> length (e_rx m0)"
  shows "\<exists>res. (case read_remaining m of (Some rc, m) \<Rightarrow> Some (Some rc, m) | (None, m) \<Rightarrow> read_payload_loop m)
      = Some res \<and> read_progress c body xs m0 res"
proof -
  obtain r m' where l: "read_remaining m = (r, m')" "rx_ok (e_rx m')" "e_allocs m' = []"
    and c: "r = None \<and> in_body c (length body) [] (c_in_packet m') \<and> rx_bytes (e_rx m') = body @ xs
         \<and> length (e_rx m') \<le> length (e_rx m)
       \<or> (\<exists>v' w'. r = Some MOSQ_ERR_SUCCESS \<and> in_size c v' (c_in_packet m') \<and> vbi (length body) = v' @ w' \<and> w' \<noteq> []
         \<and> rx_bytes (e_rx m') = w' @ body @ xs \<and> length (e_rx m') < length (e_rx m))"
    using read_remaining_ok [OF assms(1-7)] by blast
  from c show ?thesis
  proof
    assume "r = None \<and> in_body c (length body) [] (c_in_packet m') \<and> rx_bytes (e_rx m') = body @ xs
         \<and> length (e_rx m') \<le> length (e_rx m)"
    then show ?thesis using progress_body [of m' c body "[]" body xs m0] l assms(5,8) by auto
  next
    assume "\<exists>v' w'. r = Some MOSQ_ERR_SUCCESS \<and> in_size c v' (c_in_packet m') \<and> vbi (length body) = v' @ w' \<and> w' \<noteq> []
         \<and> rx_bytes (e_rx m') = w' @ body @ xs \<and> length (e_rx m') < length (e_rx m)"
    then obtain v' w' where i: "r = Some MOSQ_ERR_SUCCESS" "in_size c v' (c_in_packet m')"
      "vbi (length body) = v' @ w'" "w' \<noteq> []" "rx_bytes (e_rx m') = w' @ body @ xs"
      "length (e_rx m') < length (e_rx m)" by blast
    have "assembling c body (c # v') (c_in_packet m')" using i(2-4) unfolding assembling_def by blast
    moreover have "(c # v') @ (w' @ body) = frame c body" using i(3) by (simp add: frame_def)
    moreover have "rx_bytes (e_rx m') = (w' @ body) @ xs" using i(5) by simp
    ultimately show ?thesis using l i(1,6) assms(8) unfolding read_progress_def
      by (intro exI [of _ "(r, m')"]) (simp, metis append_Cons append_assoc order_less_le_trans)
  qed
qed

lemma packet_read_in_ok:
  assumes "c \<noteq> 0" "length body < 2 ^ 28" "assembling c body got (c_in_packet m)" "got @ rem = frame c body"
    and "rx_ok (e_rx m)" "rx_bytes (e_rx m) = rem @ xs" "e_allocs m = []"
  shows "\<exists>res. packet_read_in m = Some res \<and> read_progress c body xs m res"
  using assms(3) unfolding assembling_def
proof (elim disjE exE conjE)
  assume "got = []" and fresh: "in_fresh (c_in_packet m)"
  then have rem: "rem = c # vbi (length body) @ body" using assms(4) by (simp add: frame_def)
  have z: "pk_command (c_in_packet m) = 0" using fresh by (simp add: in_fresh_def)
  obtain k bs m1 where rd: "mosquitto_net_read m 1 = (k, bs, m1)" by (cases "mosquitto_net_read m 1") auto
  from assms(5) zero_less_one rd show ?thesis
  proof (cases rule: net_read_cases)
    case (again r)
    have ne: "e_rx m \<noteq> []" using assms(6) rem by auto
    have "assembling c body [] (c_in_packet m)" using fresh by (simp add: assembling_def)
    then have "\<exists>got rem. assembling c body got (c_in_packet m) \<and> got @ rem = frame c body \<and>
        rx_bytes r = rem @ xs" using again(4) assms(6) rem by (metis append_Nil frame_def)
    then show ?thesis using again ne rd z assms(7)
      by (auto simp: packet_read_in_def read_command_def read_progress_def io_error_def)
  next
    case (got r)
    then have b: "bs = [c]" "rx_bytes r = vbi (length body) @ body @ xs"
      using assms(6) rem by (cases bs; auto)+
    let ?m = "m1\<lparr>c_in_packet := (c_in_packet m1)\<lparr>pk_command := c\<rparr>\<rparr>"
    have cmd: "read_command m = (None, ?m)" using rd got b z by (simp add: read_command_def)
    have "vbi (length body) \<noteq> []" by (subst vbi.simps) simp
    then show ?thesis
      using progress_size [of ?m c "[]" body "vbi (length body)" xs m] got b assms(2,7) cmd
        in_size_Nil [OF fresh, of c]
      by (simp add: packet_read_in_def)
  qed
next
  fix v w
  assume i: "got = c # v" "vbi (length body) = v @ w" "w \<noteq> []" "in_size c v (c_in_packet m)"
  then have "read_command m = (None, m)" using assms(1) by (simp add: read_command_def in_size_def)
  then show ?thesis
    using progress_size [of m c v body w xs m] i assms(2,4-7) by (auto simp: packet_read_in_def frame_def)
next
  fix b d
  assume i: "got = c # vbi (length body) @ b" "body = b @ d" "in_body c (length body) b (c_in_packet m)"
  then have "read_command m = (None, m)" "read_remaining m = (None, m)"
    using assms(1) by (simp_all add: read_command_def read_remaining_def in_body_def)
  then show ?thesis
    using progress_body [of m c body b d xs m] i assms(2,4-7) by (auto simp: packet_read_in_def frame_def)
qed

text \<open>The calls a client makes while the packet is not complete, at most \<open>k\<close> of them.\<close>

fun read_calls :: "nat \<Rightarrow> 'u mosq \<Rightarrow> (int option \<times> 'u mosq) option" where
  "read_calls 0 m = None"
| "read_calls (Suc k) m =
     do {
       (r, m) \<leftarrow> packet_read_in m;
       if r = Some MOSQ_ERR_SUCCESS then read_calls k m else Some (r, m)
     }"

lemma read_calls_ok:
  assumes "c \<noteq> 0" "length body < 2 ^ 28" "assembling c body got (c_in_packet m)" "got @ rem = frame c body"
    and "rx_ok (e_rx m)" "rx_bytes (e_rx m) = rem @ xs" "e_allocs m = []" "length (e_rx m) < k"
  shows "\<exists>m'. read_calls k m = Some (None, m') \<and> complete c body (c_in_packet m') \<and> rx_bytes (e_rx m') = xs
    \<and> rx_ok (e_rx m')"
  using assms(3-8)
proof (induction k arbitrary: m got rem)
  case (Suc k)
  obtain r m' where p: "packet_read_in m = Some (r, m')" "read_progress c body xs m (r, m')"
    using packet_read_in_ok [OF assms(1,2) Suc.prems(1-5)] by auto
  from p(2) consider "r = None" "complete c body (c_in_packet m')" "rx_bytes (e_rx m') = xs" "rx_ok (e_rx m')"
    | got' rem' where "r = Some MOSQ_ERR_SUCCESS" "assembling c body got' (c_in_packet m')"
        "got' @ rem' = frame c body" "rx_bytes (e_rx m') = rem' @ xs" "rx_ok (e_rx m')" "e_allocs m' = []"
        "length (e_rx m') < length (e_rx m)"
    by (auto simp: read_progress_def)
  then show ?case
  proof cases
    case 2
    then show ?thesis using Suc.IH [OF 2(2,3) 2(5) 2(4) 2(6)] Suc.prems(6) p by auto
  qed (use p in auto)
qed simp

section \<open>Properties\<close>

text \<open>
  C6: however the socket cuts the stream and however often it reports that nothing is there yet,
  a packet of at most \<open>2 ^ 28 - 1\<close> bytes is assembled after finitely many calls: the handlers see
  its command byte, its size and exactly its body, and the bytes behind it stay in the socket.
\<close>
theorem packet_read_any_split:
  assumes "c \<noteq> 0" "length body < 2 ^ 28" "in_fresh (c_in_packet m)"
    and "rx_ok (e_rx m)" "rx_bytes (e_rx m) = frame c body @ xs" "e_allocs m = []"
  shows "\<exists>m'. read_calls (Suc (length (e_rx m))) m = Some (None, m')
    \<and> pk_command (c_in_packet m') = c \<and> unat (pk_remaining_length (c_in_packet m')) = length body
    \<and> (body \<noteq> [] \<longrightarrow> pk_payload (c_in_packet m') = Some body) \<and> rx_bytes (e_rx m') = xs"
proof -
  have "assembling c body [] (c_in_packet m)" using assms(3) by (simp add: assembling_def)
  moreover have "unat (of_nat (length body) :: u32) = length body" using assms(2) by (intro unat_u32) simp
  ultimately show ?thesis
    using read_calls_ok [OF assms(1,2) _ _ assms(4,5,6), of "[]" "Suc (length (e_rx m))"]
    by (auto simp: complete_def in_body_def)
qed

theorem packet_read_any_split_witness:
  "\<exists>m'. read_calls 5 (demo_client\<lparr>c_in_packet := mosquitto_packet_cleanup packet_calloc,
       e_rx := [Rx_data [0x20], Rx_err EAGAIN, Rx_data [2, 0], Rx_data [0, 0xD0, 0]]\<rparr>) = Some (None, m')
    \<and> pk_command (c_in_packet m') = CONNACK \<and> pk_payload (c_in_packet m') = Some [0, 0]
    \<and> rx_bytes (e_rx m') = [0xD0, 0]"
proof -
  have v: "vbi (Suc (Suc 0)) = [2]" by (subst vbi.simps) simp
  have n: "Suc (Suc (Suc (Suc (Suc 0)))) = 5" by simp
  show ?thesis
    using packet_read_any_split [of CONNACK "[0, 0]" "demo_client\<lparr>c_in_packet := mosquitto_packet_cleanup packet_calloc,
         e_rx := [Rx_data [0x20], Rx_err EAGAIN, Rx_data [2, 0], Rx_data [0, 0xD0, 0]]\<rparr>" "[0xD0, 0]"]
    by (simp add: frame_def v demo_client_def mosq_calloc_def in_fresh_def mosquitto_packet_cleanup_def
        packet_calloc_def n) blast
qed

end
