(* ===== verification/Send.thy ===== *)
theory Send
  imports Topics Assemble
begin

text \<open>
  The packets a client sends: \<open>mosquitto/lib/send_mosq.c\<close>, \<open>mosquitto/lib/send_client_mosq.c\<close> and
  \<open>_mosquitto_mid_generate\<close> of \<open>mosquitto/lib/util_mosq.c\<close>. Every function allocates a packet,
  fills its buffer with the writers of the theory \<open>Packet\<close> and queues it.
\<close>

section \<open>Model\<close>

definition mosquitto_mid_generate :: "'u mosq \<Rightarrow> u16 \<times> 'u mosq" where
  "mosquitto_mid_generate m =
     (let m = m\<lparr>c_last_mid := c_last_mid m + 1\<rparr>;
          m = (if c_last_mid m = 0 then m\<lparr>c_last_mid := c_last_mid m + 1\<rparr> else m)
      in (c_last_mid m, m))"

text \<open>\<open>_mosquitto_packet_alloc\<close> with the allocator and the fresh memory of the client.\<close>

definition packet_alloc_in :: "'u mosq \<Rightarrow> packet \<Rightarrow> int \<times> packet \<times> 'u mosq" where
  "packet_alloc_in m p =
     (case mosquitto_packet_alloc (e_junk m) p (e_allocs m) of (rc, p, al) \<Rightarrow> (rc, p, m\<lparr>e_allocs := al\<rparr>))"

definition write_at :: "packet \<Rightarrow> u32 \<Rightarrow> u8 \<Rightarrow> packet option" where
  "write_at p i b =
     (case pk_payload p of
        None \<Rightarrow> None
      | Some buf \<Rightarrow>
          if unat (pk_pos p + i) < length buf
          then Some (p\<lparr>pk_payload := Some (buf[unat (pk_pos p + i) := b])\<rparr>) else None)"

definition mosquitto_send_command_with_mid :: "'u app \<Rightarrow> 'u mosq \<Rightarrow> u8 \<Rightarrow> u16 \<Rightarrow> bool \<Rightarrow> 'u res" where
  "mosquitto_send_command_with_mid app m command mid dup =
     (case mosq_alloc m of
        (False, m) \<Rightarrow> Some (MOSQ_ERR_NOMEM, m)
      | (True, m) \<Rightarrow>
          (let packet = packet_calloc\<lparr>pk_command := command\<rparr>;
               packet = (if dup then packet\<lparr>pk_command := pk_command packet OR 8\<rparr> else packet);
               packet = packet\<lparr>pk_remaining_length := 2\<rparr>
           in case packet_alloc_in m packet of (rc, packet, m) \<Rightarrow>
                if rc \<noteq> 0 then Some (rc, m)
                else
                  do {
                    packet \<leftarrow> write_at packet 0 (MOSQ_MSB mid);
                    packet \<leftarrow> write_at packet 1 (MOSQ_LSB mid);
                    mosquitto_packet_queue app m packet
                  }))"

definition mosquitto_send_simple_command :: "'u app \<Rightarrow> 'u mosq \<Rightarrow> u8 \<Rightarrow> 'u res" where
  "mosquitto_send_simple_command app m command =
     (case mosq_alloc m of
        (False, m) \<Rightarrow> Some (MOSQ_ERR_NOMEM, m)
      | (True, m) \<Rightarrow>
          (let packet = packet_calloc\<lparr>pk_command := command, pk_remaining_length := 0\<rparr>
           in case packet_alloc_in m packet of (rc, packet, m) \<Rightarrow>
                if rc \<noteq> 0 then Some (rc, m) else mosquitto_packet_queue app m packet))"

definition mosquitto_send_pingreq :: "'u app \<Rightarrow> 'u mosq \<Rightarrow> 'u res" where
  "mosquitto_send_pingreq app m =
     do {
       (rc, m) \<leftarrow> mosquitto_send_simple_command app m PINGREQ;
       Some (rc, if rc = MOSQ_ERR_SUCCESS then m\<lparr>c_ping_t := e_now m\<rparr> else m)
     }"

definition mosquitto_send_pingresp :: "'u app \<Rightarrow> 'u mosq \<Rightarrow> 'u res" where
  "mosquitto_send_pingresp app m = mosquitto_send_simple_command app m PINGRESP"

definition mosquitto_send_puback :: "'u app \<Rightarrow> 'u mosq \<Rightarrow> u16 \<Rightarrow> 'u res" where
  "mosquitto_send_puback app m mid = mosquitto_send_command_with_mid app m PUBACK mid False"

definition mosquitto_send_pubcomp :: "'u app \<Rightarrow> 'u mosq \<Rightarrow> u16 \<Rightarrow> 'u res" where
  "mosquitto_send_pubcomp app m mid = mosquitto_send_command_with_mid app m PUBCOMP mid False"

definition mosquitto_send_pubrec :: "'u app \<Rightarrow> 'u mosq \<Rightarrow> u16 \<Rightarrow> 'u res" where
  "mosquitto_send_pubrec app m mid = mosquitto_send_command_with_mid app m PUBREC mid False"

definition mosquitto_send_pubrel :: "'u app \<Rightarrow> 'u mosq \<Rightarrow> u16 \<Rightarrow> bool \<Rightarrow> 'u res" where
  "mosquitto_send_pubrel app m mid dup = mosquitto_send_command_with_mid app m (PUBREL OR 2) mid dup"

definition mosquitto_send_real_publish ::
    "'u app \<Rightarrow> 'u mosq \<Rightarrow> u16 \<Rightarrow> string \<Rightarrow> u32 \<Rightarrow> u8 list option \<Rightarrow> int \<Rightarrow> bool \<Rightarrow> bool \<Rightarrow> 'u res" where
  "mosquitto_send_real_publish app m mid topic payloadlen payload qos retain dup =
     (let packetlen = of_nat (2 + length topic) + payloadlen;
          packetlen = (if qos > 0 then packetlen + 2 else packetlen)
      in case mosq_alloc m of
           (False, m) \<Rightarrow> Some (MOSQ_ERR_NOMEM, m)
         | (True, m) \<Rightarrow>
             (let packet = packet_calloc\<lparr>pk_mid := mid,
                    pk_command := PUBLISH OR push_bit 3 (of_bool dup) OR push_bit 1 (of_int qos) OR of_bool retain,
                    pk_remaining_length := packetlen\<rparr>
              in case packet_alloc_in m packet of (rc, packet, m) \<Rightarrow>
                   if rc \<noteq> 0 then Some (rc, m)
                   else
                     do {
                       packet \<leftarrow> mosquitto_write_string packet (bytes_of_string topic) (of_nat (length topic));
                       packet \<leftarrow> if qos > 0 then mosquitto_write_uint16 packet mid else Some packet;
                       packet \<leftarrow> if payloadlen \<noteq> 0
                         then (case payload of
                             None \<Rightarrow> None
                           | Some bs \<Rightarrow> mosquitto_write_bytes packet bs payloadlen)
                         else Some packet;
                       mosquitto_packet_queue app m packet
                     }))"

definition mosquitto_send_publish ::
    "'u app \<Rightarrow> 'u mosq \<Rightarrow> u16 \<Rightarrow> string option \<Rightarrow> u32 \<Rightarrow> u8 list option \<Rightarrow> int \<Rightarrow> bool \<Rightarrow> bool \<Rightarrow> 'u res" where
  "mosquitto_send_publish app m mid topic payloadlen payload qos retain dup =
     (case topic of
        None \<Rightarrow> None
      | Some topic \<Rightarrow>
          if c_sock m = INVALID_SOCKET then Some (MOSQ_ERR_NO_CONN, m)
          else mosquitto_send_real_publish app m mid topic payloadlen payload qos retain dup)"

text \<open>
  Writing a C string of the client with its length; the length is cut to 16 bits. The will's
  payload is a buffer with a length of its own.
\<close>

definition write_cstring :: "packet \<Rightarrow> string \<Rightarrow> packet option" where
  "write_cstring p s = mosquitto_write_string p (bytes_of_string s) (of_nat (length s))"

definition write_will :: "packet \<Rightarrow> message option \<Rightarrow> packet option" where
  "write_will p will =
     (case will of
        None \<Rightarrow> Some p
      | Some w \<Rightarrow>
          do {
            topic \<leftarrow> m_topic w;
            p \<leftarrow> write_cstring p topic;
            (case m_payload w of
               Some bs \<Rightarrow> mosquitto_write_string p bs (of_int (m_payloadlen w))
             | None \<Rightarrow> mosquitto_write_string p [] (of_int (m_payloadlen w)))
          })"

definition write_credentials :: "packet \<Rightarrow> string option \<Rightarrow> string option \<Rightarrow> packet option" where
  "write_credentials p username password =
     (case username of
        None \<Rightarrow> Some p
      | Some u \<Rightarrow>
          do {
            p \<leftarrow> write_cstring p u;
            (case password of None \<Rightarrow> Some p | Some pw \<Rightarrow> write_cstring p pw)
          })"

definition connect_payloadlen :: "string \<Rightarrow> 'u mosq \<Rightarrow> int option" where
  "connect_payloadlen cid m =
     do {
       let payloadlen = 2 + int (length cid);
       payloadlen \<leftarrow> (case c_will m of
           None \<Rightarrow> Some payloadlen
         | Some w \<Rightarrow> do { topic \<leftarrow> m_topic w;
             Some (payloadlen + 2 + int (length topic) + 2 + m_payloadlen w) });
       Some (case c_username m of
           None \<Rightarrow> payloadlen
         | Some u \<Rightarrow> payloadlen + 2 + int (length u) +
             (case c_password m of None \<Rightarrow> 0 | Some pw \<Rightarrow> 2 + int (length pw)))
     }"

definition connect_flags :: "'u mosq \<Rightarrow> bool \<Rightarrow> u8" where
  "connect_flags m clean_session =
     (let byte = push_bit 1 (of_bool clean_session) :: u8;
          byte = (case c_will m of
              None \<Rightarrow> byte
            | Some w \<Rightarrow> byte OR push_bit 5 (of_bool (m_retain w))
                OR push_bit 3 (of_int (m_qos w) AND 3) OR push_bit 2 1)
      in case c_username m of
           None \<Rightarrow> byte
         | Some _ \<Rightarrow>
             (let byte = byte OR push_bit 7 1
              in case c_password m of None \<Rightarrow> byte | Some _ \<Rightarrow> byte OR push_bit 6 1))"

definition mosquitto_send_connect :: "'u app \<Rightarrow> 'u mosq \<Rightarrow> u16 \<Rightarrow> bool \<Rightarrow> 'u res" where
  "mosquitto_send_connect app m keepalive clean_session =
     (case c_id m of
        None \<Rightarrow> None
      | Some cid \<Rightarrow>
          (case mosq_alloc m of
             (False, m) \<Rightarrow> Some (MOSQ_ERR_NOMEM, m)
           | (True, m) \<Rightarrow>
               do {
                 payloadlen \<leftarrow> connect_payloadlen cid m;
                 let packet = packet_calloc\<lparr>pk_command := CONNECT, pk_remaining_length := of_int (12 + payloadlen)\<rparr>;
                 case packet_alloc_in m packet of (rc, packet, m) \<Rightarrow>
                   if rc \<noteq> 0 then Some (rc, m)
                   else
                     do {
                       packet \<leftarrow> write_cstring packet ''MQIsdp'';
                       packet \<leftarrow> mosquitto_write_byte packet 3;
                       packet \<leftarrow> mosquitto_write_byte packet (connect_flags m clean_session);
                       packet \<leftarrow> mosquitto_write_uint16 packet keepalive;
                       packet \<leftarrow> write_cstring packet cid;
                       packet \<leftarrow> write_will packet (c_will m);
                       packet \<leftarrow> write_credentials packet (c_username m) (c_password m);
                       mosquitto_packet_queue app (m\<lparr>c_keepalive := keepalive\<rparr>) packet
                     }
               }))"

definition mosquitto_send_disconnect :: "'u app \<Rightarrow> 'u mosq \<Rightarrow> 'u res" where
  "mosquitto_send_disconnect app m = mosquitto_send_simple_command app m DISCONNECT"

text \<open>The middle component of the result is what the call stores through \<open>mid\<close>.\<close>

definition mosquitto_send_subscribe ::
    "'u app \<Rightarrow> 'u mosq \<Rightarrow> bool \<Rightarrow> string option \<Rightarrow> u8 \<Rightarrow> (int \<times> u16 option \<times> 'u mosq) option" where
  "mosquitto_send_subscribe app m dup topic topic_qos =
     (case topic of
        None \<Rightarrow> None
      | Some topic \<Rightarrow>
          (case mosq_alloc m of
             (False, m) \<Rightarrow> Some (MOSQ_ERR_NOMEM, None, m)
           | (True, m) \<Rightarrow>
               (let packetlen = of_nat (2 + 2 + length topic + 1);
                    packet = packet_calloc\<lparr>pk_command := SUBSCRIBE OR push_bit 3 (of_bool dup) OR push_bit 1 1,
                      pk_remaining_length := packetlen\<rparr>
                in case packet_alloc_in m packet of (rc, packet, m) \<Rightarrow>
                     if rc \<noteq> 0 then Some (rc, None, m)
                     else
                       (case mosquitto_mid_generate m of (local_mid, m) \<Rightarrow>
                          do {
                            packet \<leftarrow> mosquitto_write_uint16 packet local_mid;
                            packet \<leftarrow> write_cstring packet topic;
                            packet \<leftarrow> mosquitto_write_byte packet topic_qos;
                            (rc, m) \<leftarrow> mosquitto_packet_queue app m packet;
                            Some (rc, Some local_mid, m)
                          }))))"

definition mosquitto_send_unsubscribe ::
    "'u app \<Rightarrow> 'u mosq \<Rightarrow> bool \<Rightarrow> string option \<Rightarrow> (int \<times> u16 option \<times> 'u mosq) option" where
  "mosquitto_send_unsubscribe app m dup topic =
     (case topic of
        None \<Rightarrow> None
      | Some topic \<Rightarrow>
          (case mosq_alloc m of
             (False, m) \<Rightarrow> Some (MOSQ_ERR_NOMEM, None, m)
           | (True, m) \<Rightarrow>
               (let packetlen = of_nat (2 + 2 + length topic);
                    packet = packet_calloc\<lparr>pk_command := UNSUBSCRIBE OR push_bit 3 (of_bool dup) OR push_bit 1 1,
                      pk_remaining_length := packetlen\<rparr>
                in case packet_alloc_in m packet of (rc, packet, m) \<Rightarrow>
                     if rc \<noteq> 0 then Some (rc, None, m)
                     else
                       (case mosquitto_mid_generate m of (local_mid, m) \<Rightarrow>
                          do {
                            packet \<leftarrow> mosquitto_write_uint16 packet local_mid;
                            packet \<leftarrow> write_cstring packet topic;
                            (rc, m) \<leftarrow> mosquitto_packet_queue app m packet;
                            Some (rc, Some local_mid, m)
                          }))))"

section \<open>Filling a packet\<close>

text \<open>Reference encodings: a big-endian 16-bit number and a string with its length.\<close>

definition be16 :: "u16 \<Rightarrow> u8 list" where
  "be16 w = [MOSQ_MSB w, MOSQ_LSB w]"

definition str16 :: "u8 list \<Rightarrow> u8 list" where
  "str16 s = be16 (of_nat (length s)) @ s"

lemma length_be16 [simp]: "length (be16 w) = 2"
  by (simp add: be16_def)

lemma length_str16 [simp]: "length (str16 s) = 2 + length s"
  by (simp add: str16_def)

text \<open>\<open>wrote q p d n\<close>: \<open>q\<close> is \<open>p\<close> with the bytes \<open>d\<close> written and room for \<open>n\<close> more.\<close>

definition wrote :: "packet \<Rightarrow> packet \<Rightarrow> u8 list \<Rightarrow> nat \<Rightarrow> bool" where
  "wrote q p d n \<longleftrightarrow> (\<exists>rest. q = at_pos p d rest \<and> length rest = n \<and> wr_fits p d rest)"

lemma wrote_byte:
  assumes "wrote q p d n" "1 \<le> n"
  shows "\<exists>q'. mosquitto_write_byte q b = Some q' \<and> wrote q' p (d @ [b]) (n - 1)"
proof -
  obtain rest where r: "q = at_pos p d rest" "length rest = n" "wr_fits p d rest"
    using assms(1) by (auto simp: wrote_def)
  then have "rest \<noteq> []" using assms(2) by auto
  then show ?thesis using r write_byte_at [OF r(3)] wr_fits_advance [OF r(3), of "[b]"] assms(2)
    by (auto simp: wrote_def)
qed

lemma wrote_uint16:
  assumes "wrote q p d n" "2 \<le> n"
  shows "\<exists>q'. mosquitto_write_uint16 q w = Some q' \<and> wrote q' p (d @ be16 w) (n - 2)"
proof -
  obtain rest where r: "q = at_pos p d rest" "length rest = n" "wr_fits p d rest"
    using assms(1) by (auto simp: wrote_def)
  then show ?thesis using write_uint16_at [OF r(3)] wr_fits_advance [OF r(3), of "be16 w" 2] assms(2)
    by (auto simp: wrote_def be16_def)
qed

lemma wrote_string:
  assumes "wrote q p d n" "2 + length s \<le> n" "length s < 2 ^ 16"
  shows "\<exists>q'. mosquitto_write_string q s (of_nat (length s)) = Some q' \<and>
    wrote q' p (d @ str16 s) (n - (2 + length s))"
proof -
  obtain rest where r: "q = at_pos p d rest" "length rest = n" "wr_fits p d rest"
    using assms(1) by (auto simp: wrote_def)
  then show ?thesis
    using write_string_at [OF r(3) refl _ assms(3)] wr_fits_advance [OF r(3), of "str16 s"] assms(2)
    by (auto simp: wrote_def str16_def be16_def)
qed

lemma wrote_bytes:
  assumes "wrote q p d n" "length s \<le> n" "unat k = length s"
  shows "\<exists>q'. mosquitto_write_bytes q s k = Some q' \<and> wrote q' p (d @ s) (n - length s)"
proof -
  obtain rest where r: "q = at_pos p d rest" "length rest = n" "wr_fits p d rest"
    using assms(1) by (auto simp: wrote_def)
  have k: "k = of_nat (length s)" using assms(3) by (metis of_nat_unat ucast_id)
  show ?thesis
    using r write_bytes_at [OF r(3) refl, of s] wr_fits_advance [OF r(3), of s] assms(2) k
    by (auto simp: wrote_def)
qed

text \<open>A packet as it stands in the queue, made from the header \<open>p\<close> and the body.\<close>

definition wire :: "packet \<Rightarrow> u8 list \<Rightarrow> packet" where
  "wire p body = (alloc_packet p)\<lparr>pk_payload := Some (frame (pk_command p) body), pk_pos := 0,
     pk_to_process := pk_packet_length (alloc_packet p)\<rparr>"

definition enqueue :: "'u app \<Rightarrow> 'u mosq \<Rightarrow> packet \<Rightarrow> 'u res" where
  "enqueue app m p =
     (let m = m\<lparr>c_out_packet := c_out_packet m @ [p]\<rparr>
      in if \<not> c_in_callback m \<and> \<not> c_threaded m then mosquitto_packet_write app m
         else Some (MOSQ_ERR_SUCCESS, m))"

text \<open>The allocator's outcomes after one successful call.\<close>

definition alloc_next :: "bool list \<Rightarrow> bool list" where
  "alloc_next al = snd (malloc_ok al)"

lemma alloc_next_Nil [simp]: "alloc_next [] = []"
  by (simp add: alloc_next_def)

lemma wrote_alloc_at:
  assumes "fst (malloc_ok (e_allocs m))" "unat (pk_remaining_length p) < 268435456"
  shows "\<exists>q. packet_alloc_in m p = (MOSQ_ERR_SUCCESS, q, m\<lparr>e_allocs := alloc_next (e_allocs m)\<rparr>) \<and>
    wrote q (alloc_packet p) (pk_command p # vbi (unat (pk_remaining_length p))) (unat (pk_remaining_length p))"
proof -
  obtain al where al: "malloc_ok (e_allocs m) = (True, al)" using assms(1) by (cases "malloc_ok (e_allocs m)") auto
  show ?thesis using packet_alloc_at(1) [OF assms(2), of "e_junk m" "e_allocs m"] alloc_fits [OF assms(2), of "e_junk m"] al
    by (auto simp: packet_alloc_in_def wrote_def malloc_buf_def alloc_next_def)
qed

lemma wrote_alloc:
  assumes "e_allocs m = []" "unat (pk_remaining_length p) < 268435456"
  shows "\<exists>q. packet_alloc_in m p = (MOSQ_ERR_SUCCESS, q, m) \<and>
    wrote q (alloc_packet p) (pk_command p # vbi (unat (pk_remaining_length p))) (unat (pk_remaining_length p))"
proof -
  have m: "m\<lparr>e_allocs := []\<rparr> = m" using assms(1) by simp
  show ?thesis using wrote_alloc_at [of m p] assms m by simp
qed

lemma wrote_queue:
  assumes "wrote q (alloc_packet p) (pk_command p # vbi (length body) @ body) 0"
  shows "mosquitto_packet_queue app m q = enqueue app m (wire p body)"
  using assms by (auto simp: wrote_def mosquitto_packet_queue_def enqueue_def wire_def frame_def at_pos_def Let_def)

lemma wire_sel [simp]:
  "pk_command (wire p body) = pk_command p" "pk_mid (wire p body) = pk_mid p"
  "left_of (wire p body) = frame (pk_command p) body"
  by (simp_all add: wire_def left_of_def)

lemma wire_out_ok:
  assumes "unat (pk_remaining_length p) = length body" "length body < 268435456"
  shows "out_ok (wire p body)"
proof -
  have "length (vbi (length body)) \<le> 4" using length_vbi_le [of _ 4] assms(2) by simp
  then show ?thesis using assms packet_alloc_at(2) [of p] by (simp add: out_ok_def wire_def frame_def)
qed

lemma mosq_alloc_ok: "e_allocs m = [] \<Longrightarrow> mosq_alloc m = (True, m)"
  by (cases m) (simp add: mosq_alloc_def)

section \<open>What each command puts on the wire\<close>

lemma send_simple_command_eq:
  assumes "e_allocs m = []"
  shows "mosquitto_send_simple_command app m c = enqueue app m (wire (packet_calloc\<lparr>pk_command := c\<rparr>) [])"
proof -
  let ?p = "packet_calloc\<lparr>pk_command := c, pk_remaining_length := 0\<rparr>"
  have p: "?p = packet_calloc\<lparr>pk_command := c\<rparr>" by (simp add: packet_calloc_def)
  obtain q where q: "packet_alloc_in m ?p = (MOSQ_ERR_SUCCESS, q, m)"
    "wrote q (alloc_packet ?p) (c # vbi 0) 0"
    using wrote_alloc [OF assms, of ?p] by auto
  show ?thesis
    using q wrote_queue [of q ?p "[]" app m] mosq_alloc_ok [OF assms]
    by (simp add: mosquitto_send_simple_command_def p)
qed

lemma write_two:
  assumes "wrote q p d 2"
  shows "\<exists>q' q''. write_at q 0 a = Some q' \<and> write_at q' 1 b = Some q'' \<and>
    mosquitto_packet_queue app m q'' = mosquitto_packet_queue app m (at_pos p (d @ [a, b]) [])"
proof -
  obtain x y where r: "q = at_pos p d [x, y]" "wr_fits p d [x, y]"
    using assms by (auto simp: wrote_def length_Suc_conv numeral_2_eq_2)
  have "length d + 1 \<le> unat (pk_packet_length p)" "length d + 0 \<le> unat (pk_packet_length p)"
    using r(2) by (auto simp: wr_fits_def)
  then have u: "unat (of_nat (length d) :: u32) = length d" "unat (of_nat (length d + 1) :: u32) = length d + 1"
    using u32_pos(2) [of "length d" 1] u32_pos(2) [of "length d + 1" 0] by auto
  then show ?thesis using r
    by (auto simp: write_at_def at_pos_def mosquitto_packet_queue_def list_update_append nth_append add.commute)
qed

lemma send_command_with_mid_eq:
  assumes "e_allocs m = []"
  shows "mosquitto_send_command_with_mid app m c mid dup =
    enqueue app m (wire (packet_calloc\<lparr>pk_command := (if dup then c OR 8 else c), pk_remaining_length := 2\<rparr>) (be16 mid))"
proof -
  let ?p = "packet_calloc\<lparr>pk_command := (if dup then c OR 8 else c), pk_remaining_length := 2\<rparr>"
  obtain q where q: "packet_alloc_in m ?p = (MOSQ_ERR_SUCCESS, q, m)"
    "wrote q (alloc_packet ?p) (pk_command ?p # vbi 2) 2"
    using wrote_alloc [OF assms, of ?p] by auto
  obtain q' q'' where w: "write_at q 0 (MOSQ_MSB mid) = Some q'" "write_at q' 1 (MOSQ_LSB mid) = Some q''"
    "mosquitto_packet_queue app m q'' =
      mosquitto_packet_queue app m (at_pos (alloc_packet ?p) ((pk_command ?p # vbi 2) @ be16 mid) [])"
    using write_two [OF q(2), of "MOSQ_MSB mid" "MOSQ_LSB mid" app m] by (auto simp: be16_def)
  obtain rest where "length rest = 2" "wr_fits (alloc_packet ?p) (pk_command ?p # vbi 2) rest"
    using q(2) by (auto simp: wrote_def)
  then have "wrote (at_pos (alloc_packet ?p) ((pk_command ?p # vbi 2) @ be16 mid) [])
      (alloc_packet ?p) (pk_command ?p # vbi (length (be16 mid)) @ be16 mid) 0"
    by (auto simp: wrote_def wr_fits_def)
  note e = wrote_queue [OF this, of app m]
  have s: "(if dup then packet_calloc\<lparr>pk_command := c\<rparr>\<lparr>pk_command := pk_command (packet_calloc\<lparr>pk_command := c\<rparr>) OR 8\<rparr>
      else packet_calloc\<lparr>pk_command := c\<rparr>)\<lparr>pk_remaining_length := 2\<rparr> = ?p" by simp
  show ?thesis
    unfolding mosquitto_send_command_with_mid_def Let_def s mosq_alloc_ok [OF assms]
    using q(1) w e by simp
qed

text \<open>The body of a PUBLISH packet.\<close>

definition publish_body :: "string \<Rightarrow> u16 \<Rightarrow> int \<Rightarrow> u8 list \<Rightarrow> u8 list" where
  "publish_body topic mid qos payload =
     str16 (bytes_of_string topic) @ (if qos > 0 then be16 mid else []) @ payload"

definition publish_header :: "u16 \<Rightarrow> int \<Rightarrow> bool \<Rightarrow> bool \<Rightarrow> nat \<Rightarrow> packet" where
  "publish_header mid qos retain dup n = packet_calloc\<lparr>pk_mid := mid,
     pk_command := PUBLISH OR push_bit 3 (of_bool dup) OR push_bit 1 (of_int qos) OR of_bool retain,
     pk_remaining_length := of_nat n\<rparr>"

lemma send_real_publish_at:
  assumes "fst (malloc_ok (e_allocs m))" "fst (malloc_ok (alloc_next (e_allocs m)))" 
    and "length topic < 2 ^ 16" "unat payloadlen = length payload"
    and "length (publish_body topic mid qos payload) < 268435456"
  shows "mosquitto_send_real_publish app m mid topic payloadlen (Some payload) qos retain dup =
    enqueue app (m\<lparr>e_allocs := alloc_next (alloc_next (e_allocs m))\<rparr>) (wire (publish_header mid qos retain dup (length (publish_body topic mid qos payload)))
      (publish_body topic mid qos payload))"
proof -
  let ?body = "publish_body topic mid qos payload"
  let ?p = "publish_header mid qos retain dup (length ?body)"
  let ?m1 = "m\<lparr>e_allocs := alloc_next (e_allocs m)\<rparr>" and ?m2 = "m\<lparr>e_allocs := alloc_next (alloc_next (e_allocs m))\<rparr>"
  have al: "mosq_alloc m = (True, ?m1)" using assms(1) by (auto simp: mosq_alloc_def alloc_next_def split: prod.split)
  have pl: "payloadlen = of_nat (length payload)" using assms(4) by (metis of_nat_unat ucast_id)
  have len: "(let packetlen = of_nat (2 + length topic) + payloadlen
      in if qos > 0 then packetlen + 2 else packetlen) = of_nat (length ?body)"
    by (simp add: pl publish_body_def Let_def)
  have u: "unat (of_nat (length ?body) :: u32) = length ?body" using assms(5) by (intro unat_u32) simp
  have rl: "unat (pk_remaining_length ?p) = length ?body" using u by (simp add: publish_header_def)
  obtain q0 where q0: "packet_alloc_in ?m1 ?p = (MOSQ_ERR_SUCCESS, q0, ?m2)"
    "wrote q0 (alloc_packet ?p) (pk_command ?p # vbi (length ?body)) (length ?body)"
    using wrote_alloc_at [of ?m1 ?p] rl assms(2,5) by auto
  obtain q1 where q1: "mosquitto_write_string q0 (bytes_of_string topic) (of_nat (length topic)) = Some q1"
    "wrote q1 (alloc_packet ?p) (pk_command ?p # vbi (length ?body) @ str16 (bytes_of_string topic))
      (length ?body - (2 + length topic))"
    using wrote_string [OF q0(2), of "bytes_of_string topic"] assms(3) by (auto simp: publish_body_def)
  have "\<exists>q2. (if qos > 0 then mosquitto_write_uint16 q1 mid else Some q1) = Some q2 \<and>
      wrote q2 (alloc_packet ?p) (pk_command ?p # vbi (length ?body) @ str16 (bytes_of_string topic) @
        (if qos > 0 then be16 mid else [])) (length payload)"
    using wrote_uint16 [OF q1(2), of mid] q1 by (auto simp: publish_body_def)
  then obtain q2 where q2: "(if qos > 0 then mosquitto_write_uint16 q1 mid else Some q1) = Some q2"
    "wrote q2 (alloc_packet ?p) (pk_command ?p # vbi (length ?body) @ str16 (bytes_of_string topic) @
        (if qos > 0 then be16 mid else [])) (length payload)" by blast
  have "\<exists>q3. (if payloadlen \<noteq> 0 then mosquitto_write_bytes q2 payload payloadlen else Some q2) = Some q3 \<and>
      wrote q3 (alloc_packet ?p) (pk_command ?p # vbi (length ?body) @ ?body) 0"
    using wrote_bytes [OF q2(2) _ assms(4)] q2(2) pl assms(4)
    by (cases "payloadlen = 0") (auto simp: publish_body_def)
  then obtain q3 where q3: "(if payloadlen \<noteq> 0 then mosquitto_write_bytes q2 payload payloadlen else Some q2) = Some q3"
    "wrote q3 (alloc_packet ?p) (pk_command ?p # vbi (length ?body) @ ?body) 0" by blast
  show ?thesis
    unfolding mosquitto_send_real_publish_def Let_def len [unfolded Let_def]
      publish_header_def [symmetric] al
    using q0(1) q1(1) q2(1) q3(1) wrote_queue [OF q3(2), of app ?m2] by (simp split: if_splits)
qed

lemma send_real_publish_eq:
  assumes "e_allocs m = []" "length topic < 2 ^ 16" "unat payloadlen = length payload"
    and "length (publish_body topic mid qos payload) < 268435456"
  shows "mosquitto_send_real_publish app m mid topic payloadlen (Some payload) qos retain dup =
    enqueue app m (wire (publish_header mid qos retain dup (length (publish_body topic mid qos payload)))
      (publish_body topic mid qos payload))"
proof -
  have m: "m\<lparr>e_allocs := []\<rparr> = m" using assms(1) by simp
  show ?thesis using send_real_publish_at [of m topic payloadlen payload mid qos app retain dup] assms m by simp
qed

text \<open>Without memory nothing is queued.\<close>

lemma send_real_publish_nomem:
  assumes "\<not> fst (malloc_ok (e_allocs m)) \<or> \<not> fst (malloc_ok (alloc_next (e_allocs m)))"
    and "unat payloadlen = length payload" "length (publish_body topic mid qos payload) < 268435456"
  shows "\<exists>al. mosquitto_send_real_publish app m mid topic payloadlen pl qos retain dup =
    Some (MOSQ_ERR_NOMEM, m\<lparr>e_allocs := al\<rparr>)"
proof (cases "fst (malloc_ok (e_allocs m))")
  case True
  let ?m1 = "m\<lparr>e_allocs := alloc_next (e_allocs m)\<rparr>"
  let ?p = "publish_header mid qos retain dup (length (publish_body topic mid qos payload))"
  have pl: "payloadlen = of_nat (length payload)" using assms(2) by (metis of_nat_unat ucast_id)
  have len: "(let packetlen = of_nat (2 + length topic) + payloadlen
      in if qos > 0 then packetlen + 2 else packetlen) = of_nat (length (publish_body topic mid qos payload))"
    by (simp add: pl publish_body_def Let_def)
  have rl: "unat (pk_remaining_length ?p) < 268435456" using assms(3) by (simp add: publish_header_def unat_u32)
  have al: "mosq_alloc m = (True, ?m1)" using True by (auto simp: mosq_alloc_def alloc_next_def split: prod.split)
  obtain q al' where "packet_alloc_in ?m1 ?p = (MOSQ_ERR_NOMEM, q, m\<lparr>e_allocs := al'\<rparr>)"
    using packet_alloc_at(1) [OF rl, of "e_junk m" "alloc_next (e_allocs m)"] assms(1) True
    by (auto simp: packet_alloc_in_def split: prod.splits)
  then show ?thesis unfolding mosquitto_send_real_publish_def Let_def len [unfolded Let_def] publish_header_def [symmetric] al
    by (intro exI [of _ al']) simp
qed (auto simp: mosquitto_send_real_publish_def Let_def mosq_alloc_def split: prod.split)

lemma send_real_publish_None:
  "mosquitto_send_real_publish app m mid topic 0 None qos retain dup =
   mosquitto_send_real_publish app m mid topic 0 (Some []) qos retain dup"
  unfolding mosquitto_send_real_publish_def Let_def by (simp only: refl not_True_eq_False if_False)

section \<open>Message ids\<close>

fun gen_mids :: "nat \<Rightarrow> 'u mosq \<Rightarrow> u16 list" where
  "gen_mids 0 m = []"
| "gen_mids (Suc k) m = (case mosquitto_mid_generate m of (mid, m') \<Rightarrow> mid # gen_mids k m')"

lemma mid_generate_unat:
  assumes "mosquitto_mid_generate m = (mid, m')"
  shows "unat mid = unat (c_last_mid m) mod 65535 + 1" "c_last_mid m' = mid"
proof -
  let ?w = "c_last_mid m"
  have b: "unat ?w < 65536" using unsigned_less [of ?w, where 'a = nat] by simp
  have s: "unat (?w + 1) = unat ?w + 1" if "unat ?w \<noteq> 65535"
  proof -
    have "?w + 1 = of_nat (unat ?w + 1)" by simp
    then show ?thesis using b that by (simp only: unat_of_nat) simp
  qed
  have z: "?w + 1 = 0 \<longleftrightarrow> unat ?w = 65535"
  proof
    assume "unat ?w = 65535"
    then have "?w = of_nat 65535" by (metis of_nat_unat ucast_id)
    then show "?w + 1 = 0" by simp
  qed (use s in force)
  have t: "?w + 1 + 1 = 1" if "?w + 1 = 0" using that by simp
  show "unat mid = unat ?w mod 65535 + 1"
    using assms z s b t by (cases "unat ?w = 65535") (auto simp: mosquitto_mid_generate_def Let_def)
  show "c_last_mid m' = mid" using assms by (auto simp: mosquitto_mid_generate_def Let_def split: if_splits)
qed

lemma gen_mids_unat:
  "map unat (gen_mids k m) = map (\<lambda>i. (unat (c_last_mid m) + i) mod 65535 + 1) [0..<k]"
proof (induction k arbitrary: m)
  case (Suc k)
  obtain mid m' where g: "mosquitto_mid_generate m = (mid, m')" by fastforce
  note u = mid_generate_unat [OF g]
  have "(unat (c_last_mid m') + i) mod 65535 = (unat (c_last_mid m) + Suc i) mod 65535" for i
    using mod_add_left_eq [of "unat (c_last_mid m)" 65535 "Suc i"] u by simp
  then show ?case using Suc g u(1) by (simp add: upt_conv_Cons map_Suc_upt [symmetric] del: upt_Suc)
qed simp

lemma mod_shift_inj:
  "\<lbrakk>i < n; j < n; (a + i) mod n = (a + j) mod n\<rbrakk> \<Longrightarrow> i = (j :: nat)"
proof (induction i j rule: linorder_wlog)
  case (le i j)
  then have "n dvd (a + j) - (a + i)" using mod_eq_dvd_iff_nat [of "a + i" "a + j" n] by simp
  then show ?case using le by (auto dest: dvd_imp_le)
qed simp

section \<open>Properties\<close>

text \<open>
  C21: \<open>_mosquitto_mid_generate\<close> never returns the invalid message id 0, and any 65535 ids it
  returns one after the other are different, also across the wrap-around of the counter.
\<close>
theorem mid_generate_distinct:
  assumes "k \<le> 65535"
  shows "distinct (gen_mids k m) \<and> 0 \<notin> set (gen_mids k m)"
proof -
  let ?f = "\<lambda>i. (unat (c_last_mid m) + i) mod 65535 + 1"
  have "inj_on ?f {0..<k}"
  proof (rule inj_onI)
    fix i j assume "i \<in> {0..<k}" "j \<in> {0..<k}" "?f i = ?f j"
    then show "i = j" using assms mod_shift_inj [of i 65535 j "unat (c_last_mid m)"] by auto
  qed
  then have "distinct (map unat (gen_mids k m))" by (simp add: gen_mids_unat distinct_map)
  moreover have "unat 0 \<notin> set (map unat (gen_mids k m))" unfolding gen_mids_unat by auto
  ultimately show ?thesis by (auto simp: distinct_map image_iff)
qed

theorem mid_generate_distinct_witness:
  "distinct (gen_mids 3 (demo_client\<lparr>c_last_mid := 65534\<rparr>)) \<and> 0 \<notin> set (gen_mids 3 (demo_client\<lparr>c_last_mid := 65534\<rparr>))"
  by (rule mid_generate_distinct) simp



end
