(* ===== verification/Frame.thy ===== *)
theory Frame
  imports Send
begin

text \<open>
  What sending does not touch. The locale \<open>io_core\<close> is the contract of a component that keeps
  some part \<open>view\<close> of the client to itself: the fields that the packet layer works on are not part
  of it. Under that contract no function that sends a packet changes the view, whatever the
  socket does, if the callbacks that sending can reach (for a message that was sent and for a
  lost connection) do not change it. The locale \<open>io_frame\<close> adds that the view does not
  look at the data of the application; then every application will do that does not
  call back into the library.
\<close>

text \<open>The events that sending can raise.\<close>

fun sending_event :: "cb_event \<Rightarrow> bool" where
  "sending_event (On_publish _) = True"
| "sending_event (On_disconnect _) = True"
| "sending_event _ = False"

definition keeps_app :: "('u mosq \<Rightarrow> 'v) \<Rightarrow> 'u app \<Rightarrow> bool" where
  "keeps_app view app \<longleftrightarrow> (\<forall>ev m m'. sending_event ev \<longrightarrow> app ev m = Some m' \<longrightarrow> view m' = view m)"

locale io_core =
  fixes view :: "'u mosq \<Rightarrow> 'v"
  assumes io [simp]:
    "view (m\<lparr>e_errno := x1\<rparr>) = view m" "view (m\<lparr>e_wr := x2\<rparr>) = view m" "view (m\<lparr>e_tx := x3\<rparr>) = view m"
    "view (m\<lparr>e_allocs := x4\<rparr>) = view m" "view (m\<lparr>c_current_out_packet := x5\<rparr>) = view m"
    "view (m\<lparr>c_out_packet := x6\<rparr>) = view m" "view (m\<lparr>c_current_out_packet_mutex := x7\<rparr>) = view m"
    "view (m\<lparr>c_sock := x8\<rparr>) = view m" "view (m\<lparr>c_last_msg_out := x9\<rparr>) = view m"
    "view (m\<lparr>c_callback_mutex := x10\<rparr>) = view m" "view (m\<lparr>c_in_callback := x11\<rparr>) = view m"
    "view (m\<lparr>c_last_mid := x13\<rparr>) = view m"
    "view (m\<lparr>c_ping_t := x14\<rparr>) = view m" "view (m\<lparr>c_keepalive := x15\<rparr>) = view m"
begin

lemma keep_send_loop: "packet_send_loop m p = Some (r, p', m') \<Longrightarrow> view m' = view m"
proof (induction m p rule: packet_send_loop.induct)
  case (1 m p)
  show ?case
  proof (cases "pk_to_process p > 0")
    case True
    then obtain buf where b: "pk_payload p = Some buf" "\<not> unat (pk_pos p) + unat (pk_to_process p) > length buf"
      using "1.prems" by (subst (asm) packet_send_loop.simps) (auto split: option.splits if_splits)
    let ?data = "take (unat (pk_to_process p)) (drop (unat (pk_pos p)) buf)"
    obtain n m1 where w: "mosquitto_net_write m ?data = (n, m1)" by fastforce
    then have v: "view m1 = view m" by (cases rule: net_write_cases) auto
    show ?thesis
      using "1.IH" [OF True b refl refl, of n m1] "1.prems" True b w v
      by (subst (asm) packet_send_loop.simps) (auto simp: Let_def split: if_splits)
  next
    case False
    then show ?thesis using "1.prems" by (subst (asm) packet_send_loop.simps) auto
  qed
qed

lemma keep_app: "keeps_app view app \<Longrightarrow> sending_event ev \<Longrightarrow> app ev m = Some m' \<Longrightarrow> view m' = view m"
  by (simp add: keeps_app_def)

lemma keep_callback_keep_lock:
  "keeps_app view app \<Longrightarrow> sending_event ev \<Longrightarrow> callback_keep_lock app ev m = Some m' \<Longrightarrow> view m' = view m"
  by (auto simp: callback_keep_lock_def Let_def dest: keep_app split: if_splits bind_splits)

lemma keep_callback:
  "keeps_app view app \<Longrightarrow> sending_event ev \<Longrightarrow> callback app ev m = Some m' \<Longrightarrow> view m' = view m"
  by (auto simp: callback_def dest: keep_callback_keep_lock split: bind_splits)

lemma keep_sending:
  "keeps_app view app \<Longrightarrow> callback app (On_publish i) m = Some m' \<Longrightarrow> view m' = view m"
  "keeps_app view app \<Longrightarrow> callback_keep_lock app (On_disconnect i) m = Some m' \<Longrightarrow> view m' = view m"
  using keep_callback [of app "On_publish i"] keep_callback_keep_lock [of app "On_disconnect i"] by auto

lemma keep_next_out_packet [simp]: "view (next_out_packet m) = view m"
  by (auto simp: next_out_packet_def split: list.splits)

lemma keep_socket_close [simp]: "view (mosquitto_socket_close m) = view m"
  by (auto simp: mosquitto_socket_close_def)

lemma keep_write_loop:
  "packet_write_loop app m = Some res \<Longrightarrow> keeps_app view app \<Longrightarrow> view (snd res) = view m"
proof (induction rule: packet_write_loop.raw_induct [rotated, consumes 1])
  case (1 loop app m res)
  show ?case
  proof (cases "c_current_out_packet m")
    case None
    then show ?thesis using 1 by auto
  next
    case (Some p)
    then obtain r p' m1 where s: "packet_send_loop m p = Some (r, p', m1)"
      using 1(2) by (auto split: bind_splits)
    then have v: "view m1 = view m" by (rule keep_send_loop)
    show ?thesis
      using 1(2) 1(1) [OF _ 1(3), of _ res] 1(3) Some s v
      by (fastforce simp: Let_def dest: keep_sending
          split: option.splits bind_splits if_splits)
  qed
qed

lemma keep_packet_write:
  "keeps_app view app \<Longrightarrow> mosquitto_packet_write app m = Some (rc, m') \<Longrightarrow> view m' = view m"
  by (auto simp: mosquitto_packet_write_def Let_def dest!: keep_write_loop split: if_splits)

lemma keep_packet_queue:
  "keeps_app view app \<Longrightarrow> mosquitto_packet_queue app m p = Some (rc, m') \<Longrightarrow> view m' = view m"
  by (auto simp: mosquitto_packet_queue_def Let_def dest!: keep_packet_write split: if_splits)

lemma keep_alloc [simp]: "mosq_alloc m = (b, m') \<Longrightarrow> view m' = view m"
  by (auto simp: mosq_alloc_def split: prod.splits)

lemma keep_packet_alloc_in: "packet_alloc_in m p = (rc, p', m') \<Longrightarrow> view m' = view m"
  by (auto simp: packet_alloc_in_def split: prod.splits)

lemma keep_mid_generate: "mosquitto_mid_generate m = (mid, m') \<Longrightarrow> view m' = view m"
  by (auto simp: mosquitto_mid_generate_def Let_def split: if_splits)

lemmas keep_dest = keep_packet_queue keep_packet_alloc_in keep_alloc keep_mid_generate

lemma keep_send_command_with_mid:
  "keeps_app view app \<Longrightarrow> mosquitto_send_command_with_mid app m c mid dup = Some (rc, m') \<Longrightarrow> view m' = view m"
  by (auto simp: mosquitto_send_command_with_mid_def Let_def dest!: keep_dest
      split: prod.splits bool.splits if_splits bind_splits)

lemma keep_send_simple_command:
  "keeps_app view app \<Longrightarrow> mosquitto_send_simple_command app m c = Some (rc, m') \<Longrightarrow> view m' = view m"
  by (auto simp: mosquitto_send_simple_command_def Let_def dest!: keep_dest
      split: prod.splits bool.splits if_splits bind_splits)

lemma keep_send_real_publish:
  "keeps_app view app \<Longrightarrow> mosquitto_send_real_publish app m mid topic pl p qos retain dup = Some (rc, m') \<Longrightarrow> view m' = view m"
  by (auto simp: mosquitto_send_real_publish_def Let_def dest!: keep_dest
      split: prod.splits bool.splits if_splits bind_splits option.splits)

lemma keep_send_publish:
  "keeps_app view app \<Longrightarrow> mosquitto_send_publish app m mid topic pl p qos retain dup = Some (rc, m') \<Longrightarrow> view m' = view m"
  by (auto simp: mosquitto_send_publish_def dest: keep_send_real_publish split: if_splits option.splits)

lemma keep_send_connect:
  "keeps_app view app \<Longrightarrow> mosquitto_send_connect app m ka clean = Some (rc, m') \<Longrightarrow> view m' = view m"
  by (auto simp: mosquitto_send_connect_def Let_def dest!: keep_dest
      split: prod.splits bool.splits if_splits bind_splits option.splits)

lemma keep_send_subscribe:
  "keeps_app view app \<Longrightarrow> mosquitto_send_subscribe app m dup topic qos = Some (rc, mid, m') \<Longrightarrow> view m' = view m"
  by (auto simp: mosquitto_send_subscribe_def Let_def dest!: keep_dest
      split: prod.splits bool.splits if_splits bind_splits option.splits)

lemma keep_send_unsubscribe:
  "keeps_app view app \<Longrightarrow> mosquitto_send_unsubscribe app m dup topic = Some (rc, mid, m') \<Longrightarrow> view m' = view m"
  by (auto simp: mosquitto_send_unsubscribe_def Let_def dest!: keep_dest
      split: prod.splits bool.splits if_splits bind_splits option.splits)

end

locale io_frame = io_core view for view :: "'u mosq \<Rightarrow> 'v" +
  assumes data [simp]: "view (m\<lparr>c_userdata := x\<rparr>) = view m"
begin

lemma quiet_keeps: "quiet_app app \<Longrightarrow> keeps_app view app"
  unfolding quiet_app_def keeps_app_def by (metis io(4) data)

lemma view_callback: "quiet_app app \<Longrightarrow> callback app ev m = Some m' \<Longrightarrow> view m' = view m"
proof -
  assume q: "quiet_app app" and c: "callback app ev m = Some m'"
  have "view n' = view n" if "app ev n = Some n'" for n n' using q that unfolding quiet_app_def by (metis io(4) data)
  then show ?thesis using c
    by (auto simp: callback_def callback_keep_lock_def Let_def split: if_splits bind_splits)
qed

lemmas view_packet_write = keep_packet_write [OF quiet_keeps]
lemmas view_packet_queue = keep_packet_queue [OF quiet_keeps]
lemmas view_alloc = keep_alloc
lemmas view_mid_generate = keep_mid_generate
lemmas view_send_command_with_mid = keep_send_command_with_mid [OF quiet_keeps]
lemmas view_send_simple_command = keep_send_simple_command [OF quiet_keeps]
lemmas view_send_publish = keep_send_publish [OF quiet_keeps]
lemmas view_send_connect = keep_send_connect [OF quiet_keeps]
lemmas view_send_subscribe = keep_send_subscribe [OF quiet_keeps]
lemmas view_send_unsubscribe = keep_send_unsubscribe [OF quiet_keeps]

end

end
