(* ===== verification/Messages.thy ===== *)
theory Messages
  imports Frame
begin

text \<open>
  The messages a client keeps until their handshake is over, \<open>mosquitto/lib/messages_mosq.c\<close>,
  and the will, \<open>mosquitto/lib/will_mosq.c\<close>. Messages of QoS 1 and 2 that are being sent are in
  \<open>out_messages\<close>, messages of QoS 2 that wait for their PUBREL are in \<open>in_messages\<close>. Freeing a
  message (\<open>_mosquitto_message_cleanup\<close>) leaves no trace in the model.
\<close>

section \<open>Model\<close>

text \<open>
  The copy of a message: return code, the destination and what is left of the allocator's
  outcomes. \<open>strdup\<close> of NULL and reading past the payload are undefined.
\<close>

definition mosquitto_message_copy :: "message \<Rightarrow> message \<Rightarrow> bool list \<Rightarrow> (int \<times> message \<times> bool list) option" where
  "mosquitto_message_copy dst src al =
     (let dst = dst\<lparr>m_mid := m_mid src\<rparr> in
      case m_topic src of
        None \<Rightarrow> None
      | Some topic \<Rightarrow>
          (case malloc_ok al of
             (False, al) \<Rightarrow> Some (MOSQ_ERR_NOMEM, dst\<lparr>m_topic := None\<rparr>, al)
           | (True, al) \<Rightarrow>
               (let dst = dst\<lparr>m_topic := Some topic, m_qos := m_qos src, m_retain := m_retain src\<rparr> in
                if m_payloadlen src \<noteq> 0 then
                  (case malloc_ok al of
                     (False, al) \<Rightarrow> Some (MOSQ_ERR_NOMEM, dst\<lparr>m_payload := None\<rparr>, al)
                   | (True, al) \<Rightarrow>
                       (case m_payload src of
                          None \<Rightarrow> None
                        | Some bs \<Rightarrow>
                            if m_payloadlen src < 0 \<or> nat (m_payloadlen src) > length bs then None
                            else Some (MOSQ_ERR_SUCCESS,
                              dst\<lparr>m_payload := Some (take (nat (m_payloadlen src)) bs),
                                m_payloadlen := m_payloadlen src\<rparr>, al)))
                else Some (MOSQ_ERR_SUCCESS, dst\<lparr>m_payloadlen := 0, m_payload := None\<rparr>, al))))"

definition mosquitto_message_cleanup_all :: "'u mosq \<Rightarrow> 'u mosq" where
  "mosquitto_message_cleanup_all m = m\<lparr>c_in_messages := [], c_out_messages := []\<rparr>"

definition inflight_ok :: "'u mosq \<Rightarrow> bool" where
  "inflight_ok m \<longleftrightarrow> c_max_inflight_messages m = 0 \<or> c_inflight_messages m < c_max_inflight_messages m"

text \<open>
  Append a message to the list \<open>own\<close> with the last pointer \<open>l\<close>. The pointer decides: the message is linked behind the element
  it points to, and what was linked there is cut off; with NULL the message becomes the whole list. A pointer into the other list,
  \<open>oth\<close> with the last pointer \<open>lo\<close>, links the message there; behind an element that is in neither list the message is lost, too.
\<close>

definition kept_ptr :: "nat \<Rightarrow> nat \<Rightarrow> msg_end \<Rightarrow> msg_end" where
  "kept_ptr n k l =
     (case l of E_list \<Rightarrow> if n \<le> k then E_at (n - 1) else E_lost | E_at i \<Rightarrow> if i < k then E_at i else E_lost | _ \<Rightarrow> l)"

definition kept_other :: "nat \<Rightarrow> msg_end \<Rightarrow> msg_end" where
  "kept_other k l = (case l of E_other j \<Rightarrow> if j < k then E_other j else E_lost | _ \<Rightarrow> l)"

definition append_last :: "msg_end \<Rightarrow> message_all list \<Rightarrow> msg_end \<Rightarrow> message_all list \<Rightarrow> message_all
    \<Rightarrow> (message_all list \<times> msg_end \<times> message_all list \<times> msg_end) option" where
  "append_last l own lo oth message =
     (case l of
        E_null \<Rightarrow> Some ([message], E_list, oth, kept_other 0 lo)
      | E_list \<Rightarrow> Some (own @ [message], E_list, oth, lo)
      | E_at i \<Rightarrow> Some (take (i + 1) own @ [message], E_list, oth, kept_other (i + 1) lo)
      | E_other j \<Rightarrow> Some (own, E_other (j + 1), take (j + 1) oth @ [message], kept_ptr (length oth) (j + 1) lo)
      | E_lost \<Rightarrow> Some (own, E_lost, oth, lo)
      | E_freed \<Rightarrow> None)"

definition mosquitto_message_queue :: "'u mosq \<Rightarrow> message_all \<Rightarrow> msg_direction \<Rightarrow> 'u mosq option" where
  "mosquitto_message_queue m message dir =
     (case dir of
        mosq_md_out \<Rightarrow>
          do {
            let m = m\<lparr>c_out_queue_len := c_out_queue_len m + 1\<rparr>;
            (outs, ol, ins, il) \<leftarrow> append_last (c_out_messages_last m) (c_out_messages m) (c_in_messages_last m) (c_in_messages m) message;
            Some (m\<lparr>c_out_messages := outs, c_out_messages_last := ol, c_in_messages := ins, c_in_messages_last := il\<rparr>)
          }
      | mosq_md_in \<Rightarrow>
          do {
            let m = m\<lparr>c_in_queue_len := c_in_queue_len m + 1\<rparr>;
            let m = (if m_qos (ma_msg message) > 0 \<and> inflight_ok m
                     then m\<lparr>c_inflight_messages := c_inflight_messages m + 1\<rparr> else m);
            (ins, il, outs, ol) \<leftarrow> append_last (c_in_messages_last m) (c_in_messages m) (c_out_messages_last m) (c_out_messages m) message;
            Some (m\<lparr>c_in_messages := ins, c_in_messages_last := il, c_out_messages := outs, c_out_messages_last := ol\<rparr>)
          })"

text \<open>
  The first loop of the reset, with the messages kept so far and the count. Removing the first
  message continues behind the new first one without looking at it, and dereferences NULL when
  there is none.
\<close>

fun in_reset_loop :: "message_all list \<Rightarrow> message_all list \<Rightarrow> int \<Rightarrow> (message_all list \<times> int) option" where
  "in_reset_loop kept [] n = Some (kept, n)"
| "in_reset_loop kept (x # xs) n =
     (let x = x\<lparr>ma_timestamp := 0\<rparr> in
      if m_qos (ma_msg x) \<noteq> 2 then
        if kept \<noteq> [] then in_reset_loop kept xs (n + 1)
        else (case xs of [] \<Rightarrow> None | y # ys \<Rightarrow> in_reset_loop [y] ys (n + 1))
      else in_reset_loop (kept @ [x]) xs (n + 1))"

fun out_reset_loop :: "int \<Rightarrow> int \<Rightarrow> message_all list \<Rightarrow> message_all list \<times> int" where
  "out_reset_loop mx inflight [] = ([], inflight)"
| "out_reset_loop mx inflight (x # xs) =
     (let x = x\<lparr>ma_timestamp := 0\<rparr>;
          inflight = (if m_qos (ma_msg x) > 0 then inflight + 1 else inflight);
          x = (if mx = 0 \<or> inflight < mx
               then (if m_qos (ma_msg x) = 1 then x\<lparr>ma_state := mosq_ms_wait_for_puback\<rparr> else x)
               else x\<lparr>ma_state := mosq_ms_invalid\<rparr>);
          (ys, inflight) = out_reset_loop mx inflight xs
      in (x # ys, inflight))"

definition mosquitto_messages_reconnect_reset :: "'u mosq \<Rightarrow> 'u mosq option" where
  "mosquitto_messages_reconnect_reset m =
     (if c_in_message_mutex m then None
      else
        do {
          (ins, n) \<leftarrow> in_reset_loop [] (c_in_messages m) 0;
          let m = m\<lparr>c_in_messages := ins, c_in_queue_len := n,
                     c_in_messages_last := (if ins = [] then E_null else E_list)\<rparr>;
          if c_out_message_mutex m then None
          else
            (let (outs, inflight) = out_reset_loop (c_max_inflight_messages m) 0 (c_out_messages m)
             in Some (m\<lparr>c_out_messages := outs, c_out_queue_len := int (length outs),
                        c_inflight_messages := inflight,
                        c_out_messages_last :=
                          (if outs \<noteq> [] then E_list else if ins \<noteq> [] then E_other (length ins - 1) else E_null)\<rparr>))
        })"

text \<open>Search a list for a message id: the messages before it, the message, those behind it.\<close>

fun split_mid :: "int \<Rightarrow> message_all list \<Rightarrow> (message_all list \<times> message_all \<times> message_all list) option" where
  "split_mid mid [] = None"
| "split_mid mid (x # xs) =
     (if m_mid (ma_msg x) = mid then Some ([], x, xs)
      else do { (as, y, bs) \<leftarrow> split_mid mid xs; Some (x # as, y, bs) })"

text \<open>
  The last pointers after the message between \<open>as\<close> and \<open>bs\<close> has been taken out and will be freed: the one of its list, which the
  code looks after only at the end of the list, and the one of the other list, which the code does not look after.
\<close>

definition last_after_remove :: "msg_end \<Rightarrow> message_all list \<Rightarrow> message_all list \<Rightarrow> msg_end" where
  "last_after_remove l as bs =
     (if bs = [] then (if as = [] then E_null else E_list)
      else case l of
          E_at i \<Rightarrow> if i = length as then E_freed else if i > length as then E_at (i - 1) else E_at i
        | _ \<Rightarrow> l)"

definition other_after_remove :: "msg_end \<Rightarrow> message_all list \<Rightarrow> msg_end" where
  "other_after_remove l as =
     (case l of
        E_other j \<Rightarrow> if j = length as then E_freed else if j > length as then E_other (j - 1) else E_other j
      | _ \<Rightarrow> l)"

text \<open>
  After a message has been removed, messages that wait for a place in flight are sent; \<open>k\<close>
  messages from position \<open>i\<close> on are left to look at.
\<close>

fun resend_loop :: "'u app \<Rightarrow> nat \<Rightarrow> nat \<Rightarrow> 'u mosq \<Rightarrow> 'u res" where
  "resend_loop app i 0 m = Some (MOSQ_ERR_SUCCESS, m\<lparr>c_out_message_mutex := False\<rparr>)"
| "resend_loop app i (Suc k) m =
     (if i \<ge> length (c_out_messages m) then None
      else if inflight_ok m then
        (let cur = c_out_messages m ! i; msg = ma_msg cur in
         if m_qos msg > 0 \<and> ma_state cur = mosq_ms_invalid then
           do {
             let cur = (if m_qos msg = 1 then cur\<lparr>ma_state := mosq_ms_wait_for_puback\<rparr>
                        else if m_qos msg = 2 then cur\<lparr>ma_state := mosq_ms_wait_for_pubrec\<rparr> else cur);
             let m = m\<lparr>c_inflight_messages := c_inflight_messages m + 1,
                        c_out_messages := (c_out_messages m)[i := cur]\<rparr>;
             (rc, m) \<leftarrow> mosquitto_send_publish app m (of_int (m_mid msg)) (m_topic msg)
               (of_int (m_payloadlen msg)) (m_payload msg) (m_qos msg) (m_retain msg) (ma_dup cur);
             if rc \<noteq> 0 then Some (rc, m\<lparr>c_out_message_mutex := False\<rparr>)
             else resend_loop app (i + 1) k m
           }
         else resend_loop app (i + 1) k m)
      else Some (MOSQ_ERR_SUCCESS, m\<lparr>c_out_message_mutex := False\<rparr>))"

definition mosquitto_message_remove ::
    "'u app \<Rightarrow> 'u mosq \<Rightarrow> u16 \<Rightarrow> msg_direction \<Rightarrow> (int \<times> message_all option \<times> 'u mosq) option" where
  "mosquitto_message_remove app m mid dir =
     (case dir of
        mosq_md_out \<Rightarrow>
          if c_out_message_mutex m then None
          else
            (case split_mid (uint mid) (c_out_messages m) of
               None \<Rightarrow> Some (MOSQ_ERR_NOT_FOUND, None, m)
             | Some (as, cur, bs) \<Rightarrow>
                 do {
                   let m = m\<lparr>c_out_message_mutex := True, c_out_messages := as @ bs,
                     c_out_queue_len := c_out_queue_len m - 1,
                     c_out_messages_last := last_after_remove (c_out_messages_last m) as bs,
                     c_in_messages_last := other_after_remove (c_in_messages_last m) as\<rparr>;
                   let m = (if m_qos (ma_msg cur) > 0
                            then m\<lparr>c_inflight_messages := c_inflight_messages m - 1\<rparr> else m);
                   (rc, m) \<leftarrow> resend_loop app 0 (length (c_out_messages m)) m;
                   Some (rc, Some cur, m)
                 })
      | mosq_md_in \<Rightarrow>
          if c_in_message_mutex m then None
          else
            (case split_mid (uint mid) (c_in_messages m) of
               None \<Rightarrow> Some (MOSQ_ERR_NOT_FOUND, None, m)
             | Some (as, cur, bs) \<Rightarrow>
                 (let m = m\<lparr>c_in_messages := as @ bs, c_in_queue_len := c_in_queue_len m - 1,
                        c_in_messages_last := last_after_remove (c_in_messages_last m) as bs,
                        c_out_messages_last := other_after_remove (c_out_messages_last m) as\<rparr>;
                      m = (if m_qos (ma_msg cur) = 2
                           then m\<lparr>c_inflight_messages := c_inflight_messages m - 1\<rparr> else m)
                  in Some (MOSQ_ERR_SUCCESS, Some cur, m))))"

definition mosquitto_message_delete :: "'u app \<Rightarrow> 'u mosq \<Rightarrow> u16 \<Rightarrow> msg_direction \<Rightarrow> 'u res" where
  "mosquitto_message_delete app m mid dir =
     do { (rc, message, m) \<leftarrow> mosquitto_message_remove app m mid dir; Some (rc, m) }"

definition get_messages :: "msg_direction \<Rightarrow> 'u mosq \<Rightarrow> message_all list" where
  "get_messages dir m = (case dir of mosq_md_in \<Rightarrow> c_in_messages m | mosq_md_out \<Rightarrow> c_out_messages m)"

definition put_message :: "msg_direction \<Rightarrow> nat \<Rightarrow> message_all \<Rightarrow> 'u mosq \<Rightarrow> 'u mosq" where
  "put_message dir i x m =
     (case dir of
        mosq_md_in \<Rightarrow> m\<lparr>c_in_messages := (c_in_messages m)[i := x]\<rparr>
      | mosq_md_out \<Rightarrow> m\<lparr>c_out_messages := (c_out_messages m)[i := x]\<rparr>)"

text \<open>
  The retry loop. It locks a copy of the mutex (the parameter is passed by value), so that the
  lists are not protected against the callbacks of the sends, and waits for ever when the mutex
  is held at the moment of the call.
\<close>

partial_function (option) retry_loop :: "'u app \<Rightarrow> msg_direction \<Rightarrow> nat \<Rightarrow> 'u mosq \<Rightarrow> 'u mosq option" where
  "retry_loop app dir i m =
     (if i < length (get_messages dir m) then
        do {
          let x = get_messages dir m ! i;
          let msg = ma_msg x;
          let y = x\<lparr>ma_timestamp := e_now m, ma_dup := True\<rparr>;
          m \<leftarrow> (if ma_timestamp x + c_message_retry m < e_now m then
                  if ma_state x = mosq_ms_wait_for_puback \<or> ma_state x = mosq_ms_wait_for_pubrec then
                    do { (rc, m) \<leftarrow> mosquitto_send_publish app (put_message dir i y m) (of_int (m_mid msg))
                           (m_topic msg) (of_int (m_payloadlen msg)) (m_payload msg) (m_qos msg) (m_retain msg) True;
                         Some m }
                  else if ma_state x = mosq_ms_wait_for_pubrel then
                    do { (rc, m) \<leftarrow> mosquitto_send_pubrec app (put_message dir i y m) (of_int (m_mid msg)); Some m }
                  else if ma_state x = mosq_ms_wait_for_pubcomp then
                    do { (rc, m) \<leftarrow> mosquitto_send_pubrel app (put_message dir i y m) (of_int (m_mid msg)) True; Some m }
                  else Some m
                else Some m);
          retry_loop app dir (i + 1) m
        }
      else Some m)"

declare retry_loop.simps [code]

definition mosquitto_message_retry_check_actual :: "'u app \<Rightarrow> 'u mosq \<Rightarrow> msg_direction \<Rightarrow> bool \<Rightarrow> 'u mosq option" where
  "mosquitto_message_retry_check_actual app m dir mutex =
     (if mutex then None else retry_loop app dir 0 m)"

definition mosquitto_message_retry_check :: "'u app \<Rightarrow> 'u mosq \<Rightarrow> 'u mosq option" where
  "mosquitto_message_retry_check app m =
     do {
       m \<leftarrow> mosquitto_message_retry_check_actual app m mosq_md_out (c_out_message_mutex m);
       mosquitto_message_retry_check_actual app m mosq_md_in (c_in_message_mutex m)
     }"

definition mosquitto_message_retry_set :: "'u mosq \<Rightarrow> u32 \<Rightarrow> 'u mosq" where
  "mosquitto_message_retry_set m message_retry = m\<lparr>c_message_retry := uint message_retry\<rparr>"

definition mosquitto_message_out_update :: "'u mosq \<Rightarrow> u16 \<Rightarrow> msg_state \<Rightarrow> 'u res" where
  "mosquitto_message_out_update m mid state =
     (if c_out_message_mutex m then None
      else
        Some (case split_mid (uint mid) (c_out_messages m) of
            None \<Rightarrow> (MOSQ_ERR_NOT_FOUND, m)
          | Some (as, x, bs) \<Rightarrow>
              (MOSQ_ERR_SUCCESS,
               m\<lparr>c_out_messages := as @ x\<lparr>ma_state := state, ma_timestamp := e_now m\<rparr> # bs\<rparr>)))"

definition mosquitto_max_inflight_messages_set :: "'u mosq option \<Rightarrow> u32 \<Rightarrow> int \<times> 'u mosq option" where
  "mosquitto_max_inflight_messages_set mosq max_inflight_messages =
     (case mosq of
        None \<Rightarrow> (MOSQ_ERR_INVAL, None)
      | Some m \<Rightarrow> (MOSQ_ERR_SUCCESS, Some (m\<lparr>c_max_inflight_messages := sint max_inflight_messages\<rparr>)))"

section \<open>The will\<close>

definition mosquitto_will_clear_int :: "'u mosq \<Rightarrow> int \<times> 'u mosq" where
  "mosquitto_will_clear_int m =
     (case c_will m of None \<Rightarrow> (MOSQ_ERR_SUCCESS, m) | Some _ \<Rightarrow> (MOSQ_ERR_SUCCESS, m\<lparr>c_will := None\<rparr>))"

definition mosquitto_will_set_int ::
    "'u mosq \<Rightarrow> string option \<Rightarrow> int \<Rightarrow> u8 list option \<Rightarrow> int \<Rightarrow> bool \<Rightarrow> 'u res" where
  "mosquitto_will_set_int m topic payloadlen payload qos retain =
     (if topic = None then Some (MOSQ_ERR_INVAL, m)
      else if payloadlen < 0 \<or> payloadlen > MQTT_MAX_PAYLOAD then Some (MOSQ_ERR_PAYLOAD_SIZE, m)
      else if payloadlen > 0 \<and> payload = None then Some (MOSQ_ERR_INVAL, m)
      else if mosquitto_topic_wildcard_pos_check topic \<noteq> 0 then Some (MOSQ_ERR_INVAL, m)
      else
        (let m = m\<lparr>c_will := None\<rparr> in
         case mosq_alloc m of
           (False, m) \<Rightarrow> Some (MOSQ_ERR_NOMEM, m)
         | (True, m) \<Rightarrow>
             (case mosq_alloc m of
                (False, m) \<Rightarrow> Some (MOSQ_ERR_NOMEM, m)
              | (True, m) \<Rightarrow>
                  (let w = message_calloc\<lparr>m_topic := topic, m_payloadlen := payloadlen\<rparr> in
                   if payloadlen > 0 then
                     (case payload of
                        None \<Rightarrow> Some (MOSQ_ERR_INVAL, m)
                      | Some bs \<Rightarrow>
                          (case mosq_alloc m of
                             (False, m) \<Rightarrow> Some (MOSQ_ERR_NOMEM, m)
                           | (True, m) \<Rightarrow>
                               if nat payloadlen > length bs then None
                               else Some (MOSQ_ERR_SUCCESS, m\<lparr>c_will := Some (w\<lparr>
                                 m_payload := Some (take (nat payloadlen) bs), m_qos := qos, m_retain := retain\<rparr>)\<rparr>)))
                   else Some (MOSQ_ERR_SUCCESS, m\<lparr>c_will := Some (w\<lparr>m_qos := qos, m_retain := retain\<rparr>)\<rparr>)))))"

section \<open>The invariant of the message lists\<close>

text \<open>
  The counters are the lengths of the lists, a last pointer is NULL exactly when its list is
  empty, only messages of QoS 2 wait for a PUBREL, and the mutexes of the lists are free.
\<close>

definition end_of :: "message_all list \<Rightarrow> msg_end" where
  "end_of ms = (if ms = [] then E_null else E_list)"

definition msgs_ok :: "'u mosq \<Rightarrow> bool" where
  "msgs_ok m \<longleftrightarrow> c_out_queue_len m = int (length (c_out_messages m)) \<and>
     c_in_queue_len m = int (length (c_in_messages m)) \<and>
     c_out_messages_last m = end_of (c_out_messages m) \<and>
     c_in_messages_last m = end_of (c_in_messages m) \<and>
     list_all (\<lambda>x. m_qos (ma_msg x) = 2) (c_in_messages m) \<and>
     \<not> c_in_message_mutex m \<and> \<not> c_out_message_mutex m"

text \<open>The part of the client that the message functions own.\<close>

definition msg_view :: "'u mosq \<Rightarrow>
    (message_all list \<times> msg_end \<times> int) \<times> (message_all list \<times> msg_end \<times> int) \<times> int \<times> int \<times> bool \<times> bool" where
  "msg_view m = ((c_in_messages m, c_in_messages_last m, c_in_queue_len m),
     (c_out_messages m, c_out_messages_last m, c_out_queue_len m),
     c_inflight_messages m, c_max_inflight_messages m, c_in_message_mutex m, c_out_message_mutex m)"

interpretation mv: io_frame msg_view
  by unfold_locales (simp_all add: msg_view_def)

lemma msg_view_eqD:
  assumes "msg_view m' = msg_view m"
  shows "c_in_messages m' = c_in_messages m" "c_in_messages_last m' = c_in_messages_last m"
    "c_in_queue_len m' = c_in_queue_len m" "c_out_messages m' = c_out_messages m"
    "c_out_messages_last m' = c_out_messages_last m" "c_out_queue_len m' = c_out_queue_len m"
    "c_inflight_messages m' = c_inflight_messages m" "c_max_inflight_messages m' = c_max_inflight_messages m"
    "c_in_message_mutex m' = c_in_message_mutex m" "c_out_message_mutex m' = c_out_message_mutex m"
  using assms by (simp_all add: msg_view_def)

lemma msgs_ok_view: "msg_view m' = msg_view m \<Longrightarrow> msgs_ok m' \<longleftrightarrow> msgs_ok m"
  by (simp add: msg_view_def msgs_ok_def)

lemma kept_end_of [simp]: "kept_other k (end_of ms) = end_of ms" "other_after_remove (end_of ms) as = end_of ms"
  by (simp_all add: kept_other_def other_after_remove_def end_of_def)

lemma append_last_end_of [simp]: "append_last (end_of ms) ms (end_of ns) ns x = Some (ms @ [x], E_list, ns, end_of ns)"
  by (simp add: append_last_def end_of_def kept_other_def)

lemma end_of_snoc [simp]: "end_of (ms @ [x]) = E_list"
  by (simp add: end_of_def)

lemma message_queue_ok:
  assumes "msgs_ok m" "dir = mosq_md_in \<Longrightarrow> m_qos (ma_msg x) = 2"
  shows "\<exists>m'. mosquitto_message_queue m x dir = Some m' \<and> msgs_ok m'
    \<and> (case dir of mosq_md_in \<Rightarrow> c_in_messages m' = c_in_messages m @ [x] \<and> c_out_messages m' = c_out_messages m
       | mosq_md_out \<Rightarrow> c_out_messages m' = c_out_messages m @ [x] \<and> c_in_messages m' = c_in_messages m)"
  using assms by (cases dir) (auto simp: msgs_ok_def mosquitto_message_queue_def Let_def)

lemma split_mid_SomeD:
  "split_mid mid ms = Some (as, x, bs) \<Longrightarrow>
     ms = as @ x # bs \<and> m_mid (ma_msg x) = mid \<and> (\<forall>y \<in> set as. m_mid (ma_msg y) \<noteq> mid)"
  by (induction ms arbitrary: as) (fastforce split: bind_splits if_splits)+

lemma split_mid_append:
  "\<lbrakk>m_mid (ma_msg x) = mid; \<forall>y \<in> set as. m_mid (ma_msg y) \<noteq> mid\<rbrakk> \<Longrightarrow>
     split_mid mid (as @ x # bs) = Some (as, x, bs)"
  by (induction as) auto

lemma split_mid_None: "split_mid mid ms = None \<longleftrightarrow> (\<forall>y \<in> set ms. m_mid (ma_msg y) \<noteq> mid)"
  by (induction ms) (auto split: bind_splits)

lemma last_after_remove_end_of: "last_after_remove (end_of (as @ x # bs)) as bs = end_of (as @ bs)"
  by (auto simp: last_after_remove_def end_of_def)

text \<open>Resending changes the state of messages, not the messages nor the other lists.\<close>

definition resend_keeps :: "'u mosq \<Rightarrow> 'u mosq \<Rightarrow> bool" where
  "resend_keeps m m' \<longleftrightarrow> map ma_msg (c_out_messages m') = map ma_msg (c_out_messages m) \<and>
     c_out_messages_last m' = c_out_messages_last m \<and> c_out_queue_len m' = c_out_queue_len m \<and>
     c_in_messages m' = c_in_messages m \<and> c_in_messages_last m' = c_in_messages_last m \<and>
     c_in_queue_len m' = c_in_queue_len m \<and> c_in_message_mutex m' = c_in_message_mutex m"

lemma resend_step:
  fixes m :: "'u mosq"
  assumes "i < length (c_out_messages m)" "inflight_ok m"
    and "m_qos (ma_msg (c_out_messages m ! i)) > 0" "ma_state (c_out_messages m ! i) = mosq_ms_invalid"
  obtains m1 :: "'u mosq" and dup where "resend_keeps m m1"
    "resend_loop app i (Suc k) m =
       (let msg = ma_msg (c_out_messages m ! i) in
        do { (rc, m) \<leftarrow> mosquitto_send_publish app m1 (of_int (m_mid msg)) (m_topic msg)
               (of_int (m_payloadlen msg)) (m_payload msg) (m_qos msg) (m_retain msg) dup;
             if rc \<noteq> 0 then Some (rc, m\<lparr>c_out_message_mutex := False\<rparr>) else resend_loop app (i + 1) k m })"
proof
  let ?x = "c_out_messages m ! i"
  let ?cur = "(if m_qos (ma_msg ?x) = 1 then ?x\<lparr>ma_state := mosq_ms_wait_for_puback\<rparr>
        else if m_qos (ma_msg ?x) = 2 then ?x\<lparr>ma_state := mosq_ms_wait_for_pubrec\<rparr> else ?x)"
  let ?m1 = "m\<lparr>c_inflight_messages := c_inflight_messages m + 1, c_out_messages := (c_out_messages m)[i := ?cur]\<rparr>"
  have "map ma_msg ((c_out_messages m)[i := ?cur]) = map ma_msg (c_out_messages m)"
    using assms(1) by (auto simp: map_update intro!: nth_equalityI simp: nth_list_update)
  then show "resend_keeps m ?m1" by (simp add: resend_keeps_def)
  show "resend_loop app i (Suc k) m =
       (let msg = ma_msg ?x in
        do { (rc, m) \<leftarrow> mosquitto_send_publish app ?m1 (of_int (m_mid msg)) (m_topic msg)
               (of_int (m_payloadlen msg)) (m_payload msg) (m_qos msg) (m_retain msg) (ma_dup ?cur);
             if rc \<noteq> 0 then Some (rc, m\<lparr>c_out_message_mutex := False\<rparr>) else resend_loop app (i + 1) k m })"
    using assms by (simp add: Let_def)
qed

lemma resend_keeps_trans: "resend_keeps a b \<Longrightarrow> resend_keeps b c \<Longrightarrow> resend_keeps a c"
  by (simp add: resend_keeps_def)

lemma resend_keeps_view: "msg_view b = msg_view a \<Longrightarrow> resend_keeps a b"
  by (simp add: msg_view_def resend_keeps_def)

lemma resend_loop_keeps:
  "\<lbrakk>quiet_app app; resend_loop app i k m = Some (rc, m')\<rbrakk> \<Longrightarrow>
     resend_keeps m m' \<and> \<not> c_out_message_mutex m'"
proof (induction k arbitrary: i m rc m')
  case (Suc k)
  let ?x = "c_out_messages m ! i"
  have i: "i < length (c_out_messages m)" using Suc.prems(2) by (auto split: if_splits)
  show ?case
  proof (cases "inflight_ok m \<and> m_qos (ma_msg ?x) > 0 \<and> ma_state ?x = mosq_ms_invalid")
    case False
    then show ?thesis
      using Suc.prems Suc.IH [OF Suc.prems(1), of "i + 1" m rc m'] i
      by (auto simp: Let_def resend_keeps_def split: if_splits)
  next
    case True
    with i obtain m1 dup where k1: "resend_keeps m m1" and r: "resend_loop app i (Suc k) m =
       (let msg = ma_msg ?x in
        do { (rc, m) \<leftarrow> mosquitto_send_publish app m1 (of_int (m_mid msg)) (m_topic msg)
               (of_int (m_payloadlen msg)) (m_payload msg) (m_qos msg) (m_retain msg) dup;
             if rc \<noteq> 0 then Some (rc, m\<lparr>c_out_message_mutex := False\<rparr>) else resend_loop app (i + 1) k m })"
      using resend_step [of i m app k] by blast
    then obtain rc2 m2 where s: "mosquitto_send_publish app m1 (of_int (m_mid (ma_msg ?x))) (m_topic (ma_msg ?x))
        (of_int (m_payloadlen (ma_msg ?x))) (m_payload (ma_msg ?x)) (m_qos (ma_msg ?x)) (m_retain (ma_msg ?x)) dup
        = Some (rc2, m2)"
      using Suc.prems(2) by (auto simp: Let_def split: bind_splits)
    have "resend_keeps m1 m2" by (rule resend_keeps_view [OF mv.view_send_publish [OF Suc.prems(1) s]])
    then have k2: "resend_keeps m m2" by (rule resend_keeps_trans [OF k1])
    show ?thesis
    proof (cases "rc2 = 0")
      case False
      then show ?thesis using Suc.prems(2) k2 unfolding r by (auto simp: s Let_def resend_keeps_def)
    next
      case True
      then have "resend_loop app (i + 1) k m2 = Some (rc, m')" using Suc.prems(2) unfolding r by (simp add: s Let_def)
      then show ?thesis using Suc.IH [OF Suc.prems(1)] resend_keeps_trans [OF k2] by blast
    qed
  qed
qed (auto simp: resend_keeps_def)

lemma resend_keeps_ok:
  assumes "resend_keeps m m'" "\<not> c_out_message_mutex m'" "msgs_ok (m\<lparr>c_out_message_mutex := False\<rparr>)"
  shows "msgs_ok m'"
proof -
  have "length (c_out_messages m') = length (c_out_messages m)"
    using assms(1) by (metis length_map resend_keeps_def)
  then have "end_of (c_out_messages m') = end_of (c_out_messages m)" "length (c_out_messages m') = length (c_out_messages m)"
    by (auto simp: end_of_def)
  then show ?thesis using assms by (simp add: resend_keeps_def msgs_ok_def)
qed

lemma message_remove_ok:
  assumes "quiet_app app" "msgs_ok m" "mosquitto_message_remove app m mid dir = Some (rc, x, m')"
  shows "msgs_ok m'"
proof (cases dir)
  case mosq_md_in
  then show ?thesis using assms(2,3)
    by (auto simp: mosquitto_message_remove_def msgs_ok_def Let_def last_after_remove_end_of
        dest!: split_mid_SomeD split: if_splits option.splits)
next
  case mosq_md_out
  show ?thesis
  proof (cases "split_mid (uint mid) (c_out_messages m)")
    case None
    then show ?thesis using assms(2,3) mosq_md_out
      by (auto simp: mosquitto_message_remove_def split: if_splits)
  next
    case (Some t)
    obtain as cur bs where t: "t = (as, cur, bs)" by (cases t) auto
    have o: "c_out_messages m = as @ cur # bs" using split_mid_SomeD Some t by blast
    define m1 where "m1 = (let m1 = m\<lparr>c_out_message_mutex := True, c_out_messages := as @ bs,
        c_out_queue_len := c_out_queue_len m - 1,
        c_out_messages_last := last_after_remove (c_out_messages_last m) as bs,
        c_in_messages_last := other_after_remove (c_in_messages_last m) as\<rparr>
      in if m_qos (ma_msg cur) > 0 then m1\<lparr>c_inflight_messages := c_inflight_messages m1 - 1\<rparr> else m1)"
    have r: "\<exists>rc'. resend_loop app 0 (length (c_out_messages m1)) m1 = Some (rc', m')"
      using assms(3) mosq_md_out Some t
      by (auto simp: mosquitto_message_remove_def m1_def Let_def split: if_splits bind_splits)
    have "msgs_ok (m1\<lparr>c_out_message_mutex := False\<rparr>)"
      using assms(2) o by (auto simp: m1_def Let_def msgs_ok_def last_after_remove_end_of)
    then show ?thesis using r resend_loop_keeps [OF assms(1)] resend_keeps_ok by blast
  qed
qed

lemma out_update_ok:
  assumes "msgs_ok m" "mosquitto_message_out_update m mid st = Some (rc, m')"
  shows "msgs_ok m'"
  using assms by (auto simp: mosquitto_message_out_update_def msgs_ok_def end_of_def
      dest!: split_mid_SomeD split: if_splits option.splits)

section \<open>Reconnecting\<close>

lemma in_reset_loop_qos2:
  "list_all (\<lambda>x. m_qos (ma_msg x) = 2) xs \<Longrightarrow>
     in_reset_loop kept xs n = Some (kept @ map (ma_timestamp_update (\<lambda>_. 0)) xs, n + int (length xs))"
  by (induction xs arbitrary: kept n) (auto simp: Let_def)

lemma out_reset_loop_msgs:
  "map ma_msg (fst (out_reset_loop mx n xs)) = map ma_msg xs"
  by (induction xs arbitrary: n) (auto simp: Let_def case_prod_beta)

lemma length_out_reset_loop [simp]: "length (fst (out_reset_loop mx n xs)) = length xs"
  using out_reset_loop_msgs [of mx n xs] by (metis length_map)

lemma out_reset_loop_inflight:
  "list_all (\<lambda>x. m_qos (ma_msg x) > 0) xs \<Longrightarrow> snd (out_reset_loop mx n xs) = n + int (length xs)"
  by (induction xs arbitrary: n) (auto simp: Let_def case_prod_beta)

lemma reconnect_reset_eq:
  assumes "msgs_ok m"
  shows "mosquitto_messages_reconnect_reset m =
    (let ins = map (ma_timestamp_update (\<lambda>_. 0)) (c_in_messages m);
         (outs, inflight) = out_reset_loop (c_max_inflight_messages m) 0 (c_out_messages m)
     in Some (m\<lparr>c_in_messages := ins, c_in_queue_len := int (length ins), c_in_messages_last := end_of ins,
          c_out_messages := outs, c_out_queue_len := int (length outs), c_inflight_messages := inflight,
          c_out_messages_last := (if outs \<noteq> [] then E_list else if ins \<noteq> [] then E_other (length ins - 1) else E_null)\<rparr>))"
  using assms in_reset_loop_qos2 [of "c_in_messages m" "[]" 0]
  by (auto simp: mosquitto_messages_reconnect_reset_def msgs_ok_def Let_def end_of_def case_prod_beta)

lemma reconnect_reset_ok:
  assumes "msgs_ok m" "c_out_messages m \<noteq> [] \<or> c_in_messages m = []"
  shows "\<exists>m'. mosquitto_messages_reconnect_reset m = Some m' \<and> msgs_ok m'
    \<and> map ma_msg (c_out_messages m') = map ma_msg (c_out_messages m)
    \<and> map ma_msg (c_in_messages m') = map ma_msg (c_in_messages m)"
proof -
  let ?r = "out_reset_loop (c_max_inflight_messages m) 0 (c_out_messages m)"
  have "fst ?r = [] \<longleftrightarrow> c_out_messages m = []"
    using length_out_reset_loop [of "c_max_inflight_messages m" 0 "c_out_messages m"] by (metis length_0_conv)
  then show ?thesis
    using assms out_reset_loop_msgs [of "c_max_inflight_messages m" 0 "c_out_messages m"]
    by (auto simp: reconnect_reset_eq Let_def msgs_ok_def end_of_def list_all_length case_prod_beta)
qed

section \<open>The window of messages in flight\<close>

text \<open>The broker acknowledges messages, one after the other.\<close>

fun ack_all :: "'u app \<Rightarrow> 'u mosq \<Rightarrow> u16 list \<Rightarrow> 'u mosq option" where
  "ack_all app m [] = Some m"
| "ack_all app m (w # ws) =
     do { (rc, m) \<leftarrow> mosquitto_message_delete app m w mosq_md_out; ack_all app m ws }"

lemma ack_no_room:
  assumes "\<not> c_out_message_mutex m" "c_out_messages m = x # xs" "m_mid (ma_msg x) = uint w"
    and "m_qos (ma_msg x) > 0" "xs \<noteq> []" "c_max_inflight_messages m > 0"
    and "c_inflight_messages m > c_max_inflight_messages m"
  shows "\<exists>m'. mosquitto_message_delete app m w mosq_md_out = Some (MOSQ_ERR_SUCCESS, m')
    \<and> \<not> c_out_message_mutex m' \<and> c_out_messages m' = xs \<and> c_out_packet m' = c_out_packet m
    \<and> c_max_inflight_messages m' = c_max_inflight_messages m
    \<and> c_inflight_messages m' = c_inflight_messages m - 1"
proof -
  obtain k where k: "length xs = Suc k" using assms(5) by (cases xs) auto
  then show ?thesis using assms
    by (auto simp: mosquitto_message_delete_def mosquitto_message_remove_def Let_def inflight_ok_def)
qed

lemma ack_all_no_room:
  assumes "\<not> c_out_message_mutex m" "length ws < length (c_out_messages m)"
    and "map uint ws = map (m_mid \<circ> ma_msg) (take (length ws) (c_out_messages m))"
    and "list_all (\<lambda>x. m_qos (ma_msg x) > 0) (c_out_messages m)" "c_max_inflight_messages m > 0"
    and "c_inflight_messages m - int (length ws) \<ge> c_max_inflight_messages m"
  shows "\<exists>m'. ack_all app m ws = Some m' \<and> c_out_messages m' = drop (length ws) (c_out_messages m)
    \<and> c_out_packet m' = c_out_packet m \<and> c_max_inflight_messages m' = c_max_inflight_messages m
    \<and> c_inflight_messages m' = c_inflight_messages m - int (length ws)"
  using assms
proof (induction ws arbitrary: m)
  case (Cons w ws)
  then obtain x xs where o: "c_out_messages m = x # xs" by (cases "c_out_messages m") auto
  have x: "m_mid (ma_msg x) = uint w" "m_qos (ma_msg x) > 0" "xs \<noteq> []"
    "c_inflight_messages m > c_max_inflight_messages m" "length ws < length xs"
    "map uint ws = map (m_mid \<circ> ma_msg) (take (length ws) xs)" "list_all (\<lambda>x. m_qos (ma_msg x) > 0) xs"
    "c_inflight_messages m - 1 - int (length ws) \<ge> c_max_inflight_messages m"
    using Cons.prems(2-4,6) o by auto
  obtain m1 where m1: "mosquitto_message_delete app m w mosq_md_out = Some (MOSQ_ERR_SUCCESS, m1)"
    "\<not> c_out_message_mutex m1" "c_out_messages m1 = xs" "c_out_packet m1 = c_out_packet m"
    "c_max_inflight_messages m1 = c_max_inflight_messages m" "c_inflight_messages m1 = c_inflight_messages m - 1"
    using ack_no_room [OF Cons.prems(1) o x(1-3) Cons.prems(5) x(4)] by blast
  show ?case using Cons.IH [of m1] m1 x(5-8) Cons.prems(5) o by (auto simp: algebra_simps)
qed simp

lemma out_reset_loop_states:
  "list_all (\<lambda>x. m_qos (ma_msg x) = 1) xs \<Longrightarrow> mx > 0 \<Longrightarrow>
     map ma_state (fst (out_reset_loop mx n xs)) =
       map (\<lambda>i. if n + int i + 1 < mx then mosq_ms_wait_for_puback else mosq_ms_invalid) [0..<length xs]"
proof (induction xs arbitrary: n)
  case (Cons x xs)
  have "map f [0..<length (x # xs)] = f 0 # map (\<lambda>i. f (Suc i)) [0..<length xs]" for f :: "nat \<Rightarrow> msg_state"
    by (simp add: upt_conv_Cons map_Suc_upt [symmetric] comp_def del: upt_Suc)
  then show ?case using Cons.IH [of "n + 1"] Cons.prems by (auto simp: Let_def case_prod_beta add.commute add.left_commute simp del: upt_Suc)
qed simp

lemma reconnect_window_closed:
  fixes m :: "'u mosq"
  defines "mx \<equiv> c_max_inflight_messages m"
  assumes "msgs_ok m" "mx > 1" "int (length (c_out_messages m)) \<ge> 2 * mx - 1"
    and "list_all (\<lambda>x. m_qos (ma_msg x) = 1) (c_out_messages m)"
    and "map uint ws = map (m_mid \<circ> ma_msg) (take (nat mx - 1) (c_out_messages m))"
  shows "\<exists>m0 m1. mosquitto_messages_reconnect_reset m = Some m0
    \<and> length (filter (\<lambda>x. ma_state x \<noteq> mosq_ms_invalid) (c_out_messages m0)) = nat mx - 1
    \<and> ack_all app m0 ws = Some m1 \<and> c_out_packet m1 = c_out_packet m
    \<and> c_out_messages m1 \<noteq> [] \<and> list_all (\<lambda>x. ma_state x = mosq_ms_invalid) (c_out_messages m1)
    \<and> \<not> inflight_ok m1"
proof -
  let ?o = "c_out_messages m"
  let ?r = "out_reset_loop mx 0 ?o"
  let ?k = "nat mx - 1"
  obtain m0 where m0: "mosquitto_messages_reconnect_reset m = Some m0" "c_out_messages m0 = fst ?r"
    "c_inflight_messages m0 = snd ?r" "c_max_inflight_messages m0 = mx" "c_out_packet m0 = c_out_packet m"
    "\<not> c_out_message_mutex m0"
    using reconnect_reset_eq [OF assms(2)] assms(2) by (auto simp: mx_def Let_def case_prod_beta msgs_ok_def)
  have n: "snd ?r = int (length ?o)" using out_reset_loop_inflight [of ?o mx 0] assms(5) by (auto simp: list_all_iff)
  have kn: "?k < length ?o" "length (fst ?r) = length ?o" using assms(3,4) by auto
  have st: "ma_state (fst ?r ! i) = (if i < ?k then mosq_ms_wait_for_puback else mosq_ms_invalid)"
    if "i < length ?o" for i
  proof -
    have "map ma_state (fst ?r) ! i = (if 0 + int i + 1 < mx then mosq_ms_wait_for_puback else mosq_ms_invalid)"
      using out_reset_loop_states [of ?o mx 0] assms(3,5) that by simp
    then show ?thesis using that kn by auto
  qed
  have ws: "length ws = ?k" using assms(6) kn by (metis length_map length_take min.absorb4)
  have mm: "ma_msg (fst ?r ! i) = ma_msg (?o ! i)" if "i < length ?o" for i
    using out_reset_loop_msgs [of mx 0 ?o] that kn(2) by (metis nth_map)
  have mids: "map uint ws = map (m_mid \<circ> ma_msg) (take (length ws) (fst ?r))"
    unfolding assms(6) ws using kn mm by (auto intro!: nth_equalityI)
  have qos: "list_all (\<lambda>x. m_qos (ma_msg x) > 0) (fst ?r)"
    using assms(5) mm kn(2) by (simp add: list_all_length)
  obtain m1 where m1: "ack_all app m0 ws = Some m1" "c_out_messages m1 = drop ?k (fst ?r)"
    "c_out_packet m1 = c_out_packet m" "c_max_inflight_messages m1 = mx"
    "c_inflight_messages m1 = int (length ?o) - int ?k"
    using ack_all_no_room [of m0 ws app] m0 ws mids qos kn n assms(3,4) by auto
  have "{i. i < length (fst ?r) \<and> ma_state (fst ?r ! i) \<noteq> mosq_ms_invalid} = {..<?k}"
    using st kn by (auto split: if_splits)
  then have "length (filter (\<lambda>x. ma_state x \<noteq> mosq_ms_invalid) (c_out_messages m0)) = ?k"
    using m0(2) by (simp add: length_filter_conv_card)
  moreover have "list_all (\<lambda>x. ma_state x = mosq_ms_invalid) (c_out_messages m1)"
    using m1(2) st kn by (simp add: list_all_length)
  moreover have "c_out_messages m1 \<noteq> []" "\<not> inflight_ok m1"
    using m1(2,4,5) kn assms(3,4) by (auto simp: inflight_ok_def)
  ultimately show ?thesis using m0(1) m1(1,3) by blast
qed

section \<open>Properties\<close>

text \<open>
  C27: \<open>_mosquitto_messages_reconnect_reset\<close> keeps every stored message of both directions in its
  order, and the invariant of the lists, unless there are incoming messages and no outgoing one.
\<close>
theorem reconnect_reset_keeps:
  assumes "msgs_ok m" "c_out_messages m \<noteq> [] \<or> c_in_messages m = []"
  shows "\<exists>m'. mosquitto_messages_reconnect_reset m = Some m' \<and> msgs_ok m'
    \<and> map ma_msg (c_out_messages m') = map ma_msg (c_out_messages m)
    \<and> map ma_msg (c_in_messages m') = map ma_msg (c_in_messages m)"
  by (rule reconnect_reset_ok [OF assms])

theorem reconnect_reset_keeps_witness:
  "\<exists>m'. mosquitto_messages_reconnect_reset (demo_client\<lparr>c_out_messages := [message_all_calloc],
        c_out_messages_last := E_list, c_out_queue_len := 1\<rparr>) = Some m' \<and> msgs_ok m'
    \<and> map ma_msg (c_out_messages m') = [message_calloc] \<and> map ma_msg (c_in_messages m') = []"
  using reconnect_reset_keeps [of "demo_client\<lparr>c_out_messages := [message_all_calloc],
      c_out_messages_last := E_list, c_out_queue_len := 1\<rparr>"]
  by (simp add: msgs_ok_def demo_client_def mosq_calloc_def end_of_def message_all_calloc_def)

text \<open>
  C33: with an incoming message that waits for its PUBREL and no outgoing message, the reset leaves \<open>out_messages_last\<close> at
  the end of the incoming list. The next message that is queued for sending is linked into the incoming list: the list of
  outgoing messages stays empty although it is counted there, an acknowledgement of the message finds nothing, and the next incoming
  message that is queued cuts it off, so that it is in neither list.
\<close>
theorem reconnect_reset_wrong_list:
  assumes "msgs_ok m" "c_out_messages m = []" "c_in_messages m \<noteq> []"
  shows "\<exists>m0 m1. mosquitto_messages_reconnect_reset m = Some m0 \<and> map ma_msg (c_in_messages m0) = map ma_msg (c_in_messages m)
    \<and> mosquitto_message_queue m0 x mosq_md_out = Some m1
    \<and> c_out_messages m1 = [] \<and> c_out_queue_len m1 = 1 \<and> c_in_messages m1 = c_in_messages m0 @ [x]
    \<and> mosquitto_message_delete app m1 mid mosq_md_out = Some (MOSQ_ERR_NOT_FOUND, m1)
    \<and> (\<exists>m2. mosquitto_message_queue m1 y mosq_md_in = Some m2 \<and> c_in_messages m2 = c_in_messages m0 @ [y] \<and> c_out_messages m2 = [])"
proof -
  obtain m0 where m0: "mosquitto_messages_reconnect_reset m = Some m0" "map ma_msg (c_in_messages m0) = map ma_msg (c_in_messages m)"
    "c_out_messages m0 = []" "c_out_queue_len m0 = 0" "c_in_messages m0 \<noteq> []" "c_in_messages_last m0 = E_list"
    "c_out_messages_last m0 = E_other (length (c_in_messages m0) - 1)" "\<not> c_out_message_mutex m0"
    using assms by (auto simp: reconnect_reset_eq Let_def end_of_def) (simp add: msgs_ok_def)
  let ?n = "length (c_in_messages m0)"
  have n: "Suc (?n - 1) = ?n" using m0(5) by (cases "c_in_messages m0") auto
  define m1 where "m1 = m0\<lparr>c_out_queue_len := 1, c_out_messages_last := E_other ?n, c_in_messages := c_in_messages m0 @ [x],
    c_in_messages_last := E_at (?n - 1)\<rparr>"
  have 1: "mosquitto_message_queue m0 x mosq_md_out = Some m1"
    using m0 n by (simp add: mosquitto_message_queue_def append_last_def kept_ptr_def m1_def)
  have 2: "mosquitto_message_delete app m1 mid mosq_md_out = Some (MOSQ_ERR_NOT_FOUND, m1)"
    using m0 by (simp add: mosquitto_message_delete_def mosquitto_message_remove_def m1_def)
  have "\<exists>m2. mosquitto_message_queue m1 y mosq_md_in = Some m2 \<and> c_in_messages m2 = c_in_messages m0 @ [y] \<and> c_out_messages m2 = []"
    using m0 n by (simp add: mosquitto_message_queue_def append_last_def kept_other_def m1_def Let_def)
  then show ?thesis using m0 1 2 by (intro exI [of _ m0] exI [of _ m1]) (simp add: m1_def)
qed

theorem reconnect_reset_wrong_list_witness:
  "\<exists>m0 m1. mosquitto_messages_reconnect_reset (demo_client\<lparr>c_in_messages := [message_all_calloc\<lparr>ma_msg := message_calloc\<lparr>m_qos := 2\<rparr>\<rparr>],
        c_in_messages_last := E_list, c_in_queue_len := 1\<rparr>) = Some m0
    \<and> mosquitto_message_queue m0 (message_all_calloc\<lparr>ma_msg := message_calloc\<lparr>m_qos := 1, m_mid := 7\<rparr>\<rparr>) mosq_md_out = Some m1
    \<and> c_out_messages m1 = [] \<and> length (c_in_messages m1) = 2 \<and> mosquitto_message_delete log_app m1 7 mosq_md_out = Some (MOSQ_ERR_NOT_FOUND, m1)"
proof -
  let ?m = "demo_client\<lparr>c_in_messages := [message_all_calloc\<lparr>ma_msg := message_calloc\<lparr>m_qos := 2\<rparr>\<rparr>], c_in_messages_last := E_list, c_in_queue_len := 1\<rparr>"
  let ?x = "message_all_calloc\<lparr>ma_msg := message_calloc\<lparr>m_qos := 1, m_mid := 7\<rparr>\<rparr>"
  have "msgs_ok ?m" "c_out_messages ?m = []" "c_in_messages ?m \<noteq> []" by (simp_all add: msgs_ok_def demo_client_def mosq_calloc_def end_of_def)
  from reconnect_reset_wrong_list [OF this, of ?x log_app 7 ?x]
  obtain m0 m1 where m: "mosquitto_messages_reconnect_reset ?m = Some m0" "map ma_msg (c_in_messages m0) = map ma_msg (c_in_messages ?m)"
    "mosquitto_message_queue m0 ?x mosq_md_out = Some m1" "c_out_messages m1 = []" "c_in_messages m1 = c_in_messages m0 @ [?x]"
    "mosquitto_message_delete log_app m1 7 mosq_md_out = Some (MOSQ_ERR_NOT_FOUND, m1)" by blast
  have "length (c_in_messages m0) = 1" using arg_cong [OF m(2), of length] by simp
  then show ?thesis using m by (intro exI [of _ m0] exI [of _ m1]) simp
qed

end
