(* ===== verification/Handlers.thy ===== *)
theory Handlers
  imports Messages
begin

text \<open>
  What a client does with an incoming packet: \<open>mosquitto/lib/read_handle.c\<close>,
  \<open>read_handle_client.c\<close>, \<open>read_handle_shared.c\<close> (as compiled for the library, without
  \<open>WITH_BROKER\<close> and \<open>WITH_STRICT_PROTOCOL\<close>), and the whole of \<open>_mosquitto_packet_read\<close>.
\<close>

section \<open>Model\<close>

definition mosquitto_handle_pingreq :: "'u app \<Rightarrow> 'u mosq \<Rightarrow> 'u res" where
  "mosquitto_handle_pingreq app m = mosquitto_send_pingresp app m"

definition mosquitto_handle_pingresp :: "'u mosq \<Rightarrow> 'u res" where
  "mosquitto_handle_pingresp m = Some (MOSQ_ERR_SUCCESS, m\<lparr>c_ping_t := 0\<rparr>)"

text \<open>The readers applied to \<open>in_packet\<close>.\<close>

definition in_read_uint16 :: "'u mosq \<Rightarrow> (int \<times> u16 \<times> 'u mosq) option" where
  "in_read_uint16 m =
     do { (rc, w, p) \<leftarrow> mosquitto_read_uint16 (c_in_packet m); Some (rc, w, m\<lparr>c_in_packet := p\<rparr>) }"

definition in_read_byte :: "'u mosq \<Rightarrow> (int \<times> u8 \<times> 'u mosq) option" where
  "in_read_byte m =
     do { (rc, b, p) \<leftarrow> mosquitto_read_byte (c_in_packet m); Some (rc, b, m\<lparr>c_in_packet := p\<rparr>) }"

definition mosquitto_handle_pubackcomp :: "'u app \<Rightarrow> 'u mosq \<Rightarrow> 'u res" where
  "mosquitto_handle_pubackcomp app m =
     do {
       (rc, mid, m) \<leftarrow> in_read_uint16 m;
       if rc \<noteq> 0 then Some (rc, m)
       else
         do {
           (rc, m) \<leftarrow> mosquitto_message_delete app m mid mosq_md_out;
           if rc = 0 then do { m \<leftarrow> callback app (On_publish (uint mid)) m; Some (MOSQ_ERR_SUCCESS, m) }
           else Some (MOSQ_ERR_SUCCESS, m)
         }
     }"

definition mosquitto_handle_pubrec :: "'u app \<Rightarrow> 'u mosq \<Rightarrow> 'u res" where
  "mosquitto_handle_pubrec app m =
     do {
       (rc, mid, m) \<leftarrow> in_read_uint16 m;
       if rc \<noteq> 0 then Some (rc, m)
       else
         do {
           (rc, m) \<leftarrow> mosquitto_message_out_update m mid mosq_ms_wait_for_pubcomp;
           if rc \<noteq> 0 then Some (rc, m) else mosquitto_send_pubrel app m mid False
         }
     }"

definition mosquitto_handle_pubrel :: "'u app \<Rightarrow> 'u mosq \<Rightarrow> 'u res" where
  "mosquitto_handle_pubrel app m =
     (if c_protocol m = mosq_p_mqtt311 \<and> pk_command (c_in_packet m) AND 0x0F \<noteq> 0x02
      then Some (MOSQ_ERR_PROTOCOL, m)
      else
        do {
          (rc, mid, m) \<leftarrow> in_read_uint16 m;
          if rc \<noteq> 0 then Some (rc, m)
          else
            do {
              (rc, message, m) \<leftarrow> mosquitto_message_remove app m mid mosq_md_in;
              m \<leftarrow> (case message of
                  Some x \<Rightarrow> if rc = 0 then callback app (On_message (ma_msg x)) m else Some m
                | None \<Rightarrow> if rc = 0 then None else Some m);
              mosquitto_send_pubcomp app m mid
            }
        })"

text \<open>The loop that collects the granted QoS values of a SUBACK.\<close>

function granted_loop :: "'u mosq \<Rightarrow> int list \<Rightarrow> (int \<times> int list \<times> 'u mosq) option" where
  "granted_loop m granted_qos =
     (if pk_pos (c_in_packet m) < pk_remaining_length (c_in_packet m) then
        (case in_read_byte m of
           None \<Rightarrow> None
         | Some (rc, qos, m') \<Rightarrow>
             if rc \<noteq> 0 then Some (rc, granted_qos, m') else granted_loop m' (granted_qos @ [uint qos]))
      else Some (MOSQ_ERR_SUCCESS, granted_qos, m))"
  by pat_completeness auto
termination
proof (relation "measure (\<lambda>(m, g). unat (pk_remaining_length (c_in_packet m)) - unat (pk_pos (c_in_packet m)))", goal_cases)
  case (2 m g res rc y qos m')
  let ?p = "c_in_packet m"
  have lt: "unat (pk_pos ?p) < unat (pk_remaining_length ?p)" using 2(1) by (simp add: word_less_nat_alt)
  then have s: "unat (pk_pos ?p + 1) = unat (pk_pos ?p) + 1"
    using unsigned_less [of "pk_remaining_length ?p", where 'a = nat]
    by (intro unat_add_lem [THEN iffD1, THEN trans]) auto
  have "c_in_packet m' = ?p\<lparr>pk_pos := pk_pos ?p + 1\<rparr>"
    using 2 by (auto simp: in_read_byte_def mosquitto_read_byte_def split: if_splits option.splits bind_splits)
  then show ?case using lt s by simp
qed simp

declare granted_loop.simps [simp del]

definition mosquitto_handle_suback :: "'u app \<Rightarrow> 'u mosq \<Rightarrow> 'u res" where
  "mosquitto_handle_suback app m =
     do {
       (rc, mid, m) \<leftarrow> in_read_uint16 m;
       if rc \<noteq> 0 then Some (rc, m)
       else
         (let qos_count = pk_remaining_length (c_in_packet m) - pk_pos (c_in_packet m) in
          case mosq_alloc m of
            (False, m) \<Rightarrow> Some (MOSQ_ERR_NOMEM, m)
          | (True, m) \<Rightarrow>
              do {
                (rc, granted_qos, m) \<leftarrow> granted_loop m [];
                if length granted_qos > unat qos_count then None
                else if rc \<noteq> 0 then Some (rc, m)
                else
                  do {
                    m \<leftarrow> callback app (On_subscribe (uint mid) (sint qos_count) granted_qos) m;
                    Some (MOSQ_ERR_SUCCESS, m)
                  }
              })
     }"

definition mosquitto_handle_unsuback :: "'u app \<Rightarrow> 'u mosq \<Rightarrow> 'u res" where
  "mosquitto_handle_unsuback app m =
     do {
       (rc, mid, m) \<leftarrow> in_read_uint16 m;
       if rc \<noteq> 0 then Some (rc, m)
       else do { m \<leftarrow> callback app (On_unsubscribe (uint mid)) m; Some (MOSQ_ERR_SUCCESS, m) }
     }"

definition mosquitto_handle_connack :: "'u app \<Rightarrow> 'u mosq \<Rightarrow> 'u res" where
  "mosquitto_handle_connack app m =
     do {
       (rc, byte, m) \<leftarrow> in_read_byte m;
       if rc \<noteq> 0 then Some (rc, m)
       else
         do {
           (rc, result, m) \<leftarrow> in_read_byte m;
           if rc \<noteq> 0 then Some (rc, m)
           else
             do {
               m \<leftarrow> callback app (On_connect (uint result)) m;
               Some (if result = 0 then (MOSQ_ERR_SUCCESS, m\<lparr>c_state := mosq_cs_connected\<rparr>)
                     else if result \<in> {1, 2, 3, 4, 5} then (MOSQ_ERR_CONN_REFUSED, m)
                     else (MOSQ_ERR_PROTOCOL, m))
             }
         }
     }"

text \<open>
  An incoming PUBLISH. The payload buffer is one byte longer than the payload and zeroed first.
\<close>

definition publish_read_payload :: "'u mosq \<Rightarrow> message \<Rightarrow> (int \<times> message \<times> 'u mosq) option" where
  "publish_read_payload m msg =
     (let len = pk_remaining_length (c_in_packet m) - pk_pos (c_in_packet m);
          msg = msg\<lparr>m_payloadlen := sint len\<rparr>
      in if m_payloadlen msg \<noteq> 0 then
           (case mosq_alloc m of
              (False, m) \<Rightarrow> Some (MOSQ_ERR_NOMEM, msg, m)
            | (True, m) \<Rightarrow>
                do {
                  (rc, bs, p) \<leftarrow> mosquitto_read_bytes (c_in_packet m) len;
                  Some (rc, msg\<lparr>m_payload := Some (bs @ [0])\<rparr>, m\<lparr>c_in_packet := p\<rparr>)
                })
         else Some (MOSQ_ERR_SUCCESS, msg, m))"

definition publish_deliver :: "'u app \<Rightarrow> 'u mosq \<Rightarrow> message_all \<Rightarrow> 'u res" where
  "publish_deliver app m message =
     (let msg = ma_msg message in
      if m_qos msg = 0 then
        do { m \<leftarrow> callback app (On_message msg) m; Some (MOSQ_ERR_SUCCESS, m) }
      else if m_qos msg = 1 then
        do {
          (rc, m) \<leftarrow> mosquitto_send_puback app m (of_int (m_mid msg));
          m \<leftarrow> callback app (On_message msg) m;
          Some (rc, m)
        }
      else if m_qos msg = 2 then
        do {
          (rc, m) \<leftarrow> mosquitto_send_pubrec app m (of_int (m_mid msg));
          if c_in_message_mutex m then None
          else
            do {
              m \<leftarrow> mosquitto_message_queue m (message\<lparr>ma_state := mosq_ms_wait_for_pubrel\<rparr>) mosq_md_in;
              Some (rc, m)
            }
        }
      else Some (MOSQ_ERR_PROTOCOL, m))"

definition mosquitto_handle_publish :: "'u app \<Rightarrow> 'u mosq \<Rightarrow> 'u res" where
  "mosquitto_handle_publish app m =
     (case mosq_alloc m of
        (False, m) \<Rightarrow> Some (MOSQ_ERR_NOMEM, m)
      | (True, m) \<Rightarrow>
          do {
            let header = pk_command (c_in_packet m);
            let msg = message_calloc\<lparr>m_qos := uint (drop_bit 1 (header AND 0x06)),
                        m_retain := (header AND 0x01 \<noteq> 0)\<rparr>;
            (rc, bs, p, al) \<leftarrow> mosquitto_read_string (c_in_packet m) (e_allocs m);
            let m = m\<lparr>c_in_packet := p, e_allocs := al\<rparr>;
            if rc \<noteq> 0 then Some (rc, m)
            else if cstr bs = [] then Some (MOSQ_ERR_PROTOCOL, m)
            else
              do {
                let msg = msg\<lparr>m_topic := Some (cstr bs)\<rparr>;
                (rc, mid, m) \<leftarrow> (if m_qos msg > 0 then in_read_uint16 m else Some (0, 0, m));
                if rc \<noteq> 0 then Some (rc, m)
                else
                  do {
                    let msg = (if m_qos msg > 0 then msg\<lparr>m_mid := uint mid\<rparr> else msg);
                    (rc, msg, m) \<leftarrow> publish_read_payload m msg;
                    if rc \<noteq> 0 then Some (rc, m)
                    else publish_deliver app m (message_all_calloc\<lparr>ma_timestamp := e_now m,
                           ma_dup := (header AND 0x08 \<noteq> 0), ma_msg := msg\<rparr>)
                  }
              }
          })"

definition mosquitto_packet_handle :: "'u app \<Rightarrow> 'u mosq \<Rightarrow> 'u res" where
  "mosquitto_packet_handle app m =
     (let c = pk_command (c_in_packet m) AND 0xF0 in
      if c = PINGREQ then mosquitto_handle_pingreq app m
      else if c = PINGRESP then mosquitto_handle_pingresp m
      else if c = PUBACK then mosquitto_handle_pubackcomp app m
      else if c = PUBCOMP then mosquitto_handle_pubackcomp app m
      else if c = PUBLISH then mosquitto_handle_publish app m
      else if c = PUBREC then mosquitto_handle_pubrec app m
      else if c = PUBREL then mosquitto_handle_pubrel app m
      else if c = CONNACK then mosquitto_handle_connack app m
      else if c = SUBACK then mosquitto_handle_suback app m
      else if c = UNSUBACK then mosquitto_handle_unsuback app m
      else Some (MOSQ_ERR_PROTOCOL, m))"

definition mosquitto_packet_read :: "'u app \<Rightarrow> 'u mosq \<Rightarrow> 'u res" where
  "mosquitto_packet_read app m =
     (if c_sock m = INVALID_SOCKET then Some (MOSQ_ERR_NO_CONN, m)
      else
        do {
          (r, m) \<leftarrow> packet_read_in m;
          case r of
            Some rc \<Rightarrow> Some (rc, m)
          | None \<Rightarrow>
              do {
                let m = m\<lparr>c_in_packet := (c_in_packet m)\<lparr>pk_pos := 0\<rparr>\<rparr>;
                (rc, m) \<leftarrow> mosquitto_packet_handle app m;
                Some (rc, m\<lparr>c_in_packet := mosquitto_packet_cleanup (c_in_packet m), c_last_msg_in := e_now m\<rparr>)
              }
        })"

section \<open>Decoding a PUBLISH\<close>

definition publish_command :: "int \<Rightarrow> bool \<Rightarrow> bool \<Rightarrow> u8" where
  "publish_command qos retain dup =
     PUBLISH OR push_bit 3 (of_bool dup) OR push_bit 1 (of_int qos) OR of_bool retain"

lemma publish_command_bits:
  assumes "qos \<in> {0, 1, 2}"
  shows "publish_command qos retain dup AND 0xF0 = PUBLISH"
    "uint (drop_bit 1 (publish_command qos retain dup AND 0x06)) = qos"
    "publish_command qos retain dup AND 0x01 \<noteq> 0 \<longleftrightarrow> retain"
    "publish_command qos retain dup AND 0x08 \<noteq> 0 \<longleftrightarrow> dup"
  using assms by (auto simp: publish_command_def)

text \<open>The message that the application of the receiver sees.\<close>

definition received :: "string \<Rightarrow> u16 \<Rightarrow> int \<Rightarrow> bool \<Rightarrow> u8 list \<Rightarrow> message" where
  "received topic mid qos retain payload = \<lparr>m_mid = (if qos > 0 then uint mid else 0), m_topic = Some topic,
     m_payload = (if payload = [] then None else Some (payload @ [0])),
     m_payloadlen = int (length payload), m_qos = qos, m_retain = retain\<rparr>"

text \<open>A packet that has been read completely, with the position at its start.\<close>

definition arrived :: "u8 \<Rightarrow> u8 list \<Rightarrow> packet \<Rightarrow> bool" where
  "arrived c body p \<longleftrightarrow> pk_command p = c \<and> rd_fits p [] body \<and> p = at_pos p [] body"

lemma arrived_at: "arrived c body p \<Longrightarrow> p = at_pos p [] body \<and> rd_fits p [] body \<and> pk_command p = c"
  by (simp add: arrived_def)

lemma at_pos_at_pos [simp]: "at_pos (at_pos p d r) d' r' = at_pos p d' r'"
  by (simp add: at_pos_def)

lemma rd_fits_at_pos [simp]: "rd_fits (at_pos p d r) d' r' = rd_fits p d' r'"
  by (simp add: rd_fits_def)

lemma cstr_snoc_0 [simp]: "NUL \<notin> set s \<Longrightarrow> cstr (bytes_of_string s @ [0]) = s"
proof -
  assume "NUL \<notin> set s"
  then have "takeWhile (\<lambda>b. b \<noteq> 0) (bytes_of_string s @ [0]) = bytes_of_string s"
    by (subst takeWhile_append2) auto
  then show ?thesis by (simp add: cstr_def o_def)
qed

lemma read_str16:
  assumes "rd_fits p d (str16 s @ rest)" "length s < 2 ^ 16"
  shows "mosquitto_read_string (at_pos p d (str16 s @ rest)) [] =
    Some (MOSQ_ERR_SUCCESS, s @ [0], at_pos p (d @ str16 s) rest, [])"
proof -
  have u: "unat (of_nat (length s) :: u16) = length s" using assms(2) by (simp add: unat_of_nat)
  show ?thesis
    using read_string_at [of p d "MOSQ_MSB (of_nat (length s))" "MOSQ_LSB (of_nat (length s))" "s @ rest" "[]"] assms
    by (simp add: str16_def be16_def MSB_LSB u Let_def)
qed

lemma read_be16:
  assumes "rd_fits p d (be16 w @ rest)"
  shows "mosquitto_read_uint16 (at_pos p d (be16 w @ rest)) =
    Some (MOSQ_ERR_SUCCESS, w, at_pos p (d @ be16 w) rest)"
  using read_uint16_at [OF assms] by (simp add: be16_def MSB_LSB)

lemma handle_publish_decode:
  assumes "arrived (publish_command qos retain dup) (publish_body topic mid qos payload) (c_in_packet m)"
    and "e_allocs m = []" "qos \<in> {0, 1, 2}" "topic \<noteq> []" "NUL \<notin> set topic" "length topic < 2 ^ 16"
  shows "\<exists>p. mosquitto_handle_publish app m = publish_deliver app (m\<lparr>c_in_packet := p\<rparr>)
    (message_all_calloc\<lparr>ma_timestamp := e_now m, ma_dup := dup, ma_msg := received topic mid qos retain payload\<rparr>)"
proof -
  let ?p = "c_in_packet m" and ?s = "bytes_of_string topic"
  let ?mid = "if qos > 0 then be16 mid else []"
  have p: "?p = at_pos ?p [] (str16 ?s @ ?mid @ payload)" "rd_fits ?p [] (str16 ?s @ ?mid @ payload)"
    "pk_command ?p = publish_command qos retain dup"
    using arrived_at [OF assms(1)] by (auto simp: publish_body_def)
  have r1: "mosquitto_read_string ?p [] =
      Some (MOSQ_ERR_SUCCESS, ?s @ [0], at_pos ?p (str16 ?s) (?mid @ payload), [])"
    using read_str16 [OF p(2)] p(1) assms(6) by simp
  define d where "d = str16 ?s @ ?mid"
  have f1: "rd_fits ?p (str16 ?s) (?mid @ payload)" using rd_fits_advance [of ?p "[]" "str16 ?s"] p(2) by simp
  have r2: "mosquitto_read_uint16 (at_pos ?p (str16 ?s) (?mid @ payload)) =
      Some (MOSQ_ERR_SUCCESS, mid, at_pos ?p d payload)" if "qos > 0"
    using read_be16 [of ?p "str16 ?s" mid payload] f1 that by (simp add: d_def)
  have f2: "rd_fits ?p d payload" using rd_fits_advance [OF f1] by (simp add: d_def)
  have b: "length d < 2 ^ 31" "length payload < 2 ^ 31" "unat (pk_remaining_length ?p) = length d + length payload"
    using rd_fits_bound [OF f2] by auto
  then have l: "pk_remaining_length ?p - of_nat (length d) = of_nat (length payload)"
    by (metis add_diff_cancel_left' of_nat_add of_nat_unat ucast_id)
  have si: "sint (of_nat (length payload) :: u32) = int (length payload)"
    using b(2) by (simp add: signed_of_nat signed_take_bit_int_eq_self)
  have r3: "mosquitto_read_bytes (at_pos ?p d payload) (of_nat (length payload)) =
      Some (MOSQ_ERR_SUCCESS, payload, at_pos ?p (d @ payload) [])"
    using read_bytes_at [OF f2 b(2)] by simp
  have al: "m\<lparr>c_in_packet := q, e_allocs := []\<rparr> = m\<lparr>c_in_packet := q\<rparr>" for q
    using assms(2) by (cases m) simp
  have al0: "m\<lparr>e_allocs := []\<rparr> = m" using assms(2) by (cases m) simp
  let ?msg = "message_calloc\<lparr>m_qos := qos, m_retain := retain, m_topic := Some topic, m_mid := (if qos > 0 then uint mid else 0)\<rparr>"
  have pay: "publish_read_payload (m\<lparr>c_in_packet := at_pos ?p d payload\<rparr>) ?msg =
      Some (MOSQ_ERR_SUCCESS, received topic mid qos retain payload,
        m\<lparr>c_in_packet := at_pos ?p (d @ payload) []\<rparr>)"
  proof (cases "payload = []")
    case True
    then show ?thesis using l by (simp add: publish_read_payload_def received_def message_calloc_def)
  next
    case False
    then have "int (length payload) \<noteq> 0" by simp
    then show ?thesis using l si r3 mosq_alloc_ok [of "m\<lparr>c_in_packet := at_pos ?p d payload\<rparr>"] assms(2)
      by (simp add: publish_read_payload_def received_def message_calloc_def Let_def False)
  qed
  have topic: "cstr (?s @ [0]) = topic" using assms(5) by simp
  have bits: "uint (drop_bit 1 (publish_command qos retain dup AND 0x06)) = qos"
    "(publish_command qos retain dup AND 0x01 \<noteq> 0) = retain" "(publish_command qos retain dup AND 0x08 \<noteq> 0) = dup"
    using publish_command_bits [OF assms(3)] by auto
  show ?thesis
  proof (cases "qos > 0")
    case True
    then show ?thesis using r1 r2 [OF True] pay
      unfolding mosquitto_handle_publish_def mosq_alloc_ok [OF assms(2)] Let_def
      by (auto simp: topic assms(2,4) al al0 in_read_uint16_def p(3) bits [simplified])
  next
    case False
    then have q0: "qos = 0" using assms(3) by auto
    then show ?thesis using r1 pay
      unfolding mosquitto_handle_publish_def mosq_alloc_ok [OF assms(2)] Let_def
      by (auto simp: topic assms(2,4) al d_def message_calloc_def p(3) bits [unfolded q0, simplified])
  qed
qed

section \<open>Sending from the network thread\<close>

text \<open>
  With the network thread running (\<open>threaded\<close>), a sender only queues its packet: nothing but the
  queue and the allocator changes.
\<close>

definition ack :: "u8 \<Rightarrow> u16 \<Rightarrow> packet" where
  "ack c mid = wire (packet_calloc\<lparr>pk_command := c, pk_remaining_length := 2\<rparr>) (be16 mid)"

lemma send_command_threaded:
  "e_allocs m = [] \<Longrightarrow> c_threaded m \<Longrightarrow>
     mosquitto_send_command_with_mid app m c mid False =
       Some (MOSQ_ERR_SUCCESS, m\<lparr>c_out_packet := c_out_packet m @ [ack c mid]\<rparr>)"
  by (simp add: send_command_with_mid_eq enqueue_def ack_def Let_def)

lemmas send_threaded = mosquitto_send_puback_def mosquitto_send_pubrec_def mosquitto_send_pubcomp_def
  mosquitto_send_pubrel_def send_command_threaded

section \<open>The message lists under the handlers\<close>

lemma msg_view_in_packet [simp]: "msg_view (m\<lparr>c_in_packet := p\<rparr>) = msg_view m"
  by (simp add: msg_view_def)

lemma msgs_ok_in_packet [simp]: "msgs_ok (m\<lparr>c_in_packet := p\<rparr>) = msgs_ok m"
  by (rule msgs_ok_view) simp

text \<open>Each building block of the handlers keeps the invariant.\<close>

lemma ok_in_read:
  "in_read_uint16 m = Some (rc, w, m') \<Longrightarrow> msgs_ok m \<Longrightarrow> msgs_ok m'"
  "in_read_byte m = Some (rc, b, m') \<Longrightarrow> msgs_ok m \<Longrightarrow> msgs_ok m'"
  by (auto simp: in_read_uint16_def in_read_byte_def split: bind_splits)

lemma ok_alloc: "mosq_alloc m = (b, m') \<Longrightarrow> msgs_ok m \<Longrightarrow> msgs_ok m'"
  by (metis mv.view_alloc msgs_ok_view)

lemma ok_callback: "callback app ev m = Some m' \<Longrightarrow> quiet_app app \<Longrightarrow> msgs_ok m \<Longrightarrow> msgs_ok m'"
  by (metis mv.view_callback msgs_ok_view)

lemma ok_send:
  "mosquitto_send_puback app m mid = Some (rc, m') \<Longrightarrow> quiet_app app \<Longrightarrow> msgs_ok m \<Longrightarrow> msgs_ok m'"
  "mosquitto_send_pubrec app m mid = Some (rc, m') \<Longrightarrow> quiet_app app \<Longrightarrow> msgs_ok m \<Longrightarrow> msgs_ok m'"
  "mosquitto_send_pubcomp app m mid = Some (rc, m') \<Longrightarrow> quiet_app app \<Longrightarrow> msgs_ok m \<Longrightarrow> msgs_ok m'"
  "mosquitto_send_pubrel app m mid dup = Some (rc, m') \<Longrightarrow> quiet_app app \<Longrightarrow> msgs_ok m \<Longrightarrow> msgs_ok m'"
  "mosquitto_send_pingresp app m = Some (rc, m') \<Longrightarrow> quiet_app app \<Longrightarrow> msgs_ok m \<Longrightarrow> msgs_ok m'"
  unfolding mosquitto_send_puback_def mosquitto_send_pubrec_def mosquitto_send_pubcomp_def
    mosquitto_send_pubrel_def mosquitto_send_pingresp_def
  by (metis mv.view_send_command_with_mid mv.view_send_simple_command msgs_ok_view)+

lemma ok_queue_in:
  "mosquitto_message_queue m x mosq_md_in = Some m' \<Longrightarrow> m_qos (ma_msg x) = 2 \<Longrightarrow> msgs_ok m \<Longrightarrow> msgs_ok m'"
  using message_queue_ok [of m mosq_md_in x] by auto

lemma ok_remove:
  "mosquitto_message_remove app m mid dir = Some (rc, x, m') \<Longrightarrow> quiet_app app \<Longrightarrow> msgs_ok m \<Longrightarrow> msgs_ok m'"
  by (rule message_remove_ok)

lemma ok_delete:
  "mosquitto_message_delete app m mid dir = Some (rc, m') \<Longrightarrow> quiet_app app \<Longrightarrow> msgs_ok m \<Longrightarrow> msgs_ok m'"
  by (auto simp: mosquitto_message_delete_def split: bind_splits dest: message_remove_ok [rotated 2])

lemma ok_update:
  "mosquitto_message_out_update m mid st = Some (rc, m') \<Longrightarrow> msgs_ok m \<Longrightarrow> msgs_ok m'"
  by (rule out_update_ok)

lemma ok_granted: "granted_loop m g = Some (rc, g', m') \<Longrightarrow> msgs_ok m \<Longrightarrow> msgs_ok m'"
proof (induction m g rule: granted_loop.induct)
  case (1 m g)
  show ?case
  proof (cases "pk_pos (c_in_packet m) < pk_remaining_length (c_in_packet m)")
    case True
    then obtain rc1 q m1 where r: "in_read_byte m = Some (rc1, q, m1)"
      using "1.prems"(1) by (cases "in_read_byte m") (auto simp: granted_loop.simps [of m g])
    then show ?thesis using 1 True ok_in_read(2) [OF r]
      by (cases "rc1 = 0") (auto simp: granted_loop.simps [of m g])
  qed (use "1.prems" in \<open>simp add: granted_loop.simps [of m g]\<close>)
qed

lemma ok_payload: "publish_read_payload m msg = Some (rc, msg', m') \<Longrightarrow> msgs_ok m \<Longrightarrow> msgs_ok m'"
  by (auto simp: publish_read_payload_def Let_def dest: ok_alloc split: if_splits bind_splits prod.splits bool.splits)

lemma ok_deliver:
  assumes "publish_deliver app m x = Some (rc, m')" "quiet_app app" "msgs_ok m"
  shows "msgs_ok m'"
proof -
  have q: "m_qos (ma_msg (x\<lparr>ma_state := s\<rparr>)) = m_qos (ma_msg x)" for s by simp
  consider "m_qos (ma_msg x) = 0" | "m_qos (ma_msg x) = 1" | "m_qos (ma_msg x) = 2"
    | "m_qos (ma_msg x) \<notin> {0, 1, 2}" by blast
  then show ?thesis
  proof cases
    case 2
    then obtain m1 where "mosquitto_send_puback app m (of_int (m_mid (ma_msg x))) = Some (rc, m1)"
      "callback app (On_message (ma_msg x)) m1 = Some m'"
      using assms(1) by (auto simp: publish_deliver_def Let_def split: bind_splits)
    then show ?thesis using assms(2,3) ok_send(1) ok_callback by blast
  next
    case 3
    then obtain m1 where "mosquitto_send_pubrec app m (of_int (m_mid (ma_msg x))) = Some (rc, m1)"
      "mosquitto_message_queue m1 (x\<lparr>ma_state := mosq_ms_wait_for_pubrel\<rparr>) mosq_md_in = Some m'"
      using assms(1) by (auto simp: publish_deliver_def Let_def split: bind_splits if_splits)
    then show ?thesis using assms(2,3) ok_send(2) ok_queue_in q 3 by metis
  qed (use assms ok_callback in \<open>auto simp: publish_deliver_def Let_def split: bind_splits\<close>)
qed

lemma msgs_ok_allocs [simp]: "msgs_ok (m\<lparr>e_allocs := al\<rparr>) = msgs_ok m"
  by (rule msgs_ok_view) simp

lemma ok_publish:
  assumes "mosquitto_handle_publish app m = Some (rc, m')" "quiet_app app" "msgs_ok m"
  shows "msgs_ok m'"
proof -
  have al: "\<And>b m1. mosq_alloc m = (b, m1) \<Longrightarrow> msgs_ok m1" using ok_alloc assms(3) by blast
  show ?thesis
    using assms(1,2)
    by (auto simp: mosquitto_handle_publish_def Let_def split: if_splits bind_splits prod.splits bool.splits
        dest!: al dest: ok_in_read ok_payload intro: ok_deliver ok_payload)
      (metis ok_in_read(1) ok_payload ok_deliver msgs_ok_in_packet msgs_ok_allocs)
qed

lemma ok_pubackcomp:
  assumes "mosquitto_handle_pubackcomp app m = Some (rc, m')" "quiet_app app" "msgs_ok m"
  shows "msgs_ok m'"
  using assms
  by (auto simp: mosquitto_handle_pubackcomp_def split: if_splits bind_splits)
     (metis ok_in_read(1) ok_delete ok_callback)+

lemma ok_pubrec:
  assumes "mosquitto_handle_pubrec app m = Some (rc, m')" "quiet_app app" "msgs_ok m"
  shows "msgs_ok m'"
  using assms
  by (auto simp: mosquitto_handle_pubrec_def split: if_splits bind_splits)
     (metis ok_in_read(1) ok_update ok_send(4))+

lemma ok_pubrel:
  assumes "mosquitto_handle_pubrel app m = Some (rc, m')" "quiet_app app" "msgs_ok m"
  shows "msgs_ok m'"
  using assms
  by (auto simp: mosquitto_handle_pubrel_def split: if_splits bind_splits option.splits)
     (metis ok_in_read(1) ok_remove ok_send(3) ok_callback)+

lemma ok_acks:
  assumes "quiet_app app" "msgs_ok m"
  shows "mosquitto_handle_suback app m = Some (rc, m') \<Longrightarrow> msgs_ok m'"
    and "mosquitto_handle_unsuback app m = Some (rc, m') \<Longrightarrow> msgs_ok m'"
    and "mosquitto_handle_connack app m = Some (rc, m') \<Longrightarrow> msgs_ok m'"
proof -
  have st: "msgs_ok (n\<lparr>c_state := s\<rparr>) = msgs_ok n" for n :: "'a mosq" and s by (simp add: msgs_ok_def)
  show "mosquitto_handle_suback app m = Some (rc, m') \<Longrightarrow> msgs_ok m'" using assms
    by (auto simp: mosquitto_handle_suback_def Let_def split: if_splits bind_splits prod.splits bool.splits)
       (metis ok_in_read(1) ok_alloc ok_granted ok_callback)+
  show "mosquitto_handle_unsuback app m = Some (rc, m') \<Longrightarrow> msgs_ok m'" using assms
    by (auto simp: mosquitto_handle_unsuback_def split: if_splits bind_splits)
       (metis ok_in_read(1) ok_callback)+
  show "mosquitto_handle_connack app m = Some (rc, m') \<Longrightarrow> msgs_ok m'" using assms
    by (auto simp: mosquitto_handle_connack_def st split: if_splits bind_splits)
       (metis ok_in_read(2) ok_callback)+
qed

text \<open>Whatever packet arrives, handling it keeps the invariant of the message lists.\<close>

lemma ok_packet_handle:
  assumes "quiet_app app" "msgs_ok m" "mosquitto_packet_handle app m = Some (rc, m')"
  shows "msgs_ok m'"
proof -
  have ping: "msgs_ok (n\<lparr>c_ping_t := t\<rparr>) = msgs_ok n" for n :: "'a mosq" and t by (simp add: msgs_ok_def)
  show ?thesis
    using assms ok_acks [OF assms(1,2)] ok_pubrel [of app m] ok_pubrec [of app m] ok_pubackcomp [of app m]
      ok_publish [of app m] ok_send(5) [of app m]
    by (auto simp: mosquitto_packet_handle_def Let_def mosquitto_handle_pingreq_def
        mosquitto_handle_pingresp_def ping split: if_splits)
qed

section \<open>A packet arrives\<close>

definition incoming :: "u8 \<Rightarrow> u8 list \<Rightarrow> 'u mosq \<Rightarrow> 'u mosq" where
  "incoming c body m = m\<lparr>c_in_packet :=
     at_pos (packet_calloc\<lparr>pk_command := c, pk_remaining_length := of_nat (length body)\<rparr>) [] body\<rparr>"

text \<open>A client with its network thread running, in its regular state between two packets.\<close>

definition net_ready :: "'u mosq \<Rightarrow> bool" where
  "net_ready m \<longleftrightarrow> e_allocs m = [] \<and> c_threaded m \<and> c_on_message m \<and> c_on_publish m \<and>
     \<not> c_callback_mutex m \<and> \<not> c_in_callback m \<and> c_protocol m \<noteq> mosq_p_mqtt311 \<and> msgs_ok m"

lemma incoming_arrived:
  assumes "length body < 2 ^ 31"
  shows "arrived c body (c_in_packet (incoming c body m))"
  using assms by (simp add: arrived_def incoming_def rd_fits_def unat_u32)

lemma incoming_sel [simp]:
  "pk_command (c_in_packet (incoming c body m)) = c" "e_allocs (incoming c body m) = e_allocs m"
  "e_now (incoming c body m) = e_now m" "c_protocol (incoming c body m) = c_protocol m"
  "c_userdata (incoming c body m) = c_userdata m" "msgs_ok (incoming c body m) = msgs_ok m"
  "net_ready (incoming c body m) = net_ready m"
  "c_in_messages (incoming c body m) = c_in_messages m" "c_out_messages (incoming c body m) = c_out_messages m"
  "c_out_packet (incoming c body m) = c_out_packet m"
  by (simp_all add: incoming_def net_ready_def)

lemma incoming_be16:
  "\<exists>p. in_read_uint16 (incoming c (be16 w) m) = Some (MOSQ_ERR_SUCCESS, w, m\<lparr>c_in_packet := p\<rparr>)"
  using read_be16 [of "packet_calloc\<lparr>pk_command := c, pk_remaining_length := 2\<rparr>" "[]" w "[]"]
  by (auto simp: in_read_uint16_def incoming_def rd_fits_def)

lemma remove_in_eq:
  assumes "msgs_ok m" "c_in_messages m = as @ x # bs" "m_mid (ma_msg x) = uint mid"
    "\<forall>y \<in> set as. m_mid (ma_msg y) \<noteq> uint mid"
  shows "\<exists>m'. mosquitto_message_remove app m mid mosq_md_in = Some (MOSQ_ERR_SUCCESS, Some x, m')
    \<and> m' = m\<lparr>c_in_messages := as @ bs, c_in_queue_len := c_in_queue_len m', c_in_messages_last := c_in_messages_last m',
        c_inflight_messages := c_inflight_messages m'\<rparr>"
  using assms split_mid_append [of x "uint mid" as bs]
  by (auto simp: mosquitto_message_remove_def msgs_ok_def Let_def)

lemma packet_handle_pubrel:
  "c AND 0xF0 = PUBREL \<Longrightarrow> mosquitto_packet_handle app (incoming c body m) = mosquitto_handle_pubrel app (incoming c body m)"
  by (simp add: mosquitto_packet_handle_def Let_def)

lemma pubrel_found:
  assumes "net_ready m" "c_in_messages m = as @ x # bs" "m_mid (ma_msg x) = uint mid"
    "\<forall>y \<in> set as. m_mid (ma_msg y) \<noteq> uint mid"
  shows "\<exists>m'. mosquitto_packet_handle log_app (incoming (PUBREL OR 2) (be16 mid) m) = Some (MOSQ_ERR_SUCCESS, m')
    \<and> c_userdata m' = c_userdata m @ [On_message (ma_msg x)] \<and> c_in_messages m' = as @ bs
    \<and> c_out_packet m' = c_out_packet m @ [ack PUBCOMP mid] \<and> net_ready m'"
proof -
  obtain p where p: "in_read_uint16 (incoming (PUBREL OR 2) (be16 mid) m) = Some (MOSQ_ERR_SUCCESS, mid, m\<lparr>c_in_packet := p\<rparr>)"
    using incoming_be16 by blast
  have ok: "msgs_ok (m\<lparr>c_in_packet := p\<rparr>)" using assms(1) by (simp add: net_ready_def)
  obtain m1 where r: "mosquitto_message_remove log_app (m\<lparr>c_in_packet := p\<rparr>) mid mosq_md_in = Some (MOSQ_ERR_SUCCESS, Some x, m1)"
    and m1: "m1 = m\<lparr>c_in_packet := p, c_in_messages := as @ bs, c_in_queue_len := c_in_queue_len m1,
        c_in_messages_last := c_in_messages_last m1, c_inflight_messages := c_inflight_messages m1\<rparr>"
    using remove_in_eq [OF ok, of as x bs mid log_app] assms(2-4) by auto
  have ok1: "msgs_ok m1" using message_remove_ok [OF quiet_log_app ok r] .
  have f: "e_allocs m1 = []" "c_threaded m1" "c_on_message m1" "c_on_publish m1" "\<not> c_callback_mutex m1"
    "\<not> c_in_callback m1" "c_userdata m1 = c_userdata m" "c_out_packet m1 = c_out_packet m" "c_in_messages m1 = as @ bs"
    "c_protocol m1 \<noteq> mosq_p_mqtt311"
    using assms(1) by (subst m1; simp add: net_ready_def)+
  let ?m2 = "m1\<lparr>c_userdata := c_userdata m @ [On_message (ma_msg x)]\<rparr>"
  have cb: "callback log_app (On_message (ma_msg x)) m1 = Some ?m2" using callback_log [of m1] f by simp
  have "msgs_ok ?m2" using ok1 by (simp add: msgs_ok_def)
  then show ?thesis
    using p r cb f assms(1)
    by (auto simp: packet_handle_pubrel mosquitto_handle_pubrel_def send_threaded net_ready_def msgs_ok_def)
qed

lemma pubrel_not_found:
  assumes "net_ready m" "\<forall>y \<in> set (c_in_messages m). m_mid (ma_msg y) \<noteq> uint mid"
  shows "\<exists>m'. mosquitto_packet_handle log_app (incoming (PUBREL OR 2) (be16 mid) m) = Some (MOSQ_ERR_SUCCESS, m')
    \<and> c_userdata m' = c_userdata m \<and> c_in_messages m' = c_in_messages m
    \<and> c_out_packet m' = c_out_packet m @ [ack PUBCOMP mid] \<and> net_ready m'"
proof -
  obtain p where p: "in_read_uint16 (incoming (PUBREL OR 2) (be16 mid) m) = Some (MOSQ_ERR_SUCCESS, mid, m\<lparr>c_in_packet := p\<rparr>)"
    using incoming_be16 by blast
  have "split_mid (uint mid) (c_in_messages m) = None" using assms(2) by (simp add: split_mid_None)
  then show ?thesis
    using p assms(1)
    by (auto simp: packet_handle_pubrel mosquitto_handle_pubrel_def mosquitto_message_remove_def
        send_threaded net_ready_def msgs_ok_def)
qed

lemma publish_qos2_stored:
  assumes "net_ready m" "topic \<noteq> []" "NUL \<notin> set topic" "length topic < 2 ^ 16"
    and "length (publish_body topic mid 2 payload) < 2 ^ 28"
  shows "\<exists>m' x. mosquitto_packet_handle log_app
      (incoming (publish_command 2 retain dup) (publish_body topic mid 2 payload) m) = Some (MOSQ_ERR_SUCCESS, m')
    \<and> c_userdata m' = c_userdata m \<and> c_in_messages m' = c_in_messages m @ [x]
    \<and> ma_msg x = received topic mid 2 retain payload
    \<and> c_out_packet m' = c_out_packet m @ [ack PUBREC mid] \<and> net_ready m'"
proof -
  let ?i = "incoming (publish_command 2 retain dup) (publish_body topic mid 2 payload) m"
  let ?x = "message_all_calloc\<lparr>ma_timestamp := e_now m, ma_dup := dup, ma_msg := received topic mid 2 retain payload\<rparr>"
  let ?y = "?x\<lparr>ma_state := mosq_ms_wait_for_pubrel\<rparr>"
  have al: "e_allocs m = []" using assms(1) by (simp add: net_ready_def)
  obtain p where d: "mosquitto_handle_publish log_app ?i = publish_deliver log_app (?i\<lparr>c_in_packet := p\<rparr>) ?x"
    using handle_publish_decode [of 2 retain dup topic mid payload ?i log_app] incoming_arrived assms(2-5) al by force
  have m: "?i\<lparr>c_in_packet := p\<rparr> = m\<lparr>c_in_packet := p\<rparr>" by (simp add: incoming_def)
  let ?m1 = "m\<lparr>c_in_packet := p, c_out_packet := c_out_packet m @ [ack PUBREC mid]\<rparr>"
  have mid: "(of_int (m_mid (ma_msg ?x)) :: u16) = mid" by (simp add: received_def)
  have q: "m_qos (ma_msg ?x) = 2" by (simp add: received_def)
  have s: "mosquitto_send_pubrec log_app (m\<lparr>c_in_packet := p\<rparr>) mid = Some (MOSQ_ERR_SUCCESS, ?m1)"
    using assms(1) by (simp add: send_threaded net_ready_def)
  have ok: "msgs_ok ?m1" using assms(1) by (simp add: net_ready_def msgs_ok_def)
  obtain m2 where m2: "mosquitto_message_queue ?m1 ?y mosq_md_in = Some m2" "msgs_ok m2"
    "c_in_messages m2 = c_in_messages m @ [?y]"
    using message_queue_ok [OF ok, of mosq_md_in ?y] q by auto
  have f: "c_userdata m2 = c_userdata m" "c_out_packet m2 = c_out_packet ?m1" "net_ready m2"
    using m2(1,2) assms(1) by (auto simp: mosquitto_message_queue_def net_ready_def Let_def split: bind_splits if_splits)
  have "mosquitto_packet_handle log_app ?i = mosquitto_handle_publish log_app ?i"
    using publish_command_bits(1) [of 2 retain dup] by (simp add: mosquitto_packet_handle_def Let_def)
  also have "\<dots> = Some (MOSQ_ERR_SUCCESS, m2)"
    unfolding d m publish_deliver_def Let_def mid using q s m2(1) assms(1)
    by (simp add: net_ready_def msgs_ok_def)
  finally show ?thesis using m2(3) f by (intro exI [of _ m2] exI [of _ ?y]) simp
qed

lemma publish_qos01_delivered:
  assumes "net_ready m" "topic \<noteq> []" "NUL \<notin> set topic" "length topic < 2 ^ 16" "qos \<in> {0, 1}"
    and "length (publish_body topic mid qos payload) < 2 ^ 28"
  shows "\<exists>m'. mosquitto_packet_handle log_app
      (incoming (publish_command qos retain dup) (publish_body topic mid qos payload) m) = Some (MOSQ_ERR_SUCCESS, m')
    \<and> c_userdata m' = c_userdata m @ [On_message (received topic mid qos retain payload)]
    \<and> c_in_messages m' = c_in_messages m
    \<and> c_out_packet m' = c_out_packet m @ (if qos = 1 then [ack PUBACK mid] else []) \<and> net_ready m'"
proof -
  let ?i = "incoming (publish_command qos retain dup) (publish_body topic mid qos payload) m"
  let ?x = "message_all_calloc\<lparr>ma_timestamp := e_now m, ma_dup := dup, ma_msg := received topic mid qos retain payload\<rparr>"
  have al: "e_allocs m = []" using assms(1) by (simp add: net_ready_def)
  obtain p where d: "mosquitto_handle_publish log_app ?i = publish_deliver log_app (?i\<lparr>c_in_packet := p\<rparr>) ?x"
    using handle_publish_decode [of qos retain dup topic mid payload ?i log_app] incoming_arrived assms(2-6) al by force
  have m: "?i\<lparr>c_in_packet := p\<rparr> = m\<lparr>c_in_packet := p\<rparr>" by (simp add: incoming_def)
  have h: "mosquitto_packet_handle log_app ?i = publish_deliver log_app (m\<lparr>c_in_packet := p\<rparr>) ?x"
  proof -
    have "publish_command qos retain dup AND 0xF0 = PUBLISH" using assms(5) by (intro publish_command_bits) auto
    then show ?thesis using d m by (simp add: mosquitto_packet_handle_def Let_def)
  qed
  have q: "m_qos (ma_msg ?x) = qos" "ma_msg ?x = received topic mid qos retain payload" by (simp_all add: received_def)
  show ?thesis
  proof (cases "qos = 0")
    case True
    then show ?thesis using assms(1) q unfolding h publish_deliver_def
      by (auto simp: Let_def callback_log net_ready_def msgs_ok_def)
  next
    case False
    then have "qos = 1" "(of_int (m_mid (received topic mid qos retain payload)) :: u16) = mid"
      using assms(5) by (auto simp: received_def)
    then show ?thesis using assms(1) q unfolding h publish_deliver_def
      by (auto simp: Let_def callback_log net_ready_def msgs_ok_def send_threaded)
  qed
qed

text \<open>A message of QoS 1 is acknowledged and given to the application, whatever the application is.\<close>

lemma publish_qos1_callback:
  assumes "e_allocs m = []" "c_threaded m" "topic \<noteq> []" "NUL \<notin> set topic" "length topic < 2 ^ 16"
    and "length (publish_body topic mid 1 payload) < 2 ^ 28"
  shows "\<exists>p. mosquitto_packet_handle app
      (incoming (publish_command 1 retain dup) (publish_body topic mid 1 payload) m) =
    do { m \<leftarrow> callback app (On_message (received topic mid 1 retain payload))
           (m\<lparr>c_in_packet := p, c_out_packet := c_out_packet m @ [ack PUBACK mid]\<rparr>);
         Some (MOSQ_ERR_SUCCESS, m) }"
proof -
  let ?i = "incoming (publish_command 1 retain dup) (publish_body topic mid 1 payload) m"
  let ?x = "message_all_calloc\<lparr>ma_timestamp := e_now m, ma_dup := dup, ma_msg := received topic mid 1 retain payload\<rparr>"
  obtain p where d: "mosquitto_handle_publish app ?i = publish_deliver app (?i\<lparr>c_in_packet := p\<rparr>) ?x"
    using handle_publish_decode [of 1 retain dup topic mid payload ?i app] incoming_arrived assms by force
  have m: "?i\<lparr>c_in_packet := p\<rparr> = m\<lparr>c_in_packet := p\<rparr>" by (simp add: incoming_def)
  have h: "mosquitto_packet_handle app ?i = publish_deliver app (m\<lparr>c_in_packet := p\<rparr>) ?x"
    using publish_command_bits(1) [of 1 retain dup] d m by (simp add: mosquitto_packet_handle_def Let_def)
  have q: "m_qos (received topic mid 1 retain payload) = 1" "(of_int (m_mid (received topic mid 1 retain payload)) :: u16) = mid"
    by (simp_all add: received_def)
  show ?thesis using assms(1,2) q unfolding h publish_deliver_def
    by (auto simp: Let_def send_threaded intro!: exI [of _ p])
qed

text \<open>
  Messages that can be sent: a topic whose length fits, a payload of the recorded length, and a packet within the
  protocol's limit.
\<close>

definition payload_of :: "message \<Rightarrow> u8 list" where
  "payload_of msg = (case m_payload msg of None \<Rightarrow> [] | Some bs \<Rightarrow> bs)"

definition sendable :: "message \<Rightarrow> bool" where
  "sendable msg \<longleftrightarrow>
     (case m_topic msg of
        None \<Rightarrow> False
      | Some topic \<Rightarrow> length topic < 65536 \<and> m_payloadlen msg = int (length (payload_of msg))
          \<and> length (publish_body topic 0 (m_qos msg) (payload_of msg)) < 268435456)"

definition stored_publish :: "'u app \<Rightarrow> 'u mosq \<Rightarrow> message \<Rightarrow> bool \<Rightarrow> 'u res" where
  "stored_publish app m msg dup =
     mosquitto_send_publish app m (of_int (m_mid msg)) (m_topic msg) (of_int (m_payloadlen msg)) (m_payload msg)
       (m_qos msg) (m_retain msg) dup"

lemma stored_publish_sent:
  assumes "sendable msg" "c_threaded m" "c_sock m \<noteq> INVALID_SOCKET"
    and "fst (malloc_ok (e_allocs m))" "fst (malloc_ok (alloc_next (e_allocs m)))"
  shows "\<exists>p. stored_publish app m msg dup = Some (MOSQ_ERR_SUCCESS,
    m\<lparr>e_allocs := alloc_next (alloc_next (e_allocs m)), c_out_packet := c_out_packet m @ [p]\<rparr>)"
proof -
  obtain topic where t: "m_topic msg = Some topic" "length topic < 65536" "m_payloadlen msg = int (length (payload_of msg))"
    and b: "length (publish_body topic 0 (m_qos msg) (payload_of msg)) < 268435456"
    using assms(1) by (auto simp: sendable_def split: option.splits)
  have len: "length (publish_body topic mid (m_qos msg) (payload_of msg)) < 268435456" for mid
    using b by (cases "m_qos msg > 0") (auto simp: publish_body_def be16_def)
  have u: "unat (of_int (m_payloadlen msg) :: u32) = length (payload_of msg)"
    using b by (simp add: t(3) unat_u32 publish_body_def)
  have n: "mosquitto_send_real_publish app m mid topic (of_nat (length (payload_of msg))) (m_payload msg) qos retain dup =
      mosquitto_send_real_publish app m mid topic (of_nat (length (payload_of msg))) (Some (payload_of msg)) qos retain dup"
    for mid qos retain dup
    using send_real_publish_None by (cases "m_payload msg") (auto simp: payload_of_def)
  show ?thesis
    using send_real_publish_at [OF assms(4,5) _ u len, where app = app and retain = "m_retain msg" and dup = dup] assms(2,3) t
    by (auto simp: stored_publish_def mosquitto_send_publish_def n enqueue_def)
qed

lemma stored_publish_failed:
  assumes "sendable msg"
    and "c_sock m = INVALID_SOCKET \<or> \<not> fst (malloc_ok (e_allocs m)) \<or> \<not> fst (malloc_ok (alloc_next (e_allocs m)))"
  shows "\<exists>rc al. stored_publish app m msg dup = Some (rc, m\<lparr>e_allocs := al\<rparr>) \<and> rc \<noteq> 0"
proof (cases "c_sock m = INVALID_SOCKET")
  case True
  then show ?thesis using assms(1)
    by (intro exI [of _ MOSQ_ERR_NO_CONN] exI [of _ "e_allocs m"])
       (auto simp: stored_publish_def mosquitto_send_publish_def sendable_def split: option.splits)
next
  case False
  obtain topic where t: "m_topic msg = Some topic" "m_payloadlen msg = int (length (payload_of msg))"
    and b: "length (publish_body topic 0 (m_qos msg) (payload_of msg)) < 268435456"
    using assms(1) by (auto simp: sendable_def split: option.splits)
  have len: "length (publish_body topic mid (m_qos msg) (payload_of msg)) < 268435456" for mid
    using b by (cases "m_qos msg > 0") (auto simp: publish_body_def be16_def)
  have u: "unat (of_int (m_payloadlen msg) :: u32) = length (payload_of msg)"
    using b by (simp add: t(2) unat_u32 publish_body_def)
  obtain al where "mosquitto_send_real_publish app m (of_int (m_mid msg)) topic (of_int (m_payloadlen msg)) (m_payload msg)
      (m_qos msg) (m_retain msg) dup = Some (MOSQ_ERR_NOMEM, m\<lparr>e_allocs := al\<rparr>)"
    using send_real_publish_nomem [OF _ u len, where m = m and app = app] assms(2) False by blast
  then show ?thesis using False t(1) by (auto simp: stored_publish_def mosquitto_send_publish_def)
qed

text \<open>
  How many messages an acknowledgement lets the client send: those that wait, as far as the window has places. All of them go out
  when there is a socket and the allocator delivers two blocks for each.
\<close>

definition waits :: "message_all \<Rightarrow> bool" where
  "waits y \<longleftrightarrow> m_qos (ma_msg y) > 0 \<and> ma_state y = mosq_ms_invalid"

definition to_resend :: "'u mosq \<Rightarrow> message_all list \<Rightarrow> nat" where
  "to_resend m ys =
     (let n = length (filter waits ys)
      in if c_max_inflight_messages m = 0 then n else min n (nat (c_max_inflight_messages m - c_inflight_messages m)))"

definition resends_ok :: "'u mosq \<Rightarrow> nat \<Rightarrow> bool" where
  "resends_ok m n \<longleftrightarrow> n = 0 \<or> c_sock m \<noteq> INVALID_SOCKET \<and> list_all id (take (2 * n) (e_allocs m))"

lemma resends_ok_0 [simp]: "resends_ok m 0"
  by (simp add: resends_ok_def)

lemma resends_ok_Suc:
  "resends_ok m (Suc n) \<longleftrightarrow> c_sock m \<noteq> INVALID_SOCKET \<and> fst (malloc_ok (e_allocs m))
     \<and> fst (malloc_ok (alloc_next (e_allocs m))) \<and> resends_ok (m\<lparr>e_allocs := alloc_next (alloc_next (e_allocs m))\<rparr>) n"
proof (cases "e_allocs m")
  case (Cons b bs)
  then show ?thesis by (cases bs; cases n) (auto simp: resends_ok_def alloc_next_def)
qed (auto simp: resends_ok_def)

lemma resends_ok_cong:
  "\<lbrakk>c_sock m = c_sock m'; e_allocs m = e_allocs m'\<rbrakk> \<Longrightarrow> resends_ok m n = resends_ok m' n"
  by (simp add: resends_ok_def)

lemma resend_loop_waits:
  assumes "i < length (c_out_messages m)" "inflight_ok m" "waits (c_out_messages m ! i)"
  shows "\<exists>st. resend_loop app i (Suc k) m =
    do { (rc, m) \<leftarrow> stored_publish app (m\<lparr>c_inflight_messages := c_inflight_messages m + 1,
             c_out_messages := (c_out_messages m)[i := (c_out_messages m ! i)\<lparr>ma_state := st\<rparr>]\<rparr>)
           (ma_msg (c_out_messages m ! i)) (ma_dup (c_out_messages m ! i));
         if rc \<noteq> 0 then Some (rc, m\<lparr>c_out_message_mutex := False\<rparr>) else resend_loop app (i + 1) k m }"
proof -
  let ?x = "c_out_messages m ! i"
  obtain st where "(if m_qos (ma_msg ?x) = 1 then ?x\<lparr>ma_state := mosq_ms_wait_for_puback\<rparr>
      else if m_qos (ma_msg ?x) = 2 then ?x\<lparr>ma_state := mosq_ms_wait_for_pubrec\<rparr> else ?x) = ?x\<lparr>ma_state := st\<rparr>"
    by (cases "m_qos (ma_msg ?x) = 1"; cases "m_qos (ma_msg ?x) = 2") (auto intro: that [of "ma_state ?x"])
  then show ?thesis using assms by (auto simp: waits_def stored_publish_def Let_def intro!: exI [of _ st])
qed

lemma resend_loop_sent:
  assumes "i + k = length (c_out_messages m)" "list_all (\<lambda>y. sendable (ma_msg y)) (c_out_messages m)" "c_threaded m"
  shows "\<exists>rc outs al ps n. resend_loop app i k m = Some (rc, m\<lparr>c_out_messages := outs, e_allocs := al,
        c_out_packet := c_out_packet m @ ps, c_inflight_messages := n, c_out_message_mutex := False\<rparr>)
    \<and> map ma_msg outs = map ma_msg (c_out_messages m)
    \<and> (rc = 0 \<longleftrightarrow> resends_ok m (to_resend m (drop i (c_out_messages m))))"
  using assms
proof (induction k arbitrary: i m)
  case 0
  have "m\<lparr>c_out_message_mutex := False\<rparr> = m\<lparr>c_out_messages := c_out_messages m, e_allocs := e_allocs m,
      c_out_packet := c_out_packet m @ [], c_inflight_messages := c_inflight_messages m, c_out_message_mutex := False\<rparr>" by simp
  moreover have "resends_ok m (to_resend m (drop i (c_out_messages m)))" using 0 by (simp add: resends_ok_def to_resend_def)
  ultimately show ?case by (metis resend_loop.simps(1))
next
  case (Suc k)
  let ?xs = "c_out_messages m" and ?x = "c_out_messages m ! i"
  have i: "i < length ?xs" using Suc.prems(1) by simp
  have d: "drop i ?xs = ?x # drop (i + 1) ?xs" using i by (simp add: Cons_nth_drop_Suc)
  show ?case
  proof (cases "inflight_ok m \<and> waits ?x")
    case True
    let ?m1 = "\<lambda>st. m\<lparr>c_inflight_messages := c_inflight_messages m + 1, c_out_messages := ?xs[i := ?x\<lparr>ma_state := st\<rparr>]\<rparr>"
    obtain st where st: "resend_loop app i (Suc k) m =
        do { (rc, m) \<leftarrow> stored_publish app (?m1 st) (ma_msg ?x) (ma_dup ?x);
             if rc \<noteq> 0 then Some (rc, m\<lparr>c_out_message_mutex := False\<rparr>) else resend_loop app (i + 1) k m }"
      using resend_loop_waits [OF i, of app k] True by blast
    let ?m = "?m1 st"
    have s: "sendable (ma_msg ?x)" using Suc.prems(2) i by (simp add: list_all_length)
    have mm: "map ma_msg (?xs[i := ?x\<lparr>ma_state := st\<rparr>]) = map ma_msg ?xs"
      using i by (simp add: map_update list_update_same_conv)
    have r: "to_resend m (drop i ?xs) = Suc (to_resend ?m (drop (i + 1) ?xs))"
      using True by (auto simp: d to_resend_def Let_def inflight_ok_def min_def)
    show ?thesis
    proof (cases "c_sock m \<noteq> INVALID_SOCKET \<and> fst (malloc_ok (e_allocs m)) \<and> fst (malloc_ok (alloc_next (e_allocs m)))")
      case ok: True
      then obtain p where p: "stored_publish app ?m (ma_msg ?x) (ma_dup ?x) = Some (MOSQ_ERR_SUCCESS,
          ?m\<lparr>e_allocs := alloc_next (alloc_next (e_allocs m)), c_out_packet := c_out_packet m @ [p]\<rparr>)"
        using stored_publish_sent [OF s, of ?m app "ma_dup ?x"] Suc.prems(3) by auto
      let ?m2 = "?m\<lparr>e_allocs := alloc_next (alloc_next (e_allocs m)), c_out_packet := c_out_packet m @ [p]\<rparr>"
      have "list_all (\<lambda>y. sendable (ma_msg y)) (c_out_messages ?m2)"
        using Suc.prems(2) i s by (auto simp: list_all_length nth_list_update)
      then obtain rc outs al ps n where h: "resend_loop app (i + 1) k ?m2 = Some (rc, ?m2\<lparr>c_out_messages := outs, e_allocs := al,
            c_out_packet := c_out_packet ?m2 @ ps, c_inflight_messages := n, c_out_message_mutex := False\<rparr>)"
          "map ma_msg outs = map ma_msg (c_out_messages ?m2)"
          "rc = 0 \<longleftrightarrow> resends_ok ?m2 (to_resend ?m2 (drop (i + 1) (c_out_messages ?m2)))"
        using Suc.IH [of "i + 1" ?m2] Suc.prems by auto
      have "to_resend ?m2 (drop (i + 1) (c_out_messages ?m2)) = to_resend ?m (drop (i + 1) ?xs)"
        by (simp add: to_resend_def Let_def)
      then have "rc = 0 \<longleftrightarrow> resends_ok m (to_resend m (drop i ?xs))"
        using h(3) ok resends_ok_cong [of ?m2 "m\<lparr>e_allocs := alloc_next (alloc_next (e_allocs m))\<rparr>"]
        by (simp add: r resends_ok_Suc)
      then show ?thesis using h(1,2) st p mm
        by (intro exI [of _ rc] exI [of _ outs] exI [of _ al] exI [of _ "p # ps"] exI [of _ n]) simp
    next
      case False
      then obtain rc al where f: "stored_publish app ?m (ma_msg ?x) (ma_dup ?x) = Some (rc, ?m\<lparr>e_allocs := al\<rparr>)" "rc \<noteq> 0"
        using stored_publish_failed [OF s, of ?m app "ma_dup ?x"] by auto
      have "\<not> resends_ok m (to_resend m (drop i ?xs))" using False by (auto simp: r resends_ok_Suc)
      then show ?thesis using f st mm
        by (intro exI [of _ rc] exI [of _ "?xs[i := ?x\<lparr>ma_state := st\<rparr>]"] exI [of _ al] exI [of _ "[]"]
            exI [of _ "c_inflight_messages m + 1"]) simp
    qed
  next
    case no: False
    show ?thesis
    proof (cases "inflight_ok m")
      case True
      then have "resend_loop app i (Suc k) m = resend_loop app (i + 1) k m" using no i by (auto simp: waits_def Let_def)
      moreover have "to_resend m (drop i ?xs) = to_resend m (drop (i + 1) ?xs)" using no True by (simp add: d to_resend_def)
      ultimately show ?thesis using Suc.IH [of "i + 1" m] Suc.prems by simp
    next
      case False
      then have "to_resend m (drop i ?xs) = 0" by (auto simp: to_resend_def inflight_ok_def Let_def)
      then show ?thesis using False i
        by (intro exI [of _ 0] exI [of _ ?xs] exI [of _ "e_allocs m"] exI [of _ "[]"] exI [of _ "c_inflight_messages m"]) simp
    qed
  qed
qed

lemma acked:
  assumes "net_ready (m\<lparr>e_allocs := []\<rparr>)" "c_out_messages m = as @ x # bs" "m_mid (ma_msg x) = uint mid"
    and "\<forall>y \<in> set as. m_mid (ma_msg y) \<noteq> uint mid" "c AND 0xF0 \<in> {PUBACK, PUBCOMP}"
    and "list_all (\<lambda>y. sendable (ma_msg y)) (as @ bs)"
  defines "ok \<equiv> resends_ok m (to_resend (m\<lparr>c_inflight_messages := c_inflight_messages m - of_bool (m_qos (ma_msg x) > 0)\<rparr>) (as @ bs))"
  shows "\<exists>m'. mosquitto_packet_handle log_app (incoming c (be16 mid) m) = Some (MOSQ_ERR_SUCCESS, m')
    \<and> c_userdata m' = c_userdata m @ (if ok then [On_publish (uint mid)] else [])
    \<and> map ma_msg (c_out_messages m') = map ma_msg (as @ bs) \<and> msgs_ok m'"
proof -
  obtain p where p: "in_read_uint16 (incoming c (be16 mid) m) = Some (MOSQ_ERR_SUCCESS, mid, m\<lparr>c_in_packet := p\<rparr>)"
    using incoming_be16 by blast
  let ?m = "m\<lparr>c_in_packet := p\<rparr>"
  have ok: "msgs_ok ?m" using assms(1) by (simp add: net_ready_def msgs_ok_def)
  have sp: "split_mid (uint mid) (c_out_messages m) = Some (as, x, bs)"
    using split_mid_append assms(2-4) by simp
  define m1 where "m1 = (let m1 = ?m\<lparr>c_out_message_mutex := True, c_out_messages := as @ bs,
        c_out_queue_len := c_out_queue_len m - 1,
        c_out_messages_last := last_after_remove (c_out_messages_last m) as bs,
        c_in_messages_last := other_after_remove (c_in_messages_last m) as\<rparr>
      in if m_qos (ma_msg x) > 0 then m1\<lparr>c_inflight_messages := c_inflight_messages m1 - 1\<rparr> else m1)"
  have f: "c_on_publish m1" "\<not> c_callback_mutex m1" "\<not> c_in_callback m1" "c_userdata m1 = c_userdata m"
    "c_out_messages m1 = as @ bs" "c_threaded m1"
    using assms(1) by (auto simp: m1_def Let_def net_ready_def)
  obtain rc outs al ps n where r: "resend_loop log_app 0 (length (as @ bs)) m1 = Some (rc, m1\<lparr>c_out_messages := outs, e_allocs := al,
        c_out_packet := c_out_packet m1 @ ps, c_inflight_messages := n, c_out_message_mutex := False\<rparr>)"
      "map ma_msg outs = map ma_msg (as @ bs)" "rc = 0 \<longleftrightarrow> resends_ok m1 (to_resend m1 (as @ bs))"
    using resend_loop_sent [of 0 "length (as @ bs)" m1 log_app] f assms(6) by auto
  let ?m2 = "m1\<lparr>c_out_messages := outs, e_allocs := al,
        c_out_packet := c_out_packet m1 @ ps, c_inflight_messages := n, c_out_message_mutex := False\<rparr>"
  have k: "rc = 0 \<longleftrightarrow> ok" using r(3) by (simp add: ok_def m1_def resends_ok_def to_resend_def Let_def)
  have "mosquitto_message_remove log_app ?m mid mosq_md_out =
      do { (rc, m) \<leftarrow> resend_loop log_app 0 (length (c_out_messages m1)) m1; Some (rc, Some x, m) }"
    using sp ok by (simp add: mosquitto_message_remove_def msgs_ok_def m1_def Let_def)
  then have rem: "mosquitto_message_remove log_app ?m mid mosq_md_out = Some (rc, Some x, ?m2)" by (simp only: f(5) r(1)) simp
  have ok2: "msgs_ok ?m2" by (rule message_remove_ok [OF quiet_log_app ok rem])
  have h: "mosquitto_packet_handle log_app (incoming c (be16 mid) m) = mosquitto_handle_pubackcomp log_app (incoming c (be16 mid) m)"
    using assms(5) by (auto simp: mosquitto_packet_handle_def Let_def)
  show ?thesis unfolding h mosquitto_handle_pubackcomp_def mosquitto_message_delete_def
    using p rem f ok2 k r(2) callback_log [of ?m2 "On_publish (uint mid)"] by (auto simp: msgs_ok_def)
qed

lemma acked_unknown:
  assumes "msgs_ok m" "\<forall>y \<in> set (c_out_messages m). m_mid (ma_msg y) \<noteq> uint mid" "c AND 0xF0 \<in> {PUBACK, PUBCOMP}"
  shows "\<exists>m'. mosquitto_packet_handle log_app (incoming c (be16 mid) m) = Some (MOSQ_ERR_SUCCESS, m')
    \<and> c_userdata m' = c_userdata m \<and> c_out_messages m' = c_out_messages m"
proof -
  obtain p where p: "in_read_uint16 (incoming c (be16 mid) m) = Some (MOSQ_ERR_SUCCESS, mid, m\<lparr>c_in_packet := p\<rparr>)"
    using incoming_be16 by blast
  have h: "mosquitto_packet_handle log_app (incoming c (be16 mid) m) = mosquitto_handle_pubackcomp log_app (incoming c (be16 mid) m)"
    using assms(3) by (auto simp: mosquitto_packet_handle_def Let_def)
  have "split_mid (uint mid) (c_out_messages m) = None" using assms(2) by (simp add: split_mid_None)
  then show ?thesis unfolding h mosquitto_handle_pubackcomp_def mosquitto_message_delete_def
    using p assms(1) by (auto simp: mosquitto_message_remove_def msgs_ok_def)
qed

definition demo_threaded :: "cb_event list mosq" where
  "demo_threaded = demo_client\<lparr>c_threaded := True\<rparr>"

lemma demo_threaded_ready: "net_ready demo_threaded"
  by (simp add: demo_threaded_def demo_client_def mosq_calloc_def net_ready_def msgs_ok_def end_of_def)

lemma demo_threaded_sel:
  "c_in_messages demo_threaded = []" "c_userdata demo_threaded = []" "c_out_packet demo_threaded = []"
  by (simp_all add: demo_threaded_def demo_client_def mosq_calloc_def)

section \<open>Properties\<close>

text \<open>
  C5: a QoS 2 message reaches the application exactly once. The PUBLISH is stored and answered
  with PUBREC without a callback; the PUBREL for its id hands over the message that was
  published (topic, payload, retain flag), forgets it and answers with PUBCOMP; a repeated PUBREL is
  answered but hands over nothing.
\<close>
theorem qos2_exactly_once:
  assumes "net_ready m" "topic \<noteq> []" "NUL \<notin> set topic" "length topic < 65536"
    and "length (publish_body topic mid 2 payload) < 2 ^ 28"
    and "\<forall>y \<in> set (c_in_messages m). m_mid (ma_msg y) \<noteq> uint mid"
  shows "\<exists>m1 m2 m3.
      mosquitto_packet_handle log_app
        (incoming (publish_command 2 retain dup) (publish_body topic mid 2 payload) m) = Some (MOSQ_ERR_SUCCESS, m1)
    \<and> mosquitto_packet_handle log_app (incoming (PUBREL OR 2) (be16 mid) m1) = Some (MOSQ_ERR_SUCCESS, m2)
    \<and> mosquitto_packet_handle log_app (incoming (PUBREL OR 2) (be16 mid) m2) = Some (MOSQ_ERR_SUCCESS, m3)
    \<and> c_userdata m1 = c_userdata m
    \<and> c_userdata m2 = c_userdata m @ [On_message (received topic mid 2 retain payload)]
    \<and> c_userdata m3 = c_userdata m2 \<and> c_in_messages m3 = c_in_messages m
    \<and> c_out_packet m3 = c_out_packet m @ [ack PUBREC mid, ack PUBCOMP mid, ack PUBCOMP mid]"
proof -
  obtain m1 x where m1: "mosquitto_packet_handle log_app
      (incoming (publish_command 2 retain dup) (publish_body topic mid 2 payload) m) = Some (MOSQ_ERR_SUCCESS, m1)"
    "c_userdata m1 = c_userdata m" "c_in_messages m1 = c_in_messages m @ [x]"
    "ma_msg x = received topic mid 2 retain payload" "c_out_packet m1 = c_out_packet m @ [ack PUBREC mid]" "net_ready m1"
    using publish_qos2_stored [OF assms(1-3) _ assms(5), of retain dup] assms(4) by auto
  have "m_mid (ma_msg x) = uint mid" using m1(4) by (simp add: received_def)
  then obtain m2 where m2: "mosquitto_packet_handle log_app (incoming (PUBREL OR 2) (be16 mid) m1) = Some (MOSQ_ERR_SUCCESS, m2)"
    "c_userdata m2 = c_userdata m1 @ [On_message (ma_msg x)]" "c_in_messages m2 = c_in_messages m"
    "c_out_packet m2 = c_out_packet m1 @ [ack PUBCOMP mid]" "net_ready m2"
    using pubrel_found [of m1 "c_in_messages m" x "[]" mid] m1(3,6) assms(6) by auto
  then show ?thesis using m1 pubrel_not_found [of m2 mid] assms(6) by auto
qed

theorem qos2_exactly_once_witness:
  "\<exists>m1 m2 m3.
      mosquitto_packet_handle log_app
        (incoming (publish_command 2 False False) (publish_body ''t'' 5 2 [1]) demo_threaded) = Some (MOSQ_ERR_SUCCESS, m1)
    \<and> mosquitto_packet_handle log_app (incoming (PUBREL OR 2) (be16 5) m1) = Some (MOSQ_ERR_SUCCESS, m2)
    \<and> mosquitto_packet_handle log_app (incoming (PUBREL OR 2) (be16 5) m2) = Some (MOSQ_ERR_SUCCESS, m3)
    \<and> c_userdata m1 = [] \<and> c_userdata m3 = [On_message (received ''t'' 5 2 False [1])]"
  using qos2_exactly_once [of demo_threaded "''t''" 5 "[1]" False False] demo_threaded_ready
  by (auto simp: demo_threaded_sel publish_body_def)

text \<open>
  C34: the client does not recognise a retransmitted QoS 2 PUBLISH: it stores a second copy. The
  PUBREL hands over the first copy only, so the second one stays; when the broker later uses the
  id for a new message, its PUBREL hands over the old message again and the new one is not
  delivered.
\<close>
theorem qos2_retransmission_stale:
  assumes "net_ready m" "topic \<noteq> []" "NUL \<notin> set topic" "length topic < 65536"
    and "length (publish_body topic mid 2 payload) < 2 ^ 28" "length (publish_body topic mid 2 new) < 2 ^ 28"
    and "\<forall>y \<in> set (c_in_messages m). m_mid (ma_msg y) \<noteq> uint mid"
  shows "\<exists>m1 m2 m3 m4 m5.
      mosquitto_packet_handle log_app
        (incoming (publish_command 2 retain False) (publish_body topic mid 2 payload) m) = Some (MOSQ_ERR_SUCCESS, m1)
    \<and> mosquitto_packet_handle log_app
        (incoming (publish_command 2 retain True) (publish_body topic mid 2 payload) m1) = Some (MOSQ_ERR_SUCCESS, m2)
    \<and> mosquitto_packet_handle log_app (incoming (PUBREL OR 2) (be16 mid) m2) = Some (MOSQ_ERR_SUCCESS, m3)
    \<and> mosquitto_packet_handle log_app
        (incoming (publish_command 2 retain False) (publish_body topic mid 2 new) m3) = Some (MOSQ_ERR_SUCCESS, m4)
    \<and> mosquitto_packet_handle log_app (incoming (PUBREL OR 2) (be16 mid) m4) = Some (MOSQ_ERR_SUCCESS, m5)
    \<and> c_userdata m5 = c_userdata m @ [On_message (received topic mid 2 retain payload),
        On_message (received topic mid 2 retain payload)]
    \<and> map ma_msg (c_in_messages m5) = map ma_msg (c_in_messages m) @ [received topic mid 2 retain new]"
proof -
  note stored = publish_qos2_stored [OF _ assms(2,3) _ assms(5)] publish_qos2_stored [OF _ assms(2,3) _ assms(6)]
  have t: "length topic < 2 ^ 16" using assms(4) by simp
  obtain m1 x1 where m1: "mosquitto_packet_handle log_app
      (incoming (publish_command 2 retain False) (publish_body topic mid 2 payload) m) = Some (MOSQ_ERR_SUCCESS, m1)"
    "c_userdata m1 = c_userdata m" "c_in_messages m1 = c_in_messages m @ [x1]"
    "ma_msg x1 = received topic mid 2 retain payload" "net_ready m1"
    using stored(1) [OF assms(1) t, of retain False] by auto
  obtain m2 x2 where m2: "mosquitto_packet_handle log_app
      (incoming (publish_command 2 retain True) (publish_body topic mid 2 payload) m1) = Some (MOSQ_ERR_SUCCESS, m2)"
    "c_userdata m2 = c_userdata m" "c_in_messages m2 = c_in_messages m @ [x1, x2]"
    "ma_msg x2 = received topic mid 2 retain payload" "net_ready m2"
    using stored(1) [OF m1(5) t, of retain True] m1 by auto
  have mid: "m_mid (ma_msg x1) = uint mid" "m_mid (ma_msg x2) = uint mid" using m1(4) m2(4) by (simp_all add: received_def)
  obtain m3 where m3: "mosquitto_packet_handle log_app (incoming (PUBREL OR 2) (be16 mid) m2) = Some (MOSQ_ERR_SUCCESS, m3)"
    "c_userdata m3 = c_userdata m @ [On_message (ma_msg x1)]" "c_in_messages m3 = c_in_messages m @ [x2]" "net_ready m3"
    using pubrel_found [OF m2(5), of "c_in_messages m" x1 "[x2]" mid] m2 mid assms(7) by auto
  obtain m4 x3 where m4: "mosquitto_packet_handle log_app
      (incoming (publish_command 2 retain False) (publish_body topic mid 2 new) m3) = Some (MOSQ_ERR_SUCCESS, m4)"
    "c_userdata m4 = c_userdata m3" "c_in_messages m4 = c_in_messages m @ [x2, x3]"
    "ma_msg x3 = received topic mid 2 retain new" "net_ready m4"
    using stored(2) [OF m3(4) t, of retain False] m3 by auto
  obtain m5 where m5: "mosquitto_packet_handle log_app (incoming (PUBREL OR 2) (be16 mid) m4) = Some (MOSQ_ERR_SUCCESS, m5)"
    "c_userdata m5 = c_userdata m4 @ [On_message (ma_msg x2)]" "c_in_messages m5 = c_in_messages m @ [x3]"
    using pubrel_found [OF m4(5), of "c_in_messages m" x2 "[x3]" mid] m4 mid assms(7) by auto
  show ?thesis using m1 m2 m3 m4 m5 by auto
qed

theorem qos2_retransmission_stale_witness:
  "\<exists>m1 m2 m3 m4 m5.
      mosquitto_packet_handle log_app
        (incoming (publish_command 2 False False) (publish_body ''t'' 5 2 [1]) demo_threaded) = Some (MOSQ_ERR_SUCCESS, m1)
    \<and> mosquitto_packet_handle log_app
        (incoming (publish_command 2 False True) (publish_body ''t'' 5 2 [1]) m1) = Some (MOSQ_ERR_SUCCESS, m2)
    \<and> mosquitto_packet_handle log_app (incoming (PUBREL OR 2) (be16 5) m2) = Some (MOSQ_ERR_SUCCESS, m3)
    \<and> mosquitto_packet_handle log_app
        (incoming (publish_command 2 False False) (publish_body ''t'' 5 2 [2]) m3) = Some (MOSQ_ERR_SUCCESS, m4)
    \<and> mosquitto_packet_handle log_app (incoming (PUBREL OR 2) (be16 5) m4) = Some (MOSQ_ERR_SUCCESS, m5)
    \<and> c_userdata m5 = [On_message (received ''t'' 5 2 False [1]), On_message (received ''t'' 5 2 False [1])]"
  using qos2_retransmission_stale [of demo_threaded "''t''" 5 "[1]" "[2]" False] demo_threaded_ready
  by (auto simp: demo_threaded_sel publish_body_def)

text \<open>
  C19: messages of QoS 0 and 1 are handed to the application as they were published, QoS 1 with a
  PUBACK for its id.
\<close>
theorem qos01_delivered:
  assumes "net_ready m" "topic \<noteq> []" "NUL \<notin> set topic" "length topic < 65536" "qos \<in> {0, 1}"
    and "length (publish_body topic mid qos payload) < 2 ^ 28"
  shows "\<exists>m'. mosquitto_packet_handle log_app
      (incoming (publish_command qos retain dup) (publish_body topic mid qos payload) m) = Some (MOSQ_ERR_SUCCESS, m')
    \<and> c_userdata m' = c_userdata m @ [On_message (received topic mid qos retain payload)]
    \<and> c_out_packet m' = c_out_packet m @ (if qos = 1 then [ack PUBACK mid] else [])"
  using publish_qos01_delivered [OF assms(1-3) _ assms(5,6), of retain dup] assms(4) by auto

theorem qos01_delivered_witness:
  "\<exists>m'. mosquitto_packet_handle log_app
      (incoming (publish_command 1 True False) (publish_body ''t'' 5 1 [1, 2]) demo_threaded) = Some (MOSQ_ERR_SUCCESS, m')
    \<and> c_userdata m' = [On_message (received ''t'' 5 1 True [1, 2])] \<and> c_out_packet m' = [ack PUBACK 5]"
  using qos01_delivered [of demo_threaded "''t''" 1 5 "[1, 2]" True False] demo_threaded_ready
  by (auto simp: demo_threaded_sel publish_body_def)

text \<open>
  C18: the PUBACK or PUBCOMP of a message takes the message out of the list, and the application learns once that it has been
  acknowledged; a repeated acknowledgement changes nothing. There is one exception, described exactly. The place that became free
  lets the client send messages that wait for one; if one of these sends fails, because there is no socket or
  no memory, the acknowledged message is gone and the application never learns of it.
\<close>
theorem ack_reported_once:
  assumes "net_ready (m\<lparr>e_allocs := []\<rparr>)" "c_out_messages m = as @ x # bs" "m_mid (ma_msg x) = uint mid"
    and "\<forall>y \<in> set (as @ bs). m_mid (ma_msg y) \<noteq> uint mid" "c AND 0xF0 \<in> {PUBACK, PUBCOMP}"
    and "list_all (\<lambda>y. sendable (ma_msg y)) (as @ bs)"
  shows "\<exists>m1 m2. mosquitto_packet_handle log_app (incoming c (be16 mid) m) = Some (MOSQ_ERR_SUCCESS, m1)
    \<and> mosquitto_packet_handle log_app (incoming c (be16 mid) m1) = Some (MOSQ_ERR_SUCCESS, m2)
    \<and> c_userdata m1 = c_userdata m @
        (if resends_ok m (to_resend (m\<lparr>c_inflight_messages := c_inflight_messages m - of_bool (m_qos (ma_msg x) > 0)\<rparr>) (as @ bs))
         then [On_publish (uint mid)] else [])
    \<and> c_userdata m2 = c_userdata m1
    \<and> map ma_msg (c_out_messages m1) = map ma_msg (as @ bs) \<and> c_out_messages m2 = c_out_messages m1"
proof -
  obtain m1 where m1: "mosquitto_packet_handle log_app (incoming c (be16 mid) m) = Some (MOSQ_ERR_SUCCESS, m1)"
    "c_userdata m1 = c_userdata m @
        (if resends_ok m (to_resend (m\<lparr>c_inflight_messages := c_inflight_messages m - of_bool (m_qos (ma_msg x) > 0)\<rparr>) (as @ bs))
         then [On_publish (uint mid)] else [])"
    "map ma_msg (c_out_messages m1) = map ma_msg (as @ bs)" "msgs_ok m1"
    using acked [OF assms(1-3) _ assms(5,6)] assms(4) by auto
  have "m_mid z \<noteq> uint mid" if "z \<in> set (map ma_msg (c_out_messages m1))" for z
    using that assms(4) unfolding m1(3) by auto
  then have "\<forall>y \<in> set (c_out_messages m1). m_mid (ma_msg y) \<noteq> uint mid" by auto
  from acked_unknown [OF m1(4) this assms(5)] m1(1-3) show ?thesis by metis
qed

text \<open>
  A client with a window of one place: the message 5 is acknowledged while the message 6 waits. With memory for its packet both
  succeed; without, the application does not learn of the acknowledgement.
\<close>
definition demo_waiting :: "bool list \<Rightarrow> cb_event list mosq" where
  "demo_waiting al = demo_threaded\<lparr>e_allocs := al, c_max_inflight_messages := 1, c_inflight_messages := 1,
     c_out_messages := [message_all_calloc\<lparr>ma_state := mosq_ms_wait_for_puback,
         ma_msg := message_calloc\<lparr>m_mid := 5, m_qos := 1, m_topic := Some ''a''\<rparr>\<rparr>,
       message_all_calloc\<lparr>ma_state := mosq_ms_invalid,
         ma_msg := message_calloc\<lparr>m_mid := 6, m_qos := 1, m_topic := Some ''b''\<rparr>\<rparr>],
     c_out_messages_last := E_list, c_out_queue_len := 2\<rparr>"

theorem ack_reported_once_witness:
  "(\<exists>m1 m2. mosquitto_packet_handle log_app (incoming PUBACK (be16 5) (demo_waiting [])) = Some (MOSQ_ERR_SUCCESS, m1)
    \<and> mosquitto_packet_handle log_app (incoming PUBACK (be16 5) m1) = Some (MOSQ_ERR_SUCCESS, m2)
    \<and> c_userdata m1 = [On_publish 5] \<and> c_userdata m2 = [On_publish 5])
   \<and> (\<exists>m1 m2. mosquitto_packet_handle log_app (incoming PUBACK (be16 5) (demo_waiting [False])) = Some (MOSQ_ERR_SUCCESS, m1)
    \<and> mosquitto_packet_handle log_app (incoming PUBACK (be16 5) m1) = Some (MOSQ_ERR_SUCCESS, m2)
    \<and> c_userdata m1 = [] \<and> c_userdata m2 = [] \<and> length (c_out_messages m2) = 1)"
proof -
  let ?x = "message_all_calloc\<lparr>ma_state := mosq_ms_wait_for_puback,
      ma_msg := message_calloc\<lparr>m_mid := 5, m_qos := 1, m_topic := Some ''a''\<rparr>\<rparr>"
  let ?y = "message_all_calloc\<lparr>ma_state := mosq_ms_invalid, ma_msg := message_calloc\<lparr>m_mid := 6, m_qos := 1, m_topic := Some ''b''\<rparr>\<rparr>"
  have n: "net_ready ((demo_waiting al)\<lparr>e_allocs := []\<rparr>)" for al
    by (simp add: demo_waiting_def demo_threaded_def demo_client_def mosq_calloc_def net_ready_def msgs_ok_def end_of_def)
  have s: "sendable (ma_msg ?y)" "waits ?y"
    by (simp_all add: sendable_def payload_of_def publish_body_def waits_def message_calloc_def)
  have l: "length xs = 1" if "map ma_msg xs = [ma_msg ?y]" for xs using that by (metis length_map length_Cons list.size(3) One_nat_def)
  have k: "c_out_messages (demo_waiting al) = [?x, ?y]" "c_userdata (demo_waiting al) = []" "e_allocs (demo_waiting al) = al"
    "c_max_inflight_messages (demo_waiting al) = 1" "c_inflight_messages (demo_waiting al) = 1" "c_sock (demo_waiting al) \<noteq> INVALID_SOCKET"
    for al by (simp_all add: demo_waiting_def demo_threaded_def demo_client_def mosq_calloc_def)
  have u: "uint (5 :: u16) = 5" by simp
  show ?thesis
    using ack_reported_once [OF n, of "[]" "[]" ?x "[?y]" 5 PUBACK] ack_reported_once [OF n, of "[False]" "[]" ?x "[?y]" 5 PUBACK] s
    by (auto simp: k u resends_ok_def to_resend_def Let_def dest: l)
qed

end
