(* ===== verification/Read_Frame.thy ===== *)
theory Read_Frame
  imports Handlers
begin

text \<open>
  What reading does not touch. As \<open>io_core\<close> does for sending, the locale \<open>read_frame\<close> describes
  a part \<open>view\<close> of the client that the functions which receive and decode a packet leave alone.
\<close>

locale read_frame =
  fixes view :: "'u mosq \<Rightarrow> 'v"
  assumes rd [simp]:
    "view (m\<lparr>e_errno := x1\<rparr>) = view m" "view (m\<lparr>e_rx := x2\<rparr>) = view m" "view (m\<lparr>e_allocs := x3\<rparr>) = view m"
    "view (m\<lparr>c_in_packet := x4\<rparr>) = view m" "view (m\<lparr>c_last_msg_in := x5\<rparr>) = view m"
begin

lemma rd_alloc: "mosq_alloc m = (b, m') \<Longrightarrow> view m' = view m"
  by (auto simp: mosq_alloc_def split: prod.splits)

lemma rd_net_read: "mosquitto_net_read m n = (k, bs, m') \<Longrightarrow> view m' = view m"
  by (auto simp: mosquitto_net_read_def Let_def split: list.splits rx_event.splits if_splits)

lemma rd_read_command: "read_command m = (r, m') \<Longrightarrow> view m' = view m"
proof -
  assume "read_command m = (r, m')"
  moreover obtain n bs m1 where r: "mosquitto_net_read m 1 = (n, bs, m1)" by (metis prod_cases3)
  ultimately show "view m' = view m"
    using rd_net_read [OF r] by (auto simp: read_command_def r simp del: One_nat_def split: if_splits)
qed

lemma rd_read_remaining_loop: "read_remaining_loop m = (r, m') \<Longrightarrow> view m' = view m"
proof (induction m arbitrary: r m' rule: read_remaining_loop.induct)
  case (1 m)
  obtain n bs m1 where r: "mosquitto_net_read m 1 = (n, bs, m1)" by (metis prod_cases3)
  note ih = "1.IH" [OF r [symmetric] refl refl _ refl refl refl _ refl refl]
  show ?case
  proof (cases "n = 1")
    case False
    then show ?thesis using "1.prems" rd_net_read [OF r]
      by (subst (asm) read_remaining_loop.simps) (auto simp: r simp del: One_nat_def split: if_splits)
  next
    case True
    then show ?thesis using "1.prems" ih [OF True] rd_net_read [OF r]
      by (subst (asm) read_remaining_loop.simps)
         (fastforce simp: r Let_def simp del: One_nat_def split: if_splits)
  qed
qed

lemma rd_read_remaining: "read_remaining m = (r, m') \<Longrightarrow> view m' = view m"
proof -
  assume a: "read_remaining m = (r, m')"
  obtain r1 m1 where l: "read_remaining_loop m = (r1, m1)" by fastforce
  obtain b m2 where al: "mosq_alloc m1 = (b, m2)" by fastforce
  show ?thesis using a rd_read_remaining_loop [OF l] rd_alloc [OF al]
    by (auto simp: read_remaining_def l al Let_def split: if_splits option.splits bool.splits)
qed

lemma rd_read_payload_loop: "read_payload_loop m = Some (r, m') \<Longrightarrow> view m' = view m"
proof (induction m arbitrary: r m' rule: read_payload_loop.induct)
  case (1 m)
  show ?case
  proof (cases "pk_to_process (c_in_packet m) > 0")
    case True
    obtain n bs m1 where r: "mosquitto_net_read m (unat (pk_to_process (c_in_packet m))) = (n, bs, m1)"
      by (metis prod_cases3)
    obtain buf where b: "pk_payload (c_in_packet m) = Some buf"
      "\<not> unat (pk_pos (c_in_packet m)) + unat (pk_to_process (c_in_packet m)) > length buf"
      using "1.prems" True by (subst (asm) read_payload_loop.simps) (auto simp: Let_def split: option.splits if_splits)
    show ?thesis
      using "1.prems" "1.IH" [OF refl True b r [symmetric] refl] rd_net_read [OF r] True b
      by (subst (asm) read_payload_loop.simps) (auto simp: r Let_def split: if_splits)
  qed (use "1.prems" in \<open>simp add: read_payload_loop.simps [of m]\<close>)
qed

lemma rd_packet_read_in:
  assumes "packet_read_in m = Some (r, m')"
  shows "view m' = view m"
proof -
  obtain r1 m1 where c: "read_command m = (r1, m1)" by fastforce
  obtain r2 m2 where l: "read_remaining m1 = (r2, m2)" by fastforce
  show ?thesis
    using assms rd_read_command [OF c] rd_read_remaining [OF l] rd_read_payload_loop [of m2 r m']
    by (auto simp: packet_read_in_def c l split: option.splits)
qed

lemma rd_in_read:
  "in_read_uint16 m = Some (rc, w, m') \<Longrightarrow> view m' = view m"
  "in_read_byte m = Some (rc, b, m') \<Longrightarrow> view m' = view m"
  by (auto simp: in_read_uint16_def in_read_byte_def split: bind_splits)

lemma rd_granted: "granted_loop m g = Some (rc, g', m') \<Longrightarrow> view m' = view m"
proof (induction m g rule: granted_loop.induct)
  case (1 m g)
  show ?case
  proof (cases "pk_pos (c_in_packet m) < pk_remaining_length (c_in_packet m)")
    case True
    then obtain rc1 q m1 where r: "in_read_byte m = Some (rc1, q, m1)"
      using "1.prems"(1) by (cases "in_read_byte m") (auto simp: granted_loop.simps [of m g])
    then show ?thesis using 1 True rd_in_read(2) [OF r]
      by (cases "rc1 = 0") (auto simp: granted_loop.simps [of m g])
  qed (use "1.prems" in \<open>simp add: granted_loop.simps [of m g]\<close>)
qed

lemma rd_payload: "publish_read_payload m msg = Some (rc, msg', m') \<Longrightarrow> view m' = view m"
  by (auto simp: publish_read_payload_def Let_def dest: rd_alloc split: if_splits bind_splits prod.splits bool.splits)

text \<open>Up to the delivery of the message, the handler of PUBLISH only reads.\<close>

lemma rd_handle_publish:
  assumes "mosquitto_handle_publish app m = Some (rc, m')"
  shows "view m' = view m \<or> (\<exists>m1 x. view m1 = view m \<and> publish_deliver app m1 x = Some (rc, m'))"
proof -
  obtain b m1 where al: "mosq_alloc m = (b, m1)" by fastforce
  note v1 = rd_alloc [OF al]
  show ?thesis
  proof (cases b)
    case False
    then show ?thesis using assms al v1 by (simp add: mosquitto_handle_publish_def)
  next
    case True
    obtain rc1 bs p al1 where s: "mosquitto_read_string (c_in_packet m1) (e_allocs m1) = Some (rc1, bs, p, al1)"
      using assms al True by (cases "mosquitto_read_string (c_in_packet m1) (e_allocs m1)") (auto simp: mosquitto_handle_publish_def Let_def)
    define m2 where "m2 = m1\<lparr>c_in_packet := p, e_allocs := al1\<rparr>"
    have v2: "view m2 = view m" using v1 by (simp add: m2_def)
    have al': "mosq_alloc m = (True, m1)" using al True by simp
    show ?thesis
      using assms v2
      unfolding mosquitto_handle_publish_def al' prod.case bool.case Let_def s bind.bind_lunit m2_def [symmetric]
      by (auto split: if_split_asm bind_split_asm dest!: rd_in_read(1) rd_payload)
  qed
qed

end

end
