(* ===== verification/Client.thy ===== *)
theory Client
  imports Read_Frame
begin

text \<open>
  The interface of the library, \<open>mosquitto/lib/mosquitto.c\<close>, with the keepalive check of
  \<open>util_mosq.c\<close> and \<open>mosquitto_loop_start\<close> of \<open>thread_mosq.c\<close>. A \<open>struct mosquitto *\<close> that the code
  compares with NULL is an option. Freshly created clients take their environment from the
  argument \<open>w\<close>. \<open>getaddrinfo\<close>, \<open>socket\<close> and \<open>connect\<close> are the environment's: each attempt takes the
  next entry of \<open>e_connects\<close>. The pipe that wakes the network thread has no effect on the state.
\<close>

section \<open>Creating a client\<close>

text \<open>\<open>memset\<close> of the structure: everything but the environment is zero.\<close>

definition mosq_memset :: "'u mosq \<Rightarrow> 'u \<Rightarrow> 'u mosq" where
  "mosq_memset w u = (mosq_calloc u)\<lparr>e_now := e_now w, e_allocs := e_allocs w, e_junk := e_junk w,
     e_errno := e_errno w, e_rx := e_rx w, e_wr := e_wr w, e_tx := e_tx w, e_connects := e_connects w\<rparr>"

definition random_id :: "(nat \<Rightarrow> nat) \<Rightarrow> string" where
  "random_id rand = ''mosq/'' @ map (\<lambda>i. char_of (rand i mod 73 + 48)) [5..<23]"

text \<open>
  \<open>mosquitto_destroy\<close> frees the structure. \<open>_mosquitto_destroy\<close> leaves this behind: the lists are
  freed, and the pointers that the code does not clear are never read again.
\<close>

definition mosquitto_destroy_int :: "'u mosq \<Rightarrow> 'u mosq" where
  "mosquitto_destroy_int m =
     (let m = m\<lparr>c_threaded := False\<rparr>;
          m = mosquitto_socket_close m;
          m = mosquitto_message_cleanup_all m;
          (_, m) = mosquitto_will_clear_int m
      in m\<lparr>c_id := None, c_username := None, c_password := None, c_host := None, c_bind_address := None,
           c_current_out_packet := None, c_out_packet := [],
           c_in_packet := mosquitto_packet_cleanup (c_in_packet m)\<rparr>)"

definition mosquitto_reinitialise ::
    "(nat \<Rightarrow> nat) \<Rightarrow> 'u mosq option \<Rightarrow> string option \<Rightarrow> bool \<Rightarrow> 'u \<Rightarrow> int \<times> 'u mosq option" where
  "mosquitto_reinitialise rand mosq cid clean_session userdata =
     (case mosq of
        None \<Rightarrow> (MOSQ_ERR_INVAL, None)
      | Some m \<Rightarrow>
          if \<not> clean_session \<and> cid = None then (MOSQ_ERR_INVAL, Some m)
          else
            (let m = mosquitto_destroy_int m;
                 m = (mosq_memset m userdata)\<lparr>c_sock := INVALID_SOCKET, c_keepalive := 60, c_message_retry := 20,
                       c_last_retry_check := 0, c_clean_session := clean_session\<rparr>;
                 rest = (\<lambda>m. (MOSQ_ERR_SUCCESS,
                   Some (m\<lparr>c_in_packet := mosquitto_packet_cleanup ((c_in_packet m)\<lparr>pk_payload := None\<rparr>),
                     c_last_msg_in := e_now m, c_last_msg_out := e_now m, c_max_inflight_messages := 20,
                     c_port := 1883\<rparr>)))
             in case cid of
                  Some s \<Rightarrow>
                    if s = [] then (MOSQ_ERR_INVAL, Some m)
                    else (case mosq_alloc m of (b, m) \<Rightarrow> rest (m\<lparr>c_id := (if b then Some s else None)\<rparr>))
                | None \<Rightarrow>
                    (case mosq_alloc m of
                       (False, m) \<Rightarrow> (MOSQ_ERR_NOMEM, Some m)
                     | (True, m) \<Rightarrow> rest (m\<lparr>c_id := Some (random_id rand)\<rparr>))))"

text \<open>The first component is \<open>errno\<close> when the call fails.\<close>

definition mosquitto_new ::
    "(nat \<Rightarrow> nat) \<Rightarrow> 'u mosq \<Rightarrow> string option \<Rightarrow> bool \<Rightarrow> 'u \<Rightarrow> int \<times> 'u mosq option" where
  "mosquitto_new rand w cid clean_session userdata =
     (if \<not> clean_session \<and> cid = None then (EINVAL, None)
      else
        (case mosq_alloc w of
           (False, w) \<Rightarrow> (ENOMEM, None)
         | (True, w) \<Rightarrow>
             (case mosquitto_reinitialise rand (Some (mosq_memset w userdata)) cid clean_session userdata of
                (rc, m) \<Rightarrow>
                  if rc = 0 then (e_errno w, m)
                  else if rc = MOSQ_ERR_INVAL then (EINVAL, None)
                  else if rc = MOSQ_ERR_NOMEM then (ENOMEM, None) else (e_errno w, None))))"

definition mosquitto_will_set ::
    "'u mosq option \<Rightarrow> string option \<Rightarrow> int \<Rightarrow> u8 list option \<Rightarrow> int \<Rightarrow> bool \<Rightarrow> (int \<times> 'u mosq option) option" where
  "mosquitto_will_set mosq topic payloadlen payload qos retain =
     (case mosq of
        None \<Rightarrow> Some (MOSQ_ERR_INVAL, None)
      | Some m \<Rightarrow>
          do { (rc, m) \<leftarrow> mosquitto_will_set_int m topic payloadlen payload qos retain; Some (rc, Some m) })"

definition mosquitto_will_clear :: "'u mosq option \<Rightarrow> int \<times> 'u mosq option" where
  "mosquitto_will_clear mosq =
     (case mosq of
        None \<Rightarrow> (MOSQ_ERR_INVAL, None)
      | Some m \<Rightarrow> (case mosquitto_will_clear_int m of (rc, m) \<Rightarrow> (rc, Some m)))"

definition mosquitto_username_pw_set ::
    "'u mosq option \<Rightarrow> string option \<Rightarrow> string option \<Rightarrow> int \<times> 'u mosq option" where
  "mosquitto_username_pw_set mosq username password =
     (case mosq of
        None \<Rightarrow> (MOSQ_ERR_INVAL, None)
      | Some m \<Rightarrow>
          (let m = m\<lparr>c_username := None, c_password := None\<rparr> in
           case username of
             None \<Rightarrow> (MOSQ_ERR_SUCCESS, Some m)
           | Some u \<Rightarrow>
               (case mosq_alloc m of
                  (False, m) \<Rightarrow> (MOSQ_ERR_NOMEM, Some m)
                | (True, m) \<Rightarrow>
                    (case password of
                       None \<Rightarrow> (MOSQ_ERR_SUCCESS, Some (m\<lparr>c_username := Some u\<rparr>))
                     | Some p \<Rightarrow>
                         (case mosq_alloc m of
                            (False, m) \<Rightarrow> (MOSQ_ERR_NOMEM, Some m)
                          | (True, m) \<Rightarrow>
                              (MOSQ_ERR_SUCCESS, Some (m\<lparr>c_username := Some u, c_password := Some p\<rparr>)))))))"

section \<open>Connecting\<close>

text \<open>
  The old bind address is freed and only replaced when a new one is given, so that without one
  the following use of the pointer is undefined.
\<close>

definition mosquitto_connect_init ::
    "'u mosq option \<Rightarrow> string option \<Rightarrow> int \<Rightarrow> int \<Rightarrow> string option \<Rightarrow> (int \<times> 'u mosq option) option" where
  "mosquitto_connect_init mosq host port keepalive bind_address =
     (case mosq of
        None \<Rightarrow> Some (MOSQ_ERR_INVAL, None)
      | Some m \<Rightarrow>
          if host = None \<or> port \<le> 0 then Some (MOSQ_ERR_INVAL, Some m)
          else
            (case mosq_alloc m of
               (False, m) \<Rightarrow> Some (MOSQ_ERR_NOMEM, Some (m\<lparr>c_host := None\<rparr>))
             | (True, m) \<Rightarrow>
                 (let m = m\<lparr>c_host := host, c_port := port\<rparr> in
                  case bind_address of
                    None \<Rightarrow>
                      if c_bind_address m \<noteq> None then None
                      else Some (MOSQ_ERR_SUCCESS, Some (m\<lparr>c_keepalive := of_int keepalive\<rparr>))
                  | Some b \<Rightarrow>
                      (case mosq_alloc m of
                         (False, m) \<Rightarrow> Some (MOSQ_ERR_NOMEM, Some (m\<lparr>c_bind_address := None\<rparr>))
                       | (True, m) \<Rightarrow>
                           Some (MOSQ_ERR_SUCCESS, Some (m\<lparr>c_bind_address := Some b, c_keepalive := of_int keepalive\<rparr>))))))"

text \<open>\<open>_mosquitto_socket_connect\<close> without TLS; the attempt itself is the environment's.\<close>

definition mosquitto_socket_connect :: "'u mosq \<Rightarrow> string option \<Rightarrow> u16 \<Rightarrow> int \<times> 'u mosq" where
  "mosquitto_socket_connect m host port =
     (if host = None \<or> port = 0 then (MOSQ_ERR_INVAL, m)
      else
        (case e_connects m of
           [] \<Rightarrow> (MOSQ_ERR_ERRNO, m)
         | (rc, s) # r \<Rightarrow>
             if rc \<noteq> MOSQ_ERR_SUCCESS then (rc, m\<lparr>e_connects := r\<rparr>)
             else (MOSQ_ERR_SUCCESS, m\<lparr>e_connects := r, c_sock := s\<rparr>)))"

definition mosquitto_reconnect_int :: "'u app \<Rightarrow> 'u mosq \<Rightarrow> 'u res" where
  "mosquitto_reconnect_int app m =
     (if c_host m = None \<or> c_port m \<le> 0 then Some (MOSQ_ERR_INVAL, m)
      else if c_current_out_packet_mutex m then None
      else
        do {
          let m = m\<lparr>c_state := mosq_cs_new, c_last_msg_in := e_now m, c_last_msg_out := e_now m, c_ping_t := 0,
                     c_in_packet := mosquitto_packet_cleanup (c_in_packet m),
                     c_current_out_packet := None, c_out_packet := []\<rparr>;
          m \<leftarrow> mosquitto_messages_reconnect_reset m;
          (case mosquitto_socket_connect m (c_host m) (of_int (c_port m)) of (rc, m) \<Rightarrow>
             if rc \<noteq> 0 then Some (rc, m)
             else mosquitto_send_connect app m (c_keepalive m) (c_clean_session m))
        })"

definition mosquitto_reconnect :: "'u app \<Rightarrow> 'u mosq option \<Rightarrow> (int \<times> 'u mosq option) option" where
  "mosquitto_reconnect app mosq =
     (case mosq of
        None \<Rightarrow> Some (MOSQ_ERR_INVAL, None)
      | Some m \<Rightarrow> do { (rc, m) \<leftarrow> mosquitto_reconnect_int app m; Some (rc, Some m) })"

definition mosquitto_connect_bind ::
    "'u app \<Rightarrow> 'u mosq option \<Rightarrow> string option \<Rightarrow> int \<Rightarrow> int \<Rightarrow> string option \<Rightarrow> (int \<times> 'u mosq option) option" where
  "mosquitto_connect_bind app mosq host port keepalive bind_address =
     do {
       (rc, mosq) \<leftarrow> mosquitto_connect_init mosq host port keepalive bind_address;
       if rc \<noteq> 0 then Some (rc, mosq)
       else
         (case mosq of
            None \<Rightarrow> None
          | Some m \<Rightarrow> mosquitto_reconnect app (Some (m\<lparr>c_state := mosq_cs_new\<rparr>)))
     }"

definition mosquitto_connect ::
    "'u app \<Rightarrow> 'u mosq option \<Rightarrow> string option \<Rightarrow> int \<Rightarrow> int \<Rightarrow> (int \<times> 'u mosq option) option" where
  "mosquitto_connect app mosq host port keepalive = mosquitto_connect_bind app mosq host port keepalive None"

definition mosquitto_disconnect :: "'u app \<Rightarrow> 'u mosq option \<Rightarrow> (int \<times> 'u mosq option) option" where
  "mosquitto_disconnect app mosq =
     (case mosq of
        None \<Rightarrow> Some (MOSQ_ERR_INVAL, None)
      | Some m \<Rightarrow>
          (let m = m\<lparr>c_state := mosq_cs_disconnecting\<rparr> in
           if c_sock m = INVALID_SOCKET then Some (MOSQ_ERR_NO_CONN, Some m)
           else do { (rc, m) \<leftarrow> mosquitto_send_disconnect app m; Some (rc, Some m) }))"

section \<open>Publishing and subscribing\<close>

text \<open>
  The middle component of the results is the message id the call stores through \<open>mid\<close>. A message
  of QoS 1 or 2 gets its state right after it was queued, with the mutex of the list held.
\<close>

definition publish_queued ::
    "'u app \<Rightarrow> 'u mosq \<Rightarrow> u16 \<Rightarrow> string \<Rightarrow> int \<Rightarrow> u8 list option \<Rightarrow> int \<Rightarrow> bool \<Rightarrow> 'u res" where
  "publish_queued app m mid topic payloadlen payload qos retain =
     (if c_out_message_mutex m then None
      else
        do {
          let msg = \<lparr>m_mid = uint mid, m_topic = Some topic, m_payload = payload, m_payloadlen = payloadlen,
                      m_qos = qos, m_retain = retain\<rparr>;
          let st = (if \<not> inflight_ok m then mosq_ms_invalid
                    else if qos = 1 then mosq_ms_wait_for_puback
                    else if qos = 2 then mosq_ms_wait_for_pubrec else mosq_ms_invalid);
          let message = \<lparr>ma_timestamp = e_now m, ma_state = st, ma_dup = False, ma_msg = msg\<rparr>;
          m' \<leftarrow> mosquitto_message_queue m message mosq_md_out;
          if inflight_ok m
          then mosquitto_send_publish app (m'\<lparr>c_inflight_messages := c_inflight_messages m' + 1\<rparr>) mid (Some topic)
                 (of_int payloadlen) payload qos retain False
          else Some (MOSQ_ERR_SUCCESS, m')
        })"

definition mosquitto_publish ::
    "'u app \<Rightarrow> 'u mosq option \<Rightarrow> string option \<Rightarrow> int \<Rightarrow> u8 list option \<Rightarrow> int \<Rightarrow> bool
      \<Rightarrow> (int \<times> u16 option \<times> 'u mosq option) option" where
  "mosquitto_publish app mosq topic payloadlen payload qos retain =
     (case mosq of
        None \<Rightarrow> Some (MOSQ_ERR_INVAL, None, None)
      | Some m \<Rightarrow>
          (case topic of
             None \<Rightarrow> Some (MOSQ_ERR_INVAL, None, Some m)
           | Some t \<Rightarrow>
               if qos < 0 \<or> qos > 2 then Some (MOSQ_ERR_INVAL, None, Some m)
               else if t = [] then Some (MOSQ_ERR_INVAL, None, Some m)
               else if payloadlen < 0 \<or> payloadlen > MQTT_MAX_PAYLOAD then Some (MOSQ_ERR_PAYLOAD_SIZE, None, Some m)
               else if mosquitto_topic_wildcard_len_check topic \<noteq> MOSQ_ERR_SUCCESS then Some (MOSQ_ERR_INVAL, None, Some m)
               else
                 (case mosquitto_mid_generate m of (local_mid, m) \<Rightarrow>
                    if qos = 0 then
                      do {
                        (rc, m) \<leftarrow> mosquitto_send_publish app m local_mid topic (of_int payloadlen) payload qos retain False;
                        Some (rc, Some local_mid, Some m)
                      }
                    else
                      (case mosq_alloc m of
                         (False, m) \<Rightarrow> Some (MOSQ_ERR_NOMEM, Some local_mid, Some m)
                       | (True, m) \<Rightarrow>
                           (case mosq_alloc m of
                              (False, m) \<Rightarrow> Some (MOSQ_ERR_NOMEM, Some local_mid, Some m)
                            | (True, m) \<Rightarrow>
                                if payloadlen \<noteq> 0 then
                                  (case mosq_alloc m of
                                     (False, m) \<Rightarrow> Some (MOSQ_ERR_NOMEM, Some local_mid, Some m)
                                   | (True, m) \<Rightarrow>
                                       (case payload of
                                          None \<Rightarrow> None
                                        | Some bs \<Rightarrow>
                                            if nat payloadlen > length bs then None
                                            else
                                              do {
                                                (rc, m) \<leftarrow> publish_queued app m local_mid t payloadlen
                                                  (Some (take (nat payloadlen) bs)) qos retain;
                                                Some (rc, Some local_mid, Some m)
                                              }))
                                else
                                  do {
                                    (rc, m) \<leftarrow> publish_queued app m local_mid t 0 None qos retain;
                                    Some (rc, Some local_mid, Some m)
                                  })))))"

definition mosquitto_subscribe ::
    "'u app \<Rightarrow> 'u mosq option \<Rightarrow> string option \<Rightarrow> int \<Rightarrow> (int \<times> u16 option \<times> 'u mosq option) option" where
  "mosquitto_subscribe app mosq sub qos =
     (case mosq of
        None \<Rightarrow> Some (MOSQ_ERR_INVAL, None, None)
      | Some m \<Rightarrow>
          if c_sock m = INVALID_SOCKET then Some (MOSQ_ERR_NO_CONN, None, Some m)
          else if mosquitto_topic_wildcard_pos_check sub \<noteq> 0 then Some (MOSQ_ERR_INVAL, None, Some m)
          else
            do { (rc, mid, m) \<leftarrow> mosquitto_send_subscribe app m False sub (of_int qos); Some (rc, mid, Some m) })"

definition mosquitto_unsubscribe ::
    "'u app \<Rightarrow> 'u mosq option \<Rightarrow> string option \<Rightarrow> (int \<times> u16 option \<times> 'u mosq option) option" where
  "mosquitto_unsubscribe app mosq sub =
     (case mosq of
        None \<Rightarrow> Some (MOSQ_ERR_INVAL, None, None)
      | Some m \<Rightarrow>
          if c_sock m = INVALID_SOCKET then Some (MOSQ_ERR_NO_CONN, None, Some m)
          else if mosquitto_topic_wildcard_pos_check sub \<noteq> 0 then Some (MOSQ_ERR_INVAL, None, Some m)
          else
            do { (rc, mid, m) \<leftarrow> mosquitto_send_unsubscribe app m False sub; Some (rc, mid, Some m) })"

section \<open>The network loop\<close>

definition mosquitto_check_keepalive :: "'u app \<Rightarrow> 'u mosq \<Rightarrow> 'u mosq option" where
  "mosquitto_check_keepalive app m =
     (let now = e_now m in
      if c_keepalive m \<noteq> 0 \<and> c_sock m \<noteq> INVALID_SOCKET \<and>
         (now - c_last_msg_out m \<ge> uint (c_keepalive m) \<or> now - c_last_msg_in m \<ge> uint (c_keepalive m))
      then
        if c_state m = mosq_cs_connected \<and> c_ping_t m = 0 then
          do {
            (rc, m) \<leftarrow> mosquitto_send_pingreq app m;
            Some (m\<lparr>c_last_msg_in := now, c_last_msg_out := now\<rparr>)
          }
        else
          (let m = mosquitto_socket_close m;
               rc = (if c_state m = mosq_cs_disconnecting then MOSQ_ERR_SUCCESS else 1)
           in callback app (On_disconnect rc) m)
      else Some m)"

definition mosquitto_loop_misc :: "'u app \<Rightarrow> 'u mosq option \<Rightarrow> (int \<times> 'u mosq option) option" where
  "mosquitto_loop_misc app mosq =
     (case mosq of
        None \<Rightarrow> Some (MOSQ_ERR_INVAL, None)
      | Some m \<Rightarrow>
          if c_sock m = INVALID_SOCKET then Some (MOSQ_ERR_NO_CONN, Some m)
          else
            do {
              let now = e_now m;
              m \<leftarrow> mosquitto_check_keepalive app m;
              m \<leftarrow> (if c_last_retry_check m + 1 < now
                    then do { m \<leftarrow> mosquitto_message_retry_check app m; Some (m\<lparr>c_last_retry_check := now\<rparr>) }
                    else Some m);
              if c_ping_t m \<noteq> 0 \<and> now - c_ping_t m \<ge> uint (c_keepalive m) then
                do {
                  let m = mosquitto_socket_close m;
                  let rc = (if c_state m = mosq_cs_disconnecting then MOSQ_ERR_SUCCESS else 1);
                  m \<leftarrow> callback app (On_disconnect rc) m;
                  Some (MOSQ_ERR_CONN_LOST, Some m)
                }
              else Some (MOSQ_ERR_SUCCESS, Some m)
            })"

definition mosquitto_loop_rc_handle :: "'u app \<Rightarrow> 'u mosq \<Rightarrow> int \<Rightarrow> 'u res" where
  "mosquitto_loop_rc_handle app m rc =
     (if rc \<noteq> 0 then
        do {
          let m = mosquitto_socket_close m;
          let rc = (if c_state m = mosq_cs_disconnecting then MOSQ_ERR_SUCCESS else rc);
          m \<leftarrow> callback app (On_disconnect rc) m;
          Some (rc, m)
        }
      else Some (rc, m))"

text \<open>The number of rounds a loop makes: the messages that wait for processing, at least one.\<close>

definition loop_rounds :: "'u mosq \<Rightarrow> nat" where
  "loop_rounds m = (let n = c_out_queue_len m + c_in_queue_len m in if n < 1 then 1 else nat n)"

fun loop_read_rounds :: "'u app \<Rightarrow> nat \<Rightarrow> int \<Rightarrow> 'u mosq \<Rightarrow> 'u res" where
  "loop_read_rounds app 0 rc m = Some (rc, m)"
| "loop_read_rounds app (Suc k) rc m =
     do {
       (rc, m) \<leftarrow> mosquitto_packet_read app m;
       if rc \<noteq> 0 \<or> e_errno m = EAGAIN then mosquitto_loop_rc_handle app m rc
       else loop_read_rounds app k rc m
     }"

definition mosquitto_loop_read :: "'u app \<Rightarrow> 'u mosq \<Rightarrow> int \<Rightarrow> 'u res" where
  "mosquitto_loop_read app m max_packets =
     (if max_packets < 1 then Some (MOSQ_ERR_INVAL, m)
      else if c_out_message_mutex m \<or> c_in_message_mutex m then None
      else loop_read_rounds app (loop_rounds m) 0 m)"

fun loop_write_rounds :: "'u app \<Rightarrow> nat \<Rightarrow> int \<Rightarrow> 'u mosq \<Rightarrow> 'u res" where
  "loop_write_rounds app 0 rc m = Some (rc, m)"
| "loop_write_rounds app (Suc k) rc m =
     do {
       (rc, m) \<leftarrow> mosquitto_packet_write app m;
       if rc \<noteq> 0 \<or> e_errno m = EAGAIN then mosquitto_loop_rc_handle app m rc
       else loop_write_rounds app k rc m
     }"

definition mosquitto_loop_write :: "'u app \<Rightarrow> 'u mosq \<Rightarrow> int \<Rightarrow> 'u res" where
  "mosquitto_loop_write app m max_packets =
     (if max_packets < 1 then Some (MOSQ_ERR_INVAL, m)
      else if c_out_message_mutex m \<or> c_in_message_mutex m then None
      else loop_write_rounds app (loop_rounds m) 0 m)"

text \<open>
  What \<open>select\<close> reports: an error number, or whether the socket can be read, whether the pipe can,
  and whether the socket can be written (if the loop asked for that).
\<close>

datatype select_result = Sel_err int | Sel_ready bool bool bool

abbreviation EINTR :: int where "EINTR \<equiv> 4"

definition mosquitto_loop :: "'u app \<Rightarrow> select_result \<Rightarrow> 'u mosq option \<Rightarrow> int \<Rightarrow> (int \<times> 'u mosq option) option" where
  "mosquitto_loop app sel mosq max_packets =
     (case mosq of
        None \<Rightarrow> Some (MOSQ_ERR_INVAL, None)
      | Some m \<Rightarrow>
          if max_packets < 1 then Some (MOSQ_ERR_INVAL, Some m)
          else if c_sock m \<noteq> INVALID_SOCKET \<and> c_current_out_packet_mutex m then None
          else
            (let want_write = c_out_packet m \<noteq> [] \<or> c_current_out_packet m \<noteq> None in
             case sel of
               Sel_err e \<Rightarrow>
                 Some (if e = EINTR then MOSQ_ERR_SUCCESS else MOSQ_ERR_ERRNO, Some (m\<lparr>e_errno := e\<rparr>))
             | Sel_ready readable pipe writable \<Rightarrow>
                 if c_sock m \<noteq> INVALID_SOCKET then
                   do {
                     (rc, m) \<leftarrow> (if readable then mosquitto_loop_read app m max_packets else Some (0, m));
                     if readable \<and> (rc \<noteq> 0 \<or> c_sock m = INVALID_SOCKET) then Some (rc, Some m)
                     else
                       do {
                         let write = pipe \<or> (want_write \<and> writable);
                         (rc, m) \<leftarrow> (if write then mosquitto_loop_write app m max_packets else Some (0, m));
                         if write \<and> (rc \<noteq> 0 \<or> c_sock m = INVALID_SOCKET) then Some (rc, Some m)
                         else mosquitto_loop_misc app (Some m)
                       }
                   }
                 else mosquitto_loop_misc app (Some m)))"

definition mosquitto_loop_start :: "'u mosq option \<Rightarrow> int \<times> 'u mosq option" where
  "mosquitto_loop_start mosq =
     (case mosq of
        None \<Rightarrow> (MOSQ_ERR_INVAL, None)
      | Some m \<Rightarrow>
          if c_threaded m then (MOSQ_ERR_INVAL, Some m)
          else (MOSQ_ERR_SUCCESS, Some (m\<lparr>c_threaded := True\<rparr>)))"

definition mosquitto_loop_stop :: "'u mosq option \<Rightarrow> int \<times> 'u mosq option" where
  "mosquitto_loop_stop mosq =
     (case mosq of
        None \<Rightarrow> (MOSQ_ERR_INVAL, None)
      | Some m \<Rightarrow>
          if \<not> c_threaded m then (MOSQ_ERR_INVAL, Some m)
          else (MOSQ_ERR_SUCCESS, Some (m\<lparr>c_threaded := False\<rparr>)))"

definition mosquitto_want_write :: "'u mosq \<Rightarrow> bool" where
  "mosquitto_want_write m \<longleftrightarrow> c_out_packet m \<noteq> [] \<or> c_current_out_packet m \<noteq> None"

section \<open>Callbacks and texts\<close>

text \<open>A setter waits for ever when \<open>callback_mutex\<close> is held.\<close>

definition mosquitto_connect_callback_set :: "'u mosq \<Rightarrow> bool \<Rightarrow> 'u mosq option" where
  "mosquitto_connect_callback_set m on_connect =
     (if c_callback_mutex m then None else Some (m\<lparr>c_on_connect := on_connect\<rparr>))"

definition mosquitto_disconnect_callback_set :: "'u mosq \<Rightarrow> bool \<Rightarrow> 'u mosq option" where
  "mosquitto_disconnect_callback_set m on_disconnect =
     (if c_callback_mutex m then None else Some (m\<lparr>c_on_disconnect := on_disconnect\<rparr>))"

definition mosquitto_publish_callback_set :: "'u mosq \<Rightarrow> bool \<Rightarrow> 'u mosq option" where
  "mosquitto_publish_callback_set m on_publish =
     (if c_callback_mutex m then None else Some (m\<lparr>c_on_publish := on_publish\<rparr>))"

definition mosquitto_message_callback_set :: "'u mosq \<Rightarrow> bool \<Rightarrow> 'u mosq option" where
  "mosquitto_message_callback_set m on_message =
     (if c_callback_mutex m then None else Some (m\<lparr>c_on_message := on_message\<rparr>))"

definition mosquitto_subscribe_callback_set :: "'u mosq \<Rightarrow> bool \<Rightarrow> 'u mosq option" where
  "mosquitto_subscribe_callback_set m on_subscribe =
     (if c_callback_mutex m then None else Some (m\<lparr>c_on_subscribe := on_subscribe\<rparr>))"

definition mosquitto_unsubscribe_callback_set :: "'u mosq \<Rightarrow> bool \<Rightarrow> 'u mosq option" where
  "mosquitto_unsubscribe_callback_set m on_unsubscribe =
     (if c_callback_mutex m then None else Some (m\<lparr>c_on_unsubscribe := on_unsubscribe\<rparr>))"

definition mosquitto_user_data_set :: "'u mosq option \<Rightarrow> 'u \<Rightarrow> 'u mosq option" where
  "mosquitto_user_data_set mosq userdata = map_option (\<lambda>m. m\<lparr>c_userdata := userdata\<rparr>) mosq"

definition mosquitto_socket :: "'u mosq option \<Rightarrow> int" where
  "mosquitto_socket mosq = (case mosq of None \<Rightarrow> MOSQ_ERR_INVAL | Some m \<Rightarrow> c_sock m)"

definition mosquitto_connack_string :: "int \<Rightarrow> string" where
  "mosquitto_connack_string connack_code =
     (if connack_code = 0 then ''Connection Accepted.''
      else if connack_code = 1 then ''Connection Refused: unacceptable protocol version.''
      else if connack_code = 2 then ''Connection Refused: identifier rejected.''
      else if connack_code = 3 then ''Connection Refused: broker unavailable.''
      else if connack_code = 4 then ''Connection Refused: bad user name or password.''
      else if connack_code = 5 then ''Connection Refused: not authorised.''
      else ''Connection Refused: unknown reason.'')"

section \<open>The invariant of the message lists\<close>

text \<open>
  One lemma per operation of the interface: the operation keeps \<open>msgs_ok\<close> when the application
  does not call back into the library.
\<close>

lemma ok_fields [simp]:
  "msgs_ok (m\<lparr>c_state := s\<rparr>) = msgs_ok m" "msgs_ok (m\<lparr>c_last_msg_in := t\<rparr>) = msgs_ok m"
  "msgs_ok (m\<lparr>c_last_msg_out := t\<rparr>) = msgs_ok m" "msgs_ok (m\<lparr>c_ping_t := t\<rparr>) = msgs_ok m"
  "msgs_ok (m\<lparr>c_last_retry_check := t\<rparr>) = msgs_ok m" "msgs_ok (m\<lparr>e_errno := n\<rparr>) = msgs_ok m"
  "msgs_ok (m\<lparr>e_rx := rx\<rparr>) = msgs_ok m" "msgs_ok (m\<lparr>e_connects := cs\<rparr>) = msgs_ok m"
  "msgs_ok (m\<lparr>c_sock := i\<rparr>) = msgs_ok m" "msgs_ok (m\<lparr>c_current_out_packet := cp\<rparr>) = msgs_ok m"
  "msgs_ok (m\<lparr>c_out_packet := ps\<rparr>) = msgs_ok m" "msgs_ok (m\<lparr>c_inflight_messages := i\<rparr>) = msgs_ok m"
  "msgs_ok (m\<lparr>c_keepalive := k\<rparr>) = msgs_ok m" "msgs_ok (m\<lparr>c_host := h\<rparr>) = msgs_ok m"
  "msgs_ok (m\<lparr>c_port := i\<rparr>) = msgs_ok m" "msgs_ok (m\<lparr>c_bind_address := h\<rparr>) = msgs_ok m"
  by (simp_all add: msgs_ok_def)

lemma ok_socket_close [simp]: "msgs_ok (mosquitto_socket_close m) = msgs_ok m"
  by (simp add: mosquitto_socket_close_def)

interpretation okr: read_frame msgs_ok
  by unfold_locales simp_all

lemma ok_packet_read:
  assumes "mosquitto_packet_read app m = Some (rc, m')" "quiet_app app" "msgs_ok m"
  shows "msgs_ok m'"
proof -
  have "msgs_ok m1" if "packet_read_in m = Some (r, m1)" for r m1
    using okr.rd_packet_read_in [OF that] assms(3) by simp
  then show ?thesis using assms
    by (fastforce simp: mosquitto_packet_read_def Let_def dest: ok_packet_handle [rotated 2]
        split: if_splits bind_splits option.splits)
qed

lemma ok_packet_write:
  "mosquitto_packet_write app m = Some (rc, m') \<Longrightarrow> quiet_app app \<Longrightarrow> msgs_ok m \<Longrightarrow> msgs_ok m'"
  by (metis mv.view_packet_write msgs_ok_view)

lemma ok_rc_handle:
  "mosquitto_loop_rc_handle app m rc = Some (rc', m') \<Longrightarrow> quiet_app app \<Longrightarrow> msgs_ok m \<Longrightarrow> msgs_ok m'"
  by (auto simp: mosquitto_loop_rc_handle_def Let_def dest: ok_callback split: if_splits bind_splits)

lemma ok_read_rounds:
  "loop_read_rounds app k rc m = Some (rc', m') \<Longrightarrow> quiet_app app \<Longrightarrow> msgs_ok m \<Longrightarrow> msgs_ok m'"
  by (induction k arbitrary: rc m) (fastforce dest: ok_packet_read ok_rc_handle split: bind_splits if_splits)+

lemma ok_write_rounds:
  "loop_write_rounds app k rc m = Some (rc', m') \<Longrightarrow> quiet_app app \<Longrightarrow> msgs_ok m \<Longrightarrow> msgs_ok m'"
  by (induction k arbitrary: rc m) (fastforce dest: ok_packet_write ok_rc_handle split: bind_splits if_splits)+

lemma ok_send_any:
  "mosquitto_send_pingreq app m = Some (rc, m') \<Longrightarrow> quiet_app app \<Longrightarrow> msgs_ok m \<Longrightarrow> msgs_ok m'"
  "mosquitto_send_disconnect app m = Some (rc, m') \<Longrightarrow> quiet_app app \<Longrightarrow> msgs_ok m \<Longrightarrow> msgs_ok m'"
  "mosquitto_send_publish app m mid t pl p q r d = Some (rc, m') \<Longrightarrow> quiet_app app \<Longrightarrow> msgs_ok m \<Longrightarrow> msgs_ok m'"
  "mosquitto_send_connect app m ka cl = Some (rc, m') \<Longrightarrow> quiet_app app \<Longrightarrow> msgs_ok m \<Longrightarrow> msgs_ok m'"
  "mosquitto_send_subscribe app m d t q8 = Some (rc, mo, m') \<Longrightarrow> quiet_app app \<Longrightarrow> msgs_ok m \<Longrightarrow> msgs_ok m'"
  "mosquitto_send_unsubscribe app m d t = Some (rc, mo, m') \<Longrightarrow> quiet_app app \<Longrightarrow> msgs_ok m \<Longrightarrow> msgs_ok m'"
  apply (auto simp: mosquitto_send_pingreq_def Let_def msgs_ok_view [OF mv.view_send_simple_command] split: bind_splits if_splits)[1]
  apply (metis mosquitto_send_disconnect_def mv.view_send_simple_command msgs_ok_view)
  apply (metis mv.view_send_publish msgs_ok_view)
  apply (metis mv.view_send_connect msgs_ok_view)
  apply (metis mv.view_send_subscribe msgs_ok_view)
  apply (metis mv.view_send_unsubscribe msgs_ok_view)
  done

lemma get_messages_bound: "msgs_ok m \<Longrightarrow> i < length (get_messages dir m) \<Longrightarrow>
    ma_msg x = ma_msg (get_messages dir m ! i) \<Longrightarrow> msgs_ok (put_message dir i x m)"
  by (cases dir)
     (auto simp: msgs_ok_def put_message_def get_messages_def end_of_def list_all_length nth_list_update)

lemma ok_retry_loop:
  "retry_loop app dir i m = Some m' \<Longrightarrow> quiet_app app \<Longrightarrow> msgs_ok m \<Longrightarrow> msgs_ok m'"
proof (induction rule: retry_loop.raw_induct [rotated, consumes 1])
  case (1 loop app dir i m m')
  show ?case
  proof (cases "i < length (get_messages dir m)")
    case True
    let ?y = "(get_messages dir m ! i)\<lparr>ma_timestamp := e_now m, ma_dup := True\<rparr>"
    have "msgs_ok (put_message dir i ?y m)" by (rule get_messages_bound) (use 1(4) True in simp_all)
    then show ?thesis
      using 1(2) True 1(1) [OF _ 1(3)] 1(3,4)
      by (auto simp: Let_def split: if_splits bind_splits) (metis ok_send(2,4) ok_send_any(3))+
  qed (use 1 in auto)
qed

lemma ok_retry_check:
  "mosquitto_message_retry_check app m = Some m' \<Longrightarrow> quiet_app app \<Longrightarrow> msgs_ok m \<Longrightarrow> msgs_ok m'"
  by (auto simp: mosquitto_message_retry_check_def mosquitto_message_retry_check_actual_def
      dest: ok_retry_loop split: bind_splits if_splits)

lemma ok_check_keepalive:
  "mosquitto_check_keepalive app m = Some m' \<Longrightarrow> quiet_app app \<Longrightarrow> msgs_ok m \<Longrightarrow> msgs_ok m'"
  by (auto simp: mosquitto_check_keepalive_def Let_def dest: ok_callback ok_send_any(1)
      split: if_splits bind_splits)

lemma ok_loop_misc:
  assumes "mosquitto_loop_misc app (Some m) = Some (rc, Some m')" "quiet_app app" "msgs_ok m"
  shows "msgs_ok m'"
proof (cases "c_sock m = INVALID_SOCKET")
  case False
  then obtain m1 m2 where s: "mosquitto_check_keepalive app m = Some m1"
    "(if c_last_retry_check m1 + 1 < e_now m
      then do { n \<leftarrow> mosquitto_message_retry_check app m1; Some (n\<lparr>c_last_retry_check := e_now m\<rparr>) }
      else Some m1) = Some m2"
    "m' = m2 \<or> callback app (On_disconnect (if c_state (mosquitto_socket_close m2) = mosq_cs_disconnecting
      then MOSQ_ERR_SUCCESS else 1)) (mosquitto_socket_close m2) = Some m'"
    using assms(1) by (auto simp: mosquitto_loop_misc_def Let_def split: bind_splits if_splits)
  then have "msgs_ok m1" using ok_check_keepalive assms by blast
  then have "msgs_ok m2" using s(2) assms(2) by (auto dest: ok_retry_check split: if_splits bind_splits)
  then show ?thesis using s(3) assms(2) by (auto dest: ok_callback)
qed (use assms in \<open>simp add: mosquitto_loop_misc_def\<close>)

lemma ok_loop_parts:
  "mosquitto_loop_read app m k = Some (rc, m') \<Longrightarrow> quiet_app app \<Longrightarrow> msgs_ok m \<Longrightarrow> msgs_ok m'"
  "mosquitto_loop_write app m k = Some (rc, m') \<Longrightarrow> quiet_app app \<Longrightarrow> msgs_ok m \<Longrightarrow> msgs_ok m'"
  by (auto simp: mosquitto_loop_read_def mosquitto_loop_write_def dest: ok_read_rounds ok_write_rounds split: if_splits)

lemma ok_loop:
  assumes "mosquitto_loop app sel (Some m) k = Some (rc, Some m')" "quiet_app app" "msgs_ok m"
  shows "msgs_ok m'"
proof (cases sel)
  case (Sel_err e)
  then show ?thesis using assms by (auto simp: mosquitto_loop_def Let_def split: if_splits)
next
  case (Sel_ready r p w)
  note parts = ok_loop_parts(1) [OF _ assms(2,3), of k] ok_loop_parts(2) [OF _ assms(2), of _ k]
    ok_loop_misc [OF _ assms(2)]
  show ?thesis
    using assms(1,3) Sel_ready unfolding mosquitto_loop_def Let_def
    by (simp split: if_split_asm bind_split_asm prod.split_asm) (blast dest: parts)+
qed

lemma ok_publish_queued:
  assumes "publish_queued app m mid t pl p q r = Some (rc, m')" "quiet_app app" "msgs_ok m"
  shows "msgs_ok m'"
proof -
  obtain x m1 where x: "mosquitto_message_queue m x mosq_md_out = Some m1"
    "m' = m1 \<or> mosquitto_send_publish app (m1\<lparr>c_inflight_messages := c_inflight_messages m1 + 1\<rparr>) mid (Some t)
      (of_int pl) p q r False = Some (rc, m')"
    using assms(1) by (auto simp: publish_queued_def Let_def split: if_splits bind_splits)
  have "msgs_ok m1" using message_queue_ok [OF assms(3), of mosq_md_out x] x(1) by auto
  then show ?thesis using x(2) ok_send_any(3) assms(2) by fastforce
qed

lemma ok_mid_generate: "mosquitto_mid_generate m = (mid, m') \<Longrightarrow> msgs_ok m \<Longrightarrow> msgs_ok m'"
  by (metis mv.view_mid_generate msgs_ok_view)

lemma ok_publish_call:
  "mosquitto_publish app (Some m) t pl p q r = Some (rc, mid, Some m') \<Longrightarrow> quiet_app app \<Longrightarrow> msgs_ok m \<Longrightarrow> msgs_ok m'"
  unfolding mosquitto_publish_def
  by (auto split: option.split_asm if_split_asm prod.split_asm bool.split_asm bind_split_asm
      dest: ok_mid_generate ok_alloc ok_send_any(3) ok_publish_queued)
    (metis ok_mid_generate ok_alloc ok_publish_queued)

lemma ok_subscribe_calls:
  "mosquitto_subscribe app (Some m) sub q = Some (rc, mid, Some m') \<Longrightarrow> quiet_app app \<Longrightarrow> msgs_ok m \<Longrightarrow> msgs_ok m'"
  "mosquitto_unsubscribe app (Some m) sub = Some (rc, mid, Some m') \<Longrightarrow> quiet_app app \<Longrightarrow> msgs_ok m \<Longrightarrow> msgs_ok m'"
  "mosquitto_disconnect app (Some m) = Some (rc', Some m') \<Longrightarrow> quiet_app app \<Longrightarrow> msgs_ok m \<Longrightarrow> msgs_ok m'"
  by (auto simp: mosquitto_subscribe_def mosquitto_unsubscribe_def mosquitto_disconnect_def Let_def
      dest: ok_send_any split: if_splits bind_splits)

lemma ok_socket_connect: "mosquitto_socket_connect m h p = (rc, m') \<Longrightarrow> msgs_ok m' = msgs_ok m"
  by (auto simp: mosquitto_socket_connect_def split: if_splits list.splits)

lemma ok_reconnect:
  assumes "mosquitto_reconnect app (Some m) = Some (rc, Some m')" "quiet_app app" "msgs_ok m"
    and "c_out_messages m \<noteq> [] \<or> c_in_messages m = []"
  shows "msgs_ok m'"
proof -
  let ?m = "m\<lparr>c_state := mosq_cs_new, c_last_msg_in := e_now m, c_last_msg_out := e_now m, c_ping_t := 0,
      c_in_packet := mosquitto_packet_cleanup (c_in_packet m), c_current_out_packet := None, c_out_packet := []\<rparr>"
  obtain m1 where r: "mosquitto_messages_reconnect_reset ?m = Some m1" "msgs_ok m1"
    using reconnect_reset_ok [of ?m] assms(3,4) by auto
  obtain rc2 m2 where c: "mosquitto_socket_connect m1 (c_host m1) (of_int (c_port m1)) = (rc2, m2)" by fastforce
  then have "msgs_ok m2" using r(2) ok_socket_connect by blast
  moreover have "m' = m \<or> m' = m2 \<or> mosquitto_send_connect app m2 (c_keepalive m2) (c_clean_session m2) = Some (rc, m')"
    using assms(1) unfolding mosquitto_reconnect_def mosquitto_reconnect_int_def Let_def
    by (simp only: r(1) c option.case bind.bind_lunit prod.case)
       (simp split: if_split_asm bind_split_asm prod.split_asm)
  ultimately show ?thesis using ok_send_any(4) assms(2,3) by blast
qed

lemma ok_connect_init:
  assumes "mosquitto_connect_init (Some m) host port keepalive bnd = Some (rc, Some m')"
  shows "msgs_ok m' = msgs_ok m" "c_out_messages m' = c_out_messages m" "c_in_messages m' = c_in_messages m"
  using assms
  by (auto simp: mosquitto_connect_init_def Let_def mosq_alloc_def msgs_ok_def
      split: if_split_asm prod.split_asm bool.split_asm option.split_asm)

lemma ok_connect:
  assumes "mosquitto_connect_bind app (Some m) host port keepalive bnd = Some (rc, Some m')" "quiet_app app" "msgs_ok m"
    and "c_out_messages m \<noteq> [] \<or> c_in_messages m = []"
  shows "msgs_ok m'"
proof -
  obtain r mo where i: "mosquitto_connect_init (Some m) host port keepalive bnd = Some (r, mo)"
    "(if r \<noteq> 0 then Some (r, mo)
      else case mo of None \<Rightarrow> None | Some n \<Rightarrow> mosquitto_reconnect app (Some (n\<lparr>c_state := mosq_cs_new\<rparr>))) = Some (rc, Some m')"
    using assms(1) by (auto simp: mosquitto_connect_bind_def split: bind_splits)
  show ?thesis
  proof (cases "r = 0")
    case True
    then obtain n where n: "mo = Some n" "mosquitto_reconnect app (Some (n\<lparr>c_state := mosq_cs_new\<rparr>)) = Some (rc, Some m')"
      using i(2) by (auto split: option.split_asm)
    note k = ok_connect_init [OF i(1) [unfolded n(1)]]
    show ?thesis by (rule ok_reconnect [OF n(2) assms(2)]) (use k assms(3,4) in simp_all)
  next
    case False
    then show ?thesis using i ok_connect_init(1) [of m host port keepalive bnd r m'] assms(3) by auto
  qed
qed

lemma ok_will_set:
  "mosquitto_will_set (Some m) topic payloadlen payload qos retain = Some (rc, Some m') \<Longrightarrow> msgs_ok m' = msgs_ok m"
  by (auto simp: mosquitto_will_set_def mosquitto_will_set_int_def Let_def mosq_alloc_def msgs_ok_def
      split: if_split_asm prod.split_asm bool.split_asm option.split_asm bind_split_asm)

lemma ok_setters:
  "mosquitto_will_clear (Some m) = (rc, Some m') \<Longrightarrow> msgs_ok m' = msgs_ok m"
  "mosquitto_username_pw_set (Some m) username password = (rc, Some m') \<Longrightarrow> msgs_ok m' = msgs_ok m"
  "mosquitto_loop_start (Some m) = (rc, Some m') \<Longrightarrow> msgs_ok m' = msgs_ok m"
  "mosquitto_loop_stop (Some m) = (rc, Some m') \<Longrightarrow> msgs_ok m' = msgs_ok m"
  "mosquitto_max_inflight_messages_set (Some m) n = (rc, Some m') \<Longrightarrow> msgs_ok m' = msgs_ok m"
  "mosquitto_user_data_set (Some m) u = Some m' \<Longrightarrow> msgs_ok m' = msgs_ok m"
  "msgs_ok (mosquitto_message_retry_set m n) = msgs_ok m"
  by (auto simp: mosquitto_will_clear_def mosquitto_will_clear_int_def mosquitto_username_pw_set_def mosquitto_loop_start_def
      mosquitto_loop_stop_def mosquitto_max_inflight_messages_set_def mosquitto_user_data_set_def mosquitto_message_retry_set_def
      mosq_alloc_def Let_def msgs_ok_def split: if_split_asm prod.split_asm bool.split_asm option.split_asm)

lemma ok_callback_setters:
  "mosquitto_connect_callback_set m b = Some m' \<Longrightarrow> msgs_ok m' = msgs_ok m"
  "mosquitto_disconnect_callback_set m b = Some m' \<Longrightarrow> msgs_ok m' = msgs_ok m"
  "mosquitto_publish_callback_set m b = Some m' \<Longrightarrow> msgs_ok m' = msgs_ok m"
  "mosquitto_message_callback_set m b = Some m' \<Longrightarrow> msgs_ok m' = msgs_ok m"
  "mosquitto_subscribe_callback_set m b = Some m' \<Longrightarrow> msgs_ok m' = msgs_ok m"
  "mosquitto_unsubscribe_callback_set m b = Some m' \<Longrightarrow> msgs_ok m' = msgs_ok m"
  by (auto simp: mosquitto_connect_callback_set_def mosquitto_disconnect_callback_set_def mosquitto_publish_callback_set_def
      mosquitto_message_callback_set_def mosquitto_subscribe_callback_set_def mosquitto_unsubscribe_callback_set_def msgs_ok_def
      split: if_split_asm)

lemma ok_reinitialise:
  assumes "mosquitto_reinitialise rand (Some m0) cid clean_session userdata = (rc, Some m)" "msgs_ok m0"
  shows "msgs_ok m"
proof -
  have z: "msgs_ok (mosq_memset w u)" for w :: "'a mosq" and u
    by (simp add: mosq_memset_def mosq_calloc_def msgs_ok_def end_of_def)
  have f: "msgs_ok (n\<lparr>c_message_retry := i\<rparr>) = msgs_ok n" "msgs_ok (n\<lparr>c_clean_session := b\<rparr>) = msgs_ok n"
    "msgs_ok (n\<lparr>c_id := s\<rparr>) = msgs_ok n" "msgs_ok (n\<lparr>c_max_inflight_messages := i\<rparr>) = msgs_ok n"
    "msgs_ok (n\<lparr>e_allocs := al\<rparr>) = msgs_ok n"
    for n :: "'a mosq" and i b s al by (simp_all add: msgs_ok_def)
  show ?thesis using assms
    unfolding mosquitto_reinitialise_def Let_def option.case
    by (auto split: if_split_asm option.split_asm prod.split_asm bool.split_asm simp: z f mosq_alloc_def)
qed

section \<open>The client as a state machine\<close>

text \<open>
  The steps of a client: the calls of the interface, one after the other and with any arguments (the rounds of the network loop among
  them, whichever thread makes them), and the passing of time, data and allocations of the environment. A call that
  connects again is a step except in the one case that \<open>reconnect_reset_wrong_list\<close> describes.
\<close>

definition reset_safe :: "'u mosq \<Rightarrow> bool" where
  "reset_safe m \<longleftrightarrow> c_out_messages m \<noteq> [] \<or> c_in_messages m = []"

inductive client_step :: "'u app \<Rightarrow> 'u mosq \<Rightarrow> 'u mosq \<Rightarrow> bool" for app where
  environment: "client_step app m (m\<lparr>e_now := t, e_allocs := al, e_junk := j, e_rx := rx, e_wr := wr, e_connects := cs\<rparr>)"
| connect: "reset_safe m \<Longrightarrow> mosquitto_connect app (Some m) host port keepalive = Some (rc, Some m') \<Longrightarrow> client_step app m m'"
| connect_bind: "reset_safe m \<Longrightarrow>
    mosquitto_connect_bind app (Some m) host port keepalive bnd = Some (rc, Some m') \<Longrightarrow> client_step app m m'"
| reconnect: "reset_safe m \<Longrightarrow> mosquitto_reconnect app (Some m) = Some (rc, Some m') \<Longrightarrow> client_step app m m'"
| disconnect: "mosquitto_disconnect app (Some m) = Some (rc, Some m') \<Longrightarrow> client_step app m m'"
| publish: "mosquitto_publish app (Some m) topic payloadlen payload qos retain = Some (rc, mid, Some m') \<Longrightarrow> client_step app m m'"
| subscribe: "mosquitto_subscribe app (Some m) sub qos = Some (rc, mid, Some m') \<Longrightarrow> client_step app m m'"
| unsubscribe: "mosquitto_unsubscribe app (Some m) sub = Some (rc, mid, Some m') \<Longrightarrow> client_step app m m'"
| loop: "mosquitto_loop app sel (Some m) max_packets = Some (rc, Some m') \<Longrightarrow> client_step app m m'"
| loop_read: "mosquitto_loop_read app m max_packets = Some (rc, m') \<Longrightarrow> client_step app m m'"
| loop_write: "mosquitto_loop_write app m max_packets = Some (rc, m') \<Longrightarrow> client_step app m m'"
| loop_misc: "mosquitto_loop_misc app (Some m) = Some (rc, Some m') \<Longrightarrow> client_step app m m'"
| loop_start: "mosquitto_loop_start (Some m) = (rc, Some m') \<Longrightarrow> client_step app m m'"
| loop_stop: "mosquitto_loop_stop (Some m) = (rc, Some m') \<Longrightarrow> client_step app m m'"
| will_set: "mosquitto_will_set (Some m) topic payloadlen payload qos retain = Some (rc, Some m') \<Longrightarrow> client_step app m m'"
| will_clear: "mosquitto_will_clear (Some m) = (rc, Some m') \<Longrightarrow> client_step app m m'"
| username_pw_set: "mosquitto_username_pw_set (Some m) username password = (rc, Some m') \<Longrightarrow> client_step app m m'"
| max_inflight_set: "mosquitto_max_inflight_messages_set (Some m) n = (rc, Some m') \<Longrightarrow> client_step app m m'"
| retry_set: "client_step app m (mosquitto_message_retry_set m n)"
| user_data_set: "mosquitto_user_data_set (Some m) userdata = Some m' \<Longrightarrow> client_step app m m'"
| connect_callback_set: "mosquitto_connect_callback_set m b = Some m' \<Longrightarrow> client_step app m m'"
| disconnect_callback_set: "mosquitto_disconnect_callback_set m b = Some m' \<Longrightarrow> client_step app m m'"
| publish_callback_set: "mosquitto_publish_callback_set m b = Some m' \<Longrightarrow> client_step app m m'"
| message_callback_set: "mosquitto_message_callback_set m b = Some m' \<Longrightarrow> client_step app m m'"
| subscribe_callback_set: "mosquitto_subscribe_callback_set m b = Some m' \<Longrightarrow> client_step app m m'"
| unsubscribe_callback_set: "mosquitto_unsubscribe_callback_set m b = Some m' \<Longrightarrow> client_step app m m'"
| reinitialise: "mosquitto_reinitialise rand (Some m) cid clean_session userdata = (rc, Some m') \<Longrightarrow> client_step app m m'"

inductive client_reachable :: "'u app \<Rightarrow> 'u mosq \<Rightarrow> bool" for app where
  created: "mosquitto_new rand w cid clean_session userdata = (e, Some m) \<Longrightarrow> client_reachable app m"
| step: "client_reachable app m \<Longrightarrow> client_step app m m' \<Longrightarrow> client_reachable app m'"

lemma client_step_ok: "client_step app m m' \<Longrightarrow> quiet_app app \<Longrightarrow> msgs_ok m \<Longrightarrow> msgs_ok m'"
proof (induction rule: client_step.induct)
  case (environment m t al j rx wr cs)
  then show ?case by (simp add: msgs_ok_def)
next
  case (connect m host port keepalive rc m')
  then show ?case using ok_connect [of app m host port keepalive None rc m'] by (simp add: mosquitto_connect_def reset_safe_def)
next
  case (connect_bind m host port keepalive bnd rc m')
  then show ?case using ok_connect [of app m host port keepalive bnd rc m'] by (simp add: reset_safe_def)
next
  case (reconnect m rc m')
  then show ?case using ok_reconnect [of app m rc m'] by (simp add: reset_safe_def)
qed (simp_all add: ok_setters ok_callback_setters ok_will_set ok_publish_call ok_subscribe_calls ok_loop ok_loop_parts
      ok_loop_misc ok_reinitialise)

lemma mosquitto_new_ok:
  assumes "mosquitto_new rand w cid clean_session userdata = (e, Some m)"
  shows "msgs_ok m"
proof -
  have z: "msgs_ok (mosq_memset w' u)" for w' :: "'a mosq" and u
    by (simp add: mosq_memset_def mosq_calloc_def msgs_ok_def end_of_def)
  show ?thesis using assms unfolding mosquitto_new_def
    by (auto split: if_split_asm prod.split_asm bool.split_asm intro: ok_reinitialise [OF _ z])
qed

section \<open>Publishing\<close>

text \<open>The message that the client keeps until the broker has acknowledged it.\<close>

definition stored_message :: "string \<Rightarrow> u16 \<Rightarrow> int \<Rightarrow> bool \<Rightarrow> u8 list \<Rightarrow> message" where
  "stored_message topic mid qos retain payload =
     \<lparr>m_mid = uint mid, m_topic = Some topic, m_payload = (if payload = [] then None else Some payload),
      m_payloadlen = int (length payload), m_qos = qos, m_retain = retain\<rparr>"

definition window_state :: "'u mosq \<Rightarrow> int \<Rightarrow> msg_state" where
  "window_state m qos =
     (if \<not> inflight_ok m then mosq_ms_invalid
      else if qos = 1 then mosq_ms_wait_for_puback else mosq_ms_wait_for_pubrec)"

text \<open>What publishing does not touch, and what a thread needs to go on.\<close>

definition thread_view :: "'u mosq \<Rightarrow> bool list \<times> bool \<times> int \<times> bool \<times> bool \<times> bool \<times> 'u" where
  "thread_view m = (e_allocs m, c_threaded m, c_sock m, c_callback_mutex m, c_in_callback m, c_on_message m, c_userdata m)"

lemma send_publish_threaded:
  assumes "e_allocs m = []" "length topic < 65536" "length (publish_body topic mid qos payload) < 268435456"
    and "c_sock m \<noteq> INVALID_SOCKET" "c_threaded m"
  shows "mosquitto_send_publish app m mid (Some topic) (of_nat (length payload)) (if payload = [] then None else Some payload)
      qos retain dup =
    Some (MOSQ_ERR_SUCCESS, m\<lparr>c_out_packet := c_out_packet m @
      [wire (publish_header mid qos retain dup (length (publish_body topic mid qos payload))) (publish_body topic mid qos payload)]\<rparr>)"
proof -
  have u: "unat (of_nat (length payload) :: u32) = length payload"
    using assms(3) by (intro unat_u32) (simp add: publish_body_def)
  show ?thesis
    using send_real_publish_eq [OF assms(1) _ u assms(3), of app retain dup] assms(2,4,5)
    by (auto simp: mosquitto_send_publish_def send_real_publish_None enqueue_def)
qed

lemma publish_queued_threaded:
  assumes "msgs_ok m" "e_allocs m = []" "c_threaded m" "c_sock m \<noteq> INVALID_SOCKET" "qos \<in> {1, 2}"
    and "length topic < 65536" "length (publish_body topic mid qos payload) < 268435456"
  shows "\<exists>m'. publish_queued app m mid topic (int (length payload)) (if payload = [] then None else Some payload) qos retain =
      Some (MOSQ_ERR_SUCCESS, m') \<and> msgs_ok m'
    \<and> c_out_messages m' = c_out_messages m @ [\<lparr>ma_timestamp = e_now m, ma_state = window_state m qos, ma_dup = False,
        ma_msg = stored_message topic mid qos retain payload\<rparr>]
    \<and> c_inflight_messages m' = c_inflight_messages m + of_bool (inflight_ok m)
    \<and> thread_view m' = thread_view m
    \<and> c_out_packet m' = c_out_packet m @ (if inflight_ok m
        then [wire (publish_header mid qos retain False (length (publish_body topic mid qos payload))) (publish_body topic mid qos payload)]
        else [])"
  using assms send_publish_threaded [of _ topic mid qos payload app retain False]
  by (cases "inflight_ok m"; cases "qos = 1")
     (auto simp: publish_queued_def mosquitto_message_queue_def msgs_ok_def Let_def stored_message_def window_state_def thread_view_def)

lemma mid_generate_view:
  assumes "mosquitto_mid_generate m = (mid, m')"
  shows "m' = m\<lparr>c_last_mid := mid\<rparr>" "mid \<noteq> 0"
  using assms by (auto simp: mosquitto_mid_generate_def Let_def split: if_splits)

lemma publish_accepted:
  assumes "topic \<noteq> []" "mosquitto_topic_wildcard_len_check (Some topic) = MOSQ_ERR_SUCCESS" "qos \<in> {1, 2}"
    and "e_allocs m = []" "length payload < 268435456" "mosquitto_mid_generate m = (mid, m1)"
  shows "mosquitto_publish app (Some m) (Some topic) (int (length payload)) (Some payload) qos retain =
    do { (rc, m) \<leftarrow> publish_queued app m1 mid topic (int (length payload))
           (if payload = [] then None else Some payload) qos retain;
         Some (rc, Some mid, Some m) }"
proof -
  have "mosq_alloc m1 = (True, m1)" using assms(4) mid_generate_view(1) [OF assms(6)] by (simp add: mosq_alloc_ok)
  then show ?thesis using assms by (auto simp: mosquitto_publish_def)
qed

lemma publish_qos12_ok:
  assumes "msgs_ok m" "e_allocs m = []" "c_threaded m" "c_sock m \<noteq> INVALID_SOCKET" "qos \<in> {1, 2}"
    and "topic \<noteq> []" "mosquitto_topic_wildcard_len_check (Some topic) = MOSQ_ERR_SUCCESS"
    and "length (publish_body topic 0 qos payload) < 268435456"
  shows "\<exists>mid m' ps. mid \<noteq> 0 \<and> msgs_ok m'
    \<and> mosquitto_publish app (Some m) (Some topic) (int (length payload)) (Some payload) qos retain =
        Some (MOSQ_ERR_SUCCESS, Some mid, Some m')
    \<and> c_out_messages m' = c_out_messages m @ [\<lparr>ma_timestamp = e_now m, ma_state = window_state m qos, ma_dup = False,
        ma_msg = stored_message topic mid qos retain payload\<rparr>]
    \<and> c_inflight_messages m' = c_inflight_messages m + of_bool (inflight_ok m)
    \<and> thread_view m' = thread_view m
    \<and> c_out_packet m' = c_out_packet m @ ps
    \<and> map left_of ps = (if inflight_ok m then [frame (publish_command qos retain False) (publish_body topic mid qos payload)] else [])"
proof -
  obtain mid m1 where g: "mosquitto_mid_generate m = (mid, m1)" by fastforce
  note m1 = mid_generate_view [OF g]
  have len: "length (publish_body topic mid qos payload) = length (publish_body topic 0 qos payload)"
    by (simp add: publish_body_def)
  have t: "length topic < 65536" using assms(7) by (auto simp: mosquitto_topic_wildcard_len_check_def wildcard_len_loop_iff)
  have "length payload < 268435456" using assms(8) by (simp add: publish_body_def)
  note eq = publish_accepted [OF assms(6,7,5,2) this g, of app retain]
  have k: "msgs_ok m1" "e_allocs m1 = []" "c_threaded m1" "c_sock m1 \<noteq> INVALID_SOCKET" "inflight_ok m1 = inflight_ok m"
    "window_state m1 = window_state m" "thread_view m1 = thread_view m"
    using assms(1-4) by (auto simp: m1(1) msgs_ok_def inflight_ok_def window_state_def thread_view_def fun_eq_iff)
  show ?thesis
    using publish_queued_threaded [OF k(1-4) assms(5) t, of mid payload app retain] len assms(8) m1 k
    unfolding eq by (auto simp: publish_header_def publish_command_def)
qed

lemma retry_check_empty:
  "\<lbrakk>c_out_messages m = []; c_in_messages m = []; \<not> c_out_message_mutex m; \<not> c_in_message_mutex m\<rbrakk> \<Longrightarrow>
     mosquitto_message_retry_check app m = Some m"
  by (simp add: mosquitto_message_retry_check_def mosquitto_message_retry_check_actual_def
      retry_loop.simps [of app mosq_md_out] retry_loop.simps [of app mosq_md_in] get_messages_def)

section \<open>A client that has stalled\<close>

text \<open>
  What can happen to the outgoing messages while the client stays connected and no QoS 2 message arrives: more messages are published,
  the broker acknowledges messages that were sent to it (with PUBACK, PUBCOMP or PUBREC), the retry timer runs, and time passes.
\<close>

definition only_sent :: "u16 \<Rightarrow> 'u mosq \<Rightarrow> bool" where
  "only_sent mid m \<longleftrightarrow> list_all (\<lambda>y. m_mid (ma_msg y) = uint mid \<longrightarrow> ma_state y \<noteq> mosq_ms_invalid) (c_out_messages m)"

inductive stall_step :: "'u app \<Rightarrow> 'u mosq \<Rightarrow> 'u mosq \<Rightarrow> bool" for app where
  environment: "stall_step app m (m\<lparr>e_now := t, e_allocs := al, e_junk := j, e_rx := rx, e_wr := wr\<rparr>)"
| publish: "qos \<noteq> 0 \<Longrightarrow> mosquitto_publish app (Some m) topic payloadlen payload qos retain = Some (rc, mid, Some m') \<Longrightarrow> stall_step app m m'"
| acknowledged: "only_sent mid m \<Longrightarrow> mosquitto_message_delete app m mid mosq_md_out = Some (rc, m') \<Longrightarrow> stall_step app m m'"
| received: "only_sent mid m \<Longrightarrow> mosquitto_message_out_update m mid mosq_ms_wait_for_pubcomp = Some (rc, m') \<Longrightarrow> stall_step app m m'"
| retry: "c_in_messages m = [] \<Longrightarrow> mosquitto_message_retry_check app m = Some m' \<Longrightarrow> stall_step app m m'"

definition stalled :: "packet list \<Rightarrow> 'u mosq \<Rightarrow> bool" where
  "stalled ps m \<longleftrightarrow> c_out_packet m = ps \<and> c_out_messages m \<noteq> []
     \<and> list_all (\<lambda>x. ma_state x = mosq_ms_invalid) (c_out_messages m) \<and> \<not> inflight_ok m"

lemma stalled_upd [simp]:
  "stalled ps (m\<lparr>e_allocs := al\<rparr>) = stalled ps m" "stalled ps (m\<lparr>c_last_mid := i\<rparr>) = stalled ps m"
  "stalled ps (m\<lparr>e_now := t, e_allocs := al, e_junk := j, e_rx := rx, e_wr := wr\<rparr>) = stalled ps m"
  by (simp_all add: stalled_def inflight_ok_def)

lemma list_all_take: "list_all P xs \<Longrightarrow> list_all P (take n xs)"
  by (meson list.pred_set in_set_takeD)

lemma stalled_queue:
  assumes "stalled ps m" "ma_state x = mosq_ms_invalid" "mosquitto_message_queue m x mosq_md_out = Some m'"
  shows "stalled ps m'"
  using assms
  by (auto simp: stalled_def inflight_ok_def mosquitto_message_queue_def append_last_def list_all_take Let_def
      split: msg_end.split_asm bind_split_asm)

lemma stalled_publish_queued:
  assumes "stalled ps m" "publish_queued app m mid t pl p q r = Some (rc, m')"
  shows "stalled ps m'"
proof -
  have "\<not> inflight_ok m" using assms(1) by (simp add: stalled_def)
  then show ?thesis using assms(2)
    by (auto simp: publish_queued_def Let_def intro!: stalled_queue [OF assms(1)] split: if_split_asm bind_split_asm)
qed

lemma stalled_alloc: "mosq_alloc m = (b, m') \<Longrightarrow> stalled ps m' = stalled ps m"
  by (auto simp: mosq_alloc_def split: prod.split_asm)

lemma stalled_mid: "mosquitto_mid_generate m = (mid, m') \<Longrightarrow> stalled ps m' = stalled ps m"
  using mid_generate_view(1) [of m mid m'] by (metis stalled_upd(2))

lemma stalled_publish:
  "mosquitto_publish app (Some m) t pl p q r = Some (rc, mid, Some m') \<Longrightarrow> q \<noteq> 0 \<Longrightarrow> stalled ps m \<Longrightarrow> stalled ps m'"
  unfolding mosquitto_publish_def
  by (auto split: option.split_asm if_split_asm prod.split_asm bool.split_asm bind_split_asm
      simp: stalled_mid stalled_alloc) (metis stalled_mid stalled_alloc stalled_publish_queued)+

lemma stalled_no_mid: "stalled ps m \<Longrightarrow> only_sent mid m \<Longrightarrow> split_mid (uint mid) (c_out_messages m) = None"
  by (auto simp: stalled_def only_sent_def list_all_iff split_mid_None)

lemma stalled_retry_loop:
  assumes "stalled ps m" "retry_loop app mosq_md_out i m = Some m'"
  shows "m' = m"
  using assms
proof (induction "length (c_out_messages m) - i" arbitrary: i)
  case 0
  then show ?case by (subst (asm) retry_loop.simps) (simp add: get_messages_def)
next
  case (Suc k)
  then have "ma_state (c_out_messages m ! i) = mosq_ms_invalid" by (simp add: stalled_def list_all_length)
  moreover have "m' = m" if "retry_loop app mosq_md_out (Suc i) m = Some m'" using Suc.hyps(1) [of "Suc i"] Suc.hyps(2) Suc.prems(1) that by simp
  ultimately show ?case using Suc.hyps(2) Suc.prems(2)
    by (auto simp: retry_loop.simps [of app mosq_md_out i] get_messages_def Let_def split: if_split_asm)
qed

lemma stall_step_stalled:
  assumes "stall_step app m m'" "stalled ps m"
  shows "stalled ps m'"
  using assms
proof (cases rule: stall_step.cases)
  case (retry)
  then obtain m1 where "retry_loop app mosq_md_out 0 m = Some m1" "retry_loop app mosq_md_in 0 m1 = Some m'"
    by (auto simp: mosquitto_message_retry_check_def mosquitto_message_retry_check_actual_def split: bind_splits if_splits)
  then have "m1 = m" "retry_loop app mosq_md_in 0 m = Some m'" using stalled_retry_loop [OF assms(2)] by blast+
  then show ?thesis using retry(1) assms(2) by (simp add: retry_loop.simps [of app mosq_md_in 0] get_messages_def)
next
  case (publish qos topic payloadlen payload retain rc mid)
  then show ?thesis using stalled_publish assms(2) by blast
qed (use stalled_no_mid [OF assms(2)] assms(2) in \<open>auto simp: mosquitto_message_delete_def mosquitto_message_remove_def
      mosquitto_message_out_update_def split: if_split_asm\<close>)

lemma stall_steps_stalled: "(stall_step app)\<^sup>*\<^sup>* m m' \<Longrightarrow> stalled ps m \<Longrightarrow> stalled ps m'"
  by (induction rule: rtranclp_induct) (auto intro: stall_step_stalled)

text \<open>A client connects and receives a CONNACK and a PUBLISH of QoS 2.\<close>

definition demo_session :: "cb_event list mosq option" where
  "demo_session =
     do {
       m \<leftarrow> snd (mosquitto_new (\<lambda>_. 0) (mosq_calloc []) (Some ''bob'') True []);
       let m = m\<lparr>e_now := 5, e_allocs := [], e_junk := \<lambda>_. 0,
         e_rx := [Rx_data [0x20, 2, 0, 0, 0x34, 6, 0, 1, 116, 0, 7, 33]], e_wr := [], e_connects := [(0, 3)]\<rparr>;
       (_, m) \<leftarrow> mosquitto_connect log_app (Some m) (Some ''host'') 1883 60;
       m \<leftarrow> m;
       (_, m) \<leftarrow> mosquitto_loop log_app (Sel_ready True False False) (Some m) 1;
       m \<leftarrow> m;
       (_, m) \<leftarrow> mosquitto_loop log_app (Sel_ready True False False) (Some m) 1;
       m
     }"

lemma mosquitto_new_empty:
  assumes "mosquitto_new rand w cid clean_session userdata = (e, Some m)"
  shows "c_in_messages m = []"
  using assms unfolding mosquitto_new_def mosquitto_reinitialise_def Let_def
  by (auto simp: mosq_memset_def mosq_calloc_def mosq_alloc_def split: if_split_asm option.split_asm prod.split_asm bool.split_asm)

lemma demo_session_reachable:
  assumes "demo_session = Some m"
  shows "client_reachable log_app m"
proof -
  let ?env = "\<lambda>m. m\<lparr>e_now := 5, e_allocs := [], e_junk := \<lambda>_. 0,
         e_rx := [Rx_data [0x20, 2, 0, 0, 0x34, 6, 0, 1, 116, 0, 7, 33]], e_wr := [], e_connects := [(0, 3)]\<rparr>"
  obtain m0 rc1 m1 rc2 m2 rc3 where r: "snd (mosquitto_new (\<lambda>_. 0) (mosq_calloc []) (Some ''bob'') True []) = Some m0"
    "mosquitto_connect log_app (Some (?env m0)) (Some ''host'') 1883 60 = Some (rc1, Some m1)"
    "mosquitto_loop log_app (Sel_ready True False False) (Some m1) 1 = Some (rc2, Some m2)"
    "mosquitto_loop log_app (Sel_ready True False False) (Some m2) 1 = Some (rc3, Some m)"
    using assms by (auto simp: demo_session_def Let_def split: bind_splits)
  obtain e where n: "mosquitto_new (\<lambda>_. 0) (mosq_calloc []) (Some ''bob'') True ([] :: cb_event list) = (e, Some m0)"
    using r(1) by (metis prod.collapse)
  have "client_reachable log_app (?env m0)" using n by (blast intro: client_reachable.intros client_step.environment)
  moreover have "reset_safe (?env m0)" using mosquitto_new_empty [OF n] by (simp add: reset_safe_def)
  ultimately show ?thesis using r by (blast intro: client_reachable.step client_step.connect client_step.loop)
qed

lemma demo_session_runs: "map_option (\<lambda>m. (c_sock m, map ma_msg (c_in_messages m))) demo_session =
    Some (3, [received ''t'' 7 2 False [33]])"
  by code_simp

section \<open>Properties\<close>

text \<open>
  C9: every state a client can reach, from \<open>mosquitto_new\<close> through any sequence of calls of the
  interface (connecting, the setters, publishing, the rounds of the network loop) and whatever the network, the allocator and the
  clock do, satisfies the invariant of the message
  lists: the queue lengths are the lengths of the lists, the last pointers are right, only QoS 2
  messages wait for a PUBREL and the mutexes of the lists are free. The one call excluded is a
  new connect or reconnect with stored incoming and no outgoing messages.
\<close>
theorem client_reachable_msgs_ok:
  assumes "client_reachable app m" "quiet_app app"
  shows "msgs_ok m"
  using assms by (induction rule: client_reachable.induct) (blast intro: mosquitto_new_ok client_step_ok)+

theorem client_reachable_msgs_ok_witness:
  "\<exists>m. demo_session = Some m \<and> c_sock m = 3 \<and> map ma_msg (c_in_messages m) = [received ''t'' 7 2 False [33]] \<and> msgs_ok m"
proof -
  obtain m where m: "demo_session = Some m" "c_sock m = 3" "map ma_msg (c_in_messages m) = [received ''t'' 7 2 False [33]]"
    using demo_session_runs by auto
  have "msgs_ok m" by (rule client_reachable_msgs_ok [OF demo_session_reachable [OF m(1)]]) simp
  then show ?thesis using m by (intro exI [of _ m]) simp
qed



text \<open>
  C16: publishing with QoS 1 or 2 on a client whose network thread runs: the call succeeds with a
  message id that is not 0, the message is appended to the list of outgoing messages and kept
  there, and if fewer than \<open>max_inflight\<close> messages are in flight its PUBLISH packet is queued, with that id, and
  waits for PUBACK or PUBREC; otherwise nothing is sent yet.
\<close>
theorem publish_qos12:
  assumes "msgs_ok m" "e_allocs m = []" "c_threaded m" "c_sock m \<noteq> INVALID_SOCKET" "qos \<in> {1, 2}"
    and "topic \<noteq> []" "mosquitto_topic_wildcard_len_check (Some topic) = MOSQ_ERR_SUCCESS"
    and "length (publish_body topic 0 qos payload) < 268435456"
  shows "\<exists>mid m' ps. mid \<noteq> 0 \<and> msgs_ok m'
    \<and> mosquitto_publish app (Some m) (Some topic) (int (length payload)) (Some payload) qos retain =
        Some (MOSQ_ERR_SUCCESS, Some mid, Some m')
    \<and> c_out_messages m' = c_out_messages m @ [\<lparr>ma_timestamp = e_now m, ma_state = window_state m qos, ma_dup = False,
        ma_msg = stored_message topic mid qos retain payload\<rparr>]
    \<and> c_inflight_messages m' = c_inflight_messages m + of_bool (inflight_ok m)
    \<and> c_out_packet m' = c_out_packet m @ ps
    \<and> map left_of ps = (if inflight_ok m then [frame (publish_command qos retain False) (publish_body topic mid qos payload)] else [])"
  using publish_qos12_ok [OF assms, of app retain] by blast

theorem publish_qos12_witness:
  "\<exists>mid m' ps. mid \<noteq> 0
    \<and> mosquitto_publish log_app (Some demo_threaded) (Some ''t'') 2 (Some [1, 2]) 1 False = Some (MOSQ_ERR_SUCCESS, Some mid, Some m')
    \<and> c_out_packet m' = ps \<and> map left_of ps = [frame 0x32 (publish_body ''t'' mid 1 [1, 2])]"
  using publish_qos12 [of demo_threaded 1 "''t''" "[1, 2]" log_app False] demo_threaded_ready
  by (auto simp: net_ready_def publish_body_def demo_threaded_def demo_client_def mosq_calloc_def inflight_ok_def
      mosquitto_topic_wildcard_len_check_def publish_command_def)

text \<open>
  C35: when the broker does not answer a PINGREQ within the keepalive time, \<open>mosquitto_loop_misc\<close>
  reports the lost connection to the application twice: \<open>_mosquitto_check_keepalive\<close> closes the
  socket and calls \<open>on_disconnect\<close>, and the check behind it, which does not look at the socket,
  calls it again.
\<close>
theorem loop_misc_double_disconnect:
  assumes "c_keepalive m \<noteq> 0" "c_sock m \<noteq> INVALID_SOCKET" "c_ping_t m \<noteq> 0" "c_state m = mosq_cs_connected"
    and "e_now m - c_ping_t m \<ge> uint (c_keepalive m)" "c_last_msg_in m \<le> c_ping_t m"
    and "c_on_disconnect m" "\<not> c_callback_mutex m" "\<not> c_in_callback m"
    and "msgs_ok m" "c_out_messages m = []" "c_in_messages m = []"
  shows "\<exists>m'. mosquitto_loop_misc log_app (Some m) = Some (MOSQ_ERR_CONN_LOST, Some m')
    \<and> c_userdata m' = c_userdata m @ [On_disconnect 1, On_disconnect 1]"
proof -
  let ?m1 = "m\<lparr>c_sock := INVALID_SOCKET, c_userdata := c_userdata m @ [On_disconnect 1]\<rparr>"
  have k: "mosquitto_check_keepalive log_app m = Some ?m1"
    using assms by (simp add: mosquitto_check_keepalive_def Let_def mosquitto_socket_close_def callback_log)
  have "(if c_last_retry_check ?m1 + 1 < e_now m
      then do { n \<leftarrow> mosquitto_message_retry_check log_app ?m1; Some (n\<lparr>c_last_retry_check := e_now m\<rparr>) }
      else Some ?m1) = Some (?m1\<lparr>c_last_retry_check := if c_last_retry_check m + 1 < e_now m then e_now m else c_last_retry_check m\<rparr>)"
    using assms(10-12) retry_check_empty [of ?m1 log_app] by (simp add: msgs_ok_def)
  then show ?thesis using k assms
    by (simp add: mosquitto_loop_misc_def Let_def mosquitto_socket_close_def callback_log)
qed

theorem loop_misc_double_disconnect_witness:
  "\<exists>m'. mosquitto_loop_misc log_app (Some (demo_client\<lparr>e_now := 200, c_keepalive := 60, c_ping_t := 100, c_last_msg_in := 100\<rparr>))
      = Some (MOSQ_ERR_CONN_LOST, Some m')
    \<and> c_userdata m' = [On_disconnect 1, On_disconnect 1]"
  using loop_misc_double_disconnect [of "demo_client\<lparr>e_now := 200, c_keepalive := 60, c_ping_t := 100, c_last_msg_in := 100\<rparr>"]
  by (simp add: demo_client_def mosq_calloc_def msgs_ok_def end_of_def)

end
