(* ===== verification/App_Inv.thy ===== *)
theory App_Inv
  imports Client
begin

text \<open>
  Invariants of the application. The locale \<open>app_inv\<close> is the contract between an application and
  the library: a property \<open>P\<close> of its data that its callbacks keep, where the callbacks that
  sending can raise do not touch the data at all. Under that contract every call of the
  library's interface keeps \<open>P\<close>, whatever arrives from the network.
\<close>

interpretation ud: io_core c_userdata
  by unfold_locales simp_all

interpretation udr: read_frame c_userdata
  by unfold_locales simp_all

lemma ud_queue: "mosquitto_message_queue m x dir = Some m' \<Longrightarrow> c_userdata m' = c_userdata m"
  by (auto simp: mosquitto_message_queue_def Let_def split: msg_direction.splits bind_splits if_splits)

lemma ud_update: "mosquitto_message_out_update m mid st = Some (rc, m') \<Longrightarrow> c_userdata m' = c_userdata m"
  by (auto simp: mosquitto_message_out_update_def split: if_splits option.splits)

lemma ud_reconnect_reset: "mosquitto_messages_reconnect_reset m = Some m' \<Longrightarrow> c_userdata m' = c_userdata m"
  by (auto simp: mosquitto_messages_reconnect_reset_def Let_def split: bind_splits if_splits prod.splits)

lemma ud_socket_connect: "mosquitto_socket_connect m h p = (rc, m') \<Longrightarrow> c_userdata m' = c_userdata m"
  by (auto simp: mosquitto_socket_connect_def split: if_splits list.splits)

lemmas ud_dest = udr.rd_in_read udr.rd_alloc udr.rd_granted udr.rd_payload ud_queue ud_update

lemma ud_retry_loop:
  "retry_loop app dir i m = Some m' \<Longrightarrow> keeps_app c_userdata app \<Longrightarrow> c_userdata m' = c_userdata m"
proof (induction rule: retry_loop.raw_induct [rotated, consumes 1])
  case (1 loop app dir i m m')
  note sends = ud.keep_send_publish [OF 1(3)] ud.keep_send_command_with_mid [OF 1(3)]
  have put: "c_userdata (put_message dir i y m) = c_userdata m" for y
    by (cases dir) (simp_all add: put_message_def)
  show ?case
    using 1(2) put
    by (auto simp: Let_def mosquitto_send_pubrec_def mosquitto_send_pubrel_def dest!: 1(1) [OF _ 1(3)] sends
        split: if_splits bind_splits)
qed

lemma ud_retry_check:
  "mosquitto_message_retry_check app m = Some m' \<Longrightarrow> keeps_app c_userdata app \<Longrightarrow> c_userdata m' = c_userdata m"
  by (auto simp: mosquitto_message_retry_check_def mosquitto_message_retry_check_actual_def
      dest!: ud_retry_loop split: bind_splits if_splits)

locale app_inv =
  fixes app :: "'u app" and P :: "'u \<Rightarrow> bool"
  assumes keeps: "keeps_app c_userdata app"
    and inv: "\<lbrakk>app ev m = Some m'; P (c_userdata m)\<rbrakk> \<Longrightarrow> P (c_userdata m')"
begin

lemma inv_callback: "callback app ev m = Some m' \<Longrightarrow> P (c_userdata m) \<Longrightarrow> P (c_userdata m')"
  by (auto simp: callback_def callback_keep_lock_def Let_def dest: inv split: if_splits bind_splits)

lemmas ud_sends = ud.keep_packet_write [OF keeps] ud.keep_send_command_with_mid [OF keeps]
  ud.keep_send_simple_command [OF keeps] ud.keep_send_publish [OF keeps]
  ud.keep_send_connect [OF keeps] ud.keep_send_subscribe [OF keeps] ud.keep_send_unsubscribe [OF keeps]

lemma ud_acks:
  "mosquitto_send_puback app m mid = Some (rc, m') \<Longrightarrow> c_userdata m' = c_userdata m"
  "mosquitto_send_pubrec app m mid = Some (rc, m') \<Longrightarrow> c_userdata m' = c_userdata m"
  "mosquitto_send_pubcomp app m mid = Some (rc, m') \<Longrightarrow> c_userdata m' = c_userdata m"
  "mosquitto_send_pubrel app m mid dup = Some (rc, m') \<Longrightarrow> c_userdata m' = c_userdata m"
  "mosquitto_send_pingresp app m = Some (rc, m') \<Longrightarrow> c_userdata m' = c_userdata m"
  "mosquitto_send_disconnect app m = Some (rc, m') \<Longrightarrow> c_userdata m' = c_userdata m"
  unfolding mosquitto_send_puback_def mosquitto_send_pubrec_def mosquitto_send_pubcomp_def
    mosquitto_send_pubrel_def mosquitto_send_pingresp_def mosquitto_send_disconnect_def
  by (auto dest: ud_sends)

lemma ud_pingreq: "mosquitto_send_pingreq app m = Some (rc, m') \<Longrightarrow> c_userdata m' = c_userdata m"
  by (auto simp: mosquitto_send_pingreq_def Let_def dest: ud_sends split: bind_splits if_splits)

lemma ud_resend_loop: "resend_loop app i k m = Some (rc, m') \<Longrightarrow> c_userdata m' = c_userdata m"
proof (induction k arbitrary: i m rc m')
  case (Suc k)
  then show ?case by (auto simp: Let_def dest!: ud_sends split: if_splits bind_splits)
qed auto

lemma ud_remove: "mosquitto_message_remove app m mid dir = Some (rc, x, m') \<Longrightarrow> c_userdata m' = c_userdata m"
  by (auto simp: mosquitto_message_remove_def Let_def dest!: ud_resend_loop
      split: msg_direction.splits if_splits option.splits bind_splits)

lemma ud_delete: "mosquitto_message_delete app m mid dir = Some (rc, m') \<Longrightarrow> c_userdata m' = c_userdata m"
  by (auto simp: mosquitto_message_delete_def dest: ud_remove split: bind_splits)

text \<open>The handlers call back with the message, the acknowledgement or the result.\<close>

lemma inv_deliver: "publish_deliver app m x = Some (rc, m') \<Longrightarrow> P (c_userdata m) \<Longrightarrow> P (c_userdata m')"
  by (auto simp: publish_deliver_def Let_def dest!: ud_acks ud_queue split: if_splits bind_splits)
     (metis inv_callback)+

lemma inv_publish:
  "mosquitto_handle_publish app m = Some (rc, m') \<Longrightarrow> P (c_userdata m) \<Longrightarrow> P (c_userdata m')"
  using udr.rd_handle_publish [of app m rc m'] inv_deliver by metis

lemma inv_acked: "mosquitto_handle_pubackcomp app m = Some (rc, m') \<Longrightarrow> P (c_userdata m) \<Longrightarrow> P (c_userdata m')"
  by (auto simp: mosquitto_handle_pubackcomp_def dest!: ud_dest ud_delete split: if_splits bind_splits)
     (metis inv_callback)

lemma ud_pubrec: "mosquitto_handle_pubrec app m = Some (rc, m') \<Longrightarrow> c_userdata m' = c_userdata m"
  by (auto simp: mosquitto_handle_pubrec_def dest!: ud_dest ud_acks split: if_splits bind_splits)

lemma inv_pubrel: "mosquitto_handle_pubrel app m = Some (rc, m') \<Longrightarrow> P (c_userdata m) \<Longrightarrow> P (c_userdata m')"
  by (auto simp: mosquitto_handle_pubrel_def dest!: ud_dest ud_remove ud_acks
      split: if_splits bind_splits option.splits) (metis inv_callback)+

lemma inv_sub_acks:
  "mosquitto_handle_suback app m = Some (rc, m') \<Longrightarrow> P (c_userdata m) \<Longrightarrow> P (c_userdata m')"
  "mosquitto_handle_unsuback app m = Some (rc, m') \<Longrightarrow> P (c_userdata m) \<Longrightarrow> P (c_userdata m')"
  "mosquitto_handle_connack app m = Some (rc, m') \<Longrightarrow> P (c_userdata m) \<Longrightarrow> P (c_userdata m')"
  by (auto simp: mosquitto_handle_suback_def mosquitto_handle_unsuback_def mosquitto_handle_connack_def Let_def
      dest!: ud_dest split: if_splits bind_splits prod.splits bool.splits) (metis inv_callback)+

lemma inv_packet_handle:
  assumes "mosquitto_packet_handle app m = Some (rc, m')" "P (c_userdata m)"
  shows "P (c_userdata m')"
  using assms inv_publish [of m rc m'] inv_acked [of m rc m'] ud_pubrec [of m rc m'] inv_pubrel [of m rc m']
    inv_sub_acks [of m rc m'] ud_acks(5) [of m rc m']
  by (auto simp: mosquitto_packet_handle_def Let_def mosquitto_handle_pingreq_def mosquitto_handle_pingresp_def
      split: if_splits)

lemma inv_packet_read:
  assumes "mosquitto_packet_read app m = Some (rc, m')" "P (c_userdata m)"
  shows "P (c_userdata m')"
  using assms udr.rd_packet_read_in [of m]
  by (fastforce simp: mosquitto_packet_read_def Let_def dest: inv_packet_handle split: if_splits bind_splits option.splits)

lemma ud_close [simp]: "c_userdata (mosquitto_socket_close m) = c_userdata m"
  by (simp add: mosquitto_socket_close_def)

lemma inv_rc_handle:
  "mosquitto_loop_rc_handle app m rc = Some (rc', m') \<Longrightarrow> P (c_userdata m) \<Longrightarrow> P (c_userdata m')"
  by (auto simp: mosquitto_loop_rc_handle_def Let_def dest: inv_callback split: if_splits bind_splits)

lemma inv_read_rounds:
  "loop_read_rounds app k rc m = Some (rc', m') \<Longrightarrow> P (c_userdata m) \<Longrightarrow> P (c_userdata m')"
  by (induction k arbitrary: rc m) (fastforce dest: inv_packet_read inv_rc_handle split: bind_splits if_splits)+

lemma inv_write_rounds:
  "loop_write_rounds app k rc m = Some (rc', m') \<Longrightarrow> P (c_userdata m) \<Longrightarrow> P (c_userdata m')"
  by (induction k arbitrary: rc m) (fastforce dest!: ud_sends(1) dest: inv_rc_handle split: bind_splits if_splits)+

lemma inv_check_keepalive:
  "mosquitto_check_keepalive app m = Some m' \<Longrightarrow> P (c_userdata m) \<Longrightarrow> P (c_userdata m')"
  by (auto simp: mosquitto_check_keepalive_def Let_def dest!: ud_pingreq dest: inv_callback
      split: if_splits bind_splits)

lemma inv_loop_misc:
  assumes "mosquitto_loop_misc app (Some m) = Some (rc, Some m')" "P (c_userdata m)"
  shows "P (c_userdata m')"
proof (cases "c_sock m = INVALID_SOCKET")
  case False
  then obtain m1 m2 where s: "mosquitto_check_keepalive app m = Some m1"
    "(if c_last_retry_check m1 + 1 < e_now m
      then do { n \<leftarrow> mosquitto_message_retry_check app m1; Some (n\<lparr>c_last_retry_check := e_now m\<rparr>) }
      else Some m1) = Some m2"
    "m' = m2 \<or> callback app (On_disconnect (if c_state (mosquitto_socket_close m2) = mosq_cs_disconnecting
      then MOSQ_ERR_SUCCESS else 1)) (mosquitto_socket_close m2) = Some m'"
    using assms(1) by (auto simp: mosquitto_loop_misc_def Let_def split: bind_splits if_splits)
  have "P (c_userdata m1)" using inv_check_keepalive [OF s(1)] assms(2) .
  then have "P (c_userdata m2)"
    using s(2) ud_retry_check [OF _ keeps, of m1] by (auto split: if_splits bind_splits)
  then show ?thesis using s(3) inv_callback by fastforce
qed (use assms in \<open>simp add: mosquitto_loop_misc_def\<close>)

lemma inv_loop_parts:
  "mosquitto_loop_read app m k = Some (rc, m') \<Longrightarrow> P (c_userdata m) \<Longrightarrow> P (c_userdata m')"
  "mosquitto_loop_write app m k = Some (rc, m') \<Longrightarrow> P (c_userdata m) \<Longrightarrow> P (c_userdata m')"
  by (auto simp: mosquitto_loop_read_def mosquitto_loop_write_def dest: inv_read_rounds inv_write_rounds split: if_splits)

lemma inv_loop:
  assumes "mosquitto_loop app sel (Some m) k = Some (rc, Some m')" "P (c_userdata m)"
  shows "P (c_userdata m')"
proof (cases sel)
  case (Sel_err e)
  then show ?thesis using assms by (auto simp: mosquitto_loop_def Let_def split: if_splits)
next
  case (Sel_ready r p w)
  show ?thesis
    using assms Sel_ready unfolding mosquitto_loop_def Let_def
    by (simp split: if_split_asm bind_split_asm prod.split_asm) (blast dest: inv_loop_parts inv_loop_misc)+
qed

lemma ud_publish_queued: "publish_queued app m mid t pl p q r = Some (rc, m') \<Longrightarrow> c_userdata m' = c_userdata m"
  by (auto simp: publish_queued_def Let_def dest!: ud_queue ud_sends(4) split: if_splits bind_splits)

lemma ud_publish_call:
  "mosquitto_publish app (Some m) t pl p q r = Some (rc, mid, Some m') \<Longrightarrow> c_userdata m' = c_userdata m"
  unfolding mosquitto_publish_def
  by (auto split: option.split_asm if_split_asm prod.split_asm bool.split_asm bind_split_asm
      dest!: ud.keep_mid_generate ud.keep_alloc ud_sends(4) ud_publish_queued)

lemma ud_subscribe_call:
  "mosquitto_subscribe app (Some m) sub q = Some (rc, mid, Some m') \<Longrightarrow> c_userdata m' = c_userdata m"
  by (auto simp: mosquitto_subscribe_def dest!: ud_sends(6) split: if_splits bind_splits)

lemma ud_disconnect_call: "mosquitto_disconnect app (Some m) = Some (rc, Some m') \<Longrightarrow> c_userdata m' = c_userdata m"
  by (auto simp: mosquitto_disconnect_def Let_def dest!: ud_acks(6) split: if_splits bind_splits)

lemma ud_reconnect_call:
  assumes "mosquitto_reconnect app (Some m) = Some (rc, Some m')"
  shows "c_userdata m' = c_userdata m"
proof -
  let ?m = "m\<lparr>c_state := mosq_cs_new, c_last_msg_in := e_now m, c_last_msg_out := e_now m, c_ping_t := 0,
      c_in_packet := mosquitto_packet_cleanup (c_in_packet m), c_current_out_packet := None, c_out_packet := []\<rparr>"
  show ?thesis
  proof (cases "c_host m = None \<or> c_port m \<le> 0")
    case True
    then show ?thesis using assms by (auto simp: mosquitto_reconnect_def mosquitto_reconnect_int_def)
  next
    case False
    then obtain m1 where r: "mosquitto_messages_reconnect_reset ?m = Some m1"
      using assms by (auto simp: mosquitto_reconnect_def mosquitto_reconnect_int_def Let_def split: if_splits bind_splits)
    obtain rc2 m2 where c: "mosquitto_socket_connect m1 (c_host m1) (of_int (c_port m1)) = (rc2, m2)" by fastforce
    have "c_userdata m2 = c_userdata m" using ud_reconnect_reset [OF r] ud_socket_connect [OF c] by simp
    moreover have "m' = m2 \<or> mosquitto_send_connect app m2 (c_keepalive m2) (c_clean_session m2) = Some (rc, m')"
      using assms False unfolding mosquitto_reconnect_def mosquitto_reconnect_int_def Let_def
      by (simp only: r c option.case bind.bind_lunit prod.case)
         (auto split: if_split_asm bind_split_asm prod.split_asm)
    ultimately show ?thesis using ud_sends(5) by fastforce
  qed
qed

lemma ud_connect_call:
  assumes "mosquitto_connect app (Some m) host port keepalive = Some (rc, Some m')"
  shows "c_userdata m' = c_userdata m"
proof -
  obtain rc1 m1 where i: "mosquitto_connect_init (Some m) host port keepalive None = Some (rc1, Some m1)"
    using assms by (auto simp: mosquitto_connect_def mosquitto_connect_bind_def split: bind_splits if_splits option.splits)
  have "c_userdata m1 = c_userdata m"
    using i by (auto simp: mosquitto_connect_init_def Let_def dest!: ud.keep_alloc split: if_splits prod.splits bool.splits)
  then show ?thesis
    using assms i ud_reconnect_call [of "m1\<lparr>c_state := mosq_cs_new\<rparr>"]
    by (auto simp: mosquitto_connect_def mosquitto_connect_bind_def split: if_splits)
qed

end

end
