(* ===== verification/Uthash.thy ===== *)
theory Uthash
  imports Prelude
begin

text \<open>
  Hash tables. The locale \<open>hash_table\<close> states what the users of uthash rely on: the elements are
  kept in the order they were added, a lookup finds an element with the key if there is one, and a
  deletion takes out exactly the element it is given. psn takes uthash from a submodule; the
  repository carries version 1.9.8 of the same header for the broker
  (\<open>mosquitto/src/uthash.h\<close>), which is modelled here: the macros with their default hash function,
  bucket chains and the doubling of the buckets. An interpretation shows that it keeps the
  contract.

  An element is a value \<open>'v\<close> with its key, a C string; two elements are the same object when they
  are equal, so objects that can have equal contents carry their address. The bucket count is a
  natural number: 2^31 buckets and more (arrays of 32 GB) are out of the model.
\<close>

unbundle bit_operations_syntax

section \<open>The contract of a hash table\<close>

record ('h, 'v) hash_ops =
  ho_null :: 'h
  ho_find :: "'h \<Rightarrow> string \<Rightarrow> 'v option"
  ho_add :: "'h \<Rightarrow> 'v \<Rightarrow> 'h"
  ho_del :: "'h \<Rightarrow> 'v \<Rightarrow> 'h"
  ho_items :: "'h \<Rightarrow> 'v list"

locale hash_table =
  fixes ops :: "('h, 'v) hash_ops" and key :: "'v \<Rightarrow> string" and ok :: "'h \<Rightarrow> bool"
  assumes ok_null: "ok (ho_null ops)"
    and items_null: "ho_items ops (ho_null ops) = []"
    and ok_add: "\<lbrakk>ok h; v \<notin> set (ho_items ops h)\<rbrakk> \<Longrightarrow> ok (ho_add ops h v)"
    and items_add: "\<lbrakk>ok h; v \<notin> set (ho_items ops h)\<rbrakk> \<Longrightarrow> ho_items ops (ho_add ops h v) = ho_items ops h @ [v]"
    and ok_del: "\<lbrakk>ok h; v \<in> set (ho_items ops h)\<rbrakk> \<Longrightarrow> ok (ho_del ops h v)"
    and items_del: "\<lbrakk>ok h; v \<in> set (ho_items ops h)\<rbrakk> \<Longrightarrow> ho_items ops (ho_del ops h v) = remove1 v (ho_items ops h)"
    and find_SomeD: "\<lbrakk>ok h; ho_find ops h k = Some v\<rbrakk> \<Longrightarrow> v \<in> set (ho_items ops h) \<and> key v = k"
    and find_NoneD: "\<lbrakk>ok h; ho_find ops h k = None\<rbrakk> \<Longrightarrow> k \<notin> key ` set (ho_items ops h)"
    and distinct_items: "ok h \<Longrightarrow> distinct (ho_items ops h)"
begin

definition keys :: "'h \<Rightarrow> string set" where
  "keys h = key ` set (ho_items ops h)"

lemma keys_null [simp]: "keys (ho_null ops) = {}"
  by (simp add: keys_def items_null)

lemma keys_add: "\<lbrakk>ok h; v \<notin> set (ho_items ops h)\<rbrakk> \<Longrightarrow> keys (ho_add ops h v) = insert (key v) (keys h)"
  by (simp add: keys_def items_add)

lemma find_None_iff: "ok h \<Longrightarrow> ho_find ops h k = None \<longleftrightarrow> k \<notin> keys h"
  unfolding keys_def using find_NoneD [of h k] find_SomeD [of h k] by (cases "ho_find ops h k") auto

lemma find_Some_ex: "\<lbrakk>ok h; k \<in> keys h\<rbrakk> \<Longrightarrow> \<exists>v. ho_find ops h k = Some v \<and> v \<in> set (ho_items ops h) \<and> key v = k"
  using find_None_iff [of h k] find_SomeD [of h k] by (cases "ho_find ops h k") auto

lemma set_items_del:
  "\<lbrakk>ok h; v \<in> set (ho_items ops h)\<rbrakk> \<Longrightarrow> set (ho_items ops (ho_del ops h v)) = set (ho_items ops h) - {v}"
  by (simp add: items_del distinct_items set_remove1_eq)

lemma keys_del:
  assumes "ok h" "v \<in> set (ho_items ops h)" "inj_on key (set (ho_items ops h))"
  shows "keys (ho_del ops h v) = keys h - {key v}"
  unfolding keys_def set_items_del [OF assms(1,2)] using inj_on_image_set_diff [OF assms(3)] assms(2) by simp

lemma inj_add:
  "\<lbrakk>ok h; v \<notin> set (ho_items ops h); inj_on key (set (ho_items ops h)); key v \<notin> keys h\<rbrakk> \<Longrightarrow>
     inj_on key (set (ho_items ops (ho_add ops h v)))"
  by (simp add: items_add keys_def)

lemma inj_del:
  "\<lbrakk>ok h; v \<in> set (ho_items ops h); inj_on key (set (ho_items ops h))\<rbrakk> \<Longrightarrow>
     inj_on key (set (ho_items ops (ho_del ops h v)))"
  by (simp add: set_items_del inj_on_diff)

end

section \<open>The hash function\<close>

definition HASH_JEN_MIX :: "u32 \<times> u32 \<times> u32 \<Rightarrow> u32 \<times> u32 \<times> u32" where
  "HASH_JEN_MIX abc =
     (let (a, b, c) = abc;
          a = (a - b - c) XOR drop_bit 13 c;
          b = (b - c - a) XOR push_bit 8 a;
          c = (c - a - b) XOR drop_bit 13 b;
          a = (a - b - c) XOR drop_bit 12 c;
          b = (b - c - a) XOR push_bit 16 a;
          c = (c - a - b) XOR drop_bit 5 b;
          a = (a - b - c) XOR drop_bit 3 c;
          b = (b - c - a) XOR push_bit 10 a;
          c = (c - a - b) XOR drop_bit 15 b
      in (a, b, c))"

text \<open>Four bytes as a little-endian word; bytes that the key does not have count nothing.\<close>

definition le_byte :: "u8 list \<Rightarrow> nat \<Rightarrow> nat \<Rightarrow> u32" where
  "le_byte k i s = (if i < length k then push_bit s (ucast (k ! i)) else 0)"

function jen_loop :: "u8 list \<Rightarrow> u32 \<times> u32 \<times> u32 \<Rightarrow> u8 list \<times> u32 \<times> u32 \<times> u32" where
  "jen_loop k ijh =
     (if length k \<ge> 12 then
        (let (i, j, h) = ijh;
             i = i + (le_byte k 0 0 + le_byte k 1 8 + le_byte k 2 16 + le_byte k 3 24);
             j = j + (le_byte k 4 0 + le_byte k 5 8 + le_byte k 6 16 + le_byte k 7 24);
             h = h + (le_byte k 8 0 + le_byte k 9 8 + le_byte k 10 16 + le_byte k 11 24)
         in jen_loop (drop 12 k) (HASH_JEN_MIX (i, j, h)))
      else (k, ijh))"
  by pat_completeness auto
termination by (relation "measure (\<lambda>(k, _). length k)") auto

definition HASH_JEN :: "u8 list \<Rightarrow> u32" where
  "HASH_JEN key =
     (let (k, i, j, h) = jen_loop key (0x9e3779b9, 0x9e3779b9, 0xfeedbeef);
          h = h + of_nat (length key);
          h = h + le_byte k 10 24 + le_byte k 9 16 + le_byte k 8 8;
          j = j + le_byte k 7 24 + le_byte k 6 16 + le_byte k 5 8 + le_byte k 4 0;
          i = i + le_byte k 3 24 + le_byte k 2 16 + le_byte k 1 8 + le_byte k 0 0;
          (i, j, h) = HASH_JEN_MIX (i, j, h)
      in h)"

section \<open>Tables\<close>

record 'v ut_bucket =
  hb_chain :: "'v list"
  hb_count :: nat
  hb_expand_mult :: nat

text \<open>
  \<open>UT_hash_table\<close> with the list of its elements in the order of the application (head to tail). A
  table exists as long as it has an element: the head pointer is an option.
\<close>

record 'v ut_table =
  ut_items :: "'v list"
  ut_buckets :: "'v ut_bucket list"
  ut_num_buckets :: nat
  ut_log2_num_buckets :: nat
  ut_num_items :: nat
  ut_ideal_chain_maxlen :: nat
  ut_nonideal_items :: nat
  ut_ineff_expands :: nat
  ut_noexpand :: bool

definition empty_bucket :: "'v ut_bucket" where
  "empty_bucket = \<lparr>hb_chain = [], hb_count = 0, hb_expand_mult = 0\<rparr>"

definition HASH_MAKE_TABLE :: "'v ut_table" where
  "HASH_MAKE_TABLE = \<lparr>ut_items = [], ut_buckets = replicate 32 empty_bucket, ut_num_buckets = 32,
     ut_log2_num_buckets = 5, ut_num_items = 0, ut_ideal_chain_maxlen = 0, ut_nonideal_items = 0,
     ut_ineff_expands = 0, ut_noexpand = False\<rparr>"

definition HASH_TO_BKT :: "u32 \<Rightarrow> nat \<Rightarrow> nat" where
  "HASH_TO_BKT hashv num_bkts = unat hashv AND (num_bkts - 1)"

definition hashv_of :: "('v \<Rightarrow> string) \<Rightarrow> 'v \<Rightarrow> u32" where
  "hashv_of key v = HASH_JEN (bytes_of_string (key v))"

fun HASH_FIND_IN_BKT :: "('v \<Rightarrow> string) \<Rightarrow> 'v list \<Rightarrow> string \<Rightarrow> 'v option" where
  "HASH_FIND_IN_BKT key [] k = None"
| "HASH_FIND_IN_BKT key (v # vs) k =
     (if length (key v) = length k \<and> key v = k then Some v else HASH_FIND_IN_BKT key vs k)"

definition HASH_FIND :: "('v \<Rightarrow> string) \<Rightarrow> 'v ut_table option \<Rightarrow> string \<Rightarrow> 'v option" where
  "HASH_FIND key head k =
     (case head of
        None \<Rightarrow> None
      | Some tbl \<Rightarrow>
          HASH_FIND_IN_BKT key (hb_chain (ut_buckets tbl ! HASH_TO_BKT (HASH_JEN (bytes_of_string k)) (ut_num_buckets tbl))) k)"

text \<open>One element of the old buckets is put in front of the chain of its new bucket.\<close>

definition expand_step ::
    "('v \<Rightarrow> string) \<Rightarrow> nat \<Rightarrow> nat \<Rightarrow> 'v \<Rightarrow> 'v ut_bucket list \<times> nat \<Rightarrow> 'v ut_bucket list \<times> nat" where
  "expand_step key num ideal v st =
     (let (bs, nonideal) = st;
          i = HASH_TO_BKT (hashv_of key v) (num * 2);
          b = bs ! i;
          c = hb_count b + 1;
          mult = (if c > ideal then c div ideal else hb_expand_mult b)
      in (bs[i := \<lparr>hb_chain = v # hb_chain b, hb_count = c, hb_expand_mult = mult\<rparr>],
          if c > ideal then nonideal + 1 else nonideal))"

definition HASH_EXPAND_BUCKETS :: "('v \<Rightarrow> string) \<Rightarrow> 'v ut_table \<Rightarrow> 'v ut_table" where
  "HASH_EXPAND_BUCKETS key tbl =
     (let num = ut_num_buckets tbl; items = ut_num_items tbl;
          ideal = drop_bit (ut_log2_num_buckets tbl + 1) items + (if items AND (num * 2 - 1) \<noteq> 0 then 1 else 0);
          (bs, nonideal) = fold (expand_step key num ideal) (concat (map hb_chain (ut_buckets tbl)))
            (replicate (2 * num) empty_bucket, 0);
          ineff = (if nonideal > drop_bit 1 items then ut_ineff_expands tbl + 1 else 0)
      in tbl\<lparr>ut_buckets := bs, ut_num_buckets := num * 2, ut_log2_num_buckets := ut_log2_num_buckets tbl + 1,
           ut_ideal_chain_maxlen := ideal, ut_nonideal_items := nonideal, ut_ineff_expands := ineff,
           ut_noexpand := (if ineff > 1 then True else ut_noexpand tbl)\<rparr>)"

definition HASH_ADD_TO_BKT :: "('v \<Rightarrow> string) \<Rightarrow> 'v ut_table \<Rightarrow> nat \<Rightarrow> 'v \<Rightarrow> 'v ut_table" where
  "HASH_ADD_TO_BKT key tbl i v =
     (let b = ut_buckets tbl ! i;
          b = b\<lparr>hb_count := hb_count b + 1, hb_chain := v # hb_chain b\<rparr>;
          tbl = tbl\<lparr>ut_buckets := (ut_buckets tbl)[i := b]\<rparr>
      in if hb_count b \<ge> (hb_expand_mult b + 1) * 10 \<and> \<not> ut_noexpand tbl
         then HASH_EXPAND_BUCKETS key tbl else tbl)"

definition HASH_ADD :: "('v \<Rightarrow> string) \<Rightarrow> 'v ut_table option \<Rightarrow> 'v \<Rightarrow> 'v ut_table option" where
  "HASH_ADD key head v =
     (let tbl = (case head of None \<Rightarrow> HASH_MAKE_TABLE | Some tbl \<Rightarrow> tbl);
          tbl = tbl\<lparr>ut_items := ut_items tbl @ [v], ut_num_items := ut_num_items tbl + 1\<rparr>
      in Some (HASH_ADD_TO_BKT key tbl (HASH_TO_BKT (hashv_of key v) (ut_num_buckets tbl)) v))"

definition HASH_DEL_IN_BKT :: "'v ut_bucket \<Rightarrow> 'v \<Rightarrow> 'v ut_bucket" where
  "HASH_DEL_IN_BKT b v = b\<lparr>hb_count := hb_count b - 1, hb_chain := remove1 v (hb_chain b)\<rparr>"

text \<open>\<open>HASH_DELETE\<close> is only used on elements of the table.\<close>

definition HASH_DELETE :: "('v \<Rightarrow> string) \<Rightarrow> 'v ut_table option \<Rightarrow> 'v \<Rightarrow> 'v ut_table option" where
  "HASH_DELETE key head v =
     (case head of
        None \<Rightarrow> None
      | Some tbl \<Rightarrow>
          if ut_items tbl = [v] then None
          else
            (let i = HASH_TO_BKT (hashv_of key v) (ut_num_buckets tbl)
             in Some (tbl\<lparr>ut_items := remove1 v (ut_items tbl),
                  ut_buckets := (ut_buckets tbl)[i := HASH_DEL_IN_BKT (ut_buckets tbl ! i) v],
                  ut_num_items := ut_num_items tbl - 1\<rparr>)))"

definition ut_iterate :: "'v ut_table option \<Rightarrow> 'v list" where
  "ut_iterate head = (case head of None \<Rightarrow> [] | Some tbl \<Rightarrow> ut_items tbl)"

definition uthash :: "('v \<Rightarrow> string) \<Rightarrow> ('v ut_table option, 'v) hash_ops" where
  "uthash key = \<lparr>ho_null = None, ho_find = HASH_FIND key, ho_add = HASH_ADD key, ho_del = HASH_DELETE key,
     ho_items = ut_iterate\<rparr>"


section \<open>The tables keep the contract\<close>

text \<open>Every chain holds the elements whose hash value belongs to its bucket, each once.\<close>

definition chains_ok :: "('v \<Rightarrow> string) \<Rightarrow> 'v list \<Rightarrow> 'v ut_bucket list \<Rightarrow> bool" where
  "chains_ok key vs bs \<longleftrightarrow> (\<forall>i < length bs. distinct (hb_chain (bs ! i)) \<and> hb_count (bs ! i) = length (hb_chain (bs ! i)) \<and>
     set (hb_chain (bs ! i)) = {v \<in> set vs. HASH_TO_BKT (hashv_of key v) (length bs) = i})"

definition ut_ok :: "('v \<Rightarrow> string) \<Rightarrow> 'v ut_table option \<Rightarrow> bool" where
  "ut_ok key head \<longleftrightarrow>
     (case head of
        None \<Rightarrow> True
      | Some tbl \<Rightarrow> ut_items tbl \<noteq> [] \<and> distinct (ut_items tbl) \<and> ut_num_items tbl = length (ut_items tbl) \<and>
          ut_num_buckets tbl = 2 ^ ut_log2_num_buckets tbl \<and> length (ut_buckets tbl) = ut_num_buckets tbl \<and>
          chains_ok key (ut_items tbl) (ut_buckets tbl))"

lemma to_bkt_mod: "HASH_TO_BKT hashv (2 ^ k) = unat hashv mod 2 ^ k"
  unfolding HASH_TO_BKT_def mask_eq_exp_minus_1 [symmetric] by (simp add: flip: take_bit_eq_mask take_bit_eq_mod)

lemma to_bkt_less [simp]: "HASH_TO_BKT hashv (2 ^ k) < 2 ^ k"
  by (simp add: to_bkt_mod)

lemma chains_ok_cong: "set vs = set ws \<Longrightarrow> chains_ok key vs bs = chains_ok key ws bs"
  by (simp add: chains_ok_def)

lemma chains_ok_empty: "chains_ok key [] (replicate n empty_bucket)"
  by (simp add: chains_ok_def empty_bucket_def)

lemma chains_ok_insert:
  assumes "chains_ok key vs bs" "length bs = 2 ^ k" "v \<notin> set vs"
    and "i = HASH_TO_BKT (hashv_of key v) (2 ^ k)" "hb_chain b = v # hb_chain (bs ! i)" "hb_count b = hb_count (bs ! i) + 1"
  shows "chains_ok key (v # vs) (bs[i := b])"
proof -
  have i: "i < length bs" using assms(2,4) by simp
  have c: "distinct (hb_chain (bs ! j))" "hb_count (bs ! j) = length (hb_chain (bs ! j))"
    "set (hb_chain (bs ! j)) = {v \<in> set vs. HASH_TO_BKT (hashv_of key v) (length bs) = j}" if "j < length bs" for j
    using assms(1) that by (auto simp: chains_ok_def)
  show ?thesis unfolding chains_ok_def
  proof (intro allI impI)
    fix j assume "j < length (bs[i := b])"
    then have j: "j < length bs" by simp
    show "distinct (hb_chain (bs[i := b] ! j)) \<and> hb_count (bs[i := b] ! j) = length (hb_chain (bs[i := b] ! j)) \<and>
      set (hb_chain (bs[i := b] ! j)) = {w \<in> set (v # vs). HASH_TO_BKT (hashv_of key w) (length (bs[i := b])) = j}"
      using c [OF j] c [OF i] assms(2-6) i by (cases "j = i") (auto simp: nth_list_update)
  qed
qed

lemma chains_ok_delete:
  assumes "chains_ok key vs bs" "length bs = 2 ^ k" "v \<in> set vs" "distinct vs"
    and "i = HASH_TO_BKT (hashv_of key v) (2 ^ k)"
  shows "chains_ok key (remove1 v vs) (bs[i := HASH_DEL_IN_BKT (bs ! i) v])"
proof -
  have i: "i < length bs" using assms(2,5) by simp
  have c: "distinct (hb_chain (bs ! j))" "hb_count (bs ! j) = length (hb_chain (bs ! j))"
    "set (hb_chain (bs ! j)) = {v \<in> set vs. HASH_TO_BKT (hashv_of key v) (length bs) = j}" if "j < length bs" for j
    using assms(1) that by (auto simp: chains_ok_def)
  have v: "v \<in> set (hb_chain (bs ! i))" using c(3) [OF i] assms(2,3,5) by simp
  show ?thesis unfolding chains_ok_def
  proof (intro allI impI)
    fix j assume "j < length (bs[i := HASH_DEL_IN_BKT (bs ! i) v])"
    then have j: "j < length bs" by simp
    show "distinct (hb_chain (bs[i := HASH_DEL_IN_BKT (bs ! i) v] ! j)) \<and>
      hb_count (bs[i := HASH_DEL_IN_BKT (bs ! i) v] ! j) = length (hb_chain (bs[i := HASH_DEL_IN_BKT (bs ! i) v] ! j)) \<and>
      set (hb_chain (bs[i := HASH_DEL_IN_BKT (bs ! i) v] ! j)) =
        {w \<in> set (remove1 v vs). HASH_TO_BKT (hashv_of key w) (length (bs[i := HASH_DEL_IN_BKT (bs ! i) v])) = j}"
      using c [OF j] assms(2-5) i v
      by (cases "j = i") (auto simp: nth_list_update HASH_DEL_IN_BKT_def length_remove1)
  qed
qed

lemma expand_fold_ok:
  assumes "distinct (ws @ vs)" "chains_ok key vs bs" "length bs = 2 ^ k" "2 ^ k = num * 2"
  shows "chains_ok key (ws @ vs) (fst (fold (expand_step key num ideal) ws (bs, n))) \<and>
    length (fst (fold (expand_step key num ideal) ws (bs, n))) = 2 ^ k"
  using assms
proof (induction ws arbitrary: vs bs n)
  case (Cons w ws)
  define b where "b = fst (expand_step key num ideal w (bs, n))"
  have "chains_ok key (w # vs) b" unfolding b_def expand_step_def Let_def prod.case fst_conv
    by (rule chains_ok_insert [OF Cons.prems(2,3)]) (use Cons.prems in auto)
  moreover have "length b = 2 ^ k" using Cons.prems(3) by (simp add: b_def expand_step_def Let_def)
  ultimately have "chains_ok key (ws @ w # vs) (fst (fold (expand_step key num ideal) ws (b, m))) \<and>
      length (fst (fold (expand_step key num ideal) ws (b, m))) = 2 ^ k" for m
    using Cons.IH [of "w # vs" b m] Cons.prems by auto
  moreover obtain m where "expand_step key num ideal w (bs, n) = (b, m)" by (metis b_def prod.collapse)
  moreover have "chains_ok key (ws @ w # vs) = chains_ok key ((w # ws) @ vs)" by (rule ext, rule chains_ok_cong) auto
  ultimately show ?case by simp
qed simp

lemma expand_chains:
  assumes "chains_ok key vs bs" "distinct vs" "length bs = 2 ^ k"
  shows "distinct (concat (map hb_chain bs))" "set (concat (map hb_chain bs)) = set vs"
proof -
  have c: "distinct (hb_chain (bs ! j))"
    "set (hb_chain (bs ! j)) = {v \<in> set vs. HASH_TO_BKT (hashv_of key v) (length bs) = j}" if "j < length bs" for j
    using assms(1) that by (auto simp: chains_ok_def)
  have s: "set (concat (map hb_chain bs)) = (\<Union>j < length bs. set (hb_chain (bs ! j)))"
    by (force simp: set_conv_nth [of bs])
  also have "\<dots> = set vs" using c(2) assms(3) by auto
  finally show "set (concat (map hb_chain bs)) = set vs" .
  have "distinct (concat (map hb_chain (take n bs)))" if "n \<le> length bs" for n
    using that
  proof (induction n)
    case (Suc n)
    then have n: "n < length bs" by simp
    have "set (concat (map hb_chain (take n bs))) \<inter> set (hb_chain (bs ! n)) = {}"
      using c(2) n by (fastforce simp: set_conv_nth [of "take n bs"])
    then show ?case using Suc n c(1) [OF n] by (simp add: take_Suc_conv_app_nth)
  qed simp
  from this [of "length bs"] show "distinct (concat (map hb_chain bs))" by simp
qed

lemma expand_ok:
  assumes "ut_ok key (Some tbl)"
  shows "ut_ok key (Some (HASH_EXPAND_BUCKETS key tbl))" "ut_items (HASH_EXPAND_BUCKETS key tbl) = ut_items tbl"
proof -
  let ?k = "ut_log2_num_buckets tbl" and ?ws = "concat (map hb_chain (ut_buckets tbl))"
  have t: "length (ut_buckets tbl) = 2 ^ ?k" "ut_num_buckets tbl = 2 ^ ?k" "distinct (ut_items tbl)"
    "chains_ok key (ut_items tbl) (ut_buckets tbl)"
    using assms by (auto simp: ut_ok_def)
  note w = expand_chains [OF t(4,3,1)]
  have "chains_ok key (ut_items tbl) (fst (fold (expand_step key (2 ^ ?k) ideal) ?ws (replicate (2 * 2 ^ ?k) empty_bucket, 0))) \<and>
      length (fst (fold (expand_step key (2 ^ ?k) ideal) ?ws (replicate (2 * 2 ^ ?k) empty_bucket, 0))) = 2 ^ Suc ?k" for ideal
    using expand_fold_ok [of ?ws "[]" key "replicate (2 * 2 ^ ?k) empty_bucket" "Suc ?k" "2 ^ ?k" ideal 0]
      chains_ok_empty [of key] chains_ok_cong [of ?ws "ut_items tbl"] w by auto
  then show "ut_ok key (Some (HASH_EXPAND_BUCKETS key tbl))"
    using assms t(2) by (auto simp: ut_ok_def HASH_EXPAND_BUCKETS_def Let_def case_prod_beta)
  show "ut_items (HASH_EXPAND_BUCKETS key tbl) = ut_items tbl"
    by (simp add: HASH_EXPAND_BUCKETS_def Let_def case_prod_beta)
qed

lemma add_to_bkt_ok:
  assumes "chains_ok key vs (ut_buckets tbl)" "distinct (vs @ [v])" "ut_items tbl = vs @ [v]"
    and "ut_num_items tbl = length (ut_items tbl)" "ut_num_buckets tbl = 2 ^ ut_log2_num_buckets tbl"
    and "length (ut_buckets tbl) = ut_num_buckets tbl" "i = HASH_TO_BKT (hashv_of key v) (ut_num_buckets tbl)"
  shows "ut_ok key (Some (HASH_ADD_TO_BKT key tbl i v)) \<and> ut_items (HASH_ADD_TO_BKT key tbl i v) = vs @ [v]"
proof -
  let ?b = "(ut_buckets tbl ! i)\<lparr>hb_count := hb_count (ut_buckets tbl ! i) + 1, hb_chain := v # hb_chain (ut_buckets tbl ! i)\<rparr>"
  let ?t = "tbl\<lparr>ut_buckets := (ut_buckets tbl)[i := ?b]\<rparr>"
  have "chains_ok key (v # vs) ((ut_buckets tbl)[i := ?b])"
    by (rule chains_ok_insert [OF assms(1)]) (use assms in auto)
  then have "chains_ok key (vs @ [v]) ((ut_buckets tbl)[i := ?b])"
    using chains_ok_cong [of "v # vs" "vs @ [v]"] by auto
  then have "ut_ok key (Some ?t)" using assms by (simp add: ut_ok_def)
  then show ?thesis using expand_ok [of key ?t] assms(3) by (simp add: HASH_ADD_TO_BKT_def Let_def)
qed

lemma HASH_ADD_ok:
  assumes "ut_ok key head" "v \<notin> set (ut_iterate head)"
  shows "ut_ok key (HASH_ADD key head v) \<and> ut_iterate (HASH_ADD key head v) = ut_iterate head @ [v]"
proof (cases head)
  case None
  show ?thesis
    using add_to_bkt_ok [of key "[]" "HASH_MAKE_TABLE\<lparr>ut_items := [v], ut_num_items := 1\<rparr>" v]
    by (simp add: None HASH_ADD_def ut_iterate_def HASH_MAKE_TABLE_def chains_ok_empty Let_def)
next
  case (Some tbl)
  have t: "distinct (ut_items tbl)" "chains_ok key (ut_items tbl) (ut_buckets tbl)" "v \<notin> set (ut_items tbl)"
    "length (ut_buckets tbl) = ut_num_buckets tbl" "ut_num_buckets tbl = 2 ^ ut_log2_num_buckets tbl"
    "ut_num_items tbl = length (ut_items tbl)"
    using assms Some by (auto simp: ut_ok_def ut_iterate_def)
  show ?thesis
    using add_to_bkt_ok [of key "ut_items tbl" "tbl\<lparr>ut_items := ut_items tbl @ [v], ut_num_items := ut_num_items tbl + 1\<rparr>" v] t
    by (simp add: Some HASH_ADD_def ut_iterate_def Let_def)
qed

lemma HASH_DELETE_ok:
  assumes "ut_ok key head" "v \<in> set (ut_iterate head)"
  shows "ut_ok key (HASH_DELETE key head v) \<and> ut_iterate (HASH_DELETE key head v) = remove1 v (ut_iterate head)"
proof -
  obtain tbl where h: "head = Some tbl" "v \<in> set (ut_items tbl)" using assms(2) by (cases head) (auto simp: ut_iterate_def)
  have t: "distinct (ut_items tbl)" "chains_ok key (ut_items tbl) (ut_buckets tbl)"
    "length (ut_buckets tbl) = 2 ^ ut_log2_num_buckets tbl" "ut_num_buckets tbl = 2 ^ ut_log2_num_buckets tbl"
    using assms(1) h(1) by (auto simp: ut_ok_def)
  have n: "remove1 v (ut_items tbl) \<noteq> []" if "ut_items tbl \<noteq> [v]"
    using that h(2) t(1) by (cases "ut_items tbl"; cases "tl (ut_items tbl)") auto
  show ?thesis
    using chains_ok_delete [OF t(2,3) h(2) t(1) refl] assms(1) h n t
    by (auto simp: HASH_DELETE_def ut_iterate_def ut_ok_def Let_def length_remove1)
qed

lemma find_in_bkt:
  "HASH_FIND_IN_BKT key vs k = Some v \<Longrightarrow> v \<in> set vs \<and> key v = k"
  "HASH_FIND_IN_BKT key vs k = None \<longleftrightarrow> (\<forall>v \<in> set vs. key v \<noteq> k)"
  by (induction vs) (auto split: if_splits)

lemma HASH_FIND_ok:
  assumes "ut_ok key head"
  shows "HASH_FIND key head k = Some v \<Longrightarrow> v \<in> set (ut_iterate head) \<and> key v = k"
    and "HASH_FIND key head k = None \<Longrightarrow> k \<notin> key ` set (ut_iterate head)"
proof -
  have c: "set (hb_chain (ut_buckets tbl ! HASH_TO_BKT (HASH_JEN (bytes_of_string k)) (ut_num_buckets tbl))) =
      {w \<in> set (ut_items tbl). HASH_TO_BKT (hashv_of key w) (ut_num_buckets tbl) = HASH_TO_BKT (HASH_JEN (bytes_of_string k)) (ut_num_buckets tbl)}"
    if "head = Some tbl" for tbl
    using assms that by (auto simp: ut_ok_def chains_ok_def)
  show "HASH_FIND key head k = Some v \<Longrightarrow> v \<in> set (ut_iterate head) \<and> key v = k"
    using c find_in_bkt(1) [of key _ k v] by (cases head) (auto simp: HASH_FIND_def ut_iterate_def)
  show "HASH_FIND key head k = None \<Longrightarrow> k \<notin> key ` set (ut_iterate head)"
    using c by (cases head) (auto simp: HASH_FIND_def ut_iterate_def find_in_bkt(2) hashv_of_def)
qed

lemma uthash_sel [simp]:
  "ho_null (uthash key) = None" "ho_find (uthash key) = HASH_FIND key" "ho_add (uthash key) = HASH_ADD key"
  "ho_del (uthash key) = HASH_DELETE key" "ho_items (uthash key) = ut_iterate"
  by (simp_all add: uthash_def)

lemma ut_null [simp]: "ut_ok key None" "ut_iterate None = []"
  by (simp_all add: ut_ok_def ut_iterate_def)

lemma ut_distinct: "ut_ok key h \<Longrightarrow> distinct (ut_iterate h)"
  by (cases h) (simp_all add: ut_ok_def ut_iterate_def)

interpretation ut: hash_table "uthash key" key "ut_ok key" for key :: "'v \<Rightarrow> string"
  by unfold_locales (simp_all add: HASH_ADD_ok HASH_DELETE_ok HASH_FIND_ok ut_distinct)

section \<open>Properties\<close>

text \<open>The tables an application can build with the macros.\<close>

inductive ut_built :: "('v \<Rightarrow> string) \<Rightarrow> 'v ut_table option \<Rightarrow> 'v list \<Rightarrow> bool" for key where
  null: "ut_built key None []"
| add: "\<lbrakk>ut_built key h vs; v \<notin> set vs\<rbrakk> \<Longrightarrow> ut_built key (HASH_ADD key h v) (vs @ [v])"
| del: "\<lbrakk>ut_built key h vs; v \<in> set vs\<rbrakk> \<Longrightarrow> ut_built key (HASH_DELETE key h v) (remove1 v vs)"

inductive_cases ut_built_SomeE: "ut_built key (Some tbl) vs"

lemma ut_built_ok: "ut_built key h vs \<Longrightarrow> ut_ok key h \<and> ut_iterate h = vs"
  by (induction rule: ut_built.induct) (use ut.ok_add ut.ok_del ut.items_add ut.items_del in auto)

text \<open>
  C15: a table of \<open>uthash.h\<close> behaves like the list of its elements, for every sequence of additions and
  deletions and through every doubling of its buckets: iterating gives the elements in the order they were
  added, and a lookup finds an element with the key exactly when the list has one.
\<close>
theorem uthash_refines_list:
  assumes "ut_built key h vs"
  shows "ut_iterate h = vs \<and> (case HASH_FIND key h k of
      None \<Rightarrow> \<forall>v \<in> set vs. key v \<noteq> k
    | Some v \<Rightarrow> v \<in> set vs \<and> key v = k)"
  using ut_built_ok [OF assms] ut.find_None_iff [of key h k] ut.find_SomeD [of key h k]
  by (auto simp: ut.keys_def split: option.splits)

theorem uthash_refines_list_witness:
  "HASH_FIND id (HASH_ADD id None ''bob'') ''bob'' \<noteq> None \<and> HASH_FIND id (HASH_ADD id None ''bob'') ''eve'' = None"
proof -
  have b: "ut_built id (HASH_ADD id None ''bob'') ([] @ [''bob''])" by (intro ut_built.intros) simp
  show ?thesis
    using uthash_refines_list [OF b, of "''bob''"] uthash_refines_list [OF b, of "''eve''"] by (auto split: option.splits)
qed

end
