(* ===== verification/Psn.thy ===== *)
theory Psn
  imports App_Inv Uthash
begin

text \<open>
  The messenger itself: \<open>psn.c\<close>, \<open>psn.h\<close> and \<open>init.c\<close>, without the configuration file (theory
  \<open>Psn_Config\<close>).

  \<^item> A \<open>psn_t\<close> is the record \<open>psn_t\<close>: the pointer to the client, the static variable \<open>connected\<close>,
    and the rest of the structure, \<open>psn_data\<close>. The rest is also the user data of the client,
    which the callback of the network thread works on: every call into the library gets the
    current data and gives it back.
  \<^item> \<open>psn_init\<close> does not set the pointer to the client. It is NULL, something that is not a
    client, or a client.
  \<^item> The friend lists are hash tables of uthash, which is a submodule of the repository: the table
    operations are the parameter \<open>ut\<close>, and theorems assume of it the contract \<open>hash_table\<close>, which
    the version that the broker carries satisfies (theory \<open>Uthash\<close>). A user has an address, so
    that two entries with the same name are different objects.
  \<^item> libtomcrypt is the parameter \<open>lt\<close>. What is printed is collected in \<open>p_stdout\<close>. A copy that
    does not fit its array is undefined (\<open>None\<close>).
  \<^item> The calls of the main thread and of the network thread are whole steps: the code takes no
    lock around the friend lists, and a race between the two is not modelled.
\<close>

section \<open>Data\<close>

datatype psn_err =
    PSN_ERR_SUCCESS | PSN_ERR_NOT_CONNECTED | PSN_ERR_COULD_NOT_CONNECT | PSN_ERR_ALREADY_CONNECTED
  | PSN_ERR_USER_NOT_IN_FRIEND_LIST | PSN_ERR_USER_NOT_IN_INCOMING_FRIEND_LIST
  | PSN_ERR_USER_NOT_IN_OUTGOING_FRIEND_LIST | PSN_ERR_FREQUEST_PENDING | PSN_ERR_FAIL | PSN_ERR_CRYPT_FAIL

record 'k user =
  u_addr :: nat
  u_name :: string
  u_shown_name :: string
  u_pub_key :: 'k

record 'k tomcrypt =
  tc_zero :: 'k
  tc_e_zero :: "'k \<Rightarrow> bool"
  tc_make_key :: "'k option"
  tc_encrypt :: "'k \<Rightarrow> u8 list \<Rightarrow> u8 list option"
  tc_export :: "bool \<Rightarrow> 'k \<Rightarrow> u8 list option"
  tc_import :: "u8 list \<Rightarrow> 'k"

record ('h, 'k) psn_data =
  p_username :: string
  p_shown_name :: string
  p_password :: string
  p_hostname :: string
  p_port :: int
  p_friends :: 'h
  p_friend_requests_outgoing :: 'h
  p_friend_requests_incoming :: 'h
  p_pk_key :: 'k
  p_stdout :: "string list"
  p_next :: nat

datatype ('h, 'k) mosq_ptr = Mosq_null | Mosq_garbage | Mosq "('h, 'k) psn_data mosq"

record ('h, 'k) psn_t =
  ps_mosq :: "('h, 'k) mosq_ptr"
  ps_data :: "('h, 'k) psn_data"
  ps_connected :: bool

type_synonym ('h, 'k) psn_res = "(psn_err \<times> ('h, 'k) psn_t option) option"

section \<open>Helpers of the C library\<close>

text \<open>\<open>strcpy\<close> and \<open>sprintf\<close> into an array of \<open>n\<close> characters.\<close>

definition copy_into :: "nat \<Rightarrow> string \<Rightarrow> string option" where
  "copy_into n s = (if length s < n then Some s else None)"

definition psn_printf :: "string \<Rightarrow> ('h, 'k) psn_data \<Rightarrow> ('h, 'k) psn_data" where
  "psn_printf s d = d\<lparr>p_stdout := p_stdout d @ [s]\<rparr>"

definition NL :: string where "NL = [CHR 0x0A]"
definition CR :: string where "CR = [CHR 0x0D]"

text \<open>\<open>calloc\<close> of a user, with its two names copied. The result is not checked.\<close>

definition new_user :: "'k tomcrypt \<Rightarrow> string \<Rightarrow> ('h, 'k) psn_data \<Rightarrow> bool list
    \<Rightarrow> ('k user \<times> ('h, 'k) psn_data \<times> bool list) option" where
  "new_user lt name d al =
     (case malloc_ok al of
        (False, _) \<Rightarrow> None
      | (True, al) \<Rightarrow>
          do {
            s \<leftarrow> copy_into 32 name;
            Some (\<lparr>u_addr = p_next d, u_name = s, u_shown_name = s, u_pub_key = tc_zero lt\<rparr>,
              d\<lparr>p_next := p_next d + 1\<rparr>, al)
          })"

section \<open>Initialisation\<close>

text \<open>\<open>register_prng\<close> and \<open>register_hash\<close> belong to libtomcrypt: their results are arguments.\<close>

definition init_tomcrypt_lib :: "int \<Rightarrow> int \<Rightarrow> ('h, 'k) psn_data \<Rightarrow> int \<times> ('h, 'k) psn_data" where
  "init_tomcrypt_lib register_prng register_hash d =
     (if register_prng = -1 then (-1, psn_printf ''Error registering sprng'' d)
      else if register_hash = -1 then (-1, psn_printf ''Error registering sha1'' d)
      else (0, d))"

definition init_mosquitto_lib :: int where
  "init_mosquitto_lib = 0"

definition psn_init :: "('h, 'k user) hash_ops \<Rightarrow> int \<Rightarrow> int \<Rightarrow> ('h, 'k) psn_t \<Rightarrow> psn_err \<times> ('h, 'k) psn_t" where
  "psn_init ut register_prng register_hash psn =
     (case init_tomcrypt_lib register_prng register_hash (ps_data psn) of (rc, d) \<Rightarrow>
        if rc \<noteq> 0 then
          (PSN_ERR_FAIL, psn\<lparr>ps_data := psn_printf (''* ERROR: libtomcrypt init failed.'' @ NL) d\<rparr>)
        else if init_mosquitto_lib \<noteq> 0 then
          (PSN_ERR_FAIL, psn\<lparr>ps_data := psn_printf (''* ERROR: libmosquitto init failed'' @ NL) d\<rparr>)
        else
          (PSN_ERR_SUCCESS, psn\<lparr>ps_data := d\<lparr>p_friends := ho_null ut,
            p_friend_requests_outgoing := ho_null ut, p_friend_requests_incoming := ho_null ut\<rparr>\<rparr>))"

section \<open>The callback for incoming messages\<close>

definition chat_message :: "('h, 'k user) hash_ops \<Rightarrow> string option list \<Rightarrow> message \<Rightarrow> ('h, 'k) psn_data \<Rightarrow> ('h, 'k) psn_data option" where
  "chat_message ut topics message d =
     do {
       t0 \<leftarrow> topics ! 0;
       if t0 \<noteq> ''chat'' then Some d
       else
         do {
           t2 \<leftarrow> topics ! 2;
           if t2 \<noteq> p_username d \<or> m_payloadlen message = 0 then Some d
           else
             do {
               t1 \<leftarrow> topics ! 1;
               case ho_find ut (p_friends d) t1 of
                 None \<Rightarrow> Some d
               | Some in_list \<Rightarrow>
                   do {
                     payload \<leftarrow> m_payload message;
                     if nat (m_payloadlen message) < length payload
                     then Some (psn_printf (CR @ t1 @ '': '' @ cstr (take (nat (m_payloadlen message)) payload @ [0]) @ NL @ ''> '') d)
                     else None
                   }
             }
         }
     }"

definition friend_request :: "('h, 'k user) hash_ops \<Rightarrow> 'k tomcrypt \<Rightarrow> string option list \<Rightarrow> ('h, 'k) psn_data \<Rightarrow> bool list
    \<Rightarrow> (('h, 'k) psn_data \<times> bool list) option" where
  "friend_request ut lt topics d al =
     do {
       t0 \<leftarrow> topics ! 0;
       if t0 \<noteq> ''users'' then Some (d, al)
       else
         do {
           t2 \<leftarrow> topics ! 2;
           if t2 \<noteq> ''frequest'' then Some (d, al)
           else
             do {
               source \<leftarrow> topics ! 3;
               if ho_find ut (p_friend_requests_incoming d) source \<noteq> None then Some (d, al)
               else if ho_find ut (p_friends d) source \<noteq> None then Some (d, al)
               else
                 (case ho_find ut (p_friend_requests_outgoing d) source of
                    Some from_list \<Rightarrow>
                      do {
                        let d = d\<lparr>p_friend_requests_outgoing := ho_del ut (p_friend_requests_outgoing d) from_list\<rparr>;
                        (new, d, al) \<leftarrow> new_user lt source d al;
                        let d = d\<lparr>p_friends := ho_add ut (p_friends d) new\<rparr>;
                        Some (psn_printf (CR @ ''* '' @ u_name new @ '' has accepted your friend request'' @ NL @ ''> '') d, al)
                      }
                  | None \<Rightarrow>
                      do {
                        (new, d, al) \<leftarrow> new_user lt source d al;
                        let d = d\<lparr>p_friend_requests_incoming := ho_add ut (p_friend_requests_incoming d) new\<rparr>;
                        Some (psn_printf (CR @ ''* '' @ u_name new @ '' sent you a friend request'' @ NL @ ''> '') d, al)
                      })
             }
         }
     }"

text \<open>The count of the tokens is not set when the tokeniser fails.\<close>

definition psn_message_callback :: "('h, 'k user) hash_ops \<Rightarrow> 'k tomcrypt \<Rightarrow> message \<Rightarrow> ('h, 'k) psn_data mosq
    \<Rightarrow> ('h, 'k) psn_data mosq option" where
  "psn_message_callback ut lt message m =
     do {
       (rc, tokens, al) \<leftarrow> mosquitto_sub_topic_tokenise (m_topic message) (e_allocs m);
       (topics, topic_count) \<leftarrow> tokens;
       d \<leftarrow> (if topic_count = 3 then chat_message ut topics message (c_userdata m) else Some (c_userdata m));
       (d, al) \<leftarrow> (if topic_count = 4 then friend_request ut lt topics d al else Some (d, al));
       Some (m\<lparr>e_allocs := al, c_userdata := d\<rparr>)
     }"

text \<open>The application that the client of psn has: only the callback for messages is set.\<close>

definition psn_app :: "('h, 'k user) hash_ops \<Rightarrow> 'k tomcrypt \<Rightarrow> ('h, 'k) psn_data app" where
  "psn_app ut lt ev m = (case ev of On_message message \<Rightarrow> psn_message_callback ut lt message m | _ \<Rightarrow> Some m)"

section \<open>Calling the client\<close>

definition psn_publish :: "('h, 'k user) hash_ops \<Rightarrow> 'k tomcrypt \<Rightarrow> ('h, 'k) psn_t \<Rightarrow> string \<Rightarrow> int \<Rightarrow> u8 list \<Rightarrow> ('h, 'k) psn_t option" where
  "psn_publish ut lt psn topic len payload =
     (case ps_mosq psn of
        Mosq_null \<Rightarrow> Some psn
      | Mosq_garbage \<Rightarrow> None
      | Mosq m \<Rightarrow>
          do {
            (rc, mid, mosq) \<leftarrow> mosquitto_publish (psn_app ut lt) (Some (m\<lparr>c_userdata := ps_data psn\<rparr>)) (Some topic) len (Some payload) 1 False;
            m \<leftarrow> mosq;
            Some (psn\<lparr>ps_mosq := Mosq m, ps_data := c_userdata m\<rparr>)
          })"

text \<open>
  The test of the pointer is inverted: with NULL the client is not created, with anything else
  the pointer is overwritten by a new client.
\<close>

definition psn_new_client :: "(nat \<Rightarrow> nat) \<Rightarrow> ('h, 'k) psn_data mosq \<Rightarrow> ('h, 'k) psn_t \<Rightarrow> ('h, 'k) psn_data mosq option" where
  "psn_new_client rand w psn =
     (let d = ps_data psn in
      case ps_mosq psn of
        Mosq_null \<Rightarrow> snd (mosquitto_reinitialise rand None (Some (p_username d)) True d)
      | _ \<Rightarrow> snd (mosquitto_new rand w (Some (p_username d)) True d))"

definition psn_set_client :: "('h, 'k) psn_data mosq \<Rightarrow> ('h, 'k) psn_t \<Rightarrow> ('h, 'k) psn_t" where
  "psn_set_client m psn = psn\<lparr>ps_mosq := Mosq m, ps_data := c_userdata m\<rparr>"

text \<open>The two subscriptions and the network thread.\<close>

definition psn_connect_subscribe :: "('h, 'k user) hash_ops \<Rightarrow> 'k tomcrypt \<Rightarrow> ('h, 'k) psn_data mosq \<Rightarrow> ('h, 'k) psn_t
    \<Rightarrow> (psn_err \<times> ('h, 'k) psn_t) option" where
  "psn_connect_subscribe ut lt m psn =
     do {
       topic \<leftarrow> copy_into 128 (''users/'' @ p_username (ps_data psn) @ ''/#'');
       (rc, mid, mosq) \<leftarrow> mosquitto_subscribe (psn_app ut lt) (Some m) (Some topic) 1;
       topic \<leftarrow> copy_into 128 (''chat/+/'' @ p_username (ps_data psn));
       (rc, mid, mosq) \<leftarrow> mosquitto_subscribe (psn_app ut lt) mosq (Some topic) 1;
       (case mosquitto_loop_start mosq of (rc, mosq) \<Rightarrow>
         do {
           m \<leftarrow> mosq;
           if rc \<noteq> MOSQ_ERR_SUCCESS then Some (PSN_ERR_FAIL, psn_set_client m psn)
           else Some (PSN_ERR_SUCCESS, (psn_set_client m psn)\<lparr>ps_connected := True\<rparr>)
         })
     }"

text \<open>The new client is used, to set the callback, before it is tested for NULL.\<close>

definition psn_connect :: "('h, 'k user) hash_ops \<Rightarrow> 'k tomcrypt \<Rightarrow> (nat \<Rightarrow> nat) \<Rightarrow> ('h, 'k) psn_data mosq \<Rightarrow> ('h, 'k) psn_t
    \<Rightarrow> (psn_err \<times> ('h, 'k) psn_t) option" where
  "psn_connect ut lt rand w psn =
     do {
       m \<leftarrow> psn_new_client rand w psn;
       m \<leftarrow> mosquitto_message_callback_set m True;
       (case mosquitto_username_pw_set (Some m) (Some (p_username (ps_data psn))) (Some (p_password (ps_data psn))) of
         (rc, mosq) \<Rightarrow>
           do {
             (rc, mosq) \<leftarrow> mosquitto_connect (psn_app ut lt) mosq (Some (p_hostname (ps_data psn))) (p_port (ps_data psn)) 60;
             m \<leftarrow> mosq;
             if rc \<noteq> 0 then Some (PSN_ERR_COULD_NOT_CONNECT, psn_set_client m psn)
             else psn_connect_subscribe ut lt m psn
           })
     }"

definition psn_disconnect :: "('h, 'k user) hash_ops \<Rightarrow> 'k tomcrypt \<Rightarrow> ('h, 'k) psn_t option \<Rightarrow> ('h, 'k) psn_res" where
  "psn_disconnect ut lt psn =
     (case psn of
        None \<Rightarrow> Some (PSN_ERR_FAIL, None)
      | Some psn \<Rightarrow>
          (case ps_mosq psn of
             Mosq_null \<Rightarrow> Some (PSN_ERR_FAIL, Some psn)
           | Mosq_garbage \<Rightarrow> if \<not> ps_connected psn then Some (PSN_ERR_ALREADY_CONNECTED, Some psn) else None
           | Mosq m \<Rightarrow>
               if \<not> ps_connected psn then Some (PSN_ERR_ALREADY_CONNECTED, Some psn)
               else
                 do {
                   (rc, mosq) \<leftarrow> mosquitto_disconnect (psn_app ut lt) (Some (m\<lparr>c_userdata := ps_data psn\<rparr>));
                   let (rc, mosq) = mosquitto_loop_stop mosq;
                   m \<leftarrow> mosq;
                   Some (PSN_ERR_SUCCESS, Some (psn\<lparr>ps_mosq := Mosq m, ps_data := c_userdata m, ps_connected := False\<rparr>))
                 }))"

section \<open>Settings\<close>

definition psn_set_server :: "('h, 'k) psn_t option \<Rightarrow> string \<Rightarrow> int \<Rightarrow> ('h, 'k) psn_res" where
  "psn_set_server psn hostname port =
     (case psn of
        None \<Rightarrow> Some (PSN_ERR_FAIL, None)
      | Some psn \<Rightarrow>
          do {
            s \<leftarrow> copy_into 256 hostname;
            Some (PSN_ERR_SUCCESS, Some (psn\<lparr>ps_data := (ps_data psn)\<lparr>p_hostname := s, p_port := port\<rparr>\<rparr>))
          })"

definition psn_set_username :: "('h, 'k) psn_t option \<Rightarrow> string option \<Rightarrow> string \<Rightarrow> ('h, 'k) psn_res" where
  "psn_set_username psn username password =
     (case psn of
        None \<Rightarrow> Some (PSN_ERR_FAIL, None)
      | Some psn \<Rightarrow>
          do {
            p \<leftarrow> copy_into 32 password;
            username \<leftarrow> username;
            u \<leftarrow> copy_into 32 username;
            Some (PSN_ERR_SUCCESS, Some (psn\<lparr>ps_data := (ps_data psn)\<lparr>p_password := p, p_username := u, p_shown_name := u\<rparr>\<rparr>))
          })"

definition psn_set_shown_name :: "('h, 'k) psn_t option \<Rightarrow> string \<Rightarrow> ('h, 'k) psn_res" where
  "psn_set_shown_name psn shown_name =
     (case psn of
        None \<Rightarrow> Some (PSN_ERR_FAIL, None)
      | Some psn \<Rightarrow>
          do {
            s \<leftarrow> copy_into 32 shown_name;
            Some (PSN_ERR_SUCCESS, Some (psn\<lparr>ps_data := (ps_data psn)\<lparr>p_shown_name := s\<rparr>\<rparr>))
          })"

section \<open>Friends and messages\<close>

text \<open>The client's allocator also serves the friend lists; without a client every allocation succeeds.\<close>

definition psn_allocs :: "('h, 'k) psn_t \<Rightarrow> bool list" where
  "psn_allocs psn = (case ps_mosq psn of Mosq m \<Rightarrow> e_allocs m | _ \<Rightarrow> [])"

definition psn_set_allocs :: "bool list \<Rightarrow> ('h, 'k) psn_t \<Rightarrow> ('h, 'k) psn_t" where
  "psn_set_allocs al psn = (case ps_mosq psn of Mosq m \<Rightarrow> psn\<lparr>ps_mosq := Mosq (m\<lparr>e_allocs := al\<rparr>)\<rparr> | _ \<Rightarrow> psn)"

definition psn_not_connected :: "string \<Rightarrow> ('h, 'k) psn_t \<Rightarrow> ('h, 'k) psn_res" where
  "psn_not_connected msg psn = Some (PSN_ERR_NOT_CONNECTED, Some (psn\<lparr>ps_data := psn_printf (msg @ NL) (ps_data psn)\<rparr>))"

definition psn_make_friend_req :: "('h, 'k user) hash_ops \<Rightarrow> 'k tomcrypt \<Rightarrow> ('h, 'k) psn_t option \<Rightarrow> string \<Rightarrow> string \<Rightarrow> ('h, 'k) psn_res" where
  "psn_make_friend_req ut lt psn target message =
     (case psn of
        None \<Rightarrow> Some (PSN_ERR_FAIL, None)
      | Some psn \<Rightarrow>
          (case ps_mosq psn of
             Mosq_null \<Rightarrow> Some (PSN_ERR_FAIL, Some psn)
           | _ \<Rightarrow>
               if \<not> ps_connected psn then psn_not_connected ''* ERROR: not connected'' psn
               else
                 do {
                   topic \<leftarrow> copy_into 128 (''users/'' @ target @ ''/frequest/'' @ p_username (ps_data psn));
                   psn \<leftarrow> psn_publish ut lt psn topic (int (length message)) (bytes_of_string message);
                   (new, d, al) \<leftarrow> new_user lt target (ps_data psn) (psn_allocs psn);
                   let d = d\<lparr>p_friend_requests_outgoing := ho_add ut (p_friend_requests_outgoing d) new\<rparr>;
                   Some (PSN_ERR_SUCCESS, Some ((psn_set_allocs al psn)\<lparr>ps_data := d\<rparr>))
                 }))"

definition psn_accept_friend_req :: "('h, 'k user) hash_ops \<Rightarrow> 'k tomcrypt \<Rightarrow> ('h, 'k) psn_t option \<Rightarrow> string \<Rightarrow> ('h, 'k) psn_res" where
  "psn_accept_friend_req ut lt psn target =
     (case psn of
        None \<Rightarrow> Some (PSN_ERR_FAIL, None)
      | Some psn \<Rightarrow>
          (case ps_mosq psn of
             Mosq_null \<Rightarrow> Some (PSN_ERR_FAIL, Some psn)
           | _ \<Rightarrow>
               if \<not> ps_connected psn then psn_not_connected ''* ERROR: not connected'' psn
               else
                 (case ho_find ut (p_friend_requests_incoming (ps_data psn)) target of
                    None \<Rightarrow> Some (PSN_ERR_USER_NOT_IN_INCOMING_FRIEND_LIST, Some psn)
                  | Some in_list \<Rightarrow>
                      do {
                        let psn = psn\<lparr>ps_data := (ps_data psn)\<lparr>p_friend_requests_incoming :=
                              ho_del ut (p_friend_requests_incoming (ps_data psn)) in_list\<rparr>\<rparr>;
                        topic \<leftarrow> copy_into 128 (''users/'' @ target @ ''/frequest/'' @ p_username (ps_data psn));
                        psn \<leftarrow> psn_publish ut lt psn topic 0 [];
                        Some (PSN_ERR_SUCCESS, Some (psn\<lparr>ps_data := (ps_data psn)\<lparr>p_friends :=
                              ho_add ut (p_friends (ps_data psn)) in_list\<rparr>\<rparr>))
                      })))"

definition psn_refuse_friend_req :: "('h, 'k user) hash_ops \<Rightarrow> ('h, 'k) psn_t option \<Rightarrow> string \<Rightarrow> ('h, 'k) psn_res" where
  "psn_refuse_friend_req ut psn target =
     (case psn of
        None \<Rightarrow> Some (PSN_ERR_FAIL, None)
      | Some psn \<Rightarrow>
          (case ho_find ut (p_friend_requests_incoming (ps_data psn)) target of
             None \<Rightarrow> Some (PSN_ERR_USER_NOT_IN_INCOMING_FRIEND_LIST, Some psn)
           | Some in_list \<Rightarrow>
               Some (PSN_ERR_SUCCESS, Some (psn\<lparr>ps_data := (ps_data psn)\<lparr>p_friend_requests_incoming :=
                 ho_del ut (p_friend_requests_incoming (ps_data psn)) in_list\<rparr>\<rparr>))))"

definition psn_delete_friend :: "('h, 'k user) hash_ops \<Rightarrow> ('h, 'k) psn_t option \<Rightarrow> string \<Rightarrow> ('h, 'k) psn_res" where
  "psn_delete_friend ut psn target =
     (case psn of
        None \<Rightarrow> Some (PSN_ERR_FAIL, None)
      | Some psn \<Rightarrow>
          (case ho_find ut (p_friends (ps_data psn)) target of
             None \<Rightarrow> Some (PSN_ERR_USER_NOT_IN_FRIEND_LIST, Some psn)
           | Some in_list \<Rightarrow>
               Some (PSN_ERR_SUCCESS, Some (psn\<lparr>ps_data := (ps_data psn)\<lparr>p_friends :=
                 ho_del ut (p_friends (ps_data psn)) in_list\<rparr>\<rparr>))))"

definition psn_send_message :: "('h, 'k user) hash_ops \<Rightarrow> 'k tomcrypt \<Rightarrow> ('h, 'k) psn_t option \<Rightarrow> string \<Rightarrow> string \<Rightarrow> ('h, 'k) psn_res" where
  "psn_send_message ut lt psn target message =
     (case psn of
        None \<Rightarrow> Some (PSN_ERR_FAIL, None)
      | Some psn \<Rightarrow>
          if \<not> ps_connected psn then psn_not_connected ''*ERROR: not connected'' psn
          else
            (case ho_find ut (p_friends (ps_data psn)) target of
               None \<Rightarrow> Some (PSN_ERR_USER_NOT_IN_FRIEND_LIST,
                 Some (psn\<lparr>ps_data := psn_printf (''*ERROR: target not in friend list'' @ NL) (ps_data psn)\<rparr>))
             | Some in_list \<Rightarrow>
                 do {
                   topic \<leftarrow> copy_into 128 (''chat/'' @ p_username (ps_data psn) @ ''/'' @ target);
                   psn \<leftarrow> psn_publish ut lt psn topic (int (length message)) (bytes_of_string message);
                   Some (PSN_ERR_SUCCESS, Some psn)
                 }))"

text \<open>
  The last character of the message is not encrypted; of an empty message far more than the
  message would be.
\<close>

definition psn_send_encrypted_message :: "('h, 'k user) hash_ops \<Rightarrow> 'k tomcrypt \<Rightarrow> ('h, 'k) psn_t \<Rightarrow> string \<Rightarrow> string
    \<Rightarrow> (psn_err \<times> ('h, 'k) psn_t) option" where
  "psn_send_encrypted_message ut lt psn target plain_message =
     (if plain_message = [] then None
      else
        (case tc_encrypt lt (p_pk_key (ps_data psn)) (bytes_of_string (butlast plain_message)) of
           None \<Rightarrow> Some (PSN_ERR_CRYPT_FAIL, psn)
         | Some encrypted \<Rightarrow>
             do {
               topic \<leftarrow> copy_into 128 (''chat/'' @ p_username (ps_data psn) @ ''/'' @ target);
               psn \<leftarrow> psn_publish ut lt psn topic (int (length encrypted)) encrypted;
               Some (PSN_ERR_SUCCESS, psn)
             }))"

definition psn_generate_new_key :: "'k tomcrypt \<Rightarrow> ('h, 'k) psn_t \<Rightarrow> psn_err \<times> ('h, 'k) psn_t" where
  "psn_generate_new_key lt psn =
     (case tc_make_key lt of
        None \<Rightarrow> (PSN_ERR_FAIL, psn)
      | Some k \<Rightarrow> (PSN_ERR_SUCCESS, psn\<lparr>ps_data := (ps_data psn)\<lparr>p_pk_key := k\<rparr>\<rparr>))"

text \<open>
  \<open>*friends[i]\<close> is the first entry of the array for \<open>i = 0\<close> and reads behind the caller's
  variable for every other \<open>i\<close>.
\<close>

fun friend_names :: "nat \<Rightarrow> 'k user list \<Rightarrow> bool list \<Rightarrow> (string list \<times> bool list) option" where
  "friend_names i [] al = Some ([], al)"
| "friend_names i (s # r) al =
     (if i \<noteq> 0 then None
      else
        (case malloc_ok al of
           (False, _) \<Rightarrow> None
         | (True, al) \<Rightarrow> do { (ns, al) \<leftarrow> friend_names (i + 1) r al; Some (u_name s # ns, al) }))"

definition psn_get_friend_list :: "('h, 'k user) hash_ops \<Rightarrow> ('h, 'k) psn_t \<Rightarrow> bool list \<Rightarrow> (int \<times> string list \<times> bool list) option" where
  "psn_get_friend_list ut psn al =
     (let items = ho_items ut (p_friends (ps_data psn)) in
      case malloc_ok al of
        (b, al) \<Rightarrow>
          if \<not> b \<and> items \<noteq> [] then None
          else do { (names, al) \<leftarrow> friend_names 0 items al; Some (int (length items), names, al) })"

text \<open>
  The loops that free the lists read the next pointer of an element after it was freed. The
  pointer to the destroyed client is kept.
\<close>

definition psn_free :: "('h, 'k user) hash_ops \<Rightarrow> ('h, 'k) psn_t option \<Rightarrow> ('h, 'k) psn_res" where
  "psn_free ut psn =
     (case psn of
        None \<Rightarrow> Some (PSN_ERR_FAIL, None)
      | Some psn \<Rightarrow>
          do {
            ptr \<leftarrow> (case ps_mosq psn of Mosq_null \<Rightarrow> Some Mosq_null | Mosq_garbage \<Rightarrow> None | Mosq m \<Rightarrow> Some Mosq_garbage);
            if ho_items ut (p_friends (ps_data psn)) \<noteq> [] \<or> ho_items ut (p_friend_requests_incoming (ps_data psn)) \<noteq> []
               \<or> ho_items ut (p_friend_requests_outgoing (ps_data psn)) \<noteq> []
            then None
            else Some (PSN_ERR_SUCCESS, Some (psn\<lparr>ps_mosq := ptr\<rparr>))
          })"

section \<open>The invariant of the friend lists\<close>

definition all_users :: "('h, 'k user) hash_ops \<Rightarrow> ('h, 'k) psn_data \<Rightarrow> 'k user set" where
  "all_users ut d = set (ho_items ut (p_friends d)) \<union> set (ho_items ut (p_friend_requests_outgoing d))
     \<union> set (ho_items ut (p_friend_requests_incoming d))"

text \<open>
  The tables are tables, no user object is in two of them, every object has been allocated, and
  the names fit their arrays. No name is twice a friend or an incoming request, or both.
\<close>

definition psn_data_ok :: "('h \<Rightarrow> bool) \<Rightarrow> ('h, 'k user) hash_ops \<Rightarrow> ('h, 'k) psn_data \<Rightarrow> bool" where
  "psn_data_ok ok ut d \<longleftrightarrow>
     ok (p_friends d) \<and> ok (p_friend_requests_outgoing d) \<and> ok (p_friend_requests_incoming d) \<and>
     (\<forall>u \<in> all_users ut d. u_addr u < p_next d \<and> length (u_name u) < 32) \<and>
     set (ho_items ut (p_friends d)) \<inter> set (ho_items ut (p_friend_requests_outgoing d)) = {} \<and>
     set (ho_items ut (p_friends d)) \<inter> set (ho_items ut (p_friend_requests_incoming d)) = {} \<and>
     set (ho_items ut (p_friend_requests_outgoing d)) \<inter> set (ho_items ut (p_friend_requests_incoming d)) = {} \<and>
     inj_on u_name (set (ho_items ut (p_friends d)) \<union> set (ho_items ut (p_friend_requests_incoming d)))"

definition friends_of :: "('h, 'k user) hash_ops \<Rightarrow> ('h, 'k) psn_data \<Rightarrow> string set" where
  "friends_of ut d = u_name ` set (ho_items ut (p_friends d))"

definition incoming_of :: "('h, 'k user) hash_ops \<Rightarrow> ('h, 'k) psn_data \<Rightarrow> string set" where
  "incoming_of ut d = u_name ` set (ho_items ut (p_friend_requests_incoming d))"

definition outgoing_of :: "('h, 'k user) hash_ops \<Rightarrow> ('h, 'k) psn_data \<Rightarrow> string set" where
  "outgoing_of ut d = u_name ` set (ho_items ut (p_friend_requests_outgoing d))"

lemmas lists_of = friends_of_def incoming_of_def outgoing_of_def

lemma new_userD:
  assumes "new_user lt name d al = Some (u, d', al')"
  shows "d' = d\<lparr>p_next := p_next d + 1\<rparr>" "u_addr u = p_next d" "u_name u = name" "length name < 32"
  using assms by (auto simp: new_user_def copy_into_def split: prod.splits bool.splits if_splits)

lemma new_user_ok:
  "length name < 32 \<Longrightarrow> new_user lt name d [] =
     Some (\<lparr>u_addr = p_next d, u_name = name, u_shown_name = name, u_pub_key = tc_zero lt\<rparr>, d\<lparr>p_next := p_next d + 1\<rparr>, [])"
  by (simp add: new_user_def copy_into_def)

lemma printf_sel [simp]:
  "p_friends (psn_printf s d) = p_friends d" "p_username (psn_printf s d) = p_username d"
  "p_friend_requests_outgoing (psn_printf s d) = p_friend_requests_outgoing d"
  "p_friend_requests_incoming (psn_printf s d) = p_friend_requests_incoming d" "p_next (psn_printf s d) = p_next d"
  by (simp_all add: psn_printf_def)

lemma lists_printf [simp]:
  "psn_data_ok ok ut (psn_printf s d) = psn_data_ok ok ut d" "friends_of ut (psn_printf s d) = friends_of ut d"
  "incoming_of ut (psn_printf s d) = incoming_of ut d" "outgoing_of ut (psn_printf s d) = outgoing_of ut d"
  by (simp_all add: psn_data_ok_def all_users_def lists_of)

lemma psn_app_keeps: "keeps_app view (psn_app ut lt)"
  unfolding keeps_app_def psn_app_def by (auto split: cb_event.splits)

lemma psn_app_quiet: "quiet_app (psn_app ut lt)"
proof -
  have "\<exists>al u. m = m\<lparr>e_allocs := al, c_userdata := u\<rparr>" for m :: "('a, 'b) psn_data mosq"
    by (intro exI [of _ "e_allocs m"] exI [of _ "c_userdata m"]) simp
  moreover have "\<exists>al u. m\<lparr>e_allocs := b\<rparr> = m\<lparr>e_allocs := al, c_userdata := u\<rparr>" for m :: "('a, 'b) psn_data mosq" and b
    by (intro exI [of _ b] exI [of _ "c_userdata m"]) simp
  ultimately show ?thesis
    by (auto simp: quiet_app_def psn_app_def psn_message_callback_def split: cb_event.splits bind_splits if_splits)
qed

text \<open>The friend lists on top of tables that keep the contract of uthash.\<close>

locale psn_tables = hash_table ut u_name ok for ut :: "('h, 'k user) hash_ops" and ok :: "'h \<Rightarrow> bool"
begin

lemma fresh: "\<lbrakk>psn_data_ok ok ut d; u_addr u = p_next d\<rbrakk> \<Longrightarrow> u \<notin> all_users ut d"
  by (auto simp: psn_data_ok_def)

lemma ok_lists: "psn_data_ok ok ut d \<Longrightarrow> ok (p_friends d) \<and> ok (p_friend_requests_outgoing d) \<and> ok (p_friend_requests_incoming d)"
  by (simp add: psn_data_ok_def)

lemma find_lists:
  assumes "psn_data_ok ok ut d"
  shows "ho_find ut (p_friends d) s = None \<longleftrightarrow> s \<notin> friends_of ut d"
    "ho_find ut (p_friend_requests_incoming d) s = None \<longleftrightarrow> s \<notin> incoming_of ut d"
    "ho_find ut (p_friend_requests_outgoing d) s = None \<longleftrightarrow> s \<notin> outgoing_of ut d"
  using ok_lists [OF assms] by (simp_all add: find_None_iff keys_def lists_of)

lemma chat_message_data:
  assumes "chat_message ut topics message d = Some d'"
  shows "d' = d \<or> (\<exists>s. d' = psn_printf s d)"
  using assms by (auto simp: chat_message_def split: bind_splits if_splits option.splits)

lemma friend_request_cases:
  assumes "friend_request ut lt topics d al = Some (d', al')" "psn_data_ok ok ut d"
  obtains "d' = d"
  | s source u v d1 where "d' = psn_printf s d1" "d1 = d\<lparr>p_next := p_next d + 1,
        p_friend_requests_outgoing := ho_del ut (p_friend_requests_outgoing d) v, p_friends := ho_add ut (p_friends d) u\<rparr>"
      "u_addr u = p_next d" "u_name u = source" "length source < 32" "v \<in> set (ho_items ut (p_friend_requests_outgoing d))" "u_name v = source"
      "source \<notin> friends_of ut d \<union> incoming_of ut d"
  | s source u d1 where "d' = psn_printf s d1" "d1 = d\<lparr>p_next := p_next d + 1,
        p_friend_requests_incoming := ho_add ut (p_friend_requests_incoming d) u\<rparr>"
      "u_addr u = p_next d" "u_name u = source" "length source < 32" "topics ! 3 = Some source"
      "source \<notin> incoming_of ut d" "source \<notin> friends_of ut d" "source \<notin> outgoing_of ut d"
proof -
  consider "d' = d"
    | source v u d1 where "ho_find ut (p_friend_requests_outgoing d) source = Some v"
        "ho_find ut (p_friend_requests_incoming d) source = None" "ho_find ut (p_friends d) source = None"
        "new_user lt source (d\<lparr>p_friend_requests_outgoing := ho_del ut (p_friend_requests_outgoing d) v\<rparr>) al = Some (u, d1, al')"
        "d' = psn_printf (CR @ ''* '' @ u_name u @ '' has accepted your friend request'' @ NL @ ''> '') (d1\<lparr>p_friends := ho_add ut (p_friends d1) u\<rparr>)"
    | source u d1 where "topics ! 3 = Some source" "ho_find ut (p_friend_requests_outgoing d) source = None"
        "ho_find ut (p_friend_requests_incoming d) source = None" "ho_find ut (p_friends d) source = None"
        "new_user lt source d al = Some (u, d1, al')"
        "d' = psn_printf (CR @ ''* '' @ u_name u @ '' sent you a friend request'' @ NL @ ''> '')
          (d1\<lparr>p_friend_requests_incoming := ho_add ut (p_friend_requests_incoming d1) u\<rparr>)"
    using assms(1) unfolding friend_request_def
    by (auto simp: Let_def split: bind_splits if_splits option.splits)
  then show thesis
  proof cases
    case 2
    have v: "v \<in> set (ho_items ut (p_friend_requests_outgoing d))" "u_name v = source"
      using find_SomeD [OF _ 2(1)] ok_lists [OF assms(2)] by auto
    show thesis by (rule that(2) [OF 2(5) _ _ _ _ v]) (use new_userD [OF 2(4)] find_lists [OF assms(2)] 2(2,3) in auto)
  next
    case 3
    show thesis by (rule that(3) [OF 3(6) _ _ _ _ 3(1)])
      (use new_userD [OF 3(5)] find_lists [OF assms(2)] 3(2-4) in auto)
  qed (rule that(1))
qed

lemma add_friend_ok:
  assumes "psn_data_ok ok ut d" "u_addr u = p_next d" "length (u_name u) < 32"
    and "v \<in> set (ho_items ut (p_friend_requests_outgoing d))" "u_name u \<notin> friends_of ut d \<union> incoming_of ut d"
  defines "d' \<equiv> d\<lparr>p_next := p_next d + 1, p_friend_requests_outgoing := ho_del ut (p_friend_requests_outgoing d) v,
      p_friends := ho_add ut (p_friends d) u\<rparr>"
  shows "psn_data_ok ok ut d'" "friends_of ut d' = insert (u_name u) (friends_of ut d)" "incoming_of ut d' = incoming_of ut d"
    "outgoing_of ut d' = u_name ` (set (ho_items ut (p_friend_requests_outgoing d)) - {v})"
proof -
  note o = ok_lists [OF assms(1)]
  have u: "u \<notin> set (ho_items ut (p_friends d))" "u \<notin> all_users ut d" using fresh [OF assms(1,2)] by (auto simp: all_users_def)
  have i: "set (ho_items ut (ho_add ut (p_friends d) u)) = insert u (set (ho_items ut (p_friends d)))"
    "set (ho_items ut (ho_del ut (p_friend_requests_outgoing d) v)) = set (ho_items ut (p_friend_requests_outgoing d)) - {v}"
    using items_add [of "p_friends d" u] set_items_del [of "p_friend_requests_outgoing d" v] o u(1) assms(4) by auto
  show "psn_data_ok ok ut d'"
    using assms(1-5) o u i ok_add [of "p_friends d" u] ok_del [of "p_friend_requests_outgoing d" v]
    by (auto simp: psn_data_ok_def all_users_def d'_def less_Suc_eq lists_of)
  show "friends_of ut d' = insert (u_name u) (friends_of ut d)" "incoming_of ut d' = incoming_of ut d"
    "outgoing_of ut d' = u_name ` (set (ho_items ut (p_friend_requests_outgoing d)) - {v})"
    using i by (simp_all add: lists_of d'_def)
qed

lemma add_incoming_ok:
  assumes "psn_data_ok ok ut d" "u_addr u = p_next d" "length (u_name u) < 32" "u_name u \<notin> friends_of ut d \<union> incoming_of ut d"
  defines "d' \<equiv> d\<lparr>p_next := p_next d + 1, p_friend_requests_incoming := ho_add ut (p_friend_requests_incoming d) u\<rparr>"
  shows "psn_data_ok ok ut d'" "friends_of ut d' = friends_of ut d" "incoming_of ut d' = insert (u_name u) (incoming_of ut d)"
    "outgoing_of ut d' = outgoing_of ut d"
proof -
  note o = ok_lists [OF assms(1)]
  have u: "u \<notin> set (ho_items ut (p_friend_requests_incoming d))" "u \<notin> all_users ut d"
    using fresh [OF assms(1,2)] by (auto simp: all_users_def)
  have i: "set (ho_items ut (ho_add ut (p_friend_requests_incoming d) u)) = insert u (set (ho_items ut (p_friend_requests_incoming d)))"
    using items_add [of "p_friend_requests_incoming d" u] o u(1) by auto
  show "psn_data_ok ok ut d'"
    using assms(1-4) o u i ok_add [of "p_friend_requests_incoming d" u]
    by (auto simp: psn_data_ok_def all_users_def d'_def less_Suc_eq lists_of)
  show "friends_of ut d' = friends_of ut d" "incoming_of ut d' = insert (u_name u) (incoming_of ut d)"
    "outgoing_of ut d' = outgoing_of ut d"
    using i by (simp_all add: lists_of d'_def)
qed

lemma add_outgoing_ok:
  assumes "psn_data_ok ok ut d" "u_addr u = p_next d" "length (u_name u) < 32"
  defines "d' \<equiv> d\<lparr>p_next := p_next d + 1, p_friend_requests_outgoing := ho_add ut (p_friend_requests_outgoing d) u\<rparr>"
  shows "psn_data_ok ok ut d'" "friends_of ut d' = friends_of ut d" "incoming_of ut d' = incoming_of ut d"
    "outgoing_of ut d' = insert (u_name u) (outgoing_of ut d)"
proof -
  note o = ok_lists [OF assms(1)]
  have u: "u \<notin> set (ho_items ut (p_friend_requests_outgoing d))" "u \<notin> all_users ut d"
    using fresh [OF assms(1,2)] by (auto simp: all_users_def)
  have i: "set (ho_items ut (ho_add ut (p_friend_requests_outgoing d) u)) = insert u (set (ho_items ut (p_friend_requests_outgoing d)))"
    using items_add [of "p_friend_requests_outgoing d" u] o u(1) by auto
  show "psn_data_ok ok ut d'"
    using assms(1-3) o u i ok_add [of "p_friend_requests_outgoing d" u]
    by (auto simp: psn_data_ok_def all_users_def d'_def less_Suc_eq)
  show "friends_of ut d' = friends_of ut d" "incoming_of ut d' = incoming_of ut d"
    "outgoing_of ut d' = insert (u_name u) (outgoing_of ut d)"
    using i by (simp_all add: lists_of d'_def)
qed

lemma accept_ok:
  assumes "psn_data_ok ok ut d" "v \<in> set (ho_items ut (p_friend_requests_incoming d))"
  defines "d' \<equiv> d\<lparr>p_friend_requests_incoming := ho_del ut (p_friend_requests_incoming d) v, p_friends := ho_add ut (p_friends d) v\<rparr>"
  shows "psn_data_ok ok ut d'" "friends_of ut d' = insert (u_name v) (friends_of ut d)"
    "incoming_of ut d' = u_name ` (set (ho_items ut (p_friend_requests_incoming d)) - {v})" "outgoing_of ut d' = outgoing_of ut d"
proof -
  note o = ok_lists [OF assms(1)]
  have v: "v \<notin> set (ho_items ut (p_friends d))" using assms(1,2) by (auto simp: psn_data_ok_def)
  have i: "set (ho_items ut (ho_add ut (p_friends d) v)) = insert v (set (ho_items ut (p_friends d)))"
    "set (ho_items ut (ho_del ut (p_friend_requests_incoming d) v)) = set (ho_items ut (p_friend_requests_incoming d)) - {v}"
    using items_add [of "p_friends d" v] set_items_del [of "p_friend_requests_incoming d" v] o v assms(2) by auto
  have "insert v F \<union> (I - {v}) = F \<union> I" if "v \<in> I" for F I :: "'k user set" using that by blast
  then have inj: "inj_on u_name (set (ho_items ut (ho_add ut (p_friends d) v)) \<union> set (ho_items ut (ho_del ut (p_friend_requests_incoming d) v)))"
    using assms(1,2) i by (simp add: psn_data_ok_def)
  show "psn_data_ok ok ut d'"
    using assms(1,2) o v i inj ok_add [of "p_friends d" v] ok_del [of "p_friend_requests_incoming d" v]
    by (auto simp: psn_data_ok_def all_users_def d'_def simp del: inj_on_insert)
  show "friends_of ut d' = insert (u_name v) (friends_of ut d)" "outgoing_of ut d' = outgoing_of ut d"
    "incoming_of ut d' = u_name ` (set (ho_items ut (p_friend_requests_incoming d)) - {v})"
    using i by (simp_all add: lists_of d'_def)
qed

lemma delete_ok:
  assumes "psn_data_ok ok ut d"
  shows "v \<in> set (ho_items ut (p_friend_requests_incoming d)) \<Longrightarrow>
      psn_data_ok ok ut (d\<lparr>p_friend_requests_incoming := ho_del ut (p_friend_requests_incoming d) v\<rparr>)"
    and "v \<in> set (ho_items ut (p_friends d)) \<Longrightarrow> psn_data_ok ok ut (d\<lparr>p_friends := ho_del ut (p_friends d) v\<rparr>)"
  using assms ok_lists [OF assms] set_items_del ok_del by (auto simp: psn_data_ok_def all_users_def intro: inj_on_subset)

lemma friend_request_ok:
  assumes "friend_request ut lt topics d al = Some (d', al')" "psn_data_ok ok ut d"
  shows "psn_data_ok ok ut d'"
proof (cases rule: friend_request_cases [OF assms])
  case (2 s source u v d1)
  then show ?thesis using add_friend_ok(1) [OF assms(2), of u v] by simp
next
  case (3 s source u d1)
  then show ?thesis using add_incoming_ok(1) [OF assms(2), of u] by simp
qed (use assms(2) in simp)

lemma message_callback_ok:
  assumes "psn_message_callback ut lt message m = Some m'" "psn_data_ok ok ut (c_userdata m)"
  shows "psn_data_ok ok ut (c_userdata m')"
proof -
  have "psn_data_ok ok ut d" if "chat_message ut topics message (c_userdata m) = Some d" for topics d
    using chat_message_data [OF that] assms(2) by auto
  then show ?thesis using assms
    by (auto simp: psn_message_callback_def split: bind_splits if_splits) (metis friend_request_ok)+
qed

end

sublocale psn_tables < ai: app_inv "psn_app ut lt" "psn_data_ok ok ut" for lt :: "'k tomcrypt"
proof
  show "keeps_app c_userdata (psn_app ut lt)" by (rule psn_app_keeps)
  show "psn_data_ok ok ut (c_userdata m')" if "psn_app ut lt ev m = Some m'" "psn_data_ok ok ut (c_userdata m)" for ev m m'
    using that message_callback_ok by (auto simp: psn_app_def split: cb_event.splits)
qed

lemma psn_tables_uthash: "psn_tables (uthash u_name) (ut_ok u_name)"
  by unfold_locales

interpretation ptu: psn_tables "uthash u_name" "ut_ok u_name"
  by unfold_locales

end
