(* ===== verification/Psn_Steps.thy ===== *)
theory Psn_Steps
  imports Psn
begin

text \<open>
  psn as a state machine: the calls of the main thread and the steps of the network thread, in any
  order. The theorems are about every state that can be reached, and about what the network can do
  to the friend lists.
\<close>

section \<open>Calls of the client keep the data\<close>

lemma psn_publish_data:
  assumes "psn_publish ut lt psn topic len payload = Some psn'"
  shows "ps_data psn' = ps_data psn" "ps_connected psn' = ps_connected psn"
proof -
  have ai: "app_inv (psn_app ut lt) (\<lambda>_. True)" by unfold_locales (auto simp: psn_app_keeps)
  show "ps_data psn' = ps_data psn" "ps_connected psn' = ps_connected psn"
    using assms app_inv.ud_publish_call [OF ai] by (auto simp: psn_publish_def split: mosq_ptr.splits bind_splits)
qed

lemma mosquitto_new_data: "mosquitto_new rand w cid cs u = (e, Some m) \<Longrightarrow> c_userdata m = u"
proof -
  have z: "c_userdata (mosq_memset w u) = u" for w :: "'a mosq" by (simp add: mosq_memset_def mosq_calloc_def)
  have al: "c_userdata m' = c_userdata m" if "mosq_alloc m = (b, m')" for m m' :: "'a mosq" and b
    using that by (rule ud.keep_alloc)
  have r: "c_userdata m = u" if "mosquitto_reinitialise rand (Some m0) cid cs u = (MOSQ_ERR_SUCCESS, Some m)" for m m0 :: "'a mosq"
    using that unfolding mosquitto_reinitialise_def Let_def option.case
    by (auto split: if_split_asm option.split_asm prod.split_asm bool.split_asm dest!: al simp: z)
  assume "mosquitto_new rand w cid cs u = (e, Some m)"
  then show ?thesis unfolding mosquitto_new_def
    by (auto split: if_split_asm prod.split_asm bool.split_asm intro: r)
qed

lemma psn_app_inv: "app_inv (psn_app ut lt) (\<lambda>_. True)"
  by unfold_locales (auto simp: psn_app_keeps)

lemma psn_new_client_data: "psn_new_client rand w psn = Some m \<Longrightarrow> c_userdata m = ps_data psn"
  using mosquitto_new_data [of rand w "Some (p_username (ps_data psn))" True "ps_data psn"]
  by (cases "mosquitto_new rand w (Some (p_username (ps_data psn))) True (ps_data psn)")
     (auto simp: psn_new_client_def mosquitto_reinitialise_def Let_def split: mosq_ptr.splits)

lemma psn_connect_subscribe_data:
  assumes "psn_connect_subscribe ut lt m psn = Some (err, psn')"
  shows "ps_data psn' = c_userdata m"
proof -
  have sub: "c_userdata m' = c_userdata m" if "mosquitto_subscribe (psn_app ut lt) (Some m) t q = Some (rc, mid, Some m')" for m t q rc mid m'
    using that by (rule app_inv.ud_subscribe_call [OF psn_app_inv])
  have ex: "\<exists>m'. mosq = Some m'" if "mosquitto_subscribe (psn_app ut lt) (Some m) t q = Some (rc, mid, mosq)" for m t q rc mid mosq
    using that by (auto simp: mosquitto_subscribe_def split: if_split_asm bind_split_asm)
  let ?u = "p_username (ps_data psn)" and ?app = "psn_app ut lt"
  obtain t1 where t1: "copy_into 128 (''users/'' @ ?u @ ''/#'') = Some t1"
    using assms by (cases "copy_into 128 (''users/'' @ ?u @ ''/#'')") (simp_all add: psn_connect_subscribe_def)
  then obtain rc1 mid1 m1 where s1: "mosquitto_subscribe ?app (Some m) (Some t1) 1 = Some (rc1, mid1, Some m1)"
    using assms ex [of m "Some t1" 1]
    by (cases "mosquitto_subscribe ?app (Some m) (Some t1) 1") (auto simp: psn_connect_subscribe_def)
  obtain t2 where t2: "copy_into 128 (''chat/+/'' @ ?u) = Some t2"
    using assms t1 s1 by (cases "copy_into 128 (''chat/+/'' @ ?u)") (simp_all add: psn_connect_subscribe_def)
  obtain rc2 mid2 m2 where s2: "mosquitto_subscribe ?app (Some m1) (Some t2) 1 = Some (rc2, mid2, Some m2)"
    using assms t1 s1 t2 ex [of m1 "Some t2" 1]
    by (cases "mosquitto_subscribe ?app (Some m1) (Some t2) 1") (auto simp: psn_connect_subscribe_def)
  have r: "(case mosquitto_loop_start (Some m2) of (rc, mosq) \<Rightarrow>
         do { m \<leftarrow> mosq;
           if rc \<noteq> MOSQ_ERR_SUCCESS then Some (PSN_ERR_FAIL, psn_set_client m psn)
           else Some (PSN_ERR_SUCCESS, (psn_set_client m psn)\<lparr>ps_connected := True\<rparr>) }) = Some (err, psn')"
    using assms t1 s1 t2 s2 by (simp add: psn_connect_subscribe_def)
  show ?thesis using r sub [OF s1] sub [OF s2]
    by (auto simp: mosquitto_loop_start_def psn_set_client_def split: if_splits)
qed

lemma psn_connect_data:
  assumes "psn_connect ut lt rand w psn = Some (err, psn')"
  shows "ps_data psn' = ps_data psn"
proof -
  obtain m where n1: "psn_new_client rand w psn = Some m"
    using assms by (cases "psn_new_client rand w psn") (simp_all add: psn_connect_def)
  then obtain m1 where n2: "mosquitto_message_callback_set m True = Some m1"
    using assms by (cases "mosquitto_message_callback_set m True") (simp_all add: psn_connect_def)
  obtain rc mosq where
    n3: "mosquitto_username_pw_set (Some m1) (Some (p_username (ps_data psn))) (Some (p_password (ps_data psn))) = (rc, mosq)"
    by fastforce
  note n = n1 n2 n3
  have d1: "c_userdata m1 = ps_data psn"
    using n(2) psn_new_client_data [OF n(1)] by (auto simp: mosquitto_message_callback_set_def split: if_splits)
  obtain m2 where m2: "mosq = Some m2" "c_userdata m2 = c_userdata m1"
    using n(3) by (auto simp: mosquitto_username_pw_set_def Let_def dest!: ud.keep_alloc
        split: option.split_asm prod.split_asm bool.split_asm)
  obtain rc3 m3 where c: "mosquitto_connect (psn_app ut lt) (Some m2) (Some (p_hostname (ps_data psn))) (p_port (ps_data psn)) 60
      = Some (rc3, Some m3)"
    and r: "(if rc3 \<noteq> 0 then Some (PSN_ERR_COULD_NOT_CONNECT, psn_set_client m3 psn)
      else psn_connect_subscribe ut lt m3 psn) = Some (err, psn')"
    using assms n m2(1) by (auto simp: psn_connect_def split: bind_split_asm)
  have "c_userdata m3 = ps_data psn" using app_inv.ud_connect_call [OF psn_app_inv c] d1 m2(2) by simp
  then show ?thesis using r psn_connect_subscribe_data [of ut lt m3 psn err psn']
    by (auto simp: psn_set_client_def split: if_splits)
qed

section \<open>psn as a state machine\<close>

text \<open>
  One step is a whole call of the main thread, or one pass of the network thread's loop, in which
  any number of messages may arrive. The program around it may print.
\<close>

inductive psn_step :: "('h, 'k user) hash_ops \<Rightarrow> 'k tomcrypt \<Rightarrow> ('h, 'k) psn_t \<Rightarrow> ('h, 'k) psn_t \<Rightarrow> bool" for ut lt where
  network: "\<lbrakk>ps_mosq psn = Mosq m;
     mosquitto_loop (psn_app ut lt) sel (Some (m\<lparr>c_userdata := ps_data psn\<rparr>)) k = Some (rc, Some m')\<rbrakk>
     \<Longrightarrow> psn_step ut lt psn (psn_set_client m' psn)"
| environment: "ps_mosq psn = Mosq m \<Longrightarrow>
     psn_step ut lt psn (psn\<lparr>ps_mosq := Mosq (m\<lparr>e_now := t, e_allocs := al, e_junk := j, e_rx := rx, e_wr := wr, e_connects := cs\<rparr>)\<rparr>)"
| connect: "psn_connect ut lt rand w psn = Some (err, psn') \<Longrightarrow> psn_step ut lt psn psn'"
| disconnect: "psn_disconnect ut lt (Some psn) = Some (err, Some psn') \<Longrightarrow> psn_step ut lt psn psn'"
| set_server: "psn_set_server (Some psn) hostname port = Some (err, Some psn') \<Longrightarrow> psn_step ut lt psn psn'"
| set_username: "psn_set_username (Some psn) username password = Some (err, Some psn') \<Longrightarrow> psn_step ut lt psn psn'"
| set_shown_name: "psn_set_shown_name (Some psn) shown_name = Some (err, Some psn') \<Longrightarrow> psn_step ut lt psn psn'"
| make_friend_req: "psn_make_friend_req ut lt (Some psn) target message = Some (err, Some psn') \<Longrightarrow> psn_step ut lt psn psn'"
| accept_friend_req: "psn_accept_friend_req ut lt (Some psn) target = Some (err, Some psn') \<Longrightarrow> psn_step ut lt psn psn'"
| refuse_friend_req: "psn_refuse_friend_req ut (Some psn) target = Some (err, Some psn') \<Longrightarrow> psn_step ut lt psn psn'"
| delete_friend: "psn_delete_friend ut (Some psn) target = Some (err, Some psn') \<Longrightarrow> psn_step ut lt psn psn'"
| send_message: "psn_send_message ut lt (Some psn) target message = Some (err, Some psn') \<Longrightarrow> psn_step ut lt psn psn'"
| send_encrypted: "psn_send_encrypted_message ut lt psn target message = Some (err, psn') \<Longrightarrow> psn_step ut lt psn psn'"
| new_key: "psn_generate_new_key lt psn = (err, psn') \<Longrightarrow> psn_step ut lt psn psn'"
| print: "psn_step ut lt psn (psn\<lparr>ps_data := (ps_data psn)\<lparr>p_stdout := p_stdout (ps_data psn) @ ss\<rparr>\<rparr>)"

inductive psn_reachable :: "('h, 'k user) hash_ops \<Rightarrow> 'k tomcrypt \<Rightarrow> ('h, 'k) psn_t \<Rightarrow> bool" for ut lt where
  init: "psn_init ut prng hash psn = (PSN_ERR_SUCCESS, psn') \<Longrightarrow> psn_reachable ut lt psn'"
| step: "\<lbrakk>psn_reachable ut lt psn; psn_step ut lt psn psn'\<rbrakk> \<Longrightarrow> psn_reachable ut lt psn'"

lemma data_ok_cong:
  "\<lbrakk>p_friends d' = p_friends d; p_friend_requests_outgoing d' = p_friend_requests_outgoing d;
    p_friend_requests_incoming d' = p_friend_requests_incoming d; p_next d' = p_next d\<rbrakk> \<Longrightarrow>
     psn_data_ok ok ut d' = psn_data_ok ok ut d"
  by (simp add: psn_data_ok_def all_users_def)

context psn_tables
begin

text \<open>Each call of the main thread keeps the invariant.\<close>

lemma make_friend_req_ok:
  assumes "psn_make_friend_req ut lt (Some psn) target message = Some (err, Some psn')" "psn_data_ok ok ut (ps_data psn)"
  shows "psn_data_ok ok ut (ps_data psn')"
proof -
  consider "ps_data psn' = ps_data psn" | s where "ps_data psn' = psn_printf s (ps_data psn)"
    | topic psn1 u d al where "psn_publish ut lt psn topic (int (length message)) (bytes_of_string message) = Some psn1"
        "new_user lt target (ps_data psn1) (psn_allocs psn1) = Some (u, d, al)"
        "ps_data psn' = d\<lparr>p_friend_requests_outgoing := ho_add ut (p_friend_requests_outgoing d) u\<rparr>"
    using assms(1) by (auto simp: psn_make_friend_req_def psn_not_connected_def Let_def
        split: mosq_ptr.split_asm if_split_asm bind_split_asm)
  then show ?thesis
  proof cases
    case 3
    note u = new_userD [OF 3(2)]
    show ?thesis using add_outgoing_ok(1) [OF assms(2), of u] u 3(3) psn_publish_data [OF 3(1)] by simp
  qed (use assms(2) in auto)
qed

lemma accept_friend_req_ok:
  assumes "psn_accept_friend_req ut lt (Some psn) target = Some (err, Some psn')" "psn_data_ok ok ut (ps_data psn)"
  shows "psn_data_ok ok ut (ps_data psn')"
proof -
  let ?d = "ps_data psn"
  consider "ps_data psn' = ?d" | s where "ps_data psn' = psn_printf s ?d"
    | v topic psn1 where "ho_find ut (p_friend_requests_incoming ?d) target = Some v"
        "psn_publish ut lt (psn\<lparr>ps_data := ?d\<lparr>p_friend_requests_incoming := ho_del ut (p_friend_requests_incoming ?d) v\<rparr>\<rparr>)
          topic 0 [] = Some psn1"
        "ps_data psn' = (ps_data psn1)\<lparr>p_friends := ho_add ut (p_friends (ps_data psn1)) v\<rparr>"
    using assms(1) by (auto simp: psn_accept_friend_req_def psn_not_connected_def Let_def
        split: mosq_ptr.split_asm if_split_asm option.split_asm bind_split_asm)
  then show ?thesis
  proof cases
    case 3
    have "v \<in> set (ho_items ut (p_friend_requests_incoming ?d))"
      using find_SomeD [OF _ 3(1)] ok_lists [OF assms(2)] by simp
    then show ?thesis using accept_ok(1) [OF assms(2)] 3(3) psn_publish_data [OF 3(2)] by simp
  qed (use assms(2) in auto)
qed

lemma remove_ok:
  "psn_refuse_friend_req ut (Some psn) target = Some (err, Some psn') \<Longrightarrow> psn_data_ok ok ut (ps_data psn) \<Longrightarrow> psn_data_ok ok ut (ps_data psn')"
  "psn_delete_friend ut (Some psn) target = Some (err, Some psn') \<Longrightarrow> psn_data_ok ok ut (ps_data psn) \<Longrightarrow> psn_data_ok ok ut (ps_data psn')"
  by (auto simp: psn_refuse_friend_req_def psn_delete_friend_def split: option.splits)
     (metis find_SomeD ok_lists delete_ok)+

lemma send_ok:
  "psn_send_message ut lt (Some psn) target message = Some (err, Some psn') \<Longrightarrow> psn_data_ok ok ut (ps_data psn) \<Longrightarrow> psn_data_ok ok ut (ps_data psn')"
  "psn_send_encrypted_message ut lt psn target message = Some (err, psn') \<Longrightarrow> psn_data_ok ok ut (ps_data psn) \<Longrightarrow> psn_data_ok ok ut (ps_data psn')"
  by (auto simp: psn_send_message_def psn_send_encrypted_message_def psn_not_connected_def psn_publish_data
      split: option.split_asm if_split_asm bind_split_asm)

lemma settings_ok:
  "psn_set_server (Some psn) hostname port = Some (err, Some psn') \<Longrightarrow> psn_data_ok ok ut (ps_data psn') = psn_data_ok ok ut (ps_data psn)"
  "psn_set_username (Some psn) username password = Some (err, Some psn') \<Longrightarrow> psn_data_ok ok ut (ps_data psn') = psn_data_ok ok ut (ps_data psn)"
  "psn_set_shown_name (Some psn) shown_name = Some (err, Some psn') \<Longrightarrow> psn_data_ok ok ut (ps_data psn') = psn_data_ok ok ut (ps_data psn)"
  "psn_generate_new_key lt psn = (err, psn') \<Longrightarrow> psn_data_ok ok ut (ps_data psn') = psn_data_ok ok ut (ps_data psn)"
  by (auto simp: psn_set_server_def psn_set_username_def psn_set_shown_name_def psn_generate_new_key_def
      psn_data_ok_def all_users_def split: bind_split_asm option.split_asm)

lemma disconnect_ok:
  assumes "psn_disconnect ut lt (Some psn) = Some (err, Some psn')"
  shows "ps_data psn' = ps_data psn"
  using assms ai.ud_disconnect_call
  by (fastforce simp: psn_disconnect_def mosquitto_loop_stop_def mosquitto_disconnect_def Let_def
      split: mosq_ptr.split_asm if_split_asm bind_split_asm option.split_asm prod.split_asm)

lemma psn_step_ok:
  assumes "psn_step ut lt psn psn'" "psn_data_ok ok ut (ps_data psn)"
  shows "psn_data_ok ok ut (ps_data psn')"
  using assms
proof (induction rule: psn_step.induct)
  case (network psn m sel k rc m')
  then show ?case using ai.inv_loop [OF network(2)] by (simp add: psn_set_client_def)
next
  case (connect rand w psn err psn')
  then show ?case using psn_connect_data by metis
next
  case (disconnect psn err psn')
  then show ?case using disconnect_ok by metis
next
  case (set_server psn hostname port err psn')
  then show ?case using settings_ok(1) by metis
next
  case (set_username psn username password err psn')
  then show ?case using settings_ok(2) by metis
next
  case (set_shown_name psn shown_name err psn')
  then show ?case using settings_ok(3) by metis
next
  case (make_friend_req psn target message err psn')
  then show ?case using make_friend_req_ok by metis
next
  case (accept_friend_req psn target err psn')
  then show ?case using accept_friend_req_ok by metis
next
  case (refuse_friend_req psn target err psn')
  then show ?case using remove_ok(1) by metis
next
  case (delete_friend psn target err psn')
  then show ?case using remove_ok(2) by metis
next
  case (send_message psn target message err psn')
  then show ?case using send_ok(1) by metis
next
  case (send_encrypted psn target message err psn')
  then show ?case using send_ok(2) by metis
next
  case (new_key psn err psn')
  then show ?case using settings_ok(4) by metis
next
  case (print psn ss)
  then show ?case by (simp add: psn_data_ok_def all_users_def)
qed simp

lemma psn_init_ok: "psn_init ut prng hash psn = (PSN_ERR_SUCCESS, psn') \<Longrightarrow> psn_data_ok ok ut (ps_data psn')"
  by (auto simp: psn_init_def psn_data_ok_def all_users_def ok_null items_null split: if_splits prod.splits)

text \<open>When a friend request makes the callback copy a name into an array that is too short for it.\<close>

lemma request_overflows:
  assumes "psn_data_ok ok ut d" "fst (malloc_ok al)"
  shows "friend_request ut lt [Some ''users'', me, Some ''frequest'', Some source] d al = None \<longleftrightarrow>
    length source \<ge> 32 \<and> source \<notin> friends_of ut d \<union> incoming_of ut d"
proof -
  have n: "new_user lt source d' al = None \<longleftrightarrow> length source \<ge> 32" for d' :: "('h, 'k) psn_data"
    using assms(2) by (auto simp: new_user_def copy_into_def split: prod.splits bool.splits)
  show ?thesis
  proof (cases "source \<in> friends_of ut d \<union> incoming_of ut d")
    case True
    then show ?thesis using find_lists [OF assms(1), of source] by (auto simp: friend_request_def)
  next
    case False
    then have f: "ho_find ut (p_friends d) source = None" "ho_find ut (p_friend_requests_incoming d) source = None"
      using find_lists [OF assms(1), of source] by simp_all
    show ?thesis
    proof (cases "length source \<ge> 32")
      case True
      then have "new_user lt source d' al = None" for d' :: "('h, 'k) psn_data" using n by blast
      then show ?thesis using f False True by (simp add: friend_request_def Let_def split: option.split)
    next
      case short: False
      then have "\<exists>r. new_user lt source d' al = Some r" for d' :: "('h, 'k) psn_data" using n [of d'] by auto
      then have "friend_request ut lt [Some ''users'', me, Some ''frequest'', Some source] d al \<noteq> None"
        using f by (auto simp: friend_request_def Let_def split: option.split bind_splits prod.split) (metis option.distinct(1))+
      then show ?thesis using short by simp
    qed
  qed
qed

lemma reachable_ok: "psn_reachable ut lt psn \<Longrightarrow> psn_data_ok ok ut (ps_data psn)"
  by (induction rule: psn_reachable.induct) (blast intro: psn_init_ok psn_step_ok)+

text \<open>What messages from the network can change: from \<open>d0\<close>, the lists can only become \<open>d\<close>.\<close>

definition network_from :: "('h, 'k) psn_data \<Rightarrow> ('h, 'k) psn_data \<Rightarrow> bool" where
  "network_from d0 d \<longleftrightarrow> psn_data_ok ok ut d \<and> friends_of ut d0 \<subseteq> friends_of ut d \<and>
     friends_of ut d \<union> outgoing_of ut d \<subseteq> friends_of ut d0 \<union> outgoing_of ut d0 \<and> outgoing_of ut d \<subseteq> outgoing_of ut d0 \<and>
     incoming_of ut d0 \<subseteq> incoming_of ut d \<and> p_username d = p_username d0 \<and> p_password d = p_password d0"

lemma network_printf [simp]: "network_from d0 (psn_printf s d) = network_from d0 d"
  by (simp add: network_from_def) (simp add: psn_printf_def)

lemma friend_request_network:
  assumes "friend_request ut lt topics d al = Some (d', al')" "network_from d0 d"
  shows "network_from d0 d'"
proof -
  have d: "psn_data_ok ok ut d" using assms(2) by (simp add: network_from_def)
  show ?thesis
  proof (cases rule: friend_request_cases [OF assms(1) d])
    case (2 s source u v d1)
    have u: "length (u_name u) < 32" "u_name u \<in> outgoing_of ut d"
      using 2(4-7) image_eqI [of "u_name u" u_name v] by (simp_all add: outgoing_of_def)
    note f = add_friend_ok [OF d 2(3) u(1) 2(6) 2(8) [folded 2(4)], folded 2(2)]
    have "outgoing_of ut d1 \<subseteq> outgoing_of ut d" unfolding f(4) by (auto simp: outgoing_of_def)
    then have "network_from d0 d1" using f(1-3) u(2) assms(2) by (auto simp: network_from_def) (simp_all add: 2(2))
    then show ?thesis using 2(1) by simp
  next
    case (3 s source u d1)
    have u: "length (u_name u) < 32" "u_name u \<notin> friends_of ut d \<union> incoming_of ut d" using 3(4,5,7,8) by simp_all
    note f = add_incoming_ok [OF d 3(3) u, folded 3(2)]
    have "network_from d0 d1" using f assms(2) by (auto simp: network_from_def) (simp_all add: 3(2))
    then show ?thesis using 3(1) by simp
  qed (use assms(2) in simp)
qed

lemma network_app: "app_inv (psn_app ut lt) (network_from d0)"
proof
  show "keeps_app c_userdata (psn_app ut lt)" by (rule psn_app_keeps)
  fix ev m m' assume a: "psn_app ut lt ev m = Some m'" "network_from d0 (c_userdata m)"
  have "network_from d0 d" if "chat_message ut topics message (c_userdata m) = Some d" for topics message d
    using chat_message_data [OF that] a(2) by auto
  then show "network_from d0 (c_userdata m')" using a
    by (auto simp: psn_app_def psn_message_callback_def split: cb_event.split_asm bind_split_asm if_split_asm)
       (metis friend_request_network)+
qed

end

section \<open>What only the network does\<close>

inductive psn_network :: "('h, 'k user) hash_ops \<Rightarrow> 'k tomcrypt \<Rightarrow> ('h, 'k) psn_t \<Rightarrow> ('h, 'k) psn_t \<Rightarrow> bool" for ut lt psn where
  idle: "psn_network ut lt psn psn"
| pass: "\<lbrakk>psn_network ut lt psn psn1; ps_mosq psn1 = Mosq m;
     mosquitto_loop (psn_app ut lt) sel (Some (m\<lparr>c_userdata := ps_data psn1\<rparr>)) k = Some (rc, Some m')\<rbrakk>
     \<Longrightarrow> psn_network ut lt psn (psn_set_client m' psn1)"
| arrival: "\<lbrakk>psn_network ut lt psn psn1; ps_mosq psn1 = Mosq m\<rbrakk> \<Longrightarrow>
     psn_network ut lt psn (psn1\<lparr>ps_mosq := Mosq (m\<lparr>e_now := t, e_allocs := al, e_junk := j, e_rx := rx, e_wr := wr, e_connects := cs\<rparr>)\<rparr>)"

lemma network_from_passes:
  assumes "psn_tables ut ok" "psn_network ut lt psn psn'" "psn_data_ok ok ut (ps_data psn)"
  shows "psn_tables.network_from ut ok (ps_data psn) (ps_data psn')"
  using assms(2)
proof induction
  case idle
  then show ?case using assms(3) by (simp add: psn_tables.network_from_def [OF assms(1)])
next
  case (pass psn1 m sel k rc m')
  then show ?case using app_inv.inv_loop [OF psn_tables.network_app [OF assms(1)] pass(3)] by (simp add: psn_set_client_def)
qed simp

section \<open>Without a client\<close>

lemma psn_step_null: "\<lbrakk>psn_step ut lt psn psn'; ps_mosq psn = Mosq_null\<rbrakk> \<Longrightarrow> ps_mosq psn' = Mosq_null"
  by (induction rule: psn_step.induct)
     (auto simp: psn_connect_def psn_new_client_def mosquitto_reinitialise_def psn_disconnect_def psn_set_server_def
       psn_set_username_def psn_set_shown_name_def psn_make_friend_req_def psn_accept_friend_req_def
       psn_refuse_friend_req_def psn_delete_friend_def psn_send_message_def psn_send_encrypted_message_def
       psn_publish_def psn_not_connected_def psn_generate_new_key_def
       split: option.splits if_splits bind_splits)

section \<open>Properties\<close>

definition demo_crypt :: "nat tomcrypt" where
  "demo_crypt = \<lparr>tc_zero = 0, tc_e_zero = (\<lambda>k. k = 0), tc_make_key = Some 7,
     tc_encrypt = (\<lambda>k bs. Some bs), tc_export = (\<lambda>b k. Some [of_nat k]), tc_import = length\<rparr>"

definition demo_psn :: "(nat user ut_table option, nat) mosq_ptr \<Rightarrow> string \<Rightarrow> (nat user ut_table option, nat) psn_t" where
  "demo_psn ptr name = \<lparr>ps_mosq = ptr,
     ps_data = \<lparr>p_username = name, p_shown_name = name, p_password = [], p_hostname = ''localhost'', p_port = 1883,
       p_friends = None, p_friend_requests_outgoing = None, p_friend_requests_incoming = None,
       p_pk_key = 0, p_stdout = [], p_next = 0\<rparr>, ps_connected = False\<rparr>"

lemma demo_psn_init: "psn_init (uthash u_name) 0 0 (demo_psn ptr name) = (PSN_ERR_SUCCESS, demo_psn ptr name)"
  by (simp add: psn_init_def init_tomcrypt_lib_def init_mosquitto_lib_def demo_psn_def)

text \<open>
  C8: in every state that psn can reach, by any calls of its interface and any messages from the
  network, the three friend lists are hash tables, no user object is in two of them, every object
  was allocated, the names in them fit their arrays, and no name occurs twice among the friends and the incoming requests. Only \<open>psn_free\<close> and
  loading a configuration are not among the calls. The runs are those without undefined behaviour: a call that would copy a string
  behind the end of an array has no successor state. The network can
  cause this in each of these states, and the theorem says how: a friend request overflows the name of the new user
  exactly when the name in its topic has 32 characters or more and is neither a friend nor an incoming request.
\<close>
theorem psn_reachable_ok:
  assumes "psn_tables ut ok" "psn_reachable ut lt psn"
  shows "psn_data_ok ok ut (ps_data psn)
    \<and> (\<forall>me source al. fst (malloc_ok al) \<longrightarrow>
         (friend_request ut lt [Some ''users'', Some me, Some ''frequest'', Some source] (ps_data psn) al = None \<longleftrightarrow>
          length source \<ge> 32 \<and> source \<notin> friends_of ut (ps_data psn) \<union> incoming_of ut (ps_data psn)))"
  using psn_tables.reachable_ok [OF assms] psn_tables.request_overflows [OF assms(1)] by blast

theorem psn_reachable_ok_witness:
  "\<exists>psn. psn_set_username (Some (demo_psn Mosq_garbage ''alice'')) (Some ''bob'') ''pw'' = Some (PSN_ERR_SUCCESS, Some psn)
    \<and> psn_data_ok (ut_ok u_name) (uthash u_name) (ps_data psn)
    \<and> friend_request (uthash u_name) demo_crypt [Some ''users'', Some ''bob'', Some ''frequest'', Some (replicate 32 CHR ''x'')] (ps_data psn) [] = None"
proof -
  obtain psn where s: "psn_set_username (Some (demo_psn Mosq_garbage ''alice'')) (Some ''bob'') ''pw'' = Some (PSN_ERR_SUCCESS, Some psn)"
    by (simp add: psn_set_username_def copy_into_def)
  then have "psn_reachable (uthash u_name) demo_crypt psn"
    using psn_reachable.init [OF demo_psn_init] by (blast intro: psn_reachable.step psn_step.set_username)
  from psn_reachable_ok [OF psn_tables_uthash this] have k: "psn_data_ok (ut_ok u_name) (uthash u_name) (ps_data psn)"
    "friend_request (uthash u_name) demo_crypt [Some ''users'', Some ''bob'', Some ''frequest'', Some source] (ps_data psn) [] = None \<longleftrightarrow>
       length source \<ge> 32 \<and> source \<notin> friends_of (uthash u_name) (ps_data psn) \<union> incoming_of (uthash u_name) (ps_data psn)" for source
    by simp_all
  have "friends_of (uthash u_name) (ps_data psn) = {}" "incoming_of (uthash u_name) (ps_data psn) = {}"
    using s by (auto simp: psn_set_username_def copy_into_def demo_psn_def lists_of)
  then show ?thesis using s k by simp
qed

text \<open>
  C2: whatever arrives from the network, in any number of passes of the network thread, it cannot
  make anybody a friend to whom the user has not sent a friend request: the new friends were in
  the list of outgoing requests. It removes no friend and no incoming request, and does not
  change the user's name and password.
\<close>
theorem psn_network_safe:
  assumes "psn_tables ut ok" "psn_network ut lt psn psn'" "psn_data_ok ok ut (ps_data psn)"
  shows "friends_of ut (ps_data psn) \<subseteq> friends_of ut (ps_data psn')
    \<and> friends_of ut (ps_data psn') \<subseteq> friends_of ut (ps_data psn) \<union> outgoing_of ut (ps_data psn)
    \<and> outgoing_of ut (ps_data psn') \<subseteq> outgoing_of ut (ps_data psn)
    \<and> incoming_of ut (ps_data psn) \<subseteq> incoming_of ut (ps_data psn')
    \<and> p_username (ps_data psn') = p_username (ps_data psn) \<and> p_password (ps_data psn') = p_password (ps_data psn)"
  using network_from_passes [OF assms] by (simp add: psn_tables.network_from_def [OF assms(1)])

definition demo_listening :: "rx_event list \<Rightarrow> (nat user ut_table option, nat) psn_data mosq" where
  "demo_listening rx = (mosq_calloc (ps_data (demo_psn Mosq_null ''alice'')))\<lparr>c_sock := 3, c_threaded := True,
     c_on_message := True, c_max_inflight_messages := 20, c_state := mosq_cs_connected,
     c_in_packet := mosquitto_packet_cleanup packet_calloc, e_rx := rx\<rparr>"

theorem psn_network_safe_witness:
  "\<exists>m'. mosquitto_loop (psn_app (uthash u_name) demo_crypt) (Sel_ready True False False)
        (Some (demo_listening [Rx_data (frame PUBLISH (publish_body ''t'' 0 0 [7]))])) 1 = Some (0, Some m')
    \<and> friends_of (uthash u_name) (c_userdata m') = {} \<and> p_username (c_userdata m') = ''alice''"
proof -
  let ?rx = "[Rx_data (frame PUBLISH (publish_body ''t'' 0 0 [7]))]"
  let ?loop = "mosquitto_loop (psn_app (uthash u_name) demo_crypt) (Sel_ready True False False) (Some (demo_listening ?rx)) 1"
  let ?psn = "demo_psn (Mosq (demo_listening ?rx)) ''alice''"
  have "case ?loop of Some (rc, Some m') \<Rightarrow> rc = 0 | _ \<Rightarrow> False" by code_simp
  then obtain m' where m: "?loop = Some (0, Some m')" by (auto split: option.splits)
  have u: "(demo_listening ?rx)\<lparr>c_userdata := ps_data ?psn\<rparr> = demo_listening ?rx"
    by (simp add: demo_listening_def demo_psn_def mosq_calloc_def)
  have n: "psn_network (uthash u_name) demo_crypt ?psn (psn_set_client m' ?psn)"
    by (rule psn_network.pass [OF psn_network.idle, of _ "demo_listening ?rx"])
      (use m u in \<open>auto simp: demo_psn_def\<close>)
  have "psn_data_ok (ut_ok u_name) (uthash u_name) (ps_data ?psn)"
    by (simp add: demo_psn_def psn_data_ok_def all_users_def)
  then show ?thesis using psn_network_safe [OF psn_tables_uthash n] m
    by (simp add: psn_set_client_def lists_of demo_psn_def)
qed

text \<open>
  C37: a \<open>psn_t\<close> whose memory was cleared can never be connected: no call sets the pointer to the
  client, and \<open>psn_connect\<close>, whose test of that pointer is inverted, hands NULL to the library and
  then uses the result, a NULL pointer.
\<close>
theorem psn_cleared_never_connects:
  assumes "(psn_step ut lt)\<^sup>*\<^sup>* psn psn'" "ps_mosq psn = Mosq_null"
  shows "ps_mosq psn' = Mosq_null \<and> psn_connect ut lt rand w psn' = None"
proof -
  have "ps_mosq psn' = Mosq_null"
    using assms by (induction rule: rtranclp_induct) (auto intro: psn_step_null)
  then show ?thesis by (simp add: psn_connect_def psn_new_client_def mosquitto_reinitialise_def)
qed

theorem psn_cleared_never_connects_witness:
  "psn_connect (uthash u_name) demo_crypt (\<lambda>_. 0) (mosq_calloc (ps_data (demo_psn Mosq_null ''alice''))) (demo_psn Mosq_null ''alice'') = None"
  using psn_cleared_never_connects [of "uthash u_name" demo_crypt "demo_psn Mosq_null ''alice''"] by (simp add: demo_psn_def)

end
