(* ===== verification/Psn_Talk.thy ===== *)
theory Psn_Talk
  imports Psn_Steps
begin

text \<open>
  Two instances of psn and a broker between them that delivers what they publish: a friend request
  and its acceptance, and a message. The messages are those on the wire, through the client.
\<close>

section \<open>Two instances talking\<close>

text \<open>An instance that is connected, with its network thread running and nothing wrong.\<close>

definition psn_ready :: "('h \<Rightarrow> bool) \<Rightarrow> ('h, 'k user) hash_ops \<Rightarrow> ('h, 'k) psn_t \<Rightarrow> bool" where
  "psn_ready ok ut psn \<longleftrightarrow> psn_data_ok ok ut (ps_data psn) \<and> ps_connected psn \<and>
     (case ps_mosq psn of
        Mosq m \<Rightarrow> msgs_ok m \<and> e_allocs m = [] \<and> c_threaded m \<and> c_sock m \<noteq> INVALID_SOCKET \<and> \<not> c_callback_mutex m \<and>
          \<not> c_in_callback m \<and> c_on_message m
      | _ \<Rightarrow> False)"

text \<open>Another message may be in flight.\<close>

definition psn_window :: "('h, 'k) psn_t \<Rightarrow> bool" where
  "psn_window psn = (case ps_mosq psn of Mosq m \<Rightarrow> inflight_ok m | _ \<Rightarrow> False)"

text \<open>A name that can be a level of a topic.\<close>

definition plain_name :: "string \<Rightarrow> bool" where
  "plain_name s \<longleftrightarrow> s \<noteq> [] \<and> length s < 32 \<and> SEP \<notin> set s \<and> NUL \<notin> set s \<and> wildcard_free s"

text \<open>A PUBLISH packet of QoS 1 arrives, with the id that the broker gave it.\<close>

definition psn_receive :: "('h, 'k user) hash_ops \<Rightarrow> 'k tomcrypt \<Rightarrow> string \<Rightarrow> u8 list \<Rightarrow> u16 \<Rightarrow> ('h, 'k) psn_t \<Rightarrow> ('h, 'k) psn_t option" where
  "psn_receive ut lt topic payload mid psn =
     (case ps_mosq psn of
        Mosq m \<Rightarrow>
          do {
            (rc, m) \<leftarrow> mosquitto_packet_handle (psn_app ut lt)
              (incoming (publish_command 1 False False) (publish_body topic mid 1 payload) (m\<lparr>c_userdata := ps_data psn\<rparr>));
            Some (psn_set_client m psn)
          }
      | _ \<Rightarrow> None)"

text \<open>The packets that wait to be written.\<close>

definition psn_queue :: "('h, 'k) psn_t \<Rightarrow> packet list" where
  "psn_queue psn = (case ps_mosq psn of Mosq m \<Rightarrow> c_out_packet m | _ \<Rightarrow> [])"

text \<open>What the callback does to the data when allocations succeed.\<close>

definition message_effect :: "('h, 'k user) hash_ops \<Rightarrow> 'k tomcrypt \<Rightarrow> message \<Rightarrow> ('h, 'k) psn_data \<Rightarrow> ('h, 'k) psn_data option" where
  "message_effect ut lt message d =
     (case m_topic message of
        None \<Rightarrow> None
      | Some s \<Rightarrow>
          (let topics = map token_of (levels s) in
           if length topics = 3 then chat_message ut topics message d
           else if length topics = 4 then do { (d, al) \<leftarrow> friend_request ut lt topics d []; Some d }
           else Some d))"

lemma message_effect_request:
  "levels s = [''users'', me, ''frequest'', source] \<Longrightarrow> message_effect ut lt (received s mid 1 False payload) d =
     do { (d, al) \<leftarrow> friend_request ut lt [Some ''users'', token_of me, Some ''frequest'', token_of source] d []; Some d }"
  by (simp add: message_effect_def received_def token_of_def)

lemma message_effect_chat:
  "levels s = [''chat'', source, me] \<Longrightarrow> message_effect ut lt (received s mid 1 False payload) d =
     chat_message ut [Some ''chat'', token_of source, token_of me] (received s mid 1 False payload) d"
  by (simp add: message_effect_def received_def token_of_def)

lemma friend_request_allocs: "friend_request ut lt topics d [] = Some (d', al) \<Longrightarrow> al = []"
  by (auto simp: friend_request_def new_user_def Let_def split: bind_split_asm if_split_asm option.split_asm)

lemma callback_effect:
  assumes "e_allocs m = []" "m_topic message = Some s"
  shows "psn_message_callback ut lt message m =
    do { d \<leftarrow> message_effect ut lt message (c_userdata m); Some (m\<lparr>c_userdata := d\<rparr>) }"
proof -
  have t: "mosquitto_sub_topic_tokenise (Some s) [] =
      Some (MOSQ_ERR_SUCCESS, Some (map token_of (levels s), int (length (levels s))), [])"
    using sub_topic_tokenise_ok by blast
  have m: "m\<lparr>e_allocs := [], c_userdata := d\<rparr> = m\<lparr>c_userdata := d\<rparr>" for d using assms(1) by simp
  show ?thesis
    using assms(1) friend_request_allocs
    by (cases "friend_request ut lt (map token_of (levels s)) (c_userdata m) []")
       (auto simp: psn_message_callback_def message_effect_def assms t m Let_def dest: friend_request_allocs split: bind_splits)
qed

lemma psn_receive_effect:
  assumes "psn_ready ok ut psn" "topic \<noteq> []" "NUL \<notin> set topic" "length topic < 2 ^ 16"
    and "length (publish_body topic mid 1 payload) < 2 ^ 28"
    and "message_effect ut lt (received topic mid 1 False payload) (ps_data psn) = Some d" "psn_data_ok ok ut d"
  shows "\<exists>psn'. psn_receive ut lt topic payload mid psn = Some psn' \<and> psn_ready ok ut psn' \<and> ps_data psn' = d
    \<and> psn_queue psn' = psn_queue psn @ [ack PUBACK mid] \<and> psn_window psn' = psn_window psn"
proof -
  obtain m where m: "ps_mosq psn = Mosq m" using assms(1) by (auto simp: psn_ready_def split: mosq_ptr.splits)
  let ?m = "m\<lparr>c_userdata := ps_data psn\<rparr>" and ?msg = "received topic mid 1 False payload"
  have r: "msgs_ok m" "e_allocs m = []" "c_threaded m" "c_sock m \<noteq> INVALID_SOCKET" "\<not> c_callback_mutex m"
    "\<not> c_in_callback m" "c_on_message m" "ps_connected psn"
    using assms(1) m by (auto simp: psn_ready_def)
  obtain p where h: "mosquitto_packet_handle (psn_app ut lt)
      (incoming (publish_command 1 False False) (publish_body topic mid 1 payload) ?m) =
    do { m \<leftarrow> callback (psn_app ut lt) (On_message ?msg) (?m\<lparr>c_in_packet := p, c_out_packet := c_out_packet ?m @ [ack PUBACK mid]\<rparr>);
         Some (MOSQ_ERR_SUCCESS, m) }"
    using publish_qos1_callback [of ?m topic mid payload "psn_app ut lt" False False] r assms(2-5) by auto
  let ?n = "?m\<lparr>c_in_packet := p, c_out_packet := c_out_packet m @ [ack PUBACK mid]\<rparr>"
  have "callback (psn_app ut lt) (On_message ?msg) ?n = Some (?n\<lparr>c_userdata := d\<rparr>)"
    using r assms(6)
    by (simp add: callback_def callback_keep_lock_def psn_app_def callback_effect [where s = topic] received_def)
  then show ?thesis
    using m h r assms(7)
    by (auto simp: psn_receive_def psn_set_client_def psn_ready_def psn_queue_def psn_window_def msgs_ok_def inflight_ok_def)
qed

text \<open>Publishing on an instance that is ready: the data stay, and the packet on the wire is known.\<close>

lemma psn_publish_sends:
  assumes "psn_ready ok ut psn" "psn_window psn" "topic \<noteq> []" "mosquitto_topic_wildcard_len_check (Some topic) = MOSQ_ERR_SUCCESS"
    and "length (publish_body topic 0 1 payload) < 268435456"
  shows "\<exists>psn' mid p. mid \<noteq> 0 \<and> psn_publish ut lt psn topic (int (length payload)) payload = Some psn'
    \<and> psn_ready ok ut psn' \<and> ps_data psn' = ps_data psn \<and> psn_queue psn' = psn_queue psn @ [p]
    \<and> left_of p = frame (publish_command 1 False False) (publish_body topic mid 1 payload)"
proof -
  obtain m where m: "ps_mosq psn = Mosq m" using assms(1) by (auto simp: psn_ready_def split: mosq_ptr.splits)
  let ?m = "m\<lparr>c_userdata := ps_data psn\<rparr>"
  have r: "msgs_ok ?m" "e_allocs ?m = []" "c_threaded ?m" "c_sock ?m \<noteq> INVALID_SOCKET" "inflight_ok ?m"
    using assms(1,2) m by (auto simp: psn_ready_def psn_window_def msgs_ok_def inflight_ok_def)
  obtain mid m' ps where p: "mid \<noteq> 0" "msgs_ok m'" "thread_view m' = thread_view ?m"
      "mosquitto_publish (psn_app ut lt) (Some ?m) (Some topic) (int (length payload)) (Some payload) 1 False =
        Some (MOSQ_ERR_SUCCESS, Some mid, Some m')"
      "c_out_packet m' = c_out_packet ?m @ ps"
      "map left_of ps = [frame (publish_command 1 False False) (publish_body topic mid 1 payload)]"
    using publish_qos12_ok [OF r(1-4) _ assms(3-5), where app = "psn_app ut lt" and retain = False] r(5) by auto
  then show ?thesis using assms(1) m
    by (auto simp: psn_publish_def psn_ready_def psn_queue_def thread_view_def)
qed

lemma request_topic:
  assumes "plain_name a" "plain_name b"
  defines "t \<equiv> ''users/'' @ b @ ''/frequest/'' @ a"
  shows "levels t = [''users'', b, ''frequest'', a]" "t \<noteq> []" "NUL \<notin> set t" "length t < 82"
    "mosquitto_topic_wildcard_len_check (Some t) = MOSQ_ERR_SUCCESS"
proof -
  have n: "SEP \<notin> set a" "SEP \<notin> set b" using assms(1,2) by (auto simp: plain_name_def)
  show "levels t = [''users'', b, ''frequest'', a]"
    using split_on_append_sep [of SEP "''users''" "b @ ''/frequest/'' @ a"] split_on_append_sep [OF n(2), of "''frequest/'' @ a"]
      split_on_append_sep [of SEP "''frequest''" a] split_on_no_sep [OF n(1)] by (simp add: t_def)
  show "t \<noteq> []" "NUL \<notin> set t" "length t < 82" "mosquitto_topic_wildcard_len_check (Some t) = MOSQ_ERR_SUCCESS"
    using assms(1,2) by (auto simp: t_def plain_name_def mosquitto_topic_wildcard_len_check_def wildcard_len_loop_iff wildcard_free_def)
qed

lemma chat_topic:
  assumes "plain_name a" "plain_name b"
  defines "t \<equiv> ''chat/'' @ a @ ''/'' @ b"
  shows "levels t = [''chat'', a, b]" "t \<noteq> []" "NUL \<notin> set t" "length t < 82"
    "mosquitto_topic_wildcard_len_check (Some t) = MOSQ_ERR_SUCCESS"
proof -
  have n: "SEP \<notin> set a" "SEP \<notin> set b" using assms(1,2) by (auto simp: plain_name_def)
  show "levels t = [''chat'', a, b]"
    using split_on_append_sep [of SEP "''chat''" "a @ ''/'' @ b"] split_on_append_sep [OF n(1), of b]
      split_on_no_sep [OF n(2)] by (simp add: t_def)
  show "t \<noteq> []" "NUL \<notin> set t" "length t < 82" "mosquitto_topic_wildcard_len_check (Some t) = MOSQ_ERR_SUCCESS"
    using assms(1,2) by (auto simp: t_def plain_name_def mosquitto_topic_wildcard_len_check_def wildcard_len_loop_iff wildcard_free_def)
qed

context psn_tables
begin

lemma request_sent:
  assumes "psn_ready ok ut a" "psn_window a" "plain_name (p_username (ps_data a))" "plain_name target"
    and "length message < 268435000"
  shows "\<exists>a' mid p. psn_make_friend_req ut lt (Some a) target message = Some (PSN_ERR_SUCCESS, Some a')
    \<and> psn_ready ok ut a' \<and> p_username (ps_data a') = p_username (ps_data a) \<and> friends_of ut (ps_data a') = friends_of ut (ps_data a)
    \<and> incoming_of ut (ps_data a') = incoming_of ut (ps_data a) \<and> outgoing_of ut (ps_data a') = insert target (outgoing_of ut (ps_data a))
    \<and> psn_queue a' = psn_queue a @ [p]
    \<and> left_of p = frame (publish_command 1 False False)
        (publish_body (''users/'' @ target @ ''/frequest/'' @ p_username (ps_data a)) mid 1 (bytes_of_string message))"
proof -
  let ?t = "''users/'' @ target @ ''/frequest/'' @ p_username (ps_data a)"
  note t = request_topic [OF assms(3,4)]
  have l: "length (publish_body ?t 0 1 (bytes_of_string message)) < 268435456"
    using t(4) assms(5) by (simp add: publish_body_def)
  obtain a1 mid p where a1: "psn_publish ut lt a ?t (int (length message)) (bytes_of_string message) = Some a1"
    "psn_ready ok ut a1" "ps_data a1 = ps_data a" "psn_queue a1 = psn_queue a @ [p]"
    "left_of p = frame (publish_command 1 False False) (publish_body ?t mid 1 (bytes_of_string message))"
    using psn_publish_sends [OF assms(1,2) t(2,5) l, of lt] by auto
  obtain m where m: "ps_mosq a1 = Mosq m" "e_allocs m = []" using a1(2) by (auto simp: psn_ready_def split: mosq_ptr.splits)
  let ?u = "\<lparr>u_addr = p_next (ps_data a), u_name = target, u_shown_name = target, u_pub_key = tc_zero lt\<rparr>"
  let ?d = "(ps_data a)\<lparr>p_next := p_next (ps_data a) + 1,
    p_friend_requests_outgoing := ho_add ut (p_friend_requests_outgoing (ps_data a)) ?u\<rparr>"
  have c: "copy_into 128 ?t = Some ?t" "length target < 32" using t(4) assms(4) by (auto simp: copy_into_def plain_name_def)
  have n: "new_user lt target (ps_data a1) (psn_allocs a1) = Some (?u, (ps_data a)\<lparr>p_next := p_next (ps_data a) + 1\<rparr>, [])"
    using new_user_ok [OF c(2), of lt "ps_data a"] m a1(3) by (simp add: psn_allocs_def)
  have r: "psn_make_friend_req ut lt (Some a) target message = Some (PSN_ERR_SUCCESS, Some (a1\<lparr>ps_data := ?d\<rparr>))"
    using assms(1) a1(1) c n m
    by (auto simp: psn_make_friend_req_def psn_ready_def psn_set_allocs_def Let_def split: mosq_ptr.splits)
  note o = add_outgoing_ok [of "ps_data a" ?u]
  have "psn_ready ok ut (a1\<lparr>ps_data := ?d\<rparr>)" using o(1) a1(2) assms(1) c(2) by (simp add: psn_ready_def)
  then show ?thesis using r o(2-4) a1(4,5) assms(1) c(2)
    by (intro exI [of _ "a1\<lparr>ps_data := ?d\<rparr>"] exI [of _ mid] exI [of _ p]) (simp add: psn_ready_def psn_queue_def)
qed

lemma received_request:
  assumes "psn_data_ok ok ut d" "plain_name source" "plain_name me" "source \<notin> friends_of ut d \<union> incoming_of ut d"
  shows "\<exists>d'. message_effect ut lt (received (''users/'' @ me @ ''/frequest/'' @ source) mid 1 False payload) d = Some d'
    \<and> psn_data_ok ok ut d' \<and> p_username d' = p_username d
    \<and> (if source \<in> outgoing_of ut d
       then friends_of ut d' = insert source (friends_of ut d) \<and> incoming_of ut d' = incoming_of ut d
       else friends_of ut d' = friends_of ut d \<and> incoming_of ut d' = insert source (incoming_of ut d)
         \<and> outgoing_of ut d' = outgoing_of ut d)"
proof -
  note t = request_topic [OF assms(2,3)]
  have n: "length source < 32" "source \<noteq> []" "me \<noteq> []" using assms(2,3) by (auto simp: plain_name_def)
  let ?u = "\<lparr>u_addr = p_next d, u_name = source, u_shown_name = source, u_pub_key = tc_zero lt\<rparr>"
  note f = find_lists [OF assms(1), of source]
  show ?thesis
  proof (cases "ho_find ut (p_friend_requests_outgoing d) source")
    case None
    have "u_name ?u \<notin> friends_of ut d \<union> incoming_of ut d" "u_addr ?u = p_next d" "length (u_name ?u) < 32" using assms(4) n by simp_all
    note i = add_incoming_ok [OF assms(1) this(2,3,1)]
    show ?thesis unfolding message_effect_request [OF t(1)] using f None assms(4) i n
      by (simp add: token_of_def friend_request_def Let_def new_user_ok)
  next
    case (Some v)
    have v: "v \<in> set (ho_items ut (p_friend_requests_outgoing d))" using find_SomeD [OF _ Some] ok_lists [OF assms(1)] by simp
    have "u_name ?u \<notin> friends_of ut d \<union> incoming_of ut d" "u_addr ?u = p_next d" "length (u_name ?u) < 32" using assms(4) n by simp_all
    note i = add_friend_ok [OF assms(1) this(2,3) v this(1)]
    have c: "d\<lparr>p_friend_requests_outgoing := o', p_next := n', p_friends := f'\<rparr> =
      d\<lparr>p_next := n', p_friend_requests_outgoing := o', p_friends := f'\<rparr>" for o' n' f' by simp
    show ?thesis unfolding message_effect_request [OF t(1)] using f Some assms(4) i n
      by (simp add: token_of_def friend_request_def Let_def new_user_ok c)
  qed
qed

lemma request_accepted:
  assumes "psn_ready ok ut b" "psn_window b" "plain_name (p_username (ps_data b))" "plain_name source"
    and "source \<in> incoming_of ut (ps_data b)"
  shows "\<exists>b' mid p. psn_accept_friend_req ut lt (Some b) source = Some (PSN_ERR_SUCCESS, Some b')
    \<and> psn_ready ok ut b' \<and> friends_of ut (ps_data b') = insert source (friends_of ut (ps_data b))
    \<and> incoming_of ut (ps_data b') = incoming_of ut (ps_data b) - {source} \<and> outgoing_of ut (ps_data b') = outgoing_of ut (ps_data b)
    \<and> psn_queue b' = psn_queue b @ [p]
    \<and> left_of p = frame (publish_command 1 False False)
        (publish_body (''users/'' @ source @ ''/frequest/'' @ p_username (ps_data b)) mid 1 [])"
proof -
  let ?t = "''users/'' @ source @ ''/frequest/'' @ p_username (ps_data b)" and ?d = "ps_data b"
  note t = request_topic [OF assms(3,4)]
  have ok: "psn_data_ok ok ut ?d" using assms(1) by (simp add: psn_ready_def)
  obtain v where v: "ho_find ut (p_friend_requests_incoming ?d) source = Some v"
    using find_lists(2) [OF ok, of source] assms(5) by auto
  have v': "v \<in> set (ho_items ut (p_friend_requests_incoming ?d))" "u_name v = source"
    using find_SomeD [OF _ v] ok_lists [OF ok] by simp_all
  let ?d1 = "?d\<lparr>p_friend_requests_incoming := ho_del ut (p_friend_requests_incoming ?d) v\<rparr>"
  have b0: "psn_ready ok ut (b\<lparr>ps_data := ?d1\<rparr>)" "psn_window (b\<lparr>ps_data := ?d1\<rparr>)"
    using assms(1,2) delete_ok(1) [OF ok v'(1)] by (simp_all add: psn_ready_def psn_window_def)
  have l: "length (publish_body ?t 0 1 []) < 268435456" using t(4) by (simp add: publish_body_def)
  obtain b1 mid p where b1: "psn_publish ut lt (b\<lparr>ps_data := ?d1\<rparr>) ?t 0 [] = Some b1"
    "psn_ready ok ut b1" "ps_data b1 = ?d1" "psn_queue b1 = psn_queue b @ [p]"
    "left_of p = frame (publish_command 1 False False) (publish_body ?t mid 1 [])"
    using psn_publish_sends [OF b0 t(2,5) l, of lt] by (auto simp: psn_queue_def)
  note a = accept_ok [OF ok v'(1)]
  let ?d2 = "?d\<lparr>p_friend_requests_incoming := ho_del ut (p_friend_requests_incoming ?d) v, p_friends := ho_add ut (p_friends ?d) v\<rparr>"
  have r: "psn_accept_friend_req ut lt (Some b) source = Some (PSN_ERR_SUCCESS, Some (b1\<lparr>ps_data := ?d2\<rparr>))"
    using assms(1) v b1(1,3) t(4) by (auto simp: psn_accept_friend_req_def psn_ready_def copy_into_def split: mosq_ptr.splits)
  have "inj_on u_name (set (ho_items ut (p_friend_requests_incoming ?d)))"
    using ok by (auto simp: psn_data_ok_def intro: inj_on_subset)
  then have "incoming_of ut ?d2 = incoming_of ut ?d - {source}"
    using a(3) v' by (auto simp: incoming_of_def dest: inj_onD)
  moreover have "psn_ready ok ut (b1\<lparr>ps_data := ?d2\<rparr>)" using a(1) b1(2) by (simp add: psn_ready_def)
  ultimately show ?thesis using r a(2,4) b1(4,5) v'(2)
    by (intro exI [of _ "b1\<lparr>ps_data := ?d2\<rparr>"] exI [of _ mid] exI [of _ p]) (simp add: psn_queue_def)
qed

lemma request_arrives:
  assumes "psn_ready ok ut b" "plain_name source" "plain_name me" "length payload < 268435000"
    and "source \<notin> friends_of ut (ps_data b) \<union> incoming_of ut (ps_data b)"
  shows "\<exists>b'. psn_receive ut lt (''users/'' @ me @ ''/frequest/'' @ source) payload mid b = Some b' \<and> psn_ready ok ut b'
    \<and> p_username (ps_data b') = p_username (ps_data b) \<and> psn_queue b' = psn_queue b @ [ack PUBACK mid]
    \<and> psn_window b' = psn_window b
    \<and> (if source \<in> outgoing_of ut (ps_data b)
       then friends_of ut (ps_data b') = insert source (friends_of ut (ps_data b)) \<and> incoming_of ut (ps_data b') = incoming_of ut (ps_data b)
       else friends_of ut (ps_data b') = friends_of ut (ps_data b)
         \<and> incoming_of ut (ps_data b') = insert source (incoming_of ut (ps_data b))
         \<and> outgoing_of ut (ps_data b') = outgoing_of ut (ps_data b))"
proof -
  let ?t = "''users/'' @ me @ ''/frequest/'' @ source"
  note t = request_topic [OF assms(2,3)]
  have ok: "psn_data_ok ok ut (ps_data b)" using assms(1) by (simp add: psn_ready_def)
  obtain d where d: "message_effect ut lt (received ?t mid 1 False payload) (ps_data b) = Some d" "psn_data_ok ok ut d"
      "p_username d = p_username (ps_data b)"
      "if source \<in> outgoing_of ut (ps_data b)
       then friends_of ut d = insert source (friends_of ut (ps_data b)) \<and> incoming_of ut d = incoming_of ut (ps_data b)
       else friends_of ut d = friends_of ut (ps_data b) \<and> incoming_of ut d = insert source (incoming_of ut (ps_data b))
         \<and> outgoing_of ut d = outgoing_of ut (ps_data b)"
    using received_request [OF ok assms(2,3,5), of lt mid payload] by blast
  have l: "length ?t < 2 ^ 16" "length (publish_body ?t mid 1 payload) < 2 ^ 28" using t(4) assms(4) by (simp_all add: publish_body_def)
  obtain b' where "psn_receive ut lt ?t payload mid b = Some b'" "psn_ready ok ut b'" "ps_data b' = d"
    "psn_queue b' = psn_queue b @ [ack PUBACK mid]" "psn_window b' = psn_window b"
    using psn_receive_effect [OF assms(1) t(2,3) l d(1,2)] by blast
  then show ?thesis using d(3,4) by (intro exI [of _ b']) simp
qed

end

section \<open>Properties\<close>

definition demo_ready :: "string \<Rightarrow> (nat user ut_table option, nat) psn_t" where
  "demo_ready name = (demo_psn (Mosq (demo_listening [])) name)\<lparr>ps_connected := True\<rparr>"

lemma demo_ready_ok:
  "psn_ready (ut_ok u_name) (uthash u_name) (demo_ready name)" "psn_window (demo_ready name)"
  "p_username (ps_data (demo_ready name)) = name" "friends_of (uthash u_name) (ps_data (demo_ready name)) = {}"
  "incoming_of (uthash u_name) (ps_data (demo_ready name)) = {}" "outgoing_of (uthash u_name) (ps_data (demo_ready name)) = {}"
  by (simp_all add: demo_ready_def demo_psn_def psn_ready_def psn_window_def demo_listening_def mosq_calloc_def
      msgs_ok_def end_of_def inflight_ok_def psn_data_ok_def all_users_def lists_of)

definition demo_friend :: "string \<Rightarrow> string \<Rightarrow> (nat user ut_table option, nat) psn_t" where
  "demo_friend name friend = (let d = ps_data (demo_ready name) in (demo_ready name)\<lparr>ps_data := d\<lparr>p_friends :=
     HASH_ADD u_name None \<lparr>u_addr = 0, u_name = friend, u_shown_name = friend, u_pub_key = 0\<rparr>, p_next := 1\<rparr>\<rparr>)"

lemma demo_friend_ok:
  "plain_name friend \<Longrightarrow> psn_ready (ut_ok u_name) (uthash u_name) (demo_friend name friend)" "psn_window (demo_friend name friend)"
  "p_username (ps_data (demo_friend name friend)) = name" "p_stdout (ps_data (demo_friend name friend)) = []"
  "friends_of (uthash u_name) (ps_data (demo_friend name friend)) = {friend}"
proof -
  let ?u = "\<lparr>u_addr = 0, u_name = friend, u_shown_name = friend, u_pub_key = 0\<rparr> :: nat user"
  have h: "ut_iterate (HASH_ADD u_name None ?u) = [?u]" "ut_ok u_name (HASH_ADD u_name None ?u)"
    using ut.items_add [of u_name None ?u] ut.ok_add [of u_name None ?u] by simp_all
  show "psn_ready (ut_ok u_name) (uthash u_name) (demo_friend name friend)" if "plain_name friend"
    using h that by (simp add: demo_friend_def Let_def demo_ready_def demo_psn_def psn_ready_def demo_listening_def mosq_calloc_def
      msgs_ok_def end_of_def psn_data_ok_def all_users_def plain_name_def)
  show "psn_window (demo_friend name friend)" "p_username (ps_data (demo_friend name friend)) = name"
    "p_stdout (ps_data (demo_friend name friend)) = []"
    by (simp_all add: demo_friend_def Let_def demo_ready_def demo_psn_def psn_window_def demo_listening_def mosq_calloc_def inflight_ok_def)
  show "friends_of (uthash u_name) (ps_data (demo_friend name friend)) = {friend}"
    using h by (simp add: demo_friend_def Let_def lists_of)
qed

lemma demo_names: "plain_name ''alice''" "plain_name ''bob''"
  by (simp_all add: plain_name_def wildcard_free_def)

text \<open>
  C1: the friend protocol. Alice requests, the broker delivers her PUBLISH to Bob, Bob accepts, the
  broker delivers his PUBLISH to Alice: every call succeeds, the packets queued are the ones the
  other side understands, and at the end each is in the other's friend list, which has not changed
  otherwise. The topics are those of \<open>docs/proto.txt\<close>, except that the answer goes to
  \<open>users/Alice/frequest/Bob\<close>.
\<close>
theorem friend_handshake:
  fixes a b :: "('h, 'k) psn_t"
  assumes "psn_tables ut ok" "psn_ready ok ut a" "psn_ready ok ut b" "psn_window a" "psn_window b"
    and "plain_name alice" "plain_name bob" "p_username (ps_data a) = alice" "p_username (ps_data b) = bob"
    and "bob \<notin> friends_of ut (ps_data a) \<union> incoming_of ut (ps_data a)"
    and "alice \<notin> friends_of ut (ps_data b) \<union> incoming_of ut (ps_data b) \<union> outgoing_of ut (ps_data b)"
    and "length message < 268435000"
  shows "\<exists>a1 p1 i1 b1 b2 p2 i2 a2.
      psn_make_friend_req ut lt (Some a) bob message = Some (PSN_ERR_SUCCESS, Some a1)
    \<and> psn_queue a1 = psn_queue a @ [p1]
    \<and> left_of p1 = frame (publish_command 1 False False) (publish_body (''users/'' @ bob @ ''/frequest/'' @ alice) i1 1 (bytes_of_string message))
    \<and> psn_receive ut lt (''users/'' @ bob @ ''/frequest/'' @ alice) (bytes_of_string message) mid1 b = Some b1
    \<and> friends_of ut (ps_data b1) = friends_of ut (ps_data b) \<and> incoming_of ut (ps_data b1) = insert alice (incoming_of ut (ps_data b))
    \<and> psn_accept_friend_req ut lt (Some b1) alice = Some (PSN_ERR_SUCCESS, Some b2)
    \<and> psn_queue b2 = psn_queue b1 @ [p2]
    \<and> left_of p2 = frame (publish_command 1 False False) (publish_body (''users/'' @ alice @ ''/frequest/'' @ bob) i2 1 [])
    \<and> psn_receive ut lt (''users/'' @ alice @ ''/frequest/'' @ bob) [] mid2 a1 = Some a2
    \<and> friends_of ut (ps_data a2) = insert bob (friends_of ut (ps_data a))
    \<and> friends_of ut (ps_data b2) = insert alice (friends_of ut (ps_data b))
    \<and> incoming_of ut (ps_data b2) = incoming_of ut (ps_data b)"
proof -
  note pt = assms(1)
  obtain a1 i1 p1 where a1: "psn_make_friend_req ut lt (Some a) bob message = Some (PSN_ERR_SUCCESS, Some a1)"
      "psn_ready ok ut a1" "friends_of ut (ps_data a1) = friends_of ut (ps_data a)" "incoming_of ut (ps_data a1) = incoming_of ut (ps_data a)"
      "outgoing_of ut (ps_data a1) = insert bob (outgoing_of ut (ps_data a))" "psn_queue a1 = psn_queue a @ [p1]"
      "left_of p1 = frame (publish_command 1 False False) (publish_body (''users/'' @ bob @ ''/frequest/'' @ alice) i1 1 (bytes_of_string message))"
    using psn_tables.request_sent [OF pt assms(2,4), of bob message lt] assms(6-8,12) by auto
  obtain b1 where b1: "psn_receive ut lt (''users/'' @ bob @ ''/frequest/'' @ alice) (bytes_of_string message) mid1 b = Some b1"
      "psn_ready ok ut b1" "p_username (ps_data b1) = bob" "psn_window b1"
      "friends_of ut (ps_data b1) = friends_of ut (ps_data b)" "incoming_of ut (ps_data b1) = insert alice (incoming_of ut (ps_data b))"
    using psn_tables.request_arrives [OF pt assms(3,6,7), of "bytes_of_string message" lt mid1] assms(5,9,11,12) by auto
  obtain b2 i2 p2 where b2: "psn_accept_friend_req ut lt (Some b1) alice = Some (PSN_ERR_SUCCESS, Some b2)"
      "friends_of ut (ps_data b2) = insert alice (friends_of ut (ps_data b))" "incoming_of ut (ps_data b2) = incoming_of ut (ps_data b)"
      "psn_queue b2 = psn_queue b1 @ [p2]"
      "left_of p2 = frame (publish_command 1 False False) (publish_body (''users/'' @ alice @ ''/frequest/'' @ bob) i2 1 [])"
    using psn_tables.request_accepted [OF pt b1(2,4), of alice lt] b1(3,5,6) assms(6,7,11) by auto
  obtain a2 where a2: "psn_receive ut lt (''users/'' @ alice @ ''/frequest/'' @ bob) [] mid2 a1 = Some a2"
      "friends_of ut (ps_data a2) = insert bob (friends_of ut (ps_data a))"
    using psn_tables.request_arrives [OF pt a1(2) assms(7,6), of "[]" lt mid2] a1(3-5) assms(10) by auto
  show ?thesis using a1(1,6,7) b1(1,5,6) b2 a2 by blast
qed

theorem friend_handshake_witness:
  "\<exists>a1 b1 b2 a2. psn_make_friend_req (uthash u_name) demo_crypt (Some (demo_ready ''alice'')) ''bob'' ''hi'' = Some (PSN_ERR_SUCCESS, Some a1)
    \<and> psn_receive (uthash u_name) demo_crypt ''users/bob/frequest/alice'' (bytes_of_string ''hi'') 1 (demo_ready ''bob'') = Some b1
    \<and> psn_accept_friend_req (uthash u_name) demo_crypt (Some b1) ''alice'' = Some (PSN_ERR_SUCCESS, Some b2)
    \<and> psn_receive (uthash u_name) demo_crypt ''users/alice/frequest/bob'' [] 1 a1 = Some a2
    \<and> friends_of (uthash u_name) (ps_data a2) = {''bob''} \<and> friends_of (uthash u_name) (ps_data b2) = {''alice''}"
  using friend_handshake [OF psn_tables_uthash demo_ready_ok(1) demo_ready_ok(1) demo_ready_ok(2) demo_ready_ok(2) demo_names
      demo_ready_ok(3) demo_ready_ok(3), of "''hi''" demo_crypt 1 1]
  by (auto simp: demo_ready_ok)

text \<open>
  C10: a message to a friend is queued as a PUBLISH on \<open>chat/Alice/Bob\<close>. When it arrives, Bob's
  terminal shows exactly the sender and the message if Alice is in his friend list, and nothing
  changes if she is not.
\<close>
theorem chat_delivered:
  fixes a b :: "('h, 'k) psn_t"
  assumes "psn_tables ut ok" "psn_ready ok ut a" "psn_ready ok ut b" "psn_window a"
    and "plain_name alice" "plain_name bob" "p_username (ps_data a) = alice" "p_username (ps_data b) = bob"
    and "bob \<in> friends_of ut (ps_data a)" "message \<noteq> []" "NUL \<notin> set message" "length message < 268435000"
  shows "\<exists>a1 p i b1. psn_send_message ut lt (Some a) bob message = Some (PSN_ERR_SUCCESS, Some a1)
    \<and> ps_data a1 = ps_data a \<and> psn_queue a1 = psn_queue a @ [p]
    \<and> left_of p = frame (publish_command 1 False False) (publish_body (''chat/'' @ alice @ ''/'' @ bob) i 1 (bytes_of_string message))
    \<and> psn_receive ut lt (''chat/'' @ alice @ ''/'' @ bob) (bytes_of_string message) mid b = Some b1
    \<and> ps_data b1 = (if alice \<in> friends_of ut (ps_data b)
        then psn_printf (CR @ alice @ '': '' @ message @ NL @ ''> '') (ps_data b) else ps_data b)"
proof -
  let ?t = "''chat/'' @ alice @ ''/'' @ bob" and ?payload = "bytes_of_string message"
  note t = chat_topic [OF assms(5,6)]
  have ok: "psn_data_ok ok ut (ps_data a)" "psn_data_ok ok ut (ps_data b)" using assms(2,3) by (simp_all add: psn_ready_def)
  have l: "length (publish_body ?t 0 1 ?payload) < 268435456" "length ?t < 2 ^ 16" "length (publish_body ?t mid 1 ?payload) < 2 ^ 28"
    using t(4) assms(12) by (simp_all add: publish_body_def)
  obtain a1 i p where a1: "psn_publish ut lt a ?t (int (length message)) ?payload = Some a1" "ps_data a1 = ps_data a"
      "psn_queue a1 = psn_queue a @ [p]" "left_of p = frame (publish_command 1 False False) (publish_body ?t i 1 ?payload)"
    using psn_publish_sends [OF assms(2,4) t(2,5) l(1), of lt] by auto
  have s: "psn_send_message ut lt (Some a) bob message = Some (PSN_ERR_SUCCESS, Some a1)"
    using a1(1) assms(2,7,9) t(4) psn_tables.find_lists(1) [OF assms(1) ok(1), of bob]
    by (auto simp: psn_send_message_def psn_ready_def copy_into_def split: option.splits)
  let ?d = "if alice \<in> friends_of ut (ps_data b) then psn_printf (CR @ alice @ '': '' @ message @ NL @ ''> '') (ps_data b) else ps_data b"
  have n: "alice \<noteq> []" "bob \<noteq> []" using assms(5,6) by (simp_all add: plain_name_def)
  have e: "message_effect ut lt (received ?t mid 1 False ?payload) (ps_data b) = Some ?d"
    unfolding message_effect_chat [OF t(1)]
    using n assms(8,10,11) psn_tables.find_lists(1) [OF assms(1) ok(2), of alice]
    by (auto simp: chat_message_def token_of_def received_def split: option.splits)
  have "psn_data_ok ok ut ?d" using ok(2) by simp
  then obtain b1 where "psn_receive ut lt ?t ?payload mid b = Some b1" "ps_data b1 = ?d"
    using psn_receive_effect [OF assms(3) t(2,3) l(2,3) e] by blast
  then show ?thesis using s a1(2-4) by blast
qed

theorem chat_delivered_witness:
  "\<exists>a1 b1. psn_send_message (uthash u_name) demo_crypt (Some (demo_friend ''alice'' ''bob'')) ''bob'' ''hi'' = Some (PSN_ERR_SUCCESS, Some a1)
    \<and> psn_receive (uthash u_name) demo_crypt ''chat/alice/bob'' (bytes_of_string ''hi'') 1 (demo_friend ''bob'' ''alice'') = Some b1
    \<and> p_stdout (ps_data b1) = [CR @ ''alice: hi'' @ NL @ ''> '']"
  using chat_delivered [OF psn_tables_uthash demo_friend_ok(1) [OF demo_names(2)] demo_friend_ok(1) [OF demo_names(1)]
      demo_friend_ok(2) demo_names demo_friend_ok(3) demo_friend_ok(3), of "''hi''" demo_crypt 1]
  by (auto simp: demo_friend_ok plain_name_def psn_printf_def)

end
