(* ===== verification/Hex.thy ===== *)
theory Hex
  imports Prelude
begin

text \<open>
  The hexadecimal form of the keys in the configuration file, \<open>buf_to_hex_str\<close> and \<open>hex_str_to_buf\<close>
  of \<open>psn.c\<close>. Arrays are lists of fixed length; a write outside is undefined.
\<close>

section \<open>The C library\<close>

definition arr_write :: "'a list \<Rightarrow> nat \<Rightarrow> 'a \<Rightarrow> 'a list option" where
  "arr_write arr i v = (if i < length arr then Some (arr[i := v]) else None)"

text \<open>\<open>sprintf\<close> at a position of an array: the characters and a NUL.\<close>

definition sprintf_at :: "string \<Rightarrow> nat \<Rightarrow> string \<Rightarrow> string option" where
  "sprintf_at arr pos s =
     (if pos + length s < length arr then Some (take pos arr @ s @ NUL # drop (pos + length s + 1) arr) else None)"

definition c_string :: "string \<Rightarrow> string option" where
  "c_string arr = (if NUL \<in> set arr then Some (takeWhile (\<lambda>c. c \<noteq> NUL) arr) else None)"

definition hex_digit :: "nat \<Rightarrow> char" where
  "hex_digit n = (if n < 10 then char_of (n + 48) else char_of (n + 87))"

definition sprintf_02x :: "u8 \<Rightarrow> string" where
  "sprintf_02x b = [hex_digit (unat b div 16), hex_digit (unat b mod 16)]"

definition hex_value :: "char \<Rightarrow> u32 option" where
  "hex_value c =
     (let n = of_char c :: nat in
      if 48 \<le> n \<and> n \<le> 57 then Some (of_nat (n - 48))
      else if 97 \<le> n \<and> n \<le> 102 then Some (of_nat (n - 87))
      else if 65 \<le> n \<and> n \<le> 70 then Some (of_nat (n - 55))
      else None)"

definition isspace :: "char \<Rightarrow> bool" where
  "isspace c = (let n = of_char c :: nat in n = 32 \<or> (9 \<le> n \<and> n \<le> 13))"

text \<open>
  \<open>sscanf\<close> with \<open>%02x\<close>: white space is skipped, then at most two characters are an optional sign or the
  prefix \<open>0x\<close>, and digits. Without a digit nothing is converted.
\<close>

definition sscanf_02x :: "string \<Rightarrow> u32 option" where
  "sscanf_02x s =
     (case dropWhile isspace s of
        [] \<Rightarrow> None
      | [c] \<Rightarrow> hex_value c
      | c # d # _ \<Rightarrow>
          if c = CHR ''+'' then hex_value d
          else if c = CHR ''-'' then map_option uminus (hex_value d)
          else if c = CHR ''0'' \<and> (d = CHR ''x'' \<or> d = CHR ''X'') then None
          else
            (case (hex_value c, hex_value d) of
               (Some x, Some y) \<Rightarrow> Some (16 * x + y)
             | (Some x, None) \<Rightarrow> Some x
             | _ \<Rightarrow> None))"

section \<open>The two conversions\<close>

fun hex_loop :: "u8 list \<Rightarrow> string \<Rightarrow> nat \<Rightarrow> string option" where
  "hex_loop [] arr pos = Some arr"
| "hex_loop (b # bs) arr pos =
     do {
       arr \<leftarrow> sprintf_at arr pos (sprintf_02x b);
       hex_loop bs arr (pos + 2)
     }"

text \<open>The final NUL is written \<open>outlen\<close> behind the pointer that the loop has already moved.\<close>

definition buf_to_hex_str :: "u8 list \<Rightarrow> u32 \<Rightarrow> string \<Rightarrow> nat \<Rightarrow> (string \<times> nat) option" where
  "buf_to_hex_str buf_in inlen hex_out outlen =
     (if outlen < unat (inlen * 2 + 1) then Some (hex_out, outlen)
      else if length buf_in < unat inlen then None
      else
        do {
          arr \<leftarrow> hex_loop (take (unat inlen) buf_in) hex_out 0;
          let outlen = 2 * unat inlen;
          arr \<leftarrow> arr_write arr (2 * unat inlen + outlen) NUL;
          Some (arr, outlen)
        })"

text \<open>\<open>current\<close> is not initialised, and keeps its value when nothing can be converted.\<close>

fun unhex_loop :: "nat \<Rightarrow> string \<Rightarrow> u32 option \<Rightarrow> u8 list \<Rightarrow> nat \<Rightarrow> u8 list option" where
  "unhex_loop 0 hex_in current buf_out i = Some buf_out"
| "unhex_loop (Suc k) hex_in current buf_out i =
     do {
       let current = (case sscanf_02x hex_in of Some v \<Rightarrow> Some v | None \<Rightarrow> current);
       v \<leftarrow> current;
       buf_out \<leftarrow> arr_write buf_out i (ucast v);
       unhex_loop k (drop 2 hex_in) current buf_out (i + 1)
     }"

definition hex_str_to_buf :: "string \<Rightarrow> u32 \<Rightarrow> u8 list \<Rightarrow> u32 \<Rightarrow> (u8 list \<times> u32) option" where
  "hex_str_to_buf hex_in inlen buf_out outlen =
     (if outlen < (inlen - 1) div 2 then Some (buf_out, outlen)
      else if length hex_in < unat inlen then None
      else
        do {
          buf_out \<leftarrow> unhex_loop (unat (inlen div 2)) hex_in None buf_out 0;
          Some (buf_out, inlen div 2)
        })"

section \<open>Round trip\<close>

text \<open>The reference: two digits for each byte.\<close>

definition to_hex :: "u8 list \<Rightarrow> string" where
  "to_hex bs = concat (map sprintf_02x bs)"

lemma to_hex_simps [simp]: "to_hex [] = []" "to_hex (b # bs) = sprintf_02x b @ to_hex bs"
  by (simp_all add: to_hex_def)

lemma length_to_hex [simp]: "length (to_hex bs) = 2 * length bs"
  by (induction bs) (simp_all add: sprintf_02x_def)

lemma hex_digit_code: "n < 16 \<Longrightarrow> (of_char (hex_digit n) :: nat) = (if n < 10 then n + 48 else n + 87)"
  by (simp add: hex_digit_def)

lemma hex_value_digit: "n < 16 \<Longrightarrow> hex_value (hex_digit n) = Some (of_nat n)"
  by (auto simp: hex_value_def Let_def hex_digit_code)

lemma hex_digit_plain:
  assumes "n < 16"
  shows "hex_digit n \<noteq> NUL" "\<not> isspace (hex_digit n)" "hex_digit n \<noteq> CHR ''+''" "hex_digit n \<noteq> CHR ''-''"
    "hex_digit n \<noteq> CHR ''x''" "hex_digit n \<noteq> CHR ''X''"
  using hex_digit_code [OF assms] assms by (auto simp: isspace_def Let_def split: if_splits)

lemma NUL_to_hex: "NUL \<notin> set (to_hex bs)"
proof (induction bs)
  case (Cons b bs)
  have "unat b div 16 < 16" using unsigned_less [of b, where 'a = nat] by simp
  then show ?case using Cons hex_digit_plain(1) [of "unat b div 16"] hex_digit_plain(1) [of "unat b mod 16"]
    by (simp add: sprintf_02x_def)
qed simp

lemma sscanf_digits: "sscanf_02x (sprintf_02x b @ s) = Some (ucast b)"
proof -
  have d: "unat b div 16 < 16" "unat b mod 16 < 16" using unsigned_less [of b, where 'a = nat] by simp_all
  have "16 * (of_nat (unat b div 16) :: u32) + of_nat (unat b mod 16) = of_nat (16 * (unat b div 16) + unat b mod 16)"
    by (simp only: of_nat_add of_nat_mult of_nat_numeral)
  also have "\<dots> = of_nat (unat b)" by (simp only: mult_div_mod_eq)
  also have "\<dots> = ucast b" by simp
  finally show ?thesis using hex_digit_plain [OF d(1)] hex_digit_plain [OF d(2)]
    by (simp add: sscanf_02x_def sprintf_02x_def hex_value_digit d)
qed

lemma hex_loop_eq:
  "pos + 2 * length bs < length arr \<Longrightarrow> bs \<noteq> [] \<Longrightarrow>
    hex_loop bs arr pos = Some (take pos arr @ to_hex bs @ NUL # drop (pos + 2 * length bs + 1) arr)"
proof (induction bs arbitrary: arr pos)
  case (Cons b bs)
  let ?arr = "take pos arr @ sprintf_02x b @ NUL # drop (pos + 3) arr"
  have l: "length (sprintf_02x b) = 2" by (simp add: sprintf_02x_def)
  have s: "sprintf_at arr pos (sprintf_02x b) = Some ?arr" using Cons.prems(1) l by (simp add: sprintf_at_def numeral_3_eq_3)
  show ?case
  proof (cases "bs = []")
    case True
    then show ?thesis using s by (simp add: numeral_3_eq_3)
  next
    case False
    have "pos + 2 + 2 * length bs < length ?arr" using Cons.prems(1) l by simp
    then show ?thesis using Cons.IH [of "pos + 2" ?arr] False s l Cons.prems(1) by (simp add: numeral_3_eq_3 add.commute)
  qed
qed simp

lemma unhex_loop_eq:
  "i + length bs \<le> length buf \<Longrightarrow>
    unhex_loop (length bs) (to_hex bs) current buf i = Some (take i buf @ bs @ drop (i + length bs) buf)"
proof (induction bs arbitrary: buf i current)
  case (Cons b bs)
  have "drop 2 (sprintf_02x b @ to_hex bs) = to_hex bs" by (simp add: sprintf_02x_def)
  moreover have "take (Suc i) (buf[i := b]) = take i buf @ [b]" using Cons.prems by (simp add: take_Suc_conv_app_nth)
  moreover have "ucast (ucast b :: u32) = b" by (rule bit_word_eqI) (simp add: bit_simps)
  ultimately show ?case using Cons.IH [of "i + 1" "buf[i := b]"] Cons.prems
    by (simp add: sscanf_digits arr_write_def)
qed simp

lemma buf_to_hex_str_eq:
  assumes "bs \<noteq> []" "length bs < 2 ^ 30" "2 * length bs < length hex_out" "4 * length bs < length hex_out"
  shows "\<exists>arr. buf_to_hex_str bs (of_nat (length bs)) hex_out (length hex_out) = Some (arr, 2 * length bs)
    \<and> c_string arr = Some (to_hex bs)"
proof -
  let ?n = "length bs" and ?rest = "NUL # drop (2 * length bs + 1) hex_out"
  have u: "unat (of_nat ?n :: u32) = ?n" "unat (of_nat ?n * 2 + 1 :: u32) = 2 * ?n + 1"
    using assms(2) by (simp_all add: unat_of_nat unat_word_ariths)
  have l: "hex_loop bs hex_out 0 = Some (to_hex bs @ ?rest)" using hex_loop_eq [of 0 bs hex_out] assms(1,3) by simp
  let ?k = "2 * ?n"
  have w: "arr_write (to_hex bs @ ?rest) (?k + ?k) NUL = Some (to_hex bs @ ?rest[?k := NUL])"
    using assms(3,4) by (simp add: arr_write_def list_update_append)
  have c: "c_string (to_hex bs @ ?rest[?k := NUL]) = Some (to_hex bs)"
    using NUL_to_hex [of bs] assms(1) by (cases ?k) (auto simp: c_string_def takeWhile_append)
  show ?thesis using l w c u assms(3) by (simp add: buf_to_hex_str_def)
qed

lemma buf_to_hex_str_overflow:
  assumes "bs \<noteq> []" "length bs < 2 ^ 30" "2 * length bs < length hex_out" "length hex_out \<le> 4 * length bs"
  shows "buf_to_hex_str bs (of_nat (length bs)) hex_out (length hex_out) = None"
proof -
  have u: "unat (of_nat (length bs) :: u32) = length bs" "unat (of_nat (length bs) * 2 + 1 :: u32) = 2 * length bs + 1"
    using assms(2) by (simp_all add: unat_of_nat unat_word_ariths)
  show ?thesis using hex_loop_eq [of 0 bs hex_out] assms u by (simp add: buf_to_hex_str_def arr_write_def Let_def)
qed

lemma hex_str_to_buf_eq:
  assumes "bs \<noteq> []" "length bs < 2 ^ 30" "length bs \<le> length buf_out" "length buf_out < 2 ^ 30"
  shows "hex_str_to_buf (to_hex bs) (of_nat (2 * length bs)) buf_out (of_nat (length buf_out)) =
    Some (bs @ drop (length bs) buf_out, of_nat (length bs))"
proof -
  let ?n = "length bs"
  have n: "0 < ?n" using assms(1) by simp
  have w: "(of_nat (2 * ?n) - 1 :: u32) = of_nat (2 * ?n - 1)" using n by (cases ?n) simp_all
  have "unat ((of_nat (2 * ?n) - 1 :: u32) div 2) = ?n - 1" unfolding w using assms(2) n by (simp add: unat_div unat_of_nat)
  moreover have "unat (of_nat (length buf_out) :: u32) = length buf_out" using assms(4) by (simp add: unat_of_nat)
  ultimately have c: "\<not> (of_nat (length buf_out) :: u32) < (of_nat (2 * ?n) - 1) div 2"
    using assms(3) by (simp add: word_less_nat_alt)
  have u: "unat (of_nat (2 * ?n) :: u32) = 2 * ?n" "unat (of_nat ?n :: u32) = ?n"
    using assms(2) by (simp_all only: unat_of_nat) simp_all
  have "unat ((of_nat (2 * ?n) :: u32) div 2) = ?n" unfolding unat_div u(1) by simp
  then have d: "(of_nat (2 * ?n) :: u32) div 2 = of_nat ?n" using u(2) by (metis word_unat_eq_iff)
  note d = d u
  show ?thesis unfolding hex_str_to_buf_def d using c unhex_loop_eq [of 0 bs buf_out None] assms(3) by simp
qed

section \<open>Properties\<close>

text \<open>
  C24: the hexadecimal form of a key. With an array for the text that has room for four times the number of bytes,
  \<open>buf_to_hex_str\<close> writes a string of twice the length, from which \<open>hex_str_to_buf\<close> gets the bytes
  back. With room for the string but not for four times the bytes, the final NUL is written outside the array.
\<close>
theorem hex_roundtrip:
  assumes "bs \<noteq> []" "length bs < 2 ^ 30" "2 * length bs < length hex_out" "length bs \<le> length buf_out" "length buf_out < 2 ^ 30"
  shows "if 4 * length bs < length hex_out
    then \<exists>arr s buf. buf_to_hex_str bs (of_nat (length bs)) hex_out (length hex_out) = Some (arr, 2 * length bs)
      \<and> c_string arr = Some s \<and> length s = 2 * length bs
      \<and> hex_str_to_buf s (of_nat (length s)) buf_out (of_nat (length buf_out)) = Some (buf, of_nat (length bs))
      \<and> take (length bs) buf = bs
    else buf_to_hex_str bs (of_nat (length bs)) hex_out (length hex_out) = None"
  using buf_to_hex_str_eq [OF assms(1-3)] buf_to_hex_str_overflow [OF assms(1-3)] hex_str_to_buf_eq [OF assms(1,2,4,5)]
  by fastforce

theorem hex_roundtrip_witness:
  "(\<exists>arr s buf. buf_to_hex_str [0x2a, 0xff] 2 (replicate 9 CHR ''.'') 9 = Some (arr, 4) \<and> c_string arr = Some s \<and> length s = 4
      \<and> hex_str_to_buf s 4 (replicate 5 0) 5 = Some (buf, 2) \<and> take 2 buf = [0x2a, 0xff])
    \<and> buf_to_hex_str [0x2a, 0xff] 2 (replicate 8 CHR ''.'') 8 = None"
  using hex_roundtrip [of "[0x2a, 0xff]" "replicate 9 CHR ''.''" "replicate 5 0"] hex_roundtrip [of "[0x2a, 0xff]" "replicate 8 CHR ''.''" "replicate 5 0"]
  by (auto simp: numeral_2_eq_2 [symmetric])

end
