(* ===== verification/Psn_Config.thy ===== *)
theory Psn_Config
  imports Psn_Steps Hex
begin

text \<open>
  The configuration file: \<open>psn_serialize_config\<close> and \<open>psn_deserialize_config\<close> of \<open>psn.c\<close>.

  \<^item> jansson is not part of the repository: its functions are the parameter \<open>js\<close>, and what the
    theorems need of it is the predicate \<open>json_contract\<close>. Objects and arrays are values; the code never
    changes one after it was put into another.
  \<^item> The two arrays for keys, \<open>pk_hex_str\<close> of 4097 characters and \<open>pk_key_buf\<close> of 2048 bytes, are
    arguments with whatever they hold at first.
\<close>

section \<open>jansson\<close>

record 'j jansson =
  js_object :: 'j
  js_array :: 'j
  js_string :: "string \<Rightarrow> 'j option"
  js_integer :: "int \<Rightarrow> 'j"
  js_set :: "'j \<Rightarrow> string \<Rightarrow> 'j \<Rightarrow> 'j"
  js_append :: "'j \<Rightarrow> 'j \<Rightarrow> 'j"
  js_dumps :: "'j \<Rightarrow> string option"
  js_loads :: "string \<Rightarrow> 'j option"
  js_get :: "'j \<Rightarrow> string \<Rightarrow> 'j option"
  js_string_value :: "'j \<Rightarrow> string option"
  js_integer_value :: "'j \<Rightarrow> int"
  js_size :: "'j \<Rightarrow> nat"
  js_nth :: "'j \<Rightarrow> nat \<Rightarrow> 'j option"

text \<open>The functions take NULL for a value that is not there.\<close>

definition json_object_set_new :: "'j jansson \<Rightarrow> 'j \<Rightarrow> string \<Rightarrow> 'j option \<Rightarrow> 'j" where
  "json_object_set_new js obj key v = (case v of None \<Rightarrow> obj | Some j \<Rightarrow> js_set js obj key j)"

definition json_object_get :: "'j jansson \<Rightarrow> 'j option \<Rightarrow> string \<Rightarrow> 'j option" where
  "json_object_get js obj key = do { j \<leftarrow> obj; js_get js j key }"

definition json_string_value :: "'j jansson \<Rightarrow> 'j option \<Rightarrow> string option" where
  "json_string_value js v = do { j \<leftarrow> v; js_string_value js j }"

definition json_integer_value :: "'j jansson \<Rightarrow> 'j option \<Rightarrow> int" where
  "json_integer_value js v = (case v of None \<Rightarrow> 0 | Some j \<Rightarrow> js_integer_value js j)"

definition json_array_size :: "'j jansson \<Rightarrow> 'j option \<Rightarrow> nat" where
  "json_array_size js v = (case v of None \<Rightarrow> 0 | Some j \<Rightarrow> js_size js j)"

definition json_array_get :: "'j jansson \<Rightarrow> 'j option \<Rightarrow> nat \<Rightarrow> 'j option" where
  "json_array_get js v i = do { j \<leftarrow> v; js_nth js j i }"

section \<open>Saving\<close>

text \<open>
  One user, with the key as hexadecimal text if there is one. The result says whether there is.
\<close>

definition serialize_user :: "'k tomcrypt \<Rightarrow> 'j jansson \<Rightarrow> 'k user \<Rightarrow> string \<Rightarrow> ('h, 'k) psn_data
    \<Rightarrow> ('j \<times> bool \<times> string \<times> ('h, 'k) psn_data) option" where
  "serialize_user lt js s pk_hex_str d =
     (let new_obj = js_object js;
          new_obj = json_object_set_new js new_obj ''name'' (js_string js (u_name s));
          new_obj = json_object_set_new js new_obj ''shown_name'' (js_string js (u_shown_name s))
      in case (if tc_e_zero lt (u_pub_key s) then None else tc_export lt False (u_pub_key s)) of
           None \<Rightarrow> Some (new_obj, False, pk_hex_str, psn_printf (''* WARNING: could not find key for: '' @ u_name s @ NL) d)
         | Some key \<Rightarrow>
             do {
               (pk_hex_str, hex_str_len) \<leftarrow> buf_to_hex_str key (of_nat (length key)) pk_hex_str 4097;
               hex \<leftarrow> c_string pk_hex_str;
               Some (json_object_set_new js new_obj ''pubkey'' (js_string js hex), True, pk_hex_str, d)
             })"

fun serialize_friends :: "'k tomcrypt \<Rightarrow> 'j jansson \<Rightarrow> 'k user list \<Rightarrow> 'j \<Rightarrow> string \<Rightarrow> ('h, 'k) psn_data
    \<Rightarrow> ('j \<times> string \<times> ('h, 'k) psn_data) option" where
  "serialize_friends lt js [] friend_list pk_hex_str d = Some (friend_list, pk_hex_str, d)"
| "serialize_friends lt js (s # r) friend_list pk_hex_str d =
     do {
       (new_obj, keyed, pk_hex_str, d) \<leftarrow> serialize_user lt js s pk_hex_str d;
       serialize_friends lt js r (js_append js friend_list new_obj) pk_hex_str d
     }"

text \<open>The requests of one direction. Those without a key are appended to the list of friends.\<close>

fun serialize_requests :: "'k tomcrypt \<Rightarrow> 'j jansson \<Rightarrow> 'k user list \<Rightarrow> 'j \<Rightarrow> 'j \<Rightarrow> string \<Rightarrow> ('h, 'k) psn_data
    \<Rightarrow> ('j \<times> 'j \<times> string \<times> ('h, 'k) psn_data) option" where
  "serialize_requests lt js [] friend_list req_list pk_hex_str d = Some (friend_list, req_list, pk_hex_str, d)"
| "serialize_requests lt js (s # r) friend_list req_list pk_hex_str d =
     do {
       (new_obj, keyed, pk_hex_str, d) \<leftarrow> serialize_user lt js s pk_hex_str d;
       if keyed then serialize_requests lt js r friend_list (js_append js req_list new_obj) pk_hex_str d
       else serialize_requests lt js r (js_append js friend_list new_obj) req_list pk_hex_str d
     }"

text \<open>
  The result of exporting the private key is not checked: without it the buffer that is
  converted was never written. The last argument is the size of the array behind \<open>dest_str\<close>.
\<close>

definition psn_serialize_config :: "('h, 'k user) hash_ops \<Rightarrow> 'k tomcrypt \<Rightarrow> 'j jansson \<Rightarrow> string \<Rightarrow> ('h, 'k) psn_t option \<Rightarrow> nat
    \<Rightarrow> (psn_err \<times> ('h, 'k) psn_t option \<times> string option) option" where
  "psn_serialize_config ut lt js pk_hex_str psn n =
     (case psn of
        None \<Rightarrow> Some (PSN_ERR_FAIL, None, None)
      | Some psn \<Rightarrow>
          do {
            let d = ps_data psn;
            let root = js_object js;
            let root = json_object_set_new js root ''username'' (js_string js (p_username d));
            let root = json_object_set_new js root ''hostname'' (js_string js (p_hostname d));
            let root = json_object_set_new js root ''port'' (Some (js_integer js (p_port d)));
            (friend_list, pk_hex_str, d) \<leftarrow> serialize_friends lt js (ho_items ut (p_friends d)) (js_array js) pk_hex_str d;
            (friend_list, friend_req_i_list, pk_hex_str, d) \<leftarrow>
              serialize_requests lt js (ho_items ut (p_friend_requests_incoming d)) friend_list (js_array js) pk_hex_str d;
            (friend_list, friend_req_o_list, pk_hex_str, d) \<leftarrow>
              serialize_requests lt js (ho_items ut (p_friend_requests_outgoing d)) friend_list (js_array js) pk_hex_str d;
            let root = json_object_set_new js root ''friends'' (Some friend_list);
            let root = json_object_set_new js root ''friendrqsinc'' (Some friend_req_i_list);
            let root = json_object_set_new js root ''friendrqsout'' (Some friend_req_o_list);
            key \<leftarrow> tc_export lt True (p_pk_key d);
            (pk_hex_str, hex_str_len) \<leftarrow> buf_to_hex_str key (of_nat (length key)) pk_hex_str 4097;
            hex \<leftarrow> c_string pk_hex_str;
            let root = json_object_set_new js root ''privkey'' (js_string js hex);
            json_result \<leftarrow> js_dumps js root;
            dest_str \<leftarrow> copy_into n json_result;
            Some (PSN_ERR_SUCCESS, Some (psn\<lparr>ps_data := d\<rparr>), Some dest_str)
          })"

section \<open>Loading\<close>

text \<open>A key from its hexadecimal text. The result of \<open>rsa_import\<close> is not looked at: \<open>tc_import\<close> is the key it leaves.\<close>

definition load_key :: "'k tomcrypt \<Rightarrow> string option \<Rightarrow> u8 list \<Rightarrow> ('k \<times> u8 list) option" where
  "load_key lt value pk_key_buf =
     do {
       value \<leftarrow> value;
       pk_hex_str \<leftarrow> copy_into 4097 value;
       (pk_key_buf, key_buf_len) \<leftarrow> hex_str_to_buf pk_hex_str (of_nat (length pk_hex_str)) pk_key_buf 2048;
       if unat key_buf_len \<le> length pk_key_buf
       then Some (tc_import lt (take (unat key_buf_len) pk_key_buf), pk_key_buf)
       else None
     }"

text \<open>
  The loop over one array: \<open>add\<close> puts the user into its table, and \<open>sfx\<close> is how the three
  warnings differ. The key is looked for in the root object instead of the user's.
\<close>

fun load_users :: "'k tomcrypt \<Rightarrow> 'j jansson \<Rightarrow> 'j option \<Rightarrow> 'j option \<Rightarrow> ('k user \<Rightarrow> ('h, 'k) psn_data \<Rightarrow> ('h, 'k) psn_data)
    \<Rightarrow> string \<Rightarrow> nat \<Rightarrow> nat \<Rightarrow> u8 list \<Rightarrow> ('h, 'k) psn_data \<Rightarrow> bool list
    \<Rightarrow> (u8 list \<times> ('h, 'k) psn_data \<times> bool list) option" where
  "load_users lt js root friend_arr add sfx 0 i pk_key_buf d al = Some (pk_key_buf, d, al)"
| "load_users lt js root friend_arr add sfx (Suc k) i pk_key_buf d al =
     (case malloc_ok al of
        (False, _) \<Rightarrow> None
      | (True, al) \<Rightarrow>
          do {
            let new_obj = json_array_get js friend_arr i;
            name \<leftarrow> json_string_value js (json_object_get js new_obj ''name'');
            name \<leftarrow> copy_into 32 name;
            shown_name \<leftarrow> json_string_value js (json_object_get js new_obj ''shown_name'');
            shown_name \<leftarrow> copy_into 32 shown_name;
            (key, pk_key_buf, d) \<leftarrow>
              (if json_object_get js new_obj ''pubkey'' = None
               then Some (tc_zero lt, pk_key_buf, psn_printf (''* WARNING: '' @ name @ '' has no public key stored'' @ sfx @ NL) d)
               else do {
                 (key, pk_key_buf) \<leftarrow> load_key lt (json_string_value js (json_object_get js root ''pubkey'')) pk_key_buf;
                 Some (key, pk_key_buf, d)
               });
            let new = \<lparr>u_addr = p_next d, u_name = name, u_shown_name = shown_name, u_pub_key = key\<rparr>;
            load_users lt js root friend_arr add sfx k (i + 1) pk_key_buf (add new (d\<lparr>p_next := p_next d + 1\<rparr>)) al
          })"

definition add_to_friends :: "('h, 'k user) hash_ops \<Rightarrow> 'k user \<Rightarrow> ('h, 'k) psn_data \<Rightarrow> ('h, 'k) psn_data" where
  "add_to_friends ut u d = d\<lparr>p_friends := ho_add ut (p_friends d) u\<rparr>"

definition add_to_incoming :: "('h, 'k user) hash_ops \<Rightarrow> 'k user \<Rightarrow> ('h, 'k) psn_data \<Rightarrow> ('h, 'k) psn_data" where
  "add_to_incoming ut u d = d\<lparr>p_friend_requests_incoming := ho_add ut (p_friend_requests_incoming d) u\<rparr>"

definition add_to_outgoing :: "('h, 'k user) hash_ops \<Rightarrow> 'k user \<Rightarrow> ('h, 'k) psn_data \<Rightarrow> ('h, 'k) psn_data" where
  "add_to_outgoing ut u d = d\<lparr>p_friend_requests_outgoing := ho_add ut (p_friend_requests_outgoing d) u\<rparr>"

definition psn_deserialize_config :: "('h, 'k user) hash_ops \<Rightarrow> 'k tomcrypt \<Rightarrow> 'j jansson \<Rightarrow> u8 list \<Rightarrow> ('h, 'k) psn_t option \<Rightarrow> string
    \<Rightarrow> ('h, 'k) psn_res" where
  "psn_deserialize_config ut lt js pk_key_buf psn src_str =
     (case psn of
        None \<Rightarrow> Some (PSN_ERR_FAIL, None)
      | Some psn \<Rightarrow>
          do {
            let d = ps_data psn;
            let root = js_loads js src_str;
            username \<leftarrow> json_string_value js (json_object_get js root ''username'');
            username \<leftarrow> copy_into 32 username;
            hostname \<leftarrow> json_string_value js (json_object_get js root ''hostname'');
            hostname \<leftarrow> copy_into 256 hostname;
            let port = sint (of_int (json_integer_value js (json_object_get js root ''port'')) :: u32);
            let d = d\<lparr>p_username := username, p_shown_name := username, p_hostname := hostname, p_port := port\<rparr>;
            let friend_arr = json_object_get js root ''friends'';
            (pk_key_buf, d, al) \<leftarrow> load_users lt js root friend_arr (add_to_friends ut) '''' (json_array_size js friend_arr) 0
              pk_key_buf d (psn_allocs psn);
            let friend_arr = json_object_get js root ''friendrqsinc'';
            (pk_key_buf, d, al) \<leftarrow> load_users lt js root friend_arr (add_to_incoming ut) ''2'' (json_array_size js friend_arr) 0
              pk_key_buf d al;
            let friend_arr = json_object_get js root ''friendrqsout'';
            (pk_key_buf, d, al) \<leftarrow> load_users lt js root friend_arr (add_to_outgoing ut) ''3'' (json_array_size js friend_arr) 0
              pk_key_buf d al;
            (key, pk_key_buf) \<leftarrow> load_key lt (json_string_value js (json_object_get js root ''privkey'')) pk_key_buf;
            Some (PSN_ERR_SUCCESS, Some ((psn_set_allocs al psn)\<lparr>ps_data := d\<lparr>p_pk_key := key\<rparr>\<rparr>))
          })"

section \<open>What is assumed of jansson\<close>

definition ascii :: "string \<Rightarrow> bool" where
  "ascii s \<longleftrightarrow> (\<forall>c \<in> set s. 0 < (of_char c :: nat) \<and> (of_char c :: nat) < 128)"

text \<open>
  \<open>is_obj\<close> and \<open>is_arr\<close> tell objects and arrays. ASCII text is accepted as a string, a value comes back
  from where it was put, and reading what was written gives an equal value.
\<close>

definition json_contract :: "'j jansson \<Rightarrow> ('j \<Rightarrow> bool) \<Rightarrow> ('j \<Rightarrow> bool) \<Rightarrow> bool" where
  "json_contract js is_obj is_arr \<longleftrightarrow>
     is_obj (js_object js) \<and> (\<forall>j k v. is_obj j \<longrightarrow> is_obj (js_set js j k v)) \<and>
     is_arr (js_array js) \<and> (\<forall>j v. is_arr j \<longrightarrow> is_arr (js_append js j v)) \<and>
     (\<forall>k. js_get js (js_object js) k = None) \<and>
     (\<forall>j k v k'. is_obj j \<longrightarrow> js_get js (js_set js j k v) k' = (if k' = k then Some v else js_get js j k')) \<and>
     js_size js (js_array js) = 0 \<and>
     (\<forall>j v. is_arr j \<longrightarrow> js_size js (js_append js j v) = js_size js j + 1) \<and>
     (\<forall>j v i. is_arr j \<longrightarrow> i \<le> js_size js j \<longrightarrow>
        js_nth js (js_append js j v) i = (if i = js_size js j then Some v else js_nth js j i)) \<and>
     (\<forall>s. ascii s \<longrightarrow> (\<exists>j. js_string js s = Some j)) \<and>
     (\<forall>s j. js_string js s = Some j \<longrightarrow> js_string_value js j = Some s) \<and>
     (\<forall>i. js_integer_value js (js_integer js i) = i) \<and>
     (\<forall>j t. is_obj j \<longrightarrow> js_dumps js j = Some t \<longrightarrow> js_loads js t = Some j)"

lemma json_contractD:
  assumes "json_contract js is_obj is_arr"
  shows "is_obj (js_object js)" "is_obj j \<Longrightarrow> is_obj (js_set js j k v)" "is_arr (js_array js)" "is_arr j \<Longrightarrow> is_arr (js_append js j v)"
    "js_get js (js_object js) k = None" "is_obj j \<Longrightarrow> js_get js (js_set js j k v) k' = (if k' = k then Some v else js_get js j k')"
    "js_size js (js_array js) = 0" "is_arr j \<Longrightarrow> js_size js (js_append js j v) = js_size js j + 1"
    "is_arr j \<Longrightarrow> i \<le> js_size js j \<Longrightarrow> js_nth js (js_append js j v) i = (if i = js_size js j then Some v else js_nth js j i)"
    "ascii s \<Longrightarrow> \<exists>j. js_string js s = Some j" "js_string js s = Some j \<Longrightarrow> js_string_value js j = Some s"
    "js_integer_value js (js_integer js n) = n" "is_obj j \<Longrightarrow> js_dumps js j = Some t \<Longrightarrow> js_loads js t = Some j"
  using assms by (simp_all add: json_contract_def)

text \<open>The object of a user without a key, and the array of a list of such users.\<close>

definition user_json :: "'j jansson \<Rightarrow> 'k user \<Rightarrow> 'j \<Rightarrow> bool" where
  "user_json js u j \<longleftrightarrow> json_string_value js (js_get js j ''name'') = Some (u_name u)
     \<and> json_string_value js (js_get js j ''shown_name'') = Some (u_shown_name u) \<and> js_get js j ''pubkey'' = None"

definition users_json :: "'j jansson \<Rightarrow> ('j \<Rightarrow> bool) \<Rightarrow> 'k user list \<Rightarrow> 'j \<Rightarrow> bool" where
  "users_json js is_arr us j \<longleftrightarrow> is_arr j \<and> js_size js j = length us
     \<and> (\<forall>i < length us. \<exists>obj. js_nth js j i = Some obj \<and> user_json js (us ! i) obj)"

text \<open>A user as the messenger makes them: no key, and names that are text.\<close>

definition plain_user :: "'k tomcrypt \<Rightarrow> 'k user \<Rightarrow> bool" where
  "plain_user lt u \<longleftrightarrow> tc_e_zero lt (u_pub_key u) \<and> ascii (u_name u) \<and> ascii (u_shown_name u)
     \<and> length (u_name u) < 32 \<and> length (u_shown_name u) < 32"

text \<open>What printing changes is of no interest here.\<close>

definition quiet_eq :: "('h, 'k) psn_data \<Rightarrow> ('h, 'k) psn_data \<Rightarrow> bool" where
  "quiet_eq d d' \<longleftrightarrow> d\<lparr>p_stdout := []\<rparr> = d'\<lparr>p_stdout := []\<rparr>"

lemma quiet_eq_simps [simp]: "quiet_eq d d" "quiet_eq (psn_printf s d) d' = quiet_eq d d'" "quiet_eq d (psn_printf s d') = quiet_eq d d'"
  by (simp_all add: quiet_eq_def psn_printf_def)

lemma quiet_eqD:
  assumes "quiet_eq d d'"
  shows "p_friends d = p_friends d'" "p_friend_requests_incoming d = p_friend_requests_incoming d'"
    "p_friend_requests_outgoing d = p_friend_requests_outgoing d'" "p_pk_key d = p_pk_key d'" "p_next d = p_next d'"
    "p_username d = p_username d'" "p_hostname d = p_hostname d'" "p_port d = p_port d'"
  using assms unfolding quiet_eq_def by (cases d; cases d'; simp)+

lemma quiet_eq_trans: "quiet_eq d d' \<Longrightarrow> quiet_eq d' d'' \<Longrightarrow> quiet_eq d d''"
  by (simp add: quiet_eq_def)

lemma serialize_user_plain:
  assumes "json_contract js is_obj is_arr" "plain_user lt u"
  shows "\<exists>j d'. serialize_user lt js u hex d = Some (j, False, hex, d') \<and> user_json js u j \<and> quiet_eq d' d"
proof -
  note c = json_contractD [OF assms(1)]
  obtain jn js' where s: "js_string js (u_name u) = Some jn" "js_string js (u_shown_name u) = Some js'"
    using c(10) [of "u_name u"] c(10) [of "u_shown_name u"] assms(2) by (auto simp: plain_user_def)
  show ?thesis using assms(2) s c(11) [OF s(1)] c(11) [OF s(2)]
    by (simp add: serialize_user_def plain_user_def json_object_set_new_def user_json_def json_string_value_def
        c(1,2,5,6) Let_def)
qed

lemma users_json_append:
  assumes "json_contract js is_obj is_arr" "users_json js is_arr us j" "user_json js u obj"
  shows "users_json js is_arr (us @ [u]) (js_append js j obj)"
  using assms(2,3) json_contractD(4,8,9) [OF assms(1)]
  by (auto simp: users_json_def nth_append less_Suc_eq)

lemma users_json_Nil: "json_contract js is_obj is_arr \<Longrightarrow> users_json js is_arr [] (js_array js)"
  by (simp add: users_json_def json_contractD)

lemma serialize_friends_plain:
  assumes "json_contract js is_obj is_arr" "\<forall>u \<in> set us. plain_user lt u" "users_json js is_arr vs fl"
  shows "\<exists>fl' d'. serialize_friends lt js us fl hex d = Some (fl', hex, d') \<and> users_json js is_arr (vs @ us) fl' \<and> quiet_eq d' d"
  using assms(2,3)
proof (induction us arbitrary: vs fl d)
  case (Cons u us)
  obtain j d1 where u: "serialize_user lt js u hex d = Some (j, False, hex, d1)" "user_json js u j" "quiet_eq d1 d"
    using serialize_user_plain [OF assms(1), of lt u hex d] Cons.prems(1) by auto
  then show ?case using Cons.IH [OF _ users_json_append [OF assms(1) Cons.prems(2) u(2)], of d1] Cons.prems(1)
    by (auto intro: quiet_eq_trans)
qed simp

lemma serialize_requests_plain:
  assumes "json_contract js is_obj is_arr" "\<forall>u \<in> set us. plain_user lt u" "users_json js is_arr vs fl"
  shows "\<exists>fl' d'. serialize_requests lt js us fl rl hex d = Some (fl', rl, hex, d') \<and> users_json js is_arr (vs @ us) fl' \<and> quiet_eq d' d"
  using assms(2,3)
proof (induction us arbitrary: vs fl d)
  case (Cons u us)
  obtain j d1 where u: "serialize_user lt js u hex d = Some (j, False, hex, d1)" "user_json js u j" "quiet_eq d1 d"
    using serialize_user_plain [OF assms(1), of lt u hex d] Cons.prems(1) by auto
  then show ?case using Cons.IH [OF _ users_json_append [OF assms(1) Cons.prems(2) u(2)], of d1] Cons.prems(1)
    by (auto intro: quiet_eq_trans)
qed simp

lemma set_new_get:
  assumes "json_contract js is_obj is_arr" "is_obj j"
  shows "is_obj (json_object_set_new js j k v)"
    "js_get js (json_object_set_new js j k v) k' = (if k' = k \<and> v \<noteq> None then v else js_get js j k')"
  using json_contractD(2,6) [OF assms(1)] assms(2) by (auto simp: json_object_set_new_def split: option.splits)

lemma ascii_to_hex: "ascii (to_hex bs)"
proof (induction bs)
  case (Cons b bs)
  have "unat b div 16 < 16" "unat b mod 16 < 16" using unsigned_less [of b, where 'a = nat] by simp_all
  then show ?case using Cons by (auto simp: ascii_def sprintf_02x_def hex_digit_code)
qed (simp add: ascii_def)

text \<open>The object that is written for users without keys.\<close>

definition config_json :: "'j jansson \<Rightarrow> ('j \<Rightarrow> bool) \<Rightarrow> ('h, 'k user) hash_ops \<Rightarrow> ('h, 'k) psn_data \<Rightarrow> u8 list \<Rightarrow> 'j \<Rightarrow> bool" where
  "config_json js is_arr ut d key root \<longleftrightarrow> json_string_value js (js_get js root ''username'') = Some (p_username d)
    \<and> json_string_value js (js_get js root ''hostname'') = Some (p_hostname d)
    \<and> json_integer_value js (js_get js root ''port'') = p_port d
    \<and> (\<exists>fl. js_get js root ''friends'' = Some fl \<and> users_json js is_arr (ho_items ut (p_friends d)
        @ ho_items ut (p_friend_requests_incoming d) @ ho_items ut (p_friend_requests_outgoing d)) fl)
    \<and> js_get js root ''friendrqsinc'' = Some (js_array js) \<and> js_get js root ''friendrqsout'' = Some (js_array js)
    \<and> json_string_value js (js_get js root ''privkey'') = Some (to_hex key)"

lemma serialize_lists:
  assumes "json_contract js is_obj is_arr" "\<forall>u \<in> all_users ut d. plain_user lt u"
  shows "\<exists>f1 d1 f2 d2 f3 d3. serialize_friends lt js (ho_items ut (p_friends d)) (js_array js) hex d = Some (f1, hex, d1)
    \<and> serialize_requests lt js (ho_items ut (p_friend_requests_incoming d1)) f1 (js_array js) hex d1 = Some (f2, js_array js, hex, d2)
    \<and> serialize_requests lt js (ho_items ut (p_friend_requests_outgoing d2)) f2 (js_array js) hex d2 = Some (f3, js_array js, hex, d3)
    \<and> users_json js is_arr (ho_items ut (p_friends d) @ ho_items ut (p_friend_requests_incoming d)
        @ ho_items ut (p_friend_requests_outgoing d)) f3 \<and> quiet_eq d3 d"
proof -
  let ?F = "ho_items ut (p_friends d)" and ?I = "ho_items ut (p_friend_requests_incoming d)"
    and ?O = "ho_items ut (p_friend_requests_outgoing d)"
  obtain f1 d1 where f1: "serialize_friends lt js ?F (js_array js) hex d = Some (f1, hex, d1)" "users_json js is_arr ?F f1" "quiet_eq d1 d"
    using serialize_friends_plain [OF assms(1) _ users_json_Nil [OF assms(1)], of ?F lt hex d] assms(2) by (auto simp: all_users_def)
  obtain f2 d2 where f2: "serialize_requests lt js ?I f1 (js_array js) hex d1 = Some (f2, js_array js, hex, d2)"
      "users_json js is_arr (?F @ ?I) f2" "quiet_eq d2 d1"
    using serialize_requests_plain [OF assms(1) _ f1(2), of ?I lt] assms(2) by (force simp: all_users_def)
  obtain f3 d3 where f3: "serialize_requests lt js ?O f2 (js_array js) hex d2 = Some (f3, js_array js, hex, d3)"
      "users_json js is_arr (?F @ ?I @ ?O) f3" "quiet_eq d3 d2"
    using serialize_requests_plain [OF assms(1) _ f2(2), of ?O lt] assms(2) by (force simp: all_users_def)
  have q: "p_friend_requests_incoming d1 = p_friend_requests_incoming d" "p_friend_requests_outgoing d2 = p_friend_requests_outgoing d"
    using quiet_eqD [OF f1(3)] quiet_eqD [OF f2(3)] by simp_all
  have "quiet_eq d3 d" using f1(3) f2(3) f3(3) by (blast intro: quiet_eq_trans)
  then show ?thesis using f1(1) f2(1) f3(1,2) q by metis
qed

lemma serialize_eq:
  assumes "json_contract js is_obj is_arr" "\<forall>u \<in> all_users ut (ps_data psn). plain_user lt u"
    and "ascii (p_username (ps_data psn))" "ascii (p_hostname (ps_data psn))"
    and "tc_export lt True (p_pk_key (ps_data psn)) = Some key" "key \<noteq> []" "length key \<le> 2048" "length hex = 4097"
  shows "\<exists>root d'. is_obj root \<and> config_json js is_arr ut (ps_data psn) key root \<and>
    (\<forall>n. psn_serialize_config ut lt js hex (Some psn) n =
      (if 4 * length key < 4097
       then do { json_result \<leftarrow> js_dumps js root; dest_str \<leftarrow> copy_into n json_result;
              Some (PSN_ERR_SUCCESS, Some (psn\<lparr>ps_data := d'\<rparr>), Some dest_str) }
       else None))"
proof -
  let ?d = "ps_data psn"
  note c = json_contractD [OF assms(1)] and g = set_new_get [OF assms(1)]
  obtain f1 d1 f2 d2 f3 d3 where f: "serialize_friends lt js (ho_items ut (p_friends ?d)) (js_array js) hex ?d = Some (f1, hex, d1)"
      "serialize_requests lt js (ho_items ut (p_friend_requests_incoming d1)) f1 (js_array js) hex d1 = Some (f2, js_array js, hex, d2)"
      "serialize_requests lt js (ho_items ut (p_friend_requests_outgoing d2)) f2 (js_array js) hex d2 = Some (f3, js_array js, hex, d3)"
      "users_json js is_arr (ho_items ut (p_friends ?d) @ ho_items ut (p_friend_requests_incoming ?d)
        @ ho_items ut (p_friend_requests_outgoing ?d)) f3" "quiet_eq d3 ?d"
    using serialize_lists [OF assms(1,2), of hex] by blast
  have k: "tc_export lt True (p_pk_key d3) = Some key" using quiet_eqD(4) [OF f(5)] assms(5) by simp
  have h: "4 * length key < 4097 \<Longrightarrow> \<exists>arr. buf_to_hex_str key (of_nat (length key)) hex 4097 = Some (arr, 2 * length key)
        \<and> c_string arr = Some (to_hex key)"
      "\<not> 4 * length key < 4097 \<Longrightarrow> buf_to_hex_str key (of_nat (length key)) hex 4097 = None"
    using buf_to_hex_str_eq [OF assms(6), of hex] buf_to_hex_str_overflow [OF assms(6), of hex] assms(7,8) by auto
  obtain ju jh jk where st: "js_string js (p_username ?d) = Some ju" "js_string js (p_hostname ?d) = Some jh" "js_string js (to_hex key) = Some jk"
    using c(10) assms(3,4) ascii_to_hex by metis
  define r1 where "r1 = json_object_set_new js (json_object_set_new js (json_object_set_new js (js_object js) ''username'' (Some ju))
    ''hostname'' (Some jh)) ''port'' (Some (js_integer js (p_port ?d)))"
  define r2 where "r2 = json_object_set_new js (json_object_set_new js (json_object_set_new js (json_object_set_new js r1 ''friends'' (Some f3))
    ''friendrqsinc'' (Some (js_array js))) ''friendrqsout'' (Some (js_array js))) ''privkey'' (Some jk)"
  have "config_json js is_arr ut ?d key r2" "is_obj r2"
    by (simp_all add: config_json_def r1_def r2_def g c(1) f(4) json_string_value_def json_integer_value_def
        c(11) [OF st(1)] c(11) [OF st(2)] c(11) [OF st(3)] c(12))
  moreover have "psn_serialize_config ut lt js hex (Some psn) n =
      (if 4 * length key < 4097
       then do { json_result \<leftarrow> js_dumps js r2; dest_str \<leftarrow> copy_into n json_result;
              Some (PSN_ERR_SUCCESS, Some (psn\<lparr>ps_data := d3\<rparr>), Some dest_str) }
       else None)" for n
    using f(1-3) k st h by (auto simp: psn_serialize_config_def Let_def r1_def r2_def)
  ultimately show ?thesis by blast
qed

context psn_tables
begin

lemma load_friends:
  assumes "users_json js is_arr us fl" "\<forall>u \<in> set us. plain_user lt u"
  shows "\<lbrakk>k + i = length us; ok (p_friends d); \<forall>u \<in> set (ho_items ut (p_friends d)). u_addr u < p_next d\<rbrakk> \<Longrightarrow>
    \<exists>d'. load_users lt js root (Some fl) (add_to_friends ut) sfx k i buf d [] = Some (buf, d', [])
      \<and> map u_name (ho_items ut (p_friends d')) = map u_name (ho_items ut (p_friends d)) @ map u_name (drop i us)
      \<and> quiet_eq (d'\<lparr>p_friends := p_friends d, p_next := p_next d\<rparr>) d"
proof (induction k arbitrary: i d)
  case (Suc k)
  have i: "i < length us" using Suc.prems(1) by simp
  then obtain obj where j: "js_nth js fl i = Some obj" "user_json js (us ! i) obj" using assms(1) by (auto simp: users_json_def)
  have l: "length (u_name (us ! i)) < 32" "length (u_shown_name (us ! i)) < 32" using i assms(2) by (auto simp: plain_user_def)
  define w where "w = psn_printf (''* WARNING: '' @ u_name (us ! i) @ '' has no public key stored'' @ sfx @ NL) d"
  let ?u = "\<lparr>u_addr = p_next d, u_name = u_name (us ! i), u_shown_name = u_shown_name (us ! i), u_pub_key = tc_zero lt\<rparr>"
  define d1 where "d1 = add_to_friends ut ?u (w\<lparr>p_next := p_next d + 1\<rparr>)"
  have step: "load_users lt js root (Some fl) (add_to_friends ut) sfx (Suc k) i buf d [] =
      load_users lt js root (Some fl) (add_to_friends ut) sfx k (i + 1) buf d1 []"
    using j l by (simp add: json_array_get_def json_object_get_def user_json_def copy_into_def d1_def w_def)
  have u: "?u \<notin> set (ho_items ut (p_friends d))" using Suc.prems(3) by auto
  have f: "p_friends d1 = ho_add ut (p_friends d) ?u" "p_next d1 = p_next d + 1" by (simp_all add: add_to_friends_def d1_def w_def)
  have it: "ho_items ut (p_friends d1) = ho_items ut (p_friends d) @ [?u]" "ok (p_friends d1)"
    unfolding f(1) using items_add [OF Suc.prems(2) u] ok_add [OF Suc.prems(2) u] by simp_all
  have q: "quiet_eq (d'\<lparr>p_friends := p_friends d, p_next := p_next d\<rparr>) d"
    if "quiet_eq (d'\<lparr>p_friends := p_friends d1, p_next := p_next d1\<rparr>) d1" for d'
    using that by (cases d; cases d') (simp add: quiet_eq_def add_to_friends_def psn_printf_def d1_def w_def)
  have "\<forall>u \<in> set (ho_items ut (p_friends d1)). u_addr u < p_next d1" unfolding it(1) f(2) using Suc.prems(3) by auto
  then obtain d' where "load_users lt js root (Some fl) (add_to_friends ut) sfx k (i + 1) buf d1 [] = Some (buf, d', [])"
      "map u_name (ho_items ut (p_friends d')) = map u_name (ho_items ut (p_friends d1)) @ map u_name (drop (i + 1) us)"
      "quiet_eq (d'\<lparr>p_friends := p_friends d1, p_next := p_next d1\<rparr>) d1"
    using Suc.IH [of "i + 1" d1] Suc.prems(1) it(2) by auto
  then show ?case using step q it(1) drop_Suc_nth [OF i] by auto
qed simp

end

lemma load_key_hex:
  assumes "key \<noteq> []" "length key \<le> 2048" "length buf = 2048"
  shows "\<exists>buf'. load_key lt (Some (to_hex key)) buf = Some (tc_import lt key, buf')"
proof -
  have "hex_str_to_buf (to_hex key) (of_nat (2 * length key)) buf 2048 = Some (key @ drop (length key) buf, of_nat (length key))"
    using hex_str_to_buf_eq [OF assms(1), of buf] assms(2,3) by simp
  moreover have "unat (of_nat (length key) :: u32) = length key" using assms(2) by (simp add: unat_of_nat)
  ultimately show ?thesis using assms(2,3) by (simp add: load_key_def copy_into_def)
qed

section \<open>Properties\<close>

text \<open>
  C13: saving the configuration and loading it into a new instance restores the name, the server and
  the private key, and makes a friend of everybody: after the friends, the new list has all incoming and
  outgoing requests, whose own lists are empty. This holds when no user has a stored key,
  which the messenger never stores.
\<close>
theorem save_load_promotes:
  assumes "json_contract js is_obj is_arr" "psn_tables ut ok" "\<forall>u \<in> all_users ut (ps_data psn). plain_user lt u"
    and "ascii (p_username (ps_data psn))" "length (p_username (ps_data psn)) < 32"
    and "ascii (p_hostname (ps_data psn))" "length (p_hostname (ps_data psn)) < 256"
    and "- (2 ^ 31) \<le> p_port (ps_data psn)" "p_port (ps_data psn) < 2 ^ 31"
    and "tc_export lt True (p_pk_key (ps_data psn)) = Some key" "key \<noteq> []" "length key \<le> 2048"
    and "length hex = 4097" "length buf = 2048"
    and "psn_serialize_config ut lt js hex (Some psn) n = Some (err, res, Some text)"
    and "psn_init ut 0 0 psn0 = (PSN_ERR_SUCCESS, psn1)" "psn_allocs psn1 = []"
  shows "\<exists>psn2. psn_deserialize_config ut lt js buf (Some psn1) text = Some (PSN_ERR_SUCCESS, Some psn2)
    \<and> p_username (ps_data psn2) = p_username (ps_data psn) \<and> p_hostname (ps_data psn2) = p_hostname (ps_data psn)
    \<and> p_port (ps_data psn2) = p_port (ps_data psn) \<and> p_pk_key (ps_data psn2) = tc_import lt key
    \<and> map u_name (ho_items ut (p_friends (ps_data psn2))) =
        map u_name (ho_items ut (p_friends (ps_data psn)) @ ho_items ut (p_friend_requests_incoming (ps_data psn))
          @ ho_items ut (p_friend_requests_outgoing (ps_data psn)))
    \<and> ho_items ut (p_friend_requests_incoming (ps_data psn2)) = [] \<and> ho_items ut (p_friend_requests_outgoing (ps_data psn2)) = []"
proof -
  let ?d = "ps_data psn"
  let ?us = "ho_items ut (p_friends ?d) @ ho_items ut (p_friend_requests_incoming ?d) @ ho_items ut (p_friend_requests_outgoing ?d)"
  obtain root d' where w: "is_obj root" "config_json js is_arr ut ?d key root"
      "\<forall>n. psn_serialize_config ut lt js hex (Some psn) n =
        (if 4 * length key < 4097
         then do { json_result \<leftarrow> js_dumps js root; dest_str \<leftarrow> copy_into n json_result;
                Some (PSN_ERR_SUCCESS, Some (psn\<lparr>ps_data := d'\<rparr>), Some dest_str) }
         else None)"
    using serialize_eq [OF assms(1,3,4,6,10-13)] by blast
  then have "js_dumps js root = Some text" using assms(15) by (auto simp: copy_into_def split: if_splits bind_splits)
  then have l: "js_loads js text = Some root" using json_contractD(13) [OF assms(1) w(1)] by blast
  obtain fl where r: "json_string_value js (js_get js root ''username'') = Some (p_username ?d)"
      "json_string_value js (js_get js root ''hostname'') = Some (p_hostname ?d)" "json_integer_value js (js_get js root ''port'') = p_port ?d"
      "js_get js root ''friends'' = Some fl" "users_json js is_arr ?us fl" "js_get js root ''friendrqsinc'' = Some (js_array js)"
      "js_get js root ''friendrqsout'' = Some (js_array js)" "json_string_value js (js_get js root ''privkey'') = Some (to_hex key)"
    using w(2) by (auto simp: config_json_def)
  have i: "p_friends (ps_data psn1) = ho_null ut" "p_friend_requests_incoming (ps_data psn1) = ho_null ut"
      "p_friend_requests_outgoing (ps_data psn1) = ho_null ut"
    using assms(16) by (auto simp: psn_init_def split: prod.splits if_splits)
  note null = hash_table.ok_null hash_table.items_null
  have ht: "hash_table ut u_name ok" using assms(2) by (simp add: psn_tables_def)
  let ?d1 = "(ps_data psn1)\<lparr>p_username := p_username ?d, p_shown_name := p_username ?d, p_hostname := p_hostname ?d, p_port := p_port ?d\<rparr>"
  have pl: "\<forall>u \<in> set ?us. plain_user lt u" using assms(3) by (auto simp: all_users_def)
  obtain d2 where d2: "load_users lt js (Some root) (Some fl) (add_to_friends ut) '''' (length ?us) 0 buf ?d1 [] = Some (buf, d2, [])"
      "map u_name (ho_items ut (p_friends d2)) = map u_name ?us" "quiet_eq (d2\<lparr>p_friends := p_friends ?d1, p_next := p_next ?d1\<rparr>) ?d1"
    using psn_tables.load_friends [OF assms(2) r(5) pl, of "length ?us" 0 ?d1 "Some root" "''''" buf] i null [OF ht] by auto
  have q: "p_friend_requests_incoming d2 = ho_null ut" "p_friend_requests_outgoing d2 = ho_null ut" "p_username d2 = p_username ?d"
      "p_hostname d2 = p_hostname ?d" "p_port d2 = p_port ?d"
    using quiet_eqD [OF d2(3)] i by simp_all
  have p: "sint (of_int (p_port ?d) :: u32) = p_port ?d" using assms(8,9) by (simp add: signed_of_int signed_take_bit_int_eq_self)
  have sz: "js_size js fl = length ?us" "js_size js (js_array js) = 0"
    using r(5) json_contractD(7) [OF assms(1)] by (simp_all add: users_json_def)
  obtain buf' where k: "load_key lt (Some (to_hex key)) buf = Some (tc_import lt key, buf')"
    using load_key_hex [OF assms(11,12,14)] by blast
  have "psn_deserialize_config ut lt js buf (Some psn1) text =
      Some (PSN_ERR_SUCCESS, Some ((psn_set_allocs [] psn1)\<lparr>ps_data := d2\<lparr>p_pk_key := tc_import lt key\<rparr>\<rparr>))"
    using l r d2(1) sz k p assms(5,7,17)
    by (simp add: psn_deserialize_config_def json_object_get_def copy_into_def json_array_size_def Let_def)
  then show ?thesis using q d2(2) null [OF ht] by simp
qed

section \<open>A library with the contract\<close>

text \<open>
  The contract can be met: a small library whose text is a program for a stack machine, which builds
  the value again. The instructions push an empty value (\<open>o\<close>, \<open>a\<close>, \<open>e\<close>, \<open>z\<close>), append the next character
  to a string (\<open>c\<close>), count (\<open>+\<close>, \<open>-\<close>), and put the top into the array (\<open>p\<close>) or, with the key
  between them, the object (\<open>s\<close>) below.
\<close>

datatype json = JObj "(string \<times> json) list" | JArr "json list" | JStr string | JInt int

definition json_char :: "char \<Rightarrow> json list \<Rightarrow> json list option" where
  "json_char c st = (case st of JStr s # st' \<Rightarrow> Some (JStr (s @ [c]) # st') | _ \<Rightarrow> None)"

definition json_add :: "int \<Rightarrow> json list \<Rightarrow> json list option" where
  "json_add i st = (case st of JInt n # st' \<Rightarrow> Some (JInt (n + i) # st') | _ \<Rightarrow> None)"

definition json_push :: "json list \<Rightarrow> json list option" where
  "json_push st = (case st of v # JArr vs # st' \<Rightarrow> Some (JArr (vs @ [v]) # st') | _ \<Rightarrow> None)"

definition json_put :: "json list \<Rightarrow> json list option" where
  "json_put st = (case st of v # JStr k # JObj kvs # st' \<Rightarrow> Some (JObj (kvs @ [(k, v)]) # st') | _ \<Rightarrow> None)"

definition json_op :: "char \<Rightarrow> json list \<Rightarrow> json list option" where
  "json_op c st =
     (if c = CHR ''o'' then Some (JObj [] # st)
      else if c = CHR ''a'' then Some (JArr [] # st)
      else if c = CHR ''e'' then Some (JStr [] # st)
      else if c = CHR ''z'' then Some (JInt 0 # st)
      else if c = CHR ''+'' then json_add 1 st
      else if c = CHR ''-'' then json_add (-1) st
      else if c = CHR ''p'' then json_push st
      else if c = CHR ''s'' then json_put st
      else None)"

text \<open>The flag says that the next character belongs to a string.\<close>

fun json_run :: "bool \<Rightarrow> string \<Rightarrow> json list \<Rightarrow> json list option" where
  "json_run q [] st = Some st"
| "json_run q (c # r) st =
     (if q then do { st \<leftarrow> json_char c st; json_run False r st }
      else if c = CHR ''c'' then json_run True r st
      else do { st \<leftarrow> json_op c st; json_run False r st })"

primrec json_text :: "json \<Rightarrow> string"
  and json_members :: "(string \<times> json) list \<Rightarrow> string"
  and json_member :: "string \<times> json \<Rightarrow> string"
  and json_elements :: "json list \<Rightarrow> string" where
  "json_text (JObj kvs) = ''o'' @ json_members kvs"
| "json_text (JArr vs) = ''a'' @ json_elements vs"
| "json_text (JStr s) = ''e'' @ concat (map (\<lambda>c. [CHR ''c'', c]) s)"
| "json_text (JInt n) = ''z'' @ replicate (nat n) CHR ''+'' @ replicate (nat (- n)) CHR ''-''"
| "json_members [] = []"
| "json_members (kv # r) = json_member kv @ json_members r"
| "json_member (k, v) = ''e'' @ concat (map (\<lambda>c. [CHR ''c'', c]) k) @ json_text v @ ''s''"
| "json_elements [] = []"
| "json_elements (v # r) = json_text v @ ''p'' @ json_elements r"

lemma json_run_chars: "json_run False (concat (map (\<lambda>c. [CHR ''c'', c]) s) @ r) (JStr p # st) = json_run False r (JStr (p @ s) # st)"
  by (induction s arbitrary: p) (simp_all add: json_char_def)

lemma json_run_adds:
  "json_run False (replicate k CHR ''+'' @ r) (JInt n # st) = json_run False r (JInt (n + int k) # st)"
  "json_run False (replicate k CHR ''-'' @ r) (JInt n # st) = json_run False r (JInt (n - int k) # st)"
  by (induction k arbitrary: n) (simp_all add: json_op_def json_add_def algebra_simps)

lemma json_run_members:
  assumes "\<And>k v r st. (k, v) \<in> set kvs \<Longrightarrow> json_run False (json_text v @ r) st = json_run False r (v # st)"
  shows "json_run False (json_members kvs @ r) (JObj acc # st) = json_run False r (JObj (acc @ kvs) # st)"
  using assms
proof (induction kvs arbitrary: acc)
  case (Cons kv kvs)
  obtain k v where kv: "kv = (k, v)" by fastforce
  have v: "json_run False (json_text v @ r) st = json_run False r (v # st)" for r st using Cons.prems [of k v] kv by simp
  have "json_run False (json_members kvs @ r) (JObj (acc @ [kv]) # st) = json_run False r (JObj ((acc @ [kv]) @ kvs) # st)"
    by (rule Cons.IH) (use Cons.prems in auto)
  then show ?case
    by (simp add: kv json_op_def json_run_chars [where p = "[]", simplified] v json_put_def)
qed simp

lemma json_run_elements:
  assumes "\<And>v r st. v \<in> set vs \<Longrightarrow> json_run False (json_text v @ r) st = json_run False r (v # st)"
  shows "json_run False (json_elements vs @ r) (JArr acc # st) = json_run False r (JArr (acc @ vs) # st)"
  using assms by (induction vs arbitrary: acc) (simp_all add: json_op_def json_push_def)

lemma json_run_text: "json_run False (json_text j @ r) st = json_run False r (j # st)"
proof (induction j arbitrary: r st)
  case (JObj kvs)
  have "json_run False (json_members kvs @ r) (JObj [] # st) = json_run False r (JObj ([] @ kvs) # st)"
    by (rule json_run_members) (use JObj in fastforce)
  then show ?case by (simp add: json_op_def)
next
  case (JArr vs)
  have "json_run False (json_elements vs @ r) (JArr [] # st) = json_run False r (JArr ([] @ vs) # st)"
    by (rule json_run_elements) (use JArr in blast)
  then show ?case by (simp add: json_op_def)
next
  case (JStr s)
  show ?case using json_run_chars [of s r "[]" st] by (simp add: json_op_def)
next
  case (JInt n)
  show ?case by (simp add: json_op_def json_run_adds)
qed

definition demo_json :: "json jansson" where
  "demo_json = \<lparr>js_object = JObj [], js_array = JArr [], js_string = (\<lambda>s. Some (JStr s)), js_integer = JInt,
     js_set = (\<lambda>j k v. case j of JObj kvs \<Rightarrow> JObj (kvs @ [(k, v)]) | _ \<Rightarrow> j),
     js_append = (\<lambda>j v. case j of JArr vs \<Rightarrow> JArr (vs @ [v]) | _ \<Rightarrow> j),
     js_dumps = (\<lambda>j. Some (json_text j)),
     js_loads = (\<lambda>s. case json_run False s [] of Some [j] \<Rightarrow> Some j | _ \<Rightarrow> None),
     js_get = (\<lambda>j k. case j of JObj kvs \<Rightarrow> map_of (rev kvs) k | _ \<Rightarrow> None),
     js_string_value = (\<lambda>j. case j of JStr s \<Rightarrow> Some s | _ \<Rightarrow> None),
     js_integer_value = (\<lambda>j. case j of JInt n \<Rightarrow> n | _ \<Rightarrow> 0),
     js_size = (\<lambda>j. case j of JArr vs \<Rightarrow> length vs | _ \<Rightarrow> 0),
     js_nth = (\<lambda>j i. case j of JArr vs \<Rightarrow> if i < length vs then Some (vs ! i) else None | _ \<Rightarrow> None)\<rparr>"

definition json_is_obj :: "json \<Rightarrow> bool" where
  "json_is_obj j = (case j of JObj _ \<Rightarrow> True | _ \<Rightarrow> False)"

definition json_is_arr :: "json \<Rightarrow> bool" where
  "json_is_arr j = (case j of JArr _ \<Rightarrow> True | _ \<Rightarrow> False)"

lemma demo_json_contract: "json_contract demo_json json_is_obj json_is_arr"
proof -
  have "json_run False (json_text j) [] = Some [j]" for j using json_run_text [of j "[]" "[]"] by simp
  then show ?thesis
    by (auto simp: json_contract_def demo_json_def json_is_obj_def json_is_arr_def nth_append split: json.splits)
qed

text \<open>A user who has got a request and has not answered it.\<close>

definition demo_asked :: "(nat user ut_table option, nat) psn_t" where
  "demo_asked = (let psn = demo_psn Mosq_garbage ''alice'' in psn\<lparr>ps_data := (ps_data psn)\<lparr>p_friend_requests_incoming :=
     HASH_ADD u_name None \<lparr>u_addr = 0, u_name = ''eve'', u_shown_name = ''eve'', u_pub_key = 0\<rparr>, p_next := 1\<rparr>\<rparr>)"

lemma demo_asked_lists:
  "ho_items (uthash u_name) (p_friends (ps_data demo_asked)) = []"
  "ho_items (uthash u_name) (p_friend_requests_outgoing (ps_data demo_asked)) = []"
  "ho_items (uthash u_name) (p_friend_requests_incoming (ps_data demo_asked)) =
     [\<lparr>u_addr = 0, u_name = ''eve'', u_shown_name = ''eve'', u_pub_key = 0\<rparr>]"
proof -
  let ?u = "\<lparr>u_addr = 0, u_name = ''eve'', u_shown_name = ''eve'', u_pub_key = 0\<rparr> :: nat user"
  show "ho_items (uthash u_name) (p_friend_requests_incoming (ps_data demo_asked)) = [?u]"
    using ut.items_add [of u_name None ?u] by (simp add: demo_asked_def Let_def)
qed (simp_all add: demo_asked_def demo_psn_def Let_def)

lemma demo_asked_data:
  "p_username (ps_data demo_asked) = ''alice''" "p_hostname (ps_data demo_asked) = ''localhost''" "p_port (ps_data demo_asked) = 1883"
  "p_pk_key (ps_data demo_asked) = 0"
  by (simp_all add: demo_asked_def demo_psn_def Let_def)

lemma demo_asked_plain: "\<forall>u \<in> all_users (uthash u_name) (ps_data demo_asked). plain_user demo_crypt u"
  using demo_asked_lists by (simp add: all_users_def plain_user_def demo_crypt_def ascii_def)

theorem save_load_promotes_witness:
  "\<exists>n res text psn2. psn_serialize_config (uthash u_name) demo_crypt demo_json (replicate 4097 NUL) (Some demo_asked) n =
      Some (PSN_ERR_SUCCESS, res, Some text)
    \<and> psn_deserialize_config (uthash u_name) demo_crypt demo_json (replicate 2048 0) (Some (demo_psn Mosq_garbage ''x'')) text =
      Some (PSN_ERR_SUCCESS, Some psn2)
    \<and> map u_name (ho_items (uthash u_name) (p_friends (ps_data psn2))) = [''eve'']"
proof -
  let ?hex = "replicate 4097 NUL" and ?buf = "replicate 2048 (0 :: u8)"
  have a: "ascii (p_username (ps_data demo_asked))" "ascii (p_hostname (ps_data demo_asked))"
      "tc_export demo_crypt True (p_pk_key (ps_data demo_asked)) = Some [0]"
    by (simp_all add: demo_asked_data demo_crypt_def ascii_def)
  obtain root d' where w: "psn_serialize_config (uthash u_name) demo_crypt demo_json ?hex (Some demo_asked) n =
        do { json_result \<leftarrow> js_dumps demo_json root; dest_str \<leftarrow> copy_into n json_result;
             Some (PSN_ERR_SUCCESS, Some (demo_asked\<lparr>ps_data := d'\<rparr>), Some dest_str) }" for n
    using serialize_eq [OF demo_json_contract demo_asked_plain a, of ?hex] by auto
  let ?n = "length (json_text root) + 1"
  have s: "psn_serialize_config (uthash u_name) demo_crypt demo_json ?hex (Some demo_asked) ?n =
      Some (PSN_ERR_SUCCESS, Some (demo_asked\<lparr>ps_data := d'\<rparr>), Some (json_text root))"
    unfolding w by (simp add: demo_json_def copy_into_def)
  have al: "psn_allocs (demo_psn Mosq_garbage ''x'') = []" by (simp add: psn_allocs_def demo_psn_def)
  obtain psn2 where "psn_deserialize_config (uthash u_name) demo_crypt demo_json ?buf (Some (demo_psn Mosq_garbage ''x'')) (json_text root) =
      Some (PSN_ERR_SUCCESS, Some psn2)"
      "map u_name (ho_items (uthash u_name) (p_friends (ps_data psn2))) = [''eve'']"
    using save_load_promotes [OF demo_json_contract psn_tables_uthash demo_asked_plain a(1) _ a(2) _ _ _ a(3) _ _ _ _ s demo_psn_init al, of ?buf]
      demo_asked_lists
    by (auto simp: demo_asked_data)
  with s show ?thesis by (intro exI conjI)
qed

end
