(* ===== verification/Psn_Cli.thy ===== *)
theory Psn_Cli
  imports Psn_Config Psn_Talk
begin

text \<open>
  The terminal client, \<open>psn_cli.c\<close>: one line of input is one step. Output goes to the same place as
  that of the messenger. The file system is a map from names to contents. A line
  that does not fit its array is undefined, since it is read with \<open>gets\<close>; what happens at the end of
  the input, where \<open>gets\<close> returns NULL and the loop goes on with the old line, is not modelled.
\<close>

section \<open>The C library\<close>

text \<open>\<open>strtok\<close>: the token, and what is left for the next call.\<close>

definition strtok :: "char list \<Rightarrow> string \<Rightarrow> string option \<times> string" where
  "strtok delims s =
     (let s = dropWhile (\<lambda>c. c \<in> set delims) s in
      if s = [] then (None, [])
      else (Some (takeWhile (\<lambda>c. c \<notin> set delims) s), drop 1 (dropWhile (\<lambda>c. c \<notin> set delims) s)))"

definition isdigit :: "char \<Rightarrow> bool" where
  "isdigit c = (let n = of_char c :: nat in 48 \<le> n \<and> n \<le> 57)"

definition digits_value :: "string \<Rightarrow> int" where
  "digits_value s = foldl (\<lambda>v c. 10 * v + (of_char c - 48)) 0 s"

text \<open>\<open>atoi\<close> is undefined when the number is no \<open>int\<close>.\<close>

definition atoi :: "string \<Rightarrow> int option" where
  "atoi s =
     (let s = dropWhile isspace s;
          neg = (s \<noteq> [] \<and> hd s = CHR ''-'');
          s = (if s \<noteq> [] \<and> (hd s = CHR ''-'' \<or> hd s = CHR ''+'') then tl s else s);
          v = digits_value (takeWhile isdigit s);
          v = (if neg then - v else v)
      in if - (2 ^ 31) \<le> v \<and> v < 2 ^ 31 then Some v else None)"

fun string_of_nat :: "nat \<Rightarrow> string" where
  "string_of_nat n = (if n < 10 then [char_of (n + 48)] else string_of_nat (n div 10) @ [char_of (n mod 10 + 48)])"

declare string_of_nat.simps [simp del]

definition string_of_int :: "int \<Rightarrow> string" where
  "string_of_int i = (if i < 0 then CHR ''-'' # string_of_nat (nat (- i)) else string_of_nat (nat i))"

section \<open>State\<close>

text \<open>What is around the program: the libraries, memory and files that can be written.\<close>

record ('h, 'k, 'j) cli_env =
  ce_ut :: "('h, 'k user) hash_ops"
  ce_lt :: "'k tomcrypt"
  ce_js :: "'j jansson"
  ce_rand :: "nat \<Rightarrow> nat"
  ce_mem :: "('h, 'k) psn_data mosq"
  ce_hex :: string
  ce_buf :: "u8 list"
  ce_writable :: "string \<Rightarrow> bool"

record ('h, 'k) cli =
  cl_psn :: "('h, 'k) psn_t"
  cl_files :: "string \<Rightarrow> string option"
  cl_end :: bool

definition cli_printf :: "string \<Rightarrow> ('h, 'k) cli \<Rightarrow> ('h, 'k) cli" where
  "cli_printf s c = c\<lparr>cl_psn := (cl_psn c)\<lparr>ps_data := psn_printf s (ps_data (cl_psn c))\<rparr>\<rparr>"

text \<open>A call whose result is not looked at.\<close>

definition cli_call :: "('h, 'k) psn_res \<Rightarrow> ('h, 'k) cli \<Rightarrow> ('h, 'k) cli option" where
  "cli_call r c = do { (err, psn) \<leftarrow> r; psn \<leftarrow> psn; Some (c\<lparr>cl_psn := psn\<rparr>) }"

definition cli_connect :: "('h, 'k, 'j) cli_env \<Rightarrow> ('h, 'k) cli \<Rightarrow> ('h, 'k) cli option" where
  "cli_connect e c =
     do { (err, psn) \<leftarrow> psn_connect (ce_ut e) (ce_lt e) (ce_rand e) (ce_mem e) (cl_psn c); Some (c\<lparr>cl_psn := psn\<rparr>) }"

section \<open>Helpers of the main function\<close>

text \<open>
  With 2048 bytes or more in the file the NUL is written behind the array. The result of reading
  the configuration is not looked at.
\<close>

definition psn_cli_load_file :: "('h, 'k, 'j) cli_env \<Rightarrow> ('h, 'k) cli \<Rightarrow> string \<Rightarrow> (int \<times> ('h, 'k) cli) option" where
  "psn_cli_load_file e c filename =
     (case cl_files c filename of
        None \<Rightarrow> Some (-1, c)
      | Some config_string \<Rightarrow>
          if length config_string \<ge> 2048 then None
          else
            do {
              c \<leftarrow> cli_call (psn_deserialize_config (ce_ut e) (ce_lt e) (ce_js e) (ce_buf e) (Some (cl_psn c))
                     (takeWhile (\<lambda>c. c \<noteq> NUL) config_string)) c;
              Some (0, c)
            })"

definition psn_cli_save_file :: "('h, 'k, 'j) cli_env \<Rightarrow> ('h, 'k) cli \<Rightarrow> string \<Rightarrow> (int \<times> ('h, 'k) cli) option" where
  "psn_cli_save_file e c filename =
     do {
       (err, psn, config_string) \<leftarrow> psn_serialize_config (ce_ut e) (ce_lt e) (ce_js e) (ce_hex e) (Some (cl_psn c)) 2048;
       psn \<leftarrow> psn;
       config_string \<leftarrow> config_string;
       if ce_writable e filename
       then Some (0, c\<lparr>cl_psn := psn, cl_files := (cl_files c)(filename \<mapsto> config_string)\<rparr>)
       else None
     }"

definition psn_cli_print_friend_list :: "('h, 'k, 'j) cli_env \<Rightarrow> ('h, 'k) cli \<Rightarrow> ('h, 'k) cli option" where
  "psn_cli_print_friend_list e c =
     do {
       (len, friends, al) \<leftarrow> psn_get_friend_list (ce_ut e) (cl_psn c) (psn_allocs (cl_psn c));
       let c = fold (\<lambda>s. cli_printf (''* '' @ s @ NL)) friends c;
       Some (c\<lparr>cl_psn := psn_set_allocs al (cl_psn c)\<rparr>)
     }"

definition psn_cli_print_help :: "('h, 'k) cli \<Rightarrow> ('h, 'k) cli" where
  "psn_cli_print_help c = cli_printf (
     ''* Commands:'' @ NL @
     ''* set [ name | shown | server ] <str>'' @ NL @
     ''* show [ friends | user | network ]'' @ NL @
     ''* add <username> <message>'' @ NL @
     ''* delete <username>'' @ NL @
     ''* accept <username>'' @ NL @
     ''* refuse <username>'' @ NL @
     ''* msg <username> <message>'' @ NL @
     ''* connect'' @ NL @
     ''* disconnect'' @ NL @
     ''* save_file <filename>'' @ NL @
     ''* load_file <filename>'' @ NL) c"

section \<open>The main loop\<close>

abbreviation delims :: string where "delims \<equiv> CHR '' '' # NL"

definition cli_missing :: "('h, 'k) cli \<Rightarrow> ('h, 'k) cli option" where
  "cli_missing c = Some (cli_printf (''* ERROR: missing argument'' @ NL) c)"

definition cli_set :: "('h, 'k, 'j) cli_env \<Rightarrow> string \<Rightarrow> ('h, 'k) cli \<Rightarrow> ('h, 'k) cli option" where
  "cli_set e rest c =
     (case strtok delims rest of
        (None, _) \<Rightarrow> Some (cli_printf (''*ERROR: missing argument'' @ NL) c)
      | (Some token, rest) \<Rightarrow>
          if token = ''name'' then
            (let (username, rest) = strtok delims rest; (password, rest) = strtok delims rest in
             case (username, password) of
               (Some username, Some password) \<Rightarrow> cli_call (psn_set_username (Some (cl_psn c)) (Some username) password) c
             | _ \<Rightarrow> cli_missing c)
          else if token = ''shown'' then
            (case strtok delims rest of
               (None, _) \<Rightarrow> cli_missing c
             | (Some shown_name, _) \<Rightarrow> cli_call (psn_set_shown_name (Some (cl_psn c)) shown_name) c)
          else if token = ''server'' then
            (let (hostname, rest) = strtok delims rest; (port_str, rest) = strtok delims rest in
             case (hostname, port_str) of
               (Some hostname, Some port_str) \<Rightarrow>
                 do { port \<leftarrow> atoi port_str; cli_call (psn_set_server (Some (cl_psn c)) hostname port) c }
             | _ \<Rightarrow> cli_missing c)
          else if token = ''user'' then Some c
          else Some (cli_printf (''* ERROR: wrong argument'' @ NL) c))"

definition cli_show :: "('h, 'k, 'j) cli_env \<Rightarrow> string \<Rightarrow> ('h, 'k) cli \<Rightarrow> ('h, 'k) cli option" where
  "cli_show e rest c =
     (let d = ps_data (cl_psn c) in
      case strtok delims rest of
        (None, _) \<Rightarrow> cli_missing c
      | (Some token, rest) \<Rightarrow>
          if token = ''friends'' then psn_cli_print_friend_list e c
          else if token = ''network'' then
            Some (cli_printf (''hostname: '' @ p_hostname d @ NL @ ''port: '' @ string_of_int (p_port d) @ NL) c)
          else if token = ''user'' then
            Some (cli_printf (''username: '' @ p_username d @ NL @ ''shown name: '' @ p_shown_name d @ NL) c)
          else Some (cli_printf (''* ERROR: wrong argument'' @ NL) c))"

text \<open>The commands with one argument, and those with a user and the rest of the line.\<close>

definition cli_arg :: "string \<Rightarrow> (string \<Rightarrow> ('h, 'k) cli \<Rightarrow> ('h, 'k) cli option) \<Rightarrow> ('h, 'k) cli \<Rightarrow> ('h, 'k) cli option" where
  "cli_arg rest f c = (case strtok delims rest of (None, _) \<Rightarrow> cli_missing c | (Some target, _) \<Rightarrow> f target c)"

definition cli_message :: "string \<Rightarrow> (string \<Rightarrow> string \<Rightarrow> ('h, 'k) cli \<Rightarrow> ('h, 'k) cli option) \<Rightarrow> ('h, 'k) cli \<Rightarrow> ('h, 'k) cli option" where
  "cli_message rest f c =
     (let (target_user, rest) = strtok delims rest; (message, rest) = strtok [] rest in
      case (target_user, message) of
        (Some target_user, Some message) \<Rightarrow> f target_user message c
      | _ \<Rightarrow> cli_missing c)"

definition cli_command :: "('h, 'k, 'j) cli_env \<Rightarrow> string \<Rightarrow> string \<Rightarrow> ('h, 'k) cli \<Rightarrow> ('h, 'k) cli option" where
  "cli_command e token rest c =
     (let ut = ce_ut e; lt = ce_lt e; psn = Some (cl_psn c) in
      if token = ''exit'' then Some ((cli_printf (''Exiting ...'' @ NL) c)\<lparr>cl_end := True\<rparr>)
      else if token = ''set'' then cli_set e rest c
      else if token = ''show'' then cli_show e rest c
      else if token = ''add'' then
        (let (target, rest) = strtok delims rest; (message, rest) = strtok delims rest in
         case target of
           None \<Rightarrow> cli_missing c
         | Some target \<Rightarrow>
             cli_call (psn_make_friend_req ut lt psn target (case message of Some m \<Rightarrow> m | None \<Rightarrow> '''')) c)
      else if token = ''accept'' then cli_arg rest (\<lambda>target. cli_call (psn_accept_friend_req ut lt psn target)) c
      else if token = ''refuse'' then cli_arg rest (\<lambda>target. cli_call (psn_refuse_friend_req ut psn target)) c
      else if token = ''delete'' then cli_arg rest (\<lambda>target. cli_call (psn_delete_friend ut psn target)) c
      else if token = ''msg'' then
        cli_message rest (\<lambda>target_user message. cli_call (psn_send_message ut lt psn target_user message)) c
      else if token = ''enc'' then
        cli_message rest (\<lambda>target_user message c.
          do { (err, psn) \<leftarrow> psn_send_encrypted_message ut lt (cl_psn c) target_user message; Some (c\<lparr>cl_psn := psn\<rparr>) }) c
      else if token = ''genkey'' then Some (c\<lparr>cl_psn := snd (psn_generate_new_key lt (cl_psn c))\<rparr>)
      else if token = ''connect'' then cli_connect e c
      else if token = ''disconnect'' then cli_call (psn_disconnect ut lt psn) c
      else if token = ''load_file'' then
        cli_arg rest (\<lambda>filename c. do { (rc, c) \<leftarrow> psn_cli_load_file e c filename; Some c }) c
      else if token = ''save_file'' then
        cli_arg rest (\<lambda>filename c. do { (rc, c) \<leftarrow> psn_cli_save_file e c filename; Some c }) c
      else if token = ''me'' then Some (cli_printf (p_username (ps_data (cl_psn c)) @ NL) c)
      else if token = ''testenv'' then
        do {
          c \<leftarrow> cli_call (psn_set_username psn (fst (strtok delims rest)) '''') c;
          c \<leftarrow> cli_call (psn_set_server (Some (cl_psn c)) ''localhost'' 1335) c;
          cli_connect e c
        }
      else if token = ''usage'' \<or> token = ''help'' then Some (psn_cli_print_help c)
      else Some (cli_printf (token @ '': command not found type '' @ [CHR 0x27] @ ''usage'' @ [CHR 0x27] @ '' for help'' @ NL) c))"

text \<open>\<open>gets\<close> stores the line with a NUL behind it; for \<open>strtok\<close> the line ends at the first NUL.\<close>

definition cli_line :: "('h, 'k, 'j) cli_env \<Rightarrow> string \<Rightarrow> ('h, 'k) cli \<Rightarrow> ('h, 'k) cli option" where
  "cli_line e line c =
     (let c = cli_printf ''> '' c in
      if length line \<ge> 2048 then None
      else
        (case strtok delims (takeWhile (\<lambda>c. c \<noteq> NUL) line) of
           (None, _) \<Rightarrow> Some c
         | (Some token, rest) \<Rightarrow> cli_command e token rest c))"

fun cli_loop :: "('h, 'k, 'j) cli_env \<Rightarrow> string list \<Rightarrow> ('h, 'k) cli \<Rightarrow> ('h, 'k) cli option" where
  "cli_loop e [] c = Some c"
| "cli_loop e (line # r) c = (if cl_end c then Some c else do { c \<leftarrow> cli_line e line c; cli_loop e r c })"

text \<open>The arguments are those after the name of the program. The results of \<open>register_prng\<close> and \<open>register_hash\<close> are given.\<close>

definition cli_main :: "('h, 'k, 'j) cli_env \<Rightarrow> int \<Rightarrow> int \<Rightarrow> string list \<Rightarrow> string list \<Rightarrow> ('h, 'k) cli \<Rightarrow> ('h, 'k) cli option" where
  "cli_main e register_prng register_hash args lines c =
     do {
       let c = c\<lparr>cl_psn := snd (psn_init (ce_ut e) register_prng register_hash (cl_psn c)), cl_end := False\<rparr>;
       c \<leftarrow> (if length args \<ge> 2 \<and> args ! 0 = ''-c'' then
               do {
                 (rc, c) \<leftarrow> psn_cli_load_file e c (args ! 1);
                 if rc = 0 then cli_connect e c else Some (cli_printf (''* ERROR: File not found'' @ NL) c)
               }
             else Some c);
       cli_loop e lines c
     }"

section \<open>Lines of words\<close>

lemma strtok_word:
  assumes "w \<noteq> []" "set w \<inter> set ds = {}" "d \<in> set ds"
  shows "strtok ds (w @ d # r) = (Some w, r)"
proof -
  have "dropWhile (\<lambda>c. c \<in> set ds) (w @ d # r) = w @ d # r" using assms by (cases w) auto
  moreover have "takeWhile (\<lambda>c. c \<notin> set ds) (w @ d # r) = w" "dropWhile (\<lambda>c. c \<notin> set ds) (w @ d # r) = d # r"
    using assms(2,3) by (subst takeWhile_append2 dropWhile_append2; auto)+
  ultimately show ?thesis by (simp add: strtok_def Let_def)
qed

lemma strtok_rest: "s \<noteq> [] \<Longrightarrow> strtok [] s = (Some s, [])"
proof -
  have "dropWhile (\<lambda>c. True) s = []" by (induction s) simp_all
  moreover assume "s \<noteq> []"
  ultimately show ?thesis by (simp add: strtok_def Let_def del: dropWhile_eq_Nil_conv)
qed

text \<open>Words: nothing in them ends a token or the line.\<close>

definition word :: "string \<Rightarrow> bool" where
  "word w \<longleftrightarrow> w \<noteq> [] \<and> set w \<inter> set delims = {} \<and> NUL \<notin> set w"

lemma strtok_last:
  assumes "w \<noteq> []" "set w \<inter> set ds = {}"
  shows "strtok ds w = (Some w, [])"
proof -
  have d: "dropWhile (\<lambda>c. c \<in> set ds) w = w" using assms by (cases w) auto
  have t: "takeWhile (\<lambda>c. c \<notin> set ds) w = w" "dropWhile (\<lambda>c. c \<notin> set ds) w = []"
    using assms(2) by (auto simp: takeWhile_eq_all_conv)
  show ?thesis unfolding strtok_def d Let_def t using assms(1) by simp
qed

lemma strtok_Nil [simp]: "strtok ds [] = (None, [])"
  by (simp add: strtok_def)

lemma strtok_words:
  "word w \<Longrightarrow> strtok delims w = (Some w, [])"
  "word w \<Longrightarrow> strtok delims (w @ CHR '' '' # r) = (Some w, r)"
  using strtok_last [of w delims] strtok_word [of w delims "CHR '' ''" r] by (auto simp: word_def)

lemma no_nul: "NUL \<notin> set s \<Longrightarrow> takeWhile (\<lambda>c. c \<noteq> NUL) s = s"
  by (induction s) auto

lemma cli_line_words:
  "\<lbrakk>word w; length w < 2048\<rbrakk> \<Longrightarrow> cli_line e w c = cli_command e w [] (cli_printf ''> '' c)"
  "\<lbrakk>word w; NUL \<notin> set r; length w + length r < 2047\<rbrakk> \<Longrightarrow>
     cli_line e (w @ CHR '' '' # r) c = cli_command e w r (cli_printf ''> '' c)"
  using strtok_words [of w] by (simp_all add: cli_line_def no_nul word_def Let_def)

text \<open>The words of the commands.\<close>

lemma command_words:
  "word ''set''" "word ''add''" "word ''accept''" "word ''refuse''" "word ''delete''" "word ''name''" "word ''shown''" "word ''server''" "word ''msg''"
  by (simp_all add: word_def NL_def)

section \<open>Numbers\<close>

lemma digit_char:
  assumes "n < 10"
  shows "isdigit (char_of (n + 48 :: nat))" "(of_char (char_of (n + 48 :: nat)) :: int) = int n + 48"
proof -
  have c: "(of_char (char_of (n + 48) :: char) :: nat) = n + 48" using assms by simp
  then show "isdigit (char_of (n + 48 :: nat))" using assms by (simp only: isdigit_def Let_def) simp
  have "(of_char (char_of (n + 48) :: char) :: int) = int (of_char (char_of (n + 48) :: char))"
    by (rule of_nat_of_char [symmetric])
  then show "(of_char (char_of (n + 48 :: nat)) :: int) = int n + 48" unfolding c by simp
qed

lemma string_of_nat_digits: "string_of_nat n \<noteq> [] \<and> list_all isdigit (string_of_nat n)"
  by (induction n rule: string_of_nat.induct) (subst string_of_nat.simps, auto simp: digit_char)+

lemma digits_value_snoc: "digits_value (s @ [c]) = 10 * digits_value s + (of_char c - 48)"
  by (simp add: digits_value_def)

lemma string_of_nat_value: "digits_value (string_of_nat n) = int n"
proof (induction n rule: string_of_nat.induct)
  case (1 n)
  show ?case
  proof (cases "n < 10")
    case True
    then show ?thesis using digit_char [of n] by (subst string_of_nat.simps) (simp add: digits_value_def)
  next
    case False
    then have "digits_value (string_of_nat n) = 10 * int (n div 10) + int (n mod 10)"
      using 1 digit_char [of "n mod 10"] by (subst string_of_nat.simps) (simp add: digits_value_snoc)
    then show ?thesis by (metis mult_div_mod_eq of_nat_add of_nat_mult of_nat_numeral)
  qed
qed

lemma isdigit_chars: "isdigit c \<Longrightarrow> \<not> isspace c \<and> c \<noteq> CHR ''-'' \<and> c \<noteq> CHR ''+'' \<and> c \<noteq> CHR '' '' \<and> c \<noteq> CHR 0x0A \<and> c \<noteq> NUL"
  by (auto simp: isdigit_def isspace_def Let_def)

lemma atoi_string_of_int:
  assumes "0 \<le> i" "i < 2 ^ 31"
  shows "atoi (string_of_int i) = Some i"
proof -
  let ?s = "string_of_nat (nat i)"
  obtain d r where s: "?s = d # r" "list_all isdigit ?s" using string_of_nat_digits [of "nat i"] by (cases ?s) auto
  have t: "takeWhile isdigit ?s = ?s" using s(2) by (simp add: list_all_iff)
  have c: "\<not> isspace d" "d \<noteq> CHR ''-''" "d \<noteq> CHR ''+''" using s isdigit_chars [of d] by auto
  have "dropWhile isspace ?s = ?s" using s(1) c(1) by simp
  then show ?thesis using c s(1) t string_of_nat_value [of "nat i"] assms by (simp add: atoi_def string_of_int_def Let_def)
qed

lemma word_number: "0 \<le> i \<Longrightarrow> word (string_of_int i)"
  using string_of_nat_digits [of "nat i"] isdigit_chars by (fastforce simp: word_def string_of_int_def list_all_iff NL_def)

lemma string_of_nat_length: "n < 10 ^ Suc k \<Longrightarrow> length (string_of_nat n) \<le> Suc k"
proof (induction k arbitrary: n)
  case (Suc k)
  then show ?case by (subst string_of_nat.simps) (auto simp: less_mult_imp_div_less)
qed (subst string_of_nat.simps, simp)

section \<open>What the commands do\<close>

text \<open>The prompt is the only thing that a line adds before its command runs.\<close>

lemma prompt_ready:
  "psn_ready ok ut (cl_psn (cli_printf s c)) = psn_ready ok ut (cl_psn c)"
  "psn_window (cl_psn (cli_printf s c)) = psn_window (cl_psn c)"
  "psn_queue (cl_psn (cli_printf s c)) = psn_queue (cl_psn c)"
  "ps_data (cl_psn (cli_printf s c)) = psn_printf s (ps_data (cl_psn c))"
  by (simp_all add: cli_printf_def psn_ready_def psn_window_def psn_queue_def)

text \<open>The lists of friends and of incoming and outgoing requests, and the packets that wait to be sent.\<close>

definition cli_view :: "('h, 'k, 'j) cli_env \<Rightarrow> ('h, 'k) cli \<Rightarrow> string set \<times> string set \<times> string set \<times> packet list" where
  "cli_view e c =
     (friends_of (ce_ut e) (ps_data (cl_psn c)), incoming_of (ce_ut e) (ps_data (cl_psn c)),
      outgoing_of (ce_ut e) (ps_data (cl_psn c)), psn_queue (cl_psn c))"

lemma cli_call_Some: "r = Some (err, Some psn) \<Longrightarrow> cli_call r c = Some (c\<lparr>cl_psn := psn\<rparr>)"
  by (simp add: cli_call_def)

context psn_tables
begin

lemma refused:
  assumes "psn_data_ok ok ut (ps_data psn)"
  shows "\<exists>err psn'. psn_refuse_friend_req ut (Some psn) u = Some (err, Some psn')
    \<and> friends_of ut (ps_data psn') = friends_of ut (ps_data psn) \<and> incoming_of ut (ps_data psn') = incoming_of ut (ps_data psn) - {u}
    \<and> outgoing_of ut (ps_data psn') = outgoing_of ut (ps_data psn) \<and> ps_mosq psn' = ps_mosq psn"
proof (cases "ho_find ut (p_friend_requests_incoming (ps_data psn)) u")
  case None
  then show ?thesis using find_lists(2) [OF assms, of u] by (auto simp: psn_refuse_friend_req_def)
next
  case (Some v)
  note o = ok_lists [OF assms]
  have v: "v \<in> set (ho_items ut (p_friend_requests_incoming (ps_data psn)))" "u_name v = u"
    using find_SomeD [OF _ Some] o by auto
  have "inj_on u_name (set (ho_items ut (p_friend_requests_incoming (ps_data psn))))"
    using assms by (auto simp: psn_data_ok_def intro: inj_on_subset)
  then have "incoming_of ut ((ps_data psn)\<lparr>p_friend_requests_incoming := ho_del ut (p_friend_requests_incoming (ps_data psn)) v\<rparr>)
      = incoming_of ut (ps_data psn) - {u}"
    using set_items_del [OF _ v(1)] o v by (auto simp: incoming_of_def dest: inj_onD)
  then show ?thesis using Some by (auto simp: psn_refuse_friend_req_def friends_of_def outgoing_of_def)
qed

lemma deleted:
  assumes "psn_data_ok ok ut (ps_data psn)"
  shows "\<exists>err psn'. psn_delete_friend ut (Some psn) u = Some (err, Some psn')
    \<and> friends_of ut (ps_data psn') = friends_of ut (ps_data psn) - {u} \<and> incoming_of ut (ps_data psn') = incoming_of ut (ps_data psn)
    \<and> outgoing_of ut (ps_data psn') = outgoing_of ut (ps_data psn) \<and> ps_mosq psn' = ps_mosq psn"
proof (cases "ho_find ut (p_friends (ps_data psn)) u")
  case None
  then show ?thesis using find_lists(1) [OF assms, of u] by (auto simp: psn_delete_friend_def)
next
  case (Some v)
  note o = ok_lists [OF assms]
  have v: "v \<in> set (ho_items ut (p_friends (ps_data psn)))" "u_name v = u" using find_SomeD [OF _ Some] o by auto
  have "inj_on u_name (set (ho_items ut (p_friends (ps_data psn))))"
    using assms by (auto simp: psn_data_ok_def intro: inj_on_subset)
  then have "friends_of ut ((ps_data psn)\<lparr>p_friends := ho_del ut (p_friends (ps_data psn)) v\<rparr>) = friends_of ut (ps_data psn) - {u}"
    using set_items_del [OF _ v(1)] o v by (auto simp: friends_of_def dest: inj_onD)
  then show ?thesis using Some by (auto simp: psn_delete_friend_def incoming_of_def outgoing_of_def)
qed

lemma accept_unknown:
  assumes "psn_ready ok ut psn" "u \<notin> incoming_of ut (ps_data psn)"
  shows "psn_accept_friend_req ut lt (Some psn) u = Some (PSN_ERR_USER_NOT_IN_INCOMING_FRIEND_LIST, Some psn)"
  using assms find_lists(2) [of "ps_data psn" u]
  by (auto simp: psn_accept_friend_req_def psn_ready_def split: mosq_ptr.splits)

end

lemma line_refuse:
  assumes "psn_tables (ce_ut e) ok" "psn_data_ok ok (ce_ut e) (ps_data (cl_psn c))" "word u" "length u < 2000"
  shows "\<exists>c'. cli_line e (''refuse '' @ u) c = Some c'
    \<and> cli_view e c' = (case cli_view e c of (f, i, out, q) \<Rightarrow> (f, i - {u}, out, q))"
proof -
  have l: "cli_line e (''refuse '' @ u) c =
      cli_call (psn_refuse_friend_req (ce_ut e) (Some (cl_psn (cli_printf ''> '' c))) u) (cli_printf ''> '' c)"
    using cli_line_words(2) [OF command_words(4), of u e c] assms(3,4) strtok_words(1) [OF assms(3)]
    by (simp add: cli_command_def cli_arg_def word_def)
  have "psn_data_ok ok (ce_ut e) (ps_data (cl_psn (cli_printf ''> '' c)))" using assms(2) by (simp add: prompt_ready)
  from psn_tables.refused [OF assms(1) this, of u] show ?thesis unfolding l
    by (auto simp: cli_call_def cli_view_def prompt_ready psn_queue_def) (simp add: cli_printf_def)
qed

lemma line_delete:
  assumes "psn_tables (ce_ut e) ok" "psn_data_ok ok (ce_ut e) (ps_data (cl_psn c))" "word u" "length u < 2000"
  shows "\<exists>c'. cli_line e (''delete '' @ u) c = Some c'
    \<and> cli_view e c' = (case cli_view e c of (f, i, out, q) \<Rightarrow> (f - {u}, i, out, q))"
proof -
  have l: "cli_line e (''delete '' @ u) c =
      cli_call (psn_delete_friend (ce_ut e) (Some (cl_psn (cli_printf ''> '' c))) u) (cli_printf ''> '' c)"
    using cli_line_words(2) [OF command_words(5), of u e c] assms(3,4) strtok_words(1) [OF assms(3)]
    by (simp add: cli_command_def cli_arg_def word_def)
  have "psn_data_ok ok (ce_ut e) (ps_data (cl_psn (cli_printf ''> '' c)))" using assms(2) by (simp add: prompt_ready)
  from psn_tables.deleted [OF assms(1) this, of u] show ?thesis unfolding l
    by (auto simp: cli_call_def cli_view_def prompt_ready psn_queue_def) (simp add: cli_printf_def)
qed

text \<open>A friend request is sent: the name of the user and one word as its text.\<close>

lemma line_add:
  assumes "psn_tables (ce_ut e) ok" "psn_ready ok (ce_ut e) (cl_psn c)" "psn_window (cl_psn c)"
    and "plain_name (p_username (ps_data (cl_psn c)))" "plain_name u" "word u" "word w" "length w < 2000"
  shows "\<exists>c' p mid. cli_line e (''add '' @ u @ '' '' @ w) c = Some c'
    \<and> cli_view e c' = (case cli_view e c of (f, i, out, q) \<Rightarrow> (f, i, insert u out, q @ [p]))
    \<and> left_of p = frame (publish_command 1 False False)
        (publish_body (''users/'' @ u @ ''/frequest/'' @ p_username (ps_data (cl_psn c))) mid 1 (bytes_of_string w))"
proof -
  let ?c = "cli_printf ''> '' c"
  have n: "NUL \<notin> set (u @ CHR '' '' # w)" "length u < 32" using assms(5-7) by (simp_all add: word_def plain_name_def)
  have l: "cli_line e (''add '' @ u @ '' '' @ w) c =
      cli_call (psn_make_friend_req (ce_ut e) (ce_lt e) (Some (cl_psn ?c)) u w) ?c"
    using cli_line_words(2) [OF command_words(2) n(1), of e c] n(2) assms(8) strtok_words(2) [OF assms(6), of w] strtok_words(1) [OF assms(7)]
    by (simp add: cli_command_def)
  obtain a mid p where "psn_make_friend_req (ce_ut e) (ce_lt e) (Some (cl_psn ?c)) u w = Some (PSN_ERR_SUCCESS, Some a)"
    "friends_of (ce_ut e) (ps_data a) = friends_of (ce_ut e) (ps_data (cl_psn ?c))"
    "incoming_of (ce_ut e) (ps_data a) = incoming_of (ce_ut e) (ps_data (cl_psn ?c))"
    "outgoing_of (ce_ut e) (ps_data a) = insert u (outgoing_of (ce_ut e) (ps_data (cl_psn ?c)))" "psn_queue a = psn_queue (cl_psn ?c) @ [p]"
    "left_of p = frame (publish_command 1 False False)
        (publish_body (''users/'' @ u @ ''/frequest/'' @ p_username (ps_data (cl_psn ?c))) mid 1 (bytes_of_string w))"
    using psn_tables.request_sent [OF assms(1), of "cl_psn ?c" u w "ce_lt e"] assms(2-5,8) by (auto simp: prompt_ready)
  then show ?thesis unfolding l
    by (intro exI [of _ "?c\<lparr>cl_psn := a\<rparr>"] exI [of _ p] exI [of _ mid]) (simp add: cli_call_def cli_view_def prompt_ready)
qed

lemma line_accept:
  assumes "psn_tables (ce_ut e) ok" "psn_ready ok (ce_ut e) (cl_psn c)" "psn_window (cl_psn c)"
    and "plain_name (p_username (ps_data (cl_psn c)))" "plain_name u" "word u"
  shows "\<exists>c' p mid. cli_line e (''accept '' @ u) c = Some c'
    \<and> cli_view e c' = (case cli_view e c of (f, i, out, q) \<Rightarrow> if u \<in> i then (insert u f, i - {u}, out, q @ [p]) else (f, i, out, q))
    \<and> (u \<in> incoming_of (ce_ut e) (ps_data (cl_psn c)) \<longrightarrow> left_of p = frame (publish_command 1 False False)
        (publish_body (''users/'' @ u @ ''/frequest/'' @ p_username (ps_data (cl_psn c))) mid 1 []))"
proof -
  let ?c = "cli_printf ''> '' c"
  have n: "NUL \<notin> set u" "length u < 32" using assms(5,6) by (simp_all add: word_def plain_name_def)
  have l: "cli_line e (''accept '' @ u) c = cli_call (psn_accept_friend_req (ce_ut e) (ce_lt e) (Some (cl_psn ?c)) u) ?c"
    using cli_line_words(2) [OF command_words(3) n(1), of e c] n(2) strtok_words(1) [OF assms(6)]
    by (simp add: cli_command_def cli_arg_def)
  show ?thesis
  proof (cases "u \<in> incoming_of (ce_ut e) (ps_data (cl_psn c))")
    case True
    then obtain b mid p where "psn_accept_friend_req (ce_ut e) (ce_lt e) (Some (cl_psn ?c)) u = Some (PSN_ERR_SUCCESS, Some b)"
      "friends_of (ce_ut e) (ps_data b) = insert u (friends_of (ce_ut e) (ps_data (cl_psn ?c)))"
      "incoming_of (ce_ut e) (ps_data b) = incoming_of (ce_ut e) (ps_data (cl_psn ?c)) - {u}"
      "outgoing_of (ce_ut e) (ps_data b) = outgoing_of (ce_ut e) (ps_data (cl_psn ?c))" "psn_queue b = psn_queue (cl_psn ?c) @ [p]"
      "left_of p = frame (publish_command 1 False False)
        (publish_body (''users/'' @ u @ ''/frequest/'' @ p_username (ps_data (cl_psn ?c))) mid 1 [])"
      using psn_tables.request_accepted [OF assms(1), of "cl_psn ?c" u "ce_lt e"] assms(2-5) by (auto simp: prompt_ready)
    then show ?thesis using True unfolding l
      by (intro exI [of _ "?c\<lparr>cl_psn := b\<rparr>"] exI [of _ p] exI [of _ mid]) (simp add: cli_call_def cli_view_def prompt_ready)
  next
    case False
    have a: "psn_accept_friend_req (ce_ut e) (ce_lt e) (Some (cl_psn ?c)) u = Some (PSN_ERR_USER_NOT_IN_INCOMING_FRIEND_LIST, Some (cl_psn ?c))"
      using psn_tables.accept_unknown [OF assms(1), of "cl_psn ?c" u "ce_lt e"] assms(2) False by (simp add: prompt_ready)
    show ?thesis using False a unfolding l
      by (intro exI [of _ ?c] exI) (auto simp: cli_call_def cli_view_def prompt_ready)
  qed
qed

text \<open>The settings, with what the line has changed besides the prompt.\<close>

lemma line_settings:
  assumes "word u" "word w" "length u < 32" "length w < 32" "word h" "length h < 256" "0 \<le> port" "port < 2 ^ 31"
  shows "\<exists>c'. cli_line e (''set name '' @ u @ '' '' @ w) c = Some c' \<and> ps_data (cl_psn c') =
      (psn_printf ''> '' (ps_data (cl_psn c)))\<lparr>p_username := u, p_password := w, p_shown_name := u\<rparr>"
    "\<exists>c'. cli_line e (''set shown '' @ u) c = Some c' \<and> ps_data (cl_psn c') =
      (psn_printf ''> '' (ps_data (cl_psn c)))\<lparr>p_shown_name := u\<rparr>"
    "\<exists>c'. cli_line e (''set server '' @ h @ '' '' @ string_of_int port) c = Some c' \<and> ps_data (cl_psn c') =
      (psn_printf ''> '' (ps_data (cl_psn c)))\<lparr>p_hostname := h, p_port := port\<rparr>"
proof -
  let ?c = "cli_printf ''> '' c" and ?n = "string_of_int port"
  have num: "word ?n" "atoi ?n = Some port" using word_number [of port] atoi_string_of_int [of port] assms(7,8) by simp_all
  have len: "length ?n \<le> 10" using string_of_nat_length [of "nat port" 9] assms(7,8) by (simp add: string_of_int_def)
  have nul: "NUL \<notin> set u" "NUL \<notin> set w" "NUL \<notin> set h" "NUL \<notin> set ?n" using assms(1,2,5) num(1) by (simp_all add: word_def)
  have "cli_line e (''set name '' @ u @ '' '' @ w) c = cli_call (psn_set_username (Some (cl_psn ?c)) (Some u) w) ?c"
    using cli_line_words(2) [OF command_words(1), of "''name '' @ u @ '' '' @ w" e c] nul assms(3,4)
      strtok_words(2) [OF command_words(6), of "u @ '' '' @ w"] strtok_words(2) [OF assms(1), of w] strtok_words(1) [OF assms(2)]
    by (simp add: cli_command_def cli_set_def)
  then show "\<exists>c'. cli_line e (''set name '' @ u @ '' '' @ w) c = Some c' \<and> ps_data (cl_psn c') =
      (psn_printf ''> '' (ps_data (cl_psn c)))\<lparr>p_username := u, p_password := w, p_shown_name := u\<rparr>"
    using assms(3,4) by (simp add: psn_set_username_def copy_into_def cli_call_def prompt_ready)
  have "cli_line e (''set shown '' @ u) c = cli_call (psn_set_shown_name (Some (cl_psn ?c)) u) ?c"
    using cli_line_words(2) [OF command_words(1), of "''shown '' @ u" e c] nul assms(3)
      strtok_words(2) [OF command_words(7), of u] strtok_words(1) [OF assms(1)]
    by (simp add: cli_command_def cli_set_def)
  then show "\<exists>c'. cli_line e (''set shown '' @ u) c = Some c' \<and> ps_data (cl_psn c') =
      (psn_printf ''> '' (ps_data (cl_psn c)))\<lparr>p_shown_name := u\<rparr>"
    using assms(3) by (simp add: psn_set_shown_name_def copy_into_def cli_call_def prompt_ready)
  have "cli_line e (''set server '' @ h @ '' '' @ ?n) c = cli_call (psn_set_server (Some (cl_psn ?c)) h port) ?c"
    using cli_line_words(2) [OF command_words(1), of "''server '' @ h @ '' '' @ ?n" e c] nul assms(6) len num(2)
      strtok_words(2) [OF command_words(8), of "h @ '' '' @ ?n"] strtok_words(2) [OF assms(5), of ?n] strtok_words(1) [OF num(1)]
    by (simp add: cli_command_def cli_set_def)
  then show "\<exists>c'. cli_line e (''set server '' @ h @ '' '' @ ?n) c = Some c' \<and> ps_data (cl_psn c') =
      (psn_printf ''> '' (ps_data (cl_psn c)))\<lparr>p_hostname := h, p_port := port\<rparr>"
    using assms(6) by (simp add: psn_set_server_def copy_into_def cli_call_def prompt_ready)
qed

lemma line_missing:
  assumes "w \<in> {''add'', ''accept'', ''refuse'', ''delete'', ''msg''}"
  shows "cli_line e w c = Some (cli_printf (''* ERROR: missing argument'' @ NL) (cli_printf ''> '' c))"
  using assms cli_line_words(1) [of w e c] command_words
  by (auto simp: cli_command_def cli_arg_def cli_message_def cli_missing_def)

section \<open>Properties\<close>


definition demo_env :: "(nat user ut_table option, nat, json) cli_env" where
  "demo_env = \<lparr>ce_ut = uthash u_name, ce_lt = demo_crypt, ce_js = demo_json, ce_rand = (\<lambda>_. 0),
     ce_mem = mosq_calloc (ps_data (demo_psn Mosq_null [])), ce_hex = replicate 4097 NUL, ce_buf = replicate 2048 0, ce_writable = (\<lambda>_. True)\<rparr>"

definition demo_cli :: "(nat user ut_table option, nat) psn_t \<Rightarrow> (nat user ut_table option, nat) cli" where
  "demo_cli psn = \<lparr>cl_psn = psn, cl_files = Map.empty, cl_end = False\<rparr>"


text \<open>
  C25: a line \<open>msg user text\<close> sends the rest of the line, blanks included, to the user: the
  text is everything behind the one blank after the name, up to the end of the line or a NUL in it.
\<close>
theorem cli_msg_sends:
  assumes "target \<noteq> []" "set target \<inter> set delims = {}" "NUL \<notin> set target" "takeWhile (\<lambda>c. c \<noteq> NUL) message \<noteq> []"
    and "length target + length message < 2043"
  shows "cli_line e (''msg '' @ target @ '' '' @ message) c =
    cli_call (psn_send_message (ce_ut e) (ce_lt e) (Some (cl_psn (cli_printf ''> '' c))) target (takeWhile (\<lambda>c. c \<noteq> NUL) message))
      (cli_printf ''> '' c)"
proof -
  let ?m = "takeWhile (\<lambda>c. c \<noteq> NUL) message"
  have t: "word target" using assms(1-3) by (simp add: word_def)
  have "takeWhile (\<lambda>c. c \<noteq> NUL) (''msg '' @ target @ '' '' @ message) = ''msg'' @ CHR '' '' # target @ CHR '' '' # ?m"
    using assms(3) by (subst append_assoc [symmetric], subst takeWhile_append2) auto
  then show ?thesis
    using assms(4,5) strtok_words(2) [OF command_words(9), of "target @ CHR '' '' # ?m"] strtok_words(2) [OF t, of ?m] strtok_rest [OF assms(4)]
    by (simp add: cli_line_def cli_command_def cli_message_def Let_def)
qed

theorem cli_msg_sends_witness:
  "cli_line demo_env ''msg bob see you'' (demo_cli (demo_friend ''alice'' ''bob'')) =
    cli_call (psn_send_message (uthash u_name) demo_crypt (Some (cl_psn (cli_printf ''> '' (demo_cli (demo_friend ''alice'' ''bob''))))) ''bob'' ''see you'')
      (cli_printf ''> '' (demo_cli (demo_friend ''alice'' ''bob'')))"
  using cli_msg_sends [of "''bob''" "''see you''" demo_env] by (simp add: NL_def demo_env_def)

end
