(* ===== verification/Broker_Db.thy ===== *)
theory Broker_Db
  imports Client
begin

text \<open>
  The message store of the broker: \<open>database.c\<close> and the structures of \<open>mosquitto_broker.h\<close>.

  \<^item> Stored messages are shared: a client's queue and the retained messages of the subscription tree
    point to them, and \<open>ref_count\<close> counts the pointers. They live at addresses (\<open>db_heap\<close>), linked in
    the list \<open>db_msg_store\<close>. Using a freed one is undefined (\<open>None\<close>).
  \<^item> A context is a position of \<open>db_contexts\<close>. The structure is the one of the client
    library, with the fields that only the broker has.
  \<^item> The last pointer of a queue is a position, or says that its message was freed.
  \<^item> The allocator, the clock and the settings are fields of the database. Persistence on disk
    is not modelled, except the counter of changes.
\<close>

section \<open>Data\<close>

record msg_store =
  st_db_id :: nat
  st_ref_count :: int
  st_source_id :: string
  st_dest_ids :: "string option list"
  st_source_mid :: u16
  st_msg :: message

record client_msg =
  cm_store :: nat
  cm_mid :: u16
  cm_qos :: int
  cm_retain :: bool
  cm_timestamp :: int
  cm_direction :: msg_direction
  cm_state :: msg_state
  cm_dup :: bool

datatype last_ptr = Last_null | Last_at nat | Last_freed

datatype bridge_direction = bd_out | bd_in | bd_both

record bridge_topic =
  bt_direction :: bridge_direction
  bt_qos :: int
  bt_local_prefix :: "string option"
  bt_remote_prefix :: "string option"
  bt_local_topic :: string
  bt_remote_topic :: string

record bridge =
  br_lazy :: bool
  br_threshold :: int
  br_lazy_reconnect :: bool
  br_topics :: "bridge_topic list"
  br_topic_remapping :: bool
  br_notifications :: bool
  br_notification_topic :: "string option"
  br_try_private_accepted :: bool

record ctx =
  cx_mosq :: "unit mosq"
  cx_msgs :: "client_msg list"
  cx_last_msg :: last_ptr
  cx_msg_count :: int
  cx_msg_count12 :: int
  cx_is_dropping :: bool
  cx_is_bridge :: bool
  cx_bridge :: "bridge option"
  cx_acl_list :: "(string \<times> int) list option"
  cx_address :: "string option"
  cx_listener :: "nat option"
  cx_disconnect_t :: int

text \<open>A node of the subscription tree; a subscription is a context with a QoS.\<close>

datatype subhier = Subhier (sh_topic: string) (sh_subs: "(nat \<times> int) list") (sh_retained: "nat option") (sh_children: "subhier list")

text \<open>The settings. The number \<open>message_size_limit\<close> is compared as unsigned. A listener is a position of \<open>db_listeners\<close>.\<close>

record config =
  cf_allow_duplicate_messages :: bool
  cf_queue_qos0_messages :: bool
  cf_upgrade_outgoing_qos :: bool
  cf_allow_anonymous :: bool
  cf_allow_zero_length_clientid :: bool
  cf_auto_id_prefix :: string
  cf_clientid_prefixes :: "string option"
  cf_message_size_limit :: u32
  cf_persistent_client_expiration :: int
  cf_retry_interval :: u32
  cf_store_clean_interval :: int

record listener =
  ls_max_connections :: int
  ls_mount_point :: "string option"
  ls_socks :: "int list"
  ls_client_count :: int

record db =
  db_last_db_id :: nat
  db_subs :: "subhier list"
  db_acl_list :: "(string option \<times> (string \<times> int) list) list"
  db_acl_patterns :: "(string \<times> int) list"
  db_contexts :: "ctx option list"
  db_heap :: "nat \<Rightarrow> msg_store option"
  db_msg_store :: "nat list"
  db_msg_store_count :: int
  db_config :: config
  db_persistence_changes :: int
  db_subscription_count :: int
  db_retained_count :: int
  db_max_inflight :: int
  db_max_queued :: int
  db_msgs_dropped :: int
  db_now :: int
  db_allocs :: "bool list"
  db_next :: nat
  db_plugin :: "(string option \<Rightarrow> string option \<Rightarrow> string \<Rightarrow> int \<Rightarrow> int) option"
  db_plugin_unpwd :: "string option \<Rightarrow> string option \<Rightarrow> int"
  db_unpwd :: "(string \<times> string option) list"
  db_clientid_index_hash :: "(string \<times> nat) list"
  db_listeners :: "listener list"
  db_rand :: "int list"

type_synonym db_res = "(int \<times> db) option"

definition db_alloc :: "db \<Rightarrow> bool \<times> db" where
  "db_alloc db = (case malloc_ok (db_allocs db) of (b, al) \<Rightarrow> (b, db\<lparr>db_allocs := al\<rparr>))"

definition get_ctx :: "nat \<Rightarrow> db \<Rightarrow> ctx option" where
  "get_ctx ci db = (if ci < length (db_contexts db) then db_contexts db ! ci else None)"

definition put_ctx :: "nat \<Rightarrow> ctx \<Rightarrow> db \<Rightarrow> db" where
  "put_ctx ci cx db = db\<lparr>db_contexts := (db_contexts db)[ci := Some cx]\<rparr>"

definition add_ref :: "nat \<Rightarrow> int \<Rightarrow> db \<Rightarrow> db option" where
  "add_ref r n db =
     (case db_heap db r of
        None \<Rightarrow> None
      | Some st \<Rightarrow> Some (db\<lparr>db_heap := (db_heap db)(r \<mapsto> st\<lparr>st_ref_count := st_ref_count st + n\<rparr>)\<rparr>))"

section \<open>Opening\<close>

text \<open>The tree starts with the two hierarchies of topics. Nothing is restored from disk.\<close>

fun open_children :: "string list \<Rightarrow> db \<Rightarrow> int \<times> db" where
  "open_children [] db = (MOSQ_ERR_SUCCESS, db)"
| "open_children (t # r) db =
     (case db_alloc db of
        (False, db) \<Rightarrow> (MOSQ_ERR_NOMEM, db)
      | (True, db) \<Rightarrow>
          (case db_alloc db of
             (False, db) \<Rightarrow> (MOSQ_ERR_NOMEM, db)
           | (True, db) \<Rightarrow> open_children r (db\<lparr>db_subs := db_subs db @ [Subhier t [] None []]\<rparr>)))"

definition mqtt3_db_open :: "db \<Rightarrow> int \<times> db" where
  "mqtt3_db_open db =
     (let db = db\<lparr>db_last_db_id := 0\<rparr> in
      case db_alloc db of
        (False, db) \<Rightarrow> (MOSQ_ERR_NOMEM, db)
      | (True, db) \<Rightarrow>
          (case open_children ['''', ''$SYS''] (db\<lparr>db_contexts := [None], db_clientid_index_hash := [], db_subs := []\<rparr>) of (rc, db) \<Rightarrow>
             (rc, if rc = MOSQ_ERR_SUCCESS then db\<lparr>db_unpwd := []\<rparr> else db)))"

section \<open>The queue of a client\<close>

text \<open>The last pointer when the message at position \<open>k\<close> of \<open>n\<close> is unlinked and freed.\<close>

definition last_unlink :: "nat \<Rightarrow> nat \<Rightarrow> last_ptr \<Rightarrow> last_ptr" where
  "last_unlink k n l =
     (if k > 0 \<and> k + 1 = n then Last_at (k - 1)
      else if k = 0 \<and> n = 1 then Last_null
      else case l of Last_at i \<Rightarrow> (if i = k then Last_freed else if i > k then Last_at (i - 1) else Last_at i) | _ \<Rightarrow> l)"

definition remove_nth :: "nat \<Rightarrow> 'a list \<Rightarrow> 'a list" where
  "remove_nth k xs = take k xs @ drop (k + 1) xs"

text \<open>\<open>_message_remove\<close> of the message at position \<open>k\<close>.\<close>

definition message_remove :: "nat \<Rightarrow> nat \<Rightarrow> db \<Rightarrow> db option" where
  "message_remove ci k db =
     do {
       cx \<leftarrow> get_ctx ci db;
       if k \<ge> length (cx_msgs cx) then Some db
       else
         do {
           let msg = cx_msgs cx ! k;
           db \<leftarrow> add_ref (cm_store msg) (-1) db;
           Some (put_ctx ci (cx\<lparr>cx_msgs := remove_nth k (cx_msgs cx),
             cx_last_msg := last_unlink k (length (cx_msgs cx)) (cx_last_msg cx),
             cx_msg_count := cx_msg_count cx - 1,
             cx_msg_count12 := (if cm_qos msg > 0 then cx_msg_count12 cx - 1 else cx_msg_count12 cx)\<rparr>) db)
         }
     }"

definition publish_state :: "int \<Rightarrow> msg_state \<Rightarrow> msg_state" where
  "publish_state qos old =
     (if qos = 0 then mosq_ms_publish_qos0 else if qos = 1 then mosq_ms_publish_qos1
      else if qos = 2 then mosq_ms_publish_qos2 else old)"

definition set_msg :: "nat \<Rightarrow> nat \<Rightarrow> (client_msg \<Rightarrow> client_msg) \<Rightarrow> db \<Rightarrow> db" where
  "set_msg ci k f db =
     (case get_ctx ci db of
        None \<Rightarrow> db
      | Some cx \<Rightarrow> put_ctx ci (cx\<lparr>cx_msgs := (cx_msgs cx)[k := f (cx_msgs cx ! k)]\<rparr>) db)"

text \<open>A queued message comes into the window.\<close>

definition unqueue :: "int \<Rightarrow> client_msg \<Rightarrow> client_msg" where
  "unqueue now m =
     (let m = m\<lparr>cm_timestamp := now\<rparr> in
      if cm_direction m = mosq_md_out then m\<lparr>cm_state := publish_state (cm_qos m) (cm_state m)\<rparr>
      else if cm_qos m = 2 then m\<lparr>cm_state := mosq_ms_wait_for_pubrel\<rparr> else m)"

text \<open>The messages from position \<open>k\<close> on, \<open>n\<close> of them; \<open>msg_index\<close> counts those that stay.\<close>

fun delete_loop :: "nat \<Rightarrow> u16 \<Rightarrow> msg_direction \<Rightarrow> nat \<Rightarrow> nat \<Rightarrow> int \<Rightarrow> bool \<Rightarrow> db \<Rightarrow> db option" where
  "delete_loop ci mid dir 0 k msg_index deleted db = Some db"
| "delete_loop ci mid dir (Suc n) k msg_index deleted db =
     do {
       cx \<leftarrow> get_ctx ci db;
       let msg_index = msg_index + 1;
       let db = (if cm_state (cx_msgs cx ! k) = mosq_ms_queued \<and> msg_index \<le> db_max_inflight db
                 then set_msg ci k (unqueue (db_now db)) db else db);
       if cm_mid (cx_msgs cx ! k) = mid \<and> cm_direction (cx_msgs cx ! k) = dir
       then
         do {
           db \<leftarrow> message_remove ci k db;
           if msg_index - 1 > db_max_inflight db then Some db
           else delete_loop ci mid dir n k (msg_index - 1) True db
         }
       else if msg_index > db_max_inflight db \<and> deleted then Some db
       else delete_loop ci mid dir n (k + 1) msg_index deleted db
     }"

definition mqtt3_db_message_delete :: "db \<Rightarrow> nat \<Rightarrow> u16 \<Rightarrow> msg_direction \<Rightarrow> db_res" where
  "mqtt3_db_message_delete db ci mid dir =
     do {
       cx \<leftarrow> get_ctx ci db;
       db \<leftarrow> delete_loop ci mid dir (length (cx_msgs cx)) 0 0 False db;
       Some (MOSQ_ERR_SUCCESS, db)
     }"

section \<open>Inserting\<close>

text \<open>
  The state of a new message: the queue is full and the message is dropped, an incoming message that
  is not of QoS 2 is refused, or a state with the result of the call.
\<close>

datatype insert_state = Is_drop | Is_refuse | Is_state msg_state int

definition insert_state :: "db \<Rightarrow> ctx \<Rightarrow> msg_direction \<Rightarrow> int \<Rightarrow> insert_state" where
  "insert_state db cx dir qos =
     (if c_sock (cx_mosq cx) \<noteq> INVALID_SOCKET then
        if qos = 0 \<or> db_max_inflight db = 0 \<or> cx_msg_count12 cx < db_max_inflight db then
          if dir = mosq_md_out then Is_state (publish_state qos mosq_ms_invalid) 0
          else if qos = 2 then Is_state mosq_ms_wait_for_pubrel 0
          else Is_refuse
        else if db_max_queued db = 0 \<or> cx_msg_count12 cx - db_max_inflight db < db_max_queued db
        then Is_state mosq_ms_queued 2
        else Is_drop
      else if db_max_queued db > 0 \<and> cx_msg_count12 cx \<ge> db_max_queued db then Is_drop
      else Is_state mosq_ms_queued 0)"

text \<open>
  The append through the last pointer. A pointer that does not point to the end of the list would
  cut the list or write to freed memory.
\<close>

definition append_msg :: "client_msg \<Rightarrow> ctx \<Rightarrow> ctx option" where
  "append_msg msg cx =
     (case cx_last_msg cx of
        Last_freed \<Rightarrow> None
      | Last_null \<Rightarrow> Some (cx\<lparr>cx_msgs := [msg], cx_last_msg := Last_at 0\<rparr>)
      | Last_at i \<Rightarrow> Some (cx\<lparr>cx_msgs := take (i + 1) (cx_msgs cx) @ [msg], cx_last_msg := Last_at (i + 1)\<rparr>))"

fun dest_has :: "string \<Rightarrow> string option list \<Rightarrow> bool option" where
  "dest_has cid [] = Some False"
| "dest_has cid (None # r) = None"
| "dest_has cid (Some d # r) = (if d = cid then Some True else dest_has cid r)"

definition already_sent :: "db \<Rightarrow> ctx \<Rightarrow> msg_direction \<Rightarrow> bool \<Rightarrow> msg_store \<Rightarrow> bool option" where
  "already_sent db cx dir retain st =
     (if \<not> cf_allow_duplicate_messages (db_config db) \<and> dir = mosq_md_out \<and> \<not> retain \<and> st_dest_ids st \<noteq> []
      then do { cid \<leftarrow> c_id (cx_mosq cx); dest_has cid (st_dest_ids st) }
      else Some False)"

text \<open>
  The new entry of the queue. The bridge that connects on demand is told when enough messages
  wait.
\<close>

definition insert_queue :: "db \<Rightarrow> nat \<Rightarrow> u16 \<Rightarrow> msg_direction \<Rightarrow> int \<Rightarrow> bool \<Rightarrow> nat \<Rightarrow> msg_state \<Rightarrow> db option" where
  "insert_queue db ci mid dir qos retain stored state =
     do {
       cx \<leftarrow> get_ctx ci db;
       db \<leftarrow> add_ref stored 1 db;
       cx \<leftarrow> append_msg \<lparr>cm_store = stored, cm_mid = mid, cm_qos = qos, cm_retain = retain, cm_timestamp = db_now db,
               cm_direction = dir, cm_state = state, cm_dup = False\<rparr> cx;
       Some (put_ctx ci (cx\<lparr>cx_msg_count := cx_msg_count cx + 1,
         cx_msg_count12 := (if qos > 0 then cx_msg_count12 cx + 1 else cx_msg_count12 cx)\<rparr>) db)
     }"

text \<open>Remember the client, so that the message is not sent to it again. When the second allocation fails, a NULL stays in the list.\<close>

definition record_dest :: "db \<Rightarrow> nat \<Rightarrow> nat \<Rightarrow> (bool \<times> db) option" where
  "record_dest db ci stored =
     do {
       cx \<leftarrow> get_ctx ci db;
       st \<leftarrow> db_heap db stored;
       cid \<leftarrow> c_id (cx_mosq cx);
       (case db_alloc db of
          (False, db) \<Rightarrow> Some (False, db)
        | (True, db) \<Rightarrow>
            (case db_alloc db of
               (False, db) \<Rightarrow> Some (False, db\<lparr>db_heap := (db_heap db)(stored \<mapsto> st\<lparr>st_dest_ids := st_dest_ids st @ [None]\<rparr>)\<rparr>)
             | (True, db) \<Rightarrow> Some (True, db\<lparr>db_heap := (db_heap db)(stored \<mapsto> st\<lparr>st_dest_ids := st_dest_ids st @ [Some cid]\<rparr>)\<rparr>)))
     }"

definition bridge_wakeup :: "ctx \<Rightarrow> ctx" where
  "bridge_wakeup cx =
     (case cx_bridge cx of
        None \<Rightarrow> cx
      | Some b \<Rightarrow>
          if br_lazy b \<and> c_sock (cx_mosq cx) = INVALID_SOCKET \<and> cx_msg_count cx \<ge> br_threshold b
          then cx\<lparr>cx_bridge := Some (b\<lparr>br_lazy_reconnect := True\<rparr>)\<rparr> else cx)"

definition mqtt3_db_message_insert :: "db \<Rightarrow> nat \<Rightarrow> u16 \<Rightarrow> msg_direction \<Rightarrow> int \<Rightarrow> bool \<Rightarrow> nat \<Rightarrow> db_res" where
  "mqtt3_db_message_insert db ci mid dir qos retain stored =
     do {
       cx \<leftarrow> get_ctx ci db;
       st \<leftarrow> db_heap db stored;
       sent \<leftarrow> already_sent db cx dir retain st;
       if sent then Some (MOSQ_ERR_SUCCESS, db)
       else if c_sock (cx_mosq cx) = INVALID_SOCKET \<and> qos = 0 \<and> \<not> cf_queue_qos0_messages (db_config db)
         \<and> (case cx_bridge cx of None \<Rightarrow> True | Some b \<Rightarrow> \<not> br_lazy b) then Some (2, db)
       else
         (case insert_state db cx dir qos of
            Is_refuse \<Rightarrow> Some (1, db)
          | Is_drop \<Rightarrow>
              Some (2, (put_ctx ci (cx\<lparr>cx_is_dropping := True\<rparr>) db)\<lparr>db_msgs_dropped := db_msgs_dropped db + 1\<rparr>)
          | Is_state state rc \<Rightarrow>
              if state = mosq_ms_invalid then None
              else
                (let db = (if state = mosq_ms_queued then db\<lparr>db_persistence_changes := db_persistence_changes db + 1\<rparr> else db) in
                 case db_alloc db of
                   (False, db) \<Rightarrow> Some (MOSQ_ERR_NOMEM, db)
                 | (True, db) \<Rightarrow>
                     do {
                       db \<leftarrow> insert_queue db ci mid dir qos retain stored state;
                       (ok, db) \<leftarrow> (if \<not> cf_allow_duplicate_messages (db_config db) \<and> dir = mosq_md_out \<and> \<not> retain
                                  then record_dest db ci stored else Some (True, db));
                       if \<not> ok then Some (MOSQ_ERR_NOMEM, db)
                       else
                         do {
                           cx \<leftarrow> get_ctx ci db;
                           Some (rc, put_ctx ci (bridge_wakeup cx) db)
                         }
                     }))
     }"

section \<open>Storing, updating and clearing\<close>

definition new_store :: "db \<Rightarrow> string \<Rightarrow> u16 \<Rightarrow> string option \<Rightarrow> int \<Rightarrow> u32 \<Rightarrow> u8 list option \<Rightarrow> bool \<Rightarrow> nat \<Rightarrow> nat \<times> db" where
  "new_store db source source_mid topic qos payloadlen payload retain store_id =
     (let r = db_next db;
          db = db\<lparr>db_next := r + 1, db_msg_store_count := db_msg_store_count db + 1, db_msg_store := r # db_msg_store db\<rparr>;
          db = (if store_id = 0 then db\<lparr>db_last_db_id := db_last_db_id db + 1\<rparr> else db)
      in (r, db\<lparr>db_heap := (db_heap db)(r \<mapsto>
           \<lparr>st_db_id = (if store_id = 0 then db_last_db_id db else store_id), st_ref_count = 0, st_source_id = source, st_dest_ids = [],
            st_source_mid = source_mid,
            st_msg = \<lparr>m_mid = 0, m_topic = topic, m_payload = payload, m_payloadlen = sint payloadlen, m_qos = qos, m_retain = retain\<rparr>\<rparr>)\<rparr>))"

definition mqtt3_db_message_store :: "db \<Rightarrow> string option \<Rightarrow> u16 \<Rightarrow> string option \<Rightarrow> int \<Rightarrow> u32 \<Rightarrow> u8 list option \<Rightarrow> bool \<Rightarrow> nat
    \<Rightarrow> (int \<times> nat option \<times> db) option" where
  "mqtt3_db_message_store db source source_mid topic qos payloadlen payload retain store_id =
     (case db_alloc db of
        (False, db) \<Rightarrow> Some (MOSQ_ERR_NOMEM, None, db)
      | (True, db) \<Rightarrow>
          (case db_alloc db of
             (False, db) \<Rightarrow> Some (MOSQ_ERR_NOMEM, None, db)
           | (True, db) \<Rightarrow>
               (case (if topic = None then (True, db) else db_alloc db) of
                  (False, db) \<Rightarrow> Some (MOSQ_ERR_NOMEM, None, db)
                | (True, db) \<Rightarrow>
                    (case (if payloadlen = 0 then (True, db) else db_alloc db) of
                       (False, db) \<Rightarrow> Some (MOSQ_ERR_NOMEM, None, db)
                     | (True, db) \<Rightarrow>
                         do {
                           payload \<leftarrow> (if payloadlen = 0 then Some None
                             else do { p \<leftarrow> payload; if unat payloadlen \<le> length p then Some (Some (take (unat payloadlen) p)) else None });
                           let (r, db) = new_store db (case source of None \<Rightarrow> '''' | Some s \<Rightarrow> s) source_mid topic qos payloadlen payload
                             retain store_id;
                           Some (MOSQ_ERR_SUCCESS, Some r, db)
                         }))))"

fun find_msg :: "(client_msg \<Rightarrow> bool) \<Rightarrow> nat \<Rightarrow> client_msg list \<Rightarrow> nat option" where
  "find_msg P k [] = None"
| "find_msg P k (m # r) = (if P m then Some k else find_msg P (k + 1) r)"

definition mqtt3_db_message_update :: "db \<Rightarrow> nat \<Rightarrow> u16 \<Rightarrow> msg_direction \<Rightarrow> msg_state \<Rightarrow> db_res" where
  "mqtt3_db_message_update db ci mid dir state =
     do {
       cx \<leftarrow> get_ctx ci db;
       (case find_msg (\<lambda>m. cm_mid m = mid \<and> cm_direction m = dir) 0 (cx_msgs cx) of
          None \<Rightarrow> Some (1, db)
        | Some k \<Rightarrow> Some (MOSQ_ERR_SUCCESS, set_msg ci k (\<lambda>m. m\<lparr>cm_state := state, cm_timestamp := db_now db\<rparr>) db))
     }"

fun release_refs :: "client_msg list \<Rightarrow> db \<Rightarrow> db option" where
  "release_refs [] db = Some db"
| "release_refs (m # r) db = do { db \<leftarrow> add_ref (cm_store m) (-1) db; release_refs r db }"

definition mqtt3_db_messages_delete :: "db \<Rightarrow> nat \<Rightarrow> db_res" where
  "mqtt3_db_messages_delete db ci =
     do {
       cx \<leftarrow> get_ctx ci db;
       db \<leftarrow> release_refs (cx_msgs cx) db;
       Some (MOSQ_ERR_SUCCESS, put_ctx ci (cx\<lparr>cx_msgs := [], cx_last_msg := Last_null, cx_msg_count := 0, cx_msg_count12 := 0\<rparr>) db)
     }"

fun store_find_loop :: "db \<Rightarrow> u16 \<Rightarrow> client_msg list \<Rightarrow> (int \<times> nat option) option" where
  "store_find_loop db mid [] = Some (1, None)"
| "store_find_loop db mid (m # r) =
     do {
       st \<leftarrow> db_heap db (cm_store m);
       if st_source_mid st = mid \<and> cm_direction m = mosq_md_in then Some (MOSQ_ERR_SUCCESS, Some (cm_store m))
       else store_find_loop db mid r
     }"

definition mqtt3_db_message_store_find :: "db \<Rightarrow> nat \<Rightarrow> u16 \<Rightarrow> (int \<times> nat option) option" where
  "mqtt3_db_message_store_find db ci mid = do { cx \<leftarrow> get_ctx ci db; store_find_loop db mid (cx_msgs cx) }"

text \<open>The loop over the queue at a reconnect; a removed message makes it skip the one behind.\<close>

definition reset_state :: "client_msg \<Rightarrow> client_msg" where
  "reset_state m =
     (if cm_state m = mosq_ms_queued then m
      else if cm_qos m = 2 \<and> cm_state m = mosq_ms_wait_for_pubcomp then m\<lparr>cm_state := mosq_ms_resend_pubrel\<rparr>
      else m\<lparr>cm_state := publish_state (cm_qos m) (cm_state m)\<rparr>)"

fun db_reset_loop :: "nat \<Rightarrow> nat \<Rightarrow> nat \<Rightarrow> db \<Rightarrow> db option" where
  "db_reset_loop ci 0 k db = Some db"
| "db_reset_loop ci (Suc n) k db =
     do {
       cx \<leftarrow> get_ctx ci db;
       if k \<ge> length (cx_msgs cx) then Some db
       else
         do {
           let msg = cx_msgs cx ! k;
           let cx = cx\<lparr>cx_last_msg := Last_at k, cx_msg_count := cx_msg_count cx + 1,
                 cx_msg_count12 := (if cm_qos msg > 0 then cx_msg_count12 cx + 1 else cx_msg_count12 cx)\<rparr>;
           let db = put_ctx ci cx db;
           if cm_direction msg = mosq_md_out then db_reset_loop ci n (k + 1) (set_msg ci k reset_state db)
           else if cm_qos msg \<noteq> 2 then do { db \<leftarrow> message_remove ci k db; db_reset_loop ci n (k + 1) db }
           else db_reset_loop ci n (k + 1) db
         }
     }"

text \<open>The first messages of the queue leave the state queued.\<close>

fun start_queued :: "int \<Rightarrow> int \<Rightarrow> client_msg list \<Rightarrow> client_msg list" where
  "start_queued inflight count [] = []"
| "start_queued inflight count (m # r) =
     (if inflight = 0 \<or> count < inflight
      then (if cm_state m = mosq_ms_queued then m\<lparr>cm_state := publish_state (cm_qos m) (cm_state m)\<rparr> else m)
        # start_queued inflight (count + 1) r
      else m # r)"

definition mqtt3_db_message_reconnect_reset :: "db \<Rightarrow> nat \<Rightarrow> db_res" where
  "mqtt3_db_message_reconnect_reset db ci =
     do {
       cx \<leftarrow> get_ctx ci db;
       let db = put_ctx ci (cx\<lparr>cx_msg_count := 0, cx_msg_count12 := 0\<rparr>) db;
       db \<leftarrow> db_reset_loop ci (length (cx_msgs cx)) 0 db;
       cx \<leftarrow> get_ctx ci db;
       Some (MOSQ_ERR_SUCCESS, put_ctx ci (cx\<lparr>cx_msgs := start_queued (db_max_inflight db) 0 (cx_msgs cx)\<rparr>) db)
     }"

text \<open>The new state is kept from one message, and one client, to the next.\<close>

definition retry_state :: "msg_state \<Rightarrow> msg_state \<Rightarrow> msg_state" where
  "retry_state state old =
     (if state = mosq_ms_wait_for_puback then mosq_ms_publish_qos1
      else if state = mosq_ms_wait_for_pubrec then mosq_ms_publish_qos2
      else if state = mosq_ms_wait_for_pubrel then mosq_ms_send_pubrec
      else if state = mosq_ms_wait_for_pubcomp then mosq_ms_resend_pubrel
      else old)"

fun timeout_msgs :: "int \<Rightarrow> int \<Rightarrow> client_msg list \<Rightarrow> msg_state \<Rightarrow> client_msg list \<times> msg_state" where
  "timeout_msgs now threshold [] new_state = ([], new_state)"
| "timeout_msgs now threshold (m # r) new_state =
     (let (m, new_state) =
            (if cm_timestamp m < threshold \<and> cm_state m \<noteq> mosq_ms_queued then
               (let new_state = retry_state (cm_state m) new_state in
                (if new_state \<noteq> mosq_ms_invalid then m\<lparr>cm_timestamp := now, cm_state := new_state, cm_dup := True\<rparr> else m, new_state))
             else (m, new_state));
          (r, new_state) = timeout_msgs now threshold r new_state
      in (m # r, new_state))"

fun timeout_contexts :: "int \<Rightarrow> int \<Rightarrow> ctx option list \<Rightarrow> msg_state \<Rightarrow> ctx option list" where
  "timeout_contexts now threshold [] new_state = []"
| "timeout_contexts now threshold (None # r) new_state = None # timeout_contexts now threshold r new_state"
| "timeout_contexts now threshold (Some cx # r) new_state =
     (let (msgs, new_state) = timeout_msgs now threshold (cx_msgs cx) new_state
      in Some (cx\<lparr>cx_msgs := msgs\<rparr>) # timeout_contexts now threshold r new_state)"

definition mqtt3_db_message_timeout_check :: "db \<Rightarrow> u32 \<Rightarrow> int \<times> db" where
  "mqtt3_db_message_timeout_check db timeout =
     (MOSQ_ERR_SUCCESS,
      db\<lparr>db_contexts := timeout_contexts (db_now db) (db_now db - uint timeout) (db_contexts db) mosq_ms_invalid\<rparr>)"

text \<open>Messages that nothing points to are taken out of the list and freed.\<close>

fun store_clean_loop :: "nat list \<Rightarrow> db \<Rightarrow> (nat list \<times> db) option" where
  "store_clean_loop [] db = Some ([], db)"
| "store_clean_loop (r # rs) db =
     do {
       st \<leftarrow> db_heap db r;
       if st_ref_count st = 0
       then store_clean_loop rs (db\<lparr>db_heap := (db_heap db)(r := None), db_msg_store_count := db_msg_store_count db - 1\<rparr>)
       else do { (rs, db) \<leftarrow> store_clean_loop rs db; Some (r # rs, db) }
     }"

definition mqtt3_db_store_clean :: "db \<Rightarrow> db option" where
  "mqtt3_db_store_clean db = do { (rs, db) \<leftarrow> store_clean_loop (db_msg_store db) db; Some (db\<lparr>db_msg_store := rs\<rparr>) }"

definition mqtt3_db_limits_set :: "db \<Rightarrow> int \<Rightarrow> int \<Rightarrow> db" where
  "mqtt3_db_limits_set db inflight queued = db\<lparr>db_max_inflight := inflight, db_max_queued := queued\<rparr>"

definition mqtt3_db_client_count :: "db \<Rightarrow> int \<times> nat \<times> nat" where
  "mqtt3_db_client_count db =
     (MOSQ_ERR_SUCCESS, length (filter (\<lambda>c. c \<noteq> None) (db_contexts db)),
      length (filter (\<lambda>c. case c of None \<Rightarrow> False | Some cx \<Rightarrow> c_sock (cx_mosq cx) = INVALID_SOCKET) (db_contexts db)))"

text \<open>At the end the tree gives its retained messages back.\<close>

fun subhier_clean :: "subhier list \<Rightarrow> db \<Rightarrow> db option" where
  "subhier_clean [] db = Some db"
| "subhier_clean (Subhier t subs ret ch # r) db =
     do {
       db \<leftarrow> (case ret of None \<Rightarrow> Some db | Some m \<Rightarrow> add_ref m (-1) db);
       db \<leftarrow> subhier_clean ch db;
       subhier_clean r db
     }"

definition mqtt3_db_close :: "db \<Rightarrow> (int \<times> db) option" where
  "mqtt3_db_close db =
     do {
       db \<leftarrow> subhier_clean (db_subs db) db;
       db \<leftarrow> mqtt3_db_store_clean (db\<lparr>db_subs := []\<rparr>);
       Some (MOSQ_ERR_SUCCESS, db)
     }"

section \<open>Writing to a client\<close>

text \<open>
  The broker sends with the functions of the client library; it has no callbacks and no thread. The mount point of a
  listener is taken off the topic, and a bridge changes the prefix of the first of its topics that matches.
\<close>

definition broker_app :: "unit app" where
  "broker_app ev m = Some m"

definition ctx_send :: "nat \<Rightarrow> (unit mosq \<Rightarrow> (int \<times> unit mosq) option) \<Rightarrow> db \<Rightarrow> db_res" where
  "ctx_send ci f db =
     do {
       cx \<leftarrow> get_ctx ci db;
       (rc, m) \<leftarrow> f (cx_mosq cx);
       Some (rc, put_ctx ci (cx\<lparr>cx_mosq := m\<rparr>) db)
     }"

definition ctx_mount :: "nat \<Rightarrow> db \<Rightarrow> string option" where
  "ctx_mount ci db =
     do {
       cx \<leftarrow> get_ctx ci db;
       l \<leftarrow> cx_listener cx;
       if l < length (db_listeners db) then ls_mount_point (db_listeners db ! l) else None
     }"

definition has_prefix :: "string \<Rightarrow> string \<Rightarrow> bool" where
  "has_prefix p s \<longleftrightarrow> take (length p) s = p"

text \<open>
  The topic with its new prefix (\<open>None\<close>: no memory), and the search for the first topic of the bridge that matches: an error, no match, or
  the topic.
\<close>

definition remap_topic :: "bool \<Rightarrow> string option \<Rightarrow> string option \<Rightarrow> string \<Rightarrow> bool list \<Rightarrow> string option \<times> bool list" where
  "remap_topic copy old new topic al =
     (case (if copy then malloc_ok al else (True, al)) of
        (False, al) \<Rightarrow> (None, al)
      | (True, al) \<Rightarrow>
          (case (case old of
               Some p \<Rightarrow> if has_prefix p topic then (case malloc_ok al of (b, al) \<Rightarrow> (b, drop (length p) topic, al)) else (True, topic, al)
             | None \<Rightarrow> (True, topic, al)) of
             (False, topic, al) \<Rightarrow> (None, al)
           | (True, topic, al) \<Rightarrow>
               (case new of
                  None \<Rightarrow> (Some topic, al)
                | Some p \<Rightarrow> (case malloc_ok al of (b, al) \<Rightarrow> (if b then Some (p @ topic) else None, al)))))"

fun remap_loop :: "bridge_direction \<Rightarrow> (bridge_topic \<Rightarrow> string) \<Rightarrow> (bridge_topic \<Rightarrow> string \<Rightarrow> bool list \<Rightarrow> string option \<times> bool list)
    \<Rightarrow> bridge_topic list \<Rightarrow> string \<Rightarrow> bool list \<Rightarrow> (int + string option) \<times> bool list" where
  "remap_loop dir pat f [] topic al = (Inr None, al)"
| "remap_loop dir pat f (t # ts) topic al =
     (if (bt_direction t = bd_both \<or> bt_direction t = dir) \<and> (bt_remote_prefix t \<noteq> None \<or> bt_local_prefix t \<noteq> None) then
        (case mosquitto_topic_matches_sub (Some (pat t)) (Some topic) True of
           (rc, match) \<Rightarrow>
             if rc \<noteq> 0 then (Inl rc, al)
             else if match = Some True
             then (case f t topic al of (None, al) \<Rightarrow> (Inl MOSQ_ERR_NOMEM, al) | (Some topic, al) \<Rightarrow> (Inr (Some topic), al))
             else remap_loop dir pat f ts topic al)
      else remap_loop dir pat f ts topic al)"

definition remap_out :: "ctx \<Rightarrow> string \<Rightarrow> unit mosq \<Rightarrow> (int + string option) \<times> unit mosq" where
  "remap_out cx topic m =
     (case cx_bridge cx of
        None \<Rightarrow> (Inr None, m)
      | Some b \<Rightarrow>
          if \<not> br_topic_remapping b then (Inr None, m)
          else
            (case remap_loop bd_out bt_local_topic (\<lambda>t. remap_topic True (bt_local_prefix t) (bt_remote_prefix t)) (br_topics b) topic (e_allocs m) of
               (r, al) \<Rightarrow> (r, m\<lparr>e_allocs := al\<rparr>)))"

text \<open>The topic below the mount point; without one the message is swallowed.\<close>

definition unmount :: "string option \<Rightarrow> string \<Rightarrow> string option" where
  "unmount mount topic =
     (case mount of None \<Rightarrow> Some topic | Some mp \<Rightarrow> if length mp < length topic then Some (drop (length mp) topic) else None)"

definition broker_send_publish ::
    "ctx \<Rightarrow> string option \<Rightarrow> unit mosq \<Rightarrow> u16 \<Rightarrow> string option \<Rightarrow> u32 \<Rightarrow> u8 list option \<Rightarrow> int \<Rightarrow> bool \<Rightarrow> bool \<Rightarrow> unit res" where
  "broker_send_publish cx mount m mid topic payloadlen payload qos retain dup =
     (case topic of
        None \<Rightarrow> None
      | Some topic \<Rightarrow>
          if c_sock m = INVALID_SOCKET then Some (MOSQ_ERR_NO_CONN, m)
          else
            (case unmount mount topic of
               None \<Rightarrow> Some (MOSQ_ERR_SUCCESS, m)
             | Some topic \<Rightarrow>
                 (case remap_out cx topic m of
                    (Inl rc, m) \<Rightarrow> Some (rc, m)
                  | (Inr t, m) \<Rightarrow> mosquitto_send_real_publish broker_app m mid (case t of None \<Rightarrow> topic | Some t \<Rightarrow> t) payloadlen payload qos retain dup)))"

text \<open>
  Sending one message that is not queued: the result, and the message as it is afterwards (\<open>None\<close>: taken
  out of the queue).
\<close>

definition write_msg :: "nat \<Rightarrow> nat \<Rightarrow> client_msg \<Rightarrow> db \<Rightarrow> (int \<times> client_msg option \<times> db) option" where
  "write_msg ci k msg db =
     do {
       cx \<leftarrow> get_ctx ci db;
       st \<leftarrow> db_heap db (cm_store msg);
       let publish = ctx_send ci (\<lambda>m. broker_send_publish cx (ctx_mount ci db) m (cm_mid msg) (m_topic (st_msg st))
             (of_int (m_payloadlen (st_msg st))) (m_payload (st_msg st)) (cm_qos msg) (cm_retain msg) (cm_dup msg));
       if cm_state msg = mosq_ms_publish_qos0 then do { (rc, db) \<leftarrow> publish db; Some (rc, None, db) }
       else if cm_state msg = mosq_ms_publish_qos1 then
         do { (rc, db) \<leftarrow> publish db;
              Some (rc, Some (msg\<lparr>cm_timestamp := db_now db, cm_dup := True, cm_state := mosq_ms_wait_for_puback\<rparr>), db) }
       else if cm_state msg = mosq_ms_publish_qos2 then
         do { (rc, db) \<leftarrow> publish db;
              Some (rc, Some (msg\<lparr>cm_timestamp := db_now db, cm_dup := True, cm_state := mosq_ms_wait_for_pubrec\<rparr>), db) }
       else if cm_state msg = mosq_ms_send_pubrec then
         do { (rc, db) \<leftarrow> ctx_send ci (\<lambda>m. mosquitto_send_pubrec broker_app m (cm_mid msg)) db;
              Some (rc, Some (msg\<lparr>cm_state := mosq_ms_wait_for_pubrel\<rparr>), db) }
       else if cm_state msg = mosq_ms_resend_pubrel then
         do { (rc, db) \<leftarrow> ctx_send ci (\<lambda>m. mosquitto_send_pubrel broker_app m (cm_mid msg) True) db;
              Some (rc, Some (msg\<lparr>cm_state := mosq_ms_wait_for_pubcomp\<rparr>), db) }
       else if cm_state msg = mosq_ms_resend_pubcomp then
         do { (rc, db) \<leftarrow> ctx_send ci (\<lambda>m. mosquitto_send_pubcomp broker_app m (cm_mid msg)) db;
              Some (rc, Some (msg\<lparr>cm_state := mosq_ms_wait_for_pubrel\<rparr>), db) }
       else Some (0, Some msg, db)
     }"

text \<open>
  The loop does not end for a queued incoming message that is not of QoS 2 and comes into the
  window.
\<close>

partial_function (option) write_loop :: "nat \<Rightarrow> nat \<Rightarrow> int \<Rightarrow> db \<Rightarrow> db_res" where
  "write_loop ci k msg_count db =
     do {
       cx \<leftarrow> get_ctx ci db;
       if k \<ge> length (cx_msgs cx) then Some (MOSQ_ERR_SUCCESS, db)
       else
         do {
           let msg = cx_msgs cx ! k;
           let msg_count = (if cm_direction msg = mosq_md_in then msg_count + 1 else msg_count);
           if cm_state msg \<noteq> mosq_ms_queued then
             do {
               (rc, res, db) \<leftarrow> write_msg ci k msg db;
               if rc \<noteq> 0 then Some (rc, db)
               else
                 (case res of
                    None \<Rightarrow> do { db \<leftarrow> message_remove ci k db; write_loop ci k msg_count db }
                  | Some m \<Rightarrow> write_loop ci (k + 1) msg_count (set_msg ci k (\<lambda>_. m) db))
             }
           else if cm_direction msg = mosq_md_in \<and> (db_max_inflight db = 0 \<or> msg_count < db_max_inflight db) then
             write_loop ci k msg_count
               (if cm_qos msg = 2 then set_msg ci k (\<lambda>m. m\<lparr>cm_state := mosq_ms_send_pubrec\<rparr>) db else db)
           else write_loop ci (k + 1) msg_count db
         }
     }"

declare write_loop.simps [code]

definition mqtt3_db_message_write :: "db \<Rightarrow> nat \<Rightarrow> db_res" where
  "mqtt3_db_message_write db ci =
     (case get_ctx ci db of
        None \<Rightarrow> Some (MOSQ_ERR_INVAL, db)
      | Some cx \<Rightarrow>
          if c_sock (cx_mosq cx) = -1 \<or> (c_state (cx_mosq cx) = mosq_cs_connected \<and> c_id (cx_mosq cx) = None)
          then Some (MOSQ_ERR_INVAL, db)
          else write_loop ci 0 0 db)"

section \<open>Example states\<close>

text \<open>Connected clients of a name, and a database as it is after opening, with such clients.\<close>

definition demo_ctx :: "string \<Rightarrow> ctx" where
  "demo_ctx name = \<lparr>cx_mosq = (mosq_calloc ())\<lparr>c_sock := 5, c_state := mosq_cs_connected, c_id := Some name\<rparr>,
     cx_msgs = [], cx_last_msg = Last_null, cx_msg_count = 0, cx_msg_count12 = 0, cx_is_dropping = False,
     cx_is_bridge = False, cx_bridge = None, cx_acl_list = None, cx_address = Some ''127.0.0.1'', cx_listener = None, cx_disconnect_t = 0\<rparr>"

definition demo_db :: "string list \<Rightarrow> db" where
  "demo_db names = \<lparr>db_last_db_id = 0, db_subs = [Subhier '''' [] None [], Subhier ''$SYS'' [] None []],
     db_acl_list = [], db_acl_patterns = [], db_contexts = map (\<lambda>n. Some (demo_ctx n)) names, db_heap = (\<lambda>_. None),
     db_msg_store = [], db_msg_store_count = 0,
     db_config = \<lparr>cf_allow_duplicate_messages = False, cf_queue_qos0_messages = False, cf_upgrade_outgoing_qos = False,
       cf_allow_anonymous = True, cf_allow_zero_length_clientid = True, cf_auto_id_prefix = [], cf_clientid_prefixes = None, cf_message_size_limit = 0,
       cf_persistent_client_expiration = 0, cf_retry_interval = 20, cf_store_clean_interval = 10\<rparr>,
     db_persistence_changes = 0, db_subscription_count = 0, db_retained_count = 0, db_max_inflight = 20, db_max_queued = 100,
     db_msgs_dropped = 0, db_now = 0, db_allocs = [], db_next = 0, db_plugin = None,
     db_plugin_unpwd = (\<lambda>_ _. 0), db_unpwd = [], db_clientid_index_hash = zip names [0..<length names], db_listeners = [], db_rand = []\<rparr>"

end
