(* ===== verification/Broker_Subs.thy ===== *)
theory Broker_Subs
  imports Broker_Db
begin

text \<open>
  The subscriptions of the broker: \<open>subs.c\<close>, with the access check of \<open>security_default.c\<close>, and the two
  functions of \<open>database.c\<close> that route messages.

  A topic is cut into tokens, and the tokens are a path in the tree of \<open>subhier\<close> nodes. The first
  token is also the name of the root's child, so that it occurs twice on the way from the root.
\<close>

section \<open>Access control\<close>

abbreviation MOSQ_ACL_READ :: int where "MOSQ_ACL_READ \<equiv> 1"

definition first_char :: "string \<Rightarrow> char" where
  "first_char s = (case s of [] \<Rightarrow> NUL | c # _ \<Rightarrow> c)"

text \<open>
  The entries of the client's user. \<open>result\<close> is not initialised; the matcher stores into it unless an argument
  is wrong.
\<close>

fun acl_list_loop :: "string \<Rightarrow> int \<Rightarrow> (string \<times> int) list \<Rightarrow> bool option \<Rightarrow> (bool \<times> bool option) option" where
  "acl_list_loop topic access [] result = Some (False, result)"
| "acl_list_loop topic access ((t, a) # r) result =
     (if first_char topic = DOLLAR \<and> first_char t \<noteq> DOLLAR then acl_list_loop topic access r result
      else
        do {
          let result = (case snd (mosquitto_topic_matches_sub (Some t) (Some topic) True) of Some b \<Rightarrow> Some b | None \<Rightarrow> result);
          b \<leftarrow> result;
          if b \<and> access AND a \<noteq> 0 then Some (True, result) else acl_list_loop topic access r result
        })"

text \<open>A pattern with the client's id and user name put in.\<close>

fun acl_subst :: "string \<Rightarrow> string \<Rightarrow> string \<Rightarrow> string" where
  "acl_subst cid user [] = []"
| "acl_subst cid user [x] = [x]"
| "acl_subst cid user (x # y # r) =
     (if x = CHR ''%'' \<and> y = CHR ''c'' then cid @ acl_subst cid user r
      else if x = CHR ''%'' \<and> y = CHR ''u'' then user @ acl_subst cid user r
      else x # acl_subst cid user (y # r))"

text \<open>
  The patterns. Without a user name the loop never ends on a pattern that has one, and reads NULL on
  any other. The result 1 stands for a failed allocation.
\<close>

fun acl_pattern_loop :: "unit mosq \<Rightarrow> string \<Rightarrow> int \<Rightarrow> (string \<times> int) list \<Rightarrow> bool option \<Rightarrow> db \<Rightarrow> db_res" where
  "acl_pattern_loop m topic access [] result db = Some (MOSQ_ERR_ACL_DENIED, db)"
| "acl_pattern_loop m topic access ((t, a) # r) result db =
     do {
       cid \<leftarrow> c_id m;
       user \<leftarrow> c_username m;
       (case db_alloc db of
          (False, db) \<Rightarrow> Some (1, db)
        | (True, db) \<Rightarrow>
            do {
              let result = (case snd (mosquitto_topic_matches_sub (Some (acl_subst cid user t)) (Some topic) True) of
                  Some b \<Rightarrow> Some b | None \<Rightarrow> result);
              b \<leftarrow> result;
              if b \<and> access AND a \<noteq> 0 then Some (MOSQ_ERR_SUCCESS, db) else acl_pattern_loop m topic access r result db
            })
     }"

definition mosquitto_acl_check_default :: "db \<Rightarrow> nat \<Rightarrow> string \<Rightarrow> int \<Rightarrow> db_res" where
  "mosquitto_acl_check_default db ci topic access =
     (case get_ctx ci db of
        None \<Rightarrow> Some (MOSQ_ERR_INVAL, db)
      | Some cx \<Rightarrow>
          if db_acl_list db = [] \<and> db_acl_patterns db = [] then Some (MOSQ_ERR_SUCCESS, db)
          else if cx_bridge cx \<noteq> None then Some (MOSQ_ERR_SUCCESS, db)
          else if cx_acl_list cx = None \<and> db_acl_patterns db = [] then Some (MOSQ_ERR_ACL_DENIED, db)
          else
            do {
              (allowed, result) \<leftarrow> acl_list_loop topic access (case cx_acl_list cx of None \<Rightarrow> [] | Some l \<Rightarrow> l) None;
              if allowed then Some (MOSQ_ERR_SUCCESS, db)
              else do { cid \<leftarrow> c_id (cx_mosq cx); acl_pattern_loop (cx_mosq cx) topic access (db_acl_patterns db) result db }
            })"

text \<open>A plugin is a library that the administrator adds: what it answers is a field of the database.\<close>

definition mosquitto_acl_check :: "db \<Rightarrow> nat \<Rightarrow> string \<Rightarrow> int \<Rightarrow> db_res" where
  "mosquitto_acl_check db ci topic access =
     (case db_plugin db of
        None \<Rightarrow> mosquitto_acl_check_default db ci topic access
      | Some acl_check \<Rightarrow>
          do { cx \<leftarrow> get_ctx ci db; Some (acl_check (c_id (cx_mosq cx)) (c_username (cx_mosq cx)) topic access, db) })"

section \<open>Tokens\<close>

text \<open>One token more: the structure and its string.\<close>

definition new_token :: "db \<Rightarrow> bool \<times> db" where
  "new_token db = (case db_alloc db of (False, db) \<Rightarrow> (False, db) | (True, db) \<Rightarrow> db_alloc db)"

text \<open>
  The loop over the characters, with the token that is being read and the tokens that are done. A
  separator and the end of the string finish a token.
\<close>

fun sub_token_loop :: "string \<Rightarrow> string \<Rightarrow> string list \<Rightarrow> db \<Rightarrow> string list option \<times> db" where
  "sub_token_loop [] cur tokens db = (case new_token db of (b, db) \<Rightarrow> (if b then Some (tokens @ [cur]) else None, db))"
| "sub_token_loop (c # s) cur tokens db =
     (if c = SEP then
        (case new_token db of
           (False, db) \<Rightarrow> (None, db)
         | (True, db) \<Rightarrow> sub_token_loop s [] (tokens @ [cur]) db)
      else sub_token_loop s (cur @ [c]) tokens db)"

text \<open>
  A topic that does not start with a dollar sign gets an empty token in front. For one that starts with a
  separator another empty token replaces it, and the separator is skipped.
\<close>

definition sub_topic_tokenise :: "string \<Rightarrow> db \<Rightarrow> string list option \<times> db" where
  "sub_topic_tokenise subtopic db =
     (case (if first_char subtopic \<noteq> DOLLAR then new_token db else (True, db)) of
        (False, db) \<Rightarrow> (None, db)
      | (True, db) \<Rightarrow>
          if first_char subtopic = SEP then
            (case new_token db of
               (False, db) \<Rightarrow> (None, db)
             | (True, db) \<Rightarrow> sub_token_loop (tl subtopic) [] [[]] db)
          else sub_token_loop subtopic [] (if first_char subtopic \<noteq> DOLLAR then [[]] else []) db)"

section \<open>Adding and removing\<close>

text \<open>The subscription list of a node: a client that is there gets the new QoS (result \<open>-1\<close>).\<close>

fun leaf_add :: "db \<Rightarrow> string \<Rightarrow> nat \<Rightarrow> int \<Rightarrow> (nat \<times> int) list \<Rightarrow> (int \<times> (nat \<times> int) list \<times> db) option" where
  "leaf_add db cid ci qos [] =
     Some (case db_alloc db of
        (False, db) \<Rightarrow> (MOSQ_ERR_NOMEM, [], db)
      | (True, db) \<Rightarrow> (MOSQ_ERR_SUCCESS, [(ci, qos)], db\<lparr>db_subscription_count := db_subscription_count db + 1\<rparr>))"
| "leaf_add db cid ci qos ((cj, q) # r) =
     do {
       cx \<leftarrow> get_ctx cj db;
       cid' \<leftarrow> c_id (cx_mosq cx);
       if cid' = cid then Some (-1, (cj, qos) # r, db)
       else do { (rc, r, db) \<leftarrow> leaf_add db cid ci qos r; Some (rc, (cj, q) # r, db) }
     }"

function (sequential) sub_add :: "db \<Rightarrow> nat option \<Rightarrow> int \<Rightarrow> subhier \<Rightarrow> string list \<Rightarrow> (int \<times> subhier \<times> db) option"
  and sub_add_children :: "db \<Rightarrow> nat option \<Rightarrow> int \<Rightarrow> subhier list \<Rightarrow> string \<Rightarrow> string list \<Rightarrow> (int \<times> subhier list \<times> db) option" where
  "sub_add db context qos (Subhier t subs ret ch) [] =
     (case context of
        None \<Rightarrow> Some (MOSQ_ERR_SUCCESS, Subhier t subs ret ch, db)
      | Some ci \<Rightarrow>
          do {
            cx \<leftarrow> get_ctx ci db;
            if subs = [] then do { (rc, subs, db) \<leftarrow> leaf_add db [] ci qos []; Some (rc, Subhier t subs ret ch, db) }
            else
              do {
                cid \<leftarrow> c_id (cx_mosq cx);
                (rc, subs, db) \<leftarrow> leaf_add db cid ci qos subs;
                Some (rc, Subhier t subs ret ch, db)
              }
          })"
| "sub_add db context qos (Subhier t subs ret ch) (tok # toks) =
     do { (rc, ch, db) \<leftarrow> sub_add_children db context qos ch tok toks; Some (rc, Subhier t subs ret ch, db) }"
| "sub_add_children db context qos [] tok toks =
     (case db_alloc db of
        (False, db) \<Rightarrow> Some (MOSQ_ERR_NOMEM, [], db)
      | (True, db) \<Rightarrow>
          (case db_alloc db of
             (False, db) \<Rightarrow> Some (MOSQ_ERR_NOMEM, [], db)
           | (True, db) \<Rightarrow>
               do { (rc, b, db) \<leftarrow> sub_add db context qos (Subhier tok [] None []) toks; Some (rc, [b], db) }))"
| "sub_add_children db context qos (b # bs) tok toks =
     (if sh_topic b = tok then do { (rc, b, db) \<leftarrow> sub_add db context qos b toks; Some (rc, b # bs, db) }
      else do { (rc, bs, db) \<leftarrow> sub_add_children db context qos bs tok toks; Some (rc, b # bs, db) })"
  by pat_completeness auto
termination
  by (relation "measures [\<lambda>x. case x of Inl (_, _, _, _, toks) \<Rightarrow> length toks | Inr (_, _, _, _, _, toks) \<Rightarrow> length toks,
      \<lambda>x. case x of Inl _ \<Rightarrow> 0 | Inr (_, _, _, bs, _, _) \<Rightarrow> Suc (length bs)]") auto

fun leaf_remove :: "nat \<Rightarrow> (nat \<times> int) list \<Rightarrow> db \<Rightarrow> (nat \<times> int) list \<times> db" where
  "leaf_remove ci [] db = ([], db)"
| "leaf_remove ci ((cj, q) # r) db =
     (if cj = ci then (r, db\<lparr>db_subscription_count := db_subscription_count db - 1\<rparr>)
      else case leaf_remove ci r db of (r, db) \<Rightarrow> ((cj, q) # r, db))"

definition node_empty :: "subhier \<Rightarrow> bool" where
  "node_empty h \<longleftrightarrow> sh_children h = [] \<and> sh_subs h = [] \<and> sh_retained h = None"

function (sequential) sub_remove :: "nat \<Rightarrow> subhier \<Rightarrow> string list \<Rightarrow> db \<Rightarrow> subhier \<times> db"
  and sub_remove_children :: "nat \<Rightarrow> subhier list \<Rightarrow> string \<Rightarrow> string list \<Rightarrow> db \<Rightarrow> subhier list \<times> db" where
  "sub_remove ci (Subhier t subs ret ch) [] db =
     (case leaf_remove ci subs db of (subs, db) \<Rightarrow> (Subhier t subs ret ch, db))"
| "sub_remove ci (Subhier t subs ret ch) (tok # toks) db =
     (case sub_remove_children ci ch tok toks db of (ch, db) \<Rightarrow> (Subhier t subs ret ch, db))"
| "sub_remove_children ci [] tok toks db = ([], db)"
| "sub_remove_children ci (b # bs) tok toks db =
     (if sh_topic b = tok
      then (case sub_remove ci b toks db of (b, db) \<Rightarrow> (if node_empty b then bs else b # bs, db))
      else (case sub_remove_children ci bs tok toks db of (bs, db) \<Rightarrow> (b # bs, db)))"
  by pat_completeness auto
termination
  by (relation "measures [\<lambda>x. case x of Inl (_, _, toks, _) \<Rightarrow> length toks | Inr (_, _, _, toks, _) \<Rightarrow> length toks,
      \<lambda>x. case x of Inl _ \<Rightarrow> 0 | Inr (_, bs, _, _, _) \<Rightarrow> Suc (length bs)]") auto

text \<open>
  The tokens also name the child of the root. A first token without such a child gets a new one, which
  replaces all children of the root.
\<close>

fun root_add :: "db \<Rightarrow> nat \<Rightarrow> int \<Rightarrow> subhier list \<Rightarrow> string \<Rightarrow> string list \<Rightarrow> (int \<times> subhier list \<times> db) option option" where
  "root_add db ci qos [] tok toks = None"
| "root_add db ci qos (h # hs) tok toks =
     (if sh_topic h = tok
      then Some (do { (rc, h, db) \<leftarrow> sub_add db (Some ci) qos h (tok # toks); Some (rc, h # hs, db) })
      else map_option (\<lambda>res. do { (rc, hs, db) \<leftarrow> res; Some (rc, h # hs, db) }) (root_add db ci qos hs tok toks))"

definition mqtt3_sub_add :: "db \<Rightarrow> nat \<Rightarrow> string \<Rightarrow> int \<Rightarrow> db_res" where
  "mqtt3_sub_add db ci sub qos =
     (case sub_topic_tokenise sub db of
        (None, db) \<Rightarrow> Some (1, db)
      | (Some tokens, db) \<Rightarrow>
          (case root_add db ci qos (db_subs db) (hd tokens) (tl tokens) of
             Some res \<Rightarrow>
               do { (rc, hs, db) \<leftarrow> res; Some (if rc = -1 then MOSQ_ERR_SUCCESS else rc, db\<lparr>db_subs := hs\<rparr>) }
           | None \<Rightarrow>
               (case new_token db of
                  (False, db) \<Rightarrow> Some (MOSQ_ERR_NOMEM, db)
                | (True, db) \<Rightarrow>
                    do {
                      (rc, h, db) \<leftarrow> sub_add db (Some ci) qos (Subhier (hd tokens) [] None []) tokens;
                      Some (if rc = -1 then MOSQ_ERR_SUCCESS else rc, db\<lparr>db_subs := [h]\<rparr>)
                    })))"

fun root_remove :: "nat \<Rightarrow> subhier list \<Rightarrow> string list \<Rightarrow> db \<Rightarrow> subhier list \<times> db" where
  "root_remove ci [] tokens db = ([], db)"
| "root_remove ci (h # hs) tokens db =
     (if sh_topic h = hd tokens then (case sub_remove ci h tokens db of (h, db) \<Rightarrow> (h # hs, db))
      else (case root_remove ci hs tokens db of (hs, db) \<Rightarrow> (h # hs, db)))"

definition mqtt3_sub_remove :: "db \<Rightarrow> nat \<Rightarrow> string \<Rightarrow> int \<times> db" where
  "mqtt3_sub_remove db ci sub =
     (case sub_topic_tokenise sub db of
        (None, db) \<Rightarrow> (1, db)
      | (Some tokens, db) \<Rightarrow>
          (case root_remove ci (db_subs db) tokens db of (hs, db) \<Rightarrow> (MOSQ_ERR_SUCCESS, db\<lparr>db_subs := hs\<rparr>)))"

text \<open>All subscriptions of a client are removed, and the nodes that become empty.\<close>

fun clean_leaves :: "nat \<Rightarrow> (nat \<times> int) list \<Rightarrow> db \<Rightarrow> (nat \<times> int) list \<times> db" where
  "clean_leaves ci [] db = ([], db)"
| "clean_leaves ci ((cj, q) # r) db =
     (if cj = ci then clean_leaves ci r (db\<lparr>db_subscription_count := db_subscription_count db - 1\<rparr>)
      else case clean_leaves ci r db of (r, db) \<Rightarrow> ((cj, q) # r, db))"

fun clean_session :: "nat \<Rightarrow> subhier \<Rightarrow> db \<Rightarrow> subhier \<times> db"
  and clean_children :: "nat \<Rightarrow> subhier list \<Rightarrow> db \<Rightarrow> subhier list \<times> db" where
  "clean_session ci (Subhier t subs ret ch) db =
     (case clean_leaves ci subs db of (subs, db) \<Rightarrow>
        (case clean_children ci ch db of (ch, db) \<Rightarrow> (Subhier t subs ret ch, db)))"
| "clean_children ci [] db = ([], db)"
| "clean_children ci (b # bs) db =
     (case clean_session ci b db of (b, db) \<Rightarrow>
        (case clean_children ci bs db of (bs, db) \<Rightarrow> (if node_empty b then bs else b # bs, db)))"

fun clean_roots :: "nat \<Rightarrow> subhier list \<Rightarrow> db \<Rightarrow> subhier list \<times> db" where
  "clean_roots ci [] db = ([], db)"
| "clean_roots ci (h # hs) db =
     (case clean_session ci h db of (h, db) \<Rightarrow> (case clean_roots ci hs db of (hs, db) \<Rightarrow> (h # hs, db)))"

definition mqtt3_subs_clean_session :: "db \<Rightarrow> nat \<Rightarrow> int \<times> db" where
  "mqtt3_subs_clean_session db ci =
     (case clean_roots ci (db_subs db) db of (hs, db) \<Rightarrow> (MOSQ_ERR_SUCCESS, db\<lparr>db_subs := hs\<rparr>))"

section \<open>Routing\<close>

text \<open>A message on its way, with the arguments that do not change.\<close>

record pub =
  pb_source :: "string option"
  pb_topic :: string
  pb_qos :: int
  pb_retain :: bool
  pb_stored :: nat

definition ctx_mid :: "nat \<Rightarrow> db \<Rightarrow> (u16 \<times> db) option" where
  "ctx_mid ci db =
     do {
       cx \<leftarrow> get_ctx ci db;
       let (mid, m) = mosquitto_mid_generate (cx_mosq cx);
       Some (mid, put_ctx ci (cx\<lparr>cx_mosq := m\<rparr>) db)
     }"

text \<open>One subscription: not back to the bridge it came from, with the access check, at the lower QoS.\<close>

definition process_leaf :: "pub \<Rightarrow> nat \<Rightarrow> int \<Rightarrow> int \<Rightarrow> db \<Rightarrow> db_res" where
  "process_leaf pb ci client_qos rc db =
     do {
       cx \<leftarrow> get_ctx ci db;
       back \<leftarrow> (if cx_is_bridge cx then do { cid \<leftarrow> c_id (cx_mosq cx); Some (pb_source pb = Some cid) } else Some False);
       if back then Some (rc, db)
       else
         do {
           (rc2, db) \<leftarrow> mosquitto_acl_check db ci (pb_topic pb) MOSQ_ACL_READ;
           if rc2 = MOSQ_ERR_ACL_DENIED then Some (rc, db)
           else if rc2 = MOSQ_ERR_SUCCESS then
             do {
               let msg_qos = (if cf_upgrade_outgoing_qos (db_config db) then client_qos
                   else if pb_qos pb > client_qos then client_qos else pb_qos pb);
               (mid, db) \<leftarrow> (if msg_qos \<noteq> 0 then ctx_mid ci db else Some (0, db));
               (rc3, db) \<leftarrow> mqtt3_db_message_insert db ci mid mosq_md_out msg_qos (cx_is_bridge cx \<and> pb_retain pb) (pb_stored pb);
               Some (if rc3 = 1 then 1 else rc, db)
             }
           else Some (1, db)
         }
     }"

fun process_leaves :: "pub \<Rightarrow> (nat \<times> int) list \<Rightarrow> int \<Rightarrow> db \<Rightarrow> db_res" where
  "process_leaves pb [] rc db = Some (rc, db)"
| "process_leaves pb ((ci, client_qos) # r) rc db =
     do { (rc, db) \<leftarrow> process_leaf pb ci client_qos rc db; process_leaves pb r rc db }"

text \<open>The retained message of a node is replaced, or cleared by an empty payload.\<close>

definition set_retained :: "pub \<Rightarrow> nat option \<Rightarrow> db \<Rightarrow> (nat option \<times> db) option" where
  "set_retained pb old db =
     do {
       let db = (if take 4 (pb_topic pb) \<noteq> ''$SYS'' then db\<lparr>db_persistence_changes := db_persistence_changes db + 1\<rparr> else db);
       db \<leftarrow> (case old of
           None \<Rightarrow> Some db
         | Some r \<Rightarrow> do { db \<leftarrow> add_ref r (-1) db; Some (db\<lparr>db_retained_count := db_retained_count db - 1\<rparr>) });
       st \<leftarrow> db_heap db (pb_stored pb);
       if m_payloadlen (st_msg st) \<noteq> 0
       then do { db \<leftarrow> add_ref (pb_stored pb) 1 db;
                 Some (Some (pb_stored pb), db\<lparr>db_retained_count := db_retained_count db + 1\<rparr>) }
       else Some (None, db)
     }"

definition subs_process :: "pub \<Rightarrow> subhier \<Rightarrow> bool \<Rightarrow> db \<Rightarrow> (int \<times> subhier \<times> db) option" where
  "subs_process pb h sr db =
     (case h of Subhier t subs ret ch \<Rightarrow>
        do {
          (ret, db) \<leftarrow> (if pb_retain pb \<and> sr then set_retained pb ret db else Some (ret, db));
          (rc, db) \<leftarrow> (if pb_source pb = None then Some (0, db) else process_leaves pb subs 0 db);
          Some (rc, Subhier t subs ret ch, db)
        })"

fun sub_search :: "pub \<Rightarrow> subhier list \<Rightarrow> string list \<Rightarrow> bool \<Rightarrow> db \<Rightarrow> (subhier list \<times> db) option" where
  "sub_search pb [] tokens sr db = Some ([], db)"
| "sub_search pb (Subhier t subs ret ch # bs) tokens sr db =
     do {
       (b, db) \<leftarrow>
         (if tokens \<noteq> [] \<and> (t = hd tokens \<or> t = [PLUS]) then
            do {
              let sr = (t \<noteq> [PLUS] \<and> sr);
              (ch, db) \<leftarrow> sub_search pb ch (tl tokens) sr db;
              if tl tokens = []
              then do { (rc, b, db) \<leftarrow> subs_process pb (Subhier t subs ret ch) sr db; Some (b, db) }
              else Some (Subhier t subs ret ch, db)
            }
          else if t = [HASH] \<and> ch = [] then
            do { (rc, b, db) \<leftarrow> subs_process pb (Subhier t subs ret ch) False db; Some (b, db) }
          else Some (Subhier t subs ret ch, db));
       (bs, db) \<leftarrow> sub_search pb bs tokens sr db;
       Some (b # bs, db)
     }"

fun queue_roots :: "pub \<Rightarrow> subhier list \<Rightarrow> string list \<Rightarrow> db \<Rightarrow> (subhier list \<times> db) option" where
  "queue_roots pb [] tokens db = Some ([], db)"
| "queue_roots pb (h # hs) tokens db =
     do {
       (h, db) \<leftarrow>
         (if sh_topic h = hd tokens then
            do {
              (rc, h, db) \<leftarrow> (if pb_retain pb then sub_add db None 0 h tokens else Some (0, h, db));
              (ch, db) \<leftarrow> sub_search pb (sh_children h) tokens True db;
              Some (Subhier (sh_topic h) (sh_subs h) (sh_retained h) ch, db)
            }
          else Some (h, db));
       (hs, db) \<leftarrow> queue_roots pb hs tokens db;
       Some (h # hs, db)
     }"

definition mqtt3_db_messages_queue :: "db \<Rightarrow> string option \<Rightarrow> string \<Rightarrow> int \<Rightarrow> bool \<Rightarrow> nat \<Rightarrow> db_res" where
  "mqtt3_db_messages_queue db source_id topic qos retain stored =
     (case sub_topic_tokenise topic db of
        (None, db) \<Rightarrow> Some (1, db)
      | (Some tokens, db) \<Rightarrow>
          do {
            (hs, db) \<leftarrow> queue_roots \<lparr>pb_source = source_id, pb_topic = topic, pb_qos = qos, pb_retain = retain, pb_stored = stored\<rparr>
              (db_subs db) tokens db;
            Some (0, db\<lparr>db_subs := hs\<rparr>)
          })"

section \<open>Retained messages for a new subscription\<close>

definition retain_process :: "nat \<Rightarrow> nat \<Rightarrow> int \<Rightarrow> db \<Rightarrow> db_res" where
  "retain_process retained ci sub_qos db =
     do {
       st \<leftarrow> db_heap db retained;
       topic \<leftarrow> m_topic (st_msg st);
       (rc, db) \<leftarrow> mosquitto_acl_check db ci topic MOSQ_ACL_READ;
       if rc = MOSQ_ERR_ACL_DENIED then Some (MOSQ_ERR_SUCCESS, db)
       else if rc \<noteq> MOSQ_ERR_SUCCESS then Some (rc, db)
       else
         do {
           let qos = (if m_qos (st_msg st) > sub_qos then sub_qos else m_qos (st_msg st));
           (mid, db) \<leftarrow> (if qos > 0 then ctx_mid ci db else Some (0, db));
           mqtt3_db_message_insert db ci mid mosq_md_out qos True retained
         }
     }"

definition retain_node :: "subhier \<Rightarrow> nat \<Rightarrow> int \<Rightarrow> db \<Rightarrow> db option" where
  "retain_node h ci sub_qos db =
     (case sh_retained h of None \<Rightarrow> Some db | Some r \<Rightarrow> do { (rc, db) \<leftarrow> retain_process r ci sub_qos db; Some db })"

text \<open>The flag \<open>-1\<close> says that the subscription ends with the wildcard for all levels.\<close>

fun retain_search :: "nat \<Rightarrow> int \<Rightarrow> subhier list \<Rightarrow> string list \<Rightarrow> nat \<Rightarrow> int \<Rightarrow> db \<Rightarrow> db_res" where
  "retain_search ci sub_qos [] tokens level flag db = Some (flag, db)"
| "retain_search ci sub_qos (Subhier t subs ret ch # bs) tokens level flag db =
     (if tokens = [] then None
      else
        do {
          (flag, db) \<leftarrow>
            (if hd tokens = [HASH] \<and> tl tokens = [] then
               do {
                 db \<leftarrow> retain_node (Subhier t subs ret ch) ci sub_qos db;
                 (f, db) \<leftarrow> (if ch = [] then Some (0, db) else retain_search ci sub_qos ch tokens (level + 1) 0 db);
                 Some (-1, db)
               }
             else if t \<noteq> [PLUS] \<and> (t = hd tokens \<or> hd tokens = [PLUS]) then
               if tl tokens \<noteq> [] then
                 do {
                   (f, db) \<leftarrow> retain_search ci sub_qos ch (tl tokens) (level + 1) 0 db;
                   db \<leftarrow> (if f = -1 \<or> (bs = [] \<and> hd (tl tokens) = [HASH] \<and> level > 0)
                         then retain_node (Subhier t subs ret ch) ci sub_qos db else Some db);
                   Some (flag, db)
                 }
               else do { db \<leftarrow> retain_node (Subhier t subs ret ch) ci sub_qos db; Some (flag, db) }
             else Some (flag, db));
          retain_search ci sub_qos bs tokens level flag db
        })"

fun retain_roots :: "nat \<Rightarrow> int \<Rightarrow> subhier list \<Rightarrow> string list \<Rightarrow> db \<Rightarrow> db option" where
  "retain_roots ci sub_qos [] tokens db = Some db"
| "retain_roots ci sub_qos (h # hs) tokens db =
     (if sh_topic h = hd tokens
      then do { (flag, db) \<leftarrow> retain_search ci sub_qos (sh_children h) tokens 0 0 db; Some db }
      else retain_roots ci sub_qos hs tokens db)"

definition mqtt3_retain_queue :: "db \<Rightarrow> nat \<Rightarrow> string \<Rightarrow> int \<Rightarrow> db_res" where
  "mqtt3_retain_queue db ci sub sub_qos =
     (case sub_topic_tokenise sub db of
        (None, db) \<Rightarrow> Some (1, db)
      | (Some tokens, db) \<Rightarrow> do { db \<leftarrow> retain_roots ci sub_qos (db_subs db) tokens db; Some (MOSQ_ERR_SUCCESS, db) })"

section \<open>Publishing\<close>

definition mqtt3_db_messages_easy_queue :: "db \<Rightarrow> nat option \<Rightarrow> string option \<Rightarrow> int \<Rightarrow> u32 \<Rightarrow> u8 list option \<Rightarrow> bool \<Rightarrow> db_res" where
  "mqtt3_db_messages_easy_queue db context topic qos payloadlen payload retain =
     (case topic of
        None \<Rightarrow> Some (MOSQ_ERR_INVAL, db)
      | Some topic \<Rightarrow>
          do {
            source_id \<leftarrow> (case context of None \<Rightarrow> Some (Some []) | Some ci \<Rightarrow> do { cx \<leftarrow> get_ctx ci db; Some (c_id (cx_mosq cx)) });
            (rc, stored, db) \<leftarrow> mqtt3_db_message_store db source_id 0 (Some topic) qos payloadlen payload retain 0;
            if rc \<noteq> 0 then Some (1, db)
            else do { stored \<leftarrow> stored; mqtt3_db_messages_queue db source_id topic qos retain stored }
          })"

text \<open>
  A QoS 2 message is complete: it is routed, and taken out of the queue of its sender. The queue may grow
  while the message is routed. The steps of the loop: a queued message comes into the window, and the message itself is
  routed.
\<close>

definition release_start :: "nat \<Rightarrow> nat \<Rightarrow> client_msg \<Rightarrow> int \<Rightarrow> db \<Rightarrow> db option" where
  "release_start ci k msg msg_index db =
     (if cm_state msg = mosq_ms_queued \<and> msg_index \<le> db_max_inflight db then
        (if cm_direction msg = mosq_md_in \<and> cm_qos msg = 2
         then do { (rc, db) \<leftarrow> ctx_send ci (\<lambda>m. mosquitto_send_pubrec broker_app m (cm_mid msg)) db;
                   Some (set_msg ci k (unqueue (db_now db)) db) }
         else Some (set_msg ci k (unqueue (db_now db)) db))
      else Some db)"

definition release_route :: "client_msg \<Rightarrow> db \<Rightarrow> db_res" where
  "release_route msg db =
     do {
       st \<leftarrow> db_heap db (cm_store msg);
       (case m_topic (st_msg st) of
          None \<Rightarrow> Some (0, db)
        | Some topic \<Rightarrow> mqtt3_db_messages_queue db (Some (st_source_id st)) topic (m_qos (st_msg st)) (cm_retain msg) (cm_store msg))
     }"

partial_function (option) release_loop :: "nat \<Rightarrow> u16 \<Rightarrow> msg_direction \<Rightarrow> nat \<Rightarrow> int \<Rightarrow> bool \<Rightarrow> db \<Rightarrow> db_res" where
  "release_loop ci mid dir k msg_index deleted db =
     do {
       cx \<leftarrow> get_ctx ci db;
       if k \<ge> length (cx_msgs cx) then Some (if deleted then MOSQ_ERR_SUCCESS else 1, db)
       else
         do {
           let msg = cx_msgs cx ! k;
           let msg_index = msg_index + 1;
           db \<leftarrow> release_start ci k msg msg_index db;
           if cm_mid msg = mid \<and> cm_direction msg = dir then
             do {
               (rc, db) \<leftarrow> release_route msg db;
               if rc \<noteq> 0 then Some (1, db)
               else
                 do {
                   db \<leftarrow> message_remove ci k db;
                   if msg_index > db_max_inflight db then Some (MOSQ_ERR_SUCCESS, db)
                   else release_loop ci mid dir k msg_index True db
                 }
             }
           else if msg_index > db_max_inflight db \<and> deleted then Some (MOSQ_ERR_SUCCESS, db)
           else release_loop ci mid dir (k + 1) msg_index deleted db
         }
     }"

declare release_loop.simps [code]

definition mqtt3_db_message_release :: "db \<Rightarrow> nat \<Rightarrow> u16 \<Rightarrow> msg_direction \<Rightarrow> db_res" where
  "mqtt3_db_message_release db ci mid dir =
     (case get_ctx ci db of None \<Rightarrow> Some (MOSQ_ERR_INVAL, db) | Some cx \<Rightarrow> release_loop ci mid dir 0 0 False db)"

end
