(* ===== verification/Broker_Tree.thy ===== *)
theory Broker_Tree
  imports Broker_Subs
begin

text \<open>
  The subscription tree against its specification, a finite map from a list of tokens and a client to
  a QoS: subscribing, unsubscribing and cleaning a session are updates of that map, whatever the shape
  of the tree. The locale \<open>sub_index\<close> is that contract, and lifts it to sequences of operations.
\<close>

section \<open>Tokens\<close>

lemma db_alloc_Nil [simp]: "db_allocs db = [] \<Longrightarrow> db_alloc db = (True, db)"
  by (cases db) (simp add: db_alloc_def)

lemma new_token_Nil [simp]: "db_allocs db = [] \<Longrightarrow> new_token db = (True, db)"
  by (simp add: new_token_def)

text \<open>What the broker makes of a topic: its levels, with an empty token in front of all but the topics with a dollar sign.\<close>

definition tokens_of :: "string \<Rightarrow> string list" where
  "tokens_of s =
     (if first_char s = DOLLAR then split_on SEP s
      else [] # split_on SEP (if first_char s = SEP then tl s else s))"

lemma tokens_of_neq_Nil [simp]: "tokens_of s \<noteq> []"
  by (simp add: tokens_of_def)

lemma sub_token_loop_split:
  assumes "db_allocs db = []"
  shows "sub_token_loop s cur toks db = (Some (toks @ (cur @ hd (split_on SEP s)) # tl (split_on SEP s)), db)"
  using assms by (induction s cur toks db rule: sub_token_loop.induct) (auto split: list.splits)

lemma first_char_simps [simp]: "first_char [] = NUL" "first_char (c # s) = c"
  by (simp_all add: first_char_def)

lemma sub_topic_tokenise_tokens:
  assumes "db_allocs db = []"
  shows "sub_topic_tokenise s db = (Some (tokens_of s), db)"
  using assms by (auto simp: sub_topic_tokenise_def tokens_of_def sub_token_loop_split hd_Cons_tl)

section \<open>The subscriptions of a tree\<close>

text \<open>The subscriptions at the end of a path, and those of the database for a list of tokens.\<close>

function (sequential) node_subs :: "subhier \<Rightarrow> string list \<Rightarrow> (nat \<times> int) list"
  and child_subs :: "subhier list \<Rightarrow> string \<Rightarrow> string list \<Rightarrow> (nat \<times> int) list" where
  "node_subs (Subhier t subs ret ch) [] = subs"
| "node_subs (Subhier t subs ret ch) (tok # toks) = child_subs ch tok toks"
| "child_subs [] tok toks = []"
| "child_subs (b # bs) tok toks = (if sh_topic b = tok then node_subs b toks else child_subs bs tok toks)"
  by pat_completeness auto
termination
  by (relation "measures [\<lambda>x. case x of Inl (_, toks) \<Rightarrow> length toks | Inr (_, _, toks) \<Rightarrow> length toks,
      \<lambda>x. case x of Inl _ \<Rightarrow> 0 | Inr (bs, _, _) \<Rightarrow> Suc (length bs)]") auto

fun root_subs :: "subhier list \<Rightarrow> string list \<Rightarrow> (nat \<times> int) list" where
  "root_subs [] toks = []"
| "root_subs (h # hs) toks =
     (if toks \<noteq> [] \<and> sh_topic h = hd toks then node_subs h toks else root_subs hs toks)"

type_synonym sub_map = "string list \<times> nat \<Rightarrow> int option"

definition subscriptions :: "db \<Rightarrow> sub_map" where
  "subscriptions db = (\<lambda>(toks, ci). map_of (root_subs (db_subs db) toks) ci)"

text \<open>Siblings have different names, and a node has one subscription per client.\<close>

fun tree_ok :: "subhier list \<Rightarrow> bool" where
  "tree_ok [] = True"
| "tree_ok (Subhier t subs ret ch # bs) \<longleftrightarrow>
     t \<notin> sh_topic ` set bs \<and> distinct (map fst subs) \<and> tree_ok ch \<and> tree_ok bs"

text \<open>The clients of a tree.\<close>

fun tree_clients :: "subhier list \<Rightarrow> nat set" where
  "tree_clients [] = {}"
| "tree_clients (Subhier t subs ret ch # bs) = fst ` set subs \<union> tree_clients ch \<union> tree_clients bs"

text \<open>Contexts have an id, and no two have the same.\<close>

definition ctx_id :: "db \<Rightarrow> nat \<Rightarrow> string option" where
  "ctx_id db ci = do { cx \<leftarrow> get_ctx ci db; c_id (cx_mosq cx) }"

definition ctx_ids :: "db \<Rightarrow> string list" where
  "ctx_ids db = List.map_filter (\<lambda>c. do { cx \<leftarrow> c; c_id (cx_mosq cx) }) (db_contexts db)"

definition ids_ok :: "db \<Rightarrow> bool" where
  "ids_ok db \<longleftrightarrow> distinct (ctx_ids db)"

definition tree_inv :: "db \<Rightarrow> bool" where
  "tree_inv db \<longleftrightarrow> tree_ok (db_subs db) \<and> (\<forall>ci \<in> tree_clients (db_subs db). ctx_id db ci \<noteq> None) \<and> ids_ok db"

lemma node_ok_simps: "tree_ok (h # hs) \<longleftrightarrow> sh_topic h \<notin> sh_topic ` set hs \<and> distinct (map fst (sh_subs h))
    \<and> tree_ok (sh_children h) \<and> tree_ok hs"
  by (cases h) simp

lemma node_clients_simps: "tree_clients (h # hs) = fst ` set (sh_subs h) \<union> tree_clients (sh_children h) \<union> tree_clients hs"
  by (cases h) simp

lemma map_filter_distinct_nth:
  "\<lbrakk>distinct (List.map_filter f xs); i < length xs; j < length xs; f (xs ! i) = Some a; f (xs ! j) = Some a\<rbrakk> \<Longrightarrow> i = j"
proof (induction xs arbitrary: i j)
  case (Cons x xs)
  have in_set: "a \<in> set (List.map_filter f xs)" if "k < length xs" "f (xs ! k) = Some a" for k
    using that by (force simp: List.map_filter_def)
  show ?case
    using Cons in_set by (cases i; cases j) (auto simp: List.map_filter_simps split: option.splits)
qed simp

lemma ctx_id_nth: "ctx_id db ci = Some cid \<Longrightarrow>
    ci < length (db_contexts db) \<and> do { cx \<leftarrow> db_contexts db ! ci; c_id (cx_mosq cx) } = Some cid"
  by (auto simp: ctx_id_def get_ctx_def split: if_splits)

lemma ids_subs_update [simp]: "ctx_id (db\<lparr>db_subs := hs\<rparr>) = ctx_id db" "ids_ok (db\<lparr>db_subs := hs\<rparr>) = ids_ok db"
  by (simp_all add: ctx_id_def ids_ok_def ctx_ids_def get_ctx_def fun_eq_iff)

lemma ids_okD: "\<lbrakk>ids_ok db; ctx_id db ci = Some cid; ctx_id db cj = Some cid\<rbrakk> \<Longrightarrow> ci = cj"
  unfolding ids_ok_def ctx_ids_def by (drule map_filter_distinct_nth) (auto dest: ctx_id_nth)

section \<open>Subscribing\<close>

text \<open>The operations on the tree change of the database the number of subscriptions and the allocator.\<close>

definition sub_only :: "db \<Rightarrow> db \<Rightarrow> bool" where
  "sub_only db db' \<longleftrightarrow> db' = db\<lparr>db_allocs := db_allocs db', db_subscription_count := db_subscription_count db'\<rparr>
     \<and> (db_allocs db = [] \<longrightarrow> db_allocs db' = [])"

lemma sub_only_refl [simp, intro]: "sub_only db db"
  by (simp add: sub_only_def)

lemma sub_only_trans: "\<lbrakk>sub_only a b; sub_only b c\<rbrakk> \<Longrightarrow> sub_only a c"
  unfolding sub_only_def by (cases a; cases b; cases c) simp

lemma sub_only_updates [simp]: "sub_only db (db\<lparr>db_subscription_count := n\<rparr>)"
  by (simp add: sub_only_def)

lemma sub_only_alloc: "db_alloc db = (b, db') \<Longrightarrow> sub_only db db'"
  by (auto simp: db_alloc_def sub_only_def split: prod.splits)

lemma sub_only_ids:
  assumes "sub_only db db'"
  shows "ctx_id db' = ctx_id db" "ids_ok db' = ids_ok db" "get_ctx ci db' = get_ctx ci db" "db_subs db' = db_subs db"
proof -
  obtain al n where "db' = db\<lparr>db_allocs := al, db_subscription_count := n\<rparr>"
    using assms by (auto simp: sub_only_def)
  then show "ctx_id db' = ctx_id db" "ids_ok db' = ids_ok db" "get_ctx ci db' = get_ctx ci db" "db_subs db' = db_subs db"
    by (simp_all add: ctx_id_def ids_ok_def ctx_ids_def get_ctx_def fun_eq_iff)
qed

text \<open>A node's list with a subscription set.\<close>

fun leaf_set :: "nat \<Rightarrow> int \<Rightarrow> (nat \<times> int) list \<Rightarrow> (nat \<times> int) list" where
  "leaf_set ci q [] = [(ci, q)]"
| "leaf_set ci q ((cj, q') # r) = (if cj = ci then (cj, q) # r else (cj, q') # leaf_set ci q r)"

lemma map_of_leaf_set: "map_of (leaf_set ci q subs) = (map_of subs)(ci \<mapsto> q)"
  by (induction ci q subs rule: leaf_set.induct) auto

lemma fst_leaf_set [simp]: "fst ` set (leaf_set ci q subs) = insert ci (fst ` set subs)"
  by (induction ci q subs rule: leaf_set.induct) auto

lemma distinct_leaf_set: "distinct (map fst subs) \<Longrightarrow> distinct (map fst (leaf_set ci q subs))"
  by (induction ci q subs rule: leaf_set.induct) auto

lemma leaf_add_set:
  assumes "ids_ok db" "ctx_id db ci = Some cid" "\<forall>c \<in> fst ` set subs. ctx_id db c \<noteq> None"
  shows "\<exists>rc db'. leaf_add db cid ci qos subs = Some (rc, if rc = MOSQ_ERR_NOMEM then subs else leaf_set ci qos subs, db')
    \<and> sub_only db db' \<and> (db_allocs db = [] \<longrightarrow> rc \<noteq> MOSQ_ERR_NOMEM \<and> db_allocs db' = []) \<and> rc \<in> {-1, 0, 1}"
  using assms
proof (induction db cid ci qos subs rule: leaf_add.induct)
  case (1 db cid ci qos)
  obtain b db1 where a: "db_alloc db = (b, db1)" by fastforce
  have s: "sub_only db db1" "sub_only db (db1\<lparr>db_subscription_count := n\<rparr>)" for n
    using sub_only_alloc [OF a] sub_only_trans sub_only_updates by blast+
  have "db_allocs db = [] \<Longrightarrow> b \<and> db1 = db" using a by simp
  then show ?case using a s by (cases b) auto
next
  case (2 db cid ci qos cj q r)
  obtain cx cid' where cx: "get_ctx cj db = Some cx" "c_id (cx_mosq cx) = Some cid'"
    using 2 by (auto simp: ctx_id_def bind_eq_Some_conv)
  show ?case
  proof (cases "cid' = cid")
    case True
    then have "cj = ci" using ids_okD [OF "2.prems"(1), of cj cid ci] "2.prems"(2) cx by (simp add: ctx_id_def)
    then show ?thesis using cx True by auto
  next
    case False
    then have n: "cj \<noteq> ci" using "2.prems"(2) cx by (auto simp: ctx_id_def)
    obtain rc db' where "leaf_add db cid ci qos r = Some (rc, if rc = MOSQ_ERR_NOMEM then r else leaf_set ci qos r, db')"
      "sub_only db db'" "db_allocs db = [] \<longrightarrow> rc \<noteq> MOSQ_ERR_NOMEM \<and> db_allocs db' = []" "rc \<in> {-1, 0, 1}"
      using "2.IH" [OF cx False] "2.prems" by auto
    then show ?thesis using cx False by (intro exI [of _ rc] exI [of _ db']) (auto simp: n)
  qed
qed

text \<open>What adding a path does to a node and to a list of children; without a client only the nodes are made.\<close>

definition ctx_upd :: "nat option \<Rightarrow> int \<Rightarrow> (nat \<times> int) list \<Rightarrow> (nat \<times> int) list" where
  "ctx_upd co qos subs = (case co of None \<Rightarrow> subs | Some ci \<Rightarrow> leaf_set ci qos subs)"

definition add_frame :: "db \<Rightarrow> nat option \<Rightarrow> int \<Rightarrow> subhier list \<Rightarrow> subhier list \<Rightarrow> db \<Rightarrow> bool" where
  "add_frame db co rc bs bs' db' \<longleftrightarrow> sub_only db db' \<and> rc \<in> {-1, 0, 1}
     \<and> (db_allocs db = [] \<longrightarrow> rc \<noteq> MOSQ_ERR_NOMEM \<and> db_allocs db' = [])
     \<and> tree_clients bs' \<subseteq> set_option co \<union> tree_clients bs \<and> (tree_ok bs \<longrightarrow> tree_ok bs')"

definition add_ready :: "db \<Rightarrow> nat option \<Rightarrow> subhier list \<Rightarrow> bool" where
  "add_ready db co bs \<longleftrightarrow> ids_ok db \<and> (\<forall>c \<in> set_option co \<union> tree_clients bs. ctx_id db c \<noteq> None)"

lemma sub_add_leaf:
  assumes "add_ready db co [Subhier t subs ret ch]"
  shows "\<exists>rc subs' db'. sub_add db co qos (Subhier t subs ret ch) [] = Some (rc, Subhier t subs' ret ch, db')
    \<and> add_frame db co rc [Subhier t subs ret ch] [Subhier t subs' ret ch] db'
    \<and> subs' = (if rc = MOSQ_ERR_NOMEM then subs else ctx_upd co qos subs)"
proof (cases co)
  case None
  then show ?thesis by (simp add: add_frame_def ctx_upd_def)
next
  case (Some ci)
  then obtain cx cid where cx: "get_ctx ci db = Some cx" "c_id (cx_mosq cx) = Some cid" "ctx_id db ci = Some cid"
    using assms by (auto simp: add_ready_def ctx_id_def bind_eq_Some_conv)
  have r: "ids_ok db" "\<forall>c \<in> fst ` set subs. ctx_id db c \<noteq> None" using assms by (auto simp: add_ready_def)
  obtain rc db' where l: "leaf_add db cid ci qos subs = Some (rc, if rc = MOSQ_ERR_NOMEM then subs else leaf_set ci qos subs, db')"
    "sub_only db db'" "db_allocs db = [] \<longrightarrow> rc \<noteq> MOSQ_ERR_NOMEM \<and> db_allocs db' = []" "rc \<in> {-1, 0, 1}"
    using leaf_add_set [OF r(1) cx(3) r(2), of qos] by blast
  have "sub_add db co qos (Subhier t subs ret ch) [] =
      Some (rc, Subhier t (if rc = MOSQ_ERR_NOMEM then subs else leaf_set ci qos subs) ret ch, db')"
    using l(1) cx Some by (cases "subs = []") (auto split: prod.splits if_splits)
  then show ?thesis using l Some by (auto simp: add_frame_def ctx_upd_def distinct_leaf_set)
qed

lemma add_ready_sub_only: "\<lbrakk>add_ready db co bs; sub_only db db'\<rbrakk> \<Longrightarrow> add_ready db' co bs"
  by (simp add: add_ready_def sub_only_ids)

lemma sub_add_spec:
  "add_ready db co [h] \<Longrightarrow> \<exists>rc h' db'. sub_add db co qos h toks = Some (rc, h', db')
     \<and> add_frame db co rc [h] [h'] db' \<and> sh_topic h' = sh_topic h
     \<and> (\<forall>p. node_subs h' p = (if p = toks \<and> rc \<noteq> MOSQ_ERR_NOMEM then ctx_upd co qos (node_subs h p) else node_subs h p))"
  "add_ready db co bs \<Longrightarrow> \<exists>rc bs' db'. sub_add_children db co qos bs tok toks = Some (rc, bs', db')
     \<and> add_frame db co rc bs bs' db' \<and> sh_topic ` set bs' \<subseteq> insert tok (sh_topic ` set bs)
     \<and> (\<forall>t p. child_subs bs' t p =
          (if t = tok \<and> p = toks \<and> rc \<noteq> MOSQ_ERR_NOMEM then ctx_upd co qos (child_subs bs t p) else child_subs bs t p))"
proof (induction db co qos h toks and db co qos bs tok toks rule: sub_add_sub_add_children.induct)
  case (1 db co qos t subs ret ch)
  obtain rc subs' db' where *: "sub_add db co qos (Subhier t subs ret ch) [] = Some (rc, Subhier t subs' ret ch, db')"
    "add_frame db co rc [Subhier t subs ret ch] [Subhier t subs' ret ch] db'"
    "subs' = (if rc = MOSQ_ERR_NOMEM then subs else ctx_upd co qos subs)"
    using sub_add_leaf [OF 1] by blast
  have "node_subs (Subhier t subs' ret ch) p =
      (if p = [] \<and> rc \<noteq> MOSQ_ERR_NOMEM then ctx_upd co qos (node_subs (Subhier t subs ret ch) p) else node_subs (Subhier t subs ret ch) p)" for p
    using *(3) by (cases p) auto
  then show ?case using * by auto
next
  case (2 db co qos t subs ret ch tok toks)
  have "add_ready db co ch" using "2.prems" by (auto simp: add_ready_def)
  then obtain rc ch' db' where *: "sub_add_children db co qos ch tok toks = Some (rc, ch', db')"
    "add_frame db co rc ch ch' db'"
    "\<And>t p. child_subs ch' t p =
          (if t = tok \<and> p = toks \<and> rc \<noteq> MOSQ_ERR_NOMEM then ctx_upd co qos (child_subs ch t p) else child_subs ch t p)"
    using "2.IH" by metis
  have "node_subs (Subhier t subs ret ch') p = (if p = tok # toks \<and> rc \<noteq> MOSQ_ERR_NOMEM
      then ctx_upd co qos (node_subs (Subhier t subs ret ch) p) else node_subs (Subhier t subs ret ch) p)" for p
    using *(3) by (cases p) auto
  then show ?case using *(1,2) by (auto simp: add_frame_def)
next
  case (3 db co qos tok toks)
  obtain b1 db1 where a1: "db_alloc db = (b1, db1)" by fastforce
  obtain b2 db2 where a2: "db_alloc db1 = (b2, db2)" by fastforce
  have s: "sub_only db db1" "sub_only db db2" using a1 a2 sub_only_alloc sub_only_trans by blast+
  have nil: "b1 \<and> b2 \<and> db2 = db" if "db_allocs db = []" using that a1 a2 by auto
  show ?case
  proof (cases "b1 \<and> b2")
    case False
    then show ?thesis using a1 a2 s nil by (cases b1) (auto simp: add_frame_def)
  next
    case True
    let ?h = "Subhier tok [] None []"
    have "add_ready db2 co [?h]" using add_ready_sub_only [OF "3.prems" s(2)] by (simp add: add_ready_def)
    then obtain rc h' db' where *: "sub_add db2 co qos ?h toks = Some (rc, h', db')"
      "add_frame db2 co rc [?h] [h'] db'" "sh_topic h' = tok"
      "\<And>p. node_subs h' p = (if p = toks \<and> rc \<noteq> MOSQ_ERR_NOMEM then ctx_upd co qos (node_subs ?h p) else node_subs ?h p)"
      using "3.IH" a1 a2 True by fastforce
    have "child_subs [h'] t p = (if t = tok \<and> p = toks \<and> rc \<noteq> MOSQ_ERR_NOMEM then ctx_upd co qos [] else [])" for t p
      using *(3,4) by (cases p) auto
    moreover have "add_frame db co rc [] [h'] db'"
      using *(2) nil sub_only_trans [OF s(2)] by (auto simp: add_frame_def)
    ultimately show ?thesis using * a1 a2 True by auto
  qed
next
  case (4 db co qos b bs tok toks)
  show ?case
  proof (cases "sh_topic b = tok")
    case True
    have "add_ready db co [b]" using "4.prems" by (auto simp: add_ready_def node_clients_simps)
    then obtain rc b' db' where *: "sub_add db co qos b toks = Some (rc, b', db')" "add_frame db co rc [b] [b'] db'" "sh_topic b' = sh_topic b"
      "\<And>p. node_subs b' p = (if p = toks \<and> rc \<noteq> MOSQ_ERR_NOMEM then ctx_upd co qos (node_subs b p) else node_subs b p)"
      using "4.IH"(1) [OF True] by metis
    have "add_frame db co rc (b # bs) (b' # bs) db'"
      using *(2,3) by (auto simp: add_frame_def node_clients_simps node_ok_simps)
    then show ?thesis using * True by auto
  next
    case False
    have "add_ready db co bs" using "4.prems" by (auto simp: add_ready_def node_clients_simps)
    then obtain rc bs' db' where *: "sub_add_children db co qos bs tok toks = Some (rc, bs', db')"
      "add_frame db co rc bs bs' db'" "sh_topic ` set bs' \<subseteq> insert tok (sh_topic ` set bs)"
      "\<And>t p. child_subs bs' t p =
          (if t = tok \<and> p = toks \<and> rc \<noteq> MOSQ_ERR_NOMEM then ctx_upd co qos (child_subs bs t p) else child_subs bs t p)"
      using "4.IH"(2) [OF False] by metis
    have "add_frame db co rc (b # bs) (b # bs') db'"
      using *(2,3) False by (auto simp: add_frame_def node_clients_simps node_ok_simps)
    then show ?thesis using * False by auto
  qed
qed

lemma root_add_spec:
  assumes "add_ready db (Some ci) hs" "tok \<in> sh_topic ` set hs"
  shows "\<exists>rc hs' db'. root_add db ci qos hs tok toks = Some (Some (rc, hs', db'))
     \<and> add_frame db (Some ci) rc hs hs' db' \<and> map sh_topic hs' = map sh_topic hs
     \<and> (\<forall>p. root_subs hs' p = (if p = tok # toks \<and> rc \<noteq> MOSQ_ERR_NOMEM then leaf_set ci qos (root_subs hs p) else root_subs hs p))"
  using assms
proof (induction hs)
  case (Cons h hs)
  show ?case
  proof (cases "sh_topic h = tok")
    case True
    have "add_ready db (Some ci) [h]" using Cons.prems by (auto simp: add_ready_def node_clients_simps)
    then obtain rc h' db' where *: "sub_add db (Some ci) qos h (tok # toks) = Some (rc, h', db')"
      "add_frame db (Some ci) rc [h] [h'] db'" "sh_topic h' = sh_topic h"
      "\<And>p. node_subs h' p = (if p = tok # toks \<and> rc \<noteq> MOSQ_ERR_NOMEM then ctx_upd (Some ci) qos (node_subs h p) else node_subs h p)"
      using sub_add_spec(1) [of db "Some ci" h qos "tok # toks"] by metis
    have "add_frame db (Some ci) rc (h # hs) (h' # hs) db'"
      using *(2,3) by (auto simp: add_frame_def node_clients_simps node_ok_simps)
    then show ?thesis using * True by (auto simp: ctx_upd_def)
  next
    case False
    have "add_ready db (Some ci) hs" "tok \<in> sh_topic ` set hs"
      using Cons.prems False by (auto simp: add_ready_def node_clients_simps)
    then obtain rc hs' db' where *: "root_add db ci qos hs tok toks = Some (Some (rc, hs', db'))"
      "add_frame db (Some ci) rc hs hs' db'" "map sh_topic hs' = map sh_topic hs"
      "\<And>p. root_subs hs' p = (if p = tok # toks \<and> rc \<noteq> MOSQ_ERR_NOMEM then leaf_set ci qos (root_subs hs p) else root_subs hs p)"
      using Cons.IH by metis
    have "sh_topic ` set hs' = sh_topic ` set hs" using arg_cong [OF *(3), of set] by simp
    then have "add_frame db (Some ci) rc (h # hs) (h # hs') db'"
      using *(2) by (auto simp: add_frame_def node_clients_simps node_ok_simps)
    then show ?thesis using * False by auto
  qed
qed simp

lemma root_add_None: "tok \<notin> sh_topic ` set hs \<Longrightarrow> root_add db ci qos hs tok toks = None"
  by (induction hs) auto

lemma new_token_sub_only: "new_token db = (b, db') \<Longrightarrow> sub_only db db'"
  by (auto simp: new_token_def split: prod.splits bool.splits dest!: sub_only_alloc intro: sub_only_trans)

lemma sub_token_loop_any:
  "sub_token_loop s cur toks db = (r, db') \<Longrightarrow>
     sub_only db db' \<and> (r = None \<or> r = Some (toks @ (cur @ hd (split_on SEP s)) # tl (split_on SEP s)))"
proof (induction s cur toks db arbitrary: r db' rule: sub_token_loop.induct)
  case (2 c s cur tokens db)
  obtain y ys where s: "split_on SEP s = y # ys" by (cases "split_on SEP s") auto
  show ?case
  proof (cases "c = SEP")
    case True
    obtain b db1 where n: "new_token db = (b, db1)" by fastforce
    show ?thesis using "2.prems" "2.IH"(1) [OF True] True s n new_token_sub_only [OF n]
      by (cases b) (auto intro: sub_only_trans)
  next
    case False
    then show ?thesis using "2.prems" "2.IH"(2) [OF False] s by auto
  qed
qed (auto split: prod.splits if_splits dest: new_token_sub_only)

lemma sub_topic_tokenise_any:
  assumes "sub_topic_tokenise s db = (r, db')"
  shows "sub_only db db'" "r = None \<or> r = Some (tokens_of s)"
proof -
  have "sub_only db db' \<and> (r = None \<or> r = Some (tokens_of s))"
    using assms unfolding sub_topic_tokenise_def tokens_of_def
    by (auto split: prod.splits bool.splits if_splits simp: hd_Cons_tl
        dest!: new_token_sub_only sub_token_loop_any intro: sub_only_trans)
  then show "sub_only db db'" "r = None \<or> r = Some (tokens_of s)" by auto
qed

text \<open>A list of tokens that starts below one of the children of the root.\<close>

definition root_known :: "db \<Rightarrow> string \<Rightarrow> bool" where
  "root_known db sub \<longleftrightarrow> hd (tokens_of sub) \<in> sh_topic ` set (db_subs db)"

lemma sub_add_refines:
  assumes inv: "tree_inv db" and ci: "ctx_id db ci \<noteq> None" and known: "root_known db sub"
  shows "\<exists>rc db'. mqtt3_sub_add db ci sub qos = Some (rc, db') \<and> tree_inv db' \<and> rc \<in> {0, 1}
    \<and> map sh_topic (db_subs db') = map sh_topic (db_subs db) \<and> ctx_id db' = ctx_id db
    \<and> (db_allocs db = [] \<longrightarrow> rc = 0 \<and> db_allocs db' = [])
    \<and> subscriptions db' = (if rc = 0 then (subscriptions db)((tokens_of sub, ci) \<mapsto> qos) else subscriptions db)"
proof -
  obtain r db1 where t: "sub_topic_tokenise sub db = (r, db1)" by fastforce
  note s1 = sub_only_ids [OF sub_topic_tokenise_any(1) [OF t]]
  show ?thesis
  proof (cases r)
    case None
    moreover have "db_allocs db \<noteq> []" using None t sub_topic_tokenise_tokens [of db sub] by auto
    ultimately show ?thesis using t inv s1 by (simp add: mqtt3_sub_add_def tree_inv_def subscriptions_def)
  next
    case (Some toks)
    have toks: "toks = hd toks # tl toks" "toks = tokens_of sub" using sub_topic_tokenise_any(2) [OF t] Some by auto
    have "add_ready db1 (Some ci) (db_subs db)" using inv ci s1 by (auto simp: add_ready_def tree_inv_def)
    then obtain rc hs db2 where a: "root_add db1 ci qos (db_subs db) (hd toks) (tl toks) = Some (Some (rc, hs, db2))"
      "add_frame db1 (Some ci) rc (db_subs db) hs db2" "map sh_topic hs = map sh_topic (db_subs db)"
      "\<And>p. root_subs hs p = (if p = toks \<and> rc \<noteq> MOSQ_ERR_NOMEM then leaf_set ci qos (root_subs (db_subs db) p) else root_subs (db_subs db) p)"
      using root_add_spec [of db1 ci "db_subs db" "hd toks" qos "tl toks"] known toks unfolding root_known_def by metis
    note s2 = sub_only_ids [of db1 db2]
    let ?rc = "if rc = -1 then 0 else rc"
    have res: "mqtt3_sub_add db ci sub qos = Some (?rc, db2\<lparr>db_subs := hs\<rparr>)"
      using t Some a(1) s1 by (simp add: mqtt3_sub_add_def)
    have ids: "ctx_id (db2\<lparr>db_subs := hs\<rparr>) = ctx_id db" "ids_ok (db2\<lparr>db_subs := hs\<rparr>) = ids_ok db"
      using s1 s2 a(2) by (simp_all add: add_frame_def)
    have inv': "tree_inv (db2\<lparr>db_subs := hs\<rparr>)"
      using inv a(2) ci unfolding tree_inv_def ids by (auto simp: add_frame_def)
    have "subscriptions (db2\<lparr>db_subs := hs\<rparr>) = (if ?rc = 0 then (subscriptions db)((tokens_of sub, ci) \<mapsto> qos) else subscriptions db)"
      using a(2,4) toks(2) by (auto simp: subscriptions_def fun_eq_iff add_frame_def map_of_leaf_set)
    moreover have "db_allocs db = [] \<Longrightarrow> db_allocs db1 = []" using t sub_topic_tokenise_tokens [of db sub] by auto
    moreover have "rc \<in> {-1, 0, 1}" "db_allocs db1 = [] \<longrightarrow> rc \<noteq> 1 \<and> db_allocs db2 = []" using a(2) by (auto simp: add_frame_def)
    ultimately show ?thesis
      by (intro exI [of _ ?rc] exI [of _ "db2\<lparr>db_subs := hs\<rparr>"]) (use res inv' ids a(3) in auto)
  qed
qed

section \<open>Unsubscribing\<close>

abbreviation leaf_del :: "nat \<Rightarrow> (nat \<times> int) list \<Rightarrow> (nat \<times> int) list" where
  "leaf_del ci subs \<equiv> filter (\<lambda>l. fst l \<noteq> ci) subs"

lemma map_of_leaf_del: "map_of (leaf_del ci subs) = (map_of subs)(ci := None)"
  by (induction subs) auto

text \<open>What the removing operations do to the database and to the rest of the tree.\<close>

definition del_frame :: "db \<Rightarrow> subhier list \<Rightarrow> subhier list \<Rightarrow> db \<Rightarrow> bool" where
  "del_frame db bs bs' db' \<longleftrightarrow> sub_only db db' \<and> db_allocs db' = db_allocs db
     \<and> tree_clients bs' \<subseteq> tree_clients bs \<and> sh_topic ` set bs' \<subseteq> sh_topic ` set bs \<and> tree_ok bs'"

lemma leaf_remove_del:
  "\<lbrakk>distinct (map fst subs); leaf_remove ci subs db = (subs', db')\<rbrakk> \<Longrightarrow>
     subs' = leaf_del ci subs \<and> sub_only db db' \<and> db_allocs db' = db_allocs db"
proof (induction ci subs db arbitrary: subs' db' rule: leaf_remove.induct)
  case (2 ci cj q r db)
  have "leaf_del cj r = r" using "2.prems"(1) by (auto intro!: filter_True)
  then show ?case using 2 by (cases "cj = ci") (auto split: prod.splits)
qed simp

lemma node_empty_subs: "node_empty h \<Longrightarrow> node_subs h p = []"
  by (cases h; cases p) (auto simp: node_empty_def)

lemma child_subs_other: "t \<notin> sh_topic ` set bs \<Longrightarrow> child_subs bs t p = []"
  by (induction bs) auto

lemma del_frame_Cons:
  assumes "del_frame db [b] [b'] db'" "sh_topic b' = sh_topic b" "tree_ok (b # bs)"
  shows "del_frame db (b # bs) (if node_empty b' then bs else b' # bs) db'"
  using assms by (auto simp: del_frame_def node_clients_simps node_ok_simps)

lemma sub_remove_spec:
  "tree_ok [h] \<Longrightarrow> \<exists>h' db'. sub_remove ci h toks db = (h', db') \<and> del_frame db [h] [h'] db' \<and> sh_topic h' = sh_topic h
     \<and> (\<forall>p. node_subs h' p = (if p = toks then leaf_del ci (node_subs h p) else node_subs h p))"
  "tree_ok bs \<Longrightarrow> \<exists>bs' db'. sub_remove_children ci bs tok toks db = (bs', db') \<and> del_frame db bs bs' db'
     \<and> (\<forall>t p. child_subs bs' t p = (if t = tok \<and> p = toks then leaf_del ci (child_subs bs t p) else child_subs bs t p))"
proof (induction ci h toks db and ci bs tok toks db rule: sub_remove_sub_remove_children.induct)
  case (1 ci t subs ret ch db)
  obtain subs' db' where l: "leaf_remove ci subs db = (subs', db')" by fastforce
  have "node_subs (Subhier t (leaf_del ci subs) ret ch) p =
      (if p = [] then leaf_del ci (node_subs (Subhier t subs ret ch) p) else node_subs (Subhier t subs ret ch) p)" for p
    by (cases p) auto
  moreover have "distinct (map fst (leaf_del ci subs))" using "1.prems" by (simp add: distinct_map_filter)
  ultimately show ?case using "1.prems" l leaf_remove_del [OF _ l] by (auto simp: del_frame_def)
next
  case (2 ci t subs ret ch tok toks db)
  then obtain ch' db' where *: "sub_remove_children ci ch tok toks db = (ch', db')" "del_frame db ch ch' db'"
    "\<And>t p. child_subs ch' t p = (if t = tok \<and> p = toks then leaf_del ci (child_subs ch t p) else child_subs ch t p)"
    by auto
  have "node_subs (Subhier t subs ret ch') p =
      (if p = tok # toks then leaf_del ci (node_subs (Subhier t subs ret ch) p) else node_subs (Subhier t subs ret ch) p)" for p
    using *(3) by (cases p) auto
  then show ?case using *(1,2) "2.prems" by (auto simp: del_frame_def)
next
  case (3 ci tok toks db)
  then show ?case by (simp add: del_frame_def)
next
  case (4 ci b bs tok toks db)
  show ?case
  proof (cases "sh_topic b = tok")
    case True
    have "tree_ok [b]" using "4.prems" by (simp add: node_ok_simps)
    then obtain b' db' where *: "sub_remove ci b toks db = (b', db')" "del_frame db [b] [b'] db'" "sh_topic b' = sh_topic b"
      "\<And>p. node_subs b' p = (if p = toks then leaf_del ci (node_subs b p) else node_subs b p)"
      using "4.IH"(1) [OF True] by metis
    have "child_subs (if node_empty b' then bs else b' # bs) t p = child_subs (b' # bs) t p" for t p
      using "4.prems" node_empty_subs [of b' p] child_subs_other [of t bs p] *(3) by (auto simp: node_ok_simps)
    then show ?thesis using * True del_frame_Cons [OF *(2,3) "4.prems"] by auto
  next
    case False
    have "tree_ok bs" using "4.prems" by (simp add: node_ok_simps)
    then obtain bs' db' where *: "sub_remove_children ci bs tok toks db = (bs', db')" "del_frame db bs bs' db'"
      "\<And>t p. child_subs bs' t p = (if t = tok \<and> p = toks then leaf_del ci (child_subs bs t p) else child_subs bs t p)"
      using "4.IH"(2) [OF False] by metis
    have "del_frame db (b # bs) (b # bs') db'"
      using *(2) "4.prems" by (auto simp: del_frame_def node_clients_simps node_ok_simps)
    then show ?thesis using * False by auto
  qed
qed

lemma root_remove_spec:
  assumes "tree_ok hs" "toks \<noteq> []"
  shows "\<exists>hs' db'. root_remove ci hs toks db = (hs', db') \<and> del_frame db hs hs' db' \<and> map sh_topic hs' = map sh_topic hs
     \<and> (\<forall>p. root_subs hs' p = (if p = toks then leaf_del ci (root_subs hs p) else root_subs hs p))"
  using assms
proof (induction hs)
  case (Cons h hs)
  show ?case
  proof (cases "sh_topic h = hd toks")
    case True
    have "tree_ok [h]" using Cons.prems by (simp add: node_ok_simps)
    then obtain h' db' where *: "sub_remove ci h toks db = (h', db')" "del_frame db [h] [h'] db'" "sh_topic h' = sh_topic h"
      "\<And>p. node_subs h' p = (if p = toks then leaf_del ci (node_subs h p) else node_subs h p)"
      using sub_remove_spec(1) by metis
    have "del_frame db (h # hs) (h' # hs) db'"
      using *(2,3) Cons.prems by (auto simp: del_frame_def node_clients_simps node_ok_simps)
    then show ?thesis using * True Cons.prems by auto
  next
    case False
    have "tree_ok hs" using Cons.prems by (simp add: node_ok_simps)
    then obtain hs' db' where *: "root_remove ci hs toks db = (hs', db')" "del_frame db hs hs' db'" "map sh_topic hs' = map sh_topic hs"
      "\<And>p. root_subs hs' p = (if p = toks then leaf_del ci (root_subs hs p) else root_subs hs p)"
      using Cons.IH Cons.prems by metis
    have "del_frame db (h # hs) (h # hs') db'"
      using *(2) Cons.prems by (auto simp: del_frame_def node_clients_simps node_ok_simps)
    then show ?thesis using * False by auto
  qed
qed (simp add: del_frame_def)

lemma del_frame_inv:
  assumes "tree_inv db" "del_frame db1 (db_subs db) hs db'" "sub_only db db1"
  shows "tree_inv (db'\<lparr>db_subs := hs\<rparr>)" "ctx_id (db'\<lparr>db_subs := hs\<rparr>) = ctx_id db"
proof -
  have "sub_only db db'" using assms sub_only_trans by (auto simp: del_frame_def)
  note s = sub_only_ids [OF this]
  show "ctx_id (db'\<lparr>db_subs := hs\<rparr>) = ctx_id db" using s by simp
  show "tree_inv (db'\<lparr>db_subs := hs\<rparr>)" using assms s by (auto simp: del_frame_def tree_inv_def)
qed

lemma sub_remove_refines:
  assumes inv: "tree_inv db"
  shows "\<exists>rc db'. mqtt3_sub_remove db ci sub = (rc, db') \<and> tree_inv db' \<and> rc \<in> {0, 1}
    \<and> map sh_topic (db_subs db') = map sh_topic (db_subs db) \<and> ctx_id db' = ctx_id db
    \<and> (db_allocs db = [] \<longrightarrow> rc = 0 \<and> db_allocs db' = [])
    \<and> subscriptions db' = (if rc = 0 then (subscriptions db)((tokens_of sub, ci) := None) else subscriptions db)"
proof -
  obtain r db1 where t: "sub_topic_tokenise sub db = (r, db1)" by fastforce
  note s = sub_topic_tokenise_any [OF t] and s1 = sub_only_ids [OF sub_topic_tokenise_any(1) [OF t]]
  have nil: "r \<noteq> None \<and> db1 = db" if "db_allocs db = []" using t sub_topic_tokenise_tokens [OF that, of sub] by auto
  show ?thesis
  proof (cases r)
    case None
    then show ?thesis using t nil inv s1 by (auto simp: mqtt3_sub_remove_def tree_inv_def subscriptions_def)
  next
    case (Some toks)
    then have toks: "toks = tokens_of sub" using s by simp
    obtain hs db2 where *: "root_remove ci (db_subs db) toks db1 = (hs, db2)" "del_frame db1 (db_subs db) hs db2"
      "map sh_topic hs = map sh_topic (db_subs db)"
      "\<And>p. root_subs hs p = (if p = toks then leaf_del ci (root_subs (db_subs db) p) else root_subs (db_subs db) p)"
      using root_remove_spec [of "db_subs db" toks ci db1] inv toks by (auto simp: tree_inv_def)
    have "mqtt3_sub_remove db ci sub = (0, db2\<lparr>db_subs := hs\<rparr>)"
      using t Some *(1) s1 by (simp add: mqtt3_sub_remove_def)
    moreover have "subscriptions (db2\<lparr>db_subs := hs\<rparr>) = (subscriptions db)((tokens_of sub, ci) := None)"
      using *(4) toks by (auto simp: subscriptions_def fun_eq_iff map_of_leaf_del)
    ultimately show ?thesis using *(2,3) del_frame_inv [OF inv *(2) s(1)] nil by (auto simp: del_frame_def)
  qed
qed

section \<open>The end of a session\<close>

lemma clean_leaves_del: "clean_leaves ci subs db = (subs', db') \<Longrightarrow> subs' = leaf_del ci subs \<and> sub_only db db' \<and> db_allocs db' = db_allocs db"
  by (induction ci subs db arbitrary: subs' db' rule: clean_leaves.induct)
    (auto split: if_splits prod.splits, use sub_only_updates sub_only_trans in blast)

lemma clean_session_spec:
  "tree_ok [h] \<Longrightarrow> \<exists>h' db'. clean_session ci h db = (h', db') \<and> del_frame db [h] [h'] db' \<and> sh_topic h' = sh_topic h
     \<and> (\<forall>p. node_subs h' p = leaf_del ci (node_subs h p))"
  "tree_ok bs \<Longrightarrow> \<exists>bs' db'. clean_children ci bs db = (bs', db') \<and> del_frame db bs bs' db'
     \<and> (\<forall>t p. child_subs bs' t p = leaf_del ci (child_subs bs t p))"
proof (induction ci h db and ci bs db rule: clean_session_clean_children.induct)
  case (1 ci t subs ret ch db)
  obtain subs' db1 where l: "clean_leaves ci subs db = (subs', db1)" by fastforce
  note d = clean_leaves_del [OF l]
  obtain ch' db' where *: "clean_children ci ch db1 = (ch', db')" "del_frame db1 ch ch' db'"
    "\<And>t p. child_subs ch' t p = leaf_del ci (child_subs ch t p)"
    using "1.IH" [OF l [symmetric]] "1.prems" by auto
  have "node_subs (Subhier t subs' ret ch') p = leaf_del ci (node_subs (Subhier t subs ret ch) p)" for p
    using *(3) d by (cases p) auto
  moreover have "distinct (map fst subs')" using "1.prems" d by (simp add: distinct_map_filter)
  moreover have "sub_only db db'" "db_allocs db' = db_allocs db" using d *(2) sub_only_trans by (auto simp: del_frame_def)
  ultimately show ?case using l *(1,2) d by (auto simp: del_frame_def)
next
  case (2 ci db)
  then show ?case by (simp add: del_frame_def)
next
  case (3 ci b bs db)
  have ok: "tree_ok [b]" "tree_ok bs" using "3.prems" by (simp_all add: node_ok_simps)
  obtain b' db1 where b: "clean_session ci b db = (b', db1)" "del_frame db [b] [b'] db1" "sh_topic b' = sh_topic b"
    "\<And>p. node_subs b' p = leaf_del ci (node_subs b p)"
    using "3.IH"(1) [OF ok(1)] by auto
  obtain bs' db' where bs: "clean_children ci bs db1 = (bs', db')" "del_frame db1 bs bs' db'"
    "\<And>t p. child_subs bs' t p = leaf_del ci (child_subs bs t p)"
    using "3.IH"(2) [OF b(1) [symmetric] ok(2)] by auto
  have "sh_topic b \<notin> sh_topic ` set bs'" using "3.prems" bs(2) by (auto simp: del_frame_def node_ok_simps)
  then have "child_subs (if node_empty b' then bs' else b' # bs') t p = leaf_del ci (child_subs (b # bs) t p)" for t p
    using node_empty_subs [of b' p] child_subs_other [of t bs' p] b(3) b(4) [of p] bs(3) [of t p] by auto
  moreover have "del_frame db (b # bs) (if node_empty b' then bs' else b' # bs') db'"
    using b(2,3) bs(2) "3.prems" sub_only_trans [of db db1 db'] by (auto simp: del_frame_def node_clients_simps node_ok_simps)
  ultimately show ?case using b(1) bs(1) by simp
qed

lemma clean_roots_spec:
  "tree_ok hs \<Longrightarrow> \<exists>hs' db'. clean_roots ci hs db = (hs', db') \<and> del_frame db hs hs' db' \<and> map sh_topic hs' = map sh_topic hs
     \<and> (\<forall>p. root_subs hs' p = leaf_del ci (root_subs hs p))"
proof (induction hs arbitrary: db)
  case (Cons h hs)
  have ok: "tree_ok [h]" "tree_ok hs" using "Cons.prems" by (simp_all add: node_ok_simps)
  obtain h' db1 where h: "clean_session ci h db = (h', db1)" "del_frame db [h] [h'] db1" "sh_topic h' = sh_topic h"
    "\<And>p. node_subs h' p = leaf_del ci (node_subs h p)"
    using clean_session_spec(1) [OF ok(1)] by metis
  obtain hs' db' where hs: "clean_roots ci hs db1 = (hs', db')" "del_frame db1 hs hs' db'" "map sh_topic hs' = map sh_topic hs"
    "\<And>p. root_subs hs' p = leaf_del ci (root_subs hs p)"
    using Cons.IH [OF ok(2)] by metis
  have "del_frame db (h # hs) (h' # hs') db'"
    using h(2,3) hs(2) "Cons.prems" sub_only_trans [of db db1 db'] by (auto simp: del_frame_def node_clients_simps node_ok_simps)
  then show ?case using h hs by auto
qed (simp add: del_frame_def)

lemma clean_session_refines:
  assumes inv: "tree_inv db"
  shows "\<exists>db'. mqtt3_subs_clean_session db ci = (MOSQ_ERR_SUCCESS, db') \<and> tree_inv db' \<and> db_allocs db' = db_allocs db
    \<and> map sh_topic (db_subs db') = map sh_topic (db_subs db) \<and> ctx_id db' = ctx_id db
    \<and> subscriptions db' = (\<lambda>(p, cj). if cj = ci then None else subscriptions db (p, cj))"
proof -
  obtain hs db' where *: "clean_roots ci (db_subs db) db = (hs, db')" "del_frame db (db_subs db) hs db'"
    "map sh_topic hs = map sh_topic (db_subs db)" "\<And>p. root_subs hs p = leaf_del ci (root_subs (db_subs db) p)"
    using clean_roots_spec inv by (metis tree_inv_def)
  have "subscriptions (db'\<lparr>db_subs := hs\<rparr>) = (\<lambda>(p, cj). if cj = ci then None else subscriptions db (p, cj))"
    using *(4) by (auto simp: subscriptions_def fun_eq_iff map_of_leaf_del)
  then show ?thesis using * del_frame_inv [OF inv *(2)] by (auto simp: mqtt3_subs_clean_session_def del_frame_def)
qed

section \<open>Sequences of operations\<close>

text \<open>
  An implementation whose operations each act on an abstract value as a specification says: then
  so does every sequence of them.
\<close>

fun run_steps :: "('o \<Rightarrow> 'd \<Rightarrow> 'd option) \<Rightarrow> 'o list \<Rightarrow> 'd \<Rightarrow> 'd option" where
  "run_steps step [] d = Some d"
| "run_steps step (x # xs) d = do { d \<leftarrow> step x d; run_steps step xs d }"

locale op_refinement =
  fixes step :: "'o \<Rightarrow> 'd \<Rightarrow> 'd option" and spec :: "'o \<Rightarrow> 'a \<Rightarrow> 'a" and abs :: "'d \<Rightarrow> 'a"
    and ok :: "'d \<Rightarrow> bool" and ready :: "'d \<Rightarrow> 'o \<Rightarrow> bool"
  assumes step_refines: "\<lbrakk>ok d; ready d x\<rbrakk> \<Longrightarrow> \<exists>d'. step x d = Some d' \<and> ok d' \<and> abs d' = spec x (abs d) \<and> ready d' = ready d"
begin

lemma run_refines:
  "\<lbrakk>ok d; list_all (ready d) xs\<rbrakk> \<Longrightarrow> \<exists>d'. run_steps step xs d = Some d' \<and> ok d' \<and> abs d' = fold spec xs (abs d)"
proof (induction xs arbitrary: d)
  case (Cons x xs)
  then obtain d1 where "step x d = Some d1" "ok d1" "abs d1 = spec x (abs d)" "ready d1 = ready d"
    using step_refines [of d x] by auto
  then show ?case using Cons.IH [of d1] Cons.prems by auto
qed simp

end

datatype sub_op = Subscribe nat string int | Unsubscribe nat string | Clean_session nat

text \<open>One operation of the broker on its tree, and the same on the map.\<close>

fun sub_step :: "sub_op \<Rightarrow> db \<Rightarrow> db option" where
  "sub_step (Subscribe ci sub qos) db = map_option snd (mqtt3_sub_add db ci sub qos)"
| "sub_step (Unsubscribe ci sub) db = Some (snd (mqtt3_sub_remove db ci sub))"
| "sub_step (Clean_session ci) db = Some (snd (mqtt3_subs_clean_session db ci))"

fun sub_spec :: "sub_op \<Rightarrow> sub_map \<Rightarrow> sub_map" where
  "sub_spec (Subscribe ci sub qos) m = m((tokens_of sub, ci) \<mapsto> qos)"
| "sub_spec (Unsubscribe ci sub) m = m((tokens_of sub, ci) := None)"
| "sub_spec (Clean_session ci) m = (\<lambda>(p, cj). if cj = ci then None else m (p, cj))"

fun op_ready :: "db \<Rightarrow> sub_op \<Rightarrow> bool" where
  "op_ready db (Subscribe ci sub qos) \<longleftrightarrow> ctx_id db ci \<noteq> None \<and> root_known db sub"
| "op_ready db _ \<longleftrightarrow> True"

lemma op_ready_cong:
  assumes "ctx_id db' = ctx_id db" "map sh_topic (db_subs db') = map sh_topic (db_subs db)"
  shows "op_ready db' = op_ready db"
proof
  fix x
  have "sh_topic ` set (db_subs db') = sh_topic ` set (db_subs db)" using arg_cong [OF assms(2), of set] by simp
  then show "op_ready db' x = op_ready db x" using assms(1) by (cases x) (auto simp: root_known_def)
qed

interpretation sx: op_refinement sub_step sub_spec subscriptions "\<lambda>db. tree_inv db \<and> db_allocs db = []" op_ready
proof unfold_locales
  fix db x
  assume ok: "tree_inv db \<and> db_allocs db = []" and r: "op_ready db x"
  show "\<exists>db'. sub_step x db = Some db' \<and> (tree_inv db' \<and> db_allocs db' = [])
      \<and> subscriptions db' = sub_spec x (subscriptions db) \<and> op_ready db' = op_ready db"
  proof (cases x)
    case (Subscribe ci sub qos)
    then show ?thesis using sub_add_refines [of db ci sub qos] ok r by (auto intro: op_ready_cong)
  next
    case (Unsubscribe ci sub)
    then show ?thesis using sub_remove_refines [of db ci sub] ok by (auto intro: op_ready_cong)
  next
    case (Clean_session ci)
    then show ?thesis using clean_session_refines [of db ci] ok by (auto intro: op_ready_cong)
  qed
qed

lemma demo_db_inv: "distinct names \<Longrightarrow> tree_inv (demo_db names)"
proof -
  have "ctx_ids (demo_db names) = names"
    by (induction names) (simp_all add: ctx_ids_def demo_db_def List.map_filter_simps demo_ctx_def)
  then show "distinct names \<Longrightarrow> tree_inv (demo_db names)" by (simp add: tree_inv_def ids_ok_def) (simp add: demo_db_def)
qed

lemma demo_db_id: "ctx_id (demo_db names) ci = (if ci < length names then Some (names ! ci) else None)"
  by (simp add: ctx_id_def get_ctx_def demo_db_def demo_ctx_def)

section \<open>Properties\<close>

text \<open>
  C11: The subscription tree refines the map from token lists and clients to QoS: any sequence of subscribing,
  unsubscribing and ending sessions, with clients that exist and topics below a known child of the root, leaves
  the tree well formed and has on the subscriptions the effect of the same updates of the map.
\<close>
theorem sub_ops_refine:
  assumes "tree_inv db" "db_allocs db = []" "list_all (op_ready db) ops"
  shows "\<exists>db'. run_steps sub_step ops db = Some db' \<and> tree_inv db' \<and> subscriptions db' = fold sub_spec ops (subscriptions db)"
  using sx.run_refines [of db ops] assms by blast

theorem sub_ops_refine_witness:
  "\<exists>db'. run_steps sub_step [Subscribe 0 ''users/bob/#'' 1, Subscribe 1 ''chat/+/bob'' 2, Clean_session 0] (demo_db [''bob'', ''eve'']) = Some db'
     \<and> subscriptions db' ([[], ''chat'', [PLUS], ''bob''], 1) = Some 2 \<and> subscriptions db' ([[], ''users'', ''bob'', [HASH]], 0) = None"
proof -
  have t: "tokens_of ''users/bob/#'' = [[], ''users'', ''bob'', [HASH]]" "tokens_of ''chat/+/bob'' = [[], ''chat'', [PLUS], ''bob'']"
    by (simp_all add: tokens_of_def)
  have "list_all (op_ready (demo_db [''bob'', ''eve''])) [Subscribe 0 ''users/bob/#'' 1, Subscribe 1 ''chat/+/bob'' 2, Clean_session 0]"
    unfolding list.pred_inject op_ready.simps root_known_def t by (simp add: demo_db_id) (simp add: demo_db_def)
  moreover have "db_allocs (demo_db [''bob'', ''eve'']) = []" by (simp add: demo_db_def)
  moreover have "tree_inv (demo_db [''bob'', ''eve''])" by (rule demo_db_inv) simp
  ultimately obtain db' where db': "run_steps sub_step [Subscribe 0 ''users/bob/#'' 1, Subscribe 1 ''chat/+/bob'' 2, Clean_session 0]
      (demo_db [''bob'', ''eve'']) = Some db'"
    "subscriptions db' = fold sub_spec [Subscribe 0 ''users/bob/#'' 1, Subscribe 1 ''chat/+/bob'' 2, Clean_session 0]
      (subscriptions (demo_db [''bob'', ''eve'']))"
    using sub_ops_refine by blast
  show ?thesis by (rule exI [of _ db']) (simp only: db' fold_simps sub_spec.simps t, simp)
qed

text \<open>
  C38: A subscription whose first token is not yet a child of the root, such as one below \<open>$foo\<close>, replaces the
  children of the root: it succeeds, and all other subscriptions of all clients are gone.
\<close>
theorem sub_add_unknown_root:
  assumes "tree_inv db" "db_allocs db = []" "ctx_id db ci \<noteq> None" "\<not> root_known db sub"
  shows "\<exists>db'. mqtt3_sub_add db ci sub qos = Some (MOSQ_ERR_SUCCESS, db') \<and> subscriptions db' = [(tokens_of sub, ci) \<mapsto> qos]"
proof -
  let ?h = "Subhier (hd (tokens_of sub)) [] None []"
  have "add_ready db (Some ci) [?h]" using assms by (simp add: add_ready_def tree_inv_def)
  then obtain rc h' db' where *: "sub_add db (Some ci) qos ?h (tokens_of sub) = Some (rc, h', db')" "add_frame db (Some ci) rc [?h] [h'] db'"
    "sh_topic h' = sh_topic ?h"
    "\<And>p. node_subs h' p = (if p = tokens_of sub \<and> rc \<noteq> MOSQ_ERR_NOMEM then ctx_upd (Some ci) qos (node_subs ?h p) else node_subs ?h p)"
    using sub_add_spec(1) by blast
  have n: "node_subs ?h p = []" for p by (cases p) auto
  have rc: "rc \<in> {-1, 0}" using *(2) assms(2) by (auto simp: add_frame_def)
  then have "mqtt3_sub_add db ci sub qos = Some (MOSQ_ERR_SUCCESS, db'\<lparr>db_subs := [h']\<rparr>)"
    using assms *(1) root_add_None [of "hd (tokens_of sub)" "db_subs db"]
    unfolding mqtt3_sub_add_def sub_topic_tokenise_tokens [OF assms(2)] new_token_Nil [OF assms(2)] root_known_def by auto
  moreover have "subscriptions (db'\<lparr>db_subs := [h']\<rparr>) = [(tokens_of sub, ci) \<mapsto> qos]"
  proof
    fix x :: "string list \<times> nat"
    obtain p cj where x: "x = (p, cj)" by (cases x)
    have "root_subs [h'] p = (if p = tokens_of sub then [(ci, qos)] else [])"
      using *(3) *(4) [of p] n [of p] rc by (auto simp: ctx_upd_def)
    then show "subscriptions (db'\<lparr>db_subs := [h']\<rparr>) x = [(tokens_of sub, ci) \<mapsto> qos] x" by (simp add: x subscriptions_def)
  qed
  ultimately show ?thesis by blast
qed

theorem sub_add_unknown_root_witness:
  "\<exists>db'. mqtt3_sub_add (demo_db [''bob'', ''eve'']) 1 ''$foo/bar'' 0 = Some (MOSQ_ERR_SUCCESS, db')
     \<and> subscriptions db' = [([''$foo'', ''bar''], 1) \<mapsto> 0]"
proof -
  have t: "tokens_of ''$foo/bar'' = [''$foo'', ''bar'']" by (simp add: tokens_of_def)
  have "\<not> root_known (demo_db [''bob'', ''eve'']) ''$foo/bar''" unfolding root_known_def t by (simp add: demo_db_def)
  moreover have "tree_inv (demo_db [''bob'', ''eve''])" by (rule demo_db_inv) simp
  ultimately show ?thesis
    using sub_add_unknown_root [of "demo_db [''bob'', ''eve'']" 1 "''$foo/bar''" 0] t by (simp add: demo_db_id) (simp add: demo_db_def)
qed

end
