(* ===== verification/Broker_Route.thy ===== *)
theory Broker_Route
  imports Broker_Tree
begin

text \<open>
  Routing: a published message gets to exactly the clients with a matching subscription that may read it
  and have room for it, once each, whatever the shape of the tree and the overlap of the subscriptions.
\<close>

section \<open>The search visits the matching subscriptions\<close>

text \<open>The subscriptions that \<open>sub_search\<close> processes, in its order.\<close>

fun visits :: "subhier list \<Rightarrow> string list \<Rightarrow> (nat \<times> int) list" where
  "visits [] toks = []"
| "visits (Subhier t subs ret ch # bs) toks =
     (if toks \<noteq> [] \<and> (t = hd toks \<or> t = [PLUS]) then visits ch (tl toks) @ (if tl toks = [] then subs else [])
      else if t = [HASH] \<and> ch = [] then subs else [])
     @ visits bs toks"

text \<open>Nothing is below the wildcard for all levels.\<close>

fun hash_ok :: "subhier list \<Rightarrow> bool" where
  "hash_ok [] = True"
| "hash_ok (Subhier t subs ret ch # bs) \<longleftrightarrow> (t = [HASH] \<longrightarrow> ch = []) \<and> hash_ok ch \<and> hash_ok bs"

lemma node_subs_unfold: "node_subs h p = (case p of [] \<Rightarrow> sh_subs h | t # p \<Rightarrow> child_subs (sh_children h) t p)"
  by (cases h; cases p) auto

lemma level_match_Cons: "level_match (t # p) toks \<longleftrightarrow>
    (if t = [HASH] then p = [] else toks \<noteq> [] \<and> (t = hd toks \<or> t = [PLUS]) \<and> level_match p (tl toks))"
  by (cases toks) auto

lemma ex_list_iff: "(\<exists>p. P p) \<longleftrightarrow> P [] \<or> (\<exists>x xs. P (x # xs))"
  by (metis list.exhaust)

lemma visits_set:
  "\<lbrakk>tree_ok bs; hash_ok bs; [HASH] \<notin> set toks\<rbrakk> \<Longrightarrow>
     l \<in> set (visits bs toks) \<longleftrightarrow> (\<exists>t p. l \<in> set (child_subs bs t p) \<and> level_match (t # p) toks)"
proof (induction bs toks arbitrary: l rule: visits.induct)
  case (2 t subs ret ch bs toks)
  let ?h = "Subhier t subs ret ch"
  have IH2: "l \<in> set (visits bs toks) \<longleftrightarrow> (\<exists>t' p. l \<in> set (child_subs bs t' p) \<and> level_match (t' # p) toks)"
    using "2.IH"(2) "2.prems" by simp
  have other: "t \<notin> sh_topic ` set bs" using "2.prems" by simp
  have split: "(\<exists>t' p. l \<in> set (child_subs (?h # bs) t' p) \<and> level_match (t' # p) toks) \<longleftrightarrow>
      (\<exists>p. l \<in> set (node_subs ?h p) \<and> level_match (t # p) toks) \<or> (\<exists>t' p. l \<in> set (child_subs bs t' p) \<and> level_match (t' # p) toks)"
  proof -
    have "child_subs (?h # bs) t' p = (if t' = t then node_subs ?h p else child_subs bs t' p)" for t' p by simp
    then show ?thesis using child_subs_other [OF other] by (metis empty_iff list.set(1))
  qed
  have "(\<exists>p. l \<in> set (node_subs ?h p) \<and> level_match (t # p) toks) \<longleftrightarrow>
      l \<in> set (if toks \<noteq> [] \<and> (t = hd toks \<or> t = [PLUS]) then visits ch (tl toks) @ (if tl toks = [] then subs else [])
        else if t = [HASH] \<and> ch = [] then subs else [])"
  proof (cases "toks \<noteq> [] \<and> (t = hd toks \<or> t = [PLUS])")
    case True
    then have h: "t \<noteq> [HASH]" using "2.prems"(3) by (cases toks) auto
    have IH1: "l \<in> set (visits ch (tl toks)) \<longleftrightarrow> (\<exists>t' p. l \<in> set (child_subs ch t' p) \<and> level_match (t' # p) (tl toks))"
      using "2.IH"(1) [OF True, of l] "2.prems" by (cases toks) auto
    have "(\<exists>p. l \<in> set (node_subs ?h p) \<and> level_match (t # p) toks) \<longleftrightarrow>
        (l \<in> set subs \<and> tl toks = []) \<or> (\<exists>t' p. l \<in> set (child_subs ch t' p) \<and> level_match (t' # p) (tl toks))"
      by (subst ex_list_iff) (use True h in \<open>simp add: level_match_Cons [of t] del: level_match.simps(2)\<close>)
    then show ?thesis using True IH1 by auto
  next
    case False
    have ch: "child_subs ch t' p = []" if "t = [HASH]" for t' p using that "2.prems"(2) by simp
    show ?thesis
    proof (cases "t = [HASH]")
      case True
      then show ?thesis using False "2.prems"(2) by (auto simp: node_subs_unfold level_match_Cons [of t] split: list.splits if_splits)
    next
      case h: False
      then show ?thesis using False by (auto split: list.splits)
    qed
  qed
  then show ?case using IH2 split by (simp only: visits.simps set_append Un_iff)
qed simp

section \<open>The access check\<close>

text \<open>With memory the check leaves the database as it is, and depends on the lists, the plugin and the names only.\<close>

lemma acl_pattern_loop_same:
  "db_allocs db = [] \<Longrightarrow> acl_pattern_loop m topic access pats result db = Some (rc, db') \<Longrightarrow> db' = db"
  by (induction m topic access pats result db arbitrary: rc db' rule: acl_pattern_loop.induct)
    (auto split: if_splits option.splits prod.splits bool.splits simp: bind_eq_Some_conv Let_def)

lemma acl_pattern_loop_cong:
  assumes "c_id m' = c_id m" "c_username m' = c_username m" "db_allocs db = []" "db_allocs db' = []"
  shows "map_option fst (acl_pattern_loop m' topic access pats result db') = map_option fst (acl_pattern_loop m topic access pats result db)"
proof (induction pats arbitrary: result)
  case (Cons pat pats)
  obtain t a where pat: "pat = (t, a)" by fastforce
  show ?case unfolding pat acl_pattern_loop.simps assms(1,2) db_alloc_Nil [OF assms(3)] db_alloc_Nil [OF assms(4)]
    by (simp add: Cons Let_def split: Option.bind_splits)
qed simp

definition acl_rc :: "db \<Rightarrow> nat \<Rightarrow> string \<Rightarrow> int option" where
  "acl_rc db ci topic = map_option fst (mosquitto_acl_check db ci topic MOSQ_ACL_READ)"

lemma acl_check_same:
  assumes "db_allocs db = []" "acl_rc db ci topic = Some rc"
  shows "mosquitto_acl_check db ci topic MOSQ_ACL_READ = Some (rc, db)"
proof -
  obtain db' where c: "mosquitto_acl_check db ci topic MOSQ_ACL_READ = Some (rc, db')"
    using assms(2) by (auto simp: acl_rc_def)
  have "db' = db"
  proof (cases "db_plugin db")
    case None
    then show ?thesis using c assms(1)
      by (auto simp: mosquitto_acl_check_def mosquitto_acl_check_default_def bind_eq_Some_conv
          split: option.splits if_splits dest: acl_pattern_loop_same)
  next
    case (Some f)
    then show ?thesis using c by (auto simp: mosquitto_acl_check_def bind_eq_Some_conv)
  qed
  then show ?thesis using c by simp
qed

lemma acl_rc_open:
  "\<lbrakk>get_ctx ci db = Some cx; db_plugin db = None; db_acl_list db = []; db_acl_patterns db = []\<rbrakk> \<Longrightarrow> acl_rc db ci topic = Some 0"
  by (simp add: acl_rc_def mosquitto_acl_check_def mosquitto_acl_check_default_def)

definition acl_view :: "db \<Rightarrow> nat \<Rightarrow> (string option \<times> (string \<times> int) list) list \<times> (string \<times> int) list \<times> (string option \<Rightarrow> string option \<Rightarrow> string \<Rightarrow> int \<Rightarrow> int) option
    \<times> (bool \<times> (string \<times> int) list option \<times> string option \<times> string option) option" where
  "acl_view db ci = (db_acl_list db, db_acl_patterns db, db_plugin db,
     map_option (\<lambda>cx. (cx_bridge cx = None, cx_acl_list cx, c_id (cx_mosq cx), c_username (cx_mosq cx))) (get_ctx ci db))"

lemma acl_rc_cong:
  assumes "acl_view db' ci = acl_view db ci" "db_allocs db = []" "db_allocs db' = []"
  shows "acl_rc db' ci topic = acl_rc db ci topic"
proof (cases "get_ctx ci db")
  case None
  then have "get_ctx ci db' = None" using assms(1) by (simp add: acl_view_def)
  then show ?thesis using None assms(1)
    by (auto simp: acl_rc_def mosquitto_acl_check_def mosquitto_acl_check_default_def acl_view_def split: option.splits)
next
  case (Some cx)
  obtain cx' where cx': "get_ctx ci db' = Some cx'" using Some assms(1) by (auto simp: acl_view_def)
  have v: "db_acl_list db' = db_acl_list db" "db_acl_patterns db' = db_acl_patterns db" "db_plugin db' = db_plugin db"
    "(cx_bridge cx' = None) = (cx_bridge cx = None)" "cx_acl_list cx' = cx_acl_list cx" "c_id (cx_mosq cx') = c_id (cx_mosq cx)"
    "c_username (cx_mosq cx') = c_username (cx_mosq cx)"
    using assms(1) Some cx' by (simp_all add: acl_view_def)
  note p = acl_pattern_loop_cong [OF v(6,7) assms(2,3)]
  show ?thesis
  proof (cases "db_plugin db")
    case None
    show ?thesis
      unfolding acl_rc_def mosquitto_acl_check_def mosquitto_acl_check_default_def v None Some cx'
      by (auto simp: v p split: Option.bind_splits)
  next
    case (Some f)
    then show ?thesis using cx' \<open>get_ctx ci db = Some cx\<close> by (simp add: acl_rc_def mosquitto_acl_check_def v)
  qed
qed

section \<open>The state while a message is routed\<close>

definition last_ok :: "ctx \<Rightarrow> bool" where
  "last_ok cx \<longleftrightarrow> cx_last_msg cx = (if cx_msgs cx = [] then Last_null else Last_at (length (cx_msgs cx) - 1))"

lemma append_msg_ok: "last_ok cx \<Longrightarrow>
    append_msg m cx = Some (cx\<lparr>cx_msgs := cx_msgs cx @ [m], cx_last_msg := Last_at (length (cx_msgs cx))\<rparr>)"
  by (auto simp: last_ok_def append_msg_def)

lemma get_put_ctx: "get_ctx cj (put_ctx ci cx db) = (if cj = ci \<and> ci < length (db_contexts db) then Some cx else get_ctx cj db)"
  by (auto simp: get_ctx_def put_ctx_def nth_list_update)

lemma get_ctx_upd [simp]:
  "get_ctx ci (db\<lparr>db_heap := hp\<rparr>) = get_ctx ci db" "get_ctx ci (db\<lparr>db_persistence_changes := n\<rparr>) = get_ctx ci db"
  "get_ctx ci (db\<lparr>db_msgs_dropped := n\<rparr>) = get_ctx ci db" "get_ctx ci (db\<lparr>db_retained_count := n\<rparr>) = get_ctx ci db"
  "get_ctx ci (db\<lparr>db_subs := hs\<rparr>) = get_ctx ci db" "get_ctx ci (db\<lparr>db_allocs := al\<rparr>) = get_ctx ci db"
  by (simp_all add: get_ctx_def)

lemma get_ctx_length: "get_ctx ci db = Some cx \<Longrightarrow> ci < length (db_contexts db)"
  by (auto simp: get_ctx_def split: if_splits)

text \<open>The QoS of a delivery, and whether the client takes a message of a QoS and may read the topic.\<close>

definition eff_qos :: "db \<Rightarrow> int \<Rightarrow> int \<Rightarrow> int" where
  "eff_qos db pq q = (if cf_upgrade_outgoing_qos (db_config db) then q else min pq q)"

definition accepts :: "db \<Rightarrow> ctx \<Rightarrow> int \<Rightarrow> bool" where
  "accepts db cx qos \<longleftrightarrow> (c_sock (cx_mosq cx) = INVALID_SOCKET \<longrightarrow> qos \<noteq> 0 \<or> cf_queue_qos0_messages (db_config db))
     \<and> (case insert_state db cx mosq_md_out qos of Is_state _ _ \<Rightarrow> True | _ \<Rightarrow> False)"

definition gets :: "db \<Rightarrow> pub \<Rightarrow> nat \<Rightarrow> int \<Rightarrow> bool" where
  "gets db pb ci q \<longleftrightarrow> acl_rc db ci (pb_topic pb) = Some MOSQ_ERR_SUCCESS
     \<and> (case get_ctx ci db of None \<Rightarrow> False | Some cx \<Rightarrow> accepts db cx (eff_qos db (pb_qos pb) q))"

definition out_msg :: "db \<Rightarrow> pub \<Rightarrow> ctx \<Rightarrow> int \<Rightarrow> u16 \<Rightarrow> client_msg" where
  "out_msg db pb cx q mid = \<lparr>cm_store = pb_stored pb, cm_mid = mid, cm_qos = eff_qos db (pb_qos pb) q, cm_retain = False,
     cm_timestamp = db_now db, cm_direction = mosq_md_out,
     cm_state = (case insert_state db cx mosq_md_out (eff_qos db (pb_qos pb) q) of Is_state s _ \<Rightarrow> s | _ \<Rightarrow> mosq_ms_invalid),
     cm_dup = False\<rparr>"

definition served :: "db \<Rightarrow> pub \<Rightarrow> (nat \<times> int) set \<Rightarrow> nat \<Rightarrow> bool" where
  "served db pb S ci \<longleftrightarrow> (\<exists>q. (ci, q) \<in> S \<and> gets db pb ci q)"

definition same_settings :: "db \<Rightarrow> db \<Rightarrow> bool" where
  "same_settings db0 db \<longleftrightarrow> db_config db = db_config db0 \<and> db_max_inflight db = db_max_inflight db0
     \<and> db_max_queued db = db_max_queued db0 \<and> db_now db = db_now db0 \<and> db_acl_list db = db_acl_list db0
     \<and> db_acl_patterns db = db_acl_patterns db0 \<and> db_plugin db = db_plugin db0"

text \<open>What routing leaves of a client, and its queue when the subscriptions \<open>S\<close> have been visited.\<close>

definition ctx_kept :: "ctx \<Rightarrow> ctx \<Rightarrow> bool" where
  "ctx_kept cx0 cx \<longleftrightarrow> (\<exists>mid. cx_mosq cx = (cx_mosq cx0)\<lparr>c_last_mid := mid\<rparr>) \<and> cx_is_bridge cx = cx_is_bridge cx0
     \<and> cx_bridge cx = cx_bridge cx0 \<and> cx_acl_list cx = cx_acl_list cx0"

definition queue_routed :: "db \<Rightarrow> pub \<Rightarrow> (nat \<times> int) set \<Rightarrow> nat \<Rightarrow> ctx \<Rightarrow> ctx \<Rightarrow> bool" where
  "queue_routed db0 pb S ci cx0 cx \<longleftrightarrow>
     (if served db0 pb S ci
      then \<exists>q mid. (ci, q) \<in> S \<and> gets db0 pb ci q \<and> cx_msgs cx = cx_msgs cx0 @ [out_msg db0 pb cx0 q mid]
      else cx_msgs cx = cx_msgs cx0 \<and> cx_last_msg cx = cx_last_msg cx0 \<and> cx_msg_count12 cx = cx_msg_count12 cx0)"

definition dests_routed :: "db \<Rightarrow> pub \<Rightarrow> (nat \<times> int) set \<Rightarrow> msg_store \<Rightarrow> bool" where
  "dests_routed db0 pb S st \<longleftrightarrow> None \<notin> set (st_dest_ids st)
     \<and> (\<forall>ci cid. ctx_id db0 ci = Some cid \<longrightarrow> (Some cid \<in> set (st_dest_ids st) \<longleftrightarrow> served db0 pb S ci))"

definition routed :: "db \<Rightarrow> pub \<Rightarrow> nat set \<Rightarrow> (nat \<times> int) set \<Rightarrow> db \<Rightarrow> bool" where
  "routed db0 pb T S db \<longleftrightarrow> db_allocs db = [] \<and> same_settings db0 db \<and> dom (db_heap db) = dom (db_heap db0)
     \<and> (\<forall>ci. ci \<notin> T \<longrightarrow> get_ctx ci db = get_ctx ci db0)
     \<and> (\<forall>ci \<in> T. \<exists>cx0 cx. get_ctx ci db0 = Some cx0 \<and> get_ctx ci db = Some cx \<and> ctx_kept cx0 cx \<and> queue_routed db0 pb S ci cx0 cx)
     \<and> fst ` S \<subseteq> T \<and> (\<exists>st. db_heap db (pb_stored pb) = Some st \<and> dests_routed db0 pb S st)"

text \<open>The clients that a message may be routed to: with an id, no bridges, and a valid last pointer.\<close>

definition routable :: "db \<Rightarrow> pub \<Rightarrow> nat \<times> int \<Rightarrow> bool" where
  "routable db pb = (\<lambda>(ci, q). ctx_id db ci \<noteq> None \<and> acl_rc db ci (pb_topic pb) \<noteq> None \<and> q \<in> {0, 1, 2}
     \<and> (case get_ctx ci db of None \<Rightarrow> False | Some cx \<Rightarrow> \<not> cx_is_bridge cx \<and> cx_bridge cx = None \<and> last_ok cx))"

lemma ctx_kept_refl [simp]: "ctx_kept cx cx"
  by (auto simp: ctx_kept_def intro: exI [of _ "c_last_mid (cx_mosq cx)"])

lemma ctx_keptD:
  assumes "ctx_kept cx0 cx"
  shows "c_id (cx_mosq cx) = c_id (cx_mosq cx0)" "c_username (cx_mosq cx) = c_username (cx_mosq cx0)"
    "c_sock (cx_mosq cx) = c_sock (cx_mosq cx0)" "cx_is_bridge cx = cx_is_bridge cx0" "cx_bridge cx = cx_bridge cx0" "cx_acl_list cx = cx_acl_list cx0"
  using assms by (auto simp: ctx_kept_def)

lemma served_insert: "served db pb (insert (ci, q) S) cj \<longleftrightarrow> served db pb S cj \<or> cj = ci \<and> gets db pb ci q"
  by (auto simp: served_def)

lemma not_served: "ci \<notin> fst ` S \<Longrightarrow> \<not> served db pb S ci"
  by (force simp: served_def)

lemma routedD:
  assumes "routed db0 pb T S db"
  shows "db_allocs db = []" "same_settings db0 db" "dom (db_heap db) = dom (db_heap db0)" "fst ` S \<subseteq> T"
    "ci \<notin> T \<Longrightarrow> get_ctx ci db = get_ctx ci db0"
    "ci \<in> T \<Longrightarrow> \<exists>cx0 cx. get_ctx ci db0 = Some cx0 \<and> get_ctx ci db = Some cx \<and> ctx_kept cx0 cx \<and> queue_routed db0 pb S ci cx0 cx"
    "\<exists>st. db_heap db (pb_stored pb) = Some st \<and> dests_routed db0 pb S st"
  using assms unfolding routed_def by blast+

lemma routed_ctx:
  assumes "routed db0 pb T S db" "get_ctx ci db0 = Some cx0"
  shows "\<exists>cx. get_ctx ci db = Some cx \<and> ctx_kept cx0 cx \<and> queue_routed db0 pb S ci cx0 cx"
proof (cases "ci \<in> T")
  case True
  then show ?thesis using routedD(6) [OF assms(1) True] assms(2) by auto
next
  case False
  moreover have "\<not> served db0 pb S ci" using False routedD(4) [OF assms(1)] not_served [of ci S] by blast
  ultimately show ?thesis using routedD(5) [OF assms(1) False] assms(2) by (simp add: queue_routed_def)
qed

lemma routed_acl:
  assumes r: "routed db0 pb T S db" and cx: "get_ctx ci db0 = Some cx0" and a: "db_allocs db0 = []"
  shows "acl_rc db ci topic = acl_rc db0 ci topic"
proof -
  obtain cx where c: "get_ctx ci db = Some cx" "ctx_kept cx0 cx" using routed_ctx [OF r cx] by auto
  have "acl_view db ci = acl_view db0 ci"
    using routedD(2) [OF r] cx c(1) ctx_keptD [OF c(2)] by (simp add: acl_view_def same_settings_def)
  then show ?thesis using acl_rc_cong routedD(1) [OF r] a by blast
qed

lemma queue_routed_other:
  assumes "queue_routed db0 pb S cj cx0 cx" "S \<subseteq> S'" "served db0 pb S' cj = served db0 pb S cj"
  shows "queue_routed db0 pb S' cj cx0 cx"
  using assms unfolding queue_routed_def by (auto split: if_splits)

text \<open>The message of one client is settled: its context is replaced, all others stay.\<close>

lemma routed_put:
  assumes r: "routed db0 pb T S db" and cx0: "get_ctx ci db0 = Some cx0" and S: "S \<subseteq> S'" "S' \<subseteq> insert (ci, q) S"
    and db': "db_contexts db' = (db_contexts db)[ci := Some cx]" "db_allocs db' = []" "same_settings db0 db'"
      "dom (db_heap db') = dom (db_heap db)" "db_heap db' (pb_stored pb) = Some st"
    and cx: "ctx_kept cx0 cx" "queue_routed db0 pb S' ci cx0 cx" and st: "dests_routed db0 pb S' st"
  shows "routed db0 pb (insert ci T) S' db'"
  unfolding routed_def
proof (intro conjI allI ballI impI)
  obtain cx1 where "get_ctx ci db = Some cx1" using routed_ctx [OF r cx0] by auto
  then have len: "ci < length (db_contexts db)" by (rule get_ctx_length)
  have g: "get_ctx cj db' = (if cj = ci then Some cx else get_ctx cj db)" for cj
    unfolding get_ctx_def db'(1) using len by (simp add: nth_list_update)
  show "dom (db_heap db') = dom (db_heap db0)" using db'(4) routedD(3) [OF r] by simp
  show "get_ctx cj db' = get_ctx cj db0" if "cj \<notin> insert ci T" for cj using that g routedD(5) [OF r, of cj] by simp
  show "\<exists>c0 c. get_ctx cj db0 = Some c0 \<and> get_ctx cj db' = Some c \<and> ctx_kept c0 c \<and> queue_routed db0 pb S' cj c0 c" if "cj \<in> insert ci T" for cj
  proof (cases "cj = ci")
    case True
    then show ?thesis using g cx cx0 by auto
  next
    case False
    then have "served db0 pb S' cj = served db0 pb S cj" using S unfolding served_def by auto
    then show ?thesis using routedD(6) [OF r, of cj] that False g queue_routed_other [OF _ S(1), of db0 pb cj] by auto
  qed
  have "fst ` S' \<subseteq> fst ` insert (ci, q) S" using S(2) by (rule image_mono)
  then show "fst ` S' \<subseteq> insert ci T" using routedD(4) [OF r] by auto
qed (use db' st in auto)

lemma mid_generate_kept: "\<exists>mid. mosquitto_mid_generate m = (mid, m\<lparr>c_last_mid := mid\<rparr>)"
  by (cases m) (simp add: mosquitto_mid_generate_def Let_def)

lemma queue_routed_cong:
  "\<lbrakk>queue_routed db0 pb S ci cx0 cx; cx_msgs cx' = cx_msgs cx; cx_last_msg cx' = cx_last_msg cx; cx_msg_count12 cx' = cx_msg_count12 cx\<rbrakk>
     \<Longrightarrow> queue_routed db0 pb S ci cx0 cx'"
  unfolding queue_routed_def by (auto split: if_splits)

lemma same_settings_trans: "\<lbrakk>same_settings a b; same_settings b c\<rbrakk> \<Longrightarrow> same_settings a c"
  by (simp add: same_settings_def)

lemma same_settings_put [simp]: "same_settings db (put_ctx ci cx db)"
  by (simp add: same_settings_def put_ctx_def)

lemma put_ctx_sel [simp]: "db_allocs (put_ctx ci cx db) = db_allocs db" "db_heap (put_ctx ci cx db) = db_heap db"
  "db_contexts (put_ctx ci cx db) = (db_contexts db)[ci := Some cx]" "db_config (put_ctx ci cx db) = db_config db"
  "db_subs (put_ctx ci cx db) = db_subs db" "db_now (put_ctx ci cx db) = db_now db" "db_max_inflight (put_ctx ci cx db) = db_max_inflight db"
  by (simp_all add: put_ctx_def)

lemma ctx_mid_routed:
  assumes r: "routed db0 pb T S db" and cx0: "get_ctx ci db0 = Some cx0"
  shows "\<exists>mid db'. ctx_mid ci db = Some (mid, db') \<and> routed db0 pb (insert ci T) S db'"
proof -
  obtain cx where cx: "get_ctx ci db = Some cx" "ctx_kept cx0 cx" "queue_routed db0 pb S ci cx0 cx" using routed_ctx [OF r cx0] by auto
  obtain mid where m: "mosquitto_mid_generate (cx_mosq cx) = (mid, (cx_mosq cx)\<lparr>c_last_mid := mid\<rparr>)" using mid_generate_kept by blast
  let ?cx = "cx\<lparr>cx_mosq := (cx_mosq cx)\<lparr>c_last_mid := mid\<rparr>\<rparr>"
  obtain st where st: "db_heap db (pb_stored pb) = Some st" "dests_routed db0 pb S st" using routedD(7) [OF r] by auto
  have "ctx_kept cx0 ?cx" using cx(2) by (auto simp: ctx_kept_def)
  moreover have "queue_routed db0 pb S ci cx0 ?cx" using cx(3) by (rule queue_routed_cong) simp_all
  ultimately have "routed db0 pb (insert ci T) S (put_ctx ci ?cx db)"
    using routedD(1,2) [OF r] st by (intro routed_put [OF r cx0 order.refl subset_insertI])
      (auto intro: same_settings_trans)
  then show ?thesis using cx(1) m by (simp add: ctx_mid_def)
qed

lemma routed_touch:
  assumes r: "routed db0 pb T S db" and cx0: "get_ctx ci db0 = Some cx0" and cx: "get_ctx ci db = Some cx"
    and kept: "ctx_kept cx0 cx'" "cx_msgs cx' = cx_msgs cx" "cx_last_msg cx' = cx_last_msg cx" "cx_msg_count12 cx' = cx_msg_count12 cx"
    and db': "db_contexts db' = (db_contexts db)[ci := Some cx']" "db_allocs db' = []" "same_settings db0 db'" "db_heap db' = db_heap db"
    and served: "served db0 pb (insert (ci, q) S) = served db0 pb S"
  shows "routed db0 pb (insert ci T) (insert (ci, q) S) db'"
proof -
  obtain st where st: "db_heap db (pb_stored pb) = Some st" "dests_routed db0 pb S st" using routedD(7) [OF r] by auto
  have "queue_routed db0 pb S ci cx0 cx" using routed_ctx [OF r cx0] cx by simp
  then have q: "queue_routed db0 pb (insert (ci, q) S) ci cx0 cx'"
    using queue_routed_cong [OF queue_routed_other [OF _ subset_insertI] kept(2-4)] served by simp
  have "dests_routed db0 pb (insert (ci, q) S) st" using st(2) served by (simp add: dests_routed_def)
  then show ?thesis using st(1) db' kept(1) q by (intro routed_put [OF r cx0 subset_insertI order.refl]) auto
qed

lemma dest_has_iff: "None \<notin> set ds \<Longrightarrow> dest_has cid ds = Some (Some cid \<in> set ds)"
  by (induction cid ds rule: dest_has.induct) auto

lemma insert_state_cong:
  "\<lbrakk>same_settings db0 db; c_sock (cx_mosq cx) = c_sock (cx_mosq cx0); cx_msg_count12 cx = cx_msg_count12 cx0\<rbrakk>
     \<Longrightarrow> insert_state db cx dir qos = insert_state db0 cx0 dir qos"
  by (simp add: insert_state_def same_settings_def)

lemma insert_state_valid: "\<lbrakk>insert_state db cx mosq_md_out qos = Is_state s rc; qos \<in> {0, 1, 2}\<rbrakk> \<Longrightarrow> s \<noteq> mosq_ms_invalid"
  by (auto simp: insert_state_def publish_state_def split: if_splits)

lemma insert_state_out: "insert_state db cx mosq_md_out qos \<noteq> Is_refuse"
  by (simp add: insert_state_def)

text \<open>The effect of a successful insertion, with memory and a valid last pointer.\<close>

lemma message_insert_takes:
  assumes cx: "get_ctx ci db = Some cx" "c_id (cx_mosq cx) = Some cid" "cx_bridge cx = None" "last_ok cx"
    and db: "db_allocs db = []" "db_heap db stored = Some st" "\<not> cf_allow_duplicate_messages (db_config db)"
    and new: "already_sent db cx mosq_md_out False st = Some False" "accepts db cx qos" "qos \<in> {0, 1, 2}"
      "insert_state db cx mosq_md_out qos = Is_state s rc"
  shows "\<exists>db' n. mqtt3_db_message_insert db ci mid mosq_md_out qos False stored = Some (rc, db')
    \<and> db' = db\<lparr>db_persistence_changes := n, db_heap := (db_heap db)(stored \<mapsto> st\<lparr>st_ref_count := st_ref_count st + 1,
          st_dest_ids := st_dest_ids st @ [Some cid]\<rparr>),
        db_contexts := (db_contexts db)[ci := Some (cx\<lparr>cx_msgs := cx_msgs cx @ [\<lparr>cm_store = stored, cm_mid = mid, cm_qos = qos,
            cm_retain = False, cm_timestamp = db_now db, cm_direction = mosq_md_out, cm_state = s, cm_dup = False\<rparr>],
          cx_last_msg := Last_at (length (cx_msgs cx)), cx_msg_count := cx_msg_count cx + 1,
          cx_msg_count12 := (if qos > 0 then cx_msg_count12 cx + 1 else cx_msg_count12 cx)\<rparr>)]\<rparr>"
proof -
  obtain n where n: "(if s = mosq_ms_queued then db\<lparr>db_persistence_changes := db_persistence_changes db + 1\<rparr> else db) = db\<lparr>db_persistence_changes := n\<rparr>"
    by (cases "s = mosq_ms_queued"; cases db) simp_all
  let ?db = "db\<lparr>db_persistence_changes := n\<rparr>"
  let ?m = "\<lparr>cm_store = stored, cm_mid = mid, cm_qos = qos, cm_retain = False, cm_timestamp = db_now db,
      cm_direction = mosq_md_out, cm_state = s, cm_dup = False\<rparr>"
  define cx' where "cx' = cx\<lparr>cx_msgs := cx_msgs cx @ [?m], cx_last_msg := Last_at (length (cx_msgs cx)), cx_msg_count := cx_msg_count cx + 1,
      cx_msg_count12 := (if qos > 0 then cx_msg_count12 cx + 1 else cx_msg_count12 cx)\<rparr>"
  define db1 where "db1 = put_ctx ci cx' (?db\<lparr>db_heap := (db_heap db)(stored \<mapsto> st\<lparr>st_ref_count := st_ref_count st + 1\<rparr>)\<rparr>)"
  define db2 where "db2 = db1\<lparr>db_heap := (db_heap db)(stored \<mapsto> st\<lparr>st_ref_count := st_ref_count st + 1, st_dest_ids := st_dest_ids st @ [Some cid]\<rparr>)\<rparr>"
  have len: "ci < length (db_contexts db)" using cx(1) by (rule get_ctx_length)
  have q: "insert_queue ?db ci mid mosq_md_out qos False stored s = Some db1"
    using db cx(1) append_msg_ok [OF cx(4), of ?m] by (simp add: insert_queue_def add_ref_def db1_def cx'_def)
  have db1: "get_ctx ci db1 = Some cx'" "db_allocs db1 = []" "db_config db1 = db_config db" "db_heap db1 stored = Some (st\<lparr>st_ref_count := st_ref_count st + 1\<rparr>)"
    using len db by (simp_all add: get_put_ctx db1_def)
  have cx': "c_id (cx_mosq cx') = Some cid" "bridge_wakeup cx' = cx'" using cx(2,3) by (simp_all add: cx'_def bridge_wakeup_def)
  have d: "record_dest db1 ci stored = Some (True, db2)"
    using db1 cx' by (simp add: record_dest_def db2_def) (simp add: db1_def)
  have na: "\<not> (c_sock (cx_mosq cx) = INVALID_SOCKET \<and> qos = 0 \<and> \<not> cf_queue_qos0_messages (db_config db)
      \<and> (case cx_bridge cx of None \<Rightarrow> True | Some b \<Rightarrow> \<not> br_lazy b))"
    using new(2) by (auto simp: accepts_def)
  have v: "s \<noteq> mosq_ms_invalid" using insert_state_valid new(3,4) by blast
  have g2: "get_ctx ci db2 = Some cx'" using db1 by (simp add: db2_def)
  have "mqtt3_db_message_insert db ci mid mosq_md_out qos False stored = Some (rc, put_ctx ci cx' db2)"
    unfolding mqtt3_db_message_insert_def using cx(1) db new(1,4) na v db1 cx' g2
    by (auto simp: n Let_def q d)
  moreover have "put_ctx ci cx' db2 = db\<lparr>db_persistence_changes := n,
      db_heap := (db_heap db)(stored \<mapsto> st\<lparr>st_ref_count := st_ref_count st + 1, st_dest_ids := st_dest_ids st @ [Some cid]\<rparr>),
      db_contexts := (db_contexts db)[ci := Some cx']\<rparr>"
    by (simp add: put_ctx_def db2_def db1_def)
  ultimately show ?thesis unfolding cx'_def by blast
qed

text \<open>The conditions under which a message is routed.\<close>

definition pub_ok :: "db \<Rightarrow> pub \<Rightarrow> bool" where
  "pub_ok db pb \<longleftrightarrow> db_allocs db = [] \<and> ids_ok db \<and> \<not> cf_allow_duplicate_messages (db_config db)
     \<and> pb_qos pb \<in> {0, 1, 2} \<and> pb_source pb \<noteq> None
     \<and> (case db_heap db (pb_stored pb) of None \<Rightarrow> False | Some st \<Rightarrow> st_dest_ids st = [])"

lemma already_sent_served:
  assumes "same_settings db0 db" "\<not> cf_allow_duplicate_messages (db_config db0)" "c_id (cx_mosq cx) = Some cid" "ctx_id db0 ci = Some cid"
    "dests_routed db0 pb S st"
  shows "already_sent db cx mosq_md_out False st = Some (served db0 pb S ci)"
proof -
  have d: "None \<notin> set (st_dest_ids st)" "Some cid \<in> set (st_dest_ids st) \<longleftrightarrow> served db0 pb S ci"
    using assms(4,5) by (auto simp: dests_routed_def)
  have "db_config db = db_config db0" using assms(1) by (simp add: same_settings_def)
  then show ?thesis using d assms(2,3) by (cases "st_dest_ids st") (auto simp: already_sent_def dest_has_iff)
qed

lemma eff_qos_range: "\<lbrakk>pq \<in> {0, 1, 2}; q \<in> {0, 1, 2}\<rbrakk> \<Longrightarrow> eff_qos db pq q \<in> {0, 1, 2}"
  by (auto simp: eff_qos_def)

lemma insert_takes_routed:
  assumes r: "routed db0 pb T S db" and ok: "pub_ok db0 pb" "routable db0 pb (ci, q)" and cx0: "get_ctx ci db0 = Some cx0"
    and g: "gets db0 pb ci q" "\<not> served db0 pb S ci"
  shows "\<exists>rc db'. mqtt3_db_message_insert db ci mid mosq_md_out (eff_qos db0 (pb_qos pb) q) False (pb_stored pb) = Some (rc, db')
    \<and> routed db0 pb (insert ci T) (insert (ci, q) S) db'"
proof -
  let ?e = "eff_qos db0 (pb_qos pb) q"
  obtain cx where cx: "get_ctx ci db = Some cx" "ctx_kept cx0 cx" "queue_routed db0 pb S ci cx0 cx" using routed_ctx [OF r cx0] by auto
  obtain st where st: "db_heap db (pb_stored pb) = Some st" "dests_routed db0 pb S st" using routedD(7) [OF r] by auto
  obtain cid where cid: "ctx_id db0 ci = Some cid" "c_id (cx_mosq cx) = Some cid"
    using ok(2) cx0 ctx_keptD(1) [OF cx(2)] by (auto simp: routable_def ctx_id_def)
  note set = routedD(2) [OF r] and kept = ctx_keptD [OF cx(2)]
  have same: "cx_msgs cx = cx_msgs cx0" "cx_last_msg cx = cx_last_msg cx0" "cx_msg_count12 cx = cx_msg_count12 cx0"
    using cx(3) g(2) by (auto simp: queue_routed_def)
  have ist: "insert_state db cx mosq_md_out ?e = insert_state db0 cx0 mosq_md_out ?e"
    by (rule insert_state_cong [OF set kept(3) same(3)])
  obtain s rc where s: "insert_state db0 cx0 mosq_md_out ?e = Is_state s rc" and acc: "accepts db0 cx0 ?e"
    using g(1) cx0 by (auto simp: gets_def accepts_def split: insert_state.splits)
  have a: "accepts db cx ?e" using acc ist kept(3) set by (simp add: accepts_def same_settings_def)
  have lo: "last_ok cx" "cx_bridge cx = None" using ok(2) cx0 same kept by (auto simp: routable_def last_ok_def)
  have sent: "already_sent db cx mosq_md_out False st = Some False"
    using already_sent_served [OF set _ cid(2,1) st(2)] ok(1) g(2) by (simp add: pub_ok_def)
  have e: "?e \<in> {0, 1, 2}" using ok eff_qos_range by (simp add: pub_ok_def routable_def)
  have dup: "\<not> cf_allow_duplicate_messages (db_config db)" using ok(1) set by (simp add: pub_ok_def same_settings_def)
  have now: "db_now db = db_now db0" using set by (simp add: same_settings_def)
  define cx' where "cx' = cx\<lparr>cx_msgs := cx_msgs cx @ [out_msg db0 pb cx0 q mid], cx_last_msg := Last_at (length (cx_msgs cx)),
      cx_msg_count := cx_msg_count cx + 1, cx_msg_count12 := (if ?e > 0 then cx_msg_count12 cx + 1 else cx_msg_count12 cx)\<rparr>"
  define st' where "st' = st\<lparr>st_ref_count := st_ref_count st + 1, st_dest_ids := st_dest_ids st @ [Some cid]\<rparr>"
  obtain db' n where db': "mqtt3_db_message_insert db ci mid mosq_md_out ?e False (pb_stored pb) = Some (rc, db')"
    "db' = db\<lparr>db_persistence_changes := n, db_heap := (db_heap db)(pb_stored pb \<mapsto> st'), db_contexts := (db_contexts db)[ci := Some cx']\<rparr>"
    using message_insert_takes [OF cx(1) cid(2) lo(2,1) routedD(1) [OF r] st(1) dup sent a e, of s rc mid] ist s
    by (auto simp: cx'_def st'_def out_msg_def now)
  have sv: "served db0 pb (insert (ci, q) S) cj \<longleftrightarrow> served db0 pb S cj \<or> cj = ci" for cj using g(1) by (auto simp: served_insert)
  have "dests_routed db0 pb (insert (ci, q) S) st'"
    using st(2) cid(1) ok(1) unfolding dests_routed_def st'_def by (auto simp: sv pub_ok_def dest: ids_okD)
  moreover have "queue_routed db0 pb (insert (ci, q) S) ci cx0 cx'"
    using sv [of ci] g(1) by (auto simp: queue_routed_def cx'_def same)
  moreover have "ctx_kept cx0 cx'" using cx(2) by (simp add: ctx_kept_def cx'_def)
  ultimately have "routed db0 pb (insert ci T) (insert (ci, q) S) db'"
    using st(1) routedD(1) [OF r] set unfolding db'(2)
    by (intro routed_put [OF r cx0 subset_insertI order.refl]) (auto simp: same_settings_def)
  then show ?thesis using db'(1) by blast
qed

text \<open>A message that the client has already got, or does not take.\<close>

lemma served_insert_same: "served db pb S ci \<or> \<not> gets db pb ci q \<Longrightarrow> served db pb (insert (ci, q) S) = served db pb S"
  by (auto simp: served_insert fun_eq_iff)

lemma insert_skips_routed:
  assumes r: "routed db0 pb T S db" and ok: "pub_ok db0 pb" "routable db0 pb (ci, q)" and cx0: "get_ctx ci db0 = Some cx0"
    and acl: "acl_rc db0 ci (pb_topic pb) = Some MOSQ_ERR_SUCCESS" and g: "served db0 pb S ci \<or> \<not> gets db0 pb ci q"
  shows "\<exists>rc db'. mqtt3_db_message_insert db ci mid mosq_md_out (eff_qos db0 (pb_qos pb) q) False (pb_stored pb) = Some (rc, db')
    \<and> routed db0 pb (insert ci T) (insert (ci, q) S) db'"
proof -
  let ?e = "eff_qos db0 (pb_qos pb) q"
  obtain cx where cx: "get_ctx ci db = Some cx" "ctx_kept cx0 cx" "queue_routed db0 pb S ci cx0 cx" using routed_ctx [OF r cx0] by auto
  obtain st where st: "db_heap db (pb_stored pb) = Some st" "dests_routed db0 pb S st" using routedD(7) [OF r] by auto
  obtain cid where cid: "ctx_id db0 ci = Some cid" "c_id (cx_mosq cx) = Some cid"
    using ok(2) cx0 ctx_keptD(1) [OF cx(2)] by (auto simp: routable_def ctx_id_def)
  note set = routedD(2) [OF r] and kept = ctx_keptD [OF cx(2)] and same = served_insert_same [OF g]
  have sent: "already_sent db cx mosq_md_out False st = Some (served db0 pb S ci)"
    using already_sent_served [OF set _ cid(2,1) st(2)] ok(1) by (simp add: pub_ok_def)
  have unchanged: "(db_contexts db)[ci := Some cx] = db_contexts db"
    using cx(1) by (auto simp: get_ctx_def list_update_same_conv split: if_splits)
  have keep: "routed db0 pb (insert ci T) (insert (ci, q) S) db"
    by (rule routed_touch [OF r cx0 cx(1) cx(2)]) (use unchanged routedD(1) [OF r] set same in auto)
  show ?thesis
  proof (cases "served db0 pb S ci")
    case True
    then show ?thesis using cx(1) st(1) sent keep by (simp add: mqtt3_db_message_insert_def)
  next
    case False
    then have e: "\<not> accepts db0 cx0 ?e" using g acl cx0 by (simp add: gets_def)
    have c12: "cx_msg_count12 cx = cx_msg_count12 cx0" using cx(3) False by (auto simp: queue_routed_def)
    have b: "cx_bridge cx = None" using ok(2) cx0 kept by (auto simp: routable_def)
    have cf: "cf_queue_qos0_messages (db_config db) = cf_queue_qos0_messages (db_config db0)" using set by (simp add: same_settings_def)
    show ?thesis
    proof (cases "c_sock (cx_mosq cx) = INVALID_SOCKET \<and> ?e = 0 \<and> \<not> cf_queue_qos0_messages (db_config db)")
      case True
      then show ?thesis using cx(1) st(1) sent False b keep by (simp add: mqtt3_db_message_insert_def)
    next
      case online: False
      have "insert_state db0 cx0 mosq_md_out ?e = Is_drop"
        using e online kept(3) cf insert_state_out [of db0 cx0 ?e] by (auto simp: accepts_def split: insert_state.splits)
      then have i: "insert_state db cx mosq_md_out ?e = Is_drop" using insert_state_cong [OF set kept(3) c12] by simp
      let ?db = "(put_ctx ci (cx\<lparr>cx_is_dropping := True\<rparr>) db)\<lparr>db_msgs_dropped := db_msgs_dropped db + 1\<rparr>"
      have "mqtt3_db_message_insert db ci mid mosq_md_out ?e False (pb_stored pb) = Some (2, ?db)"
        using cx(1) st(1) sent False b online i by (auto simp: mqtt3_db_message_insert_def)
      moreover have "ctx_kept cx0 (cx\<lparr>cx_is_dropping := True\<rparr>)" using cx(2) by (simp add: ctx_kept_def)
      then have "routed db0 pb (insert ci T) (insert (ci, q) S) ?db"
        by (rule routed_touch [OF r cx0 cx(1)]) (use routedD(1) [OF r] set same in \<open>auto simp: same_settings_def put_ctx_def\<close>)
      ultimately show ?thesis by blast
    qed
  qed
qed

lemma process_leaf_routed:
  assumes r: "routed db0 pb T S db" and ok: "pub_ok db0 pb" "routable db0 pb (ci, q)"
  shows "\<exists>rc' db'. process_leaf pb ci q rc db = Some (rc', db') \<and> routed db0 pb (insert ci T) (insert (ci, q) S) db'"
proof -
  obtain cx0 where cx0: "get_ctx ci db0 = Some cx0" "\<not> cx_is_bridge cx0" using ok(2) by (auto simp: routable_def split: option.splits)
  obtain cx where cx: "get_ctx ci db = Some cx" "ctx_kept cx0 cx" using routed_ctx [OF r cx0(1)] by auto
  obtain rc2 where a0: "acl_rc db0 ci (pb_topic pb) = Some rc2" using ok(2) by (auto simp: routable_def)
  have all0: "db_allocs db0 = []" using ok(1) by (simp add: pub_ok_def)
  have a: "mosquitto_acl_check db ci (pb_topic pb) MOSQ_ACL_READ = Some (rc2, db)"
    using acl_check_same [OF routedD(1) [OF r]] routed_acl [OF r cx0(1) all0] a0 by simp
  have b: "\<not> cx_is_bridge cx" using cx0(2) ctx_keptD(4) [OF cx(2)] by simp
  let ?e = "eff_qos db0 (pb_qos pb) q"
  show ?thesis
  proof (cases "rc2 = 0")
    case False
    then have "\<not> gets db0 pb ci q" using a0 by (simp add: gets_def)
    then have "served db0 pb (insert (ci, q) S) = served db0 pb S" by (simp add: served_insert_same)
    moreover have "(db_contexts db)[ci := Some cx] = db_contexts db"
      using cx(1) by (auto simp: get_ctx_def list_update_same_conv split: if_splits)
    ultimately have "routed db0 pb (insert ci T) (insert (ci, q) S) db"
      by (intro routed_touch [OF r cx0(1) cx(1) cx(2)]) (use routedD(1,2) [OF r] in auto)
    then show ?thesis using cx(1) a b False by (simp add: process_leaf_def)
  next
    case True
    have e: "(if cf_upgrade_outgoing_qos (db_config db) then q else if pb_qos pb > q then q else pb_qos pb) = ?e"
      using routedD(2) [OF r] by (auto simp: eff_qos_def same_settings_def)
    obtain mid db1 where m: "(if ?e \<noteq> 0 then ctx_mid ci db else Some (0, db)) = Some (mid, db1)" "\<exists>T1. routed db0 pb T1 S db1 \<and> insert ci T1 = insert ci T"
      using ctx_mid_routed [OF r cx0(1)] r by (cases "?e = 0") (auto intro: exI [of _ T] exI [of _ "insert ci T"])
    then obtain T1 where T1: "routed db0 pb T1 S db1" "insert ci T1 = insert ci T" by blast
    have "\<exists>rc db'. mqtt3_db_message_insert db1 ci mid mosq_md_out ?e False (pb_stored pb) = Some (rc, db')
        \<and> routed db0 pb (insert ci T1) (insert (ci, q) S) db'"
      using insert_takes_routed [OF T1(1) ok cx0(1)] insert_skips_routed [OF T1(1) ok cx0(1)] a0 True by blast
    then show ?thesis using cx(1) a b True m(1) e T1(2) by (auto simp: process_leaf_def)
  qed
qed

lemma process_leaves_routed:
  assumes "routed db0 pb T S db" "pub_ok db0 pb" "list_all (routable db0 pb) ls"
  shows "\<exists>rc' db'. process_leaves pb ls rc db = Some (rc', db') \<and> routed db0 pb (T \<union> fst ` set ls) (S \<union> set ls) db'"
  using assms(1,3)
proof (induction ls arbitrary: T S db rc)
  case (Cons l ls)
  obtain ci q where l: "l = (ci, q)" by fastforce
  obtain rc1 db1 where p: "process_leaf pb ci q rc db = Some (rc1, db1)" "routed db0 pb (insert ci T) (insert (ci, q) S) db1"
    using process_leaf_routed [OF Cons.prems(1) assms(2)] Cons.prems(2) l by fastforce
  show ?case using Cons.IH [OF p(2), of rc1] Cons.prems(2) p(1) l by auto
qed simp

section \<open>The search through the tree\<close>

fun tree_retained :: "subhier list \<Rightarrow> nat list" where
  "tree_retained [] = []"
| "tree_retained (Subhier t subs ret ch # bs) = (case ret of None \<Rightarrow> [] | Some r \<Rightarrow> [r]) @ tree_retained ch @ tree_retained bs"

text \<open>A tree without its retained messages.\<close>

fun strip :: "subhier list \<Rightarrow> subhier list" where
  "strip [] = []"
| "strip (Subhier t subs ret ch # bs) = Subhier t subs None (strip ch) # strip bs"

lemma routed_heap:
  assumes r: "routed db0 pb T S db" and st: "db_heap db x = Some st"
  shows "routed db0 pb T S (db\<lparr>db_heap := (db_heap db)(x \<mapsto> st\<lparr>st_ref_count := n\<rparr>)\<rparr>)"
proof -
  let ?db = "db\<lparr>db_heap := (db_heap db)(x \<mapsto> st\<lparr>st_ref_count := n\<rparr>)\<rparr>"
  have "same_settings db0 ?db" using routedD(2) [OF r] by (simp add: same_settings_def)
  moreover have "dom (db_heap ?db) = dom (db_heap db0)" using routedD(3) [OF r] st by auto
  moreover have "\<exists>st. db_heap ?db (pb_stored pb) = Some st \<and> dests_routed db0 pb S st"
    using routedD(7) [OF r] st by (auto simp: dests_routed_def)
  ultimately show ?thesis using r unfolding routed_def by simp
qed

lemma routed_counters:
  assumes "routed db0 pb T S db"
  shows "routed db0 pb T S (db\<lparr>db_retained_count := n\<rparr>)" "routed db0 pb T S (db\<lparr>db_persistence_changes := n\<rparr>)"
proof -
  have "same_settings db0 (db\<lparr>db_retained_count := n\<rparr>)" "same_settings db0 (db\<lparr>db_persistence_changes := n\<rparr>)"
    using routedD(2) [OF assms] by (simp_all add: same_settings_def)
  then show "routed db0 pb T S (db\<lparr>db_retained_count := n\<rparr>)" "routed db0 pb T S (db\<lparr>db_persistence_changes := n\<rparr>)"
    using assms unfolding routed_def by simp_all
qed

lemma add_ref_routed:
  assumes r: "routed db0 pb T S db" and x: "x \<in> dom (db_heap db0)"
  shows "\<exists>db'. add_ref x n db = Some db' \<and> routed db0 pb T S db'"
proof -
  obtain st where st: "db_heap db x = Some st" using routedD(3) [OF r] x by auto
  show ?thesis using routed_heap [OF r st] st by (simp add: add_ref_def)
qed

lemma set_retained_routed:
  assumes r: "routed db0 pb T S db" and old: "set_option old \<subseteq> dom (db_heap db0)"
  shows "\<exists>ret db'. set_retained pb old db = Some (ret, db') \<and> routed db0 pb T S db'"
proof -
  define db1 where "db1 = (if take 4 (pb_topic pb) \<noteq> ''$SYS'' then db\<lparr>db_persistence_changes := db_persistence_changes db + 1\<rparr> else db)"
  have r1: "routed db0 pb T S db1" using r routed_counters(2) by (simp add: db1_def)
  obtain db2 where db2: "(case old of None \<Rightarrow> Some db1
      | Some r \<Rightarrow> do { db \<leftarrow> add_ref r (-1) db1; Some (db\<lparr>db_retained_count := db_retained_count db - 1\<rparr>) }) = Some db2"
    and r2: "routed db0 pb T S db2"
  proof (cases old)
    case None
    then show thesis using that r1 by simp
  next
    case (Some x)
    then obtain db' where "add_ref x (-1) db1 = Some db'" "routed db0 pb T S db'" using add_ref_routed [OF r1, of x "-1"] old by auto
    then show thesis using that Some routed_counters(1) by simp
  qed
  obtain st where st: "db_heap db2 (pb_stored pb) = Some st" using routedD(7) [OF r2] by auto
  have "pb_stored pb \<in> dom (db_heap db0)" using st routedD(3) [OF r2] by auto
  then obtain db3 where db3: "add_ref (pb_stored pb) 1 db2 = Some db3" "routed db0 pb T S db3" using add_ref_routed [OF r2] by blast
  have "set_retained pb old db = (if m_payloadlen (st_msg st) \<noteq> 0 then Some (Some (pb_stored pb), db3\<lparr>db_retained_count := db_retained_count db3 + 1\<rparr>)
      else Some (None, db2))"
    using st db3(1) by (simp add: set_retained_def Let_def db2 flip: db1_def)
  then show ?thesis using db3(2) r2 routed_counters(1) by auto
qed

lemma subs_process_routed:
  assumes r: "routed db0 pb T S db" and ok: "pub_ok db0 pb" "list_all (routable db0 pb) subs" and ret: "set_option ret \<subseteq> dom (db_heap db0)"
  shows "\<exists>rc ret' db'. subs_process pb (Subhier t subs ret ch) sr db = Some (rc, Subhier t subs ret' ch, db')
    \<and> routed db0 pb (T \<union> fst ` set subs) (S \<union> set subs) db'"
proof -
  obtain ret' db1 where r1: "(if pb_retain pb \<and> sr then set_retained pb ret db else Some (ret, db)) = Some (ret', db1)" "routed db0 pb T S db1"
    using set_retained_routed [OF r ret] r by (cases "pb_retain pb \<and> sr") auto
  obtain src where "pb_source pb = Some src" using ok(1) by (auto simp: pub_ok_def)
  then show ?thesis using process_leaves_routed [OF r1(2) ok, of 0] by (auto simp: subs_process_def r1(1))
qed

lemma sub_search_routed:
  assumes "routed db0 pb T S db" "pub_ok db0 pb" "list_all (routable db0 pb) (visits bs toks)" "set (tree_retained bs) \<subseteq> dom (db_heap db0)"
  shows "\<exists>bs' db'. sub_search pb bs toks sr db = Some (bs', db')
    \<and> routed db0 pb (T \<union> fst ` set (visits bs toks)) (S \<union> set (visits bs toks)) db' \<and> strip bs' = strip bs"
  using assms(1,3,4)
proof (induction bs toks arbitrary: T S db sr rule: visits.induct)
  case (2 t subs ret ch bs toks)
  have ret: "set_option ret \<subseteq> dom (db_heap db0)" using "2.prems"(3) by (cases ret) auto
  have bs: "list_all (routable db0 pb) (visits bs toks)" "set (tree_retained bs) \<subseteq> dom (db_heap db0)"
    using "2.prems" by auto
  define v where "v = (if toks \<noteq> [] \<and> (t = hd toks \<or> t = [PLUS]) then visits ch (tl toks) @ (if tl toks = [] then subs else [])
      else if t = [HASH] \<and> ch = [] then subs else [])"
  have v: "visits (Subhier t subs ret ch # bs) toks = v @ visits bs toks" by (simp add: v_def)
  have okv: "list_all (routable db0 pb) v" using "2.prems"(2) v by simp
  define P where "P = (if toks \<noteq> [] \<and> (t = hd toks \<or> t = [PLUS]) then
            do {
              let sr = (t \<noteq> [PLUS] \<and> sr);
              (ch, db) \<leftarrow> sub_search pb ch (tl toks) sr db;
              if tl toks = []
              then do { (rc, b, db) \<leftarrow> subs_process pb (Subhier t subs ret ch) sr db; Some (b, db) }
              else Some (Subhier t subs ret ch, db)
            }
          else if t = [HASH] \<and> ch = [] then
            do { (rc, b, db) \<leftarrow> subs_process pb (Subhier t subs ret ch) False db; Some (b, db) }
          else Some (Subhier t subs ret ch, db))"
  have "\<exists>b db1. P = Some (b, db1) \<and> routed db0 pb (T \<union> fst ` set v) (S \<union> set v) db1 \<and> strip [b] = strip [Subhier t subs ret ch]"
  proof (cases "toks \<noteq> [] \<and> (t = hd toks \<or> t = [PLUS])")
    case True
    let ?sr = "t \<noteq> [PLUS] \<and> sr"
    have vt: "v = visits ch (tl toks) @ (if tl toks = [] then subs else [])" using True by (simp add: v_def)
    obtain ch' db1 where c: "sub_search pb ch (tl toks) ?sr db = Some (ch', db1)" "strip ch' = strip ch"
      "routed db0 pb (T \<union> fst ` set (visits ch (tl toks))) (S \<union> set (visits ch (tl toks))) db1"
      using "2.IH"(1) [OF True "2.prems"(1), of ?sr] okv "2.prems"(3) vt by auto
    show ?thesis
    proof (cases "tl toks = []")
      case nil: True
      have "list_all (routable db0 pb) subs" using okv vt nil by simp
      then show ?thesis using subs_process_routed [OF c(3) assms(2) _ ret, of subs t ch' ?sr] c True nil vt
        by (auto simp: P_def Un_assoc image_Un)
    next
      case False
      then show ?thesis using c True vt by (simp add: P_def)
    qed
  next
    case False
    then show ?thesis
      using okv subs_process_routed [OF "2.prems"(1) assms(2) _ ret, of subs t ch False] "2.prems"(1)
      by (cases "t = [HASH] \<and> ch = []") (auto simp: P_def v_def)
  qed
  then obtain b db1 where b: "P = Some (b, db1)" "routed db0 pb (T \<union> fst ` set v) (S \<union> set v) db1" "strip [b] = strip [Subhier t subs ret ch]"
    by blast
  obtain bs' db2 where bs': "sub_search pb bs toks sr db1 = Some (bs', db2)" "strip bs' = strip bs"
    "routed db0 pb (T \<union> fst ` set v \<union> fst ` set (visits bs toks)) (S \<union> set v \<union> set (visits bs toks)) db2"
    using "2.IH"(2) [OF b(2) bs] by blast
  have "sub_search pb (Subhier t subs ret ch # bs) toks sr db = Some (b # bs', db2)"
    using b(1) bs'(1) unfolding P_def by simp
  moreover have "strip (b # bs') = strip (Subhier t subs ret ch # bs)" using b(3) bs'(2) by (cases b) simp
  ultimately show ?case using bs'(3) unfolding v by (simp add: Un_assoc image_Un)
qed simp

section \<open>Routing a message\<close>

lemma strip_topics: "sh_topic ` set (strip bs) = sh_topic ` set bs"
  by (induction bs rule: strip.induct) auto

lemma strip_shape: "tree_ok (strip bs) = tree_ok bs" "hash_ok (strip bs) = hash_ok bs" "tree_clients (strip bs) = tree_clients bs"
proof -
  have nil: "strip ch = [] \<longleftrightarrow> ch = []" for ch by (cases ch rule: strip.cases) auto
  show "tree_ok (strip bs) = tree_ok bs" "hash_ok (strip bs) = hash_ok bs" "tree_clients (strip bs) = tree_clients bs"
    by (induction bs rule: strip.induct) (auto simp: strip_topics nil)
qed

lemma strip_subs: "child_subs (strip bs) tok p = child_subs bs tok p"
proof (induction p arbitrary: bs tok)
  case Nil
  show ?case by (induction bs rule: strip.induct) auto
next
  case (Cons t p)
  then show ?case by (induction bs rule: strip.induct) auto
qed

lemma strip_eqD:
  assumes "strip bs' = strip bs"
  shows "tree_ok bs' = tree_ok bs" "hash_ok bs' = hash_ok bs" "tree_clients bs' = tree_clients bs" "child_subs bs' = child_subs bs"
  using assms strip_shape strip_subs by (metis, metis, metis, metis ext)

text \<open>Making the path of a retained message changes neither the retained messages nor the place of the wildcards.\<close>

lemma sub_add_shape:
  "sub_add db co qos h toks = Some (rc, h', db') \<Longrightarrow> tree_retained [h'] = tree_retained [h]
     \<and> (hash_ok [h] \<and> [HASH] \<notin> set (butlast (sh_topic h # toks)) \<longrightarrow> hash_ok [h'])"
  "sub_add_children db co qos bs tok toks = Some (rc, bs', db') \<Longrightarrow> tree_retained bs' = tree_retained bs
     \<and> (hash_ok bs \<and> [HASH] \<notin> set (butlast (tok # toks)) \<longrightarrow> hash_ok bs')"
proof (induction db co qos h toks and db co qos bs tok toks arbitrary: rc h' db' and rc bs' db' rule: sub_add_sub_add_children.induct)
  case (1 db co qos t subs ret ch)
  then obtain subs' where "h' = Subhier t subs' ret ch"
    by (auto simp: bind_eq_Some_conv split: option.splits if_splits prod.splits bool.splits)
  then show ?case by simp
next
  case (2 db co qos t subs ret ch tok toks)
  then show ?case by (auto simp: bind_eq_Some_conv)
next
  case (3 db co qos tok toks)
  then show ?case by (auto simp: bind_eq_Some_conv split: prod.splits bool.splits)
next
  case (4 db co qos b bs tok toks)
  have c: "tree_retained (x # xs) = tree_retained [x] @ tree_retained xs" "hash_ok (x # xs) \<longleftrightarrow> hash_ok [x] \<and> hash_ok xs" for x xs
    by (cases x; simp)+
  show ?case
  proof (cases "sh_topic b = tok")
    case True
    then show ?thesis using "4.prems" "4.IH"(1) [OF True] by (auto simp: bind_eq_Some_conv c [of _ bs])
  next
    case False
    then obtain bs1 where bs1: "sub_add_children db co qos bs tok toks = Some (rc, bs1, db')" "bs' = b # bs1"
      using "4.prems" by (auto simp: bind_eq_Some_conv)
    then show ?thesis using "4.IH"(2) [OF False bs1(1)] c [of b bs] c [of b bs1] by simp
  qed
qed

lemma node_subs_distinct:
  "tree_ok [h] \<Longrightarrow> distinct (map fst (node_subs h p))"
  "tree_ok bs \<Longrightarrow> distinct (map fst (child_subs bs t p))"
  by (induction h p and bs t p rule: node_subs_child_subs.induct) (auto simp: node_ok_simps)

text \<open>The subscriptions that the broker finds for a topic, over the tokens it makes of it.\<close>

definition token_matching :: "db \<Rightarrow> string \<Rightarrow> (nat \<times> int) set" where
  "token_matching db topic = {(ci, q). \<exists>p. subscriptions db (p, ci) = Some q \<and> p \<noteq> [] \<and> hd p = hd (tokens_of topic) \<and> level_match p (tokens_of topic)}"

fun root_visits :: "subhier list \<Rightarrow> string list \<Rightarrow> (nat \<times> int) list" where
  "root_visits [] toks = []"
| "root_visits (h # hs) toks = (if sh_topic h = hd toks then visits (sh_children h) toks else root_visits hs toks)"

lemma root_subs_other: "hd p \<notin> sh_topic ` set hs \<Longrightarrow> root_subs hs p = []"
  by (induction hs) auto

text \<open>The only child of a child of the root has the same name.\<close>

definition root_shape :: "subhier list \<Rightarrow> bool" where
  "root_shape hs \<longleftrightarrow> list_all (\<lambda>h. list_all (\<lambda>b. sh_topic b = sh_topic h) (sh_children h)) hs"

lemma hash_ok_Cons: "hash_ok (h # hs) \<longleftrightarrow> (sh_topic h = [HASH] \<longrightarrow> sh_children h = []) \<and> hash_ok (sh_children h) \<and> hash_ok hs"
  by (cases h) simp

lemma root_visits_set:
  assumes "tree_ok hs" "hash_ok hs" "toks \<noteq> []" "[HASH] \<notin> set toks" "root_shape hs"
  shows "(ci, q) \<in> set (root_visits hs toks) \<longleftrightarrow>
    (\<exists>p. map_of (root_subs hs p) ci = Some q \<and> p \<noteq> [] \<and> hd p = hd toks \<and> level_match p toks)"
  using assms
proof (induction hs)
  case (Cons h hs)
  show ?case
  proof (cases "sh_topic h = hd toks")
    case True
    have ok: "tree_ok (sh_children h)" "hash_ok (sh_children h)" using Cons.prems by (simp_all add: node_ok_simps hash_ok_Cons)
    have "(ci, q) \<in> set (visits (sh_children h) toks) \<longleftrightarrow> (\<exists>t p. (ci, q) \<in> set (child_subs (sh_children h) t p) \<and> level_match (t # p) toks)"
      by (rule visits_set [OF ok Cons.prems(4)])
    also have "\<dots> \<longleftrightarrow> (\<exists>t p. map_of (child_subs (sh_children h) t p) ci = Some q \<and> level_match (t # p) toks)"
      using node_subs_distinct(2) [OF ok(1)] by (simp add: map_of_eq_Some_iff)
    also have "\<dots> \<longleftrightarrow> (\<exists>p. map_of (root_subs (h # hs) p) ci = Some q \<and> p \<noteq> [] \<and> hd p = hd toks \<and> level_match p toks)"
    proof -
      have other: "t = hd toks" if "map_of (child_subs (sh_children h) t p) ci = Some q" for t p
        using that True Cons.prems(5) child_subs_other [of t "sh_children h" p] by (force simp: root_shape_def list_all_iff)
      have own: "root_subs (h # hs) (t # p) = child_subs (sh_children h) t p" if "t = hd toks" for t p
        using that True by (simp add: node_subs_unfold)
      show ?thesis
      proof
        assume "\<exists>t p. map_of (child_subs (sh_children h) t p) ci = Some q \<and> level_match (t # p) toks"
        then obtain t p where t: "map_of (child_subs (sh_children h) t p) ci = Some q" "level_match (t # p) toks" by blast
        show "\<exists>p. map_of (root_subs (h # hs) p) ci = Some q \<and> p \<noteq> [] \<and> hd p = hd toks \<and> level_match p toks"
          using t other [OF t(1)] own [of t p] by (intro exI [of _ "t # p"]) simp
      next
        assume "\<exists>p. map_of (root_subs (h # hs) p) ci = Some q \<and> p \<noteq> [] \<and> hd p = hd toks \<and> level_match p toks"
        then obtain p where p: "map_of (root_subs (h # hs) p) ci = Some q" "p \<noteq> []" "hd p = hd toks" "level_match p toks" by blast
        then obtain t p' where p': "p = t # p'" by (cases p) auto
        have "map_of (root_subs (h # hs) (t # p')) ci = Some q" "t = hd toks" "level_match (t # p') toks"
          using p unfolding p' list.sel(1) by blast+
        then show "\<exists>t p. map_of (child_subs (sh_children h) t p) ci = Some q \<and> level_match (t # p) toks"
          unfolding own [OF \<open>t = hd toks\<close>] by blast
      qed
    qed
    finally show ?thesis using True by simp
  next
    case False
    have "root_subs (h # hs) p = root_subs hs p" if "hd p = hd toks" for p using that False by simp
    moreover have "tree_ok hs" "hash_ok hs" "root_shape hs" using Cons.prems by (simp_all add: node_ok_simps hash_ok_Cons root_shape_def)
    moreover have "root_visits (h # hs) toks = root_visits hs toks" using False by simp
    ultimately show ?thesis using Cons.IH Cons.prems(3,4) by metis
  qed
qed simp

lemma queue_roots_other:
  "hd toks \<notin> sh_topic ` set hs \<Longrightarrow> queue_roots pb hs toks db = Some (hs, db)"
  by (induction hs) auto

lemma sub_only_routed:
  assumes "routed db0 pb T S db" "sub_only db db'" "db_allocs db' = []"
  shows "routed db0 pb T S db'"
proof -
  obtain n where "db' = db\<lparr>db_allocs := db_allocs db', db_subscription_count := n\<rparr>" using assms(2) by (auto simp: sub_only_def)
  then have n: "db' = db\<lparr>db_subscription_count := n\<rparr>" using assms(3) routedD(1) [OF assms(1)] by (cases db) simp
  have "same_settings db0 db'" "get_ctx ci db' = get_ctx ci db" for ci
    using routedD(2) [OF assms(1)] n by (simp_all add: same_settings_def get_ctx_def)
  then show ?thesis using assms(1) n unfolding routed_def by simp
qed

text \<open>The same subscriptions in a tree of the right shape.\<close>

definition same_route :: "subhier \<Rightarrow> subhier \<Rightarrow> bool" where
  "same_route h h' \<longleftrightarrow> sh_topic h' = sh_topic h \<and> tree_ok [h'] \<and> hash_ok [h'] \<and> root_shape [h']
     \<and> tree_clients [h'] \<subseteq> tree_clients [h] \<and> (\<forall>p. node_subs h' p = node_subs h p)"

lemma same_route_strip:
  assumes "same_route h (Subhier t subs ret ch)" "strip ch' = strip ch"
  shows "same_route h (Subhier t subs ret' ch')"
proof -
  have "sh_topic ` set ch' = sh_topic ` set ch" using assms(2) strip_topics by metis
  moreover have "ch' = [] \<longleftrightarrow> ch = []" using assms(2) by (cases ch rule: strip.cases; cases ch' rule: strip.cases) auto
  moreover have "node_subs (Subhier t subs ret' ch') p = node_subs (Subhier t subs ret ch) p" for p
    using strip_eqD(4) [OF assms(2)] by (cases p) simp_all
  ultimately show ?thesis using assms(1) strip_eqD [OF assms(2)] unfolding same_route_def root_shape_def
    by (auto simp: list_all_iff image_iff)
qed

lemma routed_start: "pub_ok db pb \<Longrightarrow> routed db pb {} {} db"
  by (auto simp: routed_def pub_ok_def same_settings_def dests_routed_def served_def split: option.splits)

lemma retain_path:
  assumes db: "add_ready db None [h]" "db_allocs db = []"
    and h: "tree_ok [h]" "hash_ok [h]" "root_shape [h]" "toks \<noteq> []" "[HASH] \<notin> set toks" "sh_topic h = hd toks"
  shows "\<exists>rc h' db'. sub_add db None 0 h toks = Some (rc, h', db') \<and> sub_only db db' \<and> db_allocs db' = [] \<and> same_route h h'
    \<and> tree_retained [h'] = tree_retained [h]"
proof -
  obtain rc h' db' where a: "sub_add db None 0 h toks = Some (rc, h', db')" "add_frame db None rc [h] [h'] db'" "sh_topic h' = sh_topic h"
    "\<And>p. node_subs h' p = node_subs h p"
    using sub_add_spec(1) [OF db(1), of 0 toks] by (auto simp: ctx_upd_def)
  obtain t subs ret ch where h_eq: "h = Subhier t subs ret ch" by (cases h)
  obtain tok toks' where toks: "toks = tok # toks'" using h(4) by (cases toks) auto
  have "add_ready db None ch" using db(1) h_eq by (auto simp: add_ready_def)
  then obtain rc' ch' db1 where c: "sub_add_children db None 0 ch tok toks' = Some (rc', ch', db1)" "sh_topic ` set ch' \<subseteq> insert tok (sh_topic ` set ch)"
    using sub_add_spec(2) by metis
  then have h': "h' = Subhier t subs ret ch'" using a(1) h_eq toks by simp
  have "root_shape [h']" using c(2) h(3,6) h_eq h' toks by (auto simp: root_shape_def list_all_iff)
  moreover have "tree_retained [h'] = tree_retained [h]" "hash_ok [h']"
    using sub_add_shape(1) [OF a(1)] h(2,5,6) toks by (auto dest: in_set_butlastD split: if_splits)
  ultimately show ?thesis using a h(1) db(2) by (auto simp: add_frame_def same_route_def)
qed

lemma same_route_visits:
  assumes "same_route h h'" "tree_ok [h]" "hash_ok [h]" "[HASH] \<notin> set toks"
  shows "set (visits (sh_children h') toks) = set (visits (sh_children h) toks)"
proof -
  have "child_subs (sh_children h') t p = child_subs (sh_children h) t p" for t p
    using assms(1) node_subs_unfold [of h "t # p"] node_subs_unfold [of h' "t # p"] by (simp add: same_route_def)
  moreover have "tree_ok (sh_children h)" "hash_ok (sh_children h)" "tree_ok (sh_children h')" "hash_ok (sh_children h')"
    using assms by (simp_all add: same_route_def node_ok_simps hash_ok_Cons)
  ultimately show ?thesis using visits_set assms(4) by (intro set_eqI) simp
qed

lemma queue_root_routed:
  assumes ok: "pub_ok db0 pb" and h: "tree_ok [h]" "hash_ok [h]" "root_shape [h]" "toks \<noteq> []" "[HASH] \<notin> set toks" "sh_topic h = hd toks"
      "\<forall>c \<in> tree_clients [h]. ctx_id db0 c \<noteq> None" "set (tree_retained [h]) \<subseteq> dom (db_heap db0)"
    and v: "list_all (routable db0 pb) (visits (sh_children h) toks)"
  shows "\<exists>h' db'. queue_roots pb [h] toks db0 = Some ([h'], db') \<and> same_route h h'
    \<and> routed db0 pb (fst ` set (visits (sh_children h) toks)) (set (visits (sh_children h) toks)) db'"
proof -
  have al: "db_allocs db0 = []" and ids: "ids_ok db0" using ok by (simp_all add: pub_ok_def)
  obtain rc h1 db1 where h1: "(if pb_retain pb then sub_add db0 None 0 h toks else Some (0, h, db0)) = Some (rc, h1, db1)"
    "sub_only db0 db1" "db_allocs db1 = []" "same_route h h1" "tree_retained [h1] = tree_retained [h]"
  proof (cases "pb_retain pb")
    case True
    have "add_ready db0 None [h]" using ids h(7) by (simp add: add_ready_def)
    then show thesis using that retain_path [OF _ al h(1-6)] True by auto
  next
    case False
    moreover have "same_route h h" using h by (simp add: same_route_def)
    ultimately show thesis using that al by auto
  qed
  have r1: "routed db0 pb {} {} db1" using sub_only_routed [OF routed_start [OF ok] h1(2,3)] .
  have vis: "set (visits (sh_children h1) toks) = set (visits (sh_children h) toks)" by (rule same_route_visits [OF h1(4) h(1,2,5)])
  have "list_all (routable db0 pb) (visits (sh_children h1) toks)" using v vis by (simp add: list_all_iff)
  moreover have "set (tree_retained (sh_children h1)) \<subseteq> set (tree_retained [h1])" by (cases h1) auto
  then have "set (tree_retained (sh_children h1)) \<subseteq> dom (db_heap db0)" using h(8) h1(5) by simp
  ultimately obtain ch db2 where s: "sub_search pb (sh_children h1) toks True db1 = Some (ch, db2)" "strip ch = strip (sh_children h1)"
    "routed db0 pb (fst ` set (visits (sh_children h) toks)) (set (visits (sh_children h) toks)) db2"
    using sub_search_routed [OF r1 ok, of "sh_children h1" toks True] vis by auto
  have "same_route h (Subhier (sh_topic h1) (sh_subs h1) (sh_retained h1) ch)"
    using same_route_strip [of h "sh_topic h1" "sh_subs h1" "sh_retained h1" "sh_children h1"] h1(4) s(2) by simp
  then show ?thesis using s(1,3) h1(1) h(6) by simp
qed

lemma queue_roots_Cons: "queue_roots pb (h # hs) toks db = do { (h', db) \<leftarrow> queue_roots pb [h] toks db; (hs, db) \<leftarrow> queue_roots pb hs toks db; Some (h' @ hs, db) }"
  by (auto split: Option.bind_splits simp: bind_eq_Some_conv)

lemma same_route_refl: "\<lbrakk>tree_ok [h]; hash_ok [h]; root_shape [h]\<rbrakk> \<Longrightarrow> same_route h h"
  by (simp add: same_route_def)

text \<open>The trees in which messages are routed.\<close>

definition roots_ok :: "db \<Rightarrow> subhier list \<Rightarrow> bool" where
  "roots_ok db hs \<longleftrightarrow> tree_ok hs \<and> hash_ok hs \<and> root_shape hs \<and> (\<forall>c \<in> tree_clients hs. ctx_id db c \<noteq> None)
     \<and> list_all (\<lambda>r. db_heap db r \<noteq> None) (tree_retained hs)"

lemma roots_ok_Cons:
  assumes "roots_ok db (h # hs)"
  shows "roots_ok db [h]" "roots_ok db hs" "sh_topic h \<notin> sh_topic ` set hs"
  using assms by (cases h; auto simp: roots_ok_def root_shape_def)+

lemma same_route_self: "roots_ok db hs \<Longrightarrow> list_all2 same_route hs hs"
proof (induction hs)
  case (Cons h hs)
  note ok = roots_ok_Cons [OF Cons.prems]
  have "same_route h h" using ok(1) by (intro same_route_refl) (simp_all add: roots_ok_def)
  then show ?case using Cons.IH [OF ok(2)] by simp
qed simp

lemma queue_roots_routed:
  assumes "pub_ok db0 pb" "roots_ok db0 hs" "toks \<noteq> []" "[HASH] \<notin> set toks" "list_all (routable db0 pb) (root_visits hs toks)"
  shows "\<exists>hs' db'. queue_roots pb hs toks db0 = Some (hs', db') \<and> list_all2 same_route hs hs'
    \<and> routed db0 pb (fst ` set (root_visits hs toks)) (set (root_visits hs toks)) db'"
  using assms(2,5)
proof (induction hs)
  case Nil
  then show ?case using routed_start [OF assms(1)] by simp
next
  case (Cons h hs)
  note ok = roots_ok_Cons [OF Cons.prems(1)]
  show ?case
  proof (cases "sh_topic h = hd toks")
    case True
    have h: "tree_ok [h]" "hash_ok [h]" "root_shape [h]" "\<forall>c \<in> tree_clients [h]. ctx_id db0 c \<noteq> None" "set (tree_retained [h]) \<subseteq> dom (db_heap db0)"
      using ok(1) by (auto simp: roots_ok_def list_all_iff)
    have "list_all (routable db0 pb) (visits (sh_children h) toks)" using Cons.prems(2) True by simp
    then obtain h' db' where h': "queue_roots pb [h] toks db0 = Some ([h'], db')" "same_route h h'"
      "routed db0 pb (fst ` set (visits (sh_children h) toks)) (set (visits (sh_children h) toks)) db'"
      using queue_root_routed [OF assms(1) h(1-3) assms(3,4) True h(4,5)] by blast
    then show ?thesis
      using same_route_self [OF ok(2)] h' queue_roots_other [of toks hs pb db'] ok(3) True unfolding queue_roots_Cons [of pb h hs] by simp
  next
    case False
    have "queue_roots pb [h] toks db0 = Some ([h], db0)" using False by simp
    moreover have "same_route h h" using same_route_self [OF ok(1)] by simp
    ultimately show ?thesis using Cons.IH [OF ok(2)] Cons.prems(2) False unfolding queue_roots_Cons [of pb h hs] by auto
  qed
qed

lemma same_route_roots:
  assumes "list_all2 same_route hs hs'"
  shows "root_subs hs' p = root_subs hs p" "map sh_topic hs' = map sh_topic hs" "tree_ok hs \<Longrightarrow> tree_ok hs'" "hash_ok hs'" "root_shape hs'"
    "tree_clients hs' \<subseteq> tree_clients hs"
proof -
  show t: "map sh_topic hs' = map sh_topic hs" using assms by (induction rule: list_all2_induct) (auto simp: same_route_def)
  show "root_subs hs' p = root_subs hs p" using assms by (induction rule: list_all2_induct) (auto simp: same_route_def)
  show "hash_ok hs'" using assms by (induction rule: list_all2_induct) (auto simp: same_route_def hash_ok_Cons)
  show "root_shape hs'" using assms by (induction rule: list_all2_induct) (auto simp: same_route_def root_shape_def)
  show "tree_clients hs' \<subseteq> tree_clients hs"
    using assms by (induction rule: list_all2_induct) (auto simp: same_route_def node_clients_simps [of _ "_ # _"] node_clients_simps)
  show "tree_ok hs'" if "tree_ok hs"
    using assms that t
  proof (induction rule: list_all2_induct)
    case (Cons h hs h' hs')
    have "sh_topic ` set hs' = sh_topic ` set hs" using arg_cong [OF Cons.prems(2), of "\<lambda>l. set (tl l)"] by simp
    then show ?case using Cons by (auto simp: same_route_def node_ok_simps)
  qed simp
qed

lemma token_matching_visits:
  assumes "roots_ok db (db_subs db)" "[HASH] \<notin> set (tokens_of topic)"
  shows "token_matching db topic = set (root_visits (db_subs db) (tokens_of topic))"
proof -
  have "x \<in> token_matching db topic \<longleftrightarrow> x \<in> set (root_visits (db_subs db) (tokens_of topic))" for x
    using root_visits_set [of "db_subs db" "tokens_of topic" "fst x" "snd x"] assms
    by (cases x) (simp add: token_matching_def subscriptions_def roots_ok_def del: level_match.simps)
  then show ?thesis by blast
qed

lemma messages_queue_routed:
  assumes ok: "pub_ok db pb"
    and roots: "roots_ok db (db_subs db)" and topic: "[HASH] \<notin> set (tokens_of (pb_topic pb))"
    and subs: "\<forall>l \<in> token_matching db (pb_topic pb). routable db pb l"
  shows "\<exists>db'. mqtt3_db_messages_queue db (pb_source pb) (pb_topic pb) (pb_qos pb) (pb_retain pb) (pb_stored pb) = Some (0, db')
    \<and> list_all2 same_route (db_subs db) (db_subs db') \<and> routed db pb (fst ` token_matching db (pb_topic pb)) (token_matching db (pb_topic pb)) db'"
proof -
  note m = token_matching_visits [OF roots topic]
  have al: "db_allocs db = []" using ok by (simp add: pub_ok_def)
  have "list_all (routable db pb) (root_visits (db_subs db) (tokens_of (pb_topic pb)))" using subs m by (simp add: list_all_iff)
  then obtain hs' db' where q: "queue_roots pb (db_subs db) (tokens_of (pb_topic pb)) db = Some (hs', db')" "list_all2 same_route (db_subs db) hs'"
    "routed db pb (fst ` token_matching db (pb_topic pb)) (token_matching db (pb_topic pb)) db'"
    using queue_roots_routed [OF ok roots _ topic] m by auto
  have "routed db pb (fst ` token_matching db (pb_topic pb)) (token_matching db (pb_topic pb)) (db'\<lparr>db_subs := hs'\<rparr>)"
    using q(3) unfolding routed_def by (simp add: same_settings_def)
  moreover have pb: "\<lparr>pb_source = pb_source pb, pb_topic = pb_topic pb, pb_qos = pb_qos pb, pb_retain = pb_retain pb, pb_stored = pb_stored pb\<rparr> = pb"
    by simp
  ultimately show ?thesis using q unfolding mqtt3_db_messages_queue_def sub_topic_tokenise_tokens [OF al] pb by simp
qed

lemma routed_same_subscriptions:
  "list_all2 same_route (db_subs db) (db_subs db') \<Longrightarrow> subscriptions db' = subscriptions db"
  by (simp add: subscriptions_def same_route_roots(1))

section \<open>Matching as it is documented\<close>

text \<open>
  The documented matching of a filter and a topic, level by level: \<open>+\<close> stands for one level, \<open>#\<close> for all that are left, and
  a filter sees the topics with a dollar sign only when it starts with one itself. The broker keeps a
  filter as the path of its levels, with an empty token in front unless it starts with a dollar sign.
\<close>

definition level_path :: "string list \<Rightarrow> string list" where
  "level_path ls = (if first_char (hd ls) = DOLLAR then ls else [] # ls)"

definition levels_match :: "string list \<Rightarrow> string list \<Rightarrow> bool" where
  "levels_match fs ts \<longleftrightarrow> level_match fs ts \<and> (first_char (hd fs) = DOLLAR \<longleftrightarrow> first_char (hd ts) = DOLLAR)"

definition matching :: "db \<Rightarrow> string \<Rightarrow> (nat \<times> int) set" where
  "matching db topic = {(ci, q). \<exists>ls. ls \<noteq> [] \<and> subscriptions db (level_path ls, ci) = Some q \<and> levels_match ls (split_on SEP topic)}"

text \<open>What is left of a topic when a slash in front is dropped.\<close>

definition drop_slash :: "string \<Rightarrow> string" where
  "drop_slash s = (if first_char s = SEP then tl s else s)"

lemma first_char_split: "first_char s \<noteq> SEP \<Longrightarrow> first_char (hd (split_on SEP s)) = first_char s"
  by (cases s) (auto split: list.split)

lemma first_char_split_sep: "c \<noteq> NUL \<Longrightarrow> c \<noteq> SEP \<Longrightarrow> first_char (hd (split_on SEP s)) = c \<longleftrightarrow> first_char s = c"
  by (cases s) (auto split: list.split)

lemma dollar_split [simp]: "first_char (hd (split_on SEP s)) = DOLLAR \<longleftrightarrow> first_char s = DOLLAR"
  by (rule first_char_split_sep) simp_all

text \<open>A filter that does not start with a slash is kept under the path of its levels.\<close>

lemma tokens_of_filter: "first_char s \<noteq> SEP \<Longrightarrow> tokens_of s = level_path (split_on SEP s)"
  by (simp add: tokens_of_def level_path_def)

lemma tokens_of_topic:
  "first_char (drop_slash s) \<noteq> DOLLAR \<or> first_char s \<noteq> SEP \<Longrightarrow> tokens_of s = level_path (split_on SEP (drop_slash s))"
  by (auto simp: tokens_of_def level_path_def drop_slash_def)

lemma level_match_plain:
  assumes "level_match (f # fs) ts" "first_char f = DOLLAR"
  shows "ts \<noteq> [] \<and> f = hd ts"
  using assms by (cases ts) (auto split: if_splits)

lemma level_path_match:
  assumes "ls \<noteq> []" "ts \<noteq> []"
  shows "hd (level_path ls) = hd (level_path ts) \<and> level_match (level_path ls) (level_path ts) \<longleftrightarrow> levels_match ls ts"
proof (cases "first_char (hd ls) = DOLLAR"; cases "first_char (hd ts) = DOLLAR")
  assume d: "first_char (hd ls) = DOLLAR" "first_char (hd ts) = DOLLAR"
  obtain l lr where l: "ls = l # lr" using assms(1) by (meson neq_Nil_conv)
  have "hd ls = hd ts" if "level_match ls ts" using level_match_plain [of l lr ts] that d l by simp
  then show ?thesis using d by (auto simp: level_path_def levels_match_def)
next
  assume d: "first_char (hd ls) = DOLLAR" "first_char (hd ts) \<noteq> DOLLAR"
  then have "hd ls \<noteq> []" by auto
  then show ?thesis using d by (simp add: level_path_def levels_match_def)
next
  assume d: "first_char (hd ls) \<noteq> DOLLAR" "first_char (hd ts) = DOLLAR"
  then have "hd ts \<noteq> []" by auto
  then show ?thesis using d by (simp add: level_path_def levels_match_def)
next
  assume d: "first_char (hd ls) \<noteq> DOLLAR" "first_char (hd ts) \<noteq> DOLLAR"
  then show ?thesis by (simp add: level_path_def levels_match_def)
qed

lemma path_levels:
  assumes "p \<noteq> []" "hd p = hd (level_path ts)" "level_match p (level_path ts)" "ts \<noteq> []"
  shows "\<exists>ls. ls \<noteq> [] \<and> p = level_path ls"
proof (cases "first_char (hd ts) = DOLLAR")
  case True
  then show ?thesis using assms by (intro exI [of _ p]) (auto simp: level_path_def)
next
  case False
  then obtain ls where p: "p = [] # ls" using assms(1,2) by (cases p) (auto simp: level_path_def)
  then have m: "level_match ls ts" using assms(3) False by (simp add: level_path_def)
  then have "ls \<noteq> []" using assms(4) by auto
  moreover have "first_char (hd ls) \<noteq> DOLLAR" using level_match_plain [of "hd ls" "tl ls" ts] m False \<open>ls \<noteq> []\<close> by auto
  ultimately show ?thesis using p by (auto simp: level_path_def)
qed

lemma matching_tokens:
  assumes "first_char (drop_slash topic) \<noteq> DOLLAR \<or> first_char topic \<noteq> SEP"
  shows "token_matching db topic = matching db (drop_slash topic)"
proof -
  let ?ts = "split_on SEP (drop_slash topic)"
  have "(\<exists>p. subscriptions db (p, ci) = Some q \<and> p \<noteq> [] \<and> hd p = hd (level_path ?ts) \<and> level_match p (level_path ?ts)) \<longleftrightarrow>
      (\<exists>ls. ls \<noteq> [] \<and> subscriptions db (level_path ls, ci) = Some q \<and> levels_match ls ?ts)" (is "?L \<longleftrightarrow> ?R") for ci q
  proof
    assume ?L
    then obtain p where p: "subscriptions db (p, ci) = Some q" "p \<noteq> []" "hd p = hd (level_path ?ts)" "level_match p (level_path ?ts)" by blast
    obtain ls where "ls \<noteq> []" "p = level_path ls" using path_levels [OF p(2-4)] by auto
    then show ?R using p level_path_match [of ls ?ts] by (intro exI [of _ ls]) simp
  next
    assume ?R
    then obtain ls where l: "ls \<noteq> []" "subscriptions db (level_path ls, ci) = Some q" "levels_match ls ?ts" by blast
    have "hd (level_path ls) = hd (level_path ?ts)" "level_match (level_path ls) (level_path ?ts)"
      using level_path_match [OF l(1), of ?ts] l(3) by simp_all
    moreover have "level_path ls \<noteq> []" using l(1) by (simp add: level_path_def)
    ultimately show ?L using l(2) by blast
  qed
  then show ?thesis unfolding token_matching_def matching_def tokens_of_topic [OF assms] by simp
qed

lemma messages_queue_tokens:
  assumes "pub_ok db pb"
    and "roots_ok db (db_subs db)" "[HASH] \<notin> set (tokens_of (pb_topic pb))" "\<forall>l \<in> token_matching db (pb_topic pb). routable db pb l"
  shows "\<exists>db'. mqtt3_db_messages_queue db (pb_source pb) (pb_topic pb) (pb_qos pb) (pb_retain pb) (pb_stored pb) = Some (0, db') \<and> subscriptions db' = subscriptions db
    \<and> (\<forall>ci cx. get_ctx ci db = Some cx \<longrightarrow> (\<exists>cx'. get_ctx ci db' = Some cx'
        \<and> (if \<exists>q. (ci, q) \<in> token_matching db (pb_topic pb) \<and> gets db pb ci q
           then \<exists>q mid. (ci, q) \<in> token_matching db (pb_topic pb) \<and> gets db pb ci q \<and> cx_msgs cx' = cx_msgs cx @ [out_msg db pb cx q mid]
           else cx_msgs cx' = cx_msgs cx)))"
proof -
  obtain db' where db': "mqtt3_db_messages_queue db (pb_source pb) (pb_topic pb) (pb_qos pb) (pb_retain pb) (pb_stored pb) = Some (0, db')" "list_all2 same_route (db_subs db) (db_subs db')"
    "routed db pb (fst ` token_matching db (pb_topic pb)) (token_matching db (pb_topic pb)) db'"
    using messages_queue_routed [OF assms] by blast
  show ?thesis
  proof (intro exI [of _ db'] conjI allI impI)
    fix ci cx assume cx: "get_ctx ci db = Some cx"
    show "\<exists>cx'. get_ctx ci db' = Some cx'
        \<and> (if \<exists>q. (ci, q) \<in> token_matching db (pb_topic pb) \<and> gets db pb ci q
           then \<exists>q mid. (ci, q) \<in> token_matching db (pb_topic pb) \<and> gets db pb ci q \<and> cx_msgs cx' = cx_msgs cx @ [out_msg db pb cx q mid]
           else cx_msgs cx' = cx_msgs cx)"
      using routed_ctx [OF db'(3) cx] unfolding queue_routed_def served_def by (auto split: if_splits)
  qed (use db'(1) routed_same_subscriptions [OF db'(2)] in auto)
qed

section \<open>Properties\<close>

text \<open>
  C3: Routing is exact. A published message, retained or not, is put once into the queue of every client that has a
  matching subscription, may read the topic and has room for it, with the QoS of a matching subscription; the queues of
  all other clients and all subscriptions stay as they are. Matching is the documented one, level by level, with one deviation: the
  broker drops a slash in front of the topic, so that what is published to \<open>/a/topic\<close> goes to exactly the clients
  that should get \<open>a/topic\<close>, and a subscriber of \<open>+/a/topic\<close> does not get it. (Topics that start with a slash and a dollar sign are left out.)
\<close>
theorem messages_queue_exact:
  assumes "pub_ok db pb" "roots_ok db (db_subs db)" "[HASH] \<notin> set (tokens_of (pb_topic pb))"
    and "first_char (drop_slash (pb_topic pb)) \<noteq> DOLLAR \<or> first_char (pb_topic pb) \<noteq> SEP"
    and "\<forall>l \<in> matching db (drop_slash (pb_topic pb)). routable db pb l"
  shows "\<exists>db'. mqtt3_db_messages_queue db (pb_source pb) (pb_topic pb) (pb_qos pb) (pb_retain pb) (pb_stored pb) = Some (0, db') \<and> subscriptions db' = subscriptions db
    \<and> (\<forall>ci cx. get_ctx ci db = Some cx \<longrightarrow> (\<exists>cx'. get_ctx ci db' = Some cx'
        \<and> (if \<exists>q. (ci, q) \<in> matching db (drop_slash (pb_topic pb)) \<and> gets db pb ci q
           then \<exists>q mid. (ci, q) \<in> matching db (drop_slash (pb_topic pb)) \<and> gets db pb ci q \<and> cx_msgs cx' = cx_msgs cx @ [out_msg db pb cx q mid]
           else cx_msgs cx' = cx_msgs cx)))"
  using messages_queue_tokens [OF assms(1-3)] assms(5) unfolding matching_tokens [OF assms(4)] by blast

text \<open>Two clients, of which the second has subscribed, and a stored message.\<close>

definition route_db :: db where
  "route_db = (demo_db [''alice'', ''bob''])\<lparr>
     db_subs := [Subhier '''' [] None [Subhier '''' [] None [Subhier ''chat'' [] None [Subhier ''+'' [] None [Subhier ''bob'' [(1, 2)] None []]]]],
       Subhier ''$SYS'' [] None []],
     db_heap := [0 \<mapsto> \<lparr>st_db_id = 1, st_ref_count = 0, st_source_id = ''alice'', st_dest_ids = [], st_source_mid = 7,
       st_msg = \<lparr>m_mid = 0, m_topic = Some ''chat/alice/bob'', m_payload = Some [104, 105], m_payloadlen = 2, m_qos = 1, m_retain = False\<rparr>\<rparr>],
     db_msg_store := [0], db_msg_store_count := 1, db_next := 1\<rparr>"

lemma route_db_ids: "ctx_id route_db ci = (if ci < 2 then Some ([''alice'', ''bob''] ! ci) else None)" "ids_ok route_db"
proof -
  show "ctx_id route_db ci = (if ci < 2 then Some ([''alice'', ''bob''] ! ci) else None)"
    by (simp add: route_db_def demo_db_def ctx_id_def get_ctx_def demo_ctx_def nth_Cons split: nat.splits)
  have "tree_inv (demo_db [''alice'', ''bob''])" by (rule demo_db_inv) simp
  then show "ids_ok route_db" by (simp add: tree_inv_def route_db_def ids_ok_def ctx_ids_def)
qed

lemma route_db_sel:
  "db_plugin route_db = None" "db_acl_list route_db = []" "db_acl_patterns route_db = []" "db_max_inflight route_db = 20"
  "\<not> cf_upgrade_outgoing_qos (db_config route_db)" "\<not> cf_allow_duplicate_messages (db_config route_db)" "db_allocs route_db = []"
  by (simp_all add: route_db_def demo_db_def)

lemma route_db_ctx: "get_ctx 0 route_db = Some (demo_ctx ''alice'')" "get_ctx (Suc 0) route_db = Some (demo_ctx ''bob'')"
  by (simp_all add: route_db_def demo_db_def get_ctx_def)

theorem messages_queue_exact_witness:
  "\<exists>db' a b m. mqtt3_db_messages_queue route_db (Some ''alice'') ''chat/alice/bob'' 1 False 0 = Some (0, db')
     \<and> get_ctx 0 db' = Some a \<and> cx_msgs a = [] \<and> get_ctx 1 db' = Some b \<and> cx_msgs b = [m] \<and> cm_store m = 0 \<and> cm_qos m = 1"
proof -
  define pb where "pb = \<lparr>pb_source = Some ''alice'', pb_topic = ''chat/alice/bob'', pb_qos = 1, pb_retain = False, pb_stored = 0\<rparr>"
  have t: "tokens_of ''chat/alice/bob'' = ['''', ''chat'', ''alice'', ''bob'']" by (simp add: tokens_of_def)
  have pub: "pub_ok route_db pb" using route_db_ids(2) by (simp add: pub_ok_def pb_def) (simp add: route_db_def demo_db_def)
  have roots: "roots_ok route_db (db_subs route_db)" using route_db_ids(1) [of 1]
    by (simp add: roots_ok_def root_shape_def) (simp add: route_db_def)
  have hash: "[HASH] \<notin> set (tokens_of (pb_topic pb))" using t by (simp add: pb_def)
  have dollar: "first_char (drop_slash (pb_topic pb)) \<noteq> DOLLAR \<or> first_char (pb_topic pb) \<noteq> SEP" by (simp add: pb_def)
  have m: "matching route_db (drop_slash (pb_topic pb)) = {(1, 2)}"
    unfolding matching_tokens [OF dollar, symmetric] token_matching_visits [OF roots hash]
    by (simp add: pb_def t) (simp add: route_db_def)
  have acl: "acl_rc route_db (Suc 0) topic = Some 0" for topic using acl_rc_open [OF route_db_ctx(2)] route_db_sel by blast
  have g: "gets route_db pb 1 2"
    using acl route_db_ctx(2) route_db_sel by (simp add: gets_def accepts_def insert_state_def eff_qos_def) (simp add: demo_ctx_def)
  have r: "routable route_db pb (1, 2)"
    using acl route_db_ids(1) [of "Suc 0"] route_db_ctx(2) by (simp add: routable_def) (simp add: last_ok_def demo_ctx_def)
  have "\<forall>l \<in> matching route_db (drop_slash (pb_topic pb)). routable route_db pb l" using m r by simp
  from messages_queue_exact [OF pub roots hash dollar this]
  obtain db' where q: "mqtt3_db_messages_queue route_db (pb_source pb) (pb_topic pb) (pb_qos pb) (pb_retain pb) (pb_stored pb) = Some (0, db')"
    and all: "\<forall>ci cx. get_ctx ci route_db = Some cx \<longrightarrow> (\<exists>cx'. get_ctx ci db' = Some cx'
        \<and> (if \<exists>q. (ci, q) \<in> matching route_db (drop_slash (pb_topic pb)) \<and> gets route_db pb ci q
           then \<exists>q mid. (ci, q) \<in> matching route_db (drop_slash (pb_topic pb)) \<and> gets route_db pb ci q \<and> cx_msgs cx' = cx_msgs cx @ [out_msg route_db pb cx q mid]
           else cx_msgs cx' = cx_msgs cx))" by blast
  have msgs: "cx_msgs (demo_ctx name) = []" for name by (simp add: demo_ctx_def)
  obtain a where a: "get_ctx 0 db' = Some a" "cx_msgs a = []" using all [rule_format, OF route_db_ctx(1)] m msgs by auto
  obtain b mid where b: "get_ctx 1 db' = Some b" "cx_msgs b = [out_msg route_db pb (demo_ctx ''bob'') 2 mid]"
    using all [rule_format, OF route_db_ctx(2)] m g msgs by auto
  have "cm_store (out_msg route_db pb (demo_ctx ''bob'') 2 mid) = 0" "cm_qos (out_msg route_db pb (demo_ctx ''bob'') 2 mid) = 1"
    using route_db_sel by (simp_all add: out_msg_def eff_qos_def pb_def)
  then show ?thesis using q a b by (auto simp: pb_def)
qed

end
