(* ===== verification/Broker_Refs.thy ===== *)
theory Broker_Refs
  imports Broker_Route "HOL-Library.Multiset"
begin

text \<open>
  The reference counts of the broker's message store. The count of a stored message is the number of entries in
  the clients' queues and of nodes of the tree that point to it, whatever the broker does. So the
  cleaning of the store frees no message that is still needed, and nothing uses a freed one.
\<close>

section \<open>The references\<close>

definition ctx_refs :: "ctx option \<Rightarrow> nat multiset" where
  "ctx_refs c = (case c of None \<Rightarrow> {#} | Some cx \<Rightarrow> mset (map cm_store (cx_msgs cx)))"

definition queue_refs :: "db \<Rightarrow> nat multiset" where
  "queue_refs db = sum_list (map ctx_refs (db_contexts db))"

text \<open>\<open>M\<close> are the references from the tree, which a search holds apart from the database.\<close>

definition ref_count :: "db \<Rightarrow> nat \<Rightarrow> int" where
  "ref_count db r = (case db_heap db r of None \<Rightarrow> 0 | Some st \<Rightarrow> st_ref_count st)"

definition refs_ok :: "db \<Rightarrow> nat multiset \<Rightarrow> bool" where
  "refs_ok db M \<longleftrightarrow> (\<forall>r. ref_count db r = int (count (queue_refs db + M) r)) \<and> set_mset (queue_refs db + M) \<subseteq> dom (db_heap db)"

text \<open>
  The queue of a client: the last pointer, the counters, and of the incoming messages only those that wait for
  their release, which have QoS 2.
\<close>

definition msg_ok :: "client_msg \<Rightarrow> bool" where
  "msg_ok m \<longleftrightarrow> (cm_direction m = mosq_md_in \<longrightarrow> cm_qos m = 2) \<and> cm_state m \<noteq> mosq_ms_invalid"

definition ctx_ok :: "ctx \<Rightarrow> bool" where
  "ctx_ok cx \<longleftrightarrow> last_ok cx \<and> list_all msg_ok (cx_msgs cx) \<and> cx_msg_count cx = int (length (cx_msgs cx))
     \<and> cx_msg_count12 cx = int (length (filter (\<lambda>m. cm_qos m > 0) (cx_msgs cx)))"

definition queues_ok :: "db \<Rightarrow> bool" where
  "queues_ok db \<longleftrightarrow> list_all (\<lambda>c. case c of None \<Rightarrow> True | Some cx \<Rightarrow> ctx_ok cx) (db_contexts db)"

text \<open>The list of stored messages.\<close>

definition store_ok :: "db \<Rightarrow> bool" where
  "store_ok db \<longleftrightarrow> distinct (db_msg_store db) \<and> dom (db_heap db) = set (db_msg_store db)
     \<and> list_all (\<lambda>r. r < db_next db) (db_msg_store db) \<and> db_msg_store_count db = int (length (db_msg_store db))"

definition store_inv :: "db \<Rightarrow> nat multiset \<Rightarrow> bool" where
  "store_inv db M \<longleftrightarrow> refs_ok db M \<and> queues_ok db \<and> store_ok db"

lemma sum_list_update: "k < length xs \<Longrightarrow> sum_list (map f (xs[k := y])) + f (xs ! k) = sum_list (map f xs) + f y"
  for f :: "'b \<Rightarrow> 'a::comm_monoid_add"
proof (induction xs arbitrary: k)
  case (Cons x xs)
  then show ?case by (cases k) (simp_all add: ac_simps)
qed simp

lemma queue_refs_put:
  assumes "get_ctx ci db = Some cx"
  shows "queue_refs (put_ctx ci cx' db) + mset (map cm_store (cx_msgs cx)) = queue_refs db + mset (map cm_store (cx_msgs cx'))"
  using assms sum_list_update [of ci "db_contexts db" ctx_refs "Some cx'"]
  by (auto simp: queue_refs_def get_ctx_def ctx_refs_def split: if_splits)

lemma queue_refs_upd [simp]:
  "queue_refs (db\<lparr>db_heap := hp\<rparr>) = queue_refs db" "queue_refs (db\<lparr>db_persistence_changes := n\<rparr>) = queue_refs db"
  "queue_refs (db\<lparr>db_msgs_dropped := n\<rparr>) = queue_refs db" "queue_refs (db\<lparr>db_retained_count := n\<rparr>) = queue_refs db"
  "queue_refs (db\<lparr>db_subs := hs\<rparr>) = queue_refs db" "queue_refs (db\<lparr>db_allocs := al\<rparr>) = queue_refs db"
  by (simp_all add: queue_refs_def)

lemma queues_okD: "\<lbrakk>queues_ok db; get_ctx ci db = Some cx\<rbrakk> \<Longrightarrow> ctx_ok cx"
  by (auto simp: queues_ok_def get_ctx_def list_all_length split: if_splits)

lemma queues_ok_put: "\<lbrakk>queues_ok db; ctx_ok cx\<rbrakk> \<Longrightarrow> queues_ok (put_ctx ci cx db)"
  by (auto simp: queues_ok_def list_all_iff dest!: set_update_subset_insert [THEN subsetD])

lemma refs_ok_heap: "\<lbrakk>refs_ok db M; r \<in># queue_refs db + M\<rbrakk> \<Longrightarrow> \<exists>st. db_heap db r = Some st"
  unfolding refs_ok_def by blast

text \<open>Everything that the invariant depends on is in the contexts, the heap and the list of messages.\<close>

definition store_view :: "db \<Rightarrow> ctx option list \<times> (nat \<Rightarrow> msg_store option) \<times> nat list \<times> int \<times> nat" where
  "store_view db = (db_contexts db, db_heap db, db_msg_store db, db_msg_store_count db, db_next db)"

lemma store_inv_cong: "store_view db' = store_view db \<Longrightarrow> store_inv db' M = store_inv db M"
  by (simp add: store_view_def store_inv_def refs_ok_def ref_count_def queue_refs_def queues_ok_def store_ok_def)

section \<open>Moving references\<close>

text \<open>The references \<open>B\<close> are added and \<open>A\<close> are removed.\<close>

lemma refs_ok_step:
  assumes "refs_ok db M" "dom (db_heap db') = dom (db_heap db)" "queue_refs db' + M' + A = queue_refs db + M + B"
    "\<And>x. ref_count db' x = ref_count db x + int (count B x) - int (count A x)" "set_mset B \<subseteq> dom (db_heap db)"
  shows "refs_ok db' M'"
proof -
  have c: "count (queue_refs db' + M') x + count A x = count (queue_refs db + M) x + count B x" for x
    using arg_cong [OF assms(3), of "\<lambda>m. count m x"] by simp
  have "ref_count db' x = int (count (queue_refs db' + M') x)" for x
    using assms(1) assms(4) [of x] c [of x] by (simp add: refs_ok_def)
  moreover have "x \<in> dom (db_heap db')" if "x \<in># queue_refs db' + M'" for x
  proof (rule ccontr)
    assume "x \<notin> dom (db_heap db')"
    then have "count (queue_refs db + M) x = 0" "count B x = 0"
      using assms(1,2,5) unfolding refs_ok_def by (metis count_eq_zero_iff subsetD)+
    then show False using c [of x] that by (metis add_is_0 count_eq_zero_iff)
  qed
  ultimately show ?thesis by (auto simp: refs_ok_def)
qed

text \<open>The clients, and the tree, stay the same.\<close>

definition same_clients :: "db \<Rightarrow> db \<Rightarrow> bool" where
  "same_clients db db' \<longleftrightarrow> (\<forall>ci. (get_ctx ci db' = None) = (get_ctx ci db = None)) \<and> ctx_id db' = ctx_id db \<and> db_subs db' = db_subs db
     \<and> same_settings db db'"

lemma same_clients_refl [simp]: "same_clients db db"
  by (simp add: same_clients_def same_settings_def)

lemma same_clients_trans: "\<lbrakk>same_clients a b; same_clients b c\<rbrakk> \<Longrightarrow> same_clients a c"
  by (auto simp: same_clients_def intro: same_settings_trans)

lemma same_clients_put:
  assumes "get_ctx ci db = Some cx" "c_id (cx_mosq cx') = c_id (cx_mosq cx)" "db_contexts db' = (db_contexts db)[ci := Some cx']"
    "db_subs db' = db_subs db" "same_settings db db'"
  shows "same_clients db db'"
proof -
  have len: "ci < length (db_contexts db)" using assms(1) by (rule get_ctx_length)
  have g: "get_ctx cj db' = (if cj = ci then Some cx' else get_ctx cj db)" for cj
    unfolding get_ctx_def assms(3) using len by (simp add: nth_list_update)
  show ?thesis unfolding same_clients_def ctx_id_def g fun_eq_iff using assms(1,2,4,5) by auto
qed

lemma store_ok_cong:
  "\<lbrakk>store_ok db; dom (db_heap db') = dom (db_heap db); db_msg_store db' = db_msg_store db; db_next db' = db_next db;
    db_msg_store_count db' = db_msg_store_count db\<rbrakk> \<Longrightarrow> store_ok db'"
  by (simp add: store_ok_def)

lemma mset_exchange: "\<lbrakk>q' + c = q + c'; c' + A = c + B\<rbrakk> \<Longrightarrow> q' + M + A = q + M + B" for q :: "'a multiset"
proof (rule multiset_eqI)
  fix x assume "q' + c = q + c'" "c' + A = c + B"
  then have "count (q' + c) x = count (q + c') x" "count (c' + A) x = count (c + B) x" by simp_all
  then show "count (q' + M + A) x = count (q + M + B) x" by simp
qed

text \<open>A client's queue is replaced, and the counts change by the difference.\<close>

lemma store_inv_put:
  assumes inv: "store_inv db M" and cx: "get_ctx ci db = Some cx" and ok: "ctx_ok cx'" and id: "c_id (cx_mosq cx') = c_id (cx_mosq cx)"
    and db': "db' = db\<lparr>db_heap := hp, db_contexts := (db_contexts db)[ci := Some cx'], db_persistence_changes := n, db_allocs := al, db_msgs_dropped := d\<rparr>"
      "dom hp = dom (db_heap db)"
    and refs: "mset (map cm_store (cx_msgs cx')) + A = mset (map cm_store (cx_msgs cx)) + B" "set_mset B \<subseteq> dom (db_heap db)"
      "\<And>x. ref_count db' x = ref_count db x + int (count B x) - int (count A x)"
  shows "store_inv db' M" "same_clients db db'"
proof -
  have "queue_refs db' = queue_refs (put_ctx ci cx' db)" by (simp add: db'(1) queue_refs_def)
  then have "queue_refs db' + mset (map cm_store (cx_msgs cx)) = queue_refs db + mset (map cm_store (cx_msgs cx'))"
    using queue_refs_put [OF cx] by simp
  then have "queue_refs db' + M + A = queue_refs db + M + B"
    using mset_exchange refs(1) by blast
  then have "refs_ok db' M" using inv db' refs(2,3) by (intro refs_ok_step [of db M db' M A B]) (auto simp: store_inv_def)
  moreover have "queues_ok db'" using queues_ok_put [of db cx' ci] inv ok by (simp add: store_inv_def queues_ok_def db'(1))
  moreover have "store_ok db'" using inv db' by (simp add: store_inv_def store_ok_def)
  ultimately show "store_inv db' M" by (simp add: store_inv_def)
  show "same_clients db db'" by (rule same_clients_put [OF cx id]) (simp_all add: db'(1) same_settings_def)
qed

lemma store_inv_heap:
  assumes "store_inv db M" "dom hp = dom (db_heap db)" "\<And>x. ref_count (db\<lparr>db_heap := hp\<rparr>) x = ref_count db x"
  shows "store_inv (db\<lparr>db_allocs := al, db_heap := hp\<rparr>) M" "same_clients db (db\<lparr>db_allocs := al, db_heap := hp\<rparr>)"
proof -
  let ?db = "db\<lparr>db_allocs := al, db_heap := hp\<rparr>"
  have "ref_count ?db = ref_count (db\<lparr>db_heap := hp\<rparr>)" by (simp add: ref_count_def fun_eq_iff)
  then have "refs_ok ?db M" using assms by (simp add: store_inv_def refs_ok_def)
  moreover have "queues_ok ?db" "store_ok ?db" using assms by (simp_all add: store_inv_def queues_ok_def store_ok_def)
  ultimately show "store_inv ?db M" by (simp add: store_inv_def)
  show "same_clients db ?db" by (simp add: same_clients_def same_settings_def ctx_id_def fun_eq_iff)
qed

lemma store_inv_counters [simp]:
  "store_inv (db\<lparr>db_persistence_changes := n\<rparr>) M = store_inv db M" "store_inv (db\<lparr>db_allocs := al\<rparr>) M = store_inv db M"
  "store_inv (db\<lparr>db_retained_count := n\<rparr>) M = store_inv db M" "store_inv (db\<lparr>db_subscription_count := n\<rparr>) M = store_inv db M"
  "store_inv (db\<lparr>db_subs := hs\<rparr>) M = store_inv db M" "store_inv (db\<lparr>db_msgs_dropped := n\<rparr>) M = store_inv db M"
  by (rule store_inv_cong, simp add: store_view_def)+

lemma same_clients_counters [simp]:
  "same_clients db (db\<lparr>db_persistence_changes := n\<rparr>)" "same_clients db (db\<lparr>db_allocs := al\<rparr>)" "same_clients db (db\<lparr>db_retained_count := n\<rparr>)"
  by (simp_all add: same_clients_def same_settings_def ctx_id_def fun_eq_iff)

lemma store_inv_ctx: "\<lbrakk>store_inv db M; get_ctx ci db = Some cx\<rbrakk> \<Longrightarrow> ctx_ok cx"
  by (auto simp: store_inv_def dest: queues_okD)

lemma in_queue_refs: "\<lbrakk>get_ctx ci db = Some cx; m \<in> set (cx_msgs cx)\<rbrakk> \<Longrightarrow> cm_store m \<in># queue_refs db"
proof -
  assume cx: "get_ctx ci db = Some cx" and m: "m \<in> set (cx_msgs cx)"
  have "\<exists>xs ys. db_contexts db = xs @ Some cx # ys"
    using cx by (auto simp: get_ctx_def split: if_splits) (metis id_take_nth_drop)
  then show ?thesis using m by (auto simp: queue_refs_def ctx_refs_def)
qed

lemma store_inv_in_heap: "\<lbrakk>store_inv db M; get_ctx ci db = Some cx; m \<in> set (cx_msgs cx)\<rbrakk> \<Longrightarrow> \<exists>st. db_heap db (cm_store m) = Some st"
  using in_queue_refs [of ci db cx m] unfolding store_inv_def refs_ok_def by auto

section \<open>The queue of a client\<close>

text \<open>Messages may change their state in place.\<close>

definition same_msgs :: "client_msg list \<Rightarrow> client_msg list \<Rightarrow> bool" where
  "same_msgs ms ms' \<longleftrightarrow> list_all2 (\<lambda>m m'. cm_store m' = cm_store m \<and> cm_qos m' = cm_qos m \<and> (msg_ok m \<longrightarrow> msg_ok m')) ms ms'"

lemma same_msgsD:
  assumes "same_msgs ms ms'"
  shows "length ms' = length ms" "map cm_store ms' = map cm_store ms" "length (filter (\<lambda>m. cm_qos m > 0) ms') = length (filter (\<lambda>m. cm_qos m > 0) ms)"
    "list_all msg_ok ms \<Longrightarrow> list_all msg_ok ms'" "ms' = [] \<longleftrightarrow> ms = []"
  using assms unfolding same_msgs_def by (induction rule: list_all2_induct) auto

lemma same_msgs_refl [simp]: "same_msgs ms ms"
  by (simp add: same_msgs_def list_all2_same)

lemma same_msgs_update: "\<lbrakk>\<And>m. cm_store (f m) = cm_store m \<and> cm_qos (f m) = cm_qos m \<and> (msg_ok m \<longrightarrow> msg_ok (f m))\<rbrakk> \<Longrightarrow> same_msgs ms (ms[k := f (ms ! k)])"
  by (cases "k < length ms") (auto simp: same_msgs_def list_all2_conv_all_nth nth_list_update)

lemma ctx_ok_same_msgs: "\<lbrakk>ctx_ok cx; same_msgs (cx_msgs cx) ms\<rbrakk> \<Longrightarrow> ctx_ok (cx\<lparr>cx_msgs := ms\<rparr>)"
  using same_msgsD [of "cx_msgs cx" ms] by (auto simp: ctx_ok_def last_ok_def)

lemma put_same_inv:
  assumes "store_inv db M" "get_ctx ci db = Some cx" "ctx_ok cx'" "map cm_store (cx_msgs cx') = map cm_store (cx_msgs cx)"
    "c_id (cx_mosq cx') = c_id (cx_mosq cx)"
  shows "store_inv (put_ctx ci cx' db) M" "same_clients db (put_ctx ci cx' db)"
proof -
  have eq: "put_ctx ci cx' db = db\<lparr>db_heap := db_heap db, db_contexts := (db_contexts db)[ci := Some cx'],
      db_persistence_changes := db_persistence_changes db, db_allocs := db_allocs db, db_msgs_dropped := db_msgs_dropped db\<rparr>"
    by (simp add: put_ctx_def)
  show "store_inv (put_ctx ci cx' db) M" "same_clients db (put_ctx ci cx' db)"
    using assms(4,5) by (intro store_inv_put [OF assms(1-3) _ eq, of "{#}" "{#}"]; simp add: ref_count_def put_ctx_def)+
qed

lemma requeue_inv:
  assumes "store_inv db M" "get_ctx ci db = Some cx" "same_msgs (cx_msgs cx) ms"
  shows "store_inv (put_ctx ci (cx\<lparr>cx_msgs := ms\<rparr>) db) M" "same_clients db (put_ctx ci (cx\<lparr>cx_msgs := ms\<rparr>) db)"
  using put_same_inv [OF assms(1,2) ctx_ok_same_msgs [OF store_inv_ctx [OF assms(1,2)] assms(3)]] same_msgsD(2) [OF assms(3)] by simp_all

lemma set_msg_inv:
  assumes "store_inv db M" "\<And>m. cm_store (f m) = cm_store m \<and> cm_qos (f m) = cm_qos m \<and> (msg_ok m \<longrightarrow> msg_ok (f m))"
  shows "store_inv (set_msg ci k f db) M \<and> same_clients db (set_msg ci k f db)"
  using requeue_inv [OF assms(1) _ same_msgs_update, of ci _ f k] assms by (auto simp: set_msg_def split: option.splits)

lemma unqueue_keeps: "cm_store (unqueue now m) = cm_store m \<and> cm_qos (unqueue now m) = cm_qos m \<and> (msg_ok m \<longrightarrow> msg_ok (unqueue now m))"
  by (auto simp: unqueue_def msg_ok_def Let_def publish_state_def)

text \<open>Removing a message.\<close>

lemma remove_nth_split: "k < length xs \<Longrightarrow> xs = take k xs @ xs ! k # drop (k + 1) xs"
  by (simp add: id_take_nth_drop)

lemma ctx_ok_remove:
  assumes "ctx_ok cx" "k < length (cx_msgs cx)"
  shows "ctx_ok (cx\<lparr>cx_msgs := remove_nth k (cx_msgs cx), cx_last_msg := last_unlink k (length (cx_msgs cx)) (cx_last_msg cx),
    cx_msg_count := cx_msg_count cx - 1, cx_msg_count12 := (if cm_qos (cx_msgs cx ! k) > 0 then cx_msg_count12 cx - 1 else cx_msg_count12 cx)\<rparr>)"
proof -
  let ?ms = "cx_msgs cx"
  have len: "length (remove_nth k ?ms) = length ?ms - 1" using assms(2) by (simp add: remove_nth_def)
  have f: "length (filter P ?ms) = length (filter P (remove_nth k ?ms)) + (if P (?ms ! k) then 1 else 0)" for P
    by (subst remove_nth_split [OF assms(2)]) (simp add: remove_nth_def)
  have "set (remove_nth k ?ms) \<subseteq> set ?ms" by (auto simp: remove_nth_def dest: in_set_takeD in_set_dropD)
  then have "list_all msg_ok (remove_nth k ?ms)" using assms(1) by (auto simp: ctx_ok_def list_all_iff)
  moreover have l: "cx_last_msg cx = Last_at (length ?ms - 1)" using assms by (auto simp: ctx_ok_def last_ok_def)
  have "last_unlink k (length ?ms) (Last_at (length ?ms - 1)) = (if length ?ms = 1 then Last_null else Last_at (length ?ms - Suc (Suc 0)))"
    using assms(2) by (auto simp: last_unlink_def)
  moreover have "remove_nth k ?ms = [] \<longleftrightarrow> length ?ms = 1" using len assms(2) by (cases "remove_nth k ?ms") auto
  ultimately show ?thesis using assms len f [of "\<lambda>m. cm_qos m > 0"] unfolding l ctx_ok_def last_ok_def by (simp add: of_nat_diff)
qed

lemma ref_count_add_ref:
  "add_ref r n db = Some db' \<Longrightarrow> (ref_count db' x = ref_count db x + (if x = r then n else 0)) \<and> dom (db_heap db') = dom (db_heap db)"
  by (auto simp: add_ref_def ref_count_def split: option.splits if_splits)

lemma message_remove_inv:
  assumes inv: "store_inv db M" and cx: "get_ctx ci db = Some cx"
  shows "\<exists>db' cx'. message_remove ci k db = Some db' \<and> store_inv db' M \<and> same_clients db db' \<and> get_ctx ci db' = Some cx'
    \<and> cx_mosq cx' = cx_mosq cx \<and> cx_msgs cx' = (if k < length (cx_msgs cx) then remove_nth k (cx_msgs cx) else cx_msgs cx)"
proof (cases "k < length (cx_msgs cx)")
  case True
  let ?m = "cx_msgs cx ! k"
  let ?cx = "cx\<lparr>cx_msgs := remove_nth k (cx_msgs cx), cx_last_msg := last_unlink k (length (cx_msgs cx)) (cx_last_msg cx),
    cx_msg_count := cx_msg_count cx - 1, cx_msg_count12 := (if cm_qos ?m > 0 then cx_msg_count12 cx - 1 else cx_msg_count12 cx)\<rparr>"
  obtain st where st: "db_heap db (cm_store ?m) = Some st" using store_inv_in_heap [OF inv cx] True by force
  then obtain db1 where a: "add_ref (cm_store ?m) (-1) db = Some db1" "db1 = db\<lparr>db_heap := db_heap db1\<rparr>" by (auto simp: add_ref_def)
  let ?db = "put_ctx ci ?cx db1"
  have eq: "?db = db\<lparr>db_heap := db_heap db1, db_contexts := (db_contexts db)[ci := Some ?cx],
      db_persistence_changes := db_persistence_changes db, db_allocs := db_allocs db, db_msgs_dropped := db_msgs_dropped db\<rparr>"
    by (subst a(2)) (simp add: put_ctx_def)
  have ok: "ctx_ok ?cx" using ctx_ok_remove [OF store_inv_ctx [OF inv cx] True] .
  have rc: "ref_count ?db x = ref_count db x + int (count {#} x) - int (count {#cm_store ?m#} x)" for x
    using ref_count_add_ref [OF a(1), of x] by (simp add: ref_count_def)
  have ms: "mset (map cm_store (cx_msgs ?cx)) + {#cm_store ?m#} = mset (map cm_store (cx_msgs cx)) + {#}"
    by (subst (3) remove_nth_split [OF True]) (simp add: remove_nth_def)
  have "store_inv ?db M" "same_clients db ?db"
    using ref_count_add_ref [OF a(1)] by (intro store_inv_put [OF inv cx ok _ eq _ ms _ rc]; simp)+
  moreover have "message_remove ci k db = Some ?db" using cx True a(1) by (simp add: message_remove_def)
  moreover have "get_ctx ci ?db = Some ?cx" using get_ctx_length [OF cx] by (simp add: eq get_ctx_def)
  ultimately show ?thesis using True by auto
next
  case False
  then show ?thesis using assms by (simp add: message_remove_def)
qed

lemma same_clients_ctx: "\<lbrakk>same_clients db db'; get_ctx ci db = Some cx\<rbrakk> \<Longrightarrow> \<exists>cx'. get_ctx ci db' = Some cx'"
  unfolding same_clients_def by (metis not_Some_eq)

lemma delete_loop_inv:
  assumes "store_inv db M" "get_ctx ci db \<noteq> None"
  shows "\<exists>db'. delete_loop ci mid dir n k i deleted db = Some db' \<and> store_inv db' M \<and> same_clients db db'"
  using assms
proof (induction n arbitrary: k i deleted db)
  case (Suc n)
  obtain cx where cx: "get_ctx ci db = Some cx" using Suc.prems(2) by auto
  define db1 where "db1 = (if cm_state (cx_msgs cx ! k) = mosq_ms_queued \<and> i + 1 \<le> db_max_inflight db then set_msg ci k (unqueue (db_now db)) db else db)"
  have i1: "store_inv db1 M" "same_clients db db1"
    using set_msg_inv [OF Suc.prems(1) unqueue_keeps] Suc.prems(1) by (simp_all add: db1_def)
  obtain cx1 where cx1: "get_ctx ci db1 = Some cx1" using same_clients_ctx [OF i1(2) cx] by auto
  obtain db2 cx2 where r: "message_remove ci k db1 = Some db2" "store_inv db2 M" "same_clients db1 db2" "get_ctx ci db2 = Some cx2"
    using message_remove_inv [OF i1(1) cx1, of k] by blast
  obtain db3 where d3: "delete_loop ci mid dir n k i True db2 = Some db3" "store_inv db3 M" "same_clients db2 db3"
    using Suc.IH [OF r(2)] r(4) by force
  obtain db4 where d4: "delete_loop ci mid dir n (k + 1) (i + 1) deleted db1 = Some db4" "store_inv db4 M" "same_clients db1 db4"
    using Suc.IH [OF i1(1)] cx1 by force
  have "delete_loop ci mid dir (Suc n) k i deleted db =
      (if cm_mid (cx_msgs cx ! k) = mid \<and> cm_direction (cx_msgs cx ! k) = dir then (if i > db_max_inflight db2 then Some db2 else Some db3)
       else if i + 1 > db_max_inflight db1 \<and> deleted then Some db1 else Some db4)"
    using cx r(1) d3(1) d4(1) by (simp add: Let_def flip: db1_def)
  moreover have "same_clients db db2" "same_clients db db3" "same_clients db db4"
    using same_clients_trans i1(2) r(3) d3(3) d4(3) by blast+
  ultimately show ?case using i1 r(2) d3(2) d4(2) by auto
qed simp

lemma message_delete_inv:
  assumes "store_inv db M" "get_ctx ci db \<noteq> None"
  shows "\<exists>db'. mqtt3_db_message_delete db ci mid dir = Some (MOSQ_ERR_SUCCESS, db') \<and> store_inv db' M \<and> same_clients db db'"
proof -
  obtain cx where cx: "get_ctx ci db = Some cx" using assms(2) by auto
  show ?thesis using delete_loop_inv [OF assms, of mid dir "length (cx_msgs cx)" 0 0 False] cx by (auto simp: mqtt3_db_message_delete_def)
qed

lemma message_update_inv:
  assumes "store_inv db M" "get_ctx ci db \<noteq> None" "state \<noteq> mosq_ms_invalid"
  shows "\<exists>rc db'. mqtt3_db_message_update db ci mid dir state = Some (rc, db') \<and> store_inv db' M \<and> same_clients db db'"
proof -
  have "store_inv (set_msg ci k (\<lambda>m. m\<lparr>cm_state := state, cm_timestamp := db_now db\<rparr>) db) M
      \<and> same_clients db (set_msg ci k (\<lambda>m. m\<lparr>cm_state := state, cm_timestamp := db_now db\<rparr>) db)" for k
    using assms(3) by (intro set_msg_inv [OF assms(1)]) (auto simp: msg_ok_def)
  then show ?thesis using assms(1,2) by (auto simp: mqtt3_db_message_update_def split: option.splits)
qed

section \<open>Inserting and storing\<close>

lemma ctx_ok_append:
  assumes "ctx_ok cx" "append_msg m cx = Some cx1" "msg_ok m"
  shows "ctx_ok (cx1\<lparr>cx_msg_count := cx_msg_count cx1 + 1, cx_msg_count12 := (if cm_qos m > 0 then cx_msg_count12 cx1 + 1 else cx_msg_count12 cx1)\<rparr>)"
    "cx_msgs cx1 = cx_msgs cx @ [m]" "cx_mosq cx1 = cx_mosq cx"
  using assms append_msg_ok [of cx m] by (auto simp: ctx_ok_def last_ok_def)

lemma insert_queue_inv:
  assumes inv: "store_inv db M" and q: "insert_queue db ci mid dir qos retain stored state = Some db'"
    and ok: "dir = mosq_md_in \<longrightarrow> qos = 2" "state \<noteq> mosq_ms_invalid"
  shows "store_inv db' M" "same_clients db db'"
proof -
  obtain cx db1 cx1 where s: "get_ctx ci db = Some cx" "add_ref stored 1 db = Some db1"
    "append_msg \<lparr>cm_store = stored, cm_mid = mid, cm_qos = qos, cm_retain = retain, cm_timestamp = db_now db1,
       cm_direction = dir, cm_state = state, cm_dup = False\<rparr> cx = Some cx1" (is "append_msg ?m cx = _")
    "db' = put_ctx ci (cx1\<lparr>cx_msg_count := cx_msg_count cx1 + 1, cx_msg_count12 := (if qos > 0 then cx_msg_count12 cx1 + 1 else cx_msg_count12 cx1)\<rparr>) db1"
    using q by (auto simp: insert_queue_def bind_eq_Some_conv)
  have "msg_ok ?m" using ok by (simp add: msg_ok_def)
  note a = ctx_ok_append [OF store_inv_ctx [OF inv s(1)] s(3) this]
  have db1: "db1 = db\<lparr>db_heap := db_heap db1\<rparr>" "stored \<in> dom (db_heap db)" using s(2) by (auto simp: add_ref_def split: option.splits)
  let ?cx = "cx1\<lparr>cx_msg_count := cx_msg_count cx1 + 1, cx_msg_count12 := (if qos > 0 then cx_msg_count12 cx1 + 1 else cx_msg_count12 cx1)\<rparr>"
  have eq: "db' = db\<lparr>db_heap := db_heap db1, db_contexts := (db_contexts db)[ci := Some ?cx],
      db_persistence_changes := db_persistence_changes db, db_allocs := db_allocs db, db_msgs_dropped := db_msgs_dropped db\<rparr>"
    unfolding s(4) by (subst db1(1)) (simp add: put_ctx_def)
  have rc: "ref_count db' x = ref_count db x + int (count {#stored#} x) - int (count {#} x)" for x
    using ref_count_add_ref [OF s(2), of x] by (simp add: ref_count_def s(4))
  have ms: "mset (map cm_store (cx_msgs ?cx)) + {#} = mset (map cm_store (cx_msgs cx)) + {#stored#}" using a(2) by simp
  have ok': "ctx_ok ?cx" using a(1) by simp
  show "store_inv db' M" "same_clients db db'"
    using ref_count_add_ref [OF s(2)] db1(2) a(3) by (intro store_inv_put [OF inv s(1) ok' _ eq _ ms _ rc]; simp)+
qed

lemma record_dest_inv:
  assumes "store_inv db M" "record_dest db ci stored = Some (b, db')"
  shows "store_inv db' M \<and> same_clients db db'"
proof -
  obtain st where st: "db_heap db stored = Some st" using assms(2) by (auto simp: record_dest_def bind_eq_Some_conv)
  have h: "store_inv (db\<lparr>db_allocs := al, db_heap := (db_heap db)(stored \<mapsto> st\<lparr>st_dest_ids := ds\<rparr>)\<rparr>) M"
    "same_clients db (db\<lparr>db_allocs := al, db_heap := (db_heap db)(stored \<mapsto> st\<lparr>st_dest_ids := ds\<rparr>)\<rparr>)" for ds al
    using st by (intro store_inv_heap [OF assms(1)]; auto simp: ref_count_def)+
  have "\<exists>ds al. db' = db\<lparr>db_allocs := al\<rparr> \<or> db' = db\<lparr>db_allocs := al, db_heap := (db_heap db)(stored \<mapsto> st\<lparr>st_dest_ids := ds\<rparr>)\<rparr>"
    using assms(2) st unfolding record_dest_def db_alloc_def
    by (auto simp: bind_eq_Some_conv split: prod.splits bool.splits)
  then show ?thesis using h assms(1) by auto
qed

lemma wakeup_inv:
  assumes "store_inv db M" "get_ctx ci db = Some cx"
  shows "store_inv (put_ctx ci (bridge_wakeup cx) db) M \<and> same_clients db (put_ctx ci (bridge_wakeup cx) db)"
proof -
  have "ctx_ok (bridge_wakeup cx)" "cx_msgs (bridge_wakeup cx) = cx_msgs cx" "c_id (cx_mosq (bridge_wakeup cx)) = c_id (cx_mosq cx)"
    using store_inv_ctx [OF assms] by (auto simp: bridge_wakeup_def ctx_ok_def last_ok_def split: option.splits)
  then show ?thesis using put_same_inv [OF assms] by simp
qed

lemma db_alloc_inv: "db_alloc db = (b, db') \<Longrightarrow> store_inv db' M = store_inv db M \<and> same_clients db db' \<and> db_subs db' = db_subs db"
  by (auto simp: db_alloc_def split: prod.splits)

lemma message_insert_inv:
  assumes inv: "store_inv db M" and ins: "mqtt3_db_message_insert db ci mid dir qos retain stored = Some (rc, db')"
    and ok: "dir = mosq_md_in \<longrightarrow> qos = 2"
  shows "store_inv db' M \<and> same_clients db db'"
proof -
  obtain cx st sent where s: "get_ctx ci db = Some cx" "db_heap db stored = Some st" "already_sent db cx dir retain st = Some sent"
    using ins by (auto simp: mqtt3_db_message_insert_def bind_eq_Some_conv)
  let ?off = "c_sock (cx_mosq cx) = INVALID_SOCKET \<and> qos = 0 \<and> \<not> cf_queue_qos0_messages (db_config db)
      \<and> (case cx_bridge cx of None \<Rightarrow> True | Some b \<Rightarrow> \<not> br_lazy b)"
  show ?thesis
  proof (cases "sent \<or> ?off")
    case True
    then show ?thesis using ins s inv by (auto simp: mqtt3_db_message_insert_def split: if_splits)
  next
    case False
    show ?thesis
    proof (cases "insert_state db cx dir qos")
      case Is_refuse
      then show ?thesis using ins s inv False by (auto simp: mqtt3_db_message_insert_def split: if_splits)
    next
      case Is_drop
      then have db': "db' = (put_ctx ci (cx\<lparr>cx_is_dropping := True\<rparr>) db)\<lparr>db_msgs_dropped := db_msgs_dropped db + 1\<rparr>"
        using ins s False by (auto simp: mqtt3_db_message_insert_def split: if_splits)
      have "ctx_ok (cx\<lparr>cx_is_dropping := True\<rparr>)" using store_inv_ctx [OF inv s(1)] by (simp add: ctx_ok_def last_ok_def)
      then have "store_inv (put_ctx ci (cx\<lparr>cx_is_dropping := True\<rparr>) db) M" "same_clients db (put_ctx ci (cx\<lparr>cx_is_dropping := True\<rparr>) db)"
        using put_same_inv [OF inv s(1)] by simp_all
      then show ?thesis using db' by (simp add: same_clients_def same_settings_def ctx_id_def fun_eq_iff)
    next
      case (Is_state state r)
      define db1 where "db1 = (if state = mosq_ms_queued then db\<lparr>db_persistence_changes := db_persistence_changes db + 1\<rparr> else db)"
      have i1: "store_inv db1 M" "same_clients db db1" using inv by (simp_all add: db1_def)
      obtain b db2 where al: "db_alloc db1 = (b, db2)" by fastforce
      have i2: "store_inv db2 M" "same_clients db db2" using db_alloc_inv [OF al, of M] i1 same_clients_trans by auto
      have st: "state \<noteq> mosq_ms_invalid" using ins s False Is_state by (auto simp: mqtt3_db_message_insert_def split: if_splits)
      show ?thesis
      proof (cases b)
        case no: False
        then have "db' = db2" using ins s False Is_state al st by (auto simp: mqtt3_db_message_insert_def Let_def split: if_splits simp flip: db1_def)
        then show ?thesis using i2 by simp
      next
        case True
        obtain db3 where q: "insert_queue db2 ci mid dir qos retain stored state = Some db3"
          using ins s False Is_state al st True
          by (auto simp: mqtt3_db_message_insert_def Let_def bind_eq_Some_conv split: if_splits simp flip: db1_def)
        have i3: "store_inv db3 M" "same_clients db db3"
          using insert_queue_inv [OF i2(1) q ok st] i2(2) same_clients_trans by blast+
        obtain b4 db4 where d: "(if \<not> cf_allow_duplicate_messages (db_config db3) \<and> dir = mosq_md_out \<and> \<not> retain
            then record_dest db3 ci stored else Some (True, db3)) = Some (b4, db4)"
          and db': "db' = db4 \<or> (\<exists>cx4. get_ctx ci db4 = Some cx4 \<and> db' = put_ctx ci (bridge_wakeup cx4) db4)"
          using ins s False Is_state al st True q
          by (auto simp: mqtt3_db_message_insert_def Let_def bind_eq_Some_conv split: if_splits simp flip: db1_def)
        have "store_inv db4 M \<and> same_clients db3 db4" using record_dest_inv [OF i3(1)] d i3(1) by (auto split: if_splits)
        then show ?thesis using db' wakeup_inv i3(2) same_clients_trans by blast
      qed
    qed
  qed
qed

lemma new_store_inv:
  assumes inv: "store_inv db M" and n: "new_store db source source_mid topic qos payloadlen payload retain store_id = (r, db')"
  shows "store_inv db' M" "same_clients db db'" "\<exists>st. db_heap db' r = Some st \<and> st_dest_ids st = [] \<and> st_ref_count st = 0 \<and> m_topic (st_msg st) = topic"
proof -
  obtain st lid where st: "st_ref_count st = 0" "st_dest_ids st = []" "m_topic (st_msg st) = topic" "r = db_next db"
    "db' = db\<lparr>db_next := r + 1, db_msg_store_count := db_msg_store_count db + 1, db_msg_store := r # db_msg_store db,
       db_last_db_id := lid, db_heap := (db_heap db)(r \<mapsto> st)\<rparr>"
  proof -
    let ?st = "\<lparr>st_db_id = (if store_id = 0 then db_last_db_id db + 1 else store_id), st_ref_count = 0, st_source_id = source, st_dest_ids = [],
         st_source_mid = source_mid, st_msg = \<lparr>m_mid = 0, m_topic = topic, m_payload = payload, m_payloadlen = sint payloadlen, m_qos = qos, m_retain = retain\<rparr>\<rparr>"
    let ?l = "if store_id = 0 then db_last_db_id db + 1 else db_last_db_id db"
    show thesis by (rule that [of ?st ?l]) (use n in \<open>auto simp: new_store_def Let_def\<close>)
  qed
  have fresh: "db_heap db r = None" "r \<notin> set (db_msg_store db)"
    using inv st(4) by (auto simp: store_inv_def store_ok_def list_all_iff)
  have q: "queue_refs db' = queue_refs db" by (simp add: st(5) queue_refs_def)
  have "count (queue_refs db + M) r = 0" using inv fresh(1) unfolding store_inv_def refs_ok_def by (metis count_eq_zero_iff domIff subsetD)
  then have "ref_count db' x = int (count (queue_refs db + M) x)" for x
    using inv st(1) fresh by (cases "x = r") (auto simp: store_inv_def refs_ok_def ref_count_def st(5))
  then have "refs_ok db' M" using inv q unfolding refs_ok_def store_inv_def by (auto simp: st(5))
  moreover have "queues_ok db'" using inv by (simp add: store_inv_def queues_ok_def st(5))
  moreover have "store_ok db'" using inv fresh st(4) unfolding store_inv_def store_ok_def
    by (auto simp: st(5) list_all_iff less_Suc_eq)
  ultimately show "store_inv db' M" by (simp add: store_inv_def)
  show "same_clients db db'" by (simp add: st(5) same_clients_def same_settings_def ctx_id_def get_ctx_def fun_eq_iff)
  show "\<exists>st. db_heap db' r = Some st \<and> st_dest_ids st = [] \<and> st_ref_count st = 0 \<and> m_topic (st_msg st) = topic" using st by simp
qed

lemma message_store_inv:
  assumes inv: "store_inv db M" and s: "mqtt3_db_message_store db source source_mid topic qos payloadlen payload retain store_id = Some (rc, stored, db')"
  shows "store_inv db' M" "same_clients db db'" "db_subs db' = db_subs db" "rc = 0 \<Longrightarrow> \<exists>r st. stored = Some r \<and> db_heap db' r = Some st \<and> st_dest_ids st = []"
proof -
  have "\<exists>al. db' = db\<lparr>db_allocs := al\<rparr> \<and> rc = 1 \<or>
      (\<exists>p r. new_store (db\<lparr>db_allocs := al\<rparr>) (case source of None \<Rightarrow> '''' | Some s \<Rightarrow> s) source_mid topic qos payloadlen p retain store_id = (r, db')
        \<and> stored = Some r)"
    using s unfolding mqtt3_db_message_store_def db_alloc_def
    by (auto simp: Let_def bind_eq_Some_conv split: prod.splits bool.splits if_splits) (metis surj_pair)+
  then obtain db1 where db1: "store_inv db1 M" "same_clients db db1" "db' = db1 \<and> rc = 1 \<or>
      (\<exists>p r. new_store db1 (case source of None \<Rightarrow> '''' | Some s \<Rightarrow> s) source_mid topic qos payloadlen p retain store_id = (r, db') \<and> stored = Some r)"
    using inv by (metis same_clients_counters(2) store_inv_counters(2))
  show "store_inv db' M" using db1 new_store_inv(1) by blast
  show "same_clients db db'" using db1 new_store_inv(2) same_clients_trans by blast
  then show "db_subs db' = db_subs db" by (simp add: same_clients_def)
  show "\<exists>r st. stored = Some r \<and> db_heap db' r = Some st \<and> st_dest_ids st = []" if "rc = 0"
    using db1(3) that new_store_inv(3) [OF db1(1)] by fastforce
qed

section \<open>Clearing, resetting and retrying\<close>

lemma release_refs_counts:
  assumes "\<forall>m \<in> set ms. db_heap db (cm_store m) \<noteq> None"
  shows "\<exists>hp. release_refs ms db = Some (db\<lparr>db_heap := hp\<rparr>) \<and> dom hp = dom (db_heap db)
    \<and> (\<forall>x. ref_count (db\<lparr>db_heap := hp\<rparr>) x = ref_count db x - int (count (mset (map cm_store ms)) x))"
  using assms
proof (induction ms arbitrary: db)
  case Nil
  then show ?case by (intro exI [of _ "db_heap db"]) simp
next
  case (Cons m ms)
  obtain st where st: "db_heap db (cm_store m) = Some st" using Cons.prems by auto
  define hp where "hp = (db_heap db)(cm_store m \<mapsto> st\<lparr>st_ref_count := st_ref_count st - 1\<rparr>)"
  have a: "add_ref (cm_store m) (-1) db = Some (db\<lparr>db_heap := hp\<rparr>)" using st by (simp add: add_ref_def hp_def)
  note rc = ref_count_add_ref [OF a]
  have "\<forall>m \<in> set ms. db_heap (db\<lparr>db_heap := hp\<rparr>) (cm_store m) \<noteq> None" using Cons.prems st by (simp add: hp_def)
  then obtain hp' where b: "release_refs ms (db\<lparr>db_heap := hp\<rparr>) = Some (db\<lparr>db_heap := hp'\<rparr>)" "dom hp' = dom hp"
    "\<forall>x. ref_count (db\<lparr>db_heap := hp'\<rparr>) x = ref_count (db\<lparr>db_heap := hp\<rparr>) x - int (count (mset (map cm_store ms)) x)"
    using Cons.IH [of "db\<lparr>db_heap := hp\<rparr>"] by auto
  then show ?case using a rc by (intro exI [of _ hp']) auto
qed

lemma messages_delete_inv:
  assumes inv: "store_inv db M" and cx: "get_ctx ci db = Some cx"
  shows "\<exists>db'. mqtt3_db_messages_delete db ci = Some (MOSQ_ERR_SUCCESS, db') \<and> store_inv db' M \<and> same_clients db db'
    \<and> map_option cx_msgs (get_ctx ci db') = Some []"
proof -
  let ?cx = "cx\<lparr>cx_msgs := [], cx_last_msg := Last_null, cx_msg_count := 0, cx_msg_count12 := 0\<rparr>"
  have "\<forall>m \<in> set (cx_msgs cx). db_heap db (cm_store m) \<noteq> None" using store_inv_in_heap [OF inv cx] by auto
  then obtain hp where r: "release_refs (cx_msgs cx) db = Some (db\<lparr>db_heap := hp\<rparr>)" "dom hp = dom (db_heap db)"
    "\<forall>x. ref_count (db\<lparr>db_heap := hp\<rparr>) x = ref_count db x - int (count (mset (map cm_store (cx_msgs cx))) x)"
    using release_refs_counts by blast
  let ?db = "put_ctx ci ?cx (db\<lparr>db_heap := hp\<rparr>)"
  have eq: "?db = db\<lparr>db_heap := hp, db_contexts := (db_contexts db)[ci := Some ?cx],
      db_persistence_changes := db_persistence_changes db, db_allocs := db_allocs db, db_msgs_dropped := db_msgs_dropped db\<rparr>"
    by (simp add: put_ctx_def)
  have rc: "ref_count ?db x = ref_count db x + int (count {#} x) - int (count (mset (map cm_store (cx_msgs cx))) x)" for x
    using r(3) by (simp add: ref_count_def)
  have ok: "ctx_ok ?cx" by (simp add: ctx_ok_def last_ok_def)
  have "store_inv ?db M" "same_clients db ?db"
    using r(2) by (intro store_inv_put [OF inv cx ok _ eq _ _ _ rc]; simp)+
  moreover have "get_ctx ci ?db = Some ?cx" using get_ctx_length [OF cx] by (simp add: eq get_ctx_def)
  ultimately show ?thesis using cx r(1) by (simp add: mqtt3_db_messages_delete_def)
qed

text \<open>At a reconnect the counters are counted anew; no message of the queue is removed.\<close>

definition reset_msg :: "client_msg \<Rightarrow> client_msg" where
  "reset_msg m = (if cm_direction m = mosq_md_out then reset_state m else m)"

lemma reset_msg_keeps: "cm_store (reset_msg m) = cm_store m \<and> cm_qos (reset_msg m) = cm_qos m \<and> (msg_ok m \<longrightarrow> msg_ok (reset_msg m))"
  by (auto simp: reset_msg_def reset_state_def msg_ok_def publish_state_def)

lemma put_put_ctx [simp]: "put_ctx ci cx' (put_ctx ci cx db) = put_ctx ci cx' db"
  by (simp add: put_ctx_def)

lemma db_reset_loop_eq:
  assumes "get_ctx ci db = Some cx" "length (cx_msgs cx) = k + n" "list_all msg_ok (cx_msgs cx)"
  shows "db_reset_loop ci n k db = Some (put_ctx ci (cx\<lparr>cx_msgs := take k (cx_msgs cx) @ map reset_msg (drop k (cx_msgs cx)),
    cx_last_msg := (if n = 0 then cx_last_msg cx else Last_at (k + n - 1)), cx_msg_count := cx_msg_count cx + int n,
    cx_msg_count12 := cx_msg_count12 cx + int (length (filter (\<lambda>m. cm_qos m > 0) (drop k (cx_msgs cx))))\<rparr>) db)"
  using assms
proof (induction n arbitrary: k cx db)
  case 0
  then have "put_ctx ci cx db = db" by (cases db) (auto simp: put_ctx_def get_ctx_def list_update_same_conv split: if_splits)
  then show ?case using 0 by simp
next
  case (Suc n)
  let ?m = "cx_msgs cx ! k"
  have k: "k < length (cx_msgs cx)" using Suc.prems(2) by simp
  define cx1 where "cx1 = cx\<lparr>cx_last_msg := Last_at k, cx_msg_count := cx_msg_count cx + 1,
      cx_msg_count12 := (if cm_qos ?m > 0 then cx_msg_count12 cx + 1 else cx_msg_count12 cx)\<rparr>"
  define cx2 where "cx2 = cx1\<lparr>cx_msgs := (cx_msgs cx)[k := reset_msg ?m]\<rparr>"
  have mok: "msg_ok ?m" using Suc.prems(3) k by (simp add: list_all_length)
  have len: "ci < length (db_contexts db)" by (rule get_ctx_length [OF Suc.prems(1)])
  have step: "db_reset_loop ci (Suc n) k db = db_reset_loop ci n (k + 1) (put_ctx ci cx2 db)"
  proof (cases "cm_direction ?m = mosq_md_out")
    case True
    then show ?thesis using Suc.prems(1) k len
      by (simp add: Let_def set_msg_def get_put_ctx cx2_def cx1_def reset_msg_def)
  next
    case False
    then have "cm_direction ?m = mosq_md_in" by (cases "cm_direction ?m") auto
    then have "cm_qos ?m = 2" "reset_msg ?m = ?m" using mok False by (auto simp: msg_ok_def reset_msg_def)
    then show ?thesis using Suc.prems(1) k False by (simp add: Let_def cx2_def cx1_def)
  qed
  have cx2: "get_ctx ci (put_ctx ci cx2 db) = Some cx2" "length (cx_msgs cx2) = (k + 1) + n" "list_all msg_ok (cx_msgs cx2)"
    using len Suc.prems reset_msg_keeps mok k
    by (auto simp: get_put_ctx cx2_def list_all_iff dest!: set_update_subset_insert [THEN subsetD])
  have ms: "take (k + 1) (cx_msgs cx2) @ map reset_msg (drop (k + 1) (cx_msgs cx2)) = take k (cx_msgs cx) @ map reset_msg (drop k (cx_msgs cx))"
    using k by (simp add: cx2_def take_Suc_conv_app_nth drop_Suc_nth)
  have f: "filter P (drop k (cx_msgs cx)) = (if P ?m then ?m # filter P (drop (k + 1) (cx_msgs cx)) else filter P (drop (k + 1) (cx_msgs cx)))" for P
    using k by (simp add: drop_Suc_nth)
  show ?case unfolding step Suc.IH [OF cx2] ms using k by (auto simp: cx2_def cx1_def f intro!: arg_cong [where f = "\<lambda>c. put_ctx ci c db"])
qed

lemma same_msgs_map: "\<lbrakk>\<And>m. cm_store (f m) = cm_store m \<and> cm_qos (f m) = cm_qos m \<and> (msg_ok m \<longrightarrow> msg_ok (f m))\<rbrakk> \<Longrightarrow> same_msgs ms (map f ms)"
  by (simp add: same_msgs_def list_all2_map2 list_all2_same)

lemma same_msgs_trans: "\<lbrakk>same_msgs a b; same_msgs b c\<rbrakk> \<Longrightarrow> same_msgs a c"
  unfolding same_msgs_def by (rule list_all2_trans, auto)

lemma same_msgs_start: "same_msgs ms (start_queued inflight n ms)"
proof (induction inflight n ms rule: start_queued.induct)
  case (2 inflight n m r)
  have "msg_ok m \<Longrightarrow> msg_ok (m\<lparr>cm_state := publish_state (cm_qos m) (cm_state m)\<rparr>)" by (auto simp: msg_ok_def publish_state_def)
  then show ?case using 2 by (auto simp: same_msgs_def list_all2_same)
qed (simp add: same_msgs_def)

lemma reconnect_reset_inv:
  assumes inv: "store_inv db M" and cx: "get_ctx ci db = Some cx"
  shows "\<exists>db'. mqtt3_db_message_reconnect_reset db ci = Some (MOSQ_ERR_SUCCESS, db') \<and> store_inv db' M \<and> same_clients db db'"
proof -
  define cx0 where "cx0 = cx\<lparr>cx_msg_count := 0, cx_msg_count12 := 0\<rparr>"
  define cx1 where "cx1 = cx0\<lparr>cx_msgs := map reset_msg (cx_msgs cx),
    cx_last_msg := (if cx_msgs cx = [] then cx_last_msg cx else Last_at (length (cx_msgs cx) - 1)), cx_msg_count := int (length (cx_msgs cx)),
    cx_msg_count12 := int (length (filter (\<lambda>m. cm_qos m > 0) (cx_msgs cx)))\<rparr>"
  have len: "ci < length (db_contexts db)" by (rule get_ctx_length [OF cx])
  have ok: "ctx_ok cx" by (rule store_inv_ctx [OF inv cx])
  have "get_ctx ci (put_ctx ci cx0 db) = Some cx0" using len by (simp add: get_put_ctx)
  then have loop: "db_reset_loop ci (length (cx_msgs cx)) 0 (put_ctx ci cx0 db) = Some (put_ctx ci cx1 db)"
    using db_reset_loop_eq [of ci "put_ctx ci cx0 db" cx0 0 "length (cx_msgs cx)"] ok by (simp add: cx0_def cx1_def ctx_ok_def)
  let ?ms = "start_queued (db_max_inflight db) 0 (cx_msgs cx1)"
  have "same_msgs (cx_msgs cx) (cx_msgs cx1)" using same_msgs_map [of reset_msg] reset_msg_keeps by (simp add: cx1_def)
  then have sm: "same_msgs (cx_msgs cx) ?ms" using same_msgs_trans same_msgs_start by blast
  have "ctx_ok (cx\<lparr>cx_msgs := ?ms\<rparr>)" by (rule ctx_ok_same_msgs [OF ok sm])
  then have "ctx_ok (cx1\<lparr>cx_msgs := ?ms\<rparr>)" using ok same_msgsD [OF sm] by (auto simp: ctx_ok_def last_ok_def cx1_def cx0_def)
  then have "store_inv (put_ctx ci (cx1\<lparr>cx_msgs := ?ms\<rparr>) db) M" "same_clients db (put_ctx ci (cx1\<lparr>cx_msgs := ?ms\<rparr>) db)"
    using put_same_inv [OF inv cx] same_msgsD(2) [OF sm] by (simp_all add: cx1_def cx0_def)
  moreover have "mqtt3_db_message_reconnect_reset db ci = Some (MOSQ_ERR_SUCCESS, put_ctx ci (cx1\<lparr>cx_msgs := ?ms\<rparr>) db)"
    using cx loop len by (simp add: mqtt3_db_message_reconnect_reset_def get_put_ctx cx0_def)
  ultimately show ?thesis by blast
qed

text \<open>The retry changes states, in all queues.\<close>

lemma same_msgs_timeout: "timeout_msgs now threshold ms st = (ms', st') \<Longrightarrow> same_msgs ms ms'"
proof (induction now threshold ms st arbitrary: ms' st' rule: timeout_msgs.induct)
  case (2 now threshold m r st)
  then show ?case by (auto simp: same_msgs_def Let_def msg_ok_def split: prod.splits if_splits)
qed (simp add: same_msgs_def)

definition same_queue :: "ctx option \<Rightarrow> ctx option \<Rightarrow> bool" where
  "same_queue c c' \<longleftrightarrow> (case c of None \<Rightarrow> c' = None | Some cx \<Rightarrow> \<exists>ms. same_msgs (cx_msgs cx) ms \<and> c' = Some (cx\<lparr>cx_msgs := ms\<rparr>))"

lemma timeout_contexts_same: "list_all2 same_queue cs (timeout_contexts now threshold cs st)"
  by (induction now threshold cs st rule: timeout_contexts.induct)
    (auto simp: same_queue_def split: prod.splits dest: same_msgs_timeout)

lemma same_queues_inv:
  assumes inv: "store_inv db M" and s: "list_all2 same_queue (db_contexts db) cs"
  shows "store_inv (db\<lparr>db_contexts := cs\<rparr>) M" "same_clients db (db\<lparr>db_contexts := cs\<rparr>)"
proof -
  have "map ctx_refs cs = map ctx_refs (db_contexts db)"
  proof (induction rule: list_all2_induct [OF s])
    case (2 c cs c' cs')
    then show ?case using same_msgsD(2) by (cases c) (fastforce simp: same_queue_def ctx_refs_def simp del: mset_map)+
  qed simp
  then have "queue_refs (db\<lparr>db_contexts := cs\<rparr>) = queue_refs db" by (simp add: queue_refs_def)
  moreover have "queues_ok (db\<lparr>db_contexts := cs\<rparr>)"
  proof -
    have "list_all (\<lambda>c. case c of None \<Rightarrow> True | Some cx \<Rightarrow> ctx_ok cx) (db_contexts db)" using inv by (simp add: store_inv_def queues_ok_def)
    with s have "list_all (\<lambda>c. case c of None \<Rightarrow> True | Some cx \<Rightarrow> ctx_ok cx) cs"
      by (induction rule: list_all2_induct) (auto simp: same_queue_def intro: ctx_ok_same_msgs split: option.splits)
    then show ?thesis by (simp add: queues_ok_def)
  qed
  ultimately show "store_inv (db\<lparr>db_contexts := cs\<rparr>) M"
    using inv by (auto simp: store_inv_def refs_ok_def ref_count_def store_ok_def)
  have g: "same_queue (get_ctx ci db) (get_ctx ci (db\<lparr>db_contexts := cs\<rparr>))" for ci
  proof (cases "ci < length cs")
    case True
    then show ?thesis using s by (simp add: get_ctx_def list_all2_conv_all_nth)
  next
    case False
    then show ?thesis using s by (simp add: get_ctx_def list_all2_conv_all_nth same_queue_def)
  qed
  have "(get_ctx ci (db\<lparr>db_contexts := cs\<rparr>) = None) = (get_ctx ci db = None)" "ctx_id (db\<lparr>db_contexts := cs\<rparr>) ci = ctx_id db ci" for ci
    using g [of ci] by (auto simp: same_queue_def ctx_id_def split: option.splits)
  then show "same_clients db (db\<lparr>db_contexts := cs\<rparr>)" by (simp add: same_clients_def same_settings_def fun_eq_iff)
qed

lemma timeout_check_inv:
  assumes "store_inv db M"
  shows "store_inv (snd (mqtt3_db_message_timeout_check db timeout)) M" "same_clients db (snd (mqtt3_db_message_timeout_check db timeout))"
  using same_queues_inv [OF assms timeout_contexts_same] by (simp_all add: mqtt3_db_message_timeout_check_def)

section \<open>Cleaning the store\<close>

lemma store_clean_loop_eq:
  assumes "distinct rs" "set rs \<subseteq> dom (db_heap db)"
  shows "store_clean_loop rs db = Some (filter (\<lambda>r. ref_count db r \<noteq> 0) rs,
    db\<lparr>db_heap := (\<lambda>r. if r \<in> set rs \<and> ref_count db r = 0 then None else db_heap db r),
       db_msg_store_count := db_msg_store_count db - int (length (filter (\<lambda>r. ref_count db r = 0) rs))\<rparr>)"
  using assms
proof (induction rs arbitrary: db)
  case (Cons r rs)
  obtain st where st: "db_heap db r = Some st" using Cons.prems by auto
  show ?case
  proof (cases "st_ref_count st = 0")
    case True
    let ?db = "db\<lparr>db_heap := (db_heap db)(r := None), db_msg_store_count := db_msg_store_count db - 1\<rparr>"
    have rc: "ref_count ?db x = (if x = r then 0 else ref_count db x)" for x by (simp add: ref_count_def)
    have f: "filter (\<lambda>x. ref_count ?db x \<noteq> 0) rs = filter (\<lambda>x. ref_count db x \<noteq> 0) rs" "filter (\<lambda>x. ref_count ?db x = 0) rs = filter (\<lambda>x. ref_count db x = 0) rs"
      using Cons.prems(1) by (auto simp: rc intro!: filter_cong)
    have "set rs \<subseteq> dom (db_heap ?db)" using Cons.prems by auto
    note IH = Cons.IH [of ?db, OF _ this, unfolded f]
    have r0: "ref_count db r = 0" using st True by (simp add: ref_count_def)
    have h: "(\<lambda>x. if x \<in> set rs \<and> ref_count ?db x = 0 then None else db_heap ?db x) =
        (\<lambda>x. if x \<in> set (r # rs) \<and> ref_count db x = 0 then None else db_heap db x)"
      using r0 by (auto simp: fun_eq_iff rc)
    show ?thesis using IH [unfolded h] Cons.prems(1) st True r0 by simp
  next
    case False
    then have "ref_count db r \<noteq> 0" using st by (simp add: ref_count_def)
    then show ?thesis using Cons False st by (auto simp: fun_eq_iff)
  qed
qed simp

lemma store_clean_inv:
  assumes inv: "store_inv db M"
  shows "\<exists>db'. mqtt3_db_store_clean db = Some db' \<and> store_inv db' M \<and> same_clients db db'
    \<and> db_heap db' = (\<lambda>r. if r \<in># queue_refs db + M then db_heap db r else None)"
proof -
  let ?rs = "db_msg_store db"
  have ok: "store_ok db" "refs_ok db M" using inv by (simp_all add: store_inv_def)
  have "distinct ?rs" "set ?rs = dom (db_heap db)" using ok by (simp_all add: store_ok_def)
  note loop = store_clean_loop_eq [OF this(1), of db, unfolded this(2), simplified]
  define db' where "db' = db\<lparr>db_heap := (\<lambda>r. if r \<in># queue_refs db + M then db_heap db r else None),
      db_msg_store_count := db_msg_store_count db - int (length (filter (\<lambda>r. ref_count db r = 0) ?rs)), db_msg_store := filter (\<lambda>r. ref_count db r \<noteq> 0) ?rs\<rparr>"
  have z: "ref_count db r = 0 \<longleftrightarrow> r \<notin># queue_refs db + M" for r
  proof -
    have "ref_count db r = int (count (queue_refs db + M) r)" using ok(2) by (simp add: refs_ok_def)
    then show ?thesis by (simp only: of_nat_eq_0_iff count_eq_zero_iff)
  qed
  have hp: "(\<lambda>r. if r \<in> dom (db_heap db) \<and> ref_count db r = 0 then None else db_heap db r) = (\<lambda>r. if r \<in># queue_refs db + M then db_heap db r else None)"
    unfolding z by (auto simp: fun_eq_iff)
  have res: "mqtt3_db_store_clean db = Some db'"
    using loop hp by (simp add: mqtt3_db_store_clean_def db'_def domIff)
  have q: "queue_refs db' = queue_refs db" "queues_ok db'" using inv by (simp_all add: db'_def queue_refs_def store_inv_def queues_ok_def)
  have "ref_count db' r = ref_count db r" for r using z [of r] by (simp add: ref_count_def db'_def split: if_splits)
  moreover have "dom (db_heap db') = set_mset (queue_refs db + M)"
    using ok(2) unfolding refs_ok_def by (auto simp: db'_def split: if_splits)
  ultimately have r: "refs_ok db' M" using ok(2) q unfolding refs_ok_def by simp
  have "length ?rs = length (filter (\<lambda>r. ref_count db r \<noteq> 0) ?rs) + length (filter (\<lambda>r. ref_count db r = 0) ?rs)"
    using sum_length_filter_compl [of "\<lambda>r. ref_count db r \<noteq> 0" ?rs] by simp
  then have "store_ok db'" using ok(1) \<open>dom (db_heap db') = _\<close> z ok(2) unfolding store_ok_def refs_ok_def
    by (auto simp: db'_def list_all_iff)
  then have "store_inv db' M" using q r by (simp add: store_inv_def)
  moreover have "same_clients db db'" by (simp add: db'_def same_clients_def same_settings_def ctx_id_def get_ctx_def fun_eq_iff)
  ultimately show ?thesis using res by (auto simp: db'_def)
qed

section \<open>Routing\<close>

abbreviation oref :: "nat option \<Rightarrow> nat multiset" where
  "oref x \<equiv> (case x of None \<Rightarrow> {#} | Some r \<Rightarrow> {#r#})"

lemma add_ref_inv:
  assumes inv: "store_inv db (M + A)" and a: "add_ref r n db = Some db'" and n: "\<And>x. (if x = r then n else 0) = int (count B x) - int (count A x)"
    and B: "set_mset B \<subseteq> dom (db_heap db)"
  shows "store_inv db' (M + B)" "same_clients db db'"
proof -
  obtain hp where db': "db' = db\<lparr>db_heap := hp\<rparr>" using a by (auto simp: add_ref_def split: option.splits)
  note rc = ref_count_add_ref [OF a]
  have "refs_ok db' (M + B)"
    using inv rc n B by (intro refs_ok_step [of db "M + A" db' "M + B" A B]) (auto simp: store_inv_def db' ac_simps)
  moreover have "queues_ok db'" "store_ok db'" using inv rc by (simp_all add: store_inv_def queues_ok_def store_ok_def db')
  ultimately show "store_inv db' (M + B)" by (simp add: store_inv_def)
  show "same_clients db db'" by (simp add: db' same_clients_def same_settings_def ctx_id_def fun_eq_iff)
qed

lemma add_ref_down: "\<lbrakk>store_inv db (M + {#r#}); add_ref r (-1) db = Some db'\<rbrakk> \<Longrightarrow> store_inv db' M \<and> same_clients db db'"
  using add_ref_inv [of db M "{#r#}" r "-1" db' "{#}"] by simp

lemma add_ref_up: "\<lbrakk>store_inv db M; add_ref r 1 db = Some db'\<rbrakk> \<Longrightarrow> store_inv db' (M + {#r#}) \<and> same_clients db db'"
proof -
  assume inv: "store_inv db M" and a: "add_ref r 1 db = Some db'"
  have "r \<in> dom (db_heap db)" using a by (auto simp: add_ref_def split: option.splits)
  moreover have "(if x = r then 1 else 0) = int (count {#r#} x) - int (count {#} x)" for x by simp
  ultimately show ?thesis using inv a add_ref_inv [of db M "{#}" r 1 db' "{#r#}"] by (simp del: count_add_mset)
qed

lemma set_retained_inv:
  assumes inv: "store_inv db (M + oref old)" and s: "set_retained pb old db = Some (ret, db')"
  shows "store_inv db' (M + oref ret)" "same_clients db db'"
proof -
  define db1 where "db1 = (if take 4 (pb_topic pb) \<noteq> ''$SYS'' then db\<lparr>db_persistence_changes := db_persistence_changes db + 1\<rparr> else db)"
  have i1: "store_inv db1 (M + oref old)" "same_clients db db1" using inv by (simp_all add: db1_def)
  obtain db2 where db2: "(case old of None \<Rightarrow> Some db1
      | Some r \<Rightarrow> do { db \<leftarrow> add_ref r (-1) db1; Some (db\<lparr>db_retained_count := db_retained_count db - 1\<rparr>) }) = Some db2"
    using s by (auto simp: set_retained_def Let_def bind_eq_Some_conv simp flip: db1_def)
  have i2: "store_inv db2 M" "same_clients db db2"
  proof -
    have "store_inv db2 M \<and> same_clients db1 db2"
    proof (cases old)
      case (Some r)
      then obtain db3 where a: "add_ref r (-1) db1 = Some db3" "db2 = db3\<lparr>db_retained_count := db_retained_count db3 - 1\<rparr>"
        using db2 by (auto simp: bind_eq_Some_conv)
      have "store_inv db3 M" "same_clients db1 db3" using add_ref_down [of db1 M r db3] i1(1) a(1) Some by auto
      then show ?thesis using a(2) same_clients_trans [of db1 db3 db2] by simp
    qed (use db2 i1 in auto)
    then show "store_inv db2 M" "same_clients db db2" using i1(2) same_clients_trans by blast+
  qed
  obtain st where st: "db_heap db2 (pb_stored pb) = Some st" and
    r: "ret = None \<and> db' = db2 \<or> (\<exists>db3. add_ref (pb_stored pb) 1 db2 = Some db3 \<and> ret = Some (pb_stored pb) \<and> db' = db3\<lparr>db_retained_count := db_retained_count db3 + 1\<rparr>)"
    using s db2 by (auto simp: set_retained_def Let_def bind_eq_Some_conv split: if_splits simp flip: db1_def)
  have "store_inv db' (M + oref ret) \<and> same_clients db2 db'"
    using r
  proof
    assume "\<exists>db3. add_ref (pb_stored pb) 1 db2 = Some db3 \<and> ret = Some (pb_stored pb) \<and> db' = db3\<lparr>db_retained_count := db_retained_count db3 + 1\<rparr>"
    then obtain db3 where a: "add_ref (pb_stored pb) 1 db2 = Some db3" "ret = Some (pb_stored pb)" "db' = db3\<lparr>db_retained_count := db_retained_count db3 + 1\<rparr>" by blast
    have "store_inv db3 (M + {#pb_stored pb#})" "same_clients db2 db3"
      using add_ref_up [OF i2(1) a(1)] by simp_all
    then show ?thesis using a(2,3) same_clients_trans [of db2 db3 db'] by simp
  qed (use i2 in simp)
  then show "store_inv db' (M + oref ret)" "same_clients db db'" using i2(2) same_clients_trans by blast+
qed

end
