(* ===== verification/Broker_Rel.thy ===== *)
theory Broker_Rel
  imports Broker_Route
begin

text \<open>
  What the operations of the broker do to the database, step by step, as relations between the database before and after. A locale
  is the contract of such a relation for the loops of one kind: what holds of every step holds of the loop. The relations are the invariant
  of the message store (\<open>Broker_Safe\<close>) and the frame that keeps the clients as they are (\<open>Broker_Frame\<close>).
\<close>

section \<open>Routing\<close>

locale routing_rel =
  fixes R :: "db \<Rightarrow> db \<Rightarrow> bool"
  assumes refl [simp, intro]: "R db db"
    and trans: "\<lbrakk>R a b; R b c\<rbrakk> \<Longrightarrow> R a c"
    and acl: "mosquitto_acl_check db ci topic access = Some (rc, db') \<Longrightarrow> R db db'"
    and mid: "ctx_mid ci db = Some (m, db') \<Longrightarrow> R db db'"
    and insert: "mqtt3_db_message_insert db ci m mosq_md_out qos retain stored = Some (rc, db') \<Longrightarrow> R db db'"
begin

lemma process_leaf_rel:
  assumes "process_leaf pb ci q rc db = Some (rc', db')"
  shows "R db db'"
proof -
  obtain cx bk where cx: "get_ctx ci db = Some cx"
    "(if cx_is_bridge cx then do { cid \<leftarrow> c_id (cx_mosq cx); Some (pb_source pb = Some cid) } else Some False) = Some bk"
    using assms by (auto simp: process_leaf_def bind_eq_Some_conv)
  show ?thesis
  proof (cases bk)
    case True
    then show ?thesis using assms cx by (simp add: process_leaf_def)
  next
    case False
    then obtain rc2 db1 where a: "mosquitto_acl_check db ci (pb_topic pb) MOSQ_ACL_READ = Some (rc2, db1)"
      using assms cx by (auto simp: process_leaf_def bind_eq_Some_conv)
    note k1 = acl [OF a]
    show ?thesis
    proof (cases "rc2 = MOSQ_ERR_SUCCESS")
      case True
      define q1 where "q1 = (if cf_upgrade_outgoing_qos (db_config db1) then q else if pb_qos pb > q then q else pb_qos pb)"
      obtain mid db2 rc3 where m: "(if q1 \<noteq> 0 then ctx_mid ci db1 else Some (0, db1)) = Some (mid, db2)"
        "mqtt3_db_message_insert db2 ci mid mosq_md_out q1 (cx_is_bridge cx \<and> pb_retain pb) (pb_stored pb) = Some (rc3, db')"
        using assms cx False a True by (auto simp: process_leaf_def bind_eq_Some_conv Let_def q1_def)
      have "R db1 db2" using m(1) mid by (auto split: if_splits)
      then show ?thesis using k1 insert [OF m(2)] trans by blast
    next
      case no: False
      then have "db' = db1" using assms cx False a by (auto simp: process_leaf_def split: if_splits)
      then show ?thesis using k1 by simp
    qed
  qed
qed

lemma process_leaves_rel: "process_leaves pb ls rc db = Some (rc', db') \<Longrightarrow> R db db'"
proof (induction ls arbitrary: rc db)
  case (Cons l ls)
  obtain ci q where l: "l = (ci, q)" by fastforce
  then obtain rc1 db1 where "process_leaf pb ci q rc db = Some (rc1, db1)" and r: "process_leaves pb ls rc1 db1 = Some (rc', db')"
    using Cons.prems by (auto simp: bind_eq_Some_conv)
  then show ?case using Cons.IH [OF r] process_leaf_rel trans by blast
qed simp

lemma retain_process_rel:
  assumes "retain_process r ci q db = Some (rc, db')"
  shows "R db db'"
proof -
  obtain st topic rc1 db1 where a: "db_heap db r = Some st" "m_topic (st_msg st) = Some topic"
    "mosquitto_acl_check db ci topic MOSQ_ACL_READ = Some (rc1, db1)"
    using assms by (auto simp: retain_process_def bind_eq_Some_conv)
  note k1 = acl [OF a(3)]
  show ?thesis
  proof (cases "rc1 = MOSQ_ERR_SUCCESS")
    case True
    define q1 where "q1 = (if m_qos (st_msg st) > q then q else m_qos (st_msg st))"
    obtain mid db2 where m: "(if q1 > 0 then ctx_mid ci db1 else Some (0, db1)) = Some (mid, db2)"
      "mqtt3_db_message_insert db2 ci mid mosq_md_out q1 True r = Some (rc, db')"
      using assms a True by (auto simp: retain_process_def bind_eq_Some_conv Let_def q1_def)
    have "R db1 db2" using m(1) mid by (auto split: if_splits)
    then show ?thesis using k1 insert [OF m(2)] trans by blast
  next
    case False
    then have "db' = db1" using assms a by (auto simp: retain_process_def split: if_splits)
    then show ?thesis using k1 by simp
  qed
qed

lemma retain_node_rel: "retain_node h ci q db = Some db' \<Longrightarrow> R db db'"
  by (auto simp: retain_node_def bind_eq_Some_conv dest: retain_process_rel split: option.splits)

lemma retain_search_rel: "retain_search ci q bs toks level flag db = Some (rc, db') \<Longrightarrow> R db db'"
proof (induction bs arbitrary: toks level flag db rc db' rule: tree_retained.induct)
  case (2 t subs ret ch bs)
  let ?h = "Subhier t subs ret ch"
  define step where "step =
     (if hd toks = [HASH] \<and> tl toks = [] then
        do {
          db \<leftarrow> retain_node ?h ci q db;
          (f, db) \<leftarrow> (if ch = [] then Some (0, db) else retain_search ci q ch toks (level + 1) 0 db);
          Some (-1, db)
        }
      else if t \<noteq> [PLUS] \<and> (t = hd toks \<or> hd toks = [PLUS]) then
        if tl toks \<noteq> [] then
          do {
            (f, db) \<leftarrow> retain_search ci q ch (tl toks) (level + 1) 0 db;
            db \<leftarrow> (if f = -1 \<or> (bs = [] \<and> hd (tl toks) = [HASH] \<and> level > 0) then retain_node ?h ci q db else Some db);
            Some (flag, db)
          }
        else do { db \<leftarrow> retain_node ?h ci q db; Some (flag, db) }
      else Some (flag, db))"
  have eq: "retain_search ci q (?h # bs) toks level flag db =
      (if toks = [] then None else do { (flag, db) \<leftarrow> step; retain_search ci q bs toks level flag db })"
    unfolding step_def by simp
  obtain f db1 where s: "step = Some (f, db1)" "retain_search ci q bs toks level f db1 = Some (rc, db')"
    using "2.prems" unfolding eq by (auto simp: bind_eq_Some_conv split: if_splits)
  have "R db db1"
  proof -
    consider db2 f1 where "retain_node ?h ci q db = Some db2" "ch = [] \<and> db1 = db2 \<or> retain_search ci q ch toks (level + 1) 0 db2 = Some (f1, db1)"
      | db2 f1 where "retain_search ci q ch (tl toks) (level + 1) 0 db = Some (f1, db2)" "db1 = db2 \<or> retain_node ?h ci q db2 = Some db1"
      | "retain_node ?h ci q db = Some db1" | "db1 = db"
      using s(1) by (auto simp: step_def bind_eq_Some_conv split: if_splits)
    then show ?thesis
    proof cases
      case 1
      then have "R db db2" "R db2 db1" using retain_node_rel "2.IH"(1) by auto
      then show ?thesis by (rule trans)
    next
      case 2
      then have "R db db2" "R db2 db1" using retain_node_rel "2.IH"(1) by auto
      then show ?thesis by (rule trans)
    qed (use retain_node_rel in auto)
  qed
  then show ?case using "2.IH"(2) [OF s(2)] by (rule trans)
qed simp

lemma retain_roots_rel: "retain_roots ci q hs toks db = Some db' \<Longrightarrow> R db db'"
  by (induction hs) (auto simp: bind_eq_Some_conv dest: retain_search_rel split: if_splits)

end

section \<open>Releasing a message of QoS 2\<close>

locale release_rel =
  fixes R :: "db \<Rightarrow> db \<Rightarrow> bool"
  assumes refl [simp, intro]: "R db db"
    and trans: "\<lbrakk>R a b; R b c\<rbrakk> \<Longrightarrow> R a c"
    and start: "release_start ci k msg i db = Some db' \<Longrightarrow> R db db'"
    and route: "release_route msg db = Some (rc, db') \<Longrightarrow> R db db'"
    and remove: "message_remove ci k db = Some db' \<Longrightarrow> R db db'"
begin

lemma release_loop_rel: "release_loop ci mid dir k i deleted db = Some res \<Longrightarrow> R db (snd res)"
proof (induction rule: release_loop.raw_induct [rotated, consumes 1])
  case (1 loop ci mid dir k i deleted db res)
  obtain cx where cx: "get_ctx ci db = Some cx" using 1(2) by (auto simp: bind_eq_Some_conv)
  show ?case
  proof (cases "k \<ge> length (cx_msgs cx)")
    case True
    then show ?thesis using 1(2) cx by auto
  next
    case False
    define msg where "msg = cx_msgs cx ! k"
    obtain db1 where st: "release_start ci k msg (i + 1) db = Some db1" and rest: "(if cm_mid msg = mid \<and> cm_direction msg = dir then
             do {
               (rc, db) \<leftarrow> release_route msg db1;
               if rc \<noteq> 0 then Some (1, db)
               else
                 do {
                   db \<leftarrow> message_remove ci k db;
                   if i + 1 > db_max_inflight db then Some (MOSQ_ERR_SUCCESS, db)
                   else loop ci mid dir k (i + 1) True db
                 }
             }
           else if i + 1 > db_max_inflight db1 \<and> deleted then Some (MOSQ_ERR_SUCCESS, db1)
           else loop ci mid dir (k + 1) (i + 1) deleted db1) = Some res"
      using 1(2) cx False unfolding msg_def by (auto simp: Let_def bind_eq_Some_conv)
    note s1 = start [OF st]
    show ?thesis
    proof (cases "cm_mid msg = mid \<and> cm_direction msg = dir")
      case True
      then obtain rc db2 where q: "release_route msg db1 = Some (rc, db2)" and r: "rc \<noteq> 0 \<Longrightarrow> res = (1, db2)"
        "rc = 0 \<Longrightarrow> do { db \<leftarrow> message_remove ci k db2; if i + 1 > db_max_inflight db then Some (MOSQ_ERR_SUCCESS, db) else loop ci mid dir k (i + 1) True db } = Some res"
        using rest by (auto simp: bind_eq_Some_conv split: if_splits)
      have s2: "R db db2" using s1 route [OF q] by (rule trans)
      show ?thesis
      proof (cases "rc = 0")
        case True
        then obtain db3 where r3: "message_remove ci k db2 = Some db3" "(if i + 1 > db_max_inflight db3 then Some (MOSQ_ERR_SUCCESS, db3) else loop ci mid dir k (i + 1) True db3) = Some res"
          using r(2) by (auto simp: bind_eq_Some_conv)
        have s3: "R db db3" using s2 remove [OF r3(1)] by (rule trans)
        then show ?thesis using r3(2) trans [OF s3 1(1)] by (auto split: if_splits)
      qed (use r(1) s2 in simp)
    next
      case False
      then show ?thesis using rest s1 trans [OF s1 1(1)] by (auto split: if_splits)
    qed
  qed
qed

lemma message_release_rel: "mqtt3_db_message_release db ci mid dir = Some (rc, db') \<Longrightarrow> R db db'"
  by (auto simp: mqtt3_db_message_release_def dest: release_loop_rel split: option.splits)

end

section \<open>Writing the queue of a client\<close>

locale writing_rel =
  fixes R :: "db \<Rightarrow> db \<Rightarrow> bool"
  assumes refl [simp, intro]: "R db db"
    and trans: "\<lbrakk>R a b; R b c\<rbrakk> \<Longrightarrow> R a c"
    and pubrec: "R db (set_msg ci k (\<lambda>m. m\<lparr>cm_state := mosq_ms_send_pubrec\<rparr>) db)"
    and sent: "write_msg ci k msg db = Some (rc, res, db') \<Longrightarrow> R db db'"
    and put_back: "\<lbrakk>get_ctx ci db = Some cx; write_msg ci k (cx_msgs cx ! k) db = Some (rc, Some m, db')\<rbrakk> \<Longrightarrow> R db (set_msg ci k (\<lambda>_. m) db')"
    and remove: "message_remove ci k db = Some db' \<Longrightarrow> R db db'"
begin

lemma write_loop_rel: "write_loop ci k n db = Some res \<Longrightarrow> R db (snd res)"
proof (induction rule: write_loop.raw_induct [rotated, consumes 1])
  case (1 loop ci k n db res)
  obtain cx where cx: "get_ctx ci db = Some cx" using 1(2) by (auto simp: bind_eq_Some_conv)
  define msg where "msg = cx_msgs cx ! k"
  define n1 where "n1 = (if cm_direction msg = mosq_md_in then n + 1 else n)"
  show ?case
  proof (cases "k \<ge> length (cx_msgs cx)")
    case True
    then show ?thesis using 1(2) cx by auto
  next
    case len: False
    show ?thesis
    proof (cases "cm_state msg = mosq_ms_queued")
      case True
      define db1 where "db1 = (if cm_qos msg = 2 then set_msg ci k (\<lambda>m. m\<lparr>cm_state := mosq_ms_send_pubrec\<rparr>) db else db)"
      have "loop ci k n1 db1 = Some res \<or> loop ci (k + 1) n1 db = Some res"
        using 1(2) cx len True unfolding msg_def n1_def db1_def by (auto simp: Let_def split: if_splits)
      moreover have "R db db1" using pubrec by (simp add: db1_def)
      ultimately show ?thesis using 1(1) trans by blast
    next
      case False
      obtain rc r db1 where w: "write_msg ci k msg db = Some (rc, r, db1)"
        and rest: "(if rc \<noteq> 0 then Some (rc, db1) else case r of
             None \<Rightarrow> do { db \<leftarrow> message_remove ci k db1; loop ci k n1 db }
           | Some m \<Rightarrow> loop ci (k + 1) n1 (set_msg ci k (\<lambda>_. m) db1)) = Some res"
        using 1(2) cx len False unfolding msg_def n1_def by (auto simp: Let_def bind_eq_Some_conv)
      have s1: "R db db1" by (rule sent [OF w])
      show ?thesis
      proof (cases "rc = 0")
        case zero: True
        show ?thesis
        proof (cases r)
          case None
          then obtain db2 where r: "message_remove ci k db1 = Some db2" "loop ci k n1 db2 = Some res" using rest zero by (auto simp: bind_eq_Some_conv)
          have "R db db2" using s1 remove [OF r(1)] by (rule trans)
          then show ?thesis using 1(1) [OF r(2)] by (rule trans)
        next
          case (Some m)
          then have "R db (set_msg ci k (\<lambda>_. m) db1)" using put_back [OF cx] w by (simp add: msg_def)
          moreover have "loop ci (k + 1) n1 (set_msg ci k (\<lambda>_. m) db1) = Some res" using rest zero Some by simp
          ultimately show ?thesis using 1(1) trans by blast
        qed
      qed (use rest s1 in auto)
    qed
  qed
qed

lemma message_write_rel: "mqtt3_db_message_write db ci = Some (rc, db') \<Longrightarrow> R db db'"
  by (auto simp: mqtt3_db_message_write_def dest: write_loop_rel split: option.splits if_splits)

end

end
