(* ===== verification/Broker_Safe.thy ===== *)
theory Broker_Safe
  imports Broker_Refs Broker_Rel
begin

text \<open>
  Every operation of the broker's database keeps the invariant of the message store, and of the subscription
  tree. An operation that goes wrong (\<open>None\<close>) leaves no state, so the lemmas speak of the states that
  an operation returns.
\<close>

section \<open>Keeping the invariant\<close>

text \<open>\<open>M\<close> and \<open>M'\<close> are the references from the tree before and after.\<close>

definition keeps :: "db \<Rightarrow> nat multiset \<Rightarrow> db \<Rightarrow> nat multiset \<Rightarrow> bool" where
  "keeps db M db' M' \<longleftrightarrow> (store_inv db M \<longrightarrow> store_inv db' M' \<and> same_clients db db')"

lemma keeps_refl [simp, intro]: "keeps db M db M"
  by (simp add: keeps_def)

lemma keeps_trans [trans]: "\<lbrakk>keeps a L b M; keeps b M c N\<rbrakk> \<Longrightarrow> keeps a L c N"
  unfolding keeps_def using same_clients_trans by blast

text \<open>An operation that leaves the tree alone.\<close>

definition kept :: "db \<Rightarrow> db \<Rightarrow> bool" where
  "kept db db' \<longleftrightarrow> (\<forall>M. keeps db M db' M)"

lemma kept_keeps: "kept db db' \<Longrightarrow> keeps db M db' M"
  by (simp add: kept_def)

lemma keepsD: "\<lbrakk>keeps db M db' M'; store_inv db M\<rbrakk> \<Longrightarrow> store_inv db' M' \<and> same_clients db db'"
  by (simp add: keeps_def)

lemma keeps_sub_only: "sub_only db db' \<Longrightarrow> keeps db M db' M"
proof -
  assume "sub_only db db'"
  then obtain al n where db': "db' = db\<lparr>db_allocs := al, db_subscription_count := n\<rparr>" unfolding sub_only_def by blast
  show ?thesis unfolding keeps_def db'
    by (auto simp: same_clients_def same_settings_def ctx_id_def get_ctx_def fun_eq_iff)
qed

lemma acl_pattern_loop_allocs:
  "acl_pattern_loop m topic access pats result db = Some (rc, db') \<Longrightarrow> \<exists>al. db' = db\<lparr>db_allocs := al\<rparr>"
proof (induction pats arbitrary: result db)
  case Nil
  then show ?case by (auto intro: exI [of _ "db_allocs db"])
next
  case (Cons p pats)
  obtain b db1 where al: "db_alloc db = (b, db1)" by fastforce
  then obtain al1 where db1: "db1 = db\<lparr>db_allocs := al1\<rparr>" by (auto simp: db_alloc_def split: prod.splits)
  have "db' = db1 \<or> (\<exists>res. acl_pattern_loop m topic access pats res db1 = Some (rc, db'))"
    using Cons.prems al by (cases p) (auto simp: bind_eq_Some_conv Let_def split: bool.splits if_splits)
  then show ?case using Cons.IH [of _ db1] db1 by auto
qed

lemma acl_check_keeps:
  assumes "mosquitto_acl_check db ci topic access = Some (rc, db')"
  shows "keeps db M db' M"
proof -
  have "\<exists>al. db' = db\<lparr>db_allocs := al\<rparr>"
    using assms unfolding mosquitto_acl_check_def mosquitto_acl_check_default_def
    by (auto simp: bind_eq_Some_conv split: option.splits if_splits intro: exI [of _ "db_allocs db"] dest!: acl_pattern_loop_allocs)
  then show ?thesis by (auto simp: keeps_def)
qed

text \<open>The client side of a context changes, without its name.\<close>

lemma put_mosq_keeps:
  assumes "get_ctx ci db = Some cx" "c_id m = c_id (cx_mosq cx)"
  shows "keeps db M (put_ctx ci (cx\<lparr>cx_mosq := m\<rparr>) db) M"
proof -
  have "ctx_ok (cx\<lparr>cx_mosq := m\<rparr>)" if "store_inv db M"
    using store_inv_ctx [OF that assms(1)] by (simp add: ctx_ok_def last_ok_def)
  then show ?thesis using put_same_inv [OF _ assms(1), of M "cx\<lparr>cx_mosq := m\<rparr>"] assms(2) by (simp add: keeps_def)
qed

lemma ctx_mid_keeps: "ctx_mid ci db = Some (mid, db') \<Longrightarrow> keeps db M db' M"
proof -
  assume a: "ctx_mid ci db = Some (mid, db')"
  then obtain cx where cx: "get_ctx ci db = Some cx" by (auto simp: ctx_mid_def bind_eq_Some_conv)
  obtain n where "mosquitto_mid_generate (cx_mosq cx) = (n, (cx_mosq cx)\<lparr>c_last_mid := n\<rparr>)" using mid_generate_kept by blast
  then have "db' = put_ctx ci (cx\<lparr>cx_mosq := (cx_mosq cx)\<lparr>c_last_mid := n\<rparr>\<rparr>) db" using a cx by (auto simp: ctx_mid_def)
  then show ?thesis using put_mosq_keeps [OF cx] by simp
qed

lemma insert_out_keeps:
  "mqtt3_db_message_insert db ci mid mosq_md_out qos retain stored = Some (rc, db') \<Longrightarrow> keeps db M db' M"
  using message_insert_inv by (simp add: keeps_def)

section \<open>Routing\<close>

interpretation kr: routing_rel kept
proof unfold_locales
  show "kept a c" if "kept a b" "kept b c" for a b c using that keeps_trans unfolding kept_def by blast
qed (simp_all add: kept_def acl_check_keeps ctx_mid_keeps insert_out_keeps)

lemma subs_process_keeps:
  assumes "subs_process pb (Subhier t subs ret ch) sr db = Some (rc, h', db')"
  shows "\<exists>ret'. h' = Subhier t subs ret' ch \<and> keeps db (M + oref ret) db' (M + oref ret')"
proof -
  obtain ret' db1 where r: "(if pb_retain pb \<and> sr then set_retained pb ret db else Some (ret, db)) = Some (ret', db1)"
    "(if pb_source pb = None then Some (0, db1) else process_leaves pb subs 0 db1) = Some (rc, db')" "h' = Subhier t subs ret' ch"
    using assms by (auto simp: subs_process_def bind_eq_Some_conv)
  have "keeps db (M + oref ret) db1 (M + oref ret')" using r(1) set_retained_inv by (auto simp: keeps_def split: if_splits)
  moreover have "keeps db1 (M + oref ret') db' (M + oref ret')" using r(2) kept_keeps [OF kr.process_leaves_rel] by (auto split: if_splits)
  ultimately show ?thesis using r(3) keeps_trans by blast
qed

text \<open>The references of a list of nodes.\<close>

abbreviation tree_refs :: "subhier list \<Rightarrow> nat multiset" where
  "tree_refs bs \<equiv> mset (tree_retained bs)"

lemma tree_refs_node: "tree_refs (Subhier t subs ret ch # bs) = oref ret + tree_refs ch + tree_refs bs"
  by (cases ret) simp_all

lemma sub_search_keeps:
  "sub_search pb bs toks sr db = Some (bs', db') \<Longrightarrow> keeps db (M + tree_refs bs) db' (M + tree_refs bs') \<and> strip bs' = strip bs"
proof (induction bs arbitrary: toks sr db bs' db' M rule: tree_retained.induct)
  case (2 t subs ret ch bs)
  let ?h = "Subhier t subs ret ch"
  define step where "step =
     (if toks \<noteq> [] \<and> (t = hd toks \<or> t = [PLUS]) then
        do {
          (ch, db) \<leftarrow> sub_search pb ch (tl toks) (t \<noteq> [PLUS] \<and> sr) db;
          if tl toks = []
          then do { (rc, b, db) \<leftarrow> subs_process pb (Subhier t subs ret ch) (t \<noteq> [PLUS] \<and> sr) db; Some (b, db) }
          else Some (Subhier t subs ret ch, db)
        }
      else if t = [HASH] \<and> ch = [] then do { (rc, b, db) \<leftarrow> subs_process pb ?h False db; Some (b, db) }
      else Some (?h, db))"
  have eq: "sub_search pb (?h # bs) toks sr db = do { (b, db) \<leftarrow> step; (bs, db) \<leftarrow> sub_search pb bs toks sr db; Some (b # bs, db) }"
    by (simp add: step_def Let_def)
  obtain h' db1 bs1 where s: "step = Some (h', db1)" "sub_search pb bs toks sr db1 = Some (bs1, db')" "bs' = h' # bs1"
    using "2.prems" unfolding eq by (auto simp: bind_eq_Some_conv)
  have h': "\<exists>ret' ch'. h' = Subhier t subs ret' ch' \<and> strip ch' = strip ch \<and> keeps db (N + oref ret + tree_refs ch) db1 (N + oref ret' + tree_refs ch')" for N
  proof (cases "toks \<noteq> [] \<and> (t = hd toks \<or> t = [PLUS])")
    case True
    then obtain ch1 db2 where c: "sub_search pb ch (tl toks) (t \<noteq> [PLUS] \<and> sr) db = Some (ch1, db2)"
      and p: "(if tl toks = [] then \<exists>rc. subs_process pb (Subhier t subs ret ch1) (t \<noteq> [PLUS] \<and> sr) db2 = Some (rc, h', db1)
         else h' = Subhier t subs ret ch1 \<and> db1 = db2)"
      using s(1) by (auto simp: step_def bind_eq_Some_conv split: if_splits)
    have k: "keeps db (N + oref ret + tree_refs ch) db2 (N + oref ret + tree_refs ch1)" "strip ch1 = strip ch" using "2.IH"(1) [OF c] by simp_all
    show ?thesis
    proof (cases "tl toks = []")
      case True
      then obtain rc where "subs_process pb (Subhier t subs ret ch1) (t \<noteq> [PLUS] \<and> sr) db2 = Some (rc, h', db1)" using p by auto
      from subs_process_keeps [OF this, of "N + tree_refs ch1"]
      obtain ret' where r: "h' = Subhier t subs ret' ch1" "keeps db2 (N + oref ret + tree_refs ch1) db1 (N + oref ret' + tree_refs ch1)"
        by (auto simp: ac_simps)
      then show ?thesis using k keeps_trans by blast
    qed (use p k in auto)
  next
    case False
    then have "h' = ?h \<and> db1 = db \<or> (\<exists>rc. subs_process pb ?h False db = Some (rc, h', db1))"
      using s(1) by (auto simp: step_def bind_eq_Some_conv split: if_splits)
    then show ?thesis using subs_process_keeps [of pb t subs ret ch False db _ h' db1 "N + tree_refs ch"] by (auto simp: ac_simps)
  qed
  obtain ret' ch' where e: "h' = Subhier t subs ret' ch'" "strip ch' = strip ch"
    "keeps db (M + tree_refs bs + oref ret + tree_refs ch) db1 (M + tree_refs bs + oref ret' + tree_refs ch')"
    using h' by blast
  have comm: "M + tree_refs bs + x + y = M + x + y + tree_refs bs" for x y by (simp add: ac_simps)
  have "keeps db1 (M + oref ret' + tree_refs ch' + tree_refs bs) db' (M + oref ret' + tree_refs ch' + tree_refs bs1)" "strip bs1 = strip bs"
    using "2.IH"(2) [OF s(2)] by simp_all
  then have "keeps db (M + oref ret + tree_refs ch + tree_refs bs) db' (M + oref ret' + tree_refs ch' + tree_refs bs1)"
    using e(3) keeps_trans unfolding comm by blast
  then show ?case using e(1,2) \<open>strip bs1 = strip bs\<close> s(3) by (simp only: tree_refs_node strip.simps add.assoc)
qed simp

text \<open>Adding a path, whatever the names of the clients and the allocator do.\<close>

lemma leaf_add_frame:
  "\<lbrakk>leaf_add db cid ci qos subs = Some (rc, subs', db'); subs \<noteq> [] \<longrightarrow> ctx_id db ci = Some cid\<rbrakk> \<Longrightarrow>
     sub_only db db' \<and> fst ` set subs' \<subseteq> insert ci (fst ` set subs) \<and> (distinct (map fst subs) \<longrightarrow> distinct (map fst subs'))
     \<and> (fst ` set subs' = fst ` set subs \<or> ci \<notin> fst ` set subs \<and> ctx_id db ci \<noteq> None \<or> subs = [])"
proof (induction subs arbitrary: subs')
  case Nil
  then show ?case by (auto split: prod.splits bool.splits dest!: sub_only_alloc intro: sub_only_trans)
next
  case (Cons l subs)
  obtain cj q where l: "l = (cj, q)" by fastforce
  obtain cx cid' where c: "get_ctx cj db = Some cx" "c_id (cx_mosq cx) = Some cid'" using Cons.prems(1) by (auto simp: l bind_eq_Some_conv)
  show ?case
  proof (cases "cid' = cid")
    case True
    then show ?thesis using Cons.prems(1) c by (auto simp: l)
  next
    case False
    then obtain r where r: "leaf_add db cid ci qos subs = Some (rc, r, db')" "subs' = (cj, q) # r"
      using Cons.prems(1) c by (auto simp: l bind_eq_Some_conv)
    have "ctx_id db cj = Some cid'" using c by (simp add: ctx_id_def)
    then have "cj \<noteq> ci" using False Cons.prems(2) by auto
    then show ?thesis using Cons.IH [OF r(1)] Cons.prems(2) r(2) by (auto simp: l)
  qed
qed

lemma sub_add_frame:
  "sub_add db co qos h toks = Some (rc, h', db') \<Longrightarrow> sub_only db db' \<and> sh_topic h' = sh_topic h
     \<and> tree_clients [h'] \<subseteq> set_option co \<union> tree_clients [h] \<and> (tree_ok [h] \<longrightarrow> tree_ok [h'])"
  "sub_add_children db co qos bs tok toks = Some (rc, bs', db') \<Longrightarrow> sub_only db db' \<and> sh_topic ` set bs' \<subseteq> insert tok (sh_topic ` set bs)
     \<and> tree_clients bs' \<subseteq> set_option co \<union> tree_clients bs \<and> (tree_ok bs \<longrightarrow> tree_ok bs')"
proof (induction db co qos h toks and db co qos bs tok toks arbitrary: rc h' db' and rc bs' db' rule: sub_add_sub_add_children.induct)
  case (1 db co qos t subs ret ch)
  show ?case
  proof (cases co)
    case (Some ci)
    then obtain cx cid subs' where l: "get_ctx ci db = Some cx" "leaf_add db cid ci qos subs = Some (rc, subs', db')" "h' = Subhier t subs' ret ch"
      "subs \<noteq> [] \<longrightarrow> c_id (cx_mosq cx) = Some cid"
      using 1 by (auto simp: bind_eq_Some_conv simp del: leaf_add.simps split: if_splits)
    then show ?thesis using leaf_add_frame [OF l(2)] Some by (auto simp: ctx_id_def)
  qed (use 1 in auto)
next
  case (2 db co qos t subs ret ch tok toks)
  then show ?case by (auto simp: bind_eq_Some_conv)
next
  case (3 db co qos tok toks)
  obtain b1 db1 where a1: "db_alloc db = (b1, db1)" by fastforce
  obtain b2 db2 where a2: "db_alloc db1 = (b2, db2)" by fastforce
  have so: "sub_only db db1" "sub_only db db2" using sub_only_alloc [OF a1] sub_only_alloc [OF a2] sub_only_trans by blast+
  show ?case
  proof (cases "b1 \<and> b2")
    case True
    then obtain b where b: "sub_add db2 co qos (Subhier tok [] None []) toks = Some (rc, b, db')" "bs' = [b]"
      using "3.prems" a1 a2 by (auto simp: bind_eq_Some_conv)
    have "sub_only db2 db' \<and> sh_topic b = sh_topic (Subhier tok [] None []) \<and> tree_clients [b] \<subseteq> set_option co \<union> tree_clients [Subhier tok [] None []]
        \<and> (tree_ok [Subhier tok [] None []] \<longrightarrow> tree_ok [b])"
      using "3.IH" [OF a1 [symmetric] _ a2 [symmetric] _ b(1)] True by simp
    then show ?thesis using b(2) so(2) sub_only_trans by auto
  next
    case False
    then show ?thesis using "3.prems" a1 a2 so by (auto split: bool.splits)
  qed
next
  case (4 db co qos b bs tok toks)
  show ?case
  proof (cases "sh_topic b = tok")
    case True
    then obtain b' where b': "sub_add db co qos b toks = Some (rc, b', db')" "bs' = b' # bs" using "4.prems" by (auto simp: bind_eq_Some_conv)
    then show ?thesis using "4.IH"(1) [OF True b'(1)] True by (auto simp: node_clients_simps node_ok_simps)
  next
    case False
    then obtain bs1 where b': "sub_add_children db co qos bs tok toks = Some (rc, bs1, db')" "bs' = b # bs1" using "4.prems" by (auto simp: bind_eq_Some_conv)
    then show ?thesis using "4.IH"(2) [OF False b'(1)] False by (auto simp: node_clients_simps node_ok_simps)
  qed
qed

text \<open>The new tree of a root has the same clients.\<close>

definition same_shape :: "subhier list \<Rightarrow> subhier list \<Rightarrow> bool" where
  "same_shape hs hs' \<longleftrightarrow> map sh_topic hs' = map sh_topic hs \<and> tree_clients hs' \<subseteq> tree_clients hs \<and> (tree_ok hs \<longrightarrow> tree_ok hs')"

lemma same_shape_Cons:
  assumes "same_shape [h] [h']" "same_shape hs hs'"
  shows "same_shape (h # hs) (h' # hs')"
proof -
  have "sh_topic ` set hs' = sh_topic ` set hs" using assms(2) unfolding same_shape_def by (metis list.set_map)
  then show ?thesis using assms by (auto simp: same_shape_def node_clients_simps node_ok_simps)
qed

lemma queue_roots_keeps:
  "\<lbrakk>queue_roots pb hs toks db = Some (hs', db'); store_inv db (M + tree_refs hs)\<rbrakk> \<Longrightarrow>
     store_inv db' (M + tree_refs hs') \<and> same_clients db db' \<and> same_shape hs hs'"
proof (induction hs arbitrary: db hs' db' M)
  case (Cons h hs)
  obtain t subs ret ch where h: "h = Subhier t subs ret ch" by (cases h)
  obtain h1 db1 hs1 where s: "(if sh_topic h = hd toks then
            do {
              (rc, h, db) \<leftarrow> (if pb_retain pb then sub_add db None 0 h toks else Some (0, h, db));
              (ch, db) \<leftarrow> sub_search pb (sh_children h) toks True db;
              Some (Subhier (sh_topic h) (sh_subs h) (sh_retained h) ch, db)
            }
          else Some (h, db)) = Some (h1, db1)" "queue_roots pb hs toks db1 = Some (hs1, db')" "hs' = h1 # hs1"
    using Cons.prems(1) by (auto simp: bind_eq_Some_conv)
  have c: "tree_refs (x # xs) = tree_refs [x] + tree_refs xs" for x xs by (cases x) simp
  have 1: "store_inv db1 (M + tree_refs hs + tree_refs [h1]) \<and> same_clients db db1 \<and> same_shape [h] [h1]"
  proof (cases "sh_topic h = hd toks")
    case True
    then obtain rc h2 db2 ch1 where a: "(if pb_retain pb then sub_add db None 0 h toks else Some (0, h, db)) = Some (rc, h2, db2)"
      and c1: "sub_search pb (sh_children h2) toks True db2 = Some (ch1, db1)" "h1 = Subhier (sh_topic h2) (sh_subs h2) (sh_retained h2) ch1"
      using s(1) by (auto simp: bind_eq_Some_conv)
    have a': "sub_only db db2" "tree_refs [h2] = tree_refs [h]" "same_shape [h] [h2]"
    proof -
      have "sub_only db db2 \<and> tree_refs [h2] = tree_refs [h] \<and> same_shape [h] [h2]"
      proof (cases "pb_retain pb")
        case True
        then show ?thesis using a sub_add_frame(1) [of db None 0 h toks rc h2 db2] sub_add_shape(1) [of db None 0 h toks rc h2 db2]
          by (auto simp: same_shape_def)
      qed (use a in \<open>auto simp: same_shape_def\<close>)
      then show "sub_only db db2" "tree_refs [h2] = tree_refs [h]" "same_shape [h] [h2]" by simp_all
    qed
    have k: "store_inv db2 (M + tree_refs hs + tree_refs [h])" "same_clients db db2"
      using keepsD [OF keeps_sub_only [OF a'(1)] Cons.prems(2)] c [of h hs] by (simp_all add: ac_simps)
    have split: "tree_refs [x] = oref (sh_retained x) + tree_refs (sh_children x)" for x by (cases x) (simp add: tree_refs_node del: tree_retained.simps(2))
    have k2: "store_inv db2 (M + tree_refs hs + oref (sh_retained h2) + tree_refs (sh_children h2))"
      using k(1) a'(2) split [of h2] by (simp add: ac_simps)
    have "store_inv db1 (M + tree_refs hs + oref (sh_retained h2) + tree_refs ch1)" "same_clients db2 db1" "strip ch1 = strip (sh_children h2)"
      using sub_search_keeps [OF c1(1), of "M + tree_refs hs + oref (sh_retained h2)"] keepsD k2 by blast+
    moreover have "same_shape [h2] [h1]" using strip_eqD [OF \<open>strip ch1 = _\<close>] c1(2) by (cases h2) (auto simp: same_shape_def)
    ultimately show ?thesis using split [of h1] c1(2) same_clients_trans [OF k(2)] a'(3) by (auto simp: ac_simps same_shape_def)
  qed (use s(1) Cons.prems(2) c [of h hs] in \<open>auto simp: ac_simps same_shape_def\<close>)
  have 2: "store_inv db' (M + tree_refs [h1] + tree_refs hs1) \<and> same_clients db1 db' \<and> same_shape hs hs1"
    using 1 by (intro Cons.IH [OF s(2)]) (simp add: ac_simps)
  have "store_inv db' (M + tree_refs hs')" using 2 by (simp only: s(3) c [of h1 hs1] add.assoc)
  moreover have "same_clients db db'" using 1 2 same_clients_trans by blast
  moreover have "same_shape (h # hs) hs'" using same_shape_Cons 1 2 s(3) by simp
  ultimately show ?case by simp
qed (simp add: same_shape_def)

section \<open>The whole database\<close>

text \<open>
  The invariant of the broker: the clients of the tree have names, and the counts are those of the references from the queues, from the
  tree, and from a tree that was lost (\<open>L\<close>). The operations keep the contexts, their names and the settings (\<open>same_names\<close>).
\<close>

definition tree_safe :: "db \<Rightarrow> bool" where
  "tree_safe db \<longleftrightarrow> tree_ok (db_subs db) \<and> (\<forall>ci \<in> tree_clients (db_subs db). ctx_id db ci \<noteq> None)"

definition broker_inv :: "db \<Rightarrow> bool" where
  "broker_inv db \<longleftrightarrow> tree_safe db \<and> (\<exists>L. store_inv db (tree_refs (db_subs db) + L))"

definition same_names :: "db \<Rightarrow> db \<Rightarrow> bool" where
  "same_names db db' \<longleftrightarrow> (\<forall>ci. (get_ctx ci db' = None) = (get_ctx ci db = None)) \<and> ctx_id db' = ctx_id db \<and> same_settings db db'"

definition safe_step :: "db \<Rightarrow> db \<Rightarrow> bool" where
  "safe_step db db' \<longleftrightarrow> (broker_inv db \<longrightarrow> broker_inv db' \<and> same_names db db')"

lemma same_names_refl [simp]: "same_names db db"
  by (simp add: same_names_def same_settings_def)

lemma same_names_trans: "\<lbrakk>same_names a b; same_names b c\<rbrakk> \<Longrightarrow> same_names a c"
  by (auto simp: same_names_def intro: same_settings_trans)

lemma safe_step_refl [simp, intro]: "safe_step db db"
  by (simp add: safe_step_def)

lemma safe_step_trans [trans]: "\<lbrakk>safe_step a b; safe_step b c\<rbrakk> \<Longrightarrow> safe_step a c"
  unfolding safe_step_def using same_names_trans by blast

lemma safe_step_keeps: "(\<And>M. keeps db M db' M) \<Longrightarrow> safe_step db db'"
proof -
  assume k: "\<And>M. keeps db M db' M"
  have "broker_inv db' \<and> same_names db db'" if inv: "broker_inv db"
  proof -
    obtain L where "store_inv db (tree_refs (db_subs db) + L)" using inv by (auto simp: broker_inv_def)
    then have "store_inv db' (tree_refs (db_subs db) + L)" "same_clients db db'" using keepsD [OF k] by blast+
    then show ?thesis using inv by (auto simp: broker_inv_def tree_safe_def same_names_def same_clients_def)
  qed
  then show ?thesis by (simp add: safe_step_def)
qed

lemma keeps_settings [simp]: "keeps db M (db\<lparr>db_allocs := al\<rparr>) M"
  by (simp add: keeps_def)

lemma messages_queue_safe:
  assumes "mqtt3_db_messages_queue db source topic qos retain stored = Some (rc, db')"
  shows "safe_step db db'"
proof -
  obtain toks db1 where t: "sub_topic_tokenise topic db = (toks, db1)" by fastforce
  have so: "sub_only db db1" by (rule sub_topic_tokenise_any(1) [OF t])
  have s1: "safe_step db db1" by (intro safe_step_keeps keeps_sub_only so)
  show ?thesis
  proof (cases toks)
    case None
    then show ?thesis using assms t s1 by (simp add: mqtt3_db_messages_queue_def)
  next
    case (Some toks')
    then obtain hs db2 where q: "queue_roots \<lparr>pb_source = source, pb_topic = topic, pb_qos = qos, pb_retain = retain, pb_stored = stored\<rparr>
        (db_subs db1) toks' db1 = Some (hs, db2)" "db' = db2\<lparr>db_subs := hs\<rparr>"
      using assms t by (auto simp: mqtt3_db_messages_queue_def bind_eq_Some_conv)
    have "broker_inv db' \<and> same_names db1 db'" if inv: "broker_inv db1"
    proof -
      obtain L where "store_inv db1 (L + tree_refs (db_subs db1))" using inv by (auto simp: broker_inv_def ac_simps)
      then have k: "store_inv db2 (L + tree_refs hs)" "same_clients db1 db2" "same_shape (db_subs db1) hs"
        using queue_roots_keeps [OF q(1)] by blast+
      have n: "same_names db1 db'" using k(2) by (simp add: q(2) same_names_def same_clients_def same_settings_def)
      have "tree_safe db'" using inv k(2,3) by (auto simp: q(2) broker_inv_def tree_safe_def same_shape_def same_clients_def)
      then show ?thesis using k(1) n by (auto simp: q(2) broker_inv_def ac_simps)
    qed
    then show ?thesis using s1 safe_step_trans unfolding safe_step_def by blast
  qed
qed

section \<open>Retained messages for a new subscription\<close>

lemma retain_queue_safe:
  assumes "mqtt3_retain_queue db ci sub q = Some (rc, db')"
  shows "safe_step db db'"
proof -
  obtain toks db1 where t: "sub_topic_tokenise sub db = (toks, db1)" by fastforce
  have "keeps db M db1 M" for M using keeps_sub_only [OF sub_topic_tokenise_any(1) [OF t]] .
  moreover have "keeps db1 M db' M" for M
    using assms t kept_keeps [OF kr.retain_roots_rel] by (auto simp: mqtt3_retain_queue_def bind_eq_Some_conv split: option.splits)
  ultimately show ?thesis using keeps_trans by (intro safe_step_keeps) blast
qed

section \<open>Publishing\<close>

lemma message_store_safe:
  "mqtt3_db_message_store db source mid topic qos payloadlen payload retain store_id = Some (rc, stored, db') \<Longrightarrow> safe_step db db'"
  by (intro safe_step_keeps) (simp add: keeps_def message_store_inv)

lemma easy_queue_safe:
  assumes "mqtt3_db_messages_easy_queue db co topic qos payloadlen payload retain = Some (rc, db')"
  shows "safe_step db db'"
proof (cases topic)
  case (Some t)
  then obtain src rc1 stored db1 where s: "mqtt3_db_message_store db src 0 (Some t) qos payloadlen payload retain 0 = Some (rc1, stored, db1)"
    and r: "db' = db1 \<or> (\<exists>r. mqtt3_db_messages_queue db1 src t qos retain r = Some (rc, db'))"
    using assms by (auto simp: mqtt3_db_messages_easy_queue_def bind_eq_Some_conv split: if_splits) blast
  then show ?thesis using message_store_safe [OF s] messages_queue_safe safe_step_trans by blast
qed (use assms in \<open>simp add: mqtt3_db_messages_easy_queue_def\<close>)

text \<open>Sending does not change the name of a client.\<close>

interpretation idv: io_core c_id
  by unfold_locales simp_all

lemma broker_app_keeps: "keeps_app view broker_app"
  by (simp add: keeps_app_def broker_app_def)

lemma ctx_send_keeps:
  assumes "ctx_send ci f db = Some (rc, db')" "\<And>m rc m'. f m = Some (rc, m') \<Longrightarrow> c_id m' = c_id m"
  shows "keeps db M db' M"
  using assms by (auto simp: ctx_send_def bind_eq_Some_conv intro: put_mosq_keeps)

lemma broker_publish_keeps:
  assumes "broker_send_publish cx mount m mid topic pl p qos retain dup = Some (rc, m')"
  shows "c_id m' = c_id m"
proof -
  have r: "remap_out cx t m = (x, m1) \<Longrightarrow> c_id m1 = c_id m" for t x m1
    by (auto simp: remap_out_def split: option.splits if_splits prod.splits)
  show ?thesis using assms idv.keep_send_real_publish [OF broker_app_keeps] r
    by (fastforce simp: broker_send_publish_def split: option.splits if_splits prod.splits sum.splits)
qed

lemmas broker_sends = broker_publish_keeps idv.keep_send_command_with_mid [OF broker_app_keeps]

lemma ctx_acks_keep:
  "ctx_send ci (\<lambda>m. mosquitto_send_pubrec broker_app m mid) db = Some (rc, db') \<Longrightarrow> keeps db M db' M"
  "ctx_send ci (\<lambda>m. mosquitto_send_pubrel broker_app m mid dup) db = Some (rc, db') \<Longrightarrow> keeps db M db' M"
  "ctx_send ci (\<lambda>m. mosquitto_send_pubcomp broker_app m mid) db = Some (rc, db') \<Longrightarrow> keeps db M db' M"
  "ctx_send ci (\<lambda>m. broker_send_publish cx mount m mid topic pl p qos retain dup) db = Some (rc, db') \<Longrightarrow> keeps db M db' M"
  by (auto elim!: ctx_send_keeps dest: broker_sends simp: mosquitto_send_pubrec_def mosquitto_send_pubrel_def mosquitto_send_pubcomp_def)

lemma message_remove_keeps: "message_remove ci k db = Some db' \<Longrightarrow> keeps db M db' M"
proof -
  assume r: "message_remove ci k db = Some db'"
  then obtain cx where "get_ctx ci db = Some cx" by (auto simp: message_remove_def bind_eq_Some_conv)
  then show ?thesis using message_remove_inv [of db M ci cx k] r by (auto simp: keeps_def)
qed

lemma set_msg_keeps: "(\<And>m. cm_store (f m) = cm_store m \<and> cm_qos (f m) = cm_qos m \<and> (msg_ok m \<longrightarrow> msg_ok (f m))) \<Longrightarrow> keeps db M (set_msg ci k f db) M"
  by (simp add: keeps_def set_msg_inv)

lemma unqueue_msg_keeps: "keeps db M (set_msg ci k (unqueue now) db) M"
  by (rule set_msg_keeps) (rule unqueue_keeps)

lemma release_start_safe: "release_start ci k msg i db = Some db' \<Longrightarrow> safe_step db db'"
  by (intro safe_step_keeps)
    (auto simp: release_start_def bind_eq_Some_conv intro: unqueue_msg_keeps keeps_trans [OF ctx_acks_keep(1) unqueue_msg_keeps] split: if_splits)

lemma release_route_safe: "release_route msg db = Some (rc, db') \<Longrightarrow> safe_step db db'"
  by (auto simp: release_route_def bind_eq_Some_conv dest: messages_queue_safe split: option.splits)

interpretation sr: release_rel safe_step
  by unfold_locales (simp, rule safe_step_trans, assumption+, auto intro: release_start_safe release_route_safe safe_step_keeps message_remove_keeps)

lemma message_release_safe: "mqtt3_db_message_release db ci mid dir = Some (rc, db') \<Longrightarrow> safe_step db db'"
  by (rule sr.message_release_rel)

section \<open>Writing\<close>

lemma write_msg_keeps:
  assumes "write_msg ci k msg db = Some (rc, res, db')"
  shows "keeps db M db' M" "res = Some m \<Longrightarrow> cm_store m = cm_store msg \<and> cm_qos m = cm_qos msg \<and> (msg_ok msg \<longrightarrow> msg_ok m)"
  using assms by (auto simp: write_msg_def Let_def bind_eq_Some_conv msg_ok_def dest!: ctx_acks_keep [where M = M] split: if_splits)

text \<open>The message that is put back is the one that was sent.\<close>

lemma put_msg_keeps:
  assumes cx: "get_ctx ci db = Some cx" and m: "cm_store m = cm_store (cx_msgs cx ! k) \<and> cm_qos m = cm_qos (cx_msgs cx ! k) \<and> (msg_ok (cx_msgs cx ! k) \<longrightarrow> msg_ok m)"
  shows "keeps db M (set_msg ci k (\<lambda>_. m) db) M"
proof -
  have "same_msgs (cx_msgs cx) ((cx_msgs cx)[k := m])" if "k < length (cx_msgs cx)"
    using m that by (auto simp: same_msgs_def list_all2_conv_all_nth nth_list_update)
  then have "same_msgs (cx_msgs cx) ((cx_msgs cx)[k := m])" by (cases "k < length (cx_msgs cx)") (simp_all add: list_update_beyond)
  then show ?thesis using requeue_inv [OF _ cx, of M] cx by (simp add: keeps_def set_msg_def)
qed

text \<open>Sending changes neither the queue of the client nor the others.\<close>

lemma ctx_send_msgs: "ctx_send ci f db = Some (rc, db') \<Longrightarrow> map_option cx_msgs (get_ctx cj db') = map_option cx_msgs (get_ctx cj db)"
  by (auto simp: ctx_send_def bind_eq_Some_conv get_put_ctx)

lemma write_msg_msgs: "write_msg ci k msg db = Some (rc, res, db') \<Longrightarrow> map_option cx_msgs (get_ctx cj db') = map_option cx_msgs (get_ctx cj db)"
  by (auto simp: write_msg_def Let_def bind_eq_Some_conv dest: ctx_send_msgs split: if_splits)

lemma put_back_safe:
  assumes cx: "get_ctx ci db = Some cx" and w: "write_msg ci k (cx_msgs cx ! k) db = Some (rc, Some m, db1)"
  shows "safe_step db (set_msg ci k (\<lambda>_. m) db1)"
proof -
  obtain cx1 where "get_ctx ci db1 = Some cx1" "cx_msgs cx1 = cx_msgs cx" using write_msg_msgs [OF w, of ci] cx by auto
  then have "keeps db1 M (set_msg ci k (\<lambda>_. m) db1) M" for M using put_msg_keeps [of ci db1 cx1 m k M] write_msg_keeps(2) [OF w refl] by simp
  then show ?thesis using write_msg_keeps(1) [OF w] keeps_trans by (intro safe_step_keeps) blast
qed

interpretation sw: writing_rel safe_step
proof unfold_locales
  show "safe_step db (set_msg ci k (\<lambda>m. m\<lparr>cm_state := mosq_ms_send_pubrec\<rparr>) db)" for ci k db
    by (intro safe_step_keeps set_msg_keeps) (simp add: msg_ok_def)
qed (auto intro: safe_step_trans safe_step_keeps write_msg_keeps(1) put_back_safe message_remove_keeps)

lemma message_write_safe: "mqtt3_db_message_write db ci = Some (rc, db') \<Longrightarrow> safe_step db db'"
  by (rule sw.message_write_rel)

section \<open>Subscriptions\<close>

text \<open>The tree keeps its retained messages when subscriptions come and go.\<close>

lemma tree_refs_Cons: "tree_refs (h # hs) = tree_refs [h] + tree_refs hs"
  by (cases h) simp

lemma tree_refs_empty: "node_empty h \<Longrightarrow> tree_refs [h] = {#}"
  by (cases h) (simp add: node_empty_def)

lemma sub_remove_refs:
  "sub_remove ci h toks db = (h', db') \<Longrightarrow> tree_refs [h'] = tree_refs [h]"
  "sub_remove_children ci bs tok toks db = (bs', db') \<Longrightarrow> tree_refs bs' = tree_refs bs"
proof (induction ci h toks db and ci bs tok toks db arbitrary: h' db' and bs' db' rule: sub_remove_sub_remove_children.induct)
  case (4 ci b bs tok toks db)
  show ?case
  proof (cases "sh_topic b = tok")
    case True
    obtain b' db1 where b': "sub_remove ci b toks db = (b', db1)" by fastforce
    have "tree_refs [b'] = tree_refs [b]" by (rule "4.IH"(1) [OF True b'])
    then show ?thesis using "4.prems" True b' tree_refs_empty [of b'] tree_refs_Cons [of b bs] tree_refs_Cons [of b' bs] by (auto split: if_splits)
  next
    case False
    obtain bs1 db1 where b': "sub_remove_children ci bs tok toks db = (bs1, db1)" by fastforce
    then show ?thesis using "4.IH"(2) [OF False b'] "4.prems" False tree_refs_Cons [of b bs] tree_refs_Cons [of b bs1] by simp
  qed
qed (auto split: prod.splits)

lemma root_remove_refs: "root_remove ci hs toks db = (hs', db') \<Longrightarrow> tree_refs hs' = tree_refs hs"
proof (induction hs arbitrary: hs' db')
  case (Cons h hs)
  show ?case
  proof (cases "sh_topic h = hd toks")
    case True
    obtain h' db1 where "sub_remove ci h toks db = (h', db1)" by fastforce
    then show ?thesis using Cons.prems True sub_remove_refs(1) tree_refs_Cons [of h hs] tree_refs_Cons [of h' hs] by fastforce
  next
    case False
    obtain hs1 db1 where h1: "root_remove ci hs toks db = (hs1, db1)" by fastforce
    show ?thesis using Cons.prems False h1 Cons.IH [OF h1] tree_refs_Cons [of h hs] tree_refs_Cons [of h hs1] by simp
  qed
qed simp

lemma clean_session_refs:
  "clean_session ci h db = (h', db') \<Longrightarrow> tree_refs [h'] = tree_refs [h]"
  "clean_children ci bs db = (bs', db') \<Longrightarrow> tree_refs bs' = tree_refs bs"
proof (induction ci h db and ci bs db arbitrary: h' db' and bs' db' rule: clean_session_clean_children.induct)
  case (3 ci b bs db)
  obtain b' db1 where b': "clean_session ci b db = (b', db1)" by fastforce
  obtain bs1 db2 where bs1: "clean_children ci bs db1 = (bs1, db2)" by fastforce
  have "tree_refs [b'] = tree_refs [b]" "tree_refs bs1 = tree_refs bs" using "3.IH" b' bs1 by auto
  then show ?case using "3.prems" b' bs1 tree_refs_empty [of b'] tree_refs_Cons [of b bs] tree_refs_Cons [of b' bs1] by (auto split: if_splits)
qed (auto split: prod.splits)

lemma clean_roots_refs: "clean_roots ci hs db = (hs', db') \<Longrightarrow> tree_refs hs' = tree_refs hs"
proof (induction hs arbitrary: db hs' db')
  case (Cons h hs)
  obtain h' db1 where h': "clean_session ci h db = (h', db1)" by fastforce
  obtain hs1 db2 where hs1: "clean_roots ci hs db1 = (hs1, db2)" by fastforce
  then show ?case using Cons.prems Cons.IH [OF hs1] h' clean_session_refs(1) [OF h'] tree_refs_Cons [of h hs] tree_refs_Cons [of h' hs1] by simp
qed simp

lemma root_add_refs: "root_add db ci qos hs tok toks = Some (Some (rc, hs', db')) \<Longrightarrow> tree_refs hs' = tree_refs hs"
proof (induction hs arbitrary: hs')
  case (Cons h hs)
  show ?case
  proof (cases "sh_topic h = tok")
    case True
    then obtain h' where "sub_add db (Some ci) qos h (tok # toks) = Some (rc, h', db')" "hs' = h' # hs" using Cons.prems by (auto simp: bind_eq_Some_conv)
    then show ?thesis using sub_add_shape(1) tree_refs_Cons [of h hs] tree_refs_Cons [of h' hs] by metis
  next
    case False
    then obtain hs1 where "root_add db ci qos hs tok toks = Some (Some (rc, hs1, db'))" "hs' = h # hs1"
      using Cons.prems by (auto simp: bind_eq_Some_conv)
    then show ?thesis using Cons.IH tree_refs_Cons [of h hs] tree_refs_Cons [of h hs1] by auto
  qed
qed simp

text \<open>The tree changes, and the references from it are the same or lost.\<close>

lemma safe_step_tree:
  assumes "sub_only db db1" "tree_refs (db_subs db) = tree_refs hs + A" "tree_safe db \<Longrightarrow> tree_safe (db1\<lparr>db_subs := hs\<rparr>)"
  shows "safe_step db (db1\<lparr>db_subs := hs\<rparr>)"
proof -
  have "store_inv db1 M" "same_clients db db1" if "store_inv db M" for M using keepsD [OF keeps_sub_only [OF assms(1)] that] by simp_all
  note k = this
  have "broker_inv (db1\<lparr>db_subs := hs\<rparr>) \<and> same_names db (db1\<lparr>db_subs := hs\<rparr>)" if inv: "broker_inv db"
  proof -
    obtain L where L: "store_inv db (tree_refs hs + (A + L))" using inv assms(2) by (auto simp: broker_inv_def ac_simps)
    have "store_inv (db1\<lparr>db_subs := hs\<rparr>) (tree_refs hs + (A + L))" using k(1) [OF L] by simp
    moreover have "same_names db (db1\<lparr>db_subs := hs\<rparr>)" using k(2) [OF L] by (simp add: same_names_def same_clients_def same_settings_def)
    moreover have "tree_safe (db1\<lparr>db_subs := hs\<rparr>)" using inv assms(3) by (simp add: broker_inv_def)
    ultimately show ?thesis unfolding broker_inv_def by auto
  qed
  then show ?thesis by (simp add: safe_step_def)
qed

lemma sub_only_tree_safe:
  "\<lbrakk>tree_safe db; sub_only db db'; tree_ok hs; tree_clients hs \<subseteq> tree_clients (db_subs db) \<union> {ci. ctx_id db ci \<noteq> None}\<rbrakk> \<Longrightarrow> tree_safe (db'\<lparr>db_subs := hs\<rparr>)"
  by (auto simp: tree_safe_def sub_only_ids)

lemma sub_remove_safe: "safe_step db (snd (mqtt3_sub_remove db ci sub))"
proof (cases "broker_inv db")
  case True
  obtain toks db1 where t: "sub_topic_tokenise sub db = (toks, db1)" by fastforce
  have so: "sub_only db db1" by (rule sub_topic_tokenise_any(1) [OF t])
  show ?thesis
  proof (cases toks)
    case None
    then show ?thesis using t keeps_sub_only [OF so] by (simp add: mqtt3_sub_remove_def safe_step_keeps)
  next
    case (Some toks')
    have "tree_ok (db_subs db1)" "toks' \<noteq> []"
      using True sub_only_ids(4) [OF so] sub_topic_tokenise_any(2) [OF t] Some by (auto simp: broker_inv_def tree_safe_def)
    then obtain hs db2 where r: "root_remove ci (db_subs db1) toks' db1 = (hs, db2)" "del_frame db1 (db_subs db1) hs db2"
      using root_remove_spec by blast
    have so2: "sub_only db db2" using so r(2) sub_only_trans by (auto simp: del_frame_def)
    have "tree_safe db \<Longrightarrow> tree_safe (db2\<lparr>db_subs := hs\<rparr>)"
      using r(2) sub_only_ids(4) [OF so] by (intro sub_only_tree_safe [OF _ so2]) (auto simp: del_frame_def)
    then show ?thesis using safe_step_tree [OF so2, of hs "{#}"] root_remove_refs [OF r(1)] sub_only_ids(4) [OF so] t Some r(1)
      by (simp add: mqtt3_sub_remove_def)
  qed
qed (simp add: safe_step_def)

lemma clean_session_safe: "safe_step db (snd (mqtt3_subs_clean_session db ci))"
proof (cases "broker_inv db")
  case True
  then obtain hs db1 where r: "clean_roots ci (db_subs db) db = (hs, db1)" "del_frame db (db_subs db) hs db1"
    using clean_roots_spec [of "db_subs db" ci db] by (auto simp: broker_inv_def tree_safe_def)
  have so: "sub_only db db1" using r(2) by (simp add: del_frame_def)
  have "tree_safe db \<Longrightarrow> tree_safe (db1\<lparr>db_subs := hs\<rparr>)" using r(2) by (intro sub_only_tree_safe [OF _ so]) (auto simp: del_frame_def)
  then show ?thesis using safe_step_tree [OF so, of hs "{#}"] clean_roots_refs [OF r(1)] r(1) by (simp add: mqtt3_subs_clean_session_def)
qed (simp add: safe_step_def)

text \<open>A subscription to an unknown hierarchy replaces the tree, and the references from the old one stay in the counts.\<close>

lemma root_add_frame:
  "root_add db ci qos hs tok toks = Some (Some (rc, hs', db')) \<Longrightarrow> sub_only db db' \<and> sh_topic ` set hs' = sh_topic ` set hs
     \<and> tree_clients hs' \<subseteq> insert ci (tree_clients hs) \<and> (tree_ok hs \<longrightarrow> tree_ok hs')"
proof (induction hs arbitrary: hs')
  case (Cons h hs)
  show ?case
  proof (cases "sh_topic h = tok")
    case True
    then obtain h' where h': "sub_add db (Some ci) qos h (tok # toks) = Some (rc, h', db')" "hs' = h' # hs" using Cons.prems by (auto simp: bind_eq_Some_conv)
    then show ?thesis using sub_add_frame(1) [OF h'(1)] by (auto simp: node_clients_simps node_ok_simps)
  next
    case False
    then obtain hs1 where "root_add db ci qos hs tok toks = Some (Some (rc, hs1, db'))" "hs' = h # hs1"
      using Cons.prems by (auto simp: bind_eq_Some_conv)
    then show ?thesis using Cons.IH by (auto simp: node_clients_simps node_ok_simps)
  qed
qed simp

lemma sub_add_safe:
  assumes a: "mqtt3_sub_add db ci sub qos = Some (rc, db')" and ci: "ctx_id db ci \<noteq> None"
  shows "safe_step db db'"
proof -
  obtain toks db1 where t: "sub_topic_tokenise sub db = (toks, db1)" by fastforce
  have so: "sub_only db db1" by (rule sub_topic_tokenise_any(1) [OF t])
  show ?thesis
  proof (cases toks)
    case None
    then show ?thesis using a t keeps_sub_only [OF so] by (simp add: mqtt3_sub_add_def safe_step_keeps)
  next
    case (Some toks')
    show ?thesis
    proof (cases "root_add db1 ci qos (db_subs db1) (hd toks') (tl toks')")
      case None
      obtain b db2 where n: "new_token db1 = (b, db2)" by fastforce
      have so2: "sub_only db db2" using so new_token_sub_only [OF n] by (rule sub_only_trans)
      show ?thesis
      proof (cases b)
        case True
        then obtain rc1 h db3 where h: "sub_add db2 (Some ci) qos (Subhier (hd toks') [] None []) toks' = Some (rc1, h, db3)" "db' = db3\<lparr>db_subs := [h]\<rparr>"
          using a t Some None n by (auto simp: mqtt3_sub_add_def bind_eq_Some_conv)
        have so3: "sub_only db db3" and f: "tree_clients [h] \<subseteq> {ci}" "tree_ok [h]" using sub_add_frame(1) [OF h(1)] so2 sub_only_trans by auto
        have "tree_refs [h] = {#}" using sub_add_shape(1) [OF h(1)] by simp
        moreover have "tree_safe db \<Longrightarrow> tree_safe (db3\<lparr>db_subs := [h]\<rparr>)" using f ci by (intro sub_only_tree_safe [OF _ so3]) auto
        ultimately show ?thesis using safe_step_tree [OF so3, of "[h]" "tree_refs (db_subs db)"] h(2) by simp
      next
        case False
        then show ?thesis using a t Some None n keeps_sub_only [OF so2] by (simp add: mqtt3_sub_add_def safe_step_keeps)
      qed
    next
      case r: (Some res)
      then obtain rc1 hs db2 where h: "root_add db1 ci qos (db_subs db1) (hd toks') (tl toks') = Some (Some (rc1, hs, db2))" "db' = db2\<lparr>db_subs := hs\<rparr>"
        using a t Some by (auto simp: mqtt3_sub_add_def bind_eq_Some_conv)
      have so2: "sub_only db db2" and f: "tree_clients hs \<subseteq> insert ci (tree_clients (db_subs db))" "tree_ok (db_subs db) \<longrightarrow> tree_ok hs"
        using root_add_frame [OF h(1)] so sub_only_trans sub_only_ids(4) [OF so] by auto
      have "tree_safe db \<Longrightarrow> tree_safe (db2\<lparr>db_subs := hs\<rparr>)" using f ci by (intro sub_only_tree_safe [OF _ so2]) (auto simp: tree_safe_def)
      then show ?thesis using safe_step_tree [OF so2, of hs "{#}"] root_add_refs [OF h(1)] sub_only_ids(4) [OF so] h(2) by simp
    qed
  qed
qed

section \<open>The other operations\<close>

text \<open>The queue of a client, the retries and the cleaning of the store.\<close>

lemma message_delete_safe: "mqtt3_db_message_delete db ci mid dir = Some (rc, db') \<Longrightarrow> safe_step db db'"
proof -
  assume a: "mqtt3_db_message_delete db ci mid dir = Some (rc, db')"
  then have "get_ctx ci db \<noteq> None" by (auto simp: mqtt3_db_message_delete_def bind_eq_Some_conv)
  then show ?thesis using a message_delete_inv [of db _ ci mid dir] by (intro safe_step_keeps) (auto simp: keeps_def)
qed

lemma message_update_safe: "\<lbrakk>mqtt3_db_message_update db ci mid dir state = Some (rc, db'); state \<noteq> mosq_ms_invalid\<rbrakk> \<Longrightarrow> safe_step db db'"
proof -
  assume a: "mqtt3_db_message_update db ci mid dir state = Some (rc, db')" and st: "state \<noteq> mosq_ms_invalid"
  then have "get_ctx ci db \<noteq> None" by (auto simp: mqtt3_db_message_update_def bind_eq_Some_conv)
  then show ?thesis using a st message_update_inv [of db _ ci state mid dir] by (intro safe_step_keeps) (auto simp: keeps_def)
qed

lemma message_insert_safe: "\<lbrakk>mqtt3_db_message_insert db ci mid dir qos retain stored = Some (rc, db'); dir = mosq_md_in \<longrightarrow> qos = 2\<rbrakk> \<Longrightarrow> safe_step db db'"
  by (intro safe_step_keeps) (simp add: keeps_def message_insert_inv)

lemma reconnect_reset_safe: "mqtt3_db_message_reconnect_reset db ci = Some (rc, db') \<Longrightarrow> safe_step db db'"
proof -
  assume a: "mqtt3_db_message_reconnect_reset db ci = Some (rc, db')"
  then obtain cx where cx: "get_ctx ci db = Some cx" by (auto simp: mqtt3_db_message_reconnect_reset_def bind_eq_Some_conv)
  then show ?thesis using a reconnect_reset_inv [OF _ cx] by (intro safe_step_keeps) (fastforce simp: keeps_def)
qed

lemma messages_delete_safe: "mqtt3_db_messages_delete db ci = Some (rc, db') \<Longrightarrow> safe_step db db'"
proof -
  assume a: "mqtt3_db_messages_delete db ci = Some (rc, db')"
  then obtain cx where cx: "get_ctx ci db = Some cx" by (auto simp: mqtt3_db_messages_delete_def bind_eq_Some_conv)
  then show ?thesis using a messages_delete_inv [OF _ cx] by (intro safe_step_keeps) (fastforce simp: keeps_def)
qed

lemma timeout_check_safe: "safe_step db (snd (mqtt3_db_message_timeout_check db timeout))"
  by (intro safe_step_keeps) (simp add: keeps_def timeout_check_inv)

lemma store_clean_safe: "mqtt3_db_store_clean db = Some db' \<Longrightarrow> safe_step db db'"
  using store_clean_inv by (intro safe_step_keeps) (fastforce simp: keeps_def)

end
