(* ===== verification/Broker_Ctx.thy ===== *)
theory Broker_Ctx
  imports Broker_Subs
begin

text \<open>
  The clients of the broker: \<open>context.c\<close>, the accepting of connections in \<open>net.c\<close>, \<open>send_server.c\<close>, and the check of
  passwords of \<open>security.c\<close> and \<open>security_default.c\<close>.

  \<^item> The table of client ids is a \<open>uthash\<close> table: a list of ids with positions, the newest first, which is the one that
    a search finds.
  \<^item> A listener counts its clients. That the count is not negative is an assertion of the code.
  \<^item> A freed context is \<open>None\<close> in the array, which is what every caller stores there after the call.
  \<^item> A build without TLS, \<open>libwrap\<close> and \<open>WITH_STRICT_PROTOCOL\<close>.
\<close>

abbreviation MOSQ_ERR_AUTH :: int where "MOSQ_ERR_AUTH \<equiv> 11"

abbreviation CONNACK_ACCEPTED :: u8 where "CONNACK_ACCEPTED \<equiv> 0"
abbreviation CONNACK_REFUSED_PROTOCOL_VERSION :: u8 where "CONNACK_REFUSED_PROTOCOL_VERSION \<equiv> 1"
abbreviation CONNACK_REFUSED_IDENTIFIER_REJECTED :: u8 where "CONNACK_REFUSED_IDENTIFIER_REJECTED \<equiv> 2"
abbreviation CONNACK_REFUSED_BAD_USERNAME_PASSWORD :: u8 where "CONNACK_REFUSED_BAD_USERNAME_PASSWORD \<equiv> 4"
abbreviation CONNACK_REFUSED_NOT_AUTHORIZED :: u8 where "CONNACK_REFUSED_NOT_AUTHORIZED \<equiv> 5"

section \<open>The table of client ids\<close>

definition cih_find :: "string \<Rightarrow> (string \<times> nat) list \<Rightarrow> nat option" where
  "cih_find cid h = map_of h cid"

definition cih_add :: "string \<Rightarrow> nat \<Rightarrow> (string \<times> nat) list \<Rightarrow> (string \<times> nat) list" where
  "cih_add cid i h = (cid, i) # h"

fun cih_del :: "string \<Rightarrow> (string \<times> nat) list \<Rightarrow> (string \<times> nat) list" where
  "cih_del cid [] = []"
| "cih_del cid ((k, i) # h) = (if k = cid then h else (k, i) # cih_del cid h)"

section \<open>Passwords\<close>

fun unpwd_loop :: "string \<Rightarrow> string option \<Rightarrow> (string \<times> string option) list \<Rightarrow> int" where
  "unpwd_loop username password [] = MOSQ_ERR_AUTH"
| "unpwd_loop username password ((u, p) # r) =
     (if u = username then
        (case p of
           None \<Rightarrow> MOSQ_ERR_SUCCESS
         | Some pw \<Rightarrow>
             (case password of
                None \<Rightarrow> MOSQ_ERR_AUTH
              | Some x \<Rightarrow> if pw = x then MOSQ_ERR_SUCCESS else unpwd_loop username password r))
      else unpwd_loop username password r)"

definition mosquitto_unpwd_check_default :: "db \<Rightarrow> string option \<Rightarrow> string option \<Rightarrow> int" where
  "mosquitto_unpwd_check_default db username password =
     (case username of
        None \<Rightarrow> MOSQ_ERR_INVAL
      | Some u \<Rightarrow> if db_unpwd db = [] then MOSQ_ERR_SUCCESS else unpwd_loop u password (db_unpwd db))"

definition mosquitto_unpwd_check :: "db \<Rightarrow> string option \<Rightarrow> string option \<Rightarrow> int" where
  "mosquitto_unpwd_check db username password =
     (case db_plugin db of
        None \<Rightarrow> mosquitto_unpwd_check_default db username password
      | Some _ \<Rightarrow> db_plugin_unpwd db username password)"

section \<open>Answers\<close>

definition mosquitto_send_connack :: "unit mosq \<Rightarrow> u8 \<Rightarrow> unit res" where
  "mosquitto_send_connack m result =
     (case mosq_alloc m of
        (False, m) \<Rightarrow> Some (MOSQ_ERR_NOMEM, m)
      | (True, m) \<Rightarrow>
          (case packet_alloc_in m (packet_calloc\<lparr>pk_command := CONNACK, pk_remaining_length := 2\<rparr>) of (rc, packet, m) \<Rightarrow>
             if rc \<noteq> 0 then Some (rc, m)
             else
               do {
                 packet \<leftarrow> write_at packet 0 0;
                 packet \<leftarrow> write_at packet 1 result;
                 mosquitto_packet_queue broker_app m packet
               }))"

definition mosquitto_send_suback :: "unit mosq \<Rightarrow> u16 \<Rightarrow> u8 list \<Rightarrow> unit res" where
  "mosquitto_send_suback m mid payload =
     (case mosq_alloc m of
        (False, m) \<Rightarrow> Some (MOSQ_ERR_NOMEM, m)
      | (True, m) \<Rightarrow>
          (case packet_alloc_in m (packet_calloc\<lparr>pk_command := SUBACK, pk_remaining_length := 2 + of_nat (length payload)\<rparr>) of (rc, packet, m) \<Rightarrow>
             if rc \<noteq> 0 then Some (rc, m)
             else
               do {
                 packet \<leftarrow> mosquitto_write_uint16 packet mid;
                 packet \<leftarrow> (if payload \<noteq> [] then mosquitto_write_bytes packet payload (of_nat (length payload)) else Some packet);
                 mosquitto_packet_queue broker_app m packet
               }))"

section \<open>Contexts\<close>

text \<open>A connection that waits: its socket, what the system calls on it give, and what will arrive.\<close>

record conn =
  cn_sock :: int
  cn_nonblock :: bool
  cn_address :: "string option"
  cn_rx :: "rx_event list"
  cn_wr :: "wr_event list"

definition mqtt3_context_init :: "conn \<Rightarrow> db \<Rightarrow> ctx option \<times> db" where
  "mqtt3_context_init cn db =
     (case db_alloc db of
        (False, db) \<Rightarrow> (None, db)
      | (True, db) \<Rightarrow>
          (let (address, db) =
             (if cn_sock cn \<noteq> -1 then
                (case cn_address cn of
                   None \<Rightarrow> (None, db)
                 | Some a \<Rightarrow> (case db_alloc db of (b, db) \<Rightarrow> (if b then Some a else None, db)))
              else (None, db))
           in if cn_sock cn \<noteq> -1 \<and> address = None then (None, db)
              else
                (Some \<lparr>cx_mosq = (mosq_calloc ())\<lparr>e_now := db_now db, e_rx := cn_rx cn, e_wr := cn_wr cn, c_state := mosq_cs_new, c_sock := cn_sock cn,
                         c_last_msg_in := db_now db, c_last_msg_out := db_now db, c_keepalive := 60, c_clean_session := True,
                         c_in_packet := mosquitto_packet_cleanup packet_calloc\<rparr>,
                       cx_msgs = [], cx_last_msg = Last_null, cx_msg_count = 0, cx_msg_count12 = 0, cx_is_dropping = False,
                       cx_is_bridge = False, cx_bridge = None, cx_acl_list = None, cx_address = address, cx_listener = None,
                       cx_disconnect_t = 0\<rparr>, db)))"

text \<open>A client leaves its listener.\<close>

definition listener_leave :: "nat option \<Rightarrow> db \<Rightarrow> db option" where
  "listener_leave l db =
     (case l of
        None \<Rightarrow> Some db
      | Some i \<Rightarrow>
          if i < length (db_listeners db) \<and> ls_client_count (db_listeners db ! i) - 1 \<ge> 0
          then Some (db\<lparr>db_listeners := (db_listeners db)[i := (db_listeners db ! i)\<lparr>ls_client_count := ls_client_count (db_listeners db ! i) - 1\<rparr>]\<rparr>)
          else None)"

text \<open>The socket is closed, and the subscriptions and messages of a clean session are removed.\<close>

definition cleanup_session :: "db \<Rightarrow> nat \<Rightarrow> db option" where
  "cleanup_session db ci =
     do {
       cx \<leftarrow> get_ctx ci db;
       let m = (cx_mosq cx)\<lparr>c_username := None, c_password := None\<rparr>;
       (cx, db) \<leftarrow>
         (if c_sock m \<noteq> -1 then
            do { db \<leftarrow> listener_leave (cx_listener cx) db; Some (cx\<lparr>cx_mosq := mosquitto_socket_close m, cx_listener := None\<rparr>, db) }
          else Some (cx\<lparr>cx_mosq := m\<rparr>, db));
       let db = put_ctx ci cx db;
       if c_clean_session m
       then do { (rc, db) \<leftarrow> mqtt3_db_messages_delete (snd (mqtt3_subs_clean_session db ci)) ci; Some db }
       else Some db
     }"

definition mqtt3_context_cleanup :: "db \<Rightarrow> nat \<Rightarrow> bool \<Rightarrow> db option" where
  "mqtt3_context_cleanup db ci do_free =
     do {
       db \<leftarrow> cleanup_session db ci;
       cx \<leftarrow> get_ctx ci db;
       let db = (case c_id (cx_mosq cx) of None \<Rightarrow> db | Some cid \<Rightarrow> db\<lparr>db_clientid_index_hash := cih_del cid (db_clientid_index_hash db)\<rparr>);
       let m = (cx_mosq cx)\<lparr>c_id := None, c_in_packet := mosquitto_packet_cleanup (c_in_packet (cx_mosq cx)), c_current_out_packet := None,
         c_out_packet := [], c_will := None\<rparr>;
       let cx = cx\<lparr>cx_mosq := m, cx_address := None\<rparr>;
       (cx, db) \<leftarrow> (if do_free \<or> c_clean_session m
         then do { db \<leftarrow> release_refs (cx_msgs cx) db; Some (cx\<lparr>cx_msgs := [], cx_last_msg := Last_null\<rparr>, db) }
         else Some (cx, db));
       Some (if do_free then db\<lparr>db_contexts := (db_contexts db)[ci := None]\<rparr> else put_ctx ci cx db)
     }"

text \<open>The will is published unless the client said goodbye.\<close>

definition mqtt3_context_disconnect :: "db \<Rightarrow> nat \<Rightarrow> db option" where
  "mqtt3_context_disconnect db ci =
     do {
       cx \<leftarrow> get_ctx ci db;
       db \<leftarrow> (case c_will (cx_mosq cx) of
           Some w \<Rightarrow>
             if c_state (cx_mosq cx) \<noteq> mosq_cs_disconnecting
             then do { (rc, db) \<leftarrow> mqtt3_db_messages_easy_queue db (Some ci) (m_topic w) (m_qos w) (of_int (m_payloadlen w)) (m_payload w) (m_retain w);
                       Some db }
             else Some db
         | None \<Rightarrow> Some db);
       cx \<leftarrow> get_ctx ci db;
       db \<leftarrow> listener_leave (cx_listener cx) db;
       Some (put_ctx ci (cx\<lparr>cx_mosq := mosquitto_socket_close ((cx_mosq cx)\<lparr>c_will := None\<rparr>), cx_listener := None,
         cx_disconnect_t := db_now db\<rparr>) db)
     }"

section \<open>Accepting\<close>

text \<open>
  The listener of a socket, with its count. The loop goes on after a hit. A context that is given up before it has a
  place in the array leaves its listener again.
\<close>

fun listener_enter :: "int \<Rightarrow> nat \<Rightarrow> listener list \<Rightarrow> nat option \<Rightarrow> nat option \<times> listener list" where
  "listener_enter sock i [] l = (l, [])"
| "listener_enter sock i (x # xs) l =
     (let hit = sock \<in> set (ls_socks x);
          (l, xs) = listener_enter sock (i + 1) xs (if hit then Some i else l)
      in (l, (if hit then x\<lparr>ls_client_count := ls_client_count x + 1\<rparr> else x) # xs))"

fun free_slot :: "nat \<Rightarrow> 'a option list \<Rightarrow> nat" where
  "free_slot i [] = i"
| "free_slot i (None # r) = i"
| "free_slot i (Some _ # r) = free_slot (i + 1) r"

definition mqtt3_socket_accept :: "db \<Rightarrow> int \<Rightarrow> conn \<Rightarrow> (int \<times> db) option" where
  "mqtt3_socket_accept db listensock cn =
     (if cn_sock cn = INVALID_SOCKET then Some (-1, db)
      else if \<not> cn_nonblock cn then Some (INVALID_SOCKET, db)
      else
        (case mqtt3_context_init cn db of
           (None, db) \<Rightarrow> Some (-1, db)
         | (Some cx, db) \<Rightarrow>
             (let (l, ls) = listener_enter listensock 0 (db_listeners db) None;
                  db = db\<lparr>db_listeners := ls\<rparr>
              in case l of
                   None \<Rightarrow> Some (-1, db)
                 | Some i \<Rightarrow>
                     if ls_max_connections (ls ! i) > 0 \<and> ls_client_count (ls ! i) > ls_max_connections (ls ! i)
                     then do { db \<leftarrow> listener_leave l db; Some (-1, db) }
                     else
                       (let k = free_slot 0 (db_contexts db); cx = cx\<lparr>cx_listener := l\<rparr> in
                        if k < length (db_contexts db) then Some (cn_sock cn, put_ctx k cx db)
                        else
                          (case db_alloc db of
                             (False, db) \<Rightarrow> do { db \<leftarrow> listener_leave l db; Some (-1, db) }
                           | (True, db) \<Rightarrow> Some (cn_sock cn, db\<lparr>db_contexts := db_contexts db @ [Some cx]\<rparr>))))))"

end
