(* ===== verification/Broker_Handle.thy ===== *)
theory Broker_Handle
  imports Broker_Ctx
begin

text \<open>
  What the broker does with an incoming packet: \<open>read_handle.c\<close>, \<open>read_handle_server.c\<close> and \<open>read_handle_client.c\<close> of the broker,
  the broker's part of \<open>lib/read_handle_shared.c\<close> and of \<open>_mosquitto_packet_read\<close>, and the main loop (\<open>loop.c\<close>).

  A handler works on the database and the position of the client. Several functions below are stages of one
  function of the code: \<open>Inl rc\<close> returns \<open>rc\<close> from it, \<open>Inr x\<close> goes on.
\<close>

abbreviation MOSQ_ACL_WRITE :: int where "MOSQ_ACL_WRITE \<equiv> 2"

section \<open>Reading from the packet of a client\<close>

definition ctx_read :: "nat \<Rightarrow> (unit mosq \<Rightarrow> (int \<times> 'a \<times> unit mosq) option) \<Rightarrow> db \<Rightarrow> (int \<times> 'a \<times> db) option" where
  "ctx_read ci f db =
     do {
       cx \<leftarrow> get_ctx ci db;
       (rc, v, m) \<leftarrow> f (cx_mosq cx);
       Some (rc, v, put_ctx ci (cx\<lparr>cx_mosq := m\<rparr>) db)
     }"

definition in_read_string :: "unit mosq \<Rightarrow> (int \<times> string \<times> unit mosq) option" where
  "in_read_string m =
     do {
       (rc, bs, p, al) \<leftarrow> mosquitto_read_string (c_in_packet m) (e_allocs m);
       Some (rc, cstr bs, m\<lparr>c_in_packet := p, e_allocs := al\<rparr>)
     }"

text \<open>A buffer of \<open>n\<close> bytes, with \<open>extra\<close> zeros behind it, filled from the packet; a failed allocation gives 1.\<close>

definition in_read_buffer :: "u32 \<Rightarrow> nat \<Rightarrow> unit mosq \<Rightarrow> (int \<times> u8 list \<times> unit mosq) option" where
  "in_read_buffer n extra m =
     (case mosq_alloc m of
        (False, m) \<Rightarrow> Some (1, [], m)
      | (True, m) \<Rightarrow>
          do {
            (rc, bs, p) \<leftarrow> mosquitto_read_bytes (c_in_packet m) n;
            Some (if rc = 0 then 0 else 1, bs @ replicate extra 0, m\<lparr>c_in_packet := p\<rparr>)
          })"

definition ctx_upd_mosq :: "nat \<Rightarrow> (unit mosq \<Rightarrow> unit mosq) \<Rightarrow> db \<Rightarrow> db option" where
  "ctx_upd_mosq ci f db = do { cx \<leftarrow> get_ctx ci db; Some (put_ctx ci (cx\<lparr>cx_mosq := f (cx_mosq cx)\<rparr>) db) }"

definition ctx_mosq :: "nat \<Rightarrow> db \<Rightarrow> unit mosq option" where
  "ctx_mosq ci db = do { cx \<leftarrow> get_ctx ci db; Some (cx_mosq cx) }"

section \<open>CONNECT\<close>

definition give_up :: "nat \<Rightarrow> int \<Rightarrow> db \<Rightarrow> ((int + 'a) \<times> db) option" where
  "give_up ci rc db = do { db \<leftarrow> mqtt3_context_disconnect db ci; Some (Inl rc, db) }"

definition refuse :: "nat \<Rightarrow> u8 \<Rightarrow> int \<Rightarrow> db \<Rightarrow> ((int + 'a) \<times> db) option" where
  "refuse ci code rc db = do { (_, db) \<leftarrow> ctx_send ci (\<lambda>m. mosquitto_send_connack m code) db; give_up ci rc db }"

text \<open>The name and the version of the protocol.\<close>

definition connect_protocol :: "nat \<Rightarrow> db \<Rightarrow> ((int + u8) \<times> db) option" where
  "connect_protocol ci db =
     do {
       (rc, name, db) \<leftarrow> ctx_read ci in_read_string db;
       if rc \<noteq> 0 then give_up ci 1 db
       else
         do {
           (rc, version, db) \<leftarrow> ctx_read ci in_read_byte db;
           if rc \<noteq> 0 then give_up ci 1 db
           else if name = ''MQIsdp'' then
             if version AND 0x7F \<noteq> 3 then refuse ci CONNACK_REFUSED_PROTOCOL_VERSION MOSQ_ERR_PROTOCOL db
             else do { db \<leftarrow> ctx_upd_mosq ci (\<lambda>m. m\<lparr>c_protocol := mosq_p_mqtt31\<rparr>) db; Some (Inr version, db) }
           else if name = ''MQTT'' then
             if version AND 0x7F \<noteq> 4 then refuse ci CONNACK_REFUSED_PROTOCOL_VERSION MOSQ_ERR_PROTOCOL db
             else
               do {
                 m \<leftarrow> ctx_mosq ci db;
                 if pk_command (c_in_packet m) AND 0x0F \<noteq> 0 then give_up ci MOSQ_ERR_PROTOCOL db
                 else do { db \<leftarrow> ctx_upd_mosq ci (\<lambda>m. m\<lparr>c_protocol := mosq_p_mqtt311\<rparr>) db; Some (Inr version, db) }
               }
           else give_up ci MOSQ_ERR_PROTOCOL db
         }
     }"

definition flag_will_qos :: "u8 \<Rightarrow> int" where
  "flag_will_qos flags = uint (drop_bit 3 (flags AND 0x18))"

definition connect_flags :: "nat \<Rightarrow> db \<Rightarrow> ((int + u8) \<times> db) option" where
  "connect_flags ci db =
     do {
       (rc, flags, db) \<leftarrow> ctx_read ci in_read_byte db;
       if rc \<noteq> 0 then give_up ci 1 db
       else if flag_will_qos flags = 3 then give_up ci MOSQ_ERR_PROTOCOL db
       else
         do {
           (rc, keepalive, db) \<leftarrow> ctx_read ci in_read_uint16 db;
           if rc \<noteq> 0 then give_up ci 1 db
           else do { db \<leftarrow> ctx_upd_mosq ci (\<lambda>m. m\<lparr>c_keepalive := keepalive\<rparr>) db; Some (Inr flags, db) }
         }
     }"

text \<open>
  An id made by the broker: 64 random characters behind the prefix. The string is cut at the 64th character of
  the whole.
\<close>

fun rand_chars :: "nat \<Rightarrow> int list \<Rightarrow> string \<times> int list" where
  "rand_chars 0 rs = ([], rs)"
| "rand_chars (Suc n) rs =
     (let (r, rs) = (case rs of [] \<Rightarrow> (0, []) | r # rs \<Rightarrow> (r, rs)); (s, rs) = rand_chars n rs
      in (char_of (nat (r mod 73 + 48)) # s, rs))"

definition auto_id :: "db \<Rightarrow> string \<times> db" where
  "auto_id db =
     (case rand_chars 64 (db_rand db) of (s, rs) \<Rightarrow> (take 64 (cf_auto_id_prefix (db_config db) @ s), db\<lparr>db_rand := rs\<rparr>))"

definition connect_client_id :: "nat \<Rightarrow> u8 \<Rightarrow> db \<Rightarrow> ((int + string) \<times> db) option" where
  "connect_client_id ci flags db =
     do {
       (rc, cid, db) \<leftarrow> ctx_read ci in_read_string db;
       if rc \<noteq> 0 then give_up ci 1 db
       else
         do {
           m \<leftarrow> ctx_mosq ci db;
           (r, db) \<leftarrow>
             (if cid \<noteq> [] then Some (Inr cid, db)
              else if c_protocol m = mosq_p_mqtt31 then refuse ci CONNACK_REFUSED_IDENTIFIER_REJECTED MOSQ_ERR_PROTOCOL db
              else if flags AND 0x02 = 0 then refuse ci CONNACK_REFUSED_IDENTIFIER_REJECTED MOSQ_ERR_PROTOCOL db
              else if cf_allow_zero_length_clientid (db_config db) then
                (case db_alloc db of
                   (False, db) \<Rightarrow> give_up ci MOSQ_ERR_NOMEM db
                 | (True, db) \<Rightarrow> (case auto_id db of (cid, db) \<Rightarrow> Some (Inr cid, db)))
              else refuse ci CONNACK_REFUSED_IDENTIFIER_REJECTED MOSQ_ERR_PROTOCOL db);
           (case r of
              Inl rc \<Rightarrow> Some (Inl rc, db)
            | Inr cid \<Rightarrow>
                (case cf_clientid_prefixes (db_config db) of
                   Some p \<Rightarrow> if has_prefix p cid then Some (Inr cid, db) else refuse ci CONNACK_REFUSED_NOT_AUTHORIZED MOSQ_ERR_SUCCESS db
                 | None \<Rightarrow> Some (Inr cid, db)))
         }
     }"

definition connect_will :: "nat \<Rightarrow> u8 \<Rightarrow> db \<Rightarrow> ((int + message option) \<times> db) option" where
  "connect_will ci flags db =
     (if flags AND 0x04 \<noteq> 0 then
        (case db_alloc db of
           (False, db) \<Rightarrow> give_up ci MOSQ_ERR_NOMEM db
         | (True, db) \<Rightarrow>
             do {
               (rc, topic, db) \<leftarrow> ctx_read ci in_read_string db;
               if rc \<noteq> 0 \<or> topic = [] \<or> mosquitto_topic_wildcard_pos_check (Some topic) \<noteq> 0 then give_up ci 1 db
               else
                 do {
                   (rc, len, db) \<leftarrow> ctx_read ci in_read_uint16 db;
                   if rc \<noteq> 0 then give_up ci 1 db
                   else
                     do {
                       (rc, payload, db) \<leftarrow> (if len > 0 then ctx_read ci (in_read_buffer (ucast len) 0) db else Some (0, [], db));
                       if rc \<noteq> 0 then give_up ci 1 db
                       else
                         Some (Inr (Some (message_calloc\<lparr>m_topic := Some topic, m_payload := (if len > 0 then Some payload else None), m_payloadlen := uint len,
                           m_qos := flag_will_qos flags, m_retain := (flags AND 0x20 \<noteq> 0)\<rparr>)), db)
                     }
                 }
             })
      else
        do {
          m \<leftarrow> ctx_mosq ci db;
          if c_protocol m = mosq_p_mqtt311 \<and> (flag_will_qos flags \<noteq> 0 \<or> flags AND 0x20 \<noteq> 0) then give_up ci MOSQ_ERR_PROTOCOL db
          else Some (Inr None, db)
        })"

text \<open>The user name and the password (\<open>None\<close>: without a user name).\<close>

definition connect_user :: "nat \<Rightarrow> u8 \<Rightarrow> db \<Rightarrow> ((int + (string \<times> string option) option) \<times> db) option" where
  "connect_user ci flags db =
     do {
       m \<leftarrow> ctx_mosq ci db;
       let v311 = (c_protocol m = mosq_p_mqtt311);
       if flags AND 0x80 \<noteq> 0 then
         do {
           (rc, username, db) \<leftarrow> ctx_read ci in_read_string db;
           if rc = MOSQ_ERR_SUCCESS then
             if flags AND 0x40 \<noteq> 0 then
               do {
                 (rc, password, db) \<leftarrow> ctx_read ci in_read_string db;
                 if rc = MOSQ_ERR_NOMEM then Some (Inl MOSQ_ERR_NOMEM, db)
                 else if rc = MOSQ_ERR_PROTOCOL then
                   if v311 then give_up ci MOSQ_ERR_PROTOCOL db else Some (Inr (Some (username, None)), db)
                 else Some (Inr (Some (username, Some password)), db)
               }
             else Some (Inr (Some (username, None)), db)
           else if rc = MOSQ_ERR_NOMEM then Some (Inl MOSQ_ERR_NOMEM, db)
           else if v311 then give_up ci MOSQ_ERR_PROTOCOL db
           else Some (Inr None, db)
         }
       else if v311 \<and> flags AND 0x40 \<noteq> 0 then give_up ci MOSQ_ERR_PROTOCOL db
       else Some (Inr None, db)
     }"

definition connect_auth :: "nat \<Rightarrow> (string \<times> string option) option \<Rightarrow> db \<Rightarrow> ((int + unit) \<times> db) option" where
  "connect_auth ci user db =
     (case user of
        Some (username, password) \<Rightarrow>
          (let rc = mosquitto_unpwd_check db (Some username) password in
           if rc = MOSQ_ERR_AUTH then refuse ci CONNACK_REFUSED_BAD_USERNAME_PASSWORD MOSQ_ERR_SUCCESS db
           else if rc = MOSQ_ERR_INVAL then Some (Inl rc, db)
           else do { db \<leftarrow> ctx_upd_mosq ci (\<lambda>m. m\<lparr>c_username := Some username, c_password := password\<rparr>) db; Some (Inr (), db) })
      | None \<Rightarrow>
          if \<not> cf_allow_anonymous (db_config db) then refuse ci CONNACK_REFUSED_NOT_AUTHORIZED MOSQ_ERR_SUCCESS db
          else Some (Inr (), db))"

text \<open>
  A client with a known id takes over the context of its session; the old context of the connection is left behind
  without a socket. What arrives on the socket goes with it. The protocol of the new connection is not copied.
\<close>

definition takeover_strings :: "ctx \<Rightarrow> db \<Rightarrow> bool \<times> bool \<times> db" where
  "takeover_strings cx db =
     (case db_alloc db of (b, db) \<Rightarrow>
        if c_username (cx_mosq cx) \<noteq> None then (case db_alloc db of (b', db) \<Rightarrow> (b, b', db)) else (b, True, db))"

definition takeover_ctx :: "ctx \<Rightarrow> string \<Rightarrow> bool \<Rightarrow> bool \<Rightarrow> int \<Rightarrow> ctx \<Rightarrow> ctx" where
  "takeover_ctx cx address b b' now old =
     (let m = cx_mosq cx in
      old\<lparr>cx_mosq := (cx_mosq old)\<lparr>c_state := mosq_cs_connected, c_sock := c_sock m, e_rx := e_rx m, e_wr := e_wr m, e_tx := e_tx m,
            e_errno := e_errno m, c_last_msg_in := now, c_last_msg_out := now, c_keepalive := c_keepalive m,
            c_username := (if b' then c_username m else None)\<rparr>,
          cx_address := (if b then Some address else None), cx_listener := cx_listener cx\<rparr>)"

definition connect_takeover :: "nat \<Rightarrow> string \<Rightarrow> bool \<Rightarrow> db \<Rightarrow> (nat \<times> db) option" where
  "connect_takeover ci cid clean db =
     (case cih_find cid (db_clientid_index_hash db) of
        None \<Rightarrow> Some (ci, db)
      | Some i \<Rightarrow>
          do {
            db \<leftarrow> ctx_upd_mosq i (\<lambda>m. m\<lparr>c_clean_session := clean\<rparr>) db;
            db \<leftarrow> mqtt3_context_cleanup db i False;
            cx \<leftarrow> get_ctx ci db;
            old \<leftarrow> get_ctx i db;
            address \<leftarrow> cx_address cx;
            let (b, b', db) = takeover_strings cx db;
            let db = put_ctx i (takeover_ctx cx address b b' (db_now db) old) db;
            db \<leftarrow> ctx_upd_mosq ci (\<lambda>m. m\<lparr>c_sock := -1, c_state := mosq_cs_disconnecting\<rparr>) db;
            cx \<leftarrow> get_ctx i db;
            if cx_msgs cx \<noteq> [] then do { (rc, db) \<leftarrow> mqtt3_db_message_reconnect_reset db i; Some (i, db) }
            else Some (i, db)
          })"

text \<open>The access list of the user. Without a list for the user the context keeps the one it has.\<close>

fun acl_user :: "string option \<Rightarrow> (string option \<times> (string \<times> int) list) list \<Rightarrow> (string \<times> int) list option \<Rightarrow> (string \<times> int) list option" where
  "acl_user u [] old = old"
| "acl_user u ((v, l) # r) old = (if u = v then Some l else acl_user u r old)"

definition connect_accept :: "nat \<Rightarrow> message option \<Rightarrow> db \<Rightarrow> db_res" where
  "connect_accept ci will db =
     do {
       cx \<leftarrow> get_ctx ci db;
       let db = put_ctx ci (cx\<lparr>cx_acl_list := (if db_acl_list db = [] then None
         else acl_user (c_username (cx_mosq cx)) (db_acl_list db) (cx_acl_list cx))\<rparr>) db;
       (allowed, db) \<leftarrow> (case will of
           None \<Rightarrow> Some (True, db)
         | Some w \<Rightarrow>
             do {
               topic \<leftarrow> m_topic w;
               (rc, db) \<leftarrow> mosquitto_acl_check db ci topic MOSQ_ACL_WRITE;
               if rc \<noteq> MOSQ_ERR_SUCCESS then Some (False, db)
               else do { db \<leftarrow> ctx_upd_mosq ci (\<lambda>m. m\<lparr>c_will := will\<rparr>) db; Some (True, db) }
             });
       if \<not> allowed
       then do { (_, db) \<leftarrow> ctx_send ci (\<lambda>m. mosquitto_send_connack m CONNACK_REFUSED_NOT_AUTHORIZED) db;
                 db \<leftarrow> mqtt3_context_disconnect db ci; Some (MOSQ_ERR_SUCCESS, db) }
       else do { db \<leftarrow> ctx_upd_mosq ci (\<lambda>m. m\<lparr>c_state := mosq_cs_connected\<rparr>) db;
                 ctx_send ci (\<lambda>m. mosquitto_send_connack m CONNACK_ACCEPTED) db }
     }"

definition connect_finish :: "nat \<Rightarrow> string \<Rightarrow> u8 \<Rightarrow> u8 \<Rightarrow> message option \<Rightarrow> db \<Rightarrow> db_res" where
  "connect_finish ci cid version flags will db =
     do {
       cx \<leftarrow> get_ctx ci db;
       let clean = (flags AND 0x02 \<noteq> 0);
       let db = put_ctx ci (cx\<lparr>cx_mosq := (cx_mosq cx)\<lparr>c_id := Some cid, c_clean_session := clean, c_ping_t := 0\<rparr>, cx_is_dropping := False,
         cx_is_bridge := (if version AND 0x80 = 0x80 then True else cx_is_bridge cx)\<rparr>) db;
       (case db_alloc db of
          (False, db) \<Rightarrow> do { db \<leftarrow> mqtt3_context_disconnect db ci; Some (MOSQ_ERR_NOMEM, db) }
        | (True, db) \<Rightarrow>
            connect_accept ci will (db\<lparr>db_clientid_index_hash := cih_add cid ci (db_clientid_index_hash db),
              db_persistence_changes := (if clean then db_persistence_changes db else db_persistence_changes db + 1)\<rparr>))
     }"

text \<open>A stage, and what follows it.\<close>

definition stage :: "((int + 'a) \<times> db) option \<Rightarrow> ('a \<Rightarrow> db \<Rightarrow> db_res) \<Rightarrow> db_res" where
  "stage r f = do { (x, db) \<leftarrow> r; (case x of Inl rc \<Rightarrow> Some (rc, db) | Inr v \<Rightarrow> f v db) }"

definition mqtt3_handle_connect :: "db \<Rightarrow> nat \<Rightarrow> db_res" where
  "mqtt3_handle_connect db ci =
     do {
       m \<leftarrow> ctx_mosq ci db;
       if c_state m \<noteq> mosq_cs_new then do { db \<leftarrow> mqtt3_context_disconnect db ci; Some (MOSQ_ERR_PROTOCOL, db) }
       else
         stage (connect_protocol ci db) (\<lambda>version db.
         stage (connect_flags ci db) (\<lambda>flags db.
         stage (connect_client_id ci flags db) (\<lambda>cid db.
         stage (connect_will ci flags db) (\<lambda>will db.
         stage (connect_user ci flags db) (\<lambda>user db.
         stage (connect_auth ci user db) (\<lambda>_ db.
         do {
           (ci, db) \<leftarrow> connect_takeover ci cid (flags AND 0x02 \<noteq> 0) db;
           connect_finish ci cid version flags will db
         }))))))
     }"

section \<open>DISCONNECT\<close>

definition mqtt3_handle_disconnect :: "db \<Rightarrow> nat \<Rightarrow> db_res" where
  "mqtt3_handle_disconnect db ci =
     do {
       m \<leftarrow> ctx_mosq ci db;
       if pk_remaining_length (c_in_packet m) \<noteq> 0 then Some (MOSQ_ERR_PROTOCOL, db)
       else if c_protocol m = mosq_p_mqtt311 \<and> pk_command (c_in_packet m) AND 0x0F \<noteq> 0
       then do { db \<leftarrow> mqtt3_context_disconnect db ci; Some (MOSQ_ERR_PROTOCOL, db) }
       else
         do {
           db \<leftarrow> ctx_upd_mosq ci (\<lambda>m. m\<lparr>c_state := mosq_cs_disconnecting\<rparr>) db;
           db \<leftarrow> mqtt3_context_disconnect db ci;
           Some (MOSQ_ERR_SUCCESS, db)
         }
     }"

section \<open>PUBLISH\<close>

text \<open>The topic of a message from a bridge with its new prefix.\<close>

definition remap_in :: "nat \<Rightarrow> string \<Rightarrow> db \<Rightarrow> ((int + string) \<times> db) option" where
  "remap_in ci topic db =
     do {
       cx \<leftarrow> get_ctx ci db;
       (case cx_bridge cx of
          None \<Rightarrow> Some (Inr topic, db)
        | Some b \<Rightarrow>
            if \<not> br_topic_remapping b then Some (Inr topic, db)
            else
              (case remap_loop bd_in bt_remote_topic (\<lambda>t. remap_topic False (bt_remote_prefix t) (bt_local_prefix t)) (br_topics b) topic (db_allocs db) of
                 (r, al) \<Rightarrow> Some (case r of Inl rc \<Rightarrow> Inl rc | Inr None \<Rightarrow> Inr topic | Inr (Some t) \<Rightarrow> Inr t, db\<lparr>db_allocs := al\<rparr>)))
     }"

definition mount_topic :: "nat \<Rightarrow> string \<Rightarrow> db \<Rightarrow> string option \<times> db" where
  "mount_topic ci topic db =
     (case ctx_mount ci db of
        None \<Rightarrow> (Some topic, db)
      | Some mp \<Rightarrow> (case db_alloc db of (b, db) \<Rightarrow> (if b then Some (mp @ topic) else None, db)))"

text \<open>The topic and the message id: \<open>Inr (topic, mid)\<close>.\<close>

definition publish_topic :: "nat \<Rightarrow> int \<Rightarrow> db \<Rightarrow> ((int + string \<times> u16) \<times> db) option" where
  "publish_topic ci qos db =
     do {
       (rc, topic, db) \<leftarrow> ctx_read ci in_read_string db;
       if rc \<noteq> 0 \<or> topic = [] then Some (Inl 1, db)
       else
         do {
           (r, db) \<leftarrow> remap_in ci topic db;
           (case r of
              Inl rc \<Rightarrow> Some (Inl rc, db)
            | Inr topic \<Rightarrow>
                if mosquitto_topic_wildcard_len_check (Some topic) \<noteq> MOSQ_ERR_SUCCESS then Some (Inl 1, db)
                else
                  do {
                    (rc, mid, db) \<leftarrow> (if qos > 0 then ctx_read ci in_read_uint16 db else Some (0, 0, db));
                    if rc \<noteq> 0 then Some (Inl 1, db) else Some (Inr (topic, mid), db)
                  })
         }
     }"

text \<open>A message that is too large or not allowed is acknowledged, without being routed.\<close>

definition publish_bad :: "nat \<Rightarrow> int \<Rightarrow> u16 \<Rightarrow> db \<Rightarrow> db_res" where
  "publish_bad ci qos mid db =
     (if qos = 0 then Some (MOSQ_ERR_SUCCESS, db)
      else if qos = 1 then ctx_send ci (\<lambda>m. mosquitto_send_puback broker_app m mid) db
      else
        do {
          (_, stored) \<leftarrow> mqtt3_db_message_store_find db ci mid;
          (res, db) \<leftarrow> (case stored of
              Some _ \<Rightarrow> Some (0, db)
            | None \<Rightarrow>
                do {
                  m \<leftarrow> ctx_mosq ci db;
                  (rc, stored, db) \<leftarrow> mqtt3_db_message_store db (c_id m) mid None qos 0 None False 0;
                  if rc \<noteq> 0 then Some (1, db)
                  else do { stored \<leftarrow> stored; mqtt3_db_message_insert db ci mid mosq_md_in qos False stored }
                });
          if res = 0 then ctx_send ci (\<lambda>m. mosquitto_send_pubrec broker_app m mid) db else Some (res, db)
        })"

text \<open>A message that is allowed is routed (QoS 0 and 1) or kept until its release (QoS 2).\<close>

definition publish_good :: "nat \<Rightarrow> int \<Rightarrow> bool \<Rightarrow> u16 \<Rightarrow> string \<Rightarrow> u32 \<Rightarrow> u8 list option \<Rightarrow> db \<Rightarrow> db_res" where
  "publish_good ci qos retain mid topic payloadlen payload db =
     do {
       m \<leftarrow> ctx_mosq ci db;
       (_, stored) \<leftarrow> (if qos > 0 then mqtt3_db_message_store_find db ci mid else Some (1, None));
       let dup = (stored \<noteq> None);
       (rc, stored, db) \<leftarrow> (case stored of
           Some r \<Rightarrow> Some (0, Some r, db)
         | None \<Rightarrow> mqtt3_db_message_store db (c_id m) mid (Some topic) qos payloadlen payload retain 0);
       if rc \<noteq> 0 then Some (1, db)
       else
         do {
           stored \<leftarrow> stored;
           if qos = 0 then
             do { (rc, db) \<leftarrow> mqtt3_db_messages_queue db (c_id m) topic qos retain stored; Some (if rc \<noteq> 0 then 1 else 0, db) }
           else if qos = 1 then
             do {
               (rc, db) \<leftarrow> mqtt3_db_messages_queue db (c_id m) topic qos retain stored;
               (rc2, db) \<leftarrow> ctx_send ci (\<lambda>m. mosquitto_send_puback broker_app m mid) db;
               Some (if rc \<noteq> 0 \<or> rc2 \<noteq> 0 then 1 else 0, db)
             }
           else
             do {
               (res, db) \<leftarrow> (if dup then Some (0, db) else mqtt3_db_message_insert db ci mid mosq_md_in qos retain stored);
               if res = 0 then do { (rc, db) \<leftarrow> ctx_send ci (\<lambda>m. mosquitto_send_pubrec broker_app m mid) db; Some (if rc \<noteq> 0 then 1 else 0, db) }
               else Some (if res = 1 then 1 else 0, db)
             }
         }
     }"

definition mqtt3_handle_publish :: "db \<Rightarrow> nat \<Rightarrow> db_res" where
  "mqtt3_handle_publish db ci =
     do {
       m \<leftarrow> ctx_mosq ci db;
       let header = pk_command (c_in_packet m);
       let qos = uint (drop_bit 1 (header AND 0x06));
       let retain = (header AND 0x01 \<noteq> 0);
       if qos = 3 then Some (1, db)
       else
         stage (publish_topic ci qos db) (\<lambda>(topic, mid) db.
           do {
             m \<leftarrow> ctx_mosq ci db;
             let payloadlen = pk_remaining_length (c_in_packet m) - pk_pos (c_in_packet m);
             (case mount_topic ci topic db of
                (None, db) \<Rightarrow> Some (MOSQ_ERR_NOMEM, db)
              | (Some topic, db) \<Rightarrow>
                  if payloadlen \<noteq> 0 \<and> cf_message_size_limit (db_config db) \<noteq> 0 \<and> payloadlen > cf_message_size_limit (db_config db)
                  then publish_bad ci qos mid db
                  else
                    do {
                      (rc, payload, db) \<leftarrow> (if payloadlen \<noteq> 0 then ctx_read ci (in_read_buffer payloadlen 1) db else Some (0, [], db));
                      if rc \<noteq> 0 then Some (1, db)
                      else
                        do {
                          (rc, db) \<leftarrow> mosquitto_acl_check db ci topic MOSQ_ACL_WRITE;
                          if rc = MOSQ_ERR_ACL_DENIED then publish_bad ci qos mid db
                          else if rc \<noteq> MOSQ_ERR_SUCCESS then Some (rc, db)
                          else publish_good ci qos retain mid topic payloadlen (if payloadlen \<noteq> 0 then Some payload else None) db
                        }
                    })
           })
     }"

section \<open>SUBSCRIBE and UNSUBSCRIBE\<close>

definition in_left :: "unit mosq \<Rightarrow> bool" where
  "in_left m \<longleftrightarrow> pk_pos (c_in_packet m) < pk_remaining_length (c_in_packet m)"

text \<open>One subscription of the packet: its granted QoS and the result so far, or the code to return with.\<close>

definition subscribe_one :: "nat \<Rightarrow> int \<Rightarrow> db \<Rightarrow> ((int + u8 \<times> int) \<times> db) option" where
  "subscribe_one ci rc db =
     do {
       (rc1, sub, db) \<leftarrow> ctx_read ci in_read_string db;
       if rc1 \<noteq> 0 \<or> sub = [] \<or> mosquitto_topic_wildcard_pos_check (Some sub) \<noteq> 0 then Some (Inl 1, db)
       else
         do {
           (rc1, qos, db) \<leftarrow> ctx_read ci in_read_byte db;
           if rc1 \<noteq> 0 \<or> qos > 2 then Some (Inl 1, db)
           else
             (case mount_topic ci sub db of
                (None, db) \<Rightarrow> Some (Inl MOSQ_ERR_NOMEM, db)
              | (Some sub, db) \<Rightarrow>
                  do {
                    m \<leftarrow> ctx_mosq ci db;
                    (rc, qos, db) \<leftarrow> (if c_protocol m = mosq_p_mqtt311
                      then do { (rc, db) \<leftarrow> mosquitto_acl_check db ci sub MOSQ_ACL_READ; Some (rc, if rc = MOSQ_ERR_ACL_DENIED then 0x80 else qos, db) }
                      else Some (rc, qos, db));
                    (rc, db) \<leftarrow> (if qos \<noteq> 0x80 then
                        do {
                          (rc2, db) \<leftarrow> mqtt3_sub_add db ci sub (uint qos);
                          if rc2 = MOSQ_ERR_SUCCESS then do { (rc3, db) \<leftarrow> mqtt3_retain_queue db ci sub (uint qos); Some (if rc3 \<noteq> 0 then 1 else rc, db) }
                          else Some (if rc2 \<noteq> -1 then rc2 else rc, db)
                        }
                      else Some (rc, db));
                    (case db_alloc db of
                       (False, db) \<Rightarrow> Some (Inl MOSQ_ERR_NOMEM, db)
                     | (True, db) \<Rightarrow> Some (Inr (qos, rc), db))
                  })
         }
     }"

partial_function (option) subscribe_loop :: "nat \<Rightarrow> u8 list \<Rightarrow> int \<Rightarrow> db \<Rightarrow> ((int + u8 list \<times> int) \<times> db) option" where
  "subscribe_loop ci payload rc db =
     do {
       m \<leftarrow> ctx_mosq ci db;
       if \<not> in_left m then Some (Inr (payload, rc), db)
       else
         do {
           (r, db) \<leftarrow> subscribe_one ci rc db;
           (case r of
              Inl rc \<Rightarrow> Some (Inl rc, db)
            | Inr (qos, rc) \<Rightarrow> subscribe_loop ci (payload @ [qos]) rc db)
         }
     }"

declare subscribe_loop.simps [code]

text \<open>A denied subscription leaves its error in the result, which ends the connection after the SUBACK.\<close>

definition mqtt3_handle_subscribe :: "db \<Rightarrow> nat \<Rightarrow> db_res" where
  "mqtt3_handle_subscribe db ci =
     do {
       m \<leftarrow> ctx_mosq ci db;
       if c_protocol m = mosq_p_mqtt311 \<and> pk_command (c_in_packet m) AND 0x0F \<noteq> 0x02 then Some (MOSQ_ERR_PROTOCOL, db)
       else
         do {
           (rc, mid, db) \<leftarrow> ctx_read ci in_read_uint16 db;
           if rc \<noteq> 0 then Some (1, db)
           else
             stage (subscribe_loop ci [] 0 db) (\<lambda>(payload, rc) db.
               if c_protocol m = mosq_p_mqtt311 \<and> payload = [] then Some (MOSQ_ERR_PROTOCOL, db)
               else
                 do {
                   (rc2, db) \<leftarrow> ctx_send ci (\<lambda>m. mosquitto_send_suback m mid payload) db;
                   Some (if rc2 \<noteq> 0 then 1 else rc, db\<lparr>db_persistence_changes := db_persistence_changes db + 1\<rparr>)
                 })
         }
     }"

partial_function (option) unsubscribe_loop :: "nat \<Rightarrow> db \<Rightarrow> ((int + unit) \<times> db) option" where
  "unsubscribe_loop ci db =
     do {
       m \<leftarrow> ctx_mosq ci db;
       if \<not> in_left m then Some (Inr (), db)
       else
         do {
           (rc, sub, db) \<leftarrow> ctx_read ci in_read_string db;
           if rc \<noteq> 0 \<or> sub = [] \<or> mosquitto_topic_wildcard_pos_check (Some sub) \<noteq> 0 then Some (Inl 1, db)
           else unsubscribe_loop ci (snd (mqtt3_sub_remove db ci sub))
         }
     }"

declare unsubscribe_loop.simps [code]

definition mqtt3_handle_unsubscribe :: "db \<Rightarrow> nat \<Rightarrow> db_res" where
  "mqtt3_handle_unsubscribe db ci =
     do {
       m \<leftarrow> ctx_mosq ci db;
       if c_protocol m = mosq_p_mqtt311 \<and> pk_command (c_in_packet m) AND 0x0F \<noteq> 0x02 then Some (MOSQ_ERR_PROTOCOL, db)
       else
         do {
           (rc, mid, db) \<leftarrow> ctx_read ci in_read_uint16 db;
           if rc \<noteq> 0 then Some (1, db)
           else
             stage (unsubscribe_loop ci db) (\<lambda>_ db.
               ctx_send ci (\<lambda>m. mosquitto_send_command_with_mid broker_app m UNSUBACK mid False)
                 (db\<lparr>db_persistence_changes := db_persistence_changes db + 1\<rparr>))
         }
     }"

section \<open>Acknowledgements\<close>

definition broker_handle_pubackcomp :: "db \<Rightarrow> nat \<Rightarrow> db_res" where
  "broker_handle_pubackcomp db ci =
     do {
       (rc, mid, db) \<leftarrow> ctx_read ci in_read_uint16 db;
       if rc \<noteq> 0 then Some (rc, db)
       else if mid \<noteq> 0 then mqtt3_db_message_delete db ci mid mosq_md_out
       else Some (MOSQ_ERR_SUCCESS, db)
     }"

definition broker_handle_pubrec :: "db \<Rightarrow> nat \<Rightarrow> db_res" where
  "broker_handle_pubrec db ci =
     do {
       (rc, mid, db) \<leftarrow> ctx_read ci in_read_uint16 db;
       if rc \<noteq> 0 then Some (rc, db)
       else
         do {
           (rc, db) \<leftarrow> mqtt3_db_message_update db ci mid mosq_md_out mosq_ms_wait_for_pubcomp;
           if rc \<noteq> 0 then Some (rc, db) else ctx_send ci (\<lambda>m. mosquitto_send_pubrel broker_app m mid False) db
         }
     }"

definition broker_handle_pubrel :: "db \<Rightarrow> nat \<Rightarrow> db_res" where
  "broker_handle_pubrel db ci =
     do {
       m \<leftarrow> ctx_mosq ci db;
       if c_protocol m = mosq_p_mqtt311 \<and> pk_command (c_in_packet m) AND 0x0F \<noteq> 0x02 then Some (MOSQ_ERR_PROTOCOL, db)
       else
         do {
           (rc, mid, db) \<leftarrow> ctx_read ci in_read_uint16 db;
           if rc \<noteq> 0 then Some (rc, db)
           else
             do {
               (_, db) \<leftarrow> mqtt3_db_message_release db ci mid mosq_md_in;
               ctx_send ci (\<lambda>m. mosquitto_send_pubcomp broker_app m mid) db
             }
         }
     }"

section \<open>The CONNACK of a bridge\<close>

fun bridge_subscribe :: "nat \<Rightarrow> bridge_topic list \<Rightarrow> db \<Rightarrow> db_res" where
  "bridge_subscribe ci [] db = Some (MOSQ_ERR_SUCCESS, db)"
| "bridge_subscribe ci (t # ts) db =
     do {
       (rc, db) \<leftarrow> ctx_send ci (\<lambda>m.
           if bt_direction t = bd_in \<or> bt_direction t = bd_both
           then do { (rc, _, m) \<leftarrow> mosquitto_send_subscribe broker_app m False (Some (bt_remote_topic t)) (of_int (bt_qos t)); Some (rc, m) }
           else do { (rc, _, m) \<leftarrow> mosquitto_send_unsubscribe broker_app m False (Some (bt_remote_topic t)); Some (rc, m) }) db;
       if rc \<noteq> 0 then Some (1, db) else bridge_subscribe ci ts db
     }"

definition bridge_notify :: "nat \<Rightarrow> string \<Rightarrow> db \<Rightarrow> db_res" where
  "bridge_notify ci topic db =
     do {
       (mid, db) \<leftarrow> ctx_mid ci db;
       (rc, db) \<leftarrow> ctx_send ci (\<lambda>m. mosquitto_send_real_publish broker_app m mid topic 1 (Some [byte_of_char (CHR ''1'')]) 1 True False) db;
       if rc \<noteq> 0 then Some (1, db)
       else do { (_, db) \<leftarrow> mqtt3_db_messages_easy_queue db (Some ci) (Some topic) 1 1 (Some [byte_of_char (CHR ''1'')]) True; Some (0, db) }
     }"

definition mqtt3_handle_connack :: "db \<Rightarrow> nat \<Rightarrow> db_res" where
  "mqtt3_handle_connack db ci =
     do {
       (rc, _, db) \<leftarrow> ctx_read ci in_read_byte db;
       if rc \<noteq> 0 then Some (1, db)
       else
         do {
           (rc, result, db) \<leftarrow> ctx_read ci in_read_byte db;
           if rc \<noteq> 0 then Some (1, db)
           else
             do {
               cx \<leftarrow> get_ctx ci db;
               if result = CONNACK_ACCEPTED then
                 do {
                   (rc, db) \<leftarrow> (case cx_bridge cx of
                       None \<Rightarrow> Some (0, db)
                     | Some b \<Rightarrow>
                         do {
                           (rc, db) \<leftarrow> (if \<not> br_notifications b then Some (0, db)
                             else case br_notification_topic b of
                               Some t \<Rightarrow> bridge_notify ci t db
                             | None \<Rightarrow>
                                 do {
                                   cid \<leftarrow> c_id (cx_mosq cx);
                                   (case db_alloc db of
                                      (False, db) \<Rightarrow> Some (MOSQ_ERR_NOMEM, db)
                                    | (True, db) \<Rightarrow> bridge_notify ci (''$SYS/broker/connection/'' @ cid @ ''/state'') db)
                                 });
                           if rc \<noteq> 0 then Some (rc, db) else bridge_subscribe ci (br_topics b) db
                         });
                   if rc \<noteq> 0 then Some (rc, db)
                   else do { db \<leftarrow> ctx_upd_mosq ci (\<lambda>m. m\<lparr>c_state := mosq_cs_connected\<rparr>) db; Some (MOSQ_ERR_SUCCESS, db) }
                 }
               else if result = CONNACK_REFUSED_PROTOCOL_VERSION then
                 Some (1, case cx_bridge cx of None \<Rightarrow> db | Some b \<Rightarrow> put_ctx ci (cx\<lparr>cx_bridge := Some (b\<lparr>br_try_private_accepted := False\<rparr>)\<rparr>) db)
               else Some (1, db)
             }
         }
     }"

section \<open>Dispatch\<close>

definition mqtt3_packet_handle :: "db \<Rightarrow> nat \<Rightarrow> db_res" where
  "mqtt3_packet_handle db ci =
     do {
       m \<leftarrow> ctx_mosq ci db;
       let c = pk_command (c_in_packet m) AND 0xF0;
       if c = PINGREQ then ctx_send ci (mosquitto_handle_pingreq broker_app) db
       else if c = PINGRESP then ctx_send ci mosquitto_handle_pingresp db
       else if c = PUBACK \<or> c = PUBCOMP then broker_handle_pubackcomp db ci
       else if c = PUBLISH then mqtt3_handle_publish db ci
       else if c = PUBREC then broker_handle_pubrec db ci
       else if c = PUBREL then broker_handle_pubrel db ci
       else if c = CONNECT then mqtt3_handle_connect db ci
       else if c = DISCONNECT then mqtt3_handle_disconnect db ci
       else if c = SUBSCRIBE then mqtt3_handle_subscribe db ci
       else if c = UNSUBSCRIBE then mqtt3_handle_unsubscribe db ci
       else if c = CONNACK then mqtt3_handle_connack db ci
       else if c = SUBACK then ctx_send ci (mosquitto_handle_suback broker_app) db
       else if c = UNSUBACK then ctx_send ci (mosquitto_handle_unsuback broker_app) db
       else Some (MOSQ_ERR_PROTOCOL, db)
     }"

text \<open>The first packet of a client is a CONNECT.\<close>

definition broker_read_in :: "bool \<Rightarrow> unit mosq \<Rightarrow> (int option \<times> unit mosq) option" where
  "broker_read_in is_bridge m =
     (case read_command m of
        (Some rc, m) \<Rightarrow> Some (Some rc, m)
      | (None, m') \<Rightarrow>
          if pk_command (c_in_packet m) = 0 \<and> \<not> is_bridge \<and> c_state m' = mosq_cs_new \<and> pk_command (c_in_packet m') AND 0xF0 \<noteq> CONNECT
          then Some (Some MOSQ_ERR_PROTOCOL, m')
          else
            (case read_remaining m' of
               (Some rc, m) \<Rightarrow> Some (Some rc, m)
             | (None, m) \<Rightarrow> read_payload_loop m))"

definition broker_packet_read :: "db \<Rightarrow> nat \<Rightarrow> db_res" where
  "broker_packet_read db ci =
     do {
       cx \<leftarrow> get_ctx ci db;
       if c_sock (cx_mosq cx) = INVALID_SOCKET then Some (MOSQ_ERR_NO_CONN, db)
       else
         do {
           (r, m) \<leftarrow> broker_read_in (cx_bridge cx \<noteq> None) (cx_mosq cx);
           (case r of
              Some rc \<Rightarrow> Some (rc, put_ctx ci (cx\<lparr>cx_mosq := m\<rparr>) db)
            | None \<Rightarrow>
                do {
                  (rc, db) \<leftarrow> mqtt3_packet_handle (put_ctx ci (cx\<lparr>cx_mosq := m\<lparr>c_in_packet := (c_in_packet m)\<lparr>pk_pos := 0\<rparr>\<rparr>\<rparr>) db) ci;
                  db \<leftarrow> ctx_upd_mosq ci (\<lambda>m. m\<lparr>c_in_packet := mosquitto_packet_cleanup (c_in_packet m), c_last_msg_in := db_now db\<rparr>) db;
                  Some (rc, db)
                })
         }
     }"

section \<open>The main loop\<close>

text \<open>
  One client at the start of a round: its messages are sent, it is disconnected when it was silent for too long, and without
  a socket its context is freed with its session. The loop reads the clock at least once in 1000 clients; here it is \<open>db_now\<close>. The keepalive
  and the reconnecting of bridges are not modelled.
\<close>

definition loop_context :: "nat \<Rightarrow> db \<Rightarrow> db option" where
  "loop_context ci db =
     (case get_ctx ci db of
        None \<Rightarrow> Some db
      | Some cx \<Rightarrow>
          (let m = cx_mosq cx; now = db_now db in
           if c_sock m \<noteq> INVALID_SOCKET then
             if c_keepalive m = 0 \<or> cx_bridge cx \<noteq> None \<or> now - c_last_msg_in m < uint (c_keepalive m) * 3 div 2
             then do { (rc, db) \<leftarrow> mqtt3_db_message_write db ci; if rc = MOSQ_ERR_SUCCESS then Some db else mqtt3_context_disconnect db ci }
             else mqtt3_context_disconnect db ci
           else if cx_bridge cx \<noteq> None then Some db
           else if c_clean_session m then mqtt3_context_cleanup db ci True
           else if cf_persistent_client_expiration (db_config db) > 0 \<and> now > cx_disconnect_t cx + cf_persistent_client_expiration (db_config db)
           then do { db \<leftarrow> ctx_upd_mosq ci (\<lambda>m. m\<lparr>c_clean_session := True\<rparr>) db; mqtt3_context_cleanup db ci True }
           else Some db))"

definition has_socket :: "nat \<Rightarrow> db \<Rightarrow> bool" where
  "has_socket ci db = (case get_ctx ci db of None \<Rightarrow> False | Some cx \<Rightarrow> c_sock (cx_mosq cx) \<noteq> INVALID_SOCKET)"

definition disconnect_on :: "nat \<Rightarrow> int \<times> db \<Rightarrow> db option" where
  "disconnect_on ci = (\<lambda>(rc, db). if rc \<noteq> 0 then mqtt3_context_disconnect db ci else Some db)"

text \<open>What \<open>poll\<close> says of the socket of a client: writable, readable, an error.\<close>

record revents =
  re_out :: bool
  re_in :: bool
  re_err :: bool

definition loop_io :: "nat \<Rightarrow> revents \<Rightarrow> db \<Rightarrow> db option" where
  "loop_io ci ev db =
     do {
       db \<leftarrow> (if has_socket ci db \<and> re_out ev then do { r \<leftarrow> ctx_send ci (mosquitto_packet_write broker_app) db; disconnect_on ci r } else Some db);
       db \<leftarrow> (if has_socket ci db \<and> re_in ev then do { r \<leftarrow> broker_packet_read db ci; disconnect_on ci r } else Some db);
       (if has_socket ci db \<and> re_err ev then mqtt3_context_disconnect db ci else Some db)
     }"

text \<open>After a failed \<open>poll\<close> only the errors are looked at.\<close>

definition loop_error :: "nat \<Rightarrow> revents \<Rightarrow> db \<Rightarrow> db option" where
  "loop_error ci ev db = (if has_socket ci db \<and> re_err ev then mqtt3_context_disconnect db ci else Some db)"

fun for_contexts :: "(nat \<Rightarrow> db \<Rightarrow> db option) \<Rightarrow> nat list \<Rightarrow> db \<Rightarrow> db option" where
  "for_contexts f [] db = Some db"
| "for_contexts f (i # is) db = do { db \<leftarrow> f i db; for_contexts f is db }"

text \<open>The listening sockets accept until one call gives \<open>-1\<close>.\<close>

fun accept_loop :: "int \<Rightarrow> conn list \<Rightarrow> db \<Rightarrow> db option" where
  "accept_loop sock [] db = Some db"
| "accept_loop sock (c # cs) db =
     do { (s, db) \<leftarrow> mqtt3_socket_accept db sock c; if s = -1 then Some db else accept_loop sock cs db }"

fun accept_all :: "(int \<times> conn list) list \<Rightarrow> db \<Rightarrow> db option" where
  "accept_all [] db = Some db"
| "accept_all ((sock, cs) # r) db = do { db \<leftarrow> accept_loop sock cs db; accept_all r db }"

text \<open>What the world does in one round: the result of \<open>poll\<close>, the new connections, the time, and whether the store is due to be cleaned.\<close>

record round =
  ro_failed :: bool
  ro_events :: "nat \<Rightarrow> revents"
  ro_accepts :: "(int \<times> conn list) list"
  ro_now :: int
  ro_clean :: bool

definition set_now :: "int \<Rightarrow> db \<Rightarrow> db" where
  "set_now now db = db\<lparr>db_now := now, db_contexts := map (map_option (\<lambda>cx. cx\<lparr>cx_mosq := (cx_mosq cx)\<lparr>e_now := now\<rparr>\<rparr>)) (db_contexts db)\<rparr>"

definition main_round :: "round \<Rightarrow> db \<Rightarrow> db option" where
  "main_round ro db =
     do {
       let db = set_now (ro_now ro) db;
       db \<leftarrow> for_contexts loop_context [0..<length (db_contexts db)] db;
       let (rc, db) = mqtt3_db_message_timeout_check db (cf_retry_interval (db_config db));
       db \<leftarrow> (if ro_failed ro then for_contexts (\<lambda>i. loop_error i (ro_events ro i)) [0..<length (db_contexts db)] db
         else do { db \<leftarrow> for_contexts (\<lambda>i. loop_io i (ro_events ro i)) [0..<length (db_contexts db)] db; accept_all (ro_accepts ro) db });
       if cf_store_clean_interval (db_config db) = 0 \<or> ro_clean ro then mqtt3_db_store_clean db else Some db
     }"

end
