(* ===== verification/Broker_Frame.thy ===== *)
theory Broker_Frame
  imports Broker_Safe Broker_Handle
begin

text \<open>
  What the operations on messages and subscriptions leave alone: who the clients are. The table of ids, the listeners and, of every context, the
  name, the state of the connection, the packet that is being read and the will. A closed socket stays closed. Only the handlers for CONNECT
  and the ends of connections change these.
\<close>

section \<open>The frame\<close>

type_synonym who = "string option \<times> string option \<times> client_state \<times> packet \<times> message option \<times> bool \<times> mosq_protocol"

definition who :: "unit mosq \<Rightarrow> who" where
  "who m = (c_id m, c_username m, c_state m, c_in_packet m, c_will m, c_clean_session m, c_protocol m)"

interpretation wv: io_core who
  by unfold_locales (simp_all add: who_def)

definition still :: "ctx \<Rightarrow> ctx \<Rightarrow> bool" where
  "still cx cx' \<longleftrightarrow> who (cx_mosq cx') = who (cx_mosq cx) \<and> (cx_bridge cx' = None) = (cx_bridge cx = None) \<and> cx_listener cx' = cx_listener cx
     \<and> cx_address cx' = cx_address cx \<and> (c_sock (cx_mosq cx) = -1 \<longrightarrow> c_sock (cx_mosq cx') = -1)"

definition db_still :: "db \<Rightarrow> db \<Rightarrow> bool" where
  "db_still db db' \<longleftrightarrow> length (db_contexts db') = length (db_contexts db) \<and> (\<forall>ci. rel_option still (get_ctx ci db) (get_ctx ci db'))
     \<and> db_clientid_index_hash db' = db_clientid_index_hash db \<and> db_listeners db' = db_listeners db \<and> (db_allocs db = [] \<longrightarrow> db_allocs db' = [])"

lemma still_refl [simp]: "still cx cx"
  by (simp add: still_def)

lemma still_trans: "\<lbrakk>still a b; still b c\<rbrakk> \<Longrightarrow> still a c"
  by (auto simp: still_def)

lemma still_upd [simp]:
  "still cx (cx\<lparr>cx_msgs := a\<rparr>)" "still cx (cx\<lparr>cx_last_msg := b\<rparr>)" "still cx (cx\<lparr>cx_msg_count := n\<rparr>)" "still cx (cx\<lparr>cx_msg_count12 := n\<rparr>)"
  "still cx (cx\<lparr>cx_is_dropping := d\<rparr>)" "still cx (cx\<lparr>cx_acl_list := l\<rparr>)"
  by (simp_all add: still_def)

lemma rel_still_refl [simp]: "rel_option still c c"
  by (cases c) simp_all

lemma db_still_refl [simp, intro]: "db_still db db"
  by (simp add: db_still_def)

lemma rel_still_trans: "\<lbrakk>rel_option still x y; rel_option still y z\<rbrakk> \<Longrightarrow> rel_option still x z"
  by (rule transpD [OF option.rel_transp]) (auto intro: transpI still_trans)

lemma db_still_trans [trans]: "\<lbrakk>db_still a b; db_still b c\<rbrakk> \<Longrightarrow> db_still a c"
  unfolding db_still_def using rel_still_trans by metis

lemma put_ctx_sel2 [simp]: "db_clientid_index_hash (put_ctx ci cx db) = db_clientid_index_hash db" "db_listeners (put_ctx ci cx db) = db_listeners db"
  by (simp_all add: put_ctx_def)

lemma db_still_put: "\<lbrakk>get_ctx ci db = Some cx; still cx cx'\<rbrakk> \<Longrightarrow> db_still db (put_ctx ci cx' db)"
  by (simp add: db_still_def get_put_ctx)

lemma db_still_upd [simp]:
  "db_still db (db\<lparr>db_heap := h\<rparr>)" "db_still db (db\<lparr>db_persistence_changes := n\<rparr>)" "db_still db (db\<lparr>db_msgs_dropped := n\<rparr>)"
  "db_still db (db\<lparr>db_retained_count := n\<rparr>)" "db_still db (db\<lparr>db_subscription_count := n\<rparr>)" "db_still db (db\<lparr>db_subs := hs\<rparr>)"
  "db_still db (db\<lparr>db_msg_store := rs\<rparr>)" "db_still db (db\<lparr>db_msg_store_count := n\<rparr>)"
  by (simp_all add: db_still_def get_ctx_def)

lemma db_still_sub_only: "sub_only db db' \<Longrightarrow> db_still db db'"
proof -
  assume s: "sub_only db db'"
  then obtain al n where "db' = db\<lparr>db_allocs := al, db_subscription_count := n\<rparr>" "db_allocs db = [] \<longrightarrow> al = []" by (auto simp: sub_only_def)
  then show ?thesis by (simp add: db_still_def get_ctx_def)
qed

lemmas alloc_still = sub_only_alloc [THEN db_still_sub_only]

lemma db_still_ctx: "\<lbrakk>db_still db db'; get_ctx ci db = Some cx\<rbrakk> \<Longrightarrow> \<exists>cx'. get_ctx ci db' = Some cx' \<and> still cx cx'"
  unfolding db_still_def by (metis option_rel_Some1)

lemma db_still_id: "db_still db db' \<Longrightarrow> ctx_id db' ci = ctx_id db ci"
proof -
  assume "db_still db db'"
  then have "rel_option still (get_ctx ci db) (get_ctx ci db')" by (simp add: db_still_def)
  then show ?thesis by (cases "get_ctx ci db"; cases "get_ctx ci db'") (auto simp: ctx_id_def still_def who_def)
qed

section \<open>Queues\<close>

lemma add_ref_still: "add_ref r n db = Some db' \<Longrightarrow> db_still db db'"
  by (auto simp: add_ref_def split: option.splits)

lemma add_ref_ctx: "add_ref r n db = Some db' \<Longrightarrow> get_ctx ci db' = get_ctx ci db"
  by (auto simp: add_ref_def split: option.splits)

lemma message_remove_still: "message_remove ci k db = Some db' \<Longrightarrow> db_still db db'"
proof -
  assume r: "message_remove ci k db = Some db'"
  then obtain cx where cx: "get_ctx ci db = Some cx" by (auto simp: message_remove_def bind_eq_Some_conv)
  show ?thesis
  proof (cases "k < length (cx_msgs cx)")
    case True
    define cx' where "cx' = cx\<lparr>cx_msgs := remove_nth k (cx_msgs cx), cx_last_msg := last_unlink k (length (cx_msgs cx)) (cx_last_msg cx),
      cx_msg_count := cx_msg_count cx - 1, cx_msg_count12 := (if cm_qos (cx_msgs cx ! k) > 0 then cx_msg_count12 cx - 1 else cx_msg_count12 cx)\<rparr>"
    have "still cx cx'" by (simp add: cx'_def still_def)
    moreover obtain db1 where a: "add_ref (cm_store (cx_msgs cx ! k)) (-1) db = Some db1" "db' = put_ctx ci cx' db1"
      using r cx True unfolding cx'_def by (auto simp: message_remove_def Let_def bind_eq_Some_conv)
    ultimately show ?thesis using db_still_trans [OF add_ref_still [OF a(1)] db_still_put [of ci db1 cx cx']] cx add_ref_ctx [OF a(1)] by simp
  qed (use r cx in \<open>simp add: message_remove_def\<close>)
qed

lemma set_msg_still [simp]: "db_still db (set_msg ci k f db)"
  by (auto simp: set_msg_def intro: db_still_put split: option.splits)

lemma delete_loop_still: "delete_loop ci mid dir n k i deleted db = Some db' \<Longrightarrow> db_still db db'"
proof (induction n arbitrary: k i deleted db)
  case (Suc n)
  obtain cx where cx: "get_ctx ci db = Some cx" using Suc.prems by (auto simp: bind_eq_Some_conv)
  define db1 where "db1 = (if cm_state (cx_msgs cx ! k) = mosq_ms_queued \<and> i + 1 \<le> db_max_inflight db then set_msg ci k (unqueue (db_now db)) db else db)"
  have 1: "db_still db db1" by (simp add: db1_def)
  have "(\<exists>db2. message_remove ci k db1 = Some db2 \<and> (db' = db2 \<or> delete_loop ci mid dir n k i True db2 = Some db')) \<or> db' = db1
      \<or> delete_loop ci mid dir n (k + 1) (i + 1) deleted db1 = Some db'"
    using Suc.prems cx unfolding db1_def by (auto simp: Let_def bind_eq_Some_conv split: if_splits)
  then show ?case using 1 Suc.IH message_remove_still db_still_trans by metis
qed simp

lemma message_delete_still: "mqtt3_db_message_delete db ci mid dir = Some (rc, db') \<Longrightarrow> db_still db db'"
  by (auto simp: mqtt3_db_message_delete_def bind_eq_Some_conv dest: delete_loop_still)

lemma message_update_still: "mqtt3_db_message_update db ci mid dir state = Some (rc, db') \<Longrightarrow> db_still db db'"
  by (auto simp: mqtt3_db_message_update_def bind_eq_Some_conv split: option.splits)

lemma append_msg_still: "append_msg m cx = Some cx' \<Longrightarrow> still cx cx'"
  by (auto simp: append_msg_def still_def split: last_ptr.splits)

lemma insert_queue_still: "insert_queue db ci mid dir qos retain stored state = Some db' \<Longrightarrow> db_still db db'"
proof -
  assume "insert_queue db ci mid dir qos retain stored state = Some db'"
  then obtain cx db1 m cx1 n n12 where s: "get_ctx ci db = Some cx" "add_ref stored 1 db = Some db1" "append_msg m cx = Some cx1"
    "db' = put_ctx ci (cx1\<lparr>cx_msg_count := n, cx_msg_count12 := n12\<rparr>) db1"
    by (auto simp: insert_queue_def bind_eq_Some_conv)
  have "still cx (cx1\<lparr>cx_msg_count := n, cx_msg_count12 := n12\<rparr>)" using append_msg_still [OF s(3)] by (simp add: still_def)
  then show ?thesis using db_still_trans [OF add_ref_still [OF s(2)] db_still_put] s(1,4) add_ref_ctx [OF s(2)] by simp
qed

lemma heap_allocs_still: "(db_allocs db = [] \<longrightarrow> al = []) \<Longrightarrow> db_still db (db\<lparr>db_allocs := al, db_heap := h\<rparr>)"
  by (simp add: db_still_def get_ctx_def)

lemma record_dest_still: "record_dest db ci stored = Some (b, db') \<Longrightarrow> db_still db db'"
proof -
  assume r: "record_dest db ci stored = Some (b, db')"
  obtain b1 db1 where a1: "db_alloc db = (b1, db1)" by fastforce
  obtain b2 db2 where a2: "db_alloc db1 = (b2, db2)" by fastforce
  have "db' = db1 \<or> (\<exists>h. db' = db2\<lparr>db_heap := h\<rparr>)" using r a1 a2 by (auto simp: record_dest_def bind_eq_Some_conv split: bool.splits)
  moreover have "db_still db db1" "db_still db db2" using alloc_still [OF a1] alloc_still [OF a2] db_still_trans by blast+
  ultimately show ?thesis using db_still_trans db_still_upd(1) by metis
qed

lemma wakeup_still: "still cx (bridge_wakeup cx)"
  by (auto simp: bridge_wakeup_def still_def split: option.splits)

lemma message_insert_still:
  assumes ins: "mqtt3_db_message_insert db ci mid dir qos retain stored = Some (rc, db')"
  shows "db_still db db'"
proof -
  obtain cx st sent where s: "get_ctx ci db = Some cx" "db_heap db stored = Some st" "already_sent db cx dir retain st = Some sent"
    using ins by (auto simp: mqtt3_db_message_insert_def bind_eq_Some_conv)
  let ?off = "c_sock (cx_mosq cx) = INVALID_SOCKET \<and> qos = 0 \<and> \<not> cf_queue_qos0_messages (db_config db)
      \<and> (case cx_bridge cx of None \<Rightarrow> True | Some b \<Rightarrow> \<not> br_lazy b)"
  show ?thesis
  proof (cases "sent \<or> ?off \<or> insert_state db cx dir qos = Is_refuse")
    case True
    then show ?thesis using ins s by (auto simp: mqtt3_db_message_insert_def split: if_splits)
  next
    case False
    show ?thesis
    proof (cases "insert_state db cx dir qos")
      case Is_drop
      have "db_still db (put_ctx ci (cx\<lparr>cx_is_dropping := True\<rparr>) db)" by (rule db_still_put [OF s(1)]) simp
      then show ?thesis using ins s False Is_drop db_still_trans [OF _ db_still_upd(3)] by (auto simp: mqtt3_db_message_insert_def split: if_splits)
    next
      case (Is_state state r)
      define db1 where "db1 = (if state = mosq_ms_queued then db\<lparr>db_persistence_changes := db_persistence_changes db + 1\<rparr> else db)"
      obtain b db2 where al: "db_alloc db1 = (b, db2)" by fastforce
      have 2: "db_still db db2" using alloc_still [OF al] db_still_trans [of db db1 db2] by (simp add: db1_def)
      show ?thesis
      proof (cases b)
        case no: False
        then show ?thesis using ins s False Is_state al 2 by (auto simp: mqtt3_db_message_insert_def Let_def split: if_splits simp flip: db1_def)
      next
        case True
        obtain db3 where q: "insert_queue db2 ci mid dir qos retain stored state = Some db3"
          using ins s False Is_state al True
          by (auto simp: mqtt3_db_message_insert_def Let_def bind_eq_Some_conv split: if_splits simp flip: db1_def)
        obtain b4 db4 where d: "(if \<not> cf_allow_duplicate_messages (db_config db3) \<and> dir = mosq_md_out \<and> \<not> retain
            then record_dest db3 ci stored else Some (True, db3)) = Some (b4, db4)"
          and db': "db' = db4 \<or> (\<exists>cx4. get_ctx ci db4 = Some cx4 \<and> db' = put_ctx ci (bridge_wakeup cx4) db4)"
          using ins s False Is_state al True q
          by (auto simp: mqtt3_db_message_insert_def Let_def bind_eq_Some_conv split: if_splits simp flip: db1_def)
        have "db_still db3 db4" using record_dest_still d by (auto split: if_splits)
        then have "db_still db db4" using 2 insert_queue_still [OF q] db_still_trans by blast
        then show ?thesis using db' db_still_put wakeup_still db_still_trans by blast
      qed
    qed (use False in simp)
  qed
qed

lemma message_store_still:
  assumes "mqtt3_db_message_store db source mid topic qos payloadlen payload retain store_id = Some (rc, stored, db')"
  shows "db_still db db'"
proof -
  have new: "db_still d (snd (new_store d src mid topic qos payloadlen p retain store_id))" for d src p
    by (simp add: new_store_def Let_def db_still_def get_ctx_def)
  obtain b1 db1 where a1: "db_alloc db = (b1, db1)" by fastforce
  obtain b2 db2 where a2: "db_alloc db1 = (b2, db2)" by fastforce
  obtain b3 db3 where a3: "(if topic = None then (True, db2) else db_alloc db2) = (b3, db3)" by fastforce
  obtain b4 db4 where a4: "(if payloadlen = 0 then (True, db3) else db_alloc db3) = (b4, db4)" by fastforce
  have s: "db_still db db1" "db_still db db2" using alloc_still [OF a1] alloc_still [OF a2] db_still_trans by blast+
  have s3: "db_still db db3" using s(2) a3 alloc_still db_still_trans by (auto split: if_splits)
  have s4: "db_still db db4" using s3 a4 alloc_still db_still_trans by (auto split: if_splits)
  have "db' \<in> {db1, db2, db3, db4} \<or> (\<exists>src p. db' = snd (new_store db4 src mid topic qos payloadlen p retain store_id))"
  proof (cases "b1 \<and> b2 \<and> b3 \<and> b4")
    case True
    have eq: "mqtt3_db_message_store db source mid topic qos payloadlen payload retain store_id =
      do {
        payload \<leftarrow> (if payloadlen = 0 then Some None
          else do { p \<leftarrow> payload; if unat payloadlen \<le> length p then Some (Some (take (unat payloadlen) p)) else None });
        let (r, db) = new_store db4 (case source of None \<Rightarrow> '''' | Some s \<Rightarrow> s) mid topic qos payloadlen payload retain store_id;
        Some (MOSQ_ERR_SUCCESS, Some r, db)
      }"
      using True a1 a2 a3 a4 by (simp add: mqtt3_db_message_store_def)
    show ?thesis using assms unfolding eq by (auto simp: bind_eq_Some_conv case_prod_unfold Let_def)
  next
    case False
    then show ?thesis using assms a1 a2 a3 a4 unfolding mqtt3_db_message_store_def by (auto split: bool.splits)
  qed
  then show ?thesis using s s3 s4 new db_still_trans by blast
qed

lemma release_refs_still: "release_refs ms db = Some db' \<Longrightarrow> db_still db db' \<and> (\<forall>ci. get_ctx ci db' = get_ctx ci db)"
proof (induction ms arbitrary: db)
  case (Cons m ms)
  then obtain db1 where a: "add_ref (cm_store m) (-1) db = Some db1" "release_refs ms db1 = Some db'" by (auto simp: bind_eq_Some_conv)
  then show ?case using Cons.IH [OF a(2)] add_ref_still [OF a(1)] add_ref_ctx [OF a(1)] db_still_trans by auto
qed simp

lemma messages_delete_still: "mqtt3_db_messages_delete db ci = Some (rc, db') \<Longrightarrow> db_still db db'"
proof -
  assume "mqtt3_db_messages_delete db ci = Some (rc, db')"
  then obtain cx db1 cx' where s: "get_ctx ci db = Some cx" "release_refs (cx_msgs cx) db = Some db1" "db' = put_ctx ci cx' db1"
    "cx' = cx\<lparr>cx_msgs := [], cx_last_msg := Last_null, cx_msg_count := 0, cx_msg_count12 := 0\<rparr>"
    by (auto simp: mqtt3_db_messages_delete_def bind_eq_Some_conv)
  have "still cx cx'" by (simp add: s(4) still_def)
  then show ?thesis using s(1,3) release_refs_still [OF s(2)] db_still_trans db_still_put by metis
qed

lemma db_reset_loop_still: "db_reset_loop ci n k db = Some db' \<Longrightarrow> db_still db db'"
proof (induction n arbitrary: k db)
  case (Suc n)
  obtain cx where cx: "get_ctx ci db = Some cx" using Suc.prems by (auto simp: bind_eq_Some_conv)
  define cx1 where "cx1 = cx\<lparr>cx_last_msg := Last_at k, cx_msg_count := cx_msg_count cx + 1,
    cx_msg_count12 := (if cm_qos (cx_msgs cx ! k) > 0 then cx_msg_count12 cx + 1 else cx_msg_count12 cx)\<rparr>"
  have 1: "db_still db (put_ctx ci cx1 db)" by (rule db_still_put [OF cx]) (simp add: cx1_def still_def)
  have "db' = db \<or> db_reset_loop ci n (k + 1) (set_msg ci k reset_state (put_ctx ci cx1 db)) = Some db'
      \<or> (\<exists>db2. message_remove ci k (put_ctx ci cx1 db) = Some db2 \<and> db_reset_loop ci n (k + 1) db2 = Some db')
      \<or> db_reset_loop ci n (k + 1) (put_ctx ci cx1 db) = Some db'"
    using Suc.prems cx unfolding cx1_def by (auto simp: Let_def bind_eq_Some_conv split: if_splits)
  then show ?case using 1 Suc.IH message_remove_still set_msg_still db_still_trans db_still_refl by metis
qed simp

lemma reconnect_reset_still: "mqtt3_db_message_reconnect_reset db ci = Some (rc, db') \<Longrightarrow> db_still db db'"
proof -
  assume r: "mqtt3_db_message_reconnect_reset db ci = Some (rc, db')"
  obtain cx db1 cx1 where s: "get_ctx ci db = Some cx" "db_reset_loop ci (length (cx_msgs cx)) 0 (put_ctx ci (cx\<lparr>cx_msg_count := 0, cx_msg_count12 := 0\<rparr>) db) = Some db1"
    "get_ctx ci db1 = Some cx1" "db' = put_ctx ci (cx1\<lparr>cx_msgs := start_queued (db_max_inflight db1) 0 (cx_msgs cx1)\<rparr>) db1"
    using r by (auto simp: mqtt3_db_message_reconnect_reset_def bind_eq_Some_conv Let_def)
  have "db_still db (put_ctx ci (cx\<lparr>cx_msg_count := 0, cx_msg_count12 := 0\<rparr>) db)" by (rule db_still_put [OF s(1)]) (simp add: still_def)
  moreover have "db_still db1 db'" unfolding s(4) by (rule db_still_put [OF s(3)]) simp
  ultimately show ?thesis using db_reset_loop_still [OF s(2)] db_still_trans by blast
qed

lemma timeout_check_still: "db_still db (snd (mqtt3_db_message_timeout_check db timeout))"
proof -
  let ?cs = "timeout_contexts (db_now db) (db_now db - uint timeout) (db_contexts db) mosq_ms_invalid"
  have l: "list_all2 same_queue (db_contexts db) ?cs" by (rule timeout_contexts_same)
  have "rel_option still (get_ctx ci db) (get_ctx ci (db\<lparr>db_contexts := ?cs\<rparr>))" for ci
  proof -
    have "same_queue (db_contexts db ! ci) (?cs ! ci)" if "ci < length (db_contexts db)" using l that by (simp add: list_all2_conv_all_nth)
    then show ?thesis using list_all2_lengthD [OF l] by (auto simp: get_ctx_def same_queue_def split: option.splits)
  qed
  then show ?thesis using list_all2_lengthD [OF l] by (simp add: mqtt3_db_message_timeout_check_def db_still_def)
qed

lemma store_clean_still: "mqtt3_db_store_clean db = Some db' \<Longrightarrow> db_still db db'"
proof -
  have loop: "store_clean_loop rs d = Some (rs', d') \<Longrightarrow> db_still d d'" for rs rs' d d'
  proof (induction rs arbitrary: d rs')
    case (Cons r rs)
    have "db_still d (d\<lparr>db_heap := h, db_msg_store_count := n\<rparr>)" for h n using db_still_trans db_still_upd(1,8) by blast
    then show ?case using Cons db_still_trans by (fastforce simp: bind_eq_Some_conv split: if_splits)
  qed simp
  assume "mqtt3_db_store_clean db = Some db'"
  then obtain rs db1 where "store_clean_loop (db_msg_store db) db = Some (rs, db1)" "db' = db1\<lparr>db_msg_store := rs\<rparr>"
    by (auto simp: mqtt3_db_store_clean_def bind_eq_Some_conv)
  then show ?thesis using loop db_still_upd(7) db_still_trans by blast
qed

section \<open>Sending\<close>

lemma write_closed: "\<lbrakk>c_sock m = INVALID_SOCKET; mosquitto_packet_write app m = Some (rc, m')\<rbrakk> \<Longrightarrow> c_sock m' = INVALID_SOCKET"
  by (auto simp: mosquitto_packet_write_def)

lemma queue_closed: "\<lbrakk>c_sock m = INVALID_SOCKET; mosquitto_packet_queue app m p = Some (rc, m')\<rbrakk> \<Longrightarrow> c_sock m' = INVALID_SOCKET"
  by (auto simp: mosquitto_packet_queue_def Let_def split: if_splits dest!: write_closed [rotated])

lemma alloc_closed: "mosq_alloc m = (b, m') \<Longrightarrow> c_sock m' = c_sock m" "packet_alloc_in m p = (rc, p', m') \<Longrightarrow> c_sock m' = c_sock m"
  by (auto simp: mosq_alloc_def packet_alloc_in_def split: prod.splits)

text \<open>A function on the client side that keeps who the client is.\<close>

definition quiet_send :: "(unit mosq \<Rightarrow> (int \<times> unit mosq) option) \<Rightarrow> bool" where
  "quiet_send f \<longleftrightarrow> (\<forall>m rc m'. f m = Some (rc, m') \<longrightarrow> who m' = who m \<and> (c_sock m = INVALID_SOCKET \<longrightarrow> c_sock m' = INVALID_SOCKET))"

lemma ctx_send_still: "\<lbrakk>ctx_send ci f db = Some (rc, db'); quiet_send f\<rbrakk> \<Longrightarrow> db_still db db'"
  by (auto simp: ctx_send_def bind_eq_Some_conv quiet_send_def intro!: db_still_put) (simp add: still_def)

lemma quiet_command: "quiet_send (\<lambda>m. mosquitto_send_command_with_mid broker_app m c mid dup)"
  unfolding quiet_send_def
proof (intro allI impI conjI)
  fix m rc m' assume s: "mosquitto_send_command_with_mid broker_app m c mid dup = Some (rc, m')"
  show "who m' = who m" by (rule wv.keep_send_command_with_mid [OF broker_app_keeps s])
  assume "c_sock m = INVALID_SOCKET"
  then show "c_sock m' = INVALID_SOCKET" using s
    by (auto simp: mosquitto_send_command_with_mid_def Let_def bind_eq_Some_conv split: prod.splits bool.splits if_splits dest!: alloc_closed queue_closed [rotated])
qed

lemmas quiet_acks = quiet_command [of PUBREC _ False, folded mosquitto_send_pubrec_def] quiet_command [of PUBACK _ False, folded mosquitto_send_puback_def]
  quiet_command [of PUBCOMP _ False, folded mosquitto_send_pubcomp_def] quiet_command [of "PUBREL OR 2", folded mosquitto_send_pubrel_def]

lemma who_allocs [simp]: "who (m\<lparr>e_allocs := al\<rparr>) = who m"
  by (simp add: who_def)

lemma quiet_real_publish: "quiet_send (\<lambda>m. mosquitto_send_real_publish broker_app m mid topic pl p qos retain dup)"
  unfolding quiet_send_def
proof (intro allI impI conjI)
  fix m rc m' assume s: "mosquitto_send_real_publish broker_app m mid topic pl p qos retain dup = Some (rc, m')"
  show "who m' = who m" by (rule wv.keep_send_real_publish [OF broker_app_keeps s])
  assume "c_sock m = INVALID_SOCKET"
  then show "c_sock m' = INVALID_SOCKET" using s
    by (auto simp: mosquitto_send_real_publish_def Let_def bind_eq_Some_conv split: prod.splits bool.splits if_splits dest!: alloc_closed queue_closed [rotated])
qed

lemma quiet_publish: "quiet_send (\<lambda>m. broker_send_publish cx mount m mid topic pl p qos retain dup)"
  unfolding quiet_send_def
proof (intro allI impI)
  fix m rc m' assume s: "broker_send_publish cx mount m mid topic pl p qos retain dup = Some (rc, m')"
  have r: "\<exists>al. m1 = m\<lparr>e_allocs := al\<rparr>" if "remap_out cx t m = (x, m1)" for t x m1
    using that by (auto simp: remap_out_def split: option.splits if_splits prod.splits intro: exI [of _ "e_allocs m"])
  have "m' = m \<or> (\<exists>al. m' = m\<lparr>e_allocs := al\<rparr> \<or> (\<exists>t. mosquitto_send_real_publish broker_app (m\<lparr>e_allocs := al\<rparr>) mid t pl p qos retain dup = Some (rc, m')))"
    using s by (auto simp: broker_send_publish_def split: option.splits if_splits prod.splits sum.splits dest!: r)
  then show "who m' = who m \<and> (c_sock m = INVALID_SOCKET \<longrightarrow> c_sock m' = INVALID_SOCKET)"
  proof (elim disjE exE)
    fix al t assume "mosquitto_send_real_publish broker_app (m\<lparr>e_allocs := al\<rparr>) mid t pl p qos retain dup = Some (rc, m')"
    then show ?thesis using quiet_real_publish unfolding quiet_send_def by fastforce
  qed simp_all
qed

lemma write_msg_still: "write_msg ci k msg db = Some (rc, res, db') \<Longrightarrow> db_still db db'"
  by (auto simp: write_msg_def Let_def bind_eq_Some_conv split: if_splits
      dest!: ctx_send_still [OF _ quiet_publish] ctx_send_still [OF _ quiet_acks(1)] ctx_send_still [OF _ quiet_acks(3)] ctx_send_still [OF _ quiet_acks(4)])

interpretation fw: writing_rel db_still
proof unfold_locales
  show "db_still a c" if "db_still a b" "db_still b c" for a b c using that by (rule db_still_trans)
  show "db_still db (set_msg ci k (\<lambda>_. m) db')" if "write_msg ci k (cx_msgs cx ! k) db = Some (rc, Some m, db')" for ci k cx db rc m db'
    by (rule db_still_trans [OF write_msg_still [OF that] set_msg_still])
qed (simp_all add: write_msg_still message_remove_still)

lemmas message_write_still = fw.message_write_rel

section \<open>Routing\<close>

lemma ctx_mid_still: "ctx_mid ci db = Some (mid, db') \<Longrightarrow> db_still db db'"
proof -
  assume a: "ctx_mid ci db = Some (mid, db')"
  then obtain cx where cx: "get_ctx ci db = Some cx" by (auto simp: ctx_mid_def bind_eq_Some_conv)
  obtain n where "mosquitto_mid_generate (cx_mosq cx) = (n, (cx_mosq cx)\<lparr>c_last_mid := n\<rparr>)" using mid_generate_kept by blast
  then have "db' = put_ctx ci (cx\<lparr>cx_mosq := (cx_mosq cx)\<lparr>c_last_mid := n\<rparr>\<rparr>) db" using a cx by (auto simp: ctx_mid_def)
  then show ?thesis using db_still_put [OF cx] by (simp add: still_def)
qed

lemma acl_pattern_loop_still: "acl_pattern_loop m topic access pats result db = Some (rc, db') \<Longrightarrow> db_still db db'"
proof (induction pats arbitrary: result db)
  case (Cons p pats)
  obtain b db1 where al: "db_alloc db = (b, db1)" by fastforce
  have "db' = db1 \<or> (\<exists>res. acl_pattern_loop m topic access pats res db1 = Some (rc, db'))"
    using Cons.prems al by (cases p) (auto simp: bind_eq_Some_conv Let_def split: bool.splits if_splits)
  then show ?case using Cons.IH alloc_still [OF al] db_still_trans by blast
qed simp

lemma acl_check_still: "mosquitto_acl_check db ci topic access = Some (rc, db') \<Longrightarrow> db_still db db'"
  unfolding mosquitto_acl_check_def mosquitto_acl_check_default_def
  by (auto simp: bind_eq_Some_conv split: option.splits if_splits dest!: acl_pattern_loop_still)

interpretation fr: routing_rel db_still
proof unfold_locales
  show "db_still a c" if "db_still a b" "db_still b c" for a b c using that by (rule db_still_trans)
qed (simp_all add: acl_check_still ctx_mid_still message_insert_still)

lemma set_retained_still: "set_retained pb old db = Some (ret, db') \<Longrightarrow> db_still db db'"
proof -
  assume s: "set_retained pb old db = Some (ret, db')"
  define db1 where "db1 = (if take 4 (pb_topic pb) \<noteq> ''$SYS'' then db\<lparr>db_persistence_changes := db_persistence_changes db + 1\<rparr> else db)"
  have 1: "db_still db db1" by (simp add: db1_def)
  obtain db2 where o: "(case old of None \<Rightarrow> Some db1
      | Some r \<Rightarrow> do { db \<leftarrow> add_ref r (-1) db1; Some (db\<lparr>db_retained_count := db_retained_count db - 1\<rparr>) }) = Some db2"
    and n: "db' = db2 \<or> (\<exists>db3 n. add_ref (pb_stored pb) 1 db2 = Some db3 \<and> db' = db3\<lparr>db_retained_count := n\<rparr>)"
    using s unfolding set_retained_def Let_def db1_def [symmetric] by (auto simp: bind_eq_Some_conv split: if_splits)
  have "db_still db1 db2" using o add_ref_still db_still_upd(4) db_still_trans by (fastforce simp: bind_eq_Some_conv split: option.splits)
  then have "db_still db db2" using 1 db_still_trans by blast
  then show ?thesis using n add_ref_still db_still_upd(4) db_still_trans by metis
qed

lemma subs_process_still: "subs_process pb h sr db = Some (rc, h', db') \<Longrightarrow> db_still db db'"
proof (cases h)
  case (Subhier t subs ret ch)
  assume "subs_process pb h sr db = Some (rc, h', db')"
  then obtain ret' db1 where r: "(if pb_retain pb \<and> sr then set_retained pb ret db else Some (ret, db)) = Some (ret', db1)"
    "(if pb_source pb = None then Some (0, db1) else process_leaves pb subs 0 db1) = Some (rc, db')"
    by (auto simp: subs_process_def bind_eq_Some_conv Subhier)
  have "db_still db db1" using r(1) set_retained_still by (auto split: if_splits)
  moreover have "db_still db1 db'" using r(2) fr.process_leaves_rel by (auto split: if_splits)
  ultimately show ?thesis by (rule db_still_trans)
qed

lemma sub_search_still: "sub_search pb bs toks sr db = Some (bs', db') \<Longrightarrow> db_still db db'"
proof (induction bs arbitrary: toks sr db bs' db' rule: tree_retained.induct)
  case (2 t subs ret ch bs)
  define step where "step =
     (if toks \<noteq> [] \<and> (t = hd toks \<or> t = [PLUS]) then
        do {
          (ch, db) \<leftarrow> sub_search pb ch (tl toks) (t \<noteq> [PLUS] \<and> sr) db;
          if tl toks = []
          then do { (rc, b, db) \<leftarrow> subs_process pb (Subhier t subs ret ch) (t \<noteq> [PLUS] \<and> sr) db; Some (b, db) }
          else Some (Subhier t subs ret ch, db)
        }
      else if t = [HASH] \<and> ch = [] then do { (rc, b, db) \<leftarrow> subs_process pb (Subhier t subs ret ch) False db; Some (b, db) }
      else Some (Subhier t subs ret ch, db))"
  have eq: "sub_search pb (Subhier t subs ret ch # bs) toks sr db = do { (b, db) \<leftarrow> step; (bs, db) \<leftarrow> sub_search pb bs toks sr db; Some (b # bs, db) }"
    by (simp add: step_def Let_def)
  obtain h' db1 bs1 where s: "step = Some (h', db1)" and r: "sub_search pb bs toks sr db1 = Some (bs1, db')"
    using "2.prems" unfolding eq by (auto simp: bind_eq_Some_conv)
  have "(\<exists>ch1 db2 sr'. sub_search pb ch (tl toks) sr' db = Some (ch1, db2) \<and> (db1 = db2 \<or> (\<exists>h sr rc. subs_process pb h sr db2 = Some (rc, h', db1))))
      \<or> (\<exists>h sr rc. subs_process pb h sr db = Some (rc, h', db1)) \<or> db1 = db"
    using s unfolding step_def by (auto simp: bind_eq_Some_conv split: if_splits) blast+
  then have "db_still db db1" using "2.IH"(1) subs_process_still db_still_trans by blast
  then show ?case using "2.IH"(2) [OF r] by (rule db_still_trans)
qed simp

lemma tree_add_still: "sub_add db co qos h toks = Some (rc, h', db') \<Longrightarrow> db_still db db'"
  using sub_add_frame(1) db_still_sub_only by blast

lemma queue_roots_still: "queue_roots pb hs toks db = Some (hs', db') \<Longrightarrow> db_still db db'"
proof (induction hs arbitrary: db hs' db')
  case (Cons h hs)
  obtain h1 db1 hs1 where s: "(if sh_topic h = hd toks then
            do {
              (rc, h, db) \<leftarrow> (if pb_retain pb then sub_add db None 0 h toks else Some (0, h, db));
              (ch, db) \<leftarrow> sub_search pb (sh_children h) toks True db;
              Some (Subhier (sh_topic h) (sh_subs h) (sh_retained h) ch, db)
            }
          else Some (h, db)) = Some (h1, db1)" "queue_roots pb hs toks db1 = Some (hs1, db')"
    using Cons.prems by (auto simp: bind_eq_Some_conv)
  have "db1 = db \<or> (\<exists>db2 h2 ch. (db2 = db \<or> (\<exists>rc. sub_add db None 0 h toks = Some (rc, h2, db2))) \<and> sub_search pb (sh_children h2) toks True db2 = Some (ch, db1))"
    using s(1) by (auto simp: bind_eq_Some_conv split: if_splits)
  then have "db_still db db1" using sub_search_still tree_add_still db_still_trans db_still_refl by metis
  then show ?case using Cons.IH [OF s(2)] by (rule db_still_trans)
qed simp

lemma tokenise_still: "sub_topic_tokenise topic db = (toks, db') \<Longrightarrow> db_still db db'"
  by (rule db_still_sub_only [OF sub_topic_tokenise_any(1)])

lemma messages_queue_still: "mqtt3_db_messages_queue db source topic qos retain stored = Some (rc, db') \<Longrightarrow> db_still db db'"
proof -
  assume a: "mqtt3_db_messages_queue db source topic qos retain stored = Some (rc, db')"
  obtain toks db1 where t: "sub_topic_tokenise topic db = (toks, db1)" by fastforce
  have "db' = db1 \<or> (\<exists>pb toks hs db2. queue_roots pb (db_subs db1) toks db1 = Some (hs, db2) \<and> db' = db2\<lparr>db_subs := hs\<rparr>)"
    using a t by (auto simp: mqtt3_db_messages_queue_def bind_eq_Some_conv split: option.splits)
  then show ?thesis using tokenise_still [OF t] queue_roots_still db_still_upd(6) db_still_trans by metis
qed

lemma retain_queue_still: "mqtt3_retain_queue db ci sub q = Some (rc, db') \<Longrightarrow> db_still db db'"
proof -
  assume a: "mqtt3_retain_queue db ci sub q = Some (rc, db')"
  obtain toks db1 where t: "sub_topic_tokenise sub db = (toks, db1)" by fastforce
  then show ?thesis using a tokenise_still [OF t] fr.retain_roots_rel db_still_trans
    by (auto simp: mqtt3_retain_queue_def bind_eq_Some_conv split: option.splits)
qed

lemma easy_queue_still: "mqtt3_db_messages_easy_queue db co topic qos payloadlen payload retain = Some (rc, db') \<Longrightarrow> db_still db db'"
proof (cases topic)
  case (Some t)
  assume "mqtt3_db_messages_easy_queue db co topic qos payloadlen payload retain = Some (rc, db')"
  then obtain src rc1 stored db1 where s: "mqtt3_db_message_store db src 0 (Some t) qos payloadlen payload retain 0 = Some (rc1, stored, db1)"
    and r: "db' = db1 \<or> (\<exists>r. mqtt3_db_messages_queue db1 src t qos retain r = Some (rc, db'))"
    using Some by (auto simp: mqtt3_db_messages_easy_queue_def bind_eq_Some_conv split: if_splits) blast
  then show ?thesis using message_store_still [OF s] messages_queue_still db_still_trans by blast
qed (simp add: mqtt3_db_messages_easy_queue_def)

lemma release_start_still: "release_start ci k msg i db = Some db' \<Longrightarrow> db_still db db'"
  by (auto simp: release_start_def bind_eq_Some_conv intro: db_still_trans [OF ctx_send_still [OF _ quiet_acks(1)] set_msg_still] split: if_splits)

lemma release_route_still: "release_route msg db = Some (rc, db') \<Longrightarrow> db_still db db'"
  by (auto simp: release_route_def bind_eq_Some_conv dest: messages_queue_still split: option.splits)

interpretation fl: release_rel db_still
proof unfold_locales
  show "db_still a c" if "db_still a b" "db_still b c" for a b c using that by (rule db_still_trans)
qed (simp_all add: release_start_still release_route_still message_remove_still)

lemmas message_release_still = fl.message_release_rel

section \<open>Subscriptions\<close>

lemma sub_only_subs_still: "sub_only db db' \<Longrightarrow> db_still db (db'\<lparr>db_subs := hs\<rparr>)"
  by (rule db_still_trans [OF db_still_sub_only db_still_upd(6)])

lemma sub_remove_still: "tree_ok (db_subs db) \<Longrightarrow> db_still db (snd (mqtt3_sub_remove db ci sub))"
proof -
  assume ok: "tree_ok (db_subs db)"
  obtain toks db1 where t: "sub_topic_tokenise sub db = (toks, db1)" by fastforce
  have so: "sub_only db db1" by (rule sub_topic_tokenise_any(1) [OF t])
  show ?thesis
  proof (cases toks)
    case None
    then show ?thesis using t db_still_sub_only [OF so] by (simp add: mqtt3_sub_remove_def)
  next
    case (Some toks')
    have "tree_ok (db_subs db1)" "toks' \<noteq> []" using ok sub_only_ids(4) [OF so] sub_topic_tokenise_any(2) [OF t] Some by auto
    then obtain hs db2 where r: "root_remove ci (db_subs db1) toks' db1 = (hs, db2)" "del_frame db1 (db_subs db1) hs db2" using root_remove_spec by blast
    then show ?thesis using sub_only_subs_still [of db db2] sub_only_trans [OF so] t Some by (simp add: mqtt3_sub_remove_def del_frame_def)
  qed
qed

lemma clean_session_still: "tree_ok (db_subs db) \<Longrightarrow> db_still db (snd (mqtt3_subs_clean_session db ci))"
  using clean_roots_spec [of "db_subs db" ci db] sub_only_subs_still by (fastforce simp: mqtt3_subs_clean_session_def del_frame_def)

lemma sub_add_still: "mqtt3_sub_add db ci sub qos = Some (rc, db') \<Longrightarrow> db_still db db'"
proof -
  assume a: "mqtt3_sub_add db ci sub qos = Some (rc, db')"
  obtain toks db1 where t: "sub_topic_tokenise sub db = (toks, db1)" by fastforce
  note s1 = tokenise_still [OF t]
  show ?thesis
  proof (cases toks)
    case None
    then show ?thesis using a t s1 by (simp add: mqtt3_sub_add_def)
  next
    case (Some toks')
    show ?thesis
    proof (cases "root_add db1 ci qos (db_subs db1) (hd toks') (tl toks')")
      case None
      obtain b db2 where n: "new_token db1 = (b, db2)" by fastforce
      have s2: "db_still db db2" using s1 db_still_sub_only [OF new_token_sub_only [OF n]] by (rule db_still_trans)
      have "db' = db2 \<or> (\<exists>rc1 h db3. sub_add db2 (Some ci) qos (Subhier (hd toks') [] None []) toks' = Some (rc1, h, db3) \<and> db' = db3\<lparr>db_subs := [h]\<rparr>)"
        using a t Some None n by (auto simp: mqtt3_sub_add_def bind_eq_Some_conv split: bool.splits)
      then show ?thesis using s2 tree_add_still db_still_upd(6) db_still_trans by metis
    next
      case r: (Some res)
      then obtain rc1 hs db2 where h: "root_add db1 ci qos (db_subs db1) (hd toks') (tl toks') = Some (Some (rc1, hs, db2))" "db' = db2\<lparr>db_subs := hs\<rparr>"
        using a t Some by (auto simp: mqtt3_sub_add_def bind_eq_Some_conv)
      then show ?thesis using db_still_trans [OF s1 sub_only_subs_still] root_add_frame [OF h(1)] by simp
    qed
  qed
qed

end
