(* ===== verification/Broker_Live.thy ===== *)
theory Broker_Live
  imports Broker_Frame
begin

text \<open>
  The broker as a whole. A round of the main loop keeps the invariant of the message store and of the subscriptions, whatever the
  clients send: only a client with a name can subscribe, a freed context is in no subscription, and a client that takes over a
  session gets its queue. When memory does not run out, no two contexts have the same name, and the table of ids knows each of them.
\<close>

section \<open>The invariant of the clients\<close>

text \<open>
  A client with an open socket has a name, or it is new and the packet that it sends is a CONNECT.
\<close>

definition ctx_live :: "ctx \<Rightarrow> bool" where
  "ctx_live cx \<longleftrightarrow> c_sock (cx_mosq cx) = -1
     \<or> (if c_state (cx_mosq cx) = mosq_cs_new
        then c_id (cx_mosq cx) = None \<and> (pk_command (c_in_packet (cx_mosq cx)) = 0 \<or> pk_command (c_in_packet (cx_mosq cx)) AND 0xF0 = CONNECT)
        else c_id (cx_mosq cx) \<noteq> None)"

text \<open>The table of ids and the contexts outside \<open>Y\<close> agree.\<close>

definition hash_inv :: "nat set \<Rightarrow> db \<Rightarrow> bool" where
  "hash_inv Y db \<longleftrightarrow> distinct (map fst (db_clientid_index_hash db))
     \<and> (\<forall>(cid, i) \<in> set (db_clientid_index_hash db). i \<notin> Y \<and> ctx_id db i = Some cid)
     \<and> (\<forall>i cid. i \<notin> Y \<longrightarrow> ctx_id db i = Some cid \<longrightarrow> (cid, i) \<in> set (db_clientid_index_hash db))"

text \<open>
  The invariant, for a broker without bridges. In the middle of a CONNECT the contexts of \<open>X\<close> need not be live, and those of
  \<open>Y\<close> may have lost their names. With \<open>b\<close>, memory does not run out.
\<close>

definition core :: "nat set \<Rightarrow> nat set \<Rightarrow> db \<Rightarrow> bool" where
  "core X Y db \<longleftrightarrow> (\<forall>ci cx. get_ctx ci db = Some cx \<longrightarrow> cx_bridge cx = None \<and> (ci \<notin> X \<longrightarrow> ctx_live cx))
     \<and> tree_ok (db_subs db) \<and> (\<forall>ci \<in> tree_clients (db_subs db) - Y. ctx_id db ci \<noteq> None)
     \<and> (\<exists>L. store_inv db (tree_refs (db_subs db) + L))"

definition good :: "nat set \<Rightarrow> nat set \<Rightarrow> bool \<Rightarrow> db \<Rightarrow> bool" where
  "good X Y b db \<longleftrightarrow> core X Y db \<and> (b \<longrightarrow> db_allocs db = [] \<and> hash_inv Y db)"

lemma good_inv: "good X {} b db \<Longrightarrow> broker_inv db"
  by (simp add: good_def core_def broker_inv_def tree_safe_def)

lemma good_mono: "\<lbrakk>good X Y b db; X \<subseteq> X'\<rbrakk> \<Longrightarrow> good X' Y b db"
  unfolding good_def core_def by blast

section \<open>Steps that keep the names\<close>

definition follows :: "ctx \<Rightarrow> ctx \<Rightarrow> bool" where
  "follows cx cx' \<longleftrightarrow> c_id (cx_mosq cx') = c_id (cx_mosq cx) \<and> (cx_bridge cx = None \<longrightarrow> cx_bridge cx' = None) \<and> (ctx_live cx \<longrightarrow> ctx_live cx')"

definition calm :: "db \<Rightarrow> db \<Rightarrow> bool" where
  "calm db db' \<longleftrightarrow> (\<forall>ci. rel_option follows (get_ctx ci db) (get_ctx ci db'))
     \<and> db_clientid_index_hash db' = db_clientid_index_hash db \<and> (db_allocs db = [] \<longrightarrow> db_allocs db' = [])"

definition act :: "db \<Rightarrow> db \<Rightarrow> bool" where
  "act db db' \<longleftrightarrow> safe_step db db' \<and> calm db db'"

lemma follows_refl [simp]: "follows cx cx"
  by (simp add: follows_def)

lemma rel_follows_refl [simp]: "rel_option follows c c"
  by (cases c) simp_all

lemma rel_follows_trans: "\<lbrakk>rel_option follows x y; rel_option follows y z\<rbrakk> \<Longrightarrow> rel_option follows x z"
  by (rule transpD [OF option.rel_transp]) (auto simp: follows_def intro: transpI)

lemma calm_refl [simp]: "calm db db"
  by (simp add: calm_def)

lemma calm_trans: "\<lbrakk>calm a b; calm b c\<rbrakk> \<Longrightarrow> calm a c"
  unfolding calm_def using rel_follows_trans by metis

lemma act_refl [simp, intro]: "act db db"
  by (simp add: act_def)

lemma act_trans [trans]: "\<lbrakk>act a b; act b c\<rbrakk> \<Longrightarrow> act a c"
  using safe_step_trans calm_trans unfolding act_def by blast

lemma still_follows: "still cx cx' \<Longrightarrow> follows cx cx'"
  by (auto simp: still_def who_def follows_def ctx_live_def)

lemma still_act: "\<lbrakk>safe_step db db'; db_still db db'\<rbrakk> \<Longrightarrow> act db db'"
  unfolding act_def calm_def db_still_def using option.rel_mono_strong [of still _ _ follows] still_follows by blast

lemma calm_ids: "calm db db' \<Longrightarrow> ctx_id db' = ctx_id db"
proof
  fix ci assume "calm db db'"
  then have "rel_option follows (get_ctx ci db) (get_ctx ci db')" by (simp add: calm_def)
  then show "ctx_id db' ci = ctx_id db ci" by (cases "get_ctx ci db"; cases "get_ctx ci db'") (auto simp: ctx_id_def follows_def)
qed

lemma act_ids: "act db db' \<Longrightarrow> ctx_id db' = ctx_id db"
  by (simp add: act_def calm_ids)

lemma calm_hash: "calm db db' \<Longrightarrow> hash_inv Y db' = hash_inv Y db"
  using calm_ids [of db db'] unfolding hash_inv_def calm_def by simp

lemma calm_ctx: "\<lbrakk>calm db db'; get_ctx ci db' = Some cx'\<rbrakk> \<Longrightarrow> \<exists>cx. get_ctx ci db = Some cx \<and> follows cx cx'"
  unfolding calm_def by (metis option_rel_Some2)

lemma act_good:
  assumes "act db db'" "good X {} b db"
  shows "good X {} b db'"
proof -
  have c: "calm db db'" and i: "broker_inv db'" using assms good_inv by (auto simp: act_def safe_step_def)
  have "cx_bridge cx = None \<and> (ci \<notin> X \<longrightarrow> ctx_live cx)" if "get_ctx ci db' = Some cx" for ci cx
    using calm_ctx [OF c that] assms(2) by (auto simp: good_def core_def follows_def)
  moreover have "b \<longrightarrow> db_allocs db' = [] \<and> hash_inv {} db'" using assms(2) calm_hash [OF c] c by (auto simp: good_def calm_def)
  ultimately show ?thesis using i by (simp add: good_def core_def broker_inv_def tree_safe_def)
qed

text \<open>A context changes without its queue.\<close>

definition same_list :: "ctx \<Rightarrow> ctx \<Rightarrow> bool" where
  "same_list cx cx' \<longleftrightarrow> cx_msgs cx' = cx_msgs cx \<and> cx_last_msg cx' = cx_last_msg cx \<and> cx_msg_count cx' = cx_msg_count cx
     \<and> cx_msg_count12 cx' = cx_msg_count12 cx"

lemma same_list_ok: "\<lbrakk>same_list cx cx'; ctx_ok cx\<rbrakk> \<Longrightarrow> ctx_ok cx'"
  by (simp add: same_list_def ctx_ok_def last_ok_def)

lemma put_act:
  assumes cx: "get_ctx ci db = Some cx" and s: "same_list cx cx'" and f: "follows cx cx'"
  shows "act db (put_ctx ci cx' db)"
proof -
  have "keeps db M (put_ctx ci cx' db) M" for M
  proof -
    have "ctx_ok cx'" if "store_inv db M" using same_list_ok [OF s store_inv_ctx [OF that cx]] .
    then show ?thesis using put_same_inv [OF _ cx, of M cx'] s f by (simp add: keeps_def same_list_def follows_def)
  qed
  moreover have "calm db (put_ctx ci cx' db)" using cx f by (auto simp: calm_def get_put_ctx)
  ultimately show ?thesis by (simp add: act_def safe_step_keeps)
qed

lemma act_upd [simp]: "act db (db\<lparr>db_persistence_changes := n\<rparr>)"
  by (intro still_act safe_step_keeps) (simp_all add: keeps_def)

lemma act_alloc: "db_alloc db = (x, db') \<Longrightarrow> act db db'"
  by (intro still_act safe_step_keeps keeps_sub_only alloc_still sub_only_alloc)

lemma easy_queue_act: "mqtt3_db_messages_easy_queue db co topic q len p retain = Some (rc, db') \<Longrightarrow> act db db'"
  by (rule still_act [OF easy_queue_safe easy_queue_still])

lemma acl_act: "mosquitto_acl_check db ci topic access = Some (rc, db') \<Longrightarrow> act db db'"
  by (intro still_act safe_step_keeps) (auto dest: acl_check_keeps acl_check_still)

section \<open>Reading and sending\<close>

text \<open>What matters of the client side for \<open>ctx_live\<close>.\<close>

definition live_view :: "unit mosq \<Rightarrow> string option \<times> int \<times> client_state \<times> u8" where
  "live_view m = (c_id m, c_sock m, c_state m, pk_command (c_in_packet m))"

lemma live_view_live: "live_view m = live_view (cx_mosq cx) \<Longrightarrow> follows cx (cx\<lparr>cx_mosq := m\<rparr>)"
  by (auto simp: live_view_def follows_def ctx_live_def)

definition gentle :: "(unit mosq \<Rightarrow> (int \<times> unit mosq) option) \<Rightarrow> bool" where
  "gentle f \<longleftrightarrow> (\<forall>m rc m'. f m = Some (rc, m') \<longrightarrow> c_id m' = c_id m \<and> c_state m' = c_state m \<and> pk_command (c_in_packet m') = pk_command (c_in_packet m)
     \<and> (c_sock m = INVALID_SOCKET \<longrightarrow> c_sock m' = INVALID_SOCKET))"

lemma gentle_follows: "\<lbrakk>gentle f; f (cx_mosq cx) = Some (rc, m)\<rbrakk> \<Longrightarrow> follows cx (cx\<lparr>cx_mosq := m\<rparr>)"
proof -
  assume "gentle f" "f (cx_mosq cx) = Some (rc, m)"
  then have "c_id m = c_id (cx_mosq cx)" "c_state m = c_state (cx_mosq cx)" "pk_command (c_in_packet m) = pk_command (c_in_packet (cx_mosq cx))"
    "c_sock (cx_mosq cx) = INVALID_SOCKET \<longrightarrow> c_sock m = INVALID_SOCKET"
    unfolding gentle_def by blast+
  then show ?thesis by (auto simp: follows_def ctx_live_def)
qed

lemma quiet_gentle: "quiet_send f \<Longrightarrow> gentle f"
  unfolding quiet_send_def gentle_def who_def by fastforce

lemma ctx_send_act: "\<lbrakk>ctx_send ci f db = Some (rc, db'); gentle f\<rbrakk> \<Longrightarrow> act db db'"
  by (auto simp: ctx_send_def bind_eq_Some_conv same_list_def intro!: put_act gentle_follows)

definition reader :: "(unit mosq \<Rightarrow> (int \<times> 'a \<times> unit mosq) option) \<Rightarrow> bool" where
  "reader f \<longleftrightarrow> (\<forall>m rc v m'. f m = Some (rc, v, m') \<longrightarrow> live_view m' = live_view m)"

lemma ctx_read_act: "\<lbrakk>ctx_read ci f db = Some (rc, v, db'); reader f\<rbrakk> \<Longrightarrow> act db db'"
  by (auto simp: ctx_read_def bind_eq_Some_conv same_list_def reader_def intro!: put_act live_view_live)

lemma read_byte_command: "mosquitto_read_byte p = Some (rc, v, p') \<Longrightarrow> pk_command p' = pk_command p"
  by (auto simp: mosquitto_read_byte_def bind_eq_Some_conv split: if_splits option.splits)

lemma read_bytes_command: "mosquitto_read_bytes p n = Some (rc, v, p') \<Longrightarrow> pk_command p' = pk_command p"
  by (auto simp: mosquitto_read_bytes_def bind_eq_Some_conv split: if_splits option.splits)

lemma read_uint16_command: "mosquitto_read_uint16 p = Some (rc, v, p') \<Longrightarrow> pk_command p' = pk_command p"
  by (auto simp: mosquitto_read_uint16_def bind_eq_Some_conv split: if_splits option.splits)

lemma read_string_command: "mosquitto_read_string p al = Some (rc, v, p', al') \<Longrightarrow> pk_command p' = pk_command p"
  by (auto simp: mosquitto_read_string_def bind_eq_Some_conv dest!: read_uint16_command split: if_splits option.splits prod.splits bool.splits)

lemma readers [simp]: "reader in_read_byte" "reader in_read_uint16" "reader in_read_string" "reader (in_read_buffer n k)"
  unfolding reader_def
  by (auto simp: in_read_byte_def in_read_uint16_def in_read_string_def in_read_buffer_def mosq_alloc_def bind_eq_Some_conv live_view_def
      dest!: read_byte_command read_uint16_command read_string_command read_bytes_command split: prod.splits bool.splits)

lemmas read_acts = ctx_read_act [OF _ readers(1)] ctx_read_act [OF _ readers(2)] ctx_read_act [OF _ readers(3)] ctx_read_act [OF _ readers(4)]

lemma ctx_upd_act: "\<lbrakk>ctx_upd_mosq ci f db = Some db'; \<And>m. live_view (f m) = live_view m\<rbrakk> \<Longrightarrow> act db db'"
  by (auto simp: ctx_upd_mosq_def bind_eq_Some_conv same_list_def intro!: put_act live_view_live)

section \<open>The end of a connection\<close>

lemma listener_leave_still: "listener_leave l db = Some db' \<Longrightarrow> act db db' \<and> (\<forall>ci. get_ctx ci db' = get_ctx ci db)"
proof -
  assume a: "listener_leave l db = Some db'"
  have "act db (db\<lparr>db_listeners := ls\<rparr>)" for ls
  proof -
    have "store_inv (db\<lparr>db_listeners := ls\<rparr>) M = store_inv db M" for M by (rule store_inv_cong) (simp add: store_view_def)
    then have "safe_step db (db\<lparr>db_listeners := ls\<rparr>)"
      by (intro safe_step_keeps) (simp add: keeps_def same_clients_def same_settings_def ctx_id_def get_ctx_def fun_eq_iff)
    then show ?thesis by (simp add: act_def calm_def get_ctx_def)
  qed
  then show ?thesis using a by (auto simp: listener_leave_def get_ctx_def split: option.splits if_splits)
qed

lemma closed_live: "c_sock (cx_mosq cx) = -1 \<Longrightarrow> ctx_live cx"
  by (simp add: ctx_live_def)

lemma socket_close_sel [simp]:
  "c_sock (mosquitto_socket_close m) = -1" "c_id (mosquitto_socket_close m) = c_id m" "c_clean_session (mosquitto_socket_close m) = c_clean_session m"
  by (simp_all add: mosquitto_socket_close_def)

lemma disconnect_act:
  assumes "mqtt3_context_disconnect db ci = Some db'"
  shows "act db db'" "\<exists>cx'. get_ctx ci db' = Some cx' \<and> c_sock (cx_mosq cx') = -1"
proof -
  obtain cx db1 cx1 db2 where s: "get_ctx ci db = Some cx"
    "(case c_will (cx_mosq cx) of
           Some w \<Rightarrow>
             if c_state (cx_mosq cx) \<noteq> mosq_cs_disconnecting
             then do { (rc, db) \<leftarrow> mqtt3_db_messages_easy_queue db (Some ci) (m_topic w) (m_qos w) (of_int (m_payloadlen w)) (m_payload w) (m_retain w);
                       Some db }
             else Some db
         | None \<Rightarrow> Some db) = Some db1"
    "get_ctx ci db1 = Some cx1" "listener_leave (cx_listener cx1) db1 = Some db2"
    "db' = put_ctx ci (cx1\<lparr>cx_mosq := mosquitto_socket_close ((cx_mosq cx1)\<lparr>c_will := None\<rparr>), cx_listener := None, cx_disconnect_t := db_now db2\<rparr>) db2"
    using assms by (auto simp: mqtt3_context_disconnect_def bind_eq_Some_conv)
  have 1: "act db db1" using s(2) easy_queue_act by (auto simp: bind_eq_Some_conv split: option.splits if_splits)
  have 2: "act db1 db2" "get_ctx ci db2 = Some cx1" using listener_leave_still [OF s(4)] s(3) by auto
  have "act db2 db'" unfolding s(5) by (rule put_act [OF 2(2)]) (simp_all add: same_list_def follows_def closed_live)
  then show "act db db'" using 1 2(1) act_trans by blast
  show "\<exists>cx'. get_ctx ci db' = Some cx' \<and> c_sock (cx_mosq cx') = -1" using get_ctx_length [OF 2(2)] by (simp add: s(5) get_put_ctx)
qed

lemma disconnect_good:
  assumes "mqtt3_context_disconnect db ci = Some db'" "good {ci} {} b db"
  shows "good {} {} b db'"
proof -
  have "good {ci} {} b db'" using disconnect_act(1) [OF assms(1)] assms(2) by (rule act_good)
  moreover obtain cx' where "get_ctx ci db' = Some cx'" "ctx_live cx'" using disconnect_act(2) [OF assms(1)] closed_live by blast
  ultimately show ?thesis unfolding good_def core_def by (metis option.inject singletonD)
qed

section \<open>The packets of a client with a name\<close>

definition quiet :: "unit mosq \<Rightarrow> unit mosq \<Rightarrow> bool" where
  "quiet m m' \<longleftrightarrow> who m' = who m \<and> (c_sock m = INVALID_SOCKET \<longrightarrow> c_sock m' = INVALID_SOCKET)"

lemma quiet_trans: "\<lbrakk>quiet a b; quiet b c\<rbrakk> \<Longrightarrow> quiet a c"
  by (auto simp: quiet_def)

lemma quiet_parts:
  "mosq_alloc m = (b, m') \<Longrightarrow> quiet m m'" "packet_alloc_in m p = (rc, p', m') \<Longrightarrow> quiet m m'"
  "mosquitto_packet_queue broker_app m p = Some (rc, m') \<Longrightarrow> quiet m m'" "mosquitto_packet_write broker_app m = Some (rc, m') \<Longrightarrow> quiet m m'"
  unfolding quiet_def
  by (auto dest: alloc_closed queue_closed [rotated] write_closed [rotated] wv.keep_packet_alloc_in wv.keep_packet_queue [OF broker_app_keeps]
      wv.keep_packet_write [OF broker_app_keeps])

lemma quiet_send_iff: "quiet_send f \<longleftrightarrow> (\<forall>m rc m'. f m = Some (rc, m') \<longrightarrow> quiet m m')"
  by (simp add: quiet_send_def quiet_def)

lemma quiet_sends:
  "quiet_send (\<lambda>m. mosquitto_send_connack m code)" "quiet_send (\<lambda>m. mosquitto_send_suback m mid payload)"
  "quiet_send (\<lambda>m. mosquitto_send_simple_command broker_app m c)"
  unfolding quiet_send_iff mosquitto_send_connack_def mosquitto_send_suback_def mosquitto_send_simple_command_def
  by (auto simp: Let_def bind_eq_Some_conv split: prod.splits bool.splits if_splits dest!: quiet_parts intro: quiet_trans)

lemmas send_acts =
  ctx_send_act [OF _ quiet_gentle [OF quiet_sends(1)]] ctx_send_act [OF _ quiet_gentle [OF quiet_sends(2)]]
  ctx_send_act [OF _ quiet_gentle [OF quiet_acks(1)]] ctx_send_act [OF _ quiet_gentle [OF quiet_acks(2)]]
  ctx_send_act [OF _ quiet_gentle [OF quiet_acks(3)]] ctx_send_act [OF _ quiet_gentle [OF quiet_acks(4)]]
  ctx_send_act [OF _ quiet_gentle [OF quiet_command]]

lemma callback_view: "callback broker_app ev m = Some m' \<Longrightarrow> live_view m' = live_view m"
  by (auto simp: callback_def callback_keep_lock_def broker_app_def live_view_def Let_def split: if_splits)

lemma granted_view: "granted_loop m g = Some (rc, g', m') \<Longrightarrow> live_view m' = live_view m"
proof (induction m g rule: granted_loop.induct)
  case (1 m g)
  show ?case
  proof (cases "pk_pos (c_in_packet m) < pk_remaining_length (c_in_packet m)")
    case True
    then obtain rc1 q m1 where r: "in_read_byte m = Some (rc1, q, m1)"
      using "1.prems"(1) by (cases "in_read_byte m") (auto simp: granted_loop.simps [of m g])
    then have "live_view m1 = live_view m" using readers(1) unfolding reader_def by blast
    then show ?thesis using 1 True r by (cases "rc1 = 0") (auto simp: granted_loop.simps [of m g])
  qed (use "1.prems" in \<open>simp add: granted_loop.simps [of m g]\<close>)
qed

lemma gentle_view: "(\<And>m rc m'. f m = Some (rc, m') \<Longrightarrow> live_view m' = live_view m) \<Longrightarrow> gentle f"
  by (fastforce simp: gentle_def live_view_def)

lemma gentle_handlers: "gentle (mosquitto_handle_pingreq broker_app)" "gentle mosquitto_handle_pingresp"
  "gentle (mosquitto_handle_suback broker_app)" "gentle (mosquitto_handle_unsuback broker_app)"
proof -
  have r: "in_read_uint16 m = Some (rc, v, m') \<Longrightarrow> live_view m' = live_view m" for m rc v m' using readers(2) unfolding reader_def by blast
  have a: "mosq_alloc m = (x, m') \<Longrightarrow> live_view m' = live_view m" for m x m' by (auto simp: mosq_alloc_def live_view_def split: prod.splits)
  show "gentle (mosquitto_handle_pingreq broker_app)"
    using quiet_gentle [OF quiet_sends(3)] by (simp add: mosquitto_handle_pingreq_def [abs_def] mosquitto_send_pingresp_def)
  show "gentle mosquitto_handle_pingresp" by (simp add: gentle_def mosquitto_handle_pingresp_def)
  show "gentle (mosquitto_handle_suback broker_app)"
    by (rule gentle_view) (auto simp: mosquitto_handle_suback_def Let_def bind_eq_Some_conv split: if_splits prod.splits bool.splits
        dest!: r a granted_view callback_view)
  show "gentle (mosquitto_handle_unsuback broker_app)"
    by (rule gentle_view) (auto simp: mosquitto_handle_unsuback_def bind_eq_Some_conv split: if_splits dest!: r callback_view)
qed

section \<open>Chains of steps\<close>

text \<open>
  What a call returns is reached from \<open>db\<close> by steps that keep the names. The rules follow the calls of a function one after the other.
\<close>

definition gives :: "db \<Rightarrow> ('a \<times> db) option \<Rightarrow> bool" where
  "gives db r \<longleftrightarrow> (\<forall>x d. r = Some (x, d) \<longrightarrow> act db d)"

definition gives3 :: "db \<Rightarrow> ('a \<times> 'b \<times> db) option \<Rightarrow> bool" where
  "gives3 db r \<longleftrightarrow> (\<forall>x y d. r = Some (x, y, d) \<longrightarrow> act db d)"

definition goes :: "db \<Rightarrow> db option \<Rightarrow> bool" where
  "goes db r \<longleftrightarrow> (\<forall>d. r = Some d \<longrightarrow> act db d)"

named_theorems chain \<open>rules for the calls of a function, in their order\<close>

lemma givesD: "\<lbrakk>gives db r; r = Some (x, d)\<rbrakk> \<Longrightarrow> act db d" "\<lbrakk>goes db r'; r' = Some d\<rbrakk> \<Longrightarrow> act db d"
  by (simp_all add: gives_def goes_def)

lemma gives_simps [simp]: "gives db (Some (x, d)) = act db d" "gives3 db (Some (x, y, d)) = act db d" "goes db (Some d) = act db d"
  "gives db None" "gives3 db None" "goes db None"
  by (simp_all add: gives_def gives3_def goes_def)

lemma gives_from: "\<lbrakk>gives db r; act db0 db\<rbrakk> \<Longrightarrow> gives db0 r" "\<lbrakk>gives3 db r3; act db0 db\<rbrakk> \<Longrightarrow> gives3 db0 r3" "\<lbrakk>goes db r1; act db0 db\<rbrakk> \<Longrightarrow> goes db0 r1"
  unfolding gives_def gives3_def goes_def using act_trans by blast+

lemma gives_bind [chain]:
  "\<lbrakk>gives db r; \<And>x d. act db d \<Longrightarrow> gives db (f (x, d))\<rbrakk> \<Longrightarrow> gives db (r \<bind> f)"
  "\<lbrakk>gives db r; \<And>x d. act db d \<Longrightarrow> gives3 db (f3 (x, d))\<rbrakk> \<Longrightarrow> gives3 db (r \<bind> f3)"
  "\<lbrakk>gives db r; \<And>x d. act db d \<Longrightarrow> goes db (f1 (x, d))\<rbrakk> \<Longrightarrow> goes db (r \<bind> f1)"
  "\<lbrakk>gives3 db r3; \<And>x y d. act db d \<Longrightarrow> gives db (h (x, y, d))\<rbrakk> \<Longrightarrow> gives db (r3 \<bind> h)"
  "\<lbrakk>gives3 db r3; \<And>x y d. act db d \<Longrightarrow> gives3 db (h3 (x, y, d))\<rbrakk> \<Longrightarrow> gives3 db (r3 \<bind> h3)"
  "\<lbrakk>goes db r1; \<And>d. act db d \<Longrightarrow> gives db (k d)\<rbrakk> \<Longrightarrow> gives db (r1 \<bind> k)"
  "\<lbrakk>goes db r1; \<And>d. act db d \<Longrightarrow> goes db (k1 d)\<rbrakk> \<Longrightarrow> goes db (r1 \<bind> k1)"
  by (cases r; simp add: split_paired_all)+ (cases r3; simp add: split_paired_all; fail | cases r1; simp)+

lemma gives_look [chain]: "(\<And>m. gives db0 (g m)) \<Longrightarrow> gives db0 (ctx_mosq ci db \<bind> g)"
  "(\<And>cx. get_ctx ci db = Some cx \<Longrightarrow> gives db0 (g' cx)) \<Longrightarrow> gives db0 (get_ctx ci db \<bind> g')" "(\<And>m. gives db0 (g3 m)) \<Longrightarrow> gives db0 ((st :: nat option) \<bind> g3)"
  "(\<And>m. gives db0 (g5 m)) \<Longrightarrow> gives db0 ((name :: string option) \<bind> g5)"
  "(\<And>m. gives db0 (g4 m)) \<Longrightarrow> gives db0 (mqtt3_db_message_store_find db ci mid \<bind> g4)"
  by (auto simp: gives_def bind_eq_Some_conv)

lemma gives_alloc [chain]: "\<lbrakk>act db0 db; \<And>b d. act db0 d \<Longrightarrow> gives db0 (h b d)\<rbrakk> \<Longrightarrow> gives db0 (case db_alloc db of (b, d) \<Rightarrow> h b d)"
  by (cases "db_alloc db") (auto dest: act_alloc act_trans [of db0 db])

lemma gives_if [chain]: "\<lbrakk>c \<Longrightarrow> gives db x; \<not> c \<Longrightarrow> gives db y\<rbrakk> \<Longrightarrow> gives db (if c then x else y)"
  "\<lbrakk>c \<Longrightarrow> gives3 db x'; \<not> c \<Longrightarrow> gives3 db y'\<rbrakk> \<Longrightarrow> gives3 db (if c then x' else y')"
  by simp_all

text \<open>The calls.\<close>

lemma gives_still: "\<lbrakk>\<And>x d. r = Some (x, d) \<Longrightarrow> safe_step db d; \<And>x d. r = Some (x, d) \<Longrightarrow> db_still db d\<rbrakk> \<Longrightarrow> gives db r"
  "\<lbrakk>\<And>x y d. r' = Some (x, y, d) \<Longrightarrow> safe_step db d; \<And>x y d. r' = Some (x, y, d) \<Longrightarrow> db_still db d\<rbrakk> \<Longrightarrow> gives3 db r'"
  by (simp_all add: gives_def gives3_def still_act)

lemma calls:
  "gives db (mqtt3_db_messages_queue db source topic q retain stored)" "gives db (mqtt3_retain_queue db ci sub q)"
  "gives db (mqtt3_db_messages_easy_queue db co t q len p retain)" "gives db (mqtt3_db_message_write db ci)"
  "gives db (mqtt3_db_message_release db ci mid dir)" "gives db (mqtt3_db_message_delete db ci mid dir)"
  "gives db (mqtt3_db_message_reconnect_reset db ci)" "gives db (mosquitto_acl_check db ci topic access)"
  by (rule gives_still(1), erule messages_queue_safe, erule messages_queue_still)
    (rule gives_still(1), erule retain_queue_safe, erule retain_queue_still,
     rule gives_still(1), erule easy_queue_safe, erule easy_queue_still,
     rule gives_still(1), erule message_write_safe, erule message_write_still,
     rule gives_still(1), erule message_release_safe, erule message_release_still,
     rule gives_still(1), erule message_delete_safe, erule message_delete_still,
     rule gives_still(1), erule reconnect_reset_safe, erule reconnect_reset_still,
     simp add: gives_def acl_act)

lemma calls3: "gives3 db (mqtt3_db_message_store db src mid t q len p retain k)" "gives3 db (ctx_read ci in_read_byte db)"
  "gives3 db (ctx_read ci in_read_uint16 db)" "gives3 db (ctx_read ci in_read_string db)" "gives3 db (ctx_read ci (in_read_buffer n k') db)"
  by (rule gives_still(2), erule message_store_safe, erule message_store_still) (simp_all add: gives3_def read_acts)

lemma send_calls: "gives db (ctx_send ci (\<lambda>m. mosquitto_send_connack m code) db)" "gives db (ctx_send ci (\<lambda>m. mosquitto_send_suback m mid payload) db)"
  "gives db (ctx_send ci (\<lambda>m. mosquitto_send_pubrec broker_app m mid) db)" "gives db (ctx_send ci (\<lambda>m. mosquitto_send_puback broker_app m mid) db)"
  "gives db (ctx_send ci (\<lambda>m. mosquitto_send_pubcomp broker_app m mid) db)" "gives db (ctx_send ci (\<lambda>m. mosquitto_send_pubrel broker_app m mid dup) db)"
  "gives db (ctx_send ci (\<lambda>m. mosquitto_send_command_with_mid broker_app m c mid dup) db)"
  by (simp_all add: gives_def send_acts)

lemmas chain_calls [chain] = calls [THEN gives_from(1)] calls3 [THEN gives_from(2)] send_calls [THEN gives_from(1)]

lemma disconnect_call: "goes db (mqtt3_context_disconnect db ci)"
  using disconnect_act(1) by (simp add: goes_def)

lemma upd_call: "(\<And>m. live_view (f m) = live_view m) \<Longrightarrow> goes db (ctx_upd_mosq ci f db)"
  using ctx_upd_act [of ci f db] by (simp add: goes_def)

lemmas chain_ends [chain] = disconnect_call [THEN gives_from(3)]

lemma remap_topic_Nil: "remap_topic keep p q t [] = (r, al) \<Longrightarrow> al = []"
  by (auto simp: remap_topic_def split: option.splits if_splits prod.splits)

lemma remap_loop_Nil: "\<lbrakk>\<And>t s r al. f t s [] = (r, al) \<Longrightarrow> al = []; remap_loop d g f ts topic [] = (r, al)\<rbrakk> \<Longrightarrow> al = []"
  by (induction ts) (auto split: if_splits prod.splits option.splits)

lemma act_allocs: "(db_allocs db = [] \<longrightarrow> al = []) \<Longrightarrow> act db (db\<lparr>db_allocs := al\<rparr>)"
  by (simp add: act_def calm_def get_ctx_def safe_step_keeps)

lemma remap_in_call: "gives db (remap_in ci topic db)"
proof (cases "get_ctx ci db")
  case (Some cx)
  have "act db (db\<lparr>db_allocs := al\<rparr>)"
    if "remap_loop bd_in bt_remote_topic (\<lambda>t. remap_topic False (bt_remote_prefix t) (bt_local_prefix t)) ts topic (db_allocs db) = (r, al)" for ts r al
  proof (rule act_allocs, rule impI)
    assume "db_allocs db = []"
    then have "remap_loop bd_in bt_remote_topic (\<lambda>t. remap_topic False (bt_remote_prefix t) (bt_local_prefix t)) ts topic [] = (r, al)" using that by simp
    then show "al = []" by (rule remap_loop_Nil [rotated]) (rule remap_topic_Nil)
  qed
  then show ?thesis using Some by (auto simp: remap_in_def split: option.split prod.split)
qed (simp add: remap_in_def)

lemma mount_topic_act: "mount_topic ci topic db = (r, db') \<Longrightarrow> act db db'"
  by (auto simp: mount_topic_def dest: act_alloc split: option.splits prod.splits)

lemma gives_mount [chain]:
  assumes "act db0 db" "\<And>b d. act db0 d \<Longrightarrow> gives db0 (h b d)"
  shows "gives db0 (case mount_topic ci t db of (b, d) \<Rightarrow> h b d)"
proof -
  obtain b d where m: "mount_topic ci t db = (b, d)" by fastforce
  show ?thesis using assms(2) [OF act_trans [OF assms(1) mount_topic_act [OF m]]] m by simp
qed

lemma publish_topic_call: "gives db (publish_topic ci qos db)"
  unfolding publish_topic_def by (auto intro!: chain remap_in_call [THEN gives_from(1)] split: sum.split)

lemma insert_call: "(dir = mosq_md_in \<longrightarrow> qos = 2) \<Longrightarrow> gives db (mqtt3_db_message_insert db ci mid dir qos retain stored)"
  using message_insert_safe message_insert_still by (intro gives_still) blast+

lemma update_call: "state \<noteq> mosq_ms_invalid \<Longrightarrow> gives db (mqtt3_db_message_update db ci mid dir state)"
  using message_update_safe message_update_still by (intro gives_still) blast+

lemmas chain_insert [chain] = insert_call [THEN gives_from(1)] update_call [THEN gives_from(1)]

lemma publish_bad_call: "qos \<in> {0, 1, 2} \<Longrightarrow> gives db (publish_bad ci qos mid db)"
  unfolding publish_bad_def by (auto intro!: chain split: option.split)

lemma publish_good_call: "qos \<in> {0, 1, 2} \<Longrightarrow> gives db (publish_good ci qos retain mid topic len p db)"
  unfolding publish_good_def by (auto intro!: chain split: option.split)

lemma gives_stage [chain]: "\<lbrakk>gives db r; \<And>v d. act db d \<Longrightarrow> gives db (f v d)\<rbrakk> \<Longrightarrow> gives db (stage r f)"
  unfolding stage_def by (rule gives_bind) (auto split: sum.split)

lemma uint_le_3: "unat (w :: u8) \<le> 3 \<Longrightarrow> uint w \<in> {0, 1, 2, 3}"
proof -
  assume "unat w \<le> 3"
  then consider "unat w = 0" | "unat w = 1" | "unat w = 2" | "unat w = 3" by linarith
  then show ?thesis unfolding uint_nat by cases simp_all
qed

lemma publish_qos: "uint (drop_bit 1 (header AND 0x06 :: u8)) \<in> {0, 1, 2, 3}"
proof (rule uint_le_3)
  have "header AND 0x06 \<le> (0x06 :: u8)" by (rule word_and_le1)
  then have "unat (header AND 0x06) \<le> 6" by (simp add: word_le_nat_alt)
  then show "unat (drop_bit 1 (header AND 0x06 :: u8)) \<le> 3" by (simp add: drop_bit_eq_div unat_div)
qed

lemma publish_call: "gives db (mqtt3_handle_publish db ci)"
  unfolding mqtt3_handle_publish_def Let_def
proof (intro chain, goal_cases)
  case (1 m)
  then show ?case by simp
next
  case (2 m)
  show ?case by (rule publish_topic_call)
next
  case (3 m v d)
  then have "uint (drop_bit 1 (pk_command (c_in_packet m) AND 0x06)) \<in> {0, 1, 2}" using publish_qos [of "pk_command (c_in_packet m)"] by auto
  then show ?case using 3(2)
    by (auto intro!: chain publish_bad_call [THEN gives_from(1)] publish_good_call [THEN gives_from(1)] split: prod.split option.split)
qed

lemma sub_add_call: "ctx_id db ci \<noteq> None \<Longrightarrow> gives db (mqtt3_sub_add db ci sub qos)"
  by (rule gives_still) (erule sub_add_safe sub_add_still; assumption?)+

lemma subscribe_one_call: "ctx_id db ci \<noteq> None \<Longrightarrow> gives db (subscribe_one ci rc db)"
  unfolding subscribe_one_def
  by (auto intro!: chain sub_add_call [THEN gives_from(1)] simp: act_ids split: option.split bool.split)

lemma subscribe_loop_act: "\<lbrakk>subscribe_loop ci payload rc db = Some res; ctx_id db ci \<noteq> None\<rbrakk> \<Longrightarrow> act db (snd res)"
proof (induction rule: subscribe_loop.raw_induct [rotated, consumes 1])
  case (1 loop ci payload rc db res)
  then consider "snd res = db" | r db1 where "subscribe_one ci rc db = Some (r, db1)"
      "(case r of Inl rc \<Rightarrow> Some (Inl rc, db1) | Inr (qos, rc) \<Rightarrow> loop ci (payload @ [qos]) rc db1) = Some res"
    by (auto simp: bind_eq_Some_conv split: if_splits)
  then show ?case
  proof cases
    case 2
    have a: "act db db1" by (rule givesD(1) [OF subscribe_one_call [OF 1(3)] 2(1)])
    then have "ctx_id db1 ci \<noteq> None" using 1(3) by (simp add: act_ids)
    note l = 1(1) [OF _ this]
    show ?thesis
    proof (cases r)
      case (Inr x)
      then have "act db1 (snd res)" using 2(2) l by (cases x) simp
      then show ?thesis using a act_trans by blast
    qed (use a 2(2) in auto)
  qed simp
qed

lemma subscribe_call: "ctx_id db ci \<noteq> None \<Longrightarrow> gives db (mqtt3_handle_subscribe db ci)"
proof -
  assume n: "ctx_id db ci \<noteq> None"
  have "gives d (subscribe_loop ci [] 0 d)" if "act db d" for d
    using subscribe_loop_act [of ci "[]" 0 d] n act_ids [OF that] by (auto simp: gives_def)
  note l = this [THEN gives_from(1)]
  show ?thesis unfolding mqtt3_handle_subscribe_def
    by (auto intro!: chain l intro: act_trans [OF _ act_upd] split: prod.split)
qed

lemma unsubscribe_loop_act: "\<lbrakk>unsubscribe_loop ci db = Some res; tree_ok (db_subs db); broker_inv db\<rbrakk> \<Longrightarrow> act db (snd res)"
proof (induction rule: unsubscribe_loop.raw_induct [rotated, consumes 1])
  case (1 loop ci db res)
  then consider "snd res = db" | r sub db1 where "ctx_read ci in_read_string db = Some (r, sub, db1)" "snd res = db1 \<or> loop ci (snd (mqtt3_sub_remove db1 ci sub)) = Some res"
    by (auto simp: bind_eq_Some_conv split: if_splits)
  then show ?case
  proof cases
    case 2
    let ?d = "snd (mqtt3_sub_remove db1 ci sub)"
    have a: "act db db1" using 2(1) calls3(4) by (simp add: gives3_def)
    then have i: "broker_inv db1" using 1(4) by (simp add: act_def safe_step_def)
    then have "act db1 ?d" using sub_remove_safe sub_remove_still by (intro still_act) (simp_all add: broker_inv_def tree_safe_def)
    then have d: "act db ?d" using a act_trans by blast
    then have "broker_inv ?d" using 1(4) by (simp add: act_def safe_step_def)
    then have "act ?d (snd res)" if "loop ci ?d = Some res" using 1(1) [OF that] by (simp add: broker_inv_def tree_safe_def)
    then show ?thesis using 2(2) a d act_trans by blast
  qed simp
qed

lemma unsubscribe_call: "broker_inv db \<Longrightarrow> gives db (mqtt3_handle_unsubscribe db ci)"
proof -
  assume n: "broker_inv db"
  have "gives d (unsubscribe_loop ci d)" if "act db d" for d
  proof -
    have "broker_inv d" using that n by (simp add: act_def safe_step_def)
    then show ?thesis using unsubscribe_loop_act [of ci d] by (auto simp: gives_def broker_inv_def tree_safe_def)
  qed
  note l = this [THEN gives_from(1)]
  show ?thesis unfolding mqtt3_handle_unsubscribe_def
    by (auto intro!: chain l intro: act_trans [OF _ act_upd] split: prod.split)
qed

lemma ack_calls: "gives db (broker_handle_pubackcomp db ci)" "gives db (broker_handle_pubrec db ci)" "gives db (broker_handle_pubrel db ci)"
  unfolding broker_handle_pubackcomp_def broker_handle_pubrec_def broker_handle_pubrel_def
  by (auto intro!: chain)

text \<open>The state of the connection of a client with a name may change, not to \<open>new\<close>.\<close>

lemma state_call: "\<lbrakk>ctx_id db ci \<noteq> None; st \<noteq> mosq_cs_new\<rbrakk> \<Longrightarrow> goes db (ctx_upd_mosq ci (\<lambda>m. m\<lparr>c_state := st\<rparr>) db)"
  by (auto simp: goes_def ctx_upd_mosq_def bind_eq_Some_conv ctx_id_def same_list_def follows_def ctx_live_def intro!: put_act)

lemma disconnect_packet_call: "ctx_id db ci \<noteq> None \<Longrightarrow> gives db (mqtt3_handle_disconnect db ci)"
  unfolding mqtt3_handle_disconnect_def by (auto intro!: chain state_call)

lemma gentle_unit: "gentle (\<lambda>m. do { (rc, _, m) \<leftarrow> f m; Some (rc, m) })"
  if "\<And>m rc v m'. f m = Some (rc, v, m') \<Longrightarrow> who m' = who m \<and> (c_sock m = INVALID_SOCKET \<longrightarrow> c_sock m' = INVALID_SOCKET)"
  using that by (intro quiet_gentle) (auto simp: quiet_send_def bind_eq_Some_conv)

lemma gentle_bridge: "gentle (\<lambda>m. do { (rc, _, m) \<leftarrow> mosquitto_send_subscribe broker_app m dup t q; Some (rc, m) })"
  "gentle (\<lambda>m. do { (rc, _, m) \<leftarrow> mosquitto_send_unsubscribe broker_app m dup t; Some (rc, m) })"
proof -
  have mid: "mosquitto_mid_generate m = (x, m') \<Longrightarrow> quiet m m'" for m x m'
  proof -
    assume "mosquitto_mid_generate m = (x, m')"
    moreover obtain n where "mosquitto_mid_generate m = (n, m\<lparr>c_last_mid := n\<rparr>)" using mid_generate_kept by blast
    ultimately show ?thesis by (auto simp: quiet_def who_def)
  qed
  show "gentle (\<lambda>m. do { (rc, _, m) \<leftarrow> mosquitto_send_subscribe broker_app m dup t q; Some (rc, m) })"
    by (rule gentle_unit, fold quiet_def)
      (auto simp: mosquitto_send_subscribe_def Let_def bind_eq_Some_conv split: option.splits prod.splits bool.splits if_splits dest!: quiet_parts mid intro: quiet_trans)
  show "gentle (\<lambda>m. do { (rc, _, m) \<leftarrow> mosquitto_send_unsubscribe broker_app m dup t; Some (rc, m) })"
    by (rule gentle_unit, fold quiet_def)
      (auto simp: mosquitto_send_unsubscribe_def Let_def bind_eq_Some_conv split: option.splits prod.splits bool.splits if_splits dest!: quiet_parts mid intro: quiet_trans)
qed

lemma gentle_call: "gentle f \<Longrightarrow> gives db (ctx_send ci f db)"
  using ctx_send_act by (auto simp: gives_def)

lemma ctx_mid_call: "gives db (ctx_mid ci db)"
  using ctx_mid_still ctx_mid_keeps by (intro gives_still safe_step_keeps) blast+

lemma notify_call: "gives db (bridge_notify ci topic db)"
  unfolding bridge_notify_def
  by (auto intro!: chain ctx_mid_call [THEN gives_from(1)] gentle_call [THEN gives_from(1)] quiet_gentle quiet_real_publish)

lemma bridge_subscribe_call: "gives db (bridge_subscribe ci ts db)"
proof (induction ts arbitrary: db)
  case (Cons t ts)
  define f where "f = (\<lambda>m. if bt_direction t = bd_in \<or> bt_direction t = bd_both
           then do { (rc, _, m) \<leftarrow> mosquitto_send_subscribe broker_app m False (Some (bt_remote_topic t)) (of_int (bt_qos t)); Some (rc, m) }
           else do { (rc, _, m) \<leftarrow> mosquitto_send_unsubscribe broker_app m False (Some (bt_remote_topic t)); Some (rc, m) })"
  have "gentle f" using gentle_bridge by (cases "bt_direction t = bd_in \<or> bt_direction t = bd_both") (simp_all add: f_def)
  then have "gives db (ctx_send ci f db)" by (rule gentle_call)
  then show ?case unfolding bridge_subscribe.simps f_def [symmetric] by (auto intro!: chain Cons.IH [THEN gives_from(1)])
qed simp

lemma bridge_flag_act: "\<lbrakk>get_ctx ci db = Some cx; cx_bridge cx = Some b; act db0 db\<rbrakk> \<Longrightarrow> act db0 (put_ctx ci (cx\<lparr>cx_bridge := Some b'\<rparr>) db)"
  by (rule act_trans, assumption, rule put_act) (auto simp: same_list_def follows_def ctx_live_def)

lemma connack_call: "ctx_id db ci \<noteq> None \<Longrightarrow> gives db (mqtt3_handle_connack db ci)"
  unfolding mqtt3_handle_connack_def
  by (auto intro!: chain state_call [THEN gives_from(3)] notify_call [THEN gives_from(1)] bridge_subscribe_call [THEN gives_from(1)] bridge_flag_act
      simp: act_ids split: option.split bool.split)

text \<open>A packet of a client that is not new. A second CONNECT ends the connection.\<close>

lemma packet_handle_call:
  assumes id: "ctx_id db ci \<noteq> None" and inv: "broker_inv db" and m: "ctx_mosq ci db = Some m" "c_state m \<noteq> mosq_cs_new"
  shows "gives db (mqtt3_packet_handle db ci)"
proof -
  have "gives db (mqtt3_handle_connect db ci)" using m by (auto simp: mqtt3_handle_connect_def intro!: chain)
  then show ?thesis unfolding mqtt3_packet_handle_def m(1) Let_def bind.bind_lunit
    by (intro chain(11-) gentle_call gentle_handlers ack_calls publish_call subscribe_call unsubscribe_call disconnect_packet_call connack_call id inv; simp)
qed

section \<open>CONNECT\<close>

lemma give_up_call: "gives db (give_up ci rc db)"
  unfolding give_up_def by (auto intro!: chain)

lemma refuse_call: "gives db (refuse ci code rc db)"
  unfolding refuse_def by (auto intro!: chain give_up_call [THEN gives_from(1)])

lemmas connect_chain = chain give_up_call [THEN gives_from(1)] refuse_call [THEN gives_from(1)] upd_call [THEN gives_from(3)]

lemma connect_protocol_call: "gives db (connect_protocol ci db)"
  unfolding connect_protocol_def by (auto intro!: connect_chain simp: live_view_def)

lemma connect_flags_call: "gives db (connect_flags ci db)"
  unfolding connect_flags_def by (auto intro!: connect_chain simp: live_view_def)

lemma auto_id_act: "auto_id db = (cid, db') \<Longrightarrow> act db db'"
proof -
  have "act db (db\<lparr>db_rand := rs\<rparr>)" for rs
  proof -
    have "store_inv (db\<lparr>db_rand := rs\<rparr>) M = store_inv db M" for M by (rule store_inv_cong) (simp add: store_view_def)
    then have "safe_step db (db\<lparr>db_rand := rs\<rparr>)"
      by (intro safe_step_keeps) (simp add: keeps_def same_clients_def same_settings_def ctx_id_def get_ctx_def fun_eq_iff)
    then show ?thesis by (simp add: act_def calm_def get_ctx_def)
  qed
  then show "auto_id db = (cid, db') \<Longrightarrow> act db db'" by (auto simp: auto_id_def split: prod.splits)
qed

lemma gives_auto [chain]:
  assumes "act db0 db" "\<And>b d. act db0 d \<Longrightarrow> gives db0 (h b d)"
  shows "gives db0 (case auto_id db of (b, d) \<Rightarrow> h b d)"
proof -
  obtain b d where m: "auto_id db = (b, d)" by fastforce
  show ?thesis using assms(2) [OF act_trans [OF assms(1) auto_id_act [OF m]]] m by simp
qed

lemma connect_client_id_call: "gives db (connect_client_id ci flags db)"
  unfolding connect_client_id_def by (auto intro!: connect_chain gives_auto split: bool.split sum.split option.split)

lemma connect_will_call: "gives db (connect_will ci flags db)"
  unfolding connect_will_def by (auto intro!: connect_chain split: bool.split)

lemma connect_user_call: "gives db (connect_user ci flags db)"
  unfolding connect_user_def Let_def by (auto intro!: connect_chain)

lemma connect_auth_call: "gives db (connect_auth ci user db)"
  unfolding connect_auth_def Let_def by (auto intro!: connect_chain simp: live_view_def split: option.split)

section \<open>The end of a session\<close>

lemma clean_session_gone:
  "clean_session ci h db = (h', db') \<Longrightarrow> ci \<notin> tree_clients [h']" "clean_children ci bs db = (bs', db') \<Longrightarrow> ci \<notin> tree_clients bs'"
proof (induction ci h db and ci bs db arbitrary: h' db' and bs' db' rule: clean_session_clean_children.induct)
  case (1 ci t subs ret ch db)
  obtain subs' db1 where l: "clean_leaves ci subs db = (subs', db1)" by fastforce
  obtain ch' db2 where c: "clean_children ci ch db1 = (ch', db2)" by fastforce
  then show ?case using "1.IH" [OF l [symmetric] c] clean_leaves_del [OF l] "1.prems" l by auto
next
  case (3 ci b bs db)
  obtain b' db1 where b: "clean_session ci b db = (b', db1)" by fastforce
  obtain bs1 db2 where bs1: "clean_children ci bs db1 = (bs1, db2)" by fastforce
  have "ci \<notin> tree_clients [b']" "ci \<notin> tree_clients bs1" using "3.IH" b bs1 by auto
  then show ?case using "3.prems" b bs1 by (auto simp: node_clients_simps split: if_splits)
qed simp

lemma clean_roots_gone: "clean_roots ci hs db = (hs', db') \<Longrightarrow> ci \<notin> tree_clients hs'"
proof (induction hs arbitrary: db hs' db')
  case (Cons h hs)
  obtain h' db1 where h': "clean_session ci h db = (h', db1)" by fastforce
  obtain hs1 db2 where hs1: "clean_roots ci hs db1 = (hs1, db2)" by fastforce
  then show ?case using Cons.IH [OF hs1] clean_session_gone(1) [OF h'] Cons.prems h' by (auto simp: node_clients_simps)
qed simp

lemma messages_delete_empties:
  assumes "mqtt3_db_messages_delete db ci = Some (rc, db')"
  shows "db_subs db' = db_subs db" "\<exists>cx'. get_ctx ci db' = Some cx' \<and> cx_msgs cx' = []"
proof -
  obtain cx db1 cx' where s: "get_ctx ci db = Some cx" "release_refs (cx_msgs cx) db = Some db1" "db' = put_ctx ci cx' db1" "cx_msgs cx' = []"
    using assms by (auto simp: mqtt3_db_messages_delete_def bind_eq_Some_conv)
  have "release_refs ms d = Some d' \<Longrightarrow> db_subs d' = db_subs d" for ms d d'
    by (induction ms arbitrary: d) (auto simp: bind_eq_Some_conv add_ref_def split: option.splits)
  then show "db_subs db' = db_subs db" using s(2,3) by simp
  have "get_ctx ci db1 = Some cx" using release_refs_still [OF s(2)] s(1) by simp
  then show "\<exists>cx'. get_ctx ci db' = Some cx' \<and> cx_msgs cx' = []" using get_ctx_length s(3,4) by (fastforce simp: get_put_ctx)
qed

lemma cleanup_session_act:
  assumes "cleanup_session db ci = Some db'" "broker_inv db"
  shows "act db db'" "\<exists>cx cx'. get_ctx ci db = Some cx \<and> get_ctx ci db' = Some cx' \<and> c_clean_session (cx_mosq cx') = c_clean_session (cx_mosq cx)
    \<and> c_sock (cx_mosq cx') = -1 \<and> (c_clean_session (cx_mosq cx) \<longrightarrow> cx_msgs cx' = [] \<and> ci \<notin> tree_clients (db_subs db'))"
proof -
  obtain cx where cx: "get_ctx ci db = Some cx" using assms(1) by (auto simp: cleanup_session_def bind_eq_Some_conv)
  define m where "m = (cx_mosq cx)\<lparr>c_username := None, c_password := None\<rparr>"
  obtain cx1 db1 where 1: "(if c_sock m \<noteq> -1 then
            do { db \<leftarrow> listener_leave (cx_listener cx) db; Some (cx\<lparr>cx_mosq := mosquitto_socket_close m, cx_listener := None\<rparr>, db) }
          else Some (cx\<lparr>cx_mosq := m\<rparr>, db)) = Some (cx1, db1)"
    and r: "(if c_clean_session m
       then do { (rc, db) \<leftarrow> mqtt3_db_messages_delete (snd (mqtt3_subs_clean_session (put_ctx ci cx1 db1) ci)) ci; Some db }
       else Some (put_ctx ci cx1 db1)) = Some db'"
    using assms(1) cx unfolding cleanup_session_def m_def by (auto simp: bind_eq_Some_conv Let_def)
  have l: "act db db1" "get_ctx ci db1 = Some cx" using 1 cx listener_leave_still by (fastforce simp: bind_eq_Some_conv split: if_splits)+
  have c1: "c_sock (cx_mosq cx1) = -1" "c_clean_session (cx_mosq cx1) = c_clean_session (cx_mosq cx)" "same_list cx cx1" "follows cx cx1"
    using 1 by (auto simp: bind_eq_Some_conv m_def same_list_def follows_def closed_live split: if_splits)
  define db2 where "db2 = put_ctx ci cx1 db1"
  have a2: "act db db2" using act_trans [OF l(1) put_act [OF l(2) c1(3,4)]] by (simp add: db2_def)
  have g2: "get_ctx ci db2 = Some cx1" using get_ctx_length [OF l(2)] by (simp add: db2_def get_put_ctx)
  have i2: "broker_inv db2" using a2 assms(2) by (simp add: act_def safe_step_def)
  show "act db db'" "\<exists>cx cx'. get_ctx ci db = Some cx \<and> get_ctx ci db' = Some cx' \<and> c_clean_session (cx_mosq cx') = c_clean_session (cx_mosq cx)
    \<and> c_sock (cx_mosq cx') = -1 \<and> (c_clean_session (cx_mosq cx) \<longrightarrow> cx_msgs cx' = [] \<and> ci \<notin> tree_clients (db_subs db'))"
  proof -
    define db3 where "db3 = snd (mqtt3_subs_clean_session db2 ci)"
    have s3: "db_still db2 db3" unfolding db3_def using i2 by (intro clean_session_still) (simp add: broker_inv_def tree_safe_def)
    have a3: "act db2 db3" using s3 clean_session_safe unfolding db3_def by (intro still_act)
    have t3: "ci \<notin> tree_clients (db_subs db3)" using clean_roots_gone by (simp add: db3_def mqtt3_subs_clean_session_def split: prod.split)
    consider "\<not> c_clean_session m" "db' = db2" | rc where "c_clean_session m" "mqtt3_db_messages_delete db3 ci = Some (rc, db')"
      using r unfolding db2_def [symmetric] db3_def [symmetric] by (auto simp: bind_eq_Some_conv split: if_splits)
    then have "act db db' \<and> (\<exists>cx'. get_ctx ci db' = Some cx' \<and> c_clean_session (cx_mosq cx') = c_clean_session (cx_mosq cx)
       \<and> c_sock (cx_mosq cx') = -1 \<and> (c_clean_session (cx_mosq cx) \<longrightarrow> cx_msgs cx' = [] \<and> ci \<notin> tree_clients (db_subs db')))"
    proof cases
      case 1
      then show ?thesis using a2 g2 c1 by (simp add: m_def)
    next
      case 2
      note d = messages_delete_empties [OF 2(2)]
      have s: "db_still db2 db'" using s3 messages_delete_still [OF 2(2)] by (rule db_still_trans)
      obtain cx' where x: "get_ctx ci db' = Some cx'" "still cx1 cx'" using db_still_ctx [OF s g2] by blast
      have "act db db'" using act_trans [OF act_trans [OF a2 a3] still_act [OF messages_delete_safe messages_delete_still]] 2(2) by blast
      then show ?thesis using x d t3 c1(1,2) by (auto simp: still_def who_def)
    qed
    then show "act db db'" "\<exists>cx cx'. get_ctx ci db = Some cx \<and> get_ctx ci db' = Some cx' \<and> c_clean_session (cx_mosq cx') = c_clean_session (cx_mosq cx)
       \<and> c_sock (cx_mosq cx') = -1 \<and> (c_clean_session (cx_mosq cx) \<longrightarrow> cx_msgs cx' = [] \<and> ci \<notin> tree_clients (db_subs db'))"
      using cx by auto
  qed
qed

text \<open>A context is replaced, with its queue.\<close>

lemma store_inv_put_list:
  assumes "store_inv db M" "get_ctx ci db = Some cx" "same_list cx cx'"
  shows "store_inv (put_ctx ci cx' db) M"
proof -
  have "queue_refs (put_ctx ci cx' db) = queue_refs db" using queue_refs_put [OF assms(2), of cx'] assms(3) by (simp add: same_list_def)
  moreover have "queues_ok (put_ctx ci cx' db)"
    using queues_ok_put same_list_ok [OF assms(3) store_inv_ctx [OF assms(1,2)]] assms(1) by (simp add: store_inv_def)
  moreover have "refs_ok (put_ctx ci cx' db) M" using assms(1) \<open>queue_refs (put_ctx ci cx' db) = queue_refs db\<close> by (simp add: store_inv_def refs_ok_def ref_count_def)
  moreover have "store_ok (put_ctx ci cx' db)" using assms(1) by (simp add: store_inv_def store_ok_def put_ctx_def)
  ultimately show ?thesis by (simp add: store_inv_def)
qed

lemma ctx_id_put: "ctx_id (put_ctx ci cx db) cj = (if cj = ci \<and> ci < length (db_contexts db) then c_id (cx_mosq cx) else ctx_id db cj)"
  by (simp add: ctx_id_def get_put_ctx)

lemma core_put:
  assumes c: "core X Y db" and cx: "get_ctx ci db = Some cx" and l: "same_list cx cx'" "cx_bridge cx' = None"
    and live: "ci \<notin> X' \<Longrightarrow> ctx_live cx'" "X - {ci} \<subseteq> X'" and name: "ci \<notin> Y' \<Longrightarrow> ci \<in> tree_clients (db_subs db) \<Longrightarrow> c_id (cx_mosq cx') \<noteq> None" "Y - {ci} \<subseteq> Y'"
  shows "core X' Y' (put_ctx ci cx' db)"
proof -
  have len: "ci < length (db_contexts db)" by (rule get_ctx_length [OF cx])
  have "cx_bridge x = None \<and> (cj \<notin> X' \<longrightarrow> ctx_live x)" if "get_ctx cj (put_ctx ci cx' db) = Some x" for cj x
    using that c l(2) live len by (auto simp: core_def get_put_ctx split: if_splits)
  moreover have "ctx_id (put_ctx ci cx' db) cj \<noteq> None" if "cj \<in> tree_clients (db_subs db) - Y'" for cj
    using that c name len unfolding ctx_id_put core_def by (auto split: if_splits)
  moreover have "\<exists>L. store_inv (put_ctx ci cx' db) (tree_refs (db_subs db) + L)" using c store_inv_put_list [OF _ cx l(1)] by (auto simp: core_def)
  ultimately show ?thesis using c by (simp add: core_def)
qed

lemma core_cong: "\<lbrakk>db_contexts db' = db_contexts db; db_subs db' = db_subs db; store_view db' = store_view db\<rbrakk> \<Longrightarrow> core X Y db' = core X Y db"
  unfolding core_def ctx_id_def get_ctx_def using store_inv_cong [of db' db] by simp

text \<open>The table of ids without a context.\<close>

lemma cih_del_set: "distinct (map fst h) \<Longrightarrow> set (cih_del cid h) = {e \<in> set h. fst e \<noteq> cid} \<and> distinct (map fst (cih_del cid h))"
proof (induction h)
  case (Cons e h)
  then show ?case by (cases e) force
qed simp

lemma hash_drop:
  assumes h: "hash_inv {} db" and ids: "\<And>j. j \<noteq> ci \<Longrightarrow> ctx_id db' j = ctx_id db j"
    and d: "db_clientid_index_hash db' = (case ctx_id db ci of None \<Rightarrow> db_clientid_index_hash db | Some cid \<Rightarrow> cih_del cid (db_clientid_index_hash db))"
  shows "hash_inv {ci} db'" "ctx_id db ci = Some cid \<Longrightarrow> cid \<notin> fst ` set (db_clientid_index_hash db')"
proof -
  let ?h = "db_clientid_index_hash db" and ?h' = "db_clientid_index_hash db'"
  have dist: "distinct (map fst ?h)" and fwd: "\<And>c i. (c, i) \<in> set ?h \<Longrightarrow> ctx_id db i = Some c" and bwd: "\<And>c i. ctx_id db i = Some c \<Longrightarrow> (c, i) \<in> set ?h"
    using h by (auto simp: hash_inv_def)
  have s: "set ?h' = {e \<in> set ?h. ctx_id db ci \<noteq> Some (fst e)} \<and> distinct (map fst ?h')"
    using d cih_del_set [OF dist] dist by (cases "ctx_id db ci") auto
  then show "ctx_id db ci = Some cid \<Longrightarrow> cid \<notin> fst ` set ?h'" by auto
  have "i \<noteq> ci \<and> ctx_id db' i = Some c" if "(c, i) \<in> set ?h'" for c i
  proof -
    have "ctx_id db i = Some c" "ctx_id db ci \<noteq> Some c" using that s fwd by auto
    then have "i \<noteq> ci" by auto
    then show ?thesis using ids \<open>ctx_id db i = Some c\<close> by simp
  qed
  moreover have "(c, i) \<in> set ?h'" if "i \<noteq> ci" "ctx_id db' i = Some c" for c i
  proof -
    have i: "(c, i) \<in> set ?h" using that ids bwd by simp
    have "ctx_id db ci \<noteq> Some c"
    proof
      assume "ctx_id db ci = Some c"
      then have "(c, ci) \<in> set ?h" by (rule bwd)
      then have "i = ci" using i dist by (metis eq_key_imp_eq_value)
      then show False using that(1) by simp
    qed
    then show ?thesis using s i by simp
  qed
  ultimately have "\<forall>(c, i) \<in> set ?h'. i \<notin> {ci} \<and> ctx_id db' i = Some c" "\<forall>i c. i \<notin> {ci} \<longrightarrow> ctx_id db' i = Some c \<longrightarrow> (c, i) \<in> set ?h'" by blast+
  then show "hash_inv {ci} db'" using s unfolding hash_inv_def by blast
qed

text \<open>What \<open>mqtt3_context_cleanup\<close> leaves of a context before it is freed.\<close>

lemma cleanup_shape:
  assumes c: "mqtt3_context_cleanup db ci do_free = Some db'" and g: "good {} {} b db"
    and clean: "do_free \<Longrightarrow> \<exists>cx. get_ctx ci db = Some cx \<and> c_clean_session (cx_mosq cx)"
  obtains cx3 db2 where "good {ci} {ci} b (put_ctx ci cx3 db2)" "ci < length (db_contexts db2)" "c_id (cx_mosq cx3) = None" "c_sock (cx_mosq cx3) = -1"
    "b \<Longrightarrow> (\<And>cid. ctx_id db ci = Some cid \<Longrightarrow> cid \<notin> fst ` set (db_clientid_index_hash db2))"
    "do_free \<Longrightarrow> cx_msgs cx3 = [] \<and> ci \<notin> tree_clients (db_subs db2)"
    "db' = (if do_free then db2\<lparr>db_contexts := (db_contexts db2)[ci := None]\<rparr> else put_ctx ci cx3 db2)"
proof -
  obtain db1 where s: "cleanup_session db ci = Some db1" using c by (auto simp: mqtt3_context_cleanup_def bind_eq_Some_conv)
  note cs = cleanup_session_act [OF s good_inv [OF g]]
  obtain cx cx1 where x: "get_ctx ci db = Some cx" "get_ctx ci db1 = Some cx1" "c_clean_session (cx_mosq cx1) = c_clean_session (cx_mosq cx)"
    "c_sock (cx_mosq cx1) = -1" "c_clean_session (cx_mosq cx) \<Longrightarrow> cx_msgs cx1 = [] \<and> ci \<notin> tree_clients (db_subs db1)"
    using cs(2) by blast
  have g1: "good {} {} b db1" using act_good [OF cs(1) g] .
  have ids: "ctx_id db1 = ctx_id db" "db_clientid_index_hash db1 = db_clientid_index_hash db" using cs(1) by (auto simp: act_ids act_def calm_def)
  define db2 where "db2 = (case c_id (cx_mosq cx1) of None \<Rightarrow> db1 | Some cid \<Rightarrow> db1\<lparr>db_clientid_index_hash := cih_del cid (db_clientid_index_hash db1)\<rparr>)"
  define cx2 where "cx2 = cx1\<lparr>cx_mosq := (cx_mosq cx1)\<lparr>c_id := None, c_in_packet := mosquitto_packet_cleanup (c_in_packet (cx_mosq cx1)),
    c_current_out_packet := None, c_out_packet := [], c_will := None\<rparr>, cx_address := None\<rparr>"
  have db2: "db_contexts db2 = db_contexts db1" "db_subs db2 = db_subs db1" "store_view db2 = store_view db1" "db_allocs db2 = db_allocs db1"
    by (simp_all add: db2_def store_view_def split: option.split)
  have same: "get_ctx j db2 = get_ctx j db1" for j by (simp add: get_ctx_def db2)
  have x2: "get_ctx ci db2 = Some cx1" using x(2) by (simp add: same)
  define cx3 where "cx3 = (if do_free \<or> c_clean_session (cx_mosq cx1) then cx2\<lparr>cx_msgs := [], cx_last_msg := Last_null\<rparr> else cx2)"
  have e: "do_free \<or> c_clean_session (cx_mosq cx1) \<Longrightarrow> cx_msgs cx1 = []" using clean x(1,3,5) by auto
  have r: "release_refs (cx_msgs cx2) d = Some d" if "do_free \<or> c_clean_session (cx_mosq cx1)" for d using e [OF that] by (simp add: cx2_def)
  have ok: "ctx_ok cx1" using g1 store_inv_ctx [OF _ x(2)] by (auto simp: good_def core_def)
  have l3: "same_list cx1 cx3" using e ok by (auto simp: cx3_def cx2_def same_list_def ctx_ok_def last_ok_def)
  have c3: "c_id (cx_mosq cx3) = None" "c_sock (cx_mosq cx3) = -1" "cx_bridge cx3 = None"
    using x(2,4) g1 by (auto simp: cx3_def cx2_def good_def core_def)
  have db': "db' = (if do_free then db2\<lparr>db_contexts := (db_contexts db2)[ci := None]\<rparr> else put_ctx ci cx3 db2)"
    using c s x(2) r unfolding cx3_def mqtt3_context_cleanup_def
    by (auto simp: Let_def db2_def [symmetric] cx2_def [symmetric] bind_eq_Some_conv simp flip: cx2_def split: if_splits)
  have core: "core {} {} db2" using g1 core_cong [OF db2(1-3)] by (simp add: good_def)
  have "core {ci} {ci} (put_ctx ci cx3 db2)" by (rule core_put [OF core x2 l3]) (simp_all add: c3)
  moreover have "hash_inv {ci} (put_ctx ci cx3 db2)" and nin: "\<And>cid. ctx_id db ci = Some cid \<Longrightarrow> cid \<notin> fst ` set (db_clientid_index_hash db2)" if b
  proof -
    have h: "hash_inv {} db1" using g1 that by (simp add: good_def)
    have d: "db_clientid_index_hash (put_ctx ci cx3 db2)
        = (case ctx_id db1 ci of None \<Rightarrow> db_clientid_index_hash db1 | Some cid \<Rightarrow> cih_del cid (db_clientid_index_hash db1))"
      using x(2) by (simp add: db2_def ctx_id_def split: option.split)
    have i: "ctx_id (put_ctx ci cx3 db2) j = ctx_id db1 j" if "j \<noteq> ci" for j using that by (simp add: ctx_id_put) (simp add: ctx_id_def same)
    show "hash_inv {ci} (put_ctx ci cx3 db2)" by (rule hash_drop(1) [OF h i d])
    show "cid \<notin> fst ` set (db_clientid_index_hash db2)" if "ctx_id db ci = Some cid" for cid
      using hash_drop(2) [OF h i d] that ids(1) by simp
  qed
  moreover have "b \<Longrightarrow> db_allocs (put_ctx ci cx3 db2) = []" using g1 by (simp add: good_def db2)
  ultimately have "good {ci} {ci} b (put_ctx ci cx3 db2)" by (simp add: good_def)
  then show thesis
    using that c3 nin db' get_ctx_length [OF x2] e clean x(1,5) by (auto simp: db2 cx3_def)
qed

lemma queues_ok_iff: "queues_ok db \<longleftrightarrow> (\<forall>j cx. get_ctx j db = Some cx \<longrightarrow> ctx_ok cx)"
  by (auto simp: queues_ok_def list_all_length get_ctx_def split: option.splits)

lemma cleanup_free_good:
  assumes c: "mqtt3_context_cleanup db ci True = Some db'" and g: "good {} {} b db"
    and clean: "get_ctx ci db = Some cx" "c_clean_session (cx_mosq cx)"
  shows "good {} {} b db'"
proof -
  obtain cx3 db2 where s: "good {ci} {ci} b (put_ctx ci cx3 db2)" "ci < length (db_contexts db2)" "c_id (cx_mosq cx3) = None"
    "cx_msgs cx3 = []" "ci \<notin> tree_clients (db_subs db2)" "db' = db2\<lparr>db_contexts := (db_contexts db2)[ci := None]\<rparr>"
    using clean by (rule_tac cleanup_shape [OF c g]) auto
  let ?d = "put_ctx ci cx3 db2"
  have ctx: "get_ctx cj db' = (if cj = ci then None else get_ctx cj ?d)" for cj by (auto simp: s(6) get_ctx_def put_ctx_def nth_list_update)
  have ids: "ctx_id db' cj = ctx_id ?d cj" for cj using s(2,3) by (simp add: ctx_id_def ctx get_put_ctx)
  have refs: "queue_refs db' + ctx_refs (db_contexts ?d ! ci) = queue_refs ?d + ctx_refs None"
    using sum_list_update [of ci "db_contexts ?d" ctx_refs None] s(2) by (simp add: queue_refs_def s(6) put_ctx_def)
  have "store_inv db' M" if i: "store_inv ?d M" for M
  proof -
    have "queue_refs db' = queue_refs ?d" using refs s(2,4) by (simp add: ctx_refs_def put_ctx_def)
    then have "refs_ok db' M" using i by (simp add: store_inv_def refs_ok_def ref_count_def s(6) put_ctx_def)
    moreover have "queues_ok db'" using i ctx by (auto simp: store_inv_def queues_ok_iff split: if_splits)
    moreover have "store_ok db'" using i by (simp add: store_inv_def store_ok_def s(6) put_ctx_def)
    ultimately show ?thesis by (simp add: store_inv_def)
  qed
  moreover have "db_subs db' = db_subs ?d" "db_clientid_index_hash db' = db_clientid_index_hash ?d" "db_allocs db' = db_allocs ?d" by (simp_all add: s(6))
  moreover have "hash_inv {} db'" if "hash_inv {ci} ?d" "db_clientid_index_hash db' = db_clientid_index_hash ?d"
    using that s(2,3) by (auto simp: hash_inv_def ids ctx_id_put)
  ultimately show ?thesis using s(1,5) ctx by (auto simp: good_def core_def ids split: if_splits)
qed

text \<open>A client without a name, which is not in the table of ids.\<close>

lemma good_unnamed:
  assumes g: "good {} {} b db" and id: "ctx_id db ci = None"
  shows "good {ci} {ci} b db"
proof -
  have "hash_inv {ci} db" if "hash_inv {} db" using that id by (fastforce simp: hash_inv_def)
  then show ?thesis using g by (auto simp: good_def core_def)
qed

lemma keeps_core:
  assumes k: "\<And>M. keeps db M db' M" and s: "db_still db db'" and c: "core X Y db"
  shows "core X Y db'"
proof -
  obtain L where L: "store_inv db (tree_refs (db_subs db) + L)" using c by (auto simp: core_def)
  have i: "store_inv db' (tree_refs (db_subs db) + L)" "same_clients db db'" using keepsD [OF k L] by blast+
  have "cx_bridge cx' = None \<and> (ci \<notin> X \<longrightarrow> ctx_live cx')" if g: "get_ctx ci db' = Some cx'" for ci cx'
  proof -
    have "rel_option still (get_ctx ci db) (get_ctx ci db')" using s by (simp add: db_still_def)
    then obtain cx where "get_ctx ci db = Some cx" "still cx cx'" using g by (cases "get_ctx ci db") auto
    then show ?thesis using c still_follows [of cx cx'] by (auto simp: core_def follows_def)
  qed
  then show ?thesis using c i by (auto simp: core_def same_clients_def)
qed

lemma hash_inv_ids:
  "\<lbrakk>db_clientid_index_hash db' = db_clientid_index_hash db; \<And>j. j \<notin> Y \<Longrightarrow> ctx_id db' j = ctx_id db j; hash_inv Y db\<rbrakk> \<Longrightarrow> hash_inv Y db'"
  unfolding hash_inv_def by fastforce

lemma good_put:
  assumes g: "good X Y b db" and cx: "get_ctx ci db = Some cx" and l: "same_list cx cx'" "cx_bridge cx' = None"
    and live: "ci \<notin> X \<Longrightarrow> ctx_live cx'" and name: "ci \<notin> Y \<Longrightarrow> c_id (cx_mosq cx') = c_id (cx_mosq cx)"
  shows "good X Y b (put_ctx ci cx' db)"
proof -
  have id: "ctx_id db ci = c_id (cx_mosq cx)" by (simp add: ctx_id_def cx)
  have c: "core X Y db" using g by (simp add: good_def)
  have n: "c_id (cx_mosq cx') \<noteq> None" if "ci \<notin> Y" "ci \<in> tree_clients (db_subs db)"
  proof -
    have "ctx_id db ci \<noteq> None" using c that unfolding core_def by blast
    then show ?thesis using id name that by simp
  qed
  have "core X Y (put_ctx ci cx' db)" by (rule core_put [OF c cx l live _ n]) blast+
  moreover have "hash_inv Y (put_ctx ci cx' db)" if "hash_inv Y db"
  proof (rule hash_inv_ids [OF _ _ that])
    show "ctx_id (put_ctx ci cx' db) j = ctx_id db j" if "j \<notin> Y" for j using name id that by (cases "j = ci") (simp_all add: ctx_id_put)
  qed simp
  ultimately show ?thesis using g by (simp add: good_def)
qed

lemma good_keeps: "\<lbrakk>\<And>M. keeps db M db' M; db_still db db'; good X Y b db\<rbrakk> \<Longrightarrow> good X Y b db'"
  using keeps_core [of db db' X Y] hash_inv_ids [of db' db Y] db_still_id [of db db'] unfolding good_def db_still_def by metis

lemma good_alloc: "\<lbrakk>db_alloc db = (x, db'); good X Y b db\<rbrakk> \<Longrightarrow> good X Y b db'"
  by (rule good_keeps [OF keeps_sub_only [OF sub_only_alloc] alloc_still])

lemma takeover_strings_good:
  assumes t: "takeover_strings cx db = (b1, b2, db')" and g: "good X Y b db"
  shows "good X Y b db'" "get_ctx i db' = get_ctx i db" "db_clientid_index_hash db' = db_clientid_index_hash db"
proof -
  obtain a1 db1 where 1: "db_alloc db = (a1, db1)" by fastforce
  obtain a2 db2 where 2: "db_alloc db1 = (a2, db2)" by fastforce
  have "db' = db1 \<or> db' = db2" using t 1 2 by (auto simp: takeover_strings_def split: if_splits)
  then show "good X Y b db'" using good_alloc [OF 1 g] good_alloc [OF 2] by auto
  show "get_ctx i db' = get_ctx i db" "db_clientid_index_hash db' = db_clientid_index_hash db"
    using \<open>db' = db1 \<or> db' = db2\<close> 1 2 by (auto simp: db_alloc_def get_ctx_def split: prod.splits)
qed

lemma takeover_ctx_sel [simp]:
  "same_list old (takeover_ctx cx address b b' now old)" "cx_bridge (takeover_ctx cx address b b' now old) = cx_bridge old"
  by (simp_all add: takeover_ctx_def same_list_def Let_def)

lemma reset_good:
  assumes "mqtt3_db_message_reconnect_reset db i = Some (rc, db')" "good X Y b db"
  shows "good X Y b db'" "db_clientid_index_hash db' = db_clientid_index_hash db"
proof -
  obtain cx where cx: "get_ctx i db = Some cx" using assms(1) by (auto simp: mqtt3_db_message_reconnect_reset_def bind_eq_Some_conv)
  have "keeps db M db' M" for M using reconnect_reset_inv [OF _ cx] assms(1) by (fastforce simp: keeps_def)
  then show "good X Y b db'" using good_keeps reconnect_reset_still [OF assms(1)] assms(2) by blast
  show "db_clientid_index_hash db' = db_clientid_index_hash db" using reconnect_reset_still [OF assms(1)] by (simp add: db_still_def)
qed

end
