(* ===== verification/Broker_Round.thy ===== *)
theory Broker_Round
  imports Broker_Live
begin

text \<open>
  A round of the main loop keeps the invariant of \<open>Broker_Live\<close>: the CONNECT packet, the end of a connection, the clean-up of the contexts,
  and new connections.
\<close>

section \<open>A CONNECT\<close>

lemma cleanup_keep_good:
  assumes c: "mqtt3_context_cleanup db ci False = Some db'" and g: "good {} {} b db"
  shows "good {ci} {ci} b db'" "\<lbrakk>b; ctx_id db ci = Some cid\<rbrakk> \<Longrightarrow> cid \<notin> fst ` set (db_clientid_index_hash db')"
proof -
  have "good {ci} {ci} b db' \<and> (b \<longrightarrow> (\<forall>cid. ctx_id db ci = Some cid \<longrightarrow> cid \<notin> fst ` set (db_clientid_index_hash db')))"
    by (rule cleanup_shape [OF c g]) simp_all
  then show "good {ci} {ci} b db'" "\<lbrakk>b; ctx_id db ci = Some cid\<rbrakk> \<Longrightarrow> cid \<notin> fst ` set (db_clientid_index_hash db')" by blast+
qed

lemma takeover_good:
  assumes t: "connect_takeover ci cid clean db = Some (j, db')" and g: "good {} {} b db" and id: "ctx_id db ci = None"
  shows "good {j} {j} b db' \<and> (b \<longrightarrow> cid \<notin> fst ` set (db_clientid_index_hash db'))"
proof (cases "cih_find cid (db_clientid_index_hash db)")
  case None
  then have "j = ci" "db' = db" using t by (auto simp: connect_takeover_def)
  moreover have "cid \<notin> fst ` set (db_clientid_index_hash db)" using None by (simp add: cih_find_def map_of_eq_None_iff)
  ultimately show ?thesis using good_unnamed [OF g id] by simp
next
  case (Some i)
  obtain db1 db2 cx old address where s: "ctx_upd_mosq i (\<lambda>m. m\<lparr>c_clean_session := clean\<rparr>) db = Some db1" "mqtt3_context_cleanup db1 i False = Some db2"
    "get_ctx ci db2 = Some cx" "get_ctx i db2 = Some old" "cx_address cx = Some address"
    using t Some by (auto simp: connect_takeover_def bind_eq_Some_conv)
  obtain b1 b2 db3 where a: "takeover_strings cx db2 = (b1, b2, db3)" by (metis prod_cases3)
  define db4 where "db4 = put_ctx i (takeover_ctx cx address b1 b2 (db_now db3) old) db3"
  obtain db5 where u: "ctx_upd_mosq ci (\<lambda>m. m\<lparr>c_sock := -1, c_state := mosq_cs_disconnecting\<rparr>) db4 = Some db5"
    and j: "j = i" "db' = db5 \<or> (\<exists>rc. mqtt3_db_message_reconnect_reset db5 i = Some (rc, db'))"
    using t Some s a unfolding connect_takeover_def db4_def by (auto simp: bind_eq_Some_conv split: if_splits)
  have a1: "act db db1" using s(1) upd_call [of "\<lambda>m. m\<lparr>c_clean_session := clean\<rparr>" db i] by (simp add: goes_def live_view_def)
  note g2 = cleanup_keep_good(1) [OF s(2) act_good [OF a1 g]] and c = cleanup_keep_good(2) [OF s(2) act_good [OF a1 g]]
  have nin: "cid \<notin> fst ` set (db_clientid_index_hash db2)" if b
  proof -
    have "(cid, i) \<in> set (db_clientid_index_hash db)" using Some by (simp add: cih_find_def map_of_SomeD)
    then have "ctx_id db i = Some cid" using g that by (auto simp: good_def hash_inv_def)
    then show ?thesis using c [OF that, of cid] act_ids [OF a1] by simp
  qed
  note st = takeover_strings_good [OF a g2]
  have "cx_bridge old = None" using g2 s(4) by (auto simp: good_def core_def)
  then have g4: "good {i} {i} b db4" using st(2) [of i] s(4) unfolding db4_def by (intro good_put [OF st(1)]) auto
  obtain cy where y: "get_ctx ci db4 = Some cy" "db5 = put_ctx ci (cy\<lparr>cx_mosq := (cx_mosq cy)\<lparr>c_sock := -1, c_state := mosq_cs_disconnecting\<rparr>\<rparr>) db4"
    using u by (auto simp: ctx_upd_mosq_def bind_eq_Some_conv)
  have "cx_bridge cy = None" using g4 y(1) by (auto simp: good_def core_def)
  then have g5: "good {i} {i} b db5" unfolding y(2) by (intro good_put [OF g4 y(1)]) (auto simp: same_list_def closed_live)
  have h: "db_clientid_index_hash db5 = db_clientid_index_hash db2" using st(3) by (simp add: y(2) db4_def)
  have "good {i} {i} b db'" "db_clientid_index_hash db' = db_clientid_index_hash db2" using j(2) g5 reset_good [OF _ g5] h by auto
  then show ?thesis using nin by (simp add: j(1))
qed

lemma accept_good:
  assumes f: "connect_accept j will db = Some (rc, db')" and g: "good {j} {} b db" and id: "ctx_id db j \<noteq> None"
  shows "good {} {} b db'"
proof -
  obtain cx where cx: "get_ctx j db = Some cx" using f by (auto simp: connect_accept_def bind_eq_Some_conv)
  define db1 where "db1 = put_ctx j (cx\<lparr>cx_acl_list := (if db_acl_list db = [] then None
      else acl_user (c_username (cx_mosq cx)) (db_acl_list db) (cx_acl_list cx))\<rparr>) db"
  have a1: "act db db1" unfolding db1_def by (rule put_act [OF cx]) (simp_all add: same_list_def follows_def ctx_live_def)
  define check where "check = (case will of
      None \<Rightarrow> Some (True, db1)
    | Some w \<Rightarrow>
        do {
          topic \<leftarrow> m_topic w;
          (rc, db) \<leftarrow> mosquitto_acl_check db1 j topic MOSQ_ACL_WRITE;
          if rc \<noteq> MOSQ_ERR_SUCCESS then Some (False, db)
          else do { db \<leftarrow> ctx_upd_mosq j (\<lambda>m. m\<lparr>c_will := will\<rparr>) db; Some (True, db) }
        })"
  have eq: "connect_accept j will db = do {
       (allowed, db) \<leftarrow> check;
       if \<not> allowed
       then do { (_, db) \<leftarrow> ctx_send j (\<lambda>m. mosquitto_send_connack m CONNACK_REFUSED_NOT_AUTHORIZED) db;
                 db \<leftarrow> mqtt3_context_disconnect db j; Some (MOSQ_ERR_SUCCESS, db) }
       else do { db \<leftarrow> ctx_upd_mosq j (\<lambda>m. m\<lparr>c_state := mosq_cs_connected\<rparr>) db;
                 ctx_send j (\<lambda>m. mosquitto_send_connack m CONNACK_ACCEPTED) db }
     }"
    unfolding connect_accept_def check_def db1_def cx bind.bind_lunit Let_def by (rule refl)
  have "gives db1 check" unfolding check_def by (auto intro!: connect_chain simp: live_view_def split: option.split)
  obtain allowed db2 where c: "check = Some (allowed, db2)" using f unfolding eq by (auto simp: bind_eq_Some_conv)
  have a2: "act db db2" using a1 givesD(1) [OF \<open>gives db1 check\<close> c] by (rule act_trans)
  have g2: "good {j} {} b db2" by (rule act_good [OF a2 g])
  show ?thesis
  proof (cases allowed)
    case True
    then obtain db3 where s: "ctx_upd_mosq j (\<lambda>m. m\<lparr>c_state := mosq_cs_connected\<rparr>) db2 = Some db3"
      "ctx_send j (\<lambda>m. mosquitto_send_connack m CONNACK_ACCEPTED) db3 = Some (rc, db')"
      using f c unfolding eq by (auto simp: bind_eq_Some_conv)
    obtain cy where y: "get_ctx j db2 = Some cy" "db3 = put_ctx j (cy\<lparr>cx_mosq := (cx_mosq cy)\<lparr>c_state := mosq_cs_connected\<rparr>\<rparr>) db2"
      using s(1) by (auto simp: ctx_upd_mosq_def bind_eq_Some_conv)
    have n: "c_id (cx_mosq cy) \<noteq> None"
    proof -
      have "ctx_id db2 j \<noteq> None" using id act_ids [OF a2] by simp
      then show ?thesis using y(1) by (simp add: ctx_id_def)
    qed
    have g3: "good {j} {} b db3" using g2 y(1) unfolding y(2) by (intro good_put) (auto simp: same_list_def good_def core_def)
    have "ctx_live (cy\<lparr>cx_mosq := (cx_mosq cy)\<lparr>c_state := mosq_cs_connected\<rparr>\<rparr>)" using n by (simp add: ctx_live_def)
    then have "good {} {} b db3" using g3 get_ctx_length [OF y(1)] by (auto simp: good_def core_def y(2) get_put_ctx split: if_splits)
    then show ?thesis using send_acts(1) [OF s(2)] act_good by blast
  next
    case False
    then obtain rc' db3 where s: "ctx_send j (\<lambda>m. mosquitto_send_connack m CONNACK_REFUSED_NOT_AUTHORIZED) db2 = Some (rc', db3)"
      "mqtt3_context_disconnect db3 j = Some db'"
      using f c unfolding eq by (auto simp: bind_eq_Some_conv)
    show ?thesis by (rule disconnect_good [OF s(2) act_good [OF send_acts(1) [OF s(1)] g2]])
  qed
qed

lemma finish_good:
  assumes f: "connect_finish j cid version flags will db = Some (rc, db')" and g: "good {j} {j} b db" and nin: "b \<longrightarrow> cid \<notin> fst ` set (db_clientid_index_hash db)"
  shows "good {} {} b db'"
proof -
  define clean where "clean \<longleftrightarrow> flags AND 0x02 \<noteq> 0"
  obtain cx where cx: "get_ctx j db = Some cx" using f by (auto simp: connect_finish_def bind_eq_Some_conv)
  define cx1 where "cx1 = cx\<lparr>cx_mosq := (cx_mosq cx)\<lparr>c_id := Some cid, c_clean_session := clean, c_ping_t := 0\<rparr>, cx_is_dropping := False,
    cx_is_bridge := (if version AND 0x80 = 0x80 then True else cx_is_bridge cx)\<rparr>"
  obtain a db2 where al: "db_alloc (put_ctx j cx1 db) = (a, db2)" by fastforce
  define db3 where "db3 = db2\<lparr>db_clientid_index_hash := cih_add cid j (db_clientid_index_hash db2),
              db_persistence_changes := (if clean then db_persistence_changes db2 else db_persistence_changes db2 + 1)\<rparr>"
  have eq: "connect_finish j cid version flags will db
      = (if a then connect_accept j will db3 else do { db \<leftarrow> mqtt3_context_disconnect db2 j; Some (MOSQ_ERR_NOMEM, db) })"
    using al unfolding connect_finish_def db3_def cx1_def clean_def by (auto simp: cx split: bool.split)
  have "cx_bridge cx = None" using g cx by (auto simp: good_def core_def)
  then have "core {j} {} (put_ctx j cx1 db)" using g by (intro core_put [OF _ cx]) (auto simp: good_def cx1_def same_list_def)
  then have c2: "good {j} {} False db2" using good_alloc [OF al, of "{j}" "{}" False] by (simp add: good_def)
  have d2: "db_contexts db2 = db_contexts (put_ctx j cx1 db)" "db_clientid_index_hash db2 = db_clientid_index_hash db" "db_allocs db = [] \<Longrightarrow> a \<and> db_allocs db2 = []"
    using al by (auto simp: db_alloc_def split: prod.splits)
  have ids: "ctx_id db2 i = (if i = j then Some cid else ctx_id db i)" for i
    using get_ctx_length [OF cx] by (simp add: ctx_id_def get_ctx_def d2(1) put_ctx_def nth_list_update cx1_def)
  show ?thesis
  proof (cases a)
    case False
    then have "\<not> b" "mqtt3_context_disconnect db2 j = Some db'" using g d2(3) f unfolding eq by (auto simp: good_def bind_eq_Some_conv)
    then show ?thesis using disconnect_good c2 by auto
  next
    case True
    have ids3: "ctx_id db3 i = ctx_id db2 i" for i by (simp add: db3_def ctx_id_def get_ctx_def)
    have "core {j} {} db3 = core {j} {} db2" by (rule core_cong) (simp_all add: db3_def store_view_def)
    moreover have h3: "db_clientid_index_hash db3 = (cid, j) # db_clientid_index_hash db" by (simp add: db3_def cih_add_def d2(2))
    then have "hash_inv {} db3" if "hash_inv {j} db" "cid \<notin> fst ` set (db_clientid_index_hash db)"
      using that unfolding hash_inv_def h3 ids3 ids by auto
    ultimately have "good {j} {} b db3" using c2 g d2(3) nin by (auto simp: good_def db3_def)
    then show ?thesis using accept_good [of j will db3 rc db' b] f True ids3 [of j] ids unfolding eq by auto
  qed
qed

text \<open>The stages of a CONNECT, and what follows the last.\<close>

lemma stage_good:
  assumes s: "stage r f = Some (rc, db')" and a: "gives db0 r" and g: "good {} {} b db0"
    and n: "\<And>v d. \<lbrakk>f v d = Some (rc, db'); act db0 d\<rbrakk> \<Longrightarrow> good {} {} b db'"
  shows "good {} {} b db'"
proof -
  obtain x d where x: "r = Some (x, d)" "(case x of Inl rc \<Rightarrow> Some (rc, d) | Inr v \<Rightarrow> f v d) = Some (rc, db')"
    using s by (auto simp: stage_def bind_eq_Some_conv)
  have "act db0 d" by (rule givesD(1) [OF a x(1)])
  then show ?thesis using x(2) n act_good [OF _ g] by (cases x) auto
qed

lemma handle_connect_good:
  assumes h: "mqtt3_handle_connect db ci = Some (rc, db')" and g: "good {} {} b db"
    and sock: "ctx_mosq ci db = Some m" "c_sock m \<noteq> INVALID_SOCKET"
  shows "good {} {} b db'"
proof (cases "c_state m = mosq_cs_new")
  case False
  then show ?thesis using h sock(1) disconnect_act(1) act_good [OF _ g] by (auto simp: mqtt3_handle_connect_def bind_eq_Some_conv)
next
  case True
  obtain cx where cx: "get_ctx ci db = Some cx" "m = cx_mosq cx" using sock(1) by (auto simp: ctx_mosq_def bind_eq_Some_conv)
  have "ctx_live cx" using g cx(1) by (simp add: good_def core_def)
  then have id: "ctx_id db ci = None" using True sock(2) cx by (simp add: ctx_live_def ctx_id_def)
  have last: "good {} {} b db'" if f: "do { (ci, db) \<leftarrow> connect_takeover ci cid clean d; connect_finish ci cid version flags will db } = Some (rc, db')"
    and a: "act db d" for cid clean d version flags will
  proof -
    obtain j d1 where t: "connect_takeover ci cid clean d = Some (j, d1)" "connect_finish j cid version flags will d1 = Some (rc, db')"
      using f by (auto simp: bind_eq_Some_conv)
    have "ctx_id d ci = None" using act_ids [OF a] id by simp
    then show ?thesis using takeover_good [OF t(1) act_good [OF a g]] finish_good [OF t(2)] by blast
  qed
  note st = stage_good [OF _ _ g]
  note calls = connect_protocol_call connect_flags_call connect_client_id_call connect_will_call connect_user_call connect_auth_call
  show ?thesis using h True
    unfolding mqtt3_handle_connect_def sock(1) bind.bind_lunit
    by (auto elim!: st intro: calls [THEN gives_from(1)] last)
qed

section \<open>Reading a packet\<close>

interpretation live_rd: read_frame "\<lambda>m :: unit mosq. (c_id m, c_sock m, c_state m)"
  by unfold_locales simp_all

lemma net_read_packet: "mosquitto_net_read m n = (k, bs, m') \<Longrightarrow> c_in_packet m' = c_in_packet m"
  by (auto simp: mosquitto_net_read_def Let_def split: list.splits rx_event.splits if_splits)

lemma remaining_loop_command: "read_remaining_loop m = (r, m') \<Longrightarrow> pk_command (c_in_packet m') = pk_command (c_in_packet m)"
proof (induction m arbitrary: r m' rule: read_remaining_loop.induct)
  case (1 m)
  obtain n bs m1 where r: "mosquitto_net_read m 1 = (n, bs, m1)" by (metis prod_cases3)
  note ih = "1.IH" [OF r [symmetric] refl refl _ refl refl refl _ refl refl]
  show ?case
  proof (cases "n = 1")
    case False
    then show ?thesis using "1.prems" net_read_packet [OF r]
      by (subst (asm) read_remaining_loop.simps) (auto simp: r simp del: One_nat_def split: if_splits)
  next
    case True
    then show ?thesis using "1.prems" ih [OF True] net_read_packet [OF r]
      by (subst (asm) read_remaining_loop.simps)
         (fastforce simp: r Let_def simp del: One_nat_def split: if_splits)
  qed
qed

lemma remaining_command: "read_remaining m = (r, m') \<Longrightarrow> pk_command (c_in_packet m') = pk_command (c_in_packet m)"
proof -
  assume a: "read_remaining m = (r, m')"
  obtain r1 m1 where l: "read_remaining_loop m = (r1, m1)" by fastforce
  obtain c m2 where al: "mosq_alloc m1 = (c, m2)" by fastforce
  have "c_in_packet m2 = c_in_packet m1" using al by (auto simp: mosq_alloc_def split: prod.splits)
  then show ?thesis using a remaining_loop_command [OF l]
    by (auto simp: read_remaining_def l al Let_def split: if_splits option.splits bool.splits)
qed

lemma payload_loop_command: "read_payload_loop m = Some (r, m') \<Longrightarrow> pk_command (c_in_packet m') = pk_command (c_in_packet m)"
proof (induction m arbitrary: r m' rule: read_payload_loop.induct)
  case (1 m)
  show ?case
  proof (cases "pk_to_process (c_in_packet m) > 0")
    case True
    obtain n bs m1 where r: "mosquitto_net_read m (unat (pk_to_process (c_in_packet m))) = (n, bs, m1)"
      by (metis prod_cases3)
    obtain buf where b: "pk_payload (c_in_packet m) = Some buf"
      "\<not> unat (pk_pos (c_in_packet m)) + unat (pk_to_process (c_in_packet m)) > length buf"
      using "1.prems" True by (subst (asm) read_payload_loop.simps) (auto simp: Let_def split: option.splits if_splits)
    show ?thesis
      using "1.prems" "1.IH" [OF refl True b r [symmetric] refl] net_read_packet [OF r] True b
      by (subst (asm) read_payload_loop.simps) (auto simp: r Let_def split: if_splits)
  qed (use "1.prems" in \<open>simp add: read_payload_loop.simps [of m]\<close>)
qed

text \<open>Unless a first packet is refused, the client stays live.\<close>

lemma read_in_live:
  assumes r: "broker_read_in False (cx_mosq cx) = Some (r, m)" and l: "ctx_live cx"
  shows "c_id m = c_id (cx_mosq cx)" "c_sock m = c_sock (cx_mosq cx)" "c_state m = c_state (cx_mosq cx)"
    "r = Some MOSQ_ERR_PROTOCOL \<or> ctx_live (cx\<lparr>cx_mosq := m\<rparr>)"
    "r = None \<Longrightarrow> c_sock m \<noteq> -1 \<Longrightarrow> c_state m = mosq_cs_new \<Longrightarrow> pk_command (c_in_packet m) AND 0xF0 = CONNECT"
proof -
  let ?m = "cx_mosq cx"
  obtain r1 m1 where c: "read_command ?m = (r1, m1)" by fastforce
  obtain r2 m2 where p: "read_remaining m1 = (r2, m2)" by fastforce
  obtain n bs m0 where n: "mosquitto_net_read ?m 1 = (n, bs, m0)" by (metis prod_cases3)
  have k1: "r1 \<noteq> None \<or> pk_command (c_in_packet ?m) \<noteq> 0 \<Longrightarrow> pk_command (c_in_packet m1) = pk_command (c_in_packet ?m)"
    using c net_read_packet [OF n] by (auto simp: read_command_def n simp del: One_nat_def split: if_splits)
  have v: "c_id m1 = c_id ?m" "c_sock m1 = c_sock ?m" "c_state m1 = c_state ?m" using live_rd.rd_read_command [OF c] by simp_all
  have v2: "c_id m2 = c_id ?m" "c_sock m2 = c_sock ?m" "c_state m2 = c_state ?m" "pk_command (c_in_packet m2) = pk_command (c_in_packet m1)"
    using live_rd.rd_read_remaining [OF p] v remaining_command [OF p] by simp_all
  define bad where "bad \<longleftrightarrow> pk_command (c_in_packet ?m) = 0 \<and> c_state m1 = mosq_cs_new \<and> pk_command (c_in_packet m1) AND 0xF0 \<noteq> CONNECT"
  have e: "(case r1 of Some rc \<Rightarrow> Some (Some rc, m1)
      | None \<Rightarrow> if bad then Some (Some MOSQ_ERR_PROTOCOL, m1)
          else (case r2 of Some rc \<Rightarrow> Some (Some rc, m2) | None \<Rightarrow> read_payload_loop m2)) = Some (r, m)"
  proof (cases r1)
    case None
    then show ?thesis using r p unfolding broker_read_in_def c by (cases bad; cases r2) (auto simp: bad_def [symmetric] cong: if_cong)
  qed (use r c in \<open>auto simp: broker_read_in_def\<close>)
  consider (command) rc where "r1 = Some rc" "r = Some rc" "m = m1"
    | (refused) "r1 = None" "r = Some MOSQ_ERR_PROTOCOL" "m = m1"
    | (rest) "r1 = None" "(r = r2 \<and> r2 \<noteq> None \<and> m = m2) \<or> read_payload_loop m2 = Some (r, m)" "\<not> bad"
  proof (cases r1)
    case None
    then show thesis using e refused rest by (cases bad; cases r2) auto
  qed (use e command in auto)
  then have "c_id m = c_id ?m \<and> c_sock m = c_sock ?m \<and> c_state m = c_state ?m \<and> (r = Some MOSQ_ERR_PROTOCOL \<or> ctx_live (cx\<lparr>cx_mosq := m\<rparr>))
     \<and> (r = None \<longrightarrow> c_sock m \<noteq> -1 \<longrightarrow> c_state m = mosq_cs_new \<longrightarrow> pk_command (c_in_packet m) AND 0xF0 = CONNECT)"
  proof cases
    case command
    then show ?thesis using v k1 l by (auto simp: ctx_live_def)
  next
    case refused
    then show ?thesis using v by simp
  next
    case rest
    have q: "c_id m = c_id ?m \<and> c_sock m = c_sock ?m \<and> c_state m = c_state ?m \<and> pk_command (c_in_packet m) = pk_command (c_in_packet m1)"
      using rest(2) v2 live_rd.rd_read_payload_loop [of m2 r m] payload_loop_command [of m2 r m] by auto
    have "pk_command (c_in_packet m1) AND 0xF0 = CONNECT" if "c_sock ?m \<noteq> -1" "c_state ?m = mosq_cs_new"
    proof (cases "pk_command (c_in_packet ?m) = 0")
      case True
      then show ?thesis using rest(3) v that by (simp add: bad_def)
    next
      case False
      then show ?thesis using k1 that l by (simp add: ctx_live_def)
    qed
    then show ?thesis using q l by (auto simp: ctx_live_def)
  qed
  then show "c_id m = c_id (cx_mosq cx)" "c_sock m = c_sock (cx_mosq cx)" "c_state m = c_state (cx_mosq cx)"
    "r = Some MOSQ_ERR_PROTOCOL \<or> ctx_live (cx\<lparr>cx_mosq := m\<rparr>)"
    "r = None \<Longrightarrow> c_sock m \<noteq> -1 \<Longrightarrow> c_state m = mosq_cs_new \<Longrightarrow> pk_command (c_in_packet m) AND 0xF0 = CONNECT" by blast+
qed

lemma packet_cleanup_command [simp]: "pk_command (mosquitto_packet_cleanup p) = 0"
  by (simp add: mosquitto_packet_cleanup_def)

lemma cleaned_act:
  assumes "ctx_upd_mosq ci (\<lambda>m. m\<lparr>c_in_packet := mosquitto_packet_cleanup (c_in_packet m), c_last_msg_in := n\<rparr>) db = Some db'"
  shows "act db db'"
proof -
  obtain cx where cx: "get_ctx ci db = Some cx"
    and e: "db' = put_ctx ci (cx\<lparr>cx_mosq := (cx_mosq cx)\<lparr>c_in_packet := mosquitto_packet_cleanup (c_in_packet (cx_mosq cx)), c_last_msg_in := n\<rparr>\<rparr>) db"
    using assms by (auto simp: ctx_upd_mosq_def bind_eq_Some_conv)
  show ?thesis unfolding e by (rule put_act [OF cx]) (auto simp: same_list_def follows_def ctx_live_def)
qed

lemma packet_handle_good:
  assumes h: "mqtt3_packet_handle db ci = Some (rc, db')" and g: "good {} {} b db"
    and m: "ctx_mosq ci db = Some m" "c_sock m \<noteq> INVALID_SOCKET"
    and first: "c_state m = mosq_cs_new \<Longrightarrow> pk_command (c_in_packet m) AND 0xF0 = CONNECT"
  shows "good {} {} b db'"
proof (cases "c_state m = mosq_cs_new")
  case True
  then have "mqtt3_handle_connect db ci = Some (rc, db')" using h first by (simp add: mqtt3_packet_handle_def m(1) Let_def)
  then show ?thesis by (rule handle_connect_good [OF _ g m])
next
  case False
  obtain cx where cx: "get_ctx ci db = Some cx" "m = cx_mosq cx" using m(1) by (auto simp: ctx_mosq_def bind_eq_Some_conv)
  have "ctx_live cx" using g cx(1) by (simp add: good_def core_def)
  then have "ctx_id db ci \<noteq> None" using False m(2) cx by (simp add: ctx_live_def ctx_id_def)
  then show ?thesis using givesD(1) [OF packet_handle_call [OF _ good_inv [OF g] m(1) False] h] act_good [OF _ g] by blast
qed

text \<open>Only a client whose first packet is not a CONNECT is left with it, and then the result is an error.\<close>

lemma packet_read_good:
  assumes h: "broker_packet_read db ci = Some (rc, db')" and g: "good {} {} b db"
  shows "good {ci} {} b db'" "rc = 0 \<Longrightarrow> good {} {} b db'"
proof -
  obtain cx where cx: "get_ctx ci db = Some cx" using h by (auto simp: broker_packet_read_def bind_eq_Some_conv)
  have live: "ctx_live cx" and br: "cx_bridge cx = None" using g cx by (auto simp: good_def core_def)
  have "good {ci} {} b db' \<and> (rc = 0 \<longrightarrow> good {} {} b db')"
  proof (cases "c_sock (cx_mosq cx) = INVALID_SOCKET")
    case True
    then show ?thesis using h cx g good_mono [OF g] by (simp add: broker_packet_read_def)
  next
    case False
    obtain r m where r: "broker_read_in False (cx_mosq cx) = Some (r, m)" using h cx br False by (auto simp: broker_packet_read_def bind_eq_Some_conv)
    note k = read_in_live [OF r live]
    have p: "good X {} b (put_ctx ci (cx\<lparr>cx_mosq := m'\<rparr>) db)" if "ci \<notin> X \<Longrightarrow> ctx_live (cx\<lparr>cx_mosq := m'\<rparr>)" "c_id m' = c_id m" for X m'
      using good_mono [OF g] br k(1) that by (intro good_put [OF _ cx]) (auto simp: same_list_def)
    show ?thesis
    proof (cases r)
      case (Some rc')
      then have e: "rc = rc'" "db' = put_ctx ci (cx\<lparr>cx_mosq := m\<rparr>) db" using h r cx br False by (auto simp: broker_packet_read_def)
      show ?thesis using p [of "{ci}" m] p [of "{}" m] k(4) Some unfolding e by auto
    next
      case None
      define m' where "m' = m\<lparr>c_in_packet := (c_in_packet m)\<lparr>pk_pos := 0\<rparr>\<rparr>"
      define db1 where "db1 = put_ctx ci (cx\<lparr>cx_mosq := m'\<rparr>) db"
      obtain db2 where s: "mqtt3_packet_handle db1 ci = Some (rc, db2)"
        "ctx_upd_mosq ci (\<lambda>m. m\<lparr>c_in_packet := mosquitto_packet_cleanup (c_in_packet m), c_last_msg_in := db_now db2\<rparr>) db2 = Some db'"
        using h r cx br False None unfolding db1_def m'_def by (auto simp: broker_packet_read_def bind_eq_Some_conv)
      have "ctx_live (cx\<lparr>cx_mosq := m\<rparr>)" using k(4) None by simp
      then have "ctx_live (cx\<lparr>cx_mosq := m'\<rparr>)" by (auto simp: ctx_live_def m'_def)
      then have g1: "good {} {} b db1" unfolding db1_def by (intro p) (simp_all add: m'_def)
      have m1: "ctx_mosq ci db1 = Some m'" using get_ctx_length [OF cx] by (simp add: db1_def ctx_mosq_def get_put_ctx)
      have "good {} {} b db2"
        by (rule packet_handle_good [OF s(1) g1 m1]) (use False k None in \<open>simp_all add: m'_def\<close>)
      then have "good {} {} b db'" by (rule act_good [OF cleaned_act [OF s(2)]])
      then show ?thesis using good_mono by blast
    qed
  qed
  then show "good {ci} {} b db'" "rc = 0 \<Longrightarrow> good {} {} b db'" by blast+
qed

section \<open>The main loop\<close>

lemma disconnect_on_good: "\<lbrakk>disconnect_on ci (rc, db) = Some db'; good {ci} {} b db; rc = 0 \<Longrightarrow> good {} {} b db\<rbrakk> \<Longrightarrow> good {} {} b db'"
  using disconnect_good by (auto simp: disconnect_on_def split: if_splits)

lemma loop_io_good:
  assumes h: "loop_io ci ev db = Some db'" and g: "good {} {} b db"
  shows "good {} {} b db'"
proof -
  obtain db1 db2 where s:
    "(if has_socket ci db \<and> re_out ev then do { r \<leftarrow> ctx_send ci (mosquitto_packet_write broker_app) db; disconnect_on ci r } else Some db) = Some db1"
    "(if has_socket ci db1 \<and> re_in ev then do { r \<leftarrow> broker_packet_read db1 ci; disconnect_on ci r } else Some db1) = Some db2"
    "(if has_socket ci db2 \<and> re_err ev then mqtt3_context_disconnect db2 ci else Some db2) = Some db'"
    using h unfolding loop_io_def by (auto simp: bind_eq_Some_conv simp del: split_paired_Ex)
  have w: "gentle (mosquitto_packet_write broker_app)"
    by (intro quiet_gentle) (use quiet_parts(4) in \<open>auto simp: quiet_send_iff\<close>)
  have 1: "good {} {} b db1"
  proof (cases "has_socket ci db \<and> re_out ev")
    case True
    then obtain rc d where d: "ctx_send ci (mosquitto_packet_write broker_app) db = Some (rc, d)" "disconnect_on ci (rc, d) = Some db1"
      using s(1) by (auto simp: bind_eq_Some_conv)
    have "good {} {} b d" by (rule act_good [OF ctx_send_act [OF d(1) w] g])
    then show ?thesis using disconnect_on_good [OF d(2)] good_mono by blast
  qed (use s(1) g in \<open>simp split: if_splits\<close>)
  have 2: "good {} {} b db2"
  proof (cases "has_socket ci db1 \<and> re_in ev")
    case True
    then obtain rc d where d: "broker_packet_read db1 ci = Some (rc, d)" "disconnect_on ci (rc, d) = Some db2"
      using s(2) by (auto simp: bind_eq_Some_conv)
    show ?thesis by (rule disconnect_on_good [OF d(2) packet_read_good [OF d(1) 1]])
  qed (use s(2) 1 in \<open>simp split: if_splits\<close>)
  show ?thesis using s(3) 2 disconnect_good good_mono [OF 2] by (auto split: if_splits)
qed

lemma loop_context_good:
  assumes h: "loop_context ci db = Some db'" and g: "good {} {} b db"
  shows "good {} {} b db'"
proof (cases "get_ctx ci db")
  case (Some cx)
  have d: "good {} {} b d'" if "mqtt3_context_disconnect d ci = Some d'" "good {} {} b d" for d d'
    using disconnect_good [OF that(1)] good_mono [OF that(2)] by simp
  have w: "good {} {} b d" if "mqtt3_db_message_write db ci = Some (rc, d)" for rc d
    by (rule act_good [OF givesD(1) [OF calls(4) that] g])
  have x: "good {} {} b db'" if e: "do { db \<leftarrow> ctx_upd_mosq ci (\<lambda>m. m\<lparr>c_clean_session := True\<rparr>) db; mqtt3_context_cleanup db ci True } = Some db'"
  proof -
    obtain db1 where s: "ctx_upd_mosq ci (\<lambda>m. m\<lparr>c_clean_session := True\<rparr>) db = Some db1" "mqtt3_context_cleanup db1 ci True = Some db'"
      using e by (auto simp: bind_eq_Some_conv)
    have g1: "good {} {} b db1" by (rule act_good [OF ctx_upd_act [OF s(1)] g]) (simp add: live_view_def)
    have "get_ctx ci db1 = Some (cx\<lparr>cx_mosq := (cx_mosq cx)\<lparr>c_clean_session := True\<rparr>\<rparr>)"
      using s(1) Some get_ctx_length [OF Some] by (auto simp: ctx_upd_mosq_def get_put_ctx)
    then show ?thesis by (rule cleanup_free_good [OF s(2) g1]) simp
  qed
  have c: "good {} {} b db'" if "mqtt3_context_cleanup db ci True = Some db'" "c_clean_session (cx_mosq cx)"
    by (rule cleanup_free_good [OF that(1) g Some that(2)])
  show ?thesis using h g d w x c
    by (auto simp: loop_context_def Some Let_def bind_eq_Some_conv split: if_splits)
qed (use h g in \<open>simp add: loop_context_def\<close>)

lemma loop_error_good: "\<lbrakk>loop_error ci ev db = Some db'; good {} {} b db\<rbrakk> \<Longrightarrow> good {} {} b db'"
  using disconnect_good good_mono [of "{}" "{}" b db "{ci}"] by (auto simp: loop_error_def split: if_splits)

lemma for_contexts_inv: "\<lbrakk>for_contexts f is db = Some db'; P db; \<And>i d d'. \<lbrakk>f i d = Some d'; P d\<rbrakk> \<Longrightarrow> P d'\<rbrakk> \<Longrightarrow> P db'"
  by (induction f "is" db rule: for_contexts.induct) (auto simp: bind_eq_Some_conv)

text \<open>The array of contexts changes without the queues and the names.\<close>

lemma contexts_good:
  assumes g: "good {} {} b db" and q: "queue_refs db' = queue_refs db" and ids: "ctx_id db' = ctx_id db"
    and all: "\<And>i cx'. get_ctx i db' = Some cx' \<Longrightarrow> ctx_ok cx' \<and> cx_bridge cx' = None \<and> ctx_live cx'"
    and same: "db_subs db' = db_subs db" "db_clientid_index_hash db' = db_clientid_index_hash db" "db_heap db' = db_heap db"
      "db_msg_store db' = db_msg_store db" "db_msg_store_count db' = db_msg_store_count db" "db_next db' = db_next db"
    and al: "db_allocs db = [] \<Longrightarrow> db_allocs db' = []"
  shows "good {} {} b db'"
proof -
  have "queues_ok db'" using all by (auto simp: queues_ok_iff)
  then have "store_inv db' M" if "store_inv db M" for M
    using that q same by (auto simp: store_inv_def store_ok_def refs_ok_def ref_count_def)
  moreover have "hash_inv {} db' = hash_inv {} db" using ids same(2) by (simp add: hash_inv_def)
  ultimately show ?thesis using g all ids same(1) al unfolding good_def core_def by auto
qed

lemma good_ctx: "\<lbrakk>good {} {} b db; get_ctx i db = Some cx\<rbrakk> \<Longrightarrow> ctx_ok cx \<and> cx_bridge cx = None \<and> ctx_live cx"
  using store_inv_ctx by (auto simp: good_def core_def)

lemma set_now_good: "good {} {} b db \<Longrightarrow> good {} {} b (set_now n db)"
proof -
  assume g: "good {} {} b db"
  let ?f = "\<lambda>cx :: ctx. cx\<lparr>cx_mosq := (cx_mosq cx)\<lparr>e_now := n\<rparr>\<rparr>"
  have ctx: "get_ctx i (set_now n db) = map_option ?f (get_ctx i db)" for i by (simp add: get_ctx_def set_now_def)
  have "ctx_refs \<circ> map_option ?f = ctx_refs" by (auto simp: ctx_refs_def fun_eq_iff split: option.split)
  then have "queue_refs (set_now n db) = queue_refs db" by (simp add: queue_refs_def set_now_def)
  moreover have "ctx_id (set_now n db) = ctx_id db" by (rule ext) (simp add: ctx_id_def ctx split: option.split bind_split)
  moreover have "ctx_ok cx' \<and> cx_bridge cx' = None \<and> ctx_live cx'" if c: "get_ctx i (set_now n db) = Some cx'" for i cx'
  proof -
    obtain cx where cx: "get_ctx i db = Some cx" "cx' = ?f cx" using c ctx by auto
    then show ?thesis using good_ctx [OF g cx(1)] by (auto simp: ctx_ok_def last_ok_def ctx_live_def)
  qed
  ultimately show ?thesis by (intro contexts_good [OF g]) (auto simp: set_now_def)
qed

text \<open>A new connection.\<close>

lemma free_slot_free: "free_slot i xs = i + k \<Longrightarrow> k < length xs \<Longrightarrow> xs ! k = None"
proof (induction i xs arbitrary: k rule: free_slot.induct)
  case (2 i r)
  then show ?case by simp
next
  case (3 i x r)
  show ?case
  proof (cases k)
    case 0
    have "free_slot (i + 1) r \<ge> i + 1" by (induction "i + 1" r arbitrary: i rule: free_slot.induct) (auto simp: Suc_leD)
    then show ?thesis using "3.prems" 0 by simp
  qed (use "3.IH" "3.prems" in simp)
qed simp

lemma fresh_good:
  assumes g: "good {} {} b db" and new: "cx_msgs cx = []" "c_id (cx_mosq cx) = None" "ctx_ok cx" "cx_bridge cx = None" "ctx_live cx"
    and k: "(k < length (db_contexts db) \<and> db_contexts db ! k = None \<and> db' = put_ctx k cx db) \<or> (k = length (db_contexts db) \<and> db' = db\<lparr>db_contexts := db_contexts db @ [Some cx]\<rparr>)"
  shows "good {} {} b db'"
proof -
  have none: "get_ctx k db = None" using k by (auto simp: get_ctx_def)
  have ctx: "get_ctx i db' = (if i = k then Some cx else get_ctx i db)" for i
    using k by (auto simp: get_ctx_def put_ctx_def nth_list_update nth_append)
  have e: "ctx_refs (Some cx) = {#}" "ctx_refs None = {#}" by (simp_all add: ctx_refs_def new(1))
  have "queue_refs db' = queue_refs db"
    using k sum_list_update [of k "db_contexts db" ctx_refs "Some cx"] e by (auto simp: queue_refs_def put_ctx_def)
  moreover have "ctx_id db' = ctx_id db" using none new(2) by (auto simp: fun_eq_iff ctx_id_def ctx)
  moreover have "ctx_ok x \<and> cx_bridge x = None \<and> ctx_live x" if "get_ctx i db' = Some x" for i x
    using that good_ctx [OF g] new(3-5) by (auto simp: ctx split: if_splits)
  ultimately show ?thesis using k by (intro contexts_good [OF g]) (auto simp: put_ctx_def)
qed

lemma context_init_new:
  assumes "mqtt3_context_init cn db = (c, db')" "cn_sock cn \<noteq> -1"
  shows "act db db'" "\<And>cx. c = Some cx \<Longrightarrow> cx_msgs cx = [] \<and> c_id (cx_mosq cx) = None \<and> ctx_ok cx \<and> cx_bridge cx = None \<and> ctx_live cx"
proof -
  obtain b1 db1 where 1: "db_alloc db = (b1, db1)" by fastforce
  obtain b2 db2 where 2: "db_alloc db1 = (b2, db2)" by fastforce
  have a: "act db db1" "act db db2" using act_alloc [OF 1] act_alloc [OF 2] act_trans by blast+
  show "act db db'" using assms a by (auto simp: mqtt3_context_init_def 1 2 Let_def split: option.splits if_splits bool.splits)
  show "cx_msgs cx = [] \<and> c_id (cx_mosq cx) = None \<and> ctx_ok cx \<and> cx_bridge cx = None \<and> ctx_live cx" if "c = Some cx" for cx
    using assms that
    by (auto simp: mqtt3_context_init_def 1 2 Let_def ctx_ok_def last_ok_def ctx_live_def mosq_calloc_def split: option.splits if_splits bool.splits)
qed

lemma listeners_act: "act db (db\<lparr>db_listeners := ls\<rparr>)"
proof -
  have "store_inv (db\<lparr>db_listeners := ls\<rparr>) M = store_inv db M" for M by (rule store_inv_cong) (simp add: store_view_def)
  then have "safe_step db (db\<lparr>db_listeners := ls\<rparr>)"
    by (intro safe_step_keeps) (simp add: keeps_def same_clients_def same_settings_def ctx_id_def get_ctx_def fun_eq_iff)
  then show ?thesis by (simp add: act_def calm_def get_ctx_def)
qed

lemma accept_socket_good:
  assumes a: "mqtt3_socket_accept db sock cn = Some (s, db')" and g: "good {} {} b db"
  shows "good {} {} b db'"
proof -
  obtain c db1 where i: "mqtt3_context_init cn db = (c, db1)" by fastforce
  obtain l ls where e: "listener_enter sock 0 (db_listeners db1) None = (l, ls)" by fastforce
  define db2 where "db2 = db1\<lparr>db_listeners := ls\<rparr>"
  obtain al db3 where m: "db_alloc db2 = (al, db3)" by fastforce
  show ?thesis
  proof (cases "cn_sock cn = INVALID_SOCKET \<or> \<not> cn_nonblock cn")
    case False
    have sock: "cn_sock cn \<noteq> -1" using False by simp
    have g1: "good {} {} b db1" by (rule act_good [OF context_init_new(1) [OF i sock] g])
    have g2: "good {} {} b db2" unfolding db2_def by (rule act_good [OF listeners_act g1])
    have g3: "good {} {} b db3" by (rule good_alloc [OF m g2])
    have c3: "db_contexts db3 = db_contexts db2" using m by (auto simp: db_alloc_def split: prod.splits)
    show ?thesis
    proof (cases c)
      case None
      then show ?thesis using a False g1 by (auto simp: mqtt3_socket_accept_def i)
    next
      case (Some cx)
      note new = context_init_new(2) [OF i sock Some]
      define k where "k = free_slot 0 (db_contexts db2)"
      define cx' where "cx' = cx\<lparr>cx_listener := l\<rparr>"
      have new': "cx_msgs cx' = []" "c_id (cx_mosq cx') = None" "ctx_ok cx'" "cx_bridge cx' = None" "ctx_live cx'"
        using new by (auto simp: cx'_def ctx_ok_def last_ok_def ctx_live_def)
      define full where "full \<longleftrightarrow> ls_max_connections (ls ! the l) > 0 \<and> ls_client_count (ls ! the l) > ls_max_connections (ls ! the l)"
      have r: "(case l of None \<Rightarrow> Some (-1, db2)
          | Some i \<Rightarrow> if full then do { db \<leftarrow> listener_leave l db2; Some (-1, db) }
              else if k < length (db_contexts db2) then Some (cn_sock cn, put_ctx k cx' db2)
              else if al then Some (cn_sock cn, db3\<lparr>db_contexts := db_contexts db3 @ [Some cx']\<rparr>)
              else do { db \<leftarrow> listener_leave l db3; Some (-1, db) }) = Some (s, db')"
        using a False Some m unfolding mqtt3_socket_accept_def full_def k_def cx'_def db2_def
        by (cases l; cases al) (simp_all add: i e Let_def cong: if_cong)
      consider "db' = db2" | "db' = db3" | "listener_leave l db2 = Some db'" | "listener_leave l db3 = Some db'"
        | "k < length (db_contexts db2)" "db' = put_ctx k cx' db2" | "db' = db3\<lparr>db_contexts := db_contexts db3 @ [Some cx']\<rparr>"
      proof (cases l)
        case None
        then show thesis using r that(1) by simp
      next
        case (Some i)
        then show thesis using r that(3-6) by (auto simp: bind_eq_Some_conv split: if_splits)
      qed
      then show ?thesis
      proof cases
        case 5
        then show ?thesis using free_slot_free [of 0 "db_contexts db2" k] by (intro fresh_good [OF g2 new', of k]) (simp add: k_def)
      next
        case 6
        then show ?thesis using fresh_good [OF g3 new', of "length (db_contexts db3)"] by simp
      qed (use g2 g3 listener_leave_still act_good in blast)+
    qed
  qed (use a g in \<open>auto simp: mqtt3_socket_accept_def split: if_splits\<close>)
qed

lemma accept_loop_good: "\<lbrakk>accept_loop sock cs db = Some db'; good {} {} b db\<rbrakk> \<Longrightarrow> good {} {} b db'"
proof (induction sock cs db rule: accept_loop.induct)
  case (2 sock c cs db)
  then show ?case using accept_socket_good by (fastforce simp: bind_eq_Some_conv split: if_splits)
qed simp

lemma accept_all_good: "\<lbrakk>accept_all as db = Some db'; good {} {} b db\<rbrakk> \<Longrightarrow> good {} {} b db'"
  by (induction "as" db rule: accept_all.induct) (auto simp: bind_eq_Some_conv dest: accept_loop_good)

lemma main_round_good:
  assumes r: "main_round ro db = Some db'" and g: "good {} {} b db"
  shows "good {} {} b db'"
proof -
  let ?db0 = "set_now (ro_now ro) db"
  obtain db1 where 1: "for_contexts loop_context [0..<length (db_contexts ?db0)] ?db0 = Some db1"
    using r by (auto simp: main_round_def Let_def bind_eq_Some_conv)
  define db2 where "db2 = snd (mqtt3_db_message_timeout_check db1 (cf_retry_interval (db_config db1)))"
  obtain db3 where 3: "(if ro_failed ro then for_contexts (\<lambda>i. loop_error i (ro_events ro i)) [0..<length (db_contexts db2)] db2
         else do { db \<leftarrow> for_contexts (\<lambda>i. loop_io i (ro_events ro i)) [0..<length (db_contexts db2)] db2; accept_all (ro_accepts ro) db }) = Some db3"
    and 4: "(if cf_store_clean_interval (db_config db3) = 0 \<or> ro_clean ro then mqtt3_db_store_clean db3 else Some db3) = Some db'"
  proof -
    obtain rc where t: "mqtt3_db_message_timeout_check db1 (cf_retry_interval (db_config db1)) = (rc, db2)"
      unfolding db2_def by (metis prod.collapse)
    show thesis using r that unfolding main_round_def Let_def 1 bind.bind_lunit t prod.case by (auto simp: bind_eq_Some_conv)
  qed
  have g1: "good {} {} b db1" by (rule for_contexts_inv [where P = "good {} {} b", OF 1 set_now_good [OF g] loop_context_good])
  have g2: "good {} {} b db2" unfolding db2_def by (rule act_good [OF still_act [OF timeout_check_safe timeout_check_still] g1])
  have "good {} {} b db3"
  proof (cases "ro_failed ro")
    case True
    then show ?thesis using 3 for_contexts_inv [where P = "good {} {} b", OF _ g2 loop_error_good] by simp
  next
    case False
    then obtain d where d: "for_contexts (\<lambda>i. loop_io i (ro_events ro i)) [0..<length (db_contexts db2)] db2 = Some d" "accept_all (ro_accepts ro) d = Some db3"
      using 3 by (auto simp: bind_eq_Some_conv)
    have "good {} {} b d" by (rule for_contexts_inv [where P = "good {} {} b", OF d(1) g2 loop_io_good])
    then show ?thesis by (rule accept_all_good [OF d(2)])
  qed
  then show ?thesis using 4 act_good [OF still_act [OF store_clean_safe store_clean_still]] by (auto split: if_splits)
qed

end
