(* ===== verification/Broker_Run.thy ===== *)
theory Broker_Run
  imports Broker_Round
begin

text \<open>
  The broker from its start, as a state machine: the database is opened, settings are read, and then the main loop runs. The
  invariant of the rounds gives the properties of every state that it reaches.
\<close>

section \<open>The state machine\<close>

text \<open>
  The database before it is opened: \<open>main\<close> fills it with zero bytes. \<open>al\<close> are the outcomes of the allocations of the whole run, and
  the limits of the queues come from the configuration.
\<close>

definition db_zero :: "config \<Rightarrow> int \<Rightarrow> int \<Rightarrow> bool list \<Rightarrow> db" where
  "db_zero cf inflight queued al =
     \<lparr>db_last_db_id = 0, db_subs = [], db_acl_list = [], db_acl_patterns = [], db_contexts = [], db_heap = (\<lambda>_. None),
      db_msg_store = [], db_msg_store_count = 0, db_config = cf, db_persistence_changes = 0, db_subscription_count = 0,
      db_retained_count = 0, db_max_inflight = inflight, db_max_queued = queued, db_msgs_dropped = 0, db_now = 0, db_allocs = al,
      db_next = 0, db_plugin = None, db_plugin_unpwd = (\<lambda>_ _. 0), db_unpwd = [], db_clientid_index_hash = [], db_listeners = [],
      db_rand = []\<rparr>"

text \<open>What the security modules and the listening sockets set up before the main loop, and what the random numbers are.\<close>

record settings =
  su_acl_list :: "(string option \<times> (string \<times> int) list) list"
  su_acl_patterns :: "(string \<times> int) list"
  su_plugin :: "(string option \<Rightarrow> string option \<Rightarrow> string \<Rightarrow> int \<Rightarrow> int) option"
  su_plugin_unpwd :: "string option \<Rightarrow> string option \<Rightarrow> int"
  su_unpwd :: "(string \<times> string option) list"
  su_listeners :: "listener list"
  su_rand :: "int list"

definition set_up :: "settings \<Rightarrow> db \<Rightarrow> db" where
  "set_up su db = db\<lparr>db_acl_list := su_acl_list su, db_acl_patterns := su_acl_patterns su, db_plugin := su_plugin su,
     db_plugin_unpwd := su_plugin_unpwd su, db_unpwd := su_unpwd su, db_listeners := su_listeners su, db_rand := su_rand su\<rparr>"

text \<open>A step is a round of the main loop, or a message of the broker itself below \<open>$SYS\<close>.\<close>

inductive broker_runs :: "bool list \<Rightarrow> db \<Rightarrow> bool" for al where
  start: "mqtt3_db_open (db_zero cf inflight queued al) = (MOSQ_ERR_SUCCESS, db) \<Longrightarrow> broker_runs al (set_up su db)"
| sys: "\<lbrakk>broker_runs al db; mqtt3_db_messages_easy_queue db None topic qos len payload retain = Some (rc, db')\<rbrakk> \<Longrightarrow> broker_runs al db'"
| round: "\<lbrakk>broker_runs al db; main_round ro db = Some db'\<rbrakk> \<Longrightarrow> broker_runs al db'"

section \<open>The invariant holds\<close>

lemma set_up_good: "good {} {} b (set_up su db) = good {} {} b db"
proof -
  have "core {} {} (set_up su db) = core {} {} db" by (rule core_cong) (simp_all add: set_up_def store_view_def)
  moreover have "hash_inv {} (set_up su db) = hash_inv {} db" by (simp add: hash_inv_def set_up_def ctx_id_def get_ctx_def)
  ultimately show ?thesis by (simp add: good_def set_up_def)
qed

lemma db_open_good:
  assumes "mqtt3_db_open (db_zero cf inflight queued al) = (MOSQ_ERR_SUCCESS, db)"
  shows "good {} {} (al = []) db"
proof -
  have "db_contexts db = [None]" "db_subs db = [Subhier '''' [] None [], Subhier ''$SYS'' [] None []]" "db_heap db = (\<lambda>_. None)" "db_msg_store db = []"
    "db_msg_store_count db = 0" "db_clientid_index_hash db = []" "al = [] \<longrightarrow> db_allocs db = []"
    using assms by (auto simp: mqtt3_db_open_def db_zero_def db_alloc_def split: prod.splits bool.splits if_splits)
  then show ?thesis
    by (auto simp: good_def core_def hash_inv_def ctx_id_def get_ctx_def store_inv_def refs_ok_def ref_count_def queue_refs_def ctx_refs_def
        queues_ok_def store_ok_def)
qed

lemma runs_good: "broker_runs al db \<Longrightarrow> good {} {} (al = []) db"
proof (induction rule: broker_runs.induct)
  case (start cf inflight queued db su)
  then show ?case using db_open_good set_up_good by blast
next
  case (sys db topic qos len payload retain rc db')
  then show ?case using act_good [OF easy_queue_act] by blast
next
  case (round db ro db')
  then show ?case using main_round_good by blast
qed

section \<open>What holds in every state\<close>

text \<open>
  Example: a broker with one listener, on which clients connect and do what their bytes say. In every round each socket is readable
  and writable.
\<close>

definition demo_start :: db where
  "demo_start = set_up \<lparr>su_acl_list = [], su_acl_patterns = [], su_plugin = None, su_plugin_unpwd = (\<lambda>_ _. 0), su_unpwd = [],
       su_listeners = [\<lparr>ls_max_connections = -1, ls_mount_point = None, ls_socks = [3], ls_client_count = 0\<rparr>], su_rand = []\<rparr>
     (snd (mqtt3_db_open (db_zero (db_config (demo_db [])) 20 100 [])))"

definition demo_conn :: "int \<Rightarrow> u8 list list \<Rightarrow> wr_event list \<Rightarrow> conn" where
  "demo_conn s rx wr = \<lparr>cn_sock = s, cn_nonblock = True, cn_address = Some ''10.0.0.1'', cn_rx = map Rx_data rx, cn_wr = wr\<rparr>"

definition demo_connect :: "u8 \<Rightarrow> string \<Rightarrow> u8 list" where
  "demo_connect flags name = [0x10, 14 + of_nat (length name), 0, 6] @ bytes_of_string ''MQIsdp'' @ [3, flags, 0, 60, 0, of_nat (length name)] @ bytes_of_string name"

definition demo_round :: "conn list \<Rightarrow> round" where
  "demo_round cs = \<lparr>ro_failed = False, ro_events = (\<lambda>_. \<lparr>re_out = True, re_in = True, re_err = False\<rparr>),
     ro_accepts = (if cs = [] then [] else [(3, cs)]), ro_now = 5, ro_clean = False\<rparr>"

fun demo_run :: "conn list list \<Rightarrow> db \<Rightarrow> db option" where
  "demo_run [] db = Some db"
| "demo_run (cs # r) db = do { db \<leftarrow> main_round (demo_round cs) db; demo_run r db }"

lemma demo_start_runs: "broker_runs [] demo_start"
proof -
  let ?r = "mqtt3_db_open (db_zero (db_config (demo_db [])) 20 100 [])"
  have "fst ?r = MOSQ_ERR_SUCCESS" by code_simp
  then have "?r = (MOSQ_ERR_SUCCESS, snd ?r)" by (metis prod.collapse)
  then show ?thesis unfolding demo_start_def by (rule broker_runs.start)
qed

lemma demo_run_runs: "\<lbrakk>demo_run r db = Some db'; broker_runs al db\<rbrakk> \<Longrightarrow> broker_runs al db'"
  by (induction r db rule: demo_run.induct) (auto simp: bind_eq_Some_conv intro: broker_runs.round)

text \<open>Alice subscribes to \<open>a/b\<close>, and Bob publishes a message there with QoS 1, which waits for Alice's acknowledgement.\<close>

definition demo_talk :: "conn list list" where
  "demo_talk = [[demo_conn 10 [demo_connect 2 ''alice'', [0x82, 8, 0, 1, 0, 3] @ bytes_of_string ''a/b'' @ [1]] [],
     demo_conn 11 [demo_connect 2 ''bob'', [0x32, 9, 0, 3] @ bytes_of_string ''a/b'' @ [0, 7] @ bytes_of_string ''hi''] []], [], []]"

lemma demo_talk_queued:
  "map_option (\<lambda>db. (map (\<lambda>c. do { cx \<leftarrow> c; n \<leftarrow> c_id (cx_mosq cx); Some (n, map cm_store (cx_msgs cx)) }) (db_contexts db),
     map_option st_ref_count (db_heap db 0), map_of (root_subs (db_subs db) ['''', ''a'', ''b'']) 0)) (demo_run demo_talk demo_start)
   = Some ([Some (''alice'', [0]), Some (''bob'', [])], Some 1, Some 1)"
  by code_simp

lemma demo_talk_runs:
  obtains db where "broker_runs [] db" "map (\<lambda>c. do { cx \<leftarrow> c; n \<leftarrow> c_id (cx_mosq cx); Some (n, map cm_store (cx_msgs cx)) }) (db_contexts db)
    = [Some (''alice'', [0]), Some (''bob'', [])]"
  using demo_talk_queued demo_run_runs [OF _ demo_start_runs, of demo_talk] by auto


text \<open>C4: the broker uses no freed memory. In every state that it reaches, whatever clients send and whenever memory runs out, each message in
  the queue of a client is a message of the store, its reference count is at least the number of the places that refer to it (in queues and as
  retained messages), so that cleaning the store removes none of them, and each subscription belongs to a client that is there and has a name.\<close>

theorem broker_references_valid:
  assumes "broker_runs al db"
  shows "(\<forall>ci cx. get_ctx ci db = Some cx \<longrightarrow> (\<forall>m \<in> set (cx_msgs cx). cm_store m \<in> set (db_msg_store db) \<and> db_heap db (cm_store m) \<noteq> None))
    \<and> (\<forall>r. int (count (queue_refs db + tree_refs (db_subs db)) r) \<le> ref_count db r)
    \<and> (\<forall>ci \<in> tree_clients (db_subs db). \<exists>cx. get_ctx ci db = Some cx \<and> c_id (cx_mosq cx) \<noteq> None)"
proof -
  obtain L where i: "store_inv db (tree_refs (db_subs db) + L)" and t: "\<forall>ci \<in> tree_clients (db_subs db). ctx_id db ci \<noteq> None"
    using runs_good [OF assms] by (auto simp: good_def core_def)
  have "db_heap db (cm_store m) \<noteq> None" if "get_ctx ci db = Some cx" "m \<in> set (cx_msgs cx)" for ci cx m
    using i in_queue_refs [OF that] by (auto simp: store_inv_def refs_ok_def)
  moreover have "dom (db_heap db) = set (db_msg_store db)" using i by (simp add: store_inv_def store_ok_def)
  moreover have "int (count (queue_refs db + tree_refs (db_subs db)) r) \<le> ref_count db r" for r
    using i by (simp add: store_inv_def refs_ok_def)
  moreover have "\<exists>cx. get_ctx ci db = Some cx \<and> c_id (cx_mosq cx) \<noteq> None" if "ci \<in> tree_clients (db_subs db)" for ci
    using t that by (auto simp: ctx_id_def split: bind_splits)
  ultimately show ?thesis by blast
qed

theorem broker_references_valid_witness:
  "\<exists>db cx m. broker_runs [] db \<and> get_ctx 0 db = Some cx \<and> c_id (cx_mosq cx) = Some ''alice'' \<and> cx_msgs cx = [m] \<and> cm_store m \<in> set (db_msg_store db)
     \<and> 1 \<le> ref_count db (cm_store m)"
proof -
  obtain db where d: "broker_runs [] db" "map (\<lambda>c. do { cx \<leftarrow> c; n \<leftarrow> c_id (cx_mosq cx); Some (n, map cm_store (cx_msgs cx)) }) (db_contexts db)
    = [Some (''alice'', [0]), Some (''bob'', [])]" by (rule demo_talk_runs)
  then obtain cx m where m: "get_ctx 0 db = Some cx" "c_id (cx_mosq cx) = Some ''alice''" "cx_msgs cx = [m]"
    by (auto simp: get_ctx_def bind_eq_Some_conv map_eq_Cons_conv)
  note v = broker_references_valid [OF d(1)]
  have "cm_store m \<in># queue_refs db" using in_queue_refs [OF m(1)] m(3) by simp
  then have "1 \<le> int (count (queue_refs db + tree_refs (db_subs db)) (cm_store m))" by (simp add: Suc_leI flip: of_nat_add)
  then have "1 \<le> ref_count db (cm_store m)" using v by (meson order_trans)
  moreover have "cm_store m \<in> set (db_msg_store db)" using v m by simp
  ultimately show ?thesis using d(1) m by blast
qed

text \<open>C12: while memory does not run out, no two clients of the broker have the same name, and the table of ids finds, for each name, exactly
  the client that has it.\<close>

theorem broker_names_unique:
  assumes "broker_runs [] db"
  shows "cih_find cid (db_clientid_index_hash db) = Some i \<longleftrightarrow> ctx_id db i = Some cid"
proof -
  have h: "hash_inv {} db" using runs_good [OF assms] by (simp add: good_def)
  then show ?thesis by (auto simp: hash_inv_def cih_find_def dest: map_of_SomeD)
qed

theorem broker_names_unique_witness:
  "\<exists>db. broker_runs [] db \<and> cih_find ''bob'' (db_clientid_index_hash db) = Some 1 \<and> (\<forall>i. ctx_id db i = Some ''bob'' \<longrightarrow> i = 1)"
proof -
  obtain db where d: "broker_runs [] db" "map (\<lambda>c. do { cx \<leftarrow> c; n \<leftarrow> c_id (cx_mosq cx); Some (n, map cm_store (cx_msgs cx)) }) (db_contexts db)
    = [Some (''alice'', [0]), Some (''bob'', [])]" by (rule demo_talk_runs)
  then have "ctx_id db 1 = Some ''bob''" by (auto simp: ctx_id_def get_ctx_def bind_eq_Some_conv map_eq_Cons_conv)
  then have "cih_find ''bob'' (db_clientid_index_hash db) = Some 1" using broker_names_unique [OF d(1)] by simp
  moreover from this have "\<forall>i. ctx_id db i = Some ''bob'' \<longrightarrow> i = 1" using broker_names_unique [OF d(1)] by (metis option.inject)
  ultimately show ?thesis using d(1) by blast
qed

text \<open>C30: every client of a running broker is well-formed: an open connection has a name exactly if its CONNECT was accepted, and a nameless one is
  at its first packet, a CONNECT; the counters of its queue are right, the last pointer is at the last message, and only QoS 2 messages wait in the
  incoming direction.\<close>

theorem broker_clients_typed:
  assumes "broker_runs al db" "get_ctx ci db = Some cx"
  shows "(c_sock (cx_mosq cx) = INVALID_SOCKET \<or> (c_id (cx_mosq cx) = None) = (c_state (cx_mosq cx) = mosq_cs_new))
    \<and> (c_sock (cx_mosq cx) = INVALID_SOCKET \<or> c_id (cx_mosq cx) \<noteq> None \<or> pk_command (c_in_packet (cx_mosq cx)) = 0
         \<or> pk_command (c_in_packet (cx_mosq cx)) AND 0xF0 = CONNECT)
    \<and> cx_msg_count cx = int (length (cx_msgs cx)) \<and> cx_msg_count12 cx = int (length (filter (\<lambda>m. cm_qos m > 0) (cx_msgs cx)))
    \<and> last_ok cx \<and> (\<forall>m \<in> set (cx_msgs cx). cm_direction m = mosq_md_in \<longrightarrow> cm_qos m = 2)"
  using good_ctx [OF runs_good [OF assms(1)] assms(2)] by (auto simp: ctx_live_def ctx_ok_def list_all_iff msg_ok_def split: if_splits)

theorem broker_clients_typed_witness:
  "\<exists>db cx. broker_runs [] db \<and> get_ctx 0 db = Some cx \<and> length (cx_msgs cx) = 1 \<and> cx_msg_count cx = 1 \<and> last_ok cx"
proof -
  obtain db where d: "broker_runs [] db" "map (\<lambda>c. do { cx \<leftarrow> c; n \<leftarrow> c_id (cx_mosq cx); Some (n, map cm_store (cx_msgs cx)) }) (db_contexts db)
    = [Some (''alice'', [0]), Some (''bob'', [])]" by (rule demo_talk_runs)
  then obtain cx m where m: "get_ctx 0 db = Some cx" "cx_msgs cx = [m]" by (auto simp: get_ctx_def bind_eq_Some_conv map_eq_Cons_conv)
  then show ?thesis using broker_clients_typed [OF d(1) m(1)] d(1) by auto
qed

section \<open>A takeover and its listener\<close>

text \<open>
  A client that takes over a session gets the listener of the connection, which stays with the context of the connection, too. As long as
  the latter is freed without its listener, the count is right. When the answer to the CONNECT cannot be sent, it is not.
\<close>

lemma cleanup_session_others:
  assumes s: "cleanup_session db i = Some db'" and t: "tree_ok (db_subs db)" and ne: "ci \<noteq> i"
  shows "rel_option still (get_ctx ci db) (get_ctx ci db')"
proof -
  obtain cx where cx: "get_ctx i db = Some cx" using s by (auto simp: cleanup_session_def bind_eq_Some_conv)
  define m where "m = (cx_mosq cx)\<lparr>c_username := None, c_password := None\<rparr>"
  obtain cx1 db1 where 1: "(if c_sock m \<noteq> -1 then
            do { db \<leftarrow> listener_leave (cx_listener cx) db; Some (cx\<lparr>cx_mosq := mosquitto_socket_close m, cx_listener := None\<rparr>, db) }
          else Some (cx\<lparr>cx_mosq := m\<rparr>, db)) = Some (cx1, db1)"
    and r: "(if c_clean_session m
       then do { (rc, db) \<leftarrow> mqtt3_db_messages_delete (snd (mqtt3_subs_clean_session (put_ctx i cx1 db1) i)) i; Some db }
       else Some (put_ctx i cx1 db1)) = Some db'"
    using s cx unfolding cleanup_session_def m_def by (auto simp: bind_eq_Some_conv Let_def)
  have g: "get_ctx ci db1 = get_ctx ci db" using 1 listener_leave_still by (auto simp: bind_eq_Some_conv split: if_splits)
  have "db_subs db1 = db_subs db" using 1 by (auto simp: bind_eq_Some_conv listener_leave_def split: if_splits option.splits)
  then have "db_still (put_ctx i cx1 db1) (snd (mqtt3_subs_clean_session (put_ctx i cx1 db1) i))" using t by (intro clean_session_still) simp
  then have "db_still (put_ctx i cx1 db1) db'"
    using r messages_delete_still db_still_trans by (fastforce simp: bind_eq_Some_conv split: if_splits)
  then have "rel_option still (get_ctx ci (put_ctx i cx1 db1)) (get_ctx ci db')" by (simp add: db_still_def)
  then show ?thesis using g ne by (simp add: get_put_ctx)
qed

lemma cleanup_others:
  assumes c: "mqtt3_context_cleanup db i False = Some db'" and t: "tree_ok (db_subs db)" and ne: "ci \<noteq> i"
  shows "rel_option still (get_ctx ci db) (get_ctx ci db')" "\<exists>cx'. get_ctx i db' = Some cx' \<and> c_will (cx_mosq cx') = None"
proof -
  obtain db1 cx1 where s: "cleanup_session db i = Some db1" "get_ctx i db1 = Some cx1" using c by (auto simp: mqtt3_context_cleanup_def bind_eq_Some_conv)
  define db2 where "db2 = (case c_id (cx_mosq cx1) of None \<Rightarrow> db1 | Some cid \<Rightarrow> db1\<lparr>db_clientid_index_hash := cih_del cid (db_clientid_index_hash db1)\<rparr>)"
  define cx2 where "cx2 = cx1\<lparr>cx_mosq := (cx_mosq cx1)\<lparr>c_id := None, c_in_packet := mosquitto_packet_cleanup (c_in_packet (cx_mosq cx1)),
    c_current_out_packet := None, c_out_packet := [], c_will := None\<rparr>, cx_address := None\<rparr>"
  have g2: "get_ctx j db2 = get_ctx j db1" for j by (simp add: db2_def get_ctx_def split: option.split)
  obtain cx3 db3 where e: "(if c_clean_session (cx_mosq cx2)
         then do { db \<leftarrow> release_refs (cx_msgs cx2) db2; Some (cx2\<lparr>cx_msgs := [], cx_last_msg := Last_null\<rparr>, db) }
         else Some (cx2, db2)) = Some (cx3, db3)" "db' = put_ctx i cx3 db3"
    using c s unfolding mqtt3_context_cleanup_def db2_def cx2_def Let_def by (auto simp: bind_eq_Some_conv)
  have g3: "get_ctx j db3 = get_ctx j db1" for j using e(1) g2 release_refs_still by (fastforce simp: bind_eq_Some_conv split: if_splits)
  have "c_will (cx_mosq cx3) = None" using e(1) by (auto simp: cx2_def bind_eq_Some_conv split: if_splits)
  moreover have "i < length (db_contexts db3)" by (rule get_ctx_length) (simp add: g3 s(2))
  ultimately show "\<exists>cx'. get_ctx i db' = Some cx' \<and> c_will (cx_mosq cx') = None" by (simp add: e(2) get_put_ctx)
  show "rel_option still (get_ctx ci db) (get_ctx ci db')" using cleanup_session_others [OF s(1) t ne] ne by (simp add: e(2) get_put_ctx g3)
qed

lemma disconnect_quiet:
  assumes "get_ctx ci db = Some cx" "c_will (cx_mosq cx) = None \<or> c_state (cx_mosq cx) = mosq_cs_disconnecting" "cx_listener cx = Some l"
  shows "mqtt3_context_disconnect db ci =
    (if l < length (db_listeners db) \<and> ls_client_count (db_listeners db ! l) - 1 \<ge> 0
     then Some (put_ctx ci (cx\<lparr>cx_mosq := mosquitto_socket_close ((cx_mosq cx)\<lparr>c_will := None\<rparr>), cx_listener := None, cx_disconnect_t := db_now db\<rparr>)
       (db\<lparr>db_listeners := (db_listeners db)[l := (db_listeners db ! l)\<lparr>ls_client_count := ls_client_count (db_listeners db ! l) - 1\<rparr>]\<rparr>))
     else None)"
  using assms by (auto simp: mqtt3_context_disconnect_def listener_leave_def split: option.split)

lemma takeover_known: "\<lbrakk>connect_takeover ci cid clean db = Some (i, db'); cih_find cid (db_clientid_index_hash db) = Some k\<rbrakk> \<Longrightarrow> i = k"
proof -
  assume t: "connect_takeover ci cid clean db = Some (i, db')" and k: "cih_find cid (db_clientid_index_hash db) = Some k"
  obtain db1 db2 cx where s: "ctx_upd_mosq k (\<lambda>m. m\<lparr>c_clean_session := clean\<rparr>) db = Some db1" "mqtt3_context_cleanup db1 k False = Some db2" "get_ctx ci db2 = Some cx"
    using t k by (auto simp: connect_takeover_def bind_eq_Some_conv)
  obtain b1 b2 db3 where a: "takeover_strings cx db2 = (b1, b2, db3)" by (metis prod_cases3)
  show "i = k" using t k s a by (auto simp: connect_takeover_def bind_eq_Some_conv split: if_splits)
qed

text \<open>C31: a takeover counts its connection twice. After a client with a known name has connected, and if its connection is the only one of the
  listener, disconnecting the context of the connection (as the main loop does when the CONNACK cannot be written) and then the context of
  the session fails the assertion that the count of the listener is not negative.\<close>

theorem takeover_counted_twice:
  assumes "connect_takeover ci cid clean db = Some (i, db')" "i \<noteq> ci" "tree_ok (db_subs db)"
    and "get_ctx ci db = Some cx" "cx_listener cx = Some l" "l < length (db_listeners db')" "ls_client_count (db_listeners db' ! l) = 1"
  shows "\<exists>db''. mqtt3_context_disconnect db' ci = Some db'' \<and> mqtt3_context_disconnect db'' i = None"
proof -
  have f: "cih_find cid (db_clientid_index_hash db) = Some i"
  proof (cases "cih_find cid (db_clientid_index_hash db)")
    case None
    then show ?thesis using assms(1,2) by (simp add: connect_takeover_def)
  qed (use takeover_known [OF assms(1)] in auto)
  obtain db1 db2 cx2 old address where s: "ctx_upd_mosq i (\<lambda>m. m\<lparr>c_clean_session := clean\<rparr>) db = Some db1" "mqtt3_context_cleanup db1 i False = Some db2"
    "get_ctx ci db2 = Some cx2" "get_ctx i db2 = Some old" "cx_address cx2 = Some address"
    using assms(1) f by (auto simp: connect_takeover_def bind_eq_Some_conv)
  obtain b1 b2 db3 where a: "takeover_strings cx2 db2 = (b1, b2, db3)" by (metis prod_cases3)
  define old' where "old' = takeover_ctx cx2 address b1 b2 (db_now db3) old"
  obtain db5 where u: "ctx_upd_mosq ci (\<lambda>m. m\<lparr>c_sock := -1, c_state := mosq_cs_disconnecting\<rparr>) (put_ctx i old' db3) = Some db5"
    and j: "db' = db5 \<or> (\<exists>rc. mqtt3_db_message_reconnect_reset db5 i = Some (rc, db'))"
    using assms(1) f s a unfolding connect_takeover_def old'_def by (auto simp: bind_eq_Some_conv split: if_splits)
  have "get_ctx ci db1 = Some cx" "tree_ok (db_subs db1)" using s(1) assms(2-4) by (auto simp: ctx_upd_mosq_def bind_eq_Some_conv get_put_ctx)
  note c = cleanup_others [OF s(2) this(2) assms(2) [symmetric]]
  have l2: "cx_listener cx2 = Some l" using c(1) \<open>get_ctx ci db1 = Some cx\<close> s(3) assms(5) by (simp add: still_def)
  have g3: "get_ctx x db3 = get_ctx x db2" for x using a by (auto simp: takeover_strings_def db_alloc_def get_ctx_def split: prod.splits if_splits)
  have "i < length (db_contexts db3)" "ci < length (db_contexts db3)" using g3 s(3,4) get_ctx_length by metis+
  then have g5: "get_ctx ci db5 = Some (cx2\<lparr>cx_mosq := (cx_mosq cx2)\<lparr>c_sock := -1, c_state := mosq_cs_disconnecting\<rparr>\<rparr>)" "get_ctx i db5 = Some old'"
    using u assms(2) s(3) g3 by (auto simp: ctx_upd_mosq_def bind_eq_Some_conv get_put_ctx)
  have o: "cx_listener old' = Some l" "c_will (cx_mosq old') = None" using c(2) s(4) l2 by (auto simp: old'_def takeover_ctx_def Let_def)
  have "db_still db5 db'" using j reconnect_reset_still by auto
  then obtain cy oy where y: "get_ctx ci db' = Some cy" "still (cx2\<lparr>cx_mosq := (cx_mosq cx2)\<lparr>c_sock := -1, c_state := mosq_cs_disconnecting\<rparr>\<rparr>) cy"
    "get_ctx i db' = Some oy" "still old' oy"
    using db_still_ctx g5 by metis
  have cy: "cx_listener cy = Some l" "c_state (cx_mosq cy) = mosq_cs_disconnecting" and oy: "cx_listener oy = Some l" "c_will (cx_mosq oy) = None"
    using y(2,4) l2 o by (simp_all add: still_def who_def)
  have lk: "get_ctx k (d\<lparr>db_listeners := ls\<rparr>) = get_ctx k d" for k d ls by (simp add: get_ctx_def)
  obtain db'' where d: "mqtt3_context_disconnect db' ci = Some db''" "get_ctx i db'' = Some oy" "db_listeners db'' = (db_listeners db')[l := (db_listeners db' ! l)\<lparr>ls_client_count := 0\<rparr>]"
    using disconnect_quiet [OF y(1) _ cy(1)] cy(2) assms(2,6,7) y(3) by (simp add: get_put_ctx lk)
  have "mqtt3_context_disconnect db'' i = None" using disconnect_quiet [OF d(2) _ oy(1)] oy(2) d(3) assms(6) by simp
  then show ?thesis using d(1) by blast
qed

text \<open>
  Alice leaves a session and connects again, but the socket refuses the CONNACK: the connection, still open, is counted no more, and her
  DISCONNECT in the next round stops the broker.
\<close>

definition demo_return :: "conn list list" where
  "demo_return = [[demo_conn 10 [demo_connect 0 ''alice'', [0xE0, 0]] []], [], [demo_conn 11 [demo_connect 0 ''alice'', [0xE0, 0]] [Wr_err 104]]]"

lemma demo_return_known:
  "map_option (\<lambda>db. (cih_find ''alice'' (db_clientid_index_hash db), map_option cx_listener (get_ctx 1 db), tree_ok (db_subs db))) (demo_run demo_return demo_start)
   = Some (Some 0, Some (Some 0), True)"
  "map_option (\<lambda>db. map_option (\<lambda>(i, db). (i, map ls_client_count (db_listeners db))) (connect_takeover 1 ''alice'' False db)) (demo_run demo_return demo_start)
   = Some (Some (0, [1]))"
  by code_simp+

lemma demo_return_stops: "demo_run (demo_return @ [[], []]) demo_start = None"
  by code_simp

theorem takeover_counted_twice_witness:
  "\<exists>db db' db''. broker_runs [] db \<and> connect_takeover 1 ''alice'' False db = Some (0, db') \<and> mqtt3_context_disconnect db' 1 = Some db''
     \<and> mqtt3_context_disconnect db'' 0 = None \<and> demo_run (demo_return @ [[], []]) demo_start = None"
proof -
  obtain db where r: "demo_run demo_return demo_start = Some db" using demo_return_known(1) by auto
  note k = demo_return_known [unfolded r, simplified]
  obtain db' where t: "connect_takeover 1 ''alice'' False db = Some (0, db')" "map ls_client_count (db_listeners db') = [1]" using k(2) by auto
  obtain cx where c: "get_ctx 1 db = Some cx" "cx_listener cx = Some 0" using k(1) by auto
  have "length (db_listeners db') = 1" "ls_client_count (db_listeners db' ! 0) = 1" using t(2) by (auto simp: map_eq_Cons_conv)
  then obtain db'' where "mqtt3_context_disconnect db' 1 = Some db''" "mqtt3_context_disconnect db'' 0 = None"
    using takeover_counted_twice [OF t(1) _ _ c] k(1) by auto
  then show ?thesis using t(1) demo_run_runs [OF r demo_start_runs] demo_return_stops by blast
qed

end
