(* ===== verification/Broker_Persist.thy ===== *)
theory Broker_Persist
  imports Broker_Handle
begin

text \<open>
  The saving of the broker's database to a file and its restoring (\<open>persist.c\<close>).

  \<^item> A file that is written has room for so many bytes; a \<open>fwrite\<close> beyond it writes a part and fails.
  \<^item> A file that is read is the list of the bytes that are left.
  \<^item> \<open>dbid_t\<close> and \<open>time_t\<close> are written in the order of the machine, here eight bytes with the low byte first; all other numbers have
    the high byte first.
  \<^item> The bytes for \<open>direction\<close> and \<open>state\<close> of a queued message are read into enumerations; a file with other values is not modelled (\<open>None\<close>).
\<close>

section \<open>Bytes\<close>

fun le_bytes :: "nat \<Rightarrow> 'a::len word \<Rightarrow> u8 list" where
  "le_bytes 0 w = []"
| "le_bytes (Suc n) w = ucast w # le_bytes n (drop_bit 8 w)"

fun of_le :: "u8 list \<Rightarrow> 'a::len word" where
  "of_le [] = 0"
| "of_le (b # bs) = ucast b OR push_bit 8 (of_le bs)"

definition be_bytes :: "nat \<Rightarrow> 'a::len word \<Rightarrow> u8 list" where
  "be_bytes n w = rev (le_bytes n w)"

definition of_be :: "u8 list \<Rightarrow> 'a::len word" where
  "of_be bs = of_le (rev bs)"

definition net16 :: "u16 \<Rightarrow> u8 list" where
  "net16 = be_bytes 2"

definition net32 :: "u32 \<Rightarrow> u8 list" where
  "net32 = be_bytes 4"

definition le64 :: "64 word \<Rightarrow> u8 list" where
  "le64 = le_bytes 8"

lemma length_le_bytes [simp]: "length (le_bytes n w) = n"
  by (induction n w rule: le_bytes.induct) simp_all

lemma of_le_bytes: "of_le (le_bytes n w) = take_bit (8 * n) (w :: 'a::len word)"
proof (induction n w rule: le_bytes.induct)
  case (2 n w)
  have "ucast (ucast w :: u8) OR push_bit 8 (take_bit (8 * n) (drop_bit 8 w)) = take_bit (8 * Suc n) w"
    by (rule bit_word_eqI) (auto simp: bit_simps)
  then show ?case using 2 by simp
qed simp

lemma bytes_lengths [simp]: "length (net16 a) = 2" "length (net32 b) = 4" "length (le64 c) = 8"
  by (simp_all add: net16_def net32_def le64_def be_bytes_def)

lemma bytes_back [simp]: "of_be (net16 a) = a" "of_be (net32 b) = b" "of_le (le64 c) = c"
proof -
  show "of_be (net16 a) = a" unfolding of_be_def net16_def be_bytes_def rev_rev_ident of_le_bytes by (rule take_bit_word_eq_self) simp
  show "of_be (net32 b) = b" unfolding of_be_def net32_def be_bytes_def rev_rev_ident of_le_bytes by (rule take_bit_word_eq_self) simp
  show "of_le (le64 c) = c" unfolding le64_def of_le_bytes by (rule take_bit_word_eq_self) simp
qed

section \<open>Writing\<close>

abbreviation DB_CHUNK_CFG :: u16 where "DB_CHUNK_CFG \<equiv> 1"
abbreviation DB_CHUNK_MSG_STORE :: u16 where "DB_CHUNK_MSG_STORE \<equiv> 2"
abbreviation DB_CHUNK_CLIENT_MSG :: u16 where "DB_CHUNK_CLIENT_MSG \<equiv> 3"
abbreviation DB_CHUNK_RETAIN :: u16 where "DB_CHUNK_RETAIN \<equiv> 4"
abbreviation DB_CHUNK_SUB :: u16 where "DB_CHUNK_SUB \<equiv> 5"
abbreviation DB_CHUNK_CLIENT :: u16 where "DB_CHUNK_CLIENT \<equiv> 6"

definition magic :: "u8 list" where
  "magic = [0x00, 0xB5, 0x00] @ bytes_of_string ''mosquitto db''"

record wfile =
  wf_bytes :: "u8 list"
  wf_room :: nat

definition write_e :: "u8 list \<Rightarrow> wfile \<Rightarrow> bool \<times> wfile" where
  "write_e bs f = (length bs \<le> wf_room f, f\<lparr>wf_bytes := wf_bytes f @ take (wf_room f) bs, wf_room := wf_room f - length bs\<rparr>)"

text \<open>One after the other, up to the first that fails.\<close>

fun write_all :: "u8 list list \<Rightarrow> wfile \<Rightarrow> bool \<times> wfile" where
  "write_all [] f = (True, f)"
| "write_all (b # bs) f = (case write_e b f of (False, f) \<Rightarrow> (False, f) | (True, f) \<Rightarrow> write_all bs f)"

definition flag :: "bool \<Rightarrow> u8" where
  "flag b = (if b then 1 else 0)"

fun direction_byte :: "msg_direction \<Rightarrow> u8" where
  "direction_byte mosq_md_in = 0"
| "direction_byte mosq_md_out = 1"

fun state_byte :: "msg_state \<Rightarrow> u8" where
  "state_byte mosq_ms_invalid = 0"
| "state_byte mosq_ms_publish_qos0 = 1"
| "state_byte mosq_ms_publish_qos1 = 2"
| "state_byte mosq_ms_wait_for_puback = 3"
| "state_byte mosq_ms_publish_qos2 = 4"
| "state_byte mosq_ms_wait_for_pubrec = 5"
| "state_byte mosq_ms_resend_pubrel = 6"
| "state_byte mosq_ms_wait_for_pubrel = 7"
| "state_byte mosq_ms_resend_pubcomp = 8"
| "state_byte mosq_ms_wait_for_pubcomp = 9"
| "state_byte mosq_ms_send_pubrec = 10"
| "state_byte mosq_ms_queued = 11"

text \<open>A length is cut to 16 bits, and so many bytes are written.\<close>

definition slen :: "string \<Rightarrow> u16" where
  "slen s = of_nat (length s)"

definition str_bytes :: "string \<Rightarrow> u8 list" where
  "str_bytes s = take (unat (slen s)) (bytes_of_string s)"

fun client_messages_write :: "db \<Rightarrow> string option \<Rightarrow> client_msg list \<Rightarrow> wfile \<Rightarrow> (int \<times> wfile) option" where
  "client_messages_write db cid [] f = Some (MOSQ_ERR_SUCCESS, f)"
| "client_messages_write db cid (m # ms) f =
     do {
       cid' \<leftarrow> cid;
       st \<leftarrow> db_heap db (cm_store m);
       (case write_all [net16 DB_CHUNK_CLIENT_MSG, net32 (8 + 2 + 5 + 2 + ucast (slen cid')), net16 (slen cid'), str_bytes cid', le64 (of_nat (st_db_id st)),
           net16 (cm_mid m), [of_int (cm_qos m)], [flag (cm_retain m)], [direction_byte (cm_direction m)], [state_byte (cm_state m)], [flag (cm_dup m)]] f of
          (False, f) \<Rightarrow> Some (1, f)
        | (True, f) \<Rightarrow> client_messages_write db cid ms f)
     }"

text \<open>Messages below \<open>$SYS\<close> lose their retain flag.\<close>

fun message_store_write :: "db \<Rightarrow> nat list \<Rightarrow> wfile \<Rightarrow> (int \<times> wfile) option" where
  "message_store_write db [] f = Some (MOSQ_ERR_SUCCESS, f)"
| "message_store_write db (r # rs) f =
     do {
       st \<leftarrow> db_heap db r;
       let m = st_msg st;
       topic \<leftarrow> m_topic m;
       payload \<leftarrow> (if m_payloadlen m = 0 then Some []
         else do { p \<leftarrow> m_payload m; if nat (m_payloadlen m) \<le> length p then Some [take (nat (m_payloadlen m)) p] else None });
       (case write_all ([net16 DB_CHUNK_MSG_STORE,
             net32 (8 + (2 + of_nat (length (st_source_id st))) + 2 + 2 + (2 + of_nat (length topic)) + 4 + of_int (m_payloadlen m) + 1 + 1),
             le64 (of_nat (st_db_id st)), net16 (slen (st_source_id st))] @ (if slen (st_source_id st) \<noteq> 0 then [str_bytes (st_source_id st)] else [])
           @ [net16 (st_source_mid st), net16 (of_int (m_mid m)), net16 (slen topic), str_bytes topic, [of_int (m_qos m)],
              [if take 4 topic \<noteq> ''$SYS'' then flag (m_retain m) else 0], net32 (of_int (m_payloadlen m))] @ payload) f of
          (False, f) \<Rightarrow> Some (1, f)
        | (True, f) \<Rightarrow> message_store_write db rs f)
     }"

fun client_write :: "db \<Rightarrow> ctx option list \<Rightarrow> wfile \<Rightarrow> (int \<times> wfile) option" where
  "client_write db [] f = Some (MOSQ_ERR_SUCCESS, f)"
| "client_write db (None # cs) f = client_write db cs f"
| "client_write db (Some cx # cs) f =
     (if c_clean_session (cx_mosq cx) then client_write db cs f
      else
        do {
          cid \<leftarrow> c_id (cx_mosq cx);
          (case write_all [net16 DB_CHUNK_CLIENT, net32 (2 + of_nat (length cid) + 2 + 8), net16 (slen cid), str_bytes cid, net16 (c_last_mid (cx_mosq cx)),
              le64 (of_int (cx_disconnect_t cx))] f of
             (False, f) \<Rightarrow> Some (1, f)
           | (True, f) \<Rightarrow>
               do { (rc, f) \<leftarrow> client_messages_write db (c_id (cx_mosq cx)) (cx_msgs cx) f; if rc \<noteq> 0 then Some (1, f) else client_write db cs f })
        })"

text \<open>The subscriptions of one node, with the path as their topic.\<close>

fun node_subs_write :: "db \<Rightarrow> string \<Rightarrow> (nat \<times> int) list \<Rightarrow> wfile \<Rightarrow> (bool \<times> wfile) option" where
  "node_subs_write db thistopic [] f = Some (True, f)"
| "node_subs_write db thistopic ((ci, qos) # subs) f =
     do {
       cx \<leftarrow> get_ctx ci db;
       if c_clean_session (cx_mosq cx) then node_subs_write db thistopic subs f
       else
         do {
           cid \<leftarrow> c_id (cx_mosq cx);
           (case write_all [net16 DB_CHUNK_SUB, net32 (2 + of_nat (length cid) + (2 + of_nat (length thistopic)) + 1), net16 (slen cid),
               bytes_of_string cid, net16 (slen thistopic), bytes_of_string thistopic, [of_int qos]] f of
              (False, f) \<Rightarrow> Some (False, f)
            | (True, f) \<Rightarrow> node_subs_write db thistopic subs f)
         }
     }"

definition node_retain_write :: "db \<Rightarrow> nat option \<Rightarrow> wfile \<Rightarrow> (bool \<times> wfile) option" where
  "node_retain_write db ret f =
     (case ret of
        None \<Rightarrow> Some (True, f)
      | Some r \<Rightarrow>
          do {
            st \<leftarrow> db_heap db r;
            topic \<leftarrow> m_topic (st_msg st);
            Some (if take 4 topic \<noteq> ''$SYS'' then write_all [net16 DB_CHUNK_RETAIN, net32 8, le64 (of_nat (st_db_id st))] f else (True, f))
          })"

text \<open>A node with its children, and its siblings; what goes wrong at a node ends it, and its siblings follow.\<close>

fun subs_retain_write :: "subhier list \<Rightarrow> string \<Rightarrow> db \<Rightarrow> wfile \<Rightarrow> (db \<times> wfile) option" where
  "subs_retain_write [] topic db f = Some (db, f)"
| "subs_retain_write (Subhier t subs ret ch # bs) topic db f =
     do {
       (db, f) \<leftarrow>
         (case db_alloc db of
            (False, db) \<Rightarrow> Some (db, f)
          | (True, db) \<Rightarrow>
              (let thistopic = (if topic \<noteq> [] then topic @ [SEP] @ t else t) in
               do {
                 (ok, f) \<leftarrow> node_subs_write db thistopic subs f;
                 if \<not> ok then Some (db, f)
                 else
                   do {
                     (ok, f) \<leftarrow> node_retain_write db ret f;
                     if \<not> ok then Some (db, f) else subs_retain_write ch thistopic db f
                   }
               }));
       subs_retain_write bs topic db f
     }"

text \<open>
  The disk: whether a path is configured, what \<open>fopen\<close> gives (the room for the new file), whether \<open>rename\<close> succeeds, and what is stored
  under the path. After a failed \<open>rename\<close> the file is closed twice.
\<close>

record disk =
  dk_path :: bool
  dk_room :: "nat option"
  dk_rename :: bool
  dk_file :: "u8 list option"

definition backup_write :: "bool \<Rightarrow> db \<Rightarrow> wfile \<Rightarrow> (bool \<times> db \<times> wfile) option" where
  "backup_write shutdown db f =
     (case write_all [magic, net32 0, net32 3, net16 DB_CHUNK_CFG, net32 (8 + 1 + 1), [flag shutdown], [8], le64 (of_nat (db_last_db_id db))] f of
        (False, f) \<Rightarrow> Some (False, db, f)
      | (True, f) \<Rightarrow>
          do {
            (rc, f) \<leftarrow> message_store_write db (db_msg_store db) f;
            if rc \<noteq> 0 then Some (False, db, f)
            else
              do {
                (_, f) \<leftarrow> client_write db (db_contexts db) f;
                (db, f) \<leftarrow> subs_retain_write (db_subs db) '''' db f;
                Some (True, db, f)
              }
          })"

definition mqtt3_db_backup :: "db \<Rightarrow> disk \<Rightarrow> bool \<Rightarrow> bool \<Rightarrow> (int \<times> disk \<times> db) option" where
  "mqtt3_db_backup db dk cleanup shutdown =
     (if \<not> dk_path dk then Some (MOSQ_ERR_INVAL, dk, db)
      else
        do {
          db \<leftarrow> (if cleanup then mqtt3_db_store_clean db else Some db);
          (case db_alloc db of
             (False, db) \<Rightarrow> Some (MOSQ_ERR_NOMEM, dk, db)
           | (True, db) \<Rightarrow>
               (case dk_room dk of
                  None \<Rightarrow> Some (1, dk, db)
                | Some n \<Rightarrow>
                    do {
                      (ok, db, f) \<leftarrow> backup_write shutdown db \<lparr>wf_bytes = [], wf_room = n\<rparr>;
                      if \<not> ok then Some (1, dk, db)
                      else if \<not> dk_rename dk then None
                      else Some (MOSQ_ERR_SUCCESS, dk\<lparr>dk_file := Some (wf_bytes f)\<rparr>, db)
                    }))
        })"

section \<open>Restoring\<close>

text \<open>The next \<open>n\<close> bytes, or a failure.\<close>

definition read_e :: "nat \<Rightarrow> u8 list \<Rightarrow> (u8 list \<Rightarrow> u8 list \<Rightarrow> 'a) \<Rightarrow> 'a \<Rightarrow> 'a" where
  "read_e n bs k e = (if n \<le> length bs then k (take n bs) (drop n bs) else e)"

type_synonym restore_res = "(int \<times> u8 list \<times> db) option"

fun state_of_byte :: "u8 \<Rightarrow> msg_state option" where
  "state_of_byte b = (let n = unat b in
     if n < 12 then Some ([mosq_ms_invalid, mosq_ms_publish_qos0, mosq_ms_publish_qos1, mosq_ms_wait_for_puback, mosq_ms_publish_qos2,
       mosq_ms_wait_for_pubrec, mosq_ms_resend_pubrel, mosq_ms_wait_for_pubrel, mosq_ms_resend_pubcomp, mosq_ms_wait_for_pubcomp,
       mosq_ms_send_pubrec, mosq_ms_queued] ! n)
     else None)"

fun direction_of_byte :: "u8 \<Rightarrow> msg_direction option" where
  "direction_of_byte b = (if b = 0 then Some mosq_md_in else if b = 1 then Some mosq_md_out else None)"

text \<open>The context of a client id. The outer \<open>None\<close> is a comparison with the id of a context that has none.\<close>

fun ctx_by_id :: "ctx option list \<Rightarrow> string \<Rightarrow> nat \<Rightarrow> nat option option" where
  "ctx_by_id [] cid i = Some None"
| "ctx_by_id (None # cs) cid i = ctx_by_id cs cid (i + 1)"
| "ctx_by_id (Some cx # cs) cid i =
     do { n \<leftarrow> c_id (cx_mosq cx); if n = cid then Some (Some i) else ctx_by_id cs cid (i + 1) }"

definition db_add_context :: "db \<Rightarrow> string \<Rightarrow> (nat option \<times> db) option" where
  "db_add_context db cid =
     (case mqtt3_context_init \<lparr>cn_sock = -1, cn_nonblock = False, cn_address = None, cn_rx = [], cn_wr = []\<rparr> db of
        (None, db) \<Rightarrow> Some (None, db)
      | (Some cx, db) \<Rightarrow>
          (let cx = cx\<lparr>cx_mosq := (cx_mosq cx)\<lparr>c_clean_session := False\<rparr>\<rparr>;
               k = free_slot 0 (db_contexts db);
               (ok, db) = (if k < length (db_contexts db) then (True, put_ctx k cx db)
                 else (case db_alloc db of
                     (False, db) \<Rightarrow> (False, db)
                   | (True, db) \<Rightarrow> (True, db\<lparr>db_contexts := db_contexts db @ [Some cx]\<rparr>)))
           in if \<not> ok then Some (None, db)
              else
                (case db_alloc db of
                   (b, db) \<Rightarrow> do { db \<leftarrow> ctx_upd_mosq k (\<lambda>m. m\<lparr>c_id := (if b then Some cid else None)\<rparr>) db; Some (Some k, db) })))"

definition db_find_or_add_context :: "db \<Rightarrow> string \<Rightarrow> u16 \<Rightarrow> (nat option \<times> db) option" where
  "db_find_or_add_context db cid last_mid =
     do {
       found \<leftarrow> ctx_by_id (db_contexts db) cid 0;
       (r, db) \<leftarrow> (case found of Some i \<Rightarrow> Some (Some i, db) | None \<Rightarrow> db_add_context db cid);
       (case r of
          None \<Rightarrow> Some (None, db)
        | Some i \<Rightarrow>
            if last_mid \<noteq> 0 then do { db \<leftarrow> ctx_upd_mosq i (\<lambda>m. m\<lparr>c_last_mid := last_mid\<rparr>) db; Some (Some i, db) }
            else Some (Some i, db))
     }"

fun store_by_id :: "db \<Rightarrow> nat list \<Rightarrow> nat \<Rightarrow> nat option option" where
  "store_by_id db [] n = Some None"
| "store_by_id db (r # rs) n = do { st \<leftarrow> db_heap db r; if st_db_id st = n then Some (Some r) else store_by_id db rs n }"

text \<open>The message is put behind the last one; the counters of the queue are not changed.\<close>

definition restore_append :: "client_msg \<Rightarrow> ctx \<Rightarrow> ctx option" where
  "restore_append m cx =
     (if cx_msgs cx = [] then Some (cx\<lparr>cx_msgs := [m], cx_last_msg := Last_at 0\<rparr>)
      else (case cx_last_msg cx of
          Last_at i \<Rightarrow> Some (cx\<lparr>cx_msgs := take (i + 1) (cx_msgs cx) @ [m], cx_last_msg := Last_at (i + 1)\<rparr>)
        | _ \<Rightarrow> None))"

definition db_client_msg_restore :: "db \<Rightarrow> string \<Rightarrow> nat \<Rightarrow> client_msg \<Rightarrow> db_res" where
  "db_client_msg_restore db cid store_id m =
     (case db_alloc db of
        (False, db) \<Rightarrow> Some (MOSQ_ERR_NOMEM, db)
      | (True, db) \<Rightarrow>
          do {
            s \<leftarrow> store_by_id db (db_msg_store db) store_id;
            (case s of
               None \<Rightarrow> Some (1, db)
             | Some r \<Rightarrow>
                 do {
                   db \<leftarrow> add_ref r 1 db;
                   (i, db) \<leftarrow> db_find_or_add_context db cid 0;
                   (case i of
                      None \<Rightarrow> Some (1, db)
                    | Some i \<Rightarrow>
                        do { cx \<leftarrow> get_ctx i db; cx \<leftarrow> restore_append (m\<lparr>cm_store := r\<rparr>) cx; Some (MOSQ_ERR_SUCCESS, put_ctx i cx db) })
                 })
          })"

text \<open>The chunks. Every error ends the restoring; what is left of the file is then of no interest.\<close>

definition client_restore :: "db \<Rightarrow> string \<Rightarrow> u16 \<Rightarrow> int \<Rightarrow> db_res" where
  "client_restore db cid last_mid disconnect_t =
     do {
       (i, db) \<leftarrow> db_find_or_add_context db cid last_mid;
       (case i of
          None \<Rightarrow> Some (1, db)
        | Some i \<Rightarrow>
            do {
              cx \<leftarrow> get_ctx i db;
              let db = put_ctx i (cx\<lparr>cx_disconnect_t := disconnect_t\<rparr>) db;
              (case db_alloc db of
                 (False, db) \<Rightarrow> Some (MOSQ_ERR_NOMEM, db)
               | (True, db) \<Rightarrow>
                   do { cid \<leftarrow> c_id (cx_mosq cx); Some (MOSQ_ERR_SUCCESS, db\<lparr>db_clientid_index_hash := cih_add cid i (db_clientid_index_hash db)\<rparr>) })
            })
     }"

definition db_client_chunk_restore :: "u32 \<Rightarrow> u8 list \<Rightarrow> db \<Rightarrow> restore_res" where
  "db_client_chunk_restore version bs db =
     read_e 2 bs (\<lambda>v bs. let n = unat (of_be v :: u16) in
       if n = 0 then Some (1, bs, db)
       else (case db_alloc db of
           (False, db) \<Rightarrow> Some (MOSQ_ERR_NOMEM, bs, db)
         | (True, db) \<Rightarrow>
             read_e n bs (\<lambda>cid bs.
             read_e 2 bs (\<lambda>mid bs.
               (let finish = (\<lambda>t bs. do { (rc, db) \<leftarrow> client_restore db (cstr cid) (of_be mid) t; Some (rc, bs, db) })
                in if version = 2 then finish (db_now db) bs
                   else read_e 8 bs (\<lambda>t bs. finish (sint (of_le t :: 64 word)) bs) (Some (1, [], db))))
             (Some (1, [], db))) (Some (1, [], db)))) (Some (1, [], db))"

definition db_client_msg_chunk_restore :: "u8 list \<Rightarrow> db \<Rightarrow> restore_res" where
  "db_client_msg_chunk_restore bs db =
     read_e 2 bs (\<lambda>v bs. let n = unat (of_be v :: u16) in
       if n = 0 then Some (1, bs, db)
       else (case db_alloc db of
           (False, db) \<Rightarrow> Some (MOSQ_ERR_NOMEM, bs, db)
         | (True, db) \<Rightarrow>
             read_e n bs (\<lambda>cid bs.
             read_e 8 bs (\<lambda>store_id bs.
             read_e 2 bs (\<lambda>mid bs.
             read_e 5 bs (\<lambda>v bs.
               do {
                 dir \<leftarrow> direction_of_byte (v ! 2);
                 st \<leftarrow> state_of_byte (v ! 3);
                 (rc, db) \<leftarrow> db_client_msg_restore db (cstr cid) (unat (of_le store_id :: 64 word))
                   \<lparr>cm_store = 0, cm_mid = of_be mid, cm_qos = uint (v ! 0), cm_retain = (v ! 1 \<noteq> 0), cm_timestamp = 0, cm_direction = dir,
                    cm_state = st, cm_dup = (v ! 4 \<noteq> 0)\<rparr>;
                 Some (rc, bs, db)
               }) (Some (1, [], db))) (Some (1, [], db))) (Some (1, [], db))) (Some (1, [], db)))) (Some (1, [], db))"

definition db_msg_store_chunk_restore :: "u8 list \<Rightarrow> db \<Rightarrow> restore_res" where
  "db_msg_store_chunk_restore bs db =
     read_e 8 bs (\<lambda>store_id bs.
     read_e 2 bs (\<lambda>v bs.
       (let n = unat (of_be v :: u16);
            (b, db) = (if n > 0 then db_alloc db else (True, db))
        in if \<not> b then Some (MOSQ_ERR_NOMEM, bs, db)
           else
             read_e n bs (\<lambda>source bs.
             read_e 2 bs (\<lambda>source_mid bs.
             read_e 2 bs (\<lambda>_ bs.
             read_e 2 bs (\<lambda>v bs.
               (let k = unat (of_be v :: u16) in
                if k = 0 then Some (1, bs, db)
                else (case db_alloc db of
                   (False, db) \<Rightarrow> Some (MOSQ_ERR_NOMEM, bs, db)
                 | (True, db) \<Rightarrow>
                     read_e k bs (\<lambda>topic bs.
                     read_e 2 bs (\<lambda>v bs.
                     read_e 4 bs (\<lambda>len bs.
                       (let payloadlen = of_be len :: u32;
                            (b, db) = (if payloadlen \<noteq> 0 then db_alloc db else (True, db))
                        in if \<not> b then Some (MOSQ_ERR_NOMEM, bs, db)
                           else
                             read_e (unat payloadlen) bs (\<lambda>payload bs.
                               do {
                                 (rc, _, db) \<leftarrow> mqtt3_db_message_store db (if n > 0 then Some (cstr source) else None) (of_be source_mid)
                                   (Some (cstr topic)) (uint (v ! 0)) payloadlen (if payloadlen \<noteq> 0 then Some payload else None) (v ! 1 \<noteq> 0)
                                   (unat (of_le store_id :: 64 word));
                                 Some (rc, bs, db)
                               }) (Some (1, [], db))))
                     (Some (1, [], db))) (Some (1, [], db))) (Some (1, [], db)))))
             (Some (1, [], db))) (Some (1, [], db))) (Some (1, [], db))) (Some (1, [], db))))
     (Some (1, [], db))) (Some (1, [], db))"

text \<open>A retained message is published again. It has no source, so that the tree takes it and no client gets it.\<close>

definition retain_restore :: "db \<Rightarrow> nat \<Rightarrow> db option" where
  "retain_restore db store_id =
     do {
       s \<leftarrow> store_by_id db (db_msg_store db) store_id;
       (case s of
          None \<Rightarrow> Some db
        | Some r \<Rightarrow>
            do {
              st \<leftarrow> db_heap db r;
              topic \<leftarrow> m_topic (st_msg st);
              (rc, db) \<leftarrow> mqtt3_db_messages_queue db None topic (m_qos (st_msg st)) (m_retain (st_msg st)) r;
              Some db
            })
     }"

definition db_retain_chunk_restore :: "u8 list \<Rightarrow> db \<Rightarrow> restore_res" where
  "db_retain_chunk_restore bs db =
     read_e 8 bs (\<lambda>store_id bs. do { db \<leftarrow> retain_restore db (unat (of_le store_id :: 64 word)); Some (MOSQ_ERR_SUCCESS, bs, db) })
       (Some (1, [], db))"

definition db_restore_sub :: "db \<Rightarrow> string \<Rightarrow> string \<Rightarrow> int \<Rightarrow> db_res" where
  "db_restore_sub db cid sub qos =
     do {
       (i, db) \<leftarrow> db_find_or_add_context db cid 0;
       (case i of None \<Rightarrow> Some (1, db) | Some i \<Rightarrow> mqtt3_sub_add db i sub qos)
     }"

definition db_sub_chunk_restore :: "u8 list \<Rightarrow> db \<Rightarrow> restore_res" where
  "db_sub_chunk_restore bs db =
     read_e 2 bs (\<lambda>v bs.
       (case db_alloc db of
          (False, db) \<Rightarrow> Some (MOSQ_ERR_NOMEM, bs, db)
        | (True, db) \<Rightarrow>
            read_e (unat (of_be v :: u16)) bs (\<lambda>cid bs.
            read_e 2 bs (\<lambda>v bs.
              (case db_alloc db of
                 (False, db) \<Rightarrow> Some (MOSQ_ERR_NOMEM, bs, db)
               | (True, db) \<Rightarrow>
                   read_e (unat (of_be v :: u16)) bs (\<lambda>topic bs.
                   read_e 1 bs (\<lambda>qos bs.
                     do {
                       (rc, db) \<leftarrow> db_restore_sub db (cstr cid) (cstr topic) (uint (hd qos));
                       Some (if rc \<noteq> 0 then 1 else 0, bs, db)
                     }) (Some (1, [], db))) (Some (1, [], db))))
            (Some (1, [], db))) (Some (1, [], db))))
     (Some (1, [], db))"

definition db_cfg_chunk_restore :: "u8 list \<Rightarrow> db \<Rightarrow> restore_res" where
  "db_cfg_chunk_restore bs db =
     read_e 1 bs (\<lambda>_ bs.
     read_e 1 bs (\<lambda>v bs.
       if hd v \<noteq> 8 then Some (1, bs, db)
       else read_e 8 bs (\<lambda>n bs. Some (0, bs, db\<lparr>db_last_db_id := unat (of_le n :: 64 word)\<rparr>)) (Some (1, [], db)))
     (Some (1, [], db))) (Some (1, [], db))"

definition chunk_restore :: "u32 \<Rightarrow> u16 \<Rightarrow> u32 \<Rightarrow> u8 list \<Rightarrow> db \<Rightarrow> restore_res" where
  "chunk_restore version chunk len bs db =
     (if chunk = DB_CHUNK_CFG then db_cfg_chunk_restore bs db
      else if chunk = DB_CHUNK_MSG_STORE then db_msg_store_chunk_restore bs db
      else if chunk = DB_CHUNK_CLIENT_MSG then db_client_msg_chunk_restore bs db
      else if chunk = DB_CHUNK_RETAIN then db_retain_chunk_restore bs db
      else if chunk = DB_CHUNK_SUB then db_sub_chunk_restore bs db
      else if chunk = DB_CHUNK_CLIENT then db_client_chunk_restore version bs db
      else Some (0, drop (unat len) bs, db))"

text \<open>No chunk puts bytes back.\<close>

definition shrinks :: "nat \<Rightarrow> restore_res \<Rightarrow> bool" where
  "shrinks n r \<longleftrightarrow> (\<forall>rc bs db. r = Some (rc, bs, db) \<longrightarrow> length bs \<le> n)"

lemma shrinks_simps: "shrinks n (Some (rc, bs, db)) = (length bs \<le> n)" "shrinks n None"
  by (simp_all add: shrinks_def)

lemma shrinks_read [intro]: "\<lbrakk>length bs \<le> n; \<And>v r. length r \<le> n \<Longrightarrow> shrinks n (k v r); shrinks n e\<rbrakk> \<Longrightarrow> shrinks n (read_e m bs k e)"
  by (auto simp: read_e_def)

lemma shrinks_bind: "(\<And>x. shrinks n (f x)) \<Longrightarrow> shrinks n (r \<bind> f)"
  by (cases r) (simp_all add: shrinks_simps)

lemma chunk_shrinks: "shrinks (length bs) (chunk_restore version chunk len bs db)"
  unfolding chunk_restore_def db_cfg_chunk_restore_def db_msg_store_chunk_restore_def db_client_msg_chunk_restore_def db_retain_chunk_restore_def
    db_sub_chunk_restore_def db_client_chunk_restore_def Let_def
  by (auto simp: shrinks_simps intro!: shrinks_read shrinks_bind split: prod.split bool.split)

lemma read_e_cong [fundef_cong]:
  "\<lbrakk>n = n'; bs = bs'; n' \<le> length bs' \<Longrightarrow> k (take n' bs') (drop n' bs') = k' (take n' bs') (drop n' bs'); \<not> n' \<le> length bs' \<Longrightarrow> e = e'\<rbrakk>
   \<Longrightarrow> read_e n bs k e = read_e n' bs' k' e'"
  by (simp add: read_e_def)

function restore_loop :: "u32 \<Rightarrow> u8 list \<Rightarrow> db \<Rightarrow> db_res" where
  "restore_loop version bs db =
     read_e 2 bs (\<lambda>chunk bs'.
     read_e 4 bs' (\<lambda>len bs''.
       do {
         (rc, r, db) \<leftarrow> chunk_restore version (of_be chunk) (of_be len) bs'' db;
         if rc \<noteq> 0 then Some (1, db) else restore_loop version r db
       }) (Some (1, db))) (Some (MOSQ_ERR_SUCCESS, db))"
  by pat_completeness auto

termination
proof (relation "measure (\<lambda>(version, bs, db). length bs)", goal_cases)
  case (2 version bs db res rc r' r db')
  then show ?case using chunk_shrinks by (fastforce simp: shrinks_def)
qed simp

declare restore_loop.simps [simp del]

text \<open>Without a file there is nothing to restore.\<close>

definition mqtt3_db_restore :: "db \<Rightarrow> disk \<Rightarrow> db_res" where
  "mqtt3_db_restore db dk =
     (case dk_file dk of
        None \<Rightarrow> Some (MOSQ_ERR_SUCCESS, db)
      | Some bs \<Rightarrow>
          read_e 15 bs (\<lambda>header bs.
            if header \<noteq> magic then Some (1, db)
            else
              read_e 4 bs (\<lambda>_ bs.
              read_e 4 bs (\<lambda>v bs.
                (let version = of_be v :: u32 in if version > 3 then Some (1, db) else restore_loop version bs db))
              (Some (1, db))) (Some (1, db))) (Some (1, db)))"

end
