(* ===== verification/Broker_Restore.thy ===== *)
theory Broker_Restore
  imports Broker_Persist Broker_Run
begin

text \<open>
  Saving and restoring. The file is a list of chunks; restoring reads back exactly the chunks that were written, and so the durable sessions, with
  their queues and their subscriptions, survive a restart of the broker.
\<close>

section \<open>The chunks of a file\<close>

datatype chunk =
    Ch_cfg bool nat
  | Ch_store msg_store
  | Ch_client string u16 int
  | Ch_msg string nat client_msg
  | Ch_sub string string int
  | Ch_retain nat

text \<open>What is written for a chunk, as the functions of the broker do it.\<close>

definition store_fields :: "msg_store \<Rightarrow> string \<Rightarrow> u8 list list \<Rightarrow> u8 list list" where
  "store_fields st topic payload =
     [net16 DB_CHUNK_MSG_STORE,
      net32 (8 + (2 + of_nat (length (st_source_id st))) + 2 + 2 + (2 + of_nat (length topic)) + 4 + of_int (m_payloadlen (st_msg st)) + 1 + 1),
      le64 (of_nat (st_db_id st)), net16 (slen (st_source_id st))] @ (if slen (st_source_id st) \<noteq> 0 then [str_bytes (st_source_id st)] else [])
      @ [net16 (st_source_mid st), net16 (of_int (m_mid (st_msg st))), net16 (slen topic), str_bytes topic, [of_int (m_qos (st_msg st))],
         [if take 4 topic \<noteq> ''$SYS'' then flag (m_retain (st_msg st)) else 0], net32 (of_int (m_payloadlen (st_msg st)))] @ payload"

fun chunk_fields :: "chunk \<Rightarrow> u8 list list" where
  "chunk_fields (Ch_cfg shutdown n) = [net16 DB_CHUNK_CFG, net32 (8 + 1 + 1), [flag shutdown], [8], le64 (of_nat n)]"
| "chunk_fields (Ch_store st) =
     store_fields st (the (m_topic (st_msg st)))
       (if m_payloadlen (st_msg st) = 0 then [] else [take (nat (m_payloadlen (st_msg st))) (the (m_payload (st_msg st)))])"
| "chunk_fields (Ch_client cid mid t) =
     [net16 DB_CHUNK_CLIENT, net32 (2 + of_nat (length cid) + 2 + 8), net16 (slen cid), str_bytes cid, net16 mid, le64 (of_int t)]"
| "chunk_fields (Ch_msg cid n m) =
     [net16 DB_CHUNK_CLIENT_MSG, net32 (8 + 2 + 5 + 2 + ucast (slen cid)), net16 (slen cid), str_bytes cid, le64 (of_nat n),
      net16 (cm_mid m), [of_int (cm_qos m)], [flag (cm_retain m)], [direction_byte (cm_direction m)], [state_byte (cm_state m)], [flag (cm_dup m)]]"
| "chunk_fields (Ch_sub cid topic qos) =
     [net16 DB_CHUNK_SUB, net32 (2 + of_nat (length cid) + (2 + of_nat (length topic)) + 1), net16 (slen cid), bytes_of_string cid, net16 (slen topic),
      bytes_of_string topic, [of_int qos]]"
| "chunk_fields (Ch_retain n) = [net16 DB_CHUNK_RETAIN, net32 8, le64 (of_nat n)]"

definition chunk_bytes :: "chunk \<Rightarrow> u8 list" where
  "chunk_bytes c = concat (chunk_fields c)"

definition file_bytes :: "chunk list \<Rightarrow> u8 list" where
  "file_bytes cs = concat (map chunk_bytes cs)"

lemma file_bytes_simps [simp]: "file_bytes [] = []" "file_bytes (c # cs) = chunk_bytes c @ file_bytes cs" "file_bytes (cs @ ds) = file_bytes cs @ file_bytes ds"
  by (simp_all add: file_bytes_def)

section \<open>Writing\<close>

text \<open>When there is room, the file grows by the bytes.\<close>

definition appended :: "u8 list \<Rightarrow> wfile \<Rightarrow> wfile" where
  "appended bs f = f\<lparr>wf_bytes := wf_bytes f @ bs, wf_room := wf_room f - length bs\<rparr>"

lemma appended_simps [simp]: "appended [] f = f" "appended b (appended a f) = appended (a @ b) f" "wf_room (appended a f) = wf_room f - length a" "wf_bytes (appended a f) = wf_bytes f @ a"
  by (simp_all add: appended_def)

lemma write_all_room: "length (concat bs) \<le> wf_room f \<Longrightarrow> write_all bs f = (True, appended (concat bs) f)"
proof (induction bs f rule: write_all.induct)
  case (2 b bs f)
  then have "write_e b f = (True, appended b f)" by (simp add: write_e_def appended_def)
  then show ?case using 2 by simp
qed simp

lemma write_chunk: "length (chunk_bytes c) \<le> wf_room f \<Longrightarrow> write_all (chunk_fields c) f = (True, appended (chunk_bytes c) f)"
  unfolding chunk_bytes_def by (rule write_all_room)

text \<open>The chunks of the messages of a client, of the stored messages, of the clients, and of the tree.\<close>

definition store_id :: "db \<Rightarrow> nat \<Rightarrow> nat" where
  "store_id db r = (case db_heap db r of None \<Rightarrow> 0 | Some st \<Rightarrow> st_db_id st)"

definition msg_chunks :: "db \<Rightarrow> string \<Rightarrow> client_msg list \<Rightarrow> chunk list" where
  "msg_chunks db cid ms = map (\<lambda>m. Ch_msg cid (store_id db (cm_store m)) m) ms"

definition session_chunks :: "db \<Rightarrow> ctx \<Rightarrow> chunk list" where
  "session_chunks db cx = Ch_client (the (c_id (cx_mosq cx))) (c_last_mid (cx_mosq cx)) (cx_disconnect_t cx)
     # msg_chunks db (the (c_id (cx_mosq cx))) (cx_msgs cx)"

definition durables :: "ctx option list \<Rightarrow> ctx list" where
  "durables cs = filter (\<lambda>cx. \<not> c_clean_session (cx_mosq cx)) (List.map_filter id cs)"

lemma durables_simps [simp]: "durables [] = []" "durables (None # cs) = durables cs"
  "durables (Some cx # cs) = (if c_clean_session (cx_mosq cx) then durables cs else cx # durables cs)"
  by (simp_all add: durables_def List.map_filter_simps)

lemma messages_written:
  assumes "\<forall>m \<in> set ms. db_heap db (cm_store m) \<noteq> None" "length (file_bytes (msg_chunks db cid ms)) \<le> wf_room f"
  shows "client_messages_write db (Some cid) ms f = Some (MOSQ_ERR_SUCCESS, appended (file_bytes (msg_chunks db cid ms)) f)"
  using assms
proof (induction ms arbitrary: f)
  case (Cons m ms)
  obtain st where st: "db_heap db (cm_store m) = Some st" using Cons.prems(1) by auto
  let ?c = "Ch_msg cid (st_db_id st) m"
  have "write_all (chunk_fields ?c) f = (True, appended (chunk_bytes ?c) f)" using Cons.prems(2) st by (intro write_chunk) (simp add: msg_chunks_def store_id_def)
  moreover have "client_messages_write db (Some cid) ms (appended (chunk_bytes ?c) f) = Some (MOSQ_ERR_SUCCESS, appended (file_bytes (msg_chunks db cid ms)) (appended (chunk_bytes ?c) f))"
    using Cons.prems st by (intro Cons.IH) (auto simp: msg_chunks_def store_id_def)
  ultimately show ?case using st by (simp add: msg_chunks_def store_id_def)
qed (simp add: msg_chunks_def)

definition store_ready :: "msg_store \<Rightarrow> bool" where
  "store_ready st \<longleftrightarrow> (\<exists>topic. m_topic (st_msg st) = Some topic) \<and> 0 \<le> m_payloadlen (st_msg st)
     \<and> (m_payloadlen (st_msg st) \<noteq> 0 \<longrightarrow> (\<exists>p. m_payload (st_msg st) = Some p \<and> nat (m_payloadlen (st_msg st)) \<le> length p))"

definition store_chunks :: "db \<Rightarrow> nat list \<Rightarrow> chunk list" where
  "store_chunks db rs = map (\<lambda>r. Ch_store (the (db_heap db r))) rs"

lemma stores_written:
  assumes "\<forall>r \<in> set rs. \<exists>st. db_heap db r = Some st \<and> store_ready st" "length (file_bytes (store_chunks db rs)) \<le> wf_room f"
  shows "message_store_write db rs f = Some (MOSQ_ERR_SUCCESS, appended (file_bytes (store_chunks db rs)) f)"
  using assms
proof (induction rs arbitrary: f)
  case (Cons r rs)
  obtain st topic where st: "db_heap db r = Some st" "store_ready st" "m_topic (st_msg st) = Some topic" using Cons.prems(1) by (auto simp: store_ready_def)
  let ?c = "Ch_store st" and ?m = "st_msg st"
  have w: "write_all (chunk_fields ?c) f = (True, appended (chunk_bytes ?c) f)" using Cons.prems(2) st by (intro write_chunk) (simp add: store_chunks_def)
  have ih: "message_store_write db rs (appended (chunk_bytes ?c) f) = Some (MOSQ_ERR_SUCCESS, appended (file_bytes (store_chunks db rs)) (appended (chunk_bytes ?c) f))"
    using Cons.prems st by (intro Cons.IH) (auto simp: store_chunks_def)
  have p: "(if m_payloadlen ?m = 0 then Some []
         else do { p \<leftarrow> m_payload ?m; if nat (m_payloadlen ?m) \<le> length p then Some [take (nat (m_payloadlen ?m)) p] else None })
    = Some (if m_payloadlen ?m = 0 then [] else [take (nat (m_payloadlen ?m)) (the (m_payload ?m))])"
    using st(2) by (auto simp: store_ready_def)
  show ?case using ih w st(3) unfolding message_store_write.simps st(1) bind.bind_lunit Let_def p
    by (simp add: store_fields_def store_chunks_def st(1))
qed (simp add: store_chunks_def)

lemma clients_written:
  assumes "\<forall>cx \<in> set (durables cs). c_id (cx_mosq cx) \<noteq> None \<and> (\<forall>m \<in> set (cx_msgs cx). db_heap db (cm_store m) \<noteq> None)"
    "length (file_bytes (concat (map (session_chunks db) (durables cs)))) \<le> wf_room f"
  shows "client_write db cs f = Some (MOSQ_ERR_SUCCESS, appended (file_bytes (concat (map (session_chunks db) (durables cs)))) f)"
  using assms
proof (induction cs arbitrary: f)
  case (Cons c cs)
  show ?case
  proof (cases "\<exists>cx. c = Some cx \<and> \<not> c_clean_session (cx_mosq cx)")
    case False
    then show ?thesis using Cons by (cases c) auto
  next
    case True
    then obtain cx cid where c: "c = Some cx" "\<not> c_clean_session (cx_mosq cx)" "c_id (cx_mosq cx) = Some cid" using Cons.prems(1) by auto
    let ?c = "Ch_client cid (c_last_mid (cx_mosq cx)) (cx_disconnect_t cx)" and ?ms = "msg_chunks db cid (cx_msgs cx)"
    define f1 where "f1 = appended (chunk_bytes ?c) f"
    define f2 where "f2 = appended (file_bytes ?ms) f1"
    have room: "length (chunk_bytes ?c) + length (file_bytes ?ms) + length (file_bytes (concat (map (session_chunks db) (durables cs)))) \<le> wf_room f"
      using Cons.prems(2) c by (simp add: session_chunks_def [of db cx] add.assoc)
    have w: "write_all (chunk_fields ?c) f = (True, f1)" using room unfolding f1_def by (intro write_chunk) simp
    have m: "client_messages_write db (Some cid) (cx_msgs cx) f1 = Some (MOSQ_ERR_SUCCESS, f2)"
      using Cons.prems(1) c room unfolding f2_def f1_def by (intro messages_written) auto
    have ih: "client_write db cs f2 = Some (MOSQ_ERR_SUCCESS, appended (file_bytes (concat (map (session_chunks db) (durables cs)))) f2)"
      using Cons.prems(1) c room unfolding f2_def f1_def by (intro Cons.IH) auto
    show ?thesis using w m ih c by (simp add: session_chunks_def [of db cx] f2_def f1_def)
  qed
qed simp

text \<open>The topic that is written for a child.\<close>

definition child_path :: "string \<Rightarrow> string \<Rightarrow> string" where
  "child_path topic t = (if topic \<noteq> [] then topic @ [SEP] @ t else t)"

definition durable_id :: "db \<Rightarrow> nat \<Rightarrow> string option" where
  "durable_id db ci = do { cx \<leftarrow> get_ctx ci db; if c_clean_session (cx_mosq cx) then None else c_id (cx_mosq cx) }"

definition node_chunks :: "db \<Rightarrow> string \<Rightarrow> (nat \<times> int) list \<Rightarrow> chunk list" where
  "node_chunks db topic subs = List.map_filter (\<lambda>(ci, q). do { cid \<leftarrow> durable_id db ci; Some (Ch_sub cid topic q) }) subs"

definition retain_chunks :: "db \<Rightarrow> nat option \<Rightarrow> chunk list" where
  "retain_chunks db ret = (case ret of None \<Rightarrow> []
     | Some r \<Rightarrow> (case db_heap db r of None \<Rightarrow> []
         | Some st \<Rightarrow> if take 4 (the (m_topic (st_msg st))) = ''$SYS'' then [] else [Ch_retain (st_db_id st)]))"

fun tree_chunks :: "db \<Rightarrow> subhier list \<Rightarrow> string \<Rightarrow> chunk list" where
  "tree_chunks db [] topic = []"
| "tree_chunks db (Subhier t subs ret ch # bs) topic =
     node_chunks db (child_path topic t) subs @ retain_chunks db ret @ tree_chunks db ch (child_path topic t) @ tree_chunks db bs topic"

fun tree_ready :: "db \<Rightarrow> subhier list \<Rightarrow> bool" where
  "tree_ready db [] = True"
| "tree_ready db (Subhier t subs ret ch # bs) \<longleftrightarrow>
     (\<forall>(ci, q) \<in> set subs. \<exists>cx cid. get_ctx ci db = Some cx \<and> c_id (cx_mosq cx) = Some cid)
     \<and> (case ret of None \<Rightarrow> True | Some r \<Rightarrow> \<exists>st topic. db_heap db r = Some st \<and> m_topic (st_msg st) = Some topic)
     \<and> tree_ready db ch \<and> tree_ready db bs"

lemma node_subs_written:
  assumes "\<forall>(ci, q) \<in> set subs. \<exists>cx cid. get_ctx ci db = Some cx \<and> c_id (cx_mosq cx) = Some cid"
    "length (file_bytes (node_chunks db topic subs)) \<le> wf_room f"
  shows "node_subs_write db topic subs f = Some (True, appended (file_bytes (node_chunks db topic subs)) f)"
  using assms
proof (induction subs arbitrary: f)
  case (Cons s subs)
  obtain ci q where s: "s = (ci, q)" by fastforce
  obtain cx cid where cx: "get_ctx ci db = Some cx" "c_id (cx_mosq cx) = Some cid" using Cons.prems(1) s by auto
  show ?case
  proof (cases "c_clean_session (cx_mosq cx)")
    case True
    then show ?thesis using Cons cx s by (simp add: node_chunks_def durable_id_def List.map_filter_simps)
  next
    case False
    let ?c = "Ch_sub cid topic q"
    have n: "node_chunks db topic (s # subs) = ?c # node_chunks db topic subs"
      using cx s False by (simp add: node_chunks_def durable_id_def List.map_filter_simps)
    have "write_all (chunk_fields ?c) f = (True, appended (chunk_bytes ?c) f)" using Cons.prems(2) n by (intro write_chunk) simp
    then show ?thesis using Cons cx s False n by simp
  qed
qed (simp add: node_chunks_def List.map_filter_simps)

lemma node_retain_written:
  assumes "case ret of None \<Rightarrow> True | Some r \<Rightarrow> \<exists>st topic. db_heap db r = Some st \<and> m_topic (st_msg st) = Some topic"
    "length (file_bytes (retain_chunks db ret)) \<le> wf_room f"
  shows "node_retain_write db ret f = Some (True, appended (file_bytes (retain_chunks db ret)) f)"
proof (cases ret)
  case (Some r)
  then obtain st topic where st: "db_heap db r = Some st" "m_topic (st_msg st) = Some topic" using assms(1) by auto
  have "take 4 topic \<noteq> ''$SYS'' \<Longrightarrow> write_all (chunk_fields (Ch_retain (st_db_id st))) f = (True, appended (chunk_bytes (Ch_retain (st_db_id st))) f)"
    using assms(2) Some st by (intro write_chunk) (simp add: retain_chunks_def)
  then show ?thesis using Some st by (simp add: node_retain_write_def retain_chunks_def)
qed (simp add: node_retain_write_def retain_chunks_def)

lemma tree_written:
  assumes "tree_ready db bs" "db_allocs db = []" "length (file_bytes (tree_chunks db bs topic)) \<le> wf_room f"
  shows "subs_retain_write bs topic db f = Some (db, appended (file_bytes (tree_chunks db bs topic)) f)"
  using assms
proof (induction db bs topic arbitrary: f rule: tree_chunks.induct)
  case (2 db t subs ret ch bs topic)
  let ?p = "child_path topic t"
  define f1 where "f1 = appended (file_bytes (node_chunks db ?p subs)) f"
  define f2 where "f2 = appended (file_bytes (retain_chunks db ret)) f1"
  define f3 where "f3 = appended (file_bytes (tree_chunks db ch ?p)) f2"
  have 1: "node_subs_write db ?p subs f = Some (True, f1)" using "2.prems" unfolding f1_def by (intro node_subs_written) auto
  have 2: "node_retain_write db ret f1 = Some (True, f2)" using "2.prems" unfolding f2_def f1_def by (intro node_retain_written) auto
  have 3: "subs_retain_write ch ?p db f2 = Some (db, f3)" using "2.prems" unfolding f3_def f2_def f1_def by (intro "2.IH"(1)) auto
  have 4: "subs_retain_write bs topic db f3 = Some (db, appended (file_bytes (tree_chunks db bs topic)) f3)"
    using "2.prems" unfolding f3_def f2_def f1_def by (intro "2.IH"(2)) auto
  show ?case using 1 2 3 4 "2.prems"(2) by (simp add: child_path_def [symmetric] Let_def f1_def f2_def f3_def)
qed simp

text \<open>The file of a database.\<close>

definition db_chunks :: "bool \<Rightarrow> db \<Rightarrow> chunk list" where
  "db_chunks shutdown db = Ch_cfg shutdown (db_last_db_id db) # store_chunks db (db_msg_store db)
     @ concat (map (session_chunks db) (durables (db_contexts db))) @ tree_chunks db (db_subs db) ''''"

definition db_file :: "bool \<Rightarrow> db \<Rightarrow> u8 list" where
  "db_file shutdown db = magic @ net32 0 @ net32 3 @ file_bytes (db_chunks shutdown db)"

definition savable :: "db \<Rightarrow> bool" where
  "savable db \<longleftrightarrow> (\<forall>r \<in> set (db_msg_store db). \<exists>st. db_heap db r = Some st \<and> store_ready st)
     \<and> (\<forall>cx \<in> set (durables (db_contexts db)). c_id (cx_mosq cx) \<noteq> None \<and> (\<forall>m \<in> set (cx_msgs cx). db_heap db (cm_store m) \<noteq> None))
     \<and> tree_ready db (db_subs db)"

lemma backup_written:
  assumes "savable db" "db_allocs db = []" "length (db_file shutdown db) \<le> n"
  shows "mqtt3_db_backup db \<lparr>dk_path = True, dk_room = Some n, dk_rename = True, dk_file = old\<rparr> False shutdown
    = Some (MOSQ_ERR_SUCCESS, \<lparr>dk_path = True, dk_room = Some n, dk_rename = True, dk_file = Some (db_file shutdown db)\<rparr>, db)"
proof -
  let ?f = "\<lparr>wf_bytes = [], wf_room = n\<rparr>"
  let ?h = "[magic, net32 0, net32 3] @ chunk_fields (Ch_cfg shutdown (db_last_db_id db))"
  define f1 where "f1 = appended (concat ?h) ?f"
  define f2 where "f2 = appended (file_bytes (store_chunks db (db_msg_store db))) f1"
  define f3 where "f3 = appended (file_bytes (concat (map (session_chunks db) (durables (db_contexts db))))) f2"
  have len: "length (concat ?h) + length (file_bytes (store_chunks db (db_msg_store db)))
      + length (file_bytes (concat (map (session_chunks db) (durables (db_contexts db))))) + length (file_bytes (tree_chunks db (db_subs db) '''')) \<le> n"
    using assms(3) by (simp add: db_file_def db_chunks_def chunk_bytes_def)
  have 1: "write_all ?h ?f = (True, f1)" using len unfolding f1_def by (intro write_all_room) simp
  have 2: "message_store_write db (db_msg_store db) f1 = Some (MOSQ_ERR_SUCCESS, f2)"
    using len assms(1) unfolding f2_def f1_def by (intro stores_written) (auto simp: savable_def)
  have 3: "client_write db (db_contexts db) f2 = Some (MOSQ_ERR_SUCCESS, f3)"
    using len assms(1) unfolding f3_def f2_def f1_def by (intro clients_written) (auto simp: savable_def)
  have 4: "subs_retain_write (db_subs db) '''' db f3 = Some (db, appended (file_bytes (tree_chunks db (db_subs db) '''')) f3)"
    using len assms unfolding f3_def f2_def f1_def by (intro tree_written) (auto simp: savable_def)
  have "backup_write shutdown db ?f = Some (True, db, appended (file_bytes (tree_chunks db (db_subs db) '''')) f3)"
    using 1 2 3 4 by (simp add: backup_write_def)
  then show ?thesis using assms(2)
    by (simp add: mqtt3_db_backup_def f1_def f2_def f3_def db_file_def db_chunks_def chunk_bytes_def)
qed

section \<open>Reading back\<close>

text \<open>A string that fits a 16-bit length, without a zero byte.\<close>

definition str_ok :: "string \<Rightarrow> bool" where
  "str_ok s \<longleftrightarrow> length s < 65536 \<and> CHR 0x00 \<notin> set s"

fun chunk_ok :: "chunk \<Rightarrow> bool" where
  "chunk_ok (Ch_cfg shutdown n) \<longleftrightarrow> n < 2 ^ 64"
| "chunk_ok (Ch_store st) \<longleftrightarrow> store_ready st \<and> 0 < st_db_id st \<and> st_db_id st < 2 ^ 64 \<and> str_ok (st_source_id st)
     \<and> str_ok (the (m_topic (st_msg st))) \<and> the (m_topic (st_msg st)) \<noteq> [] \<and> 0 \<le> m_qos (st_msg st) \<and> m_qos (st_msg st) < 256 \<and> m_payloadlen (st_msg st) < 2 ^ 31"
| "chunk_ok (Ch_client cid mid t) \<longleftrightarrow> str_ok cid \<and> cid \<noteq> [] \<and> - (2 ^ 63) \<le> t \<and> t < 2 ^ 63"
| "chunk_ok (Ch_msg cid n m) \<longleftrightarrow> str_ok cid \<and> cid \<noteq> [] \<and> n < 2 ^ 64 \<and> 0 \<le> cm_qos m \<and> cm_qos m < 256"
| "chunk_ok (Ch_sub cid topic q) \<longleftrightarrow> str_ok cid \<and> str_ok topic \<and> 0 \<le> q \<and> q < 256"
| "chunk_ok (Ch_retain n) \<longleftrightarrow> n < 2 ^ 64"

text \<open>A stored message as it comes back.\<close>

definition restored_msg :: "msg_store \<Rightarrow> message" where
  "restored_msg st = (let m = st_msg st in
     \<lparr>m_mid = 0, m_topic = m_topic m, m_payload = (if m_payloadlen m = 0 then None else Some (take (nat (m_payloadlen m)) (the (m_payload m)))),
      m_payloadlen = m_payloadlen m, m_qos = m_qos m, m_retain = (m_retain m \<and> take 4 (the (m_topic m)) \<noteq> ''$SYS'')\<rparr>)"

definition restored_store :: "msg_store \<Rightarrow> int \<Rightarrow> msg_store" where
  "restored_store st n = \<lparr>st_db_id = st_db_id st, st_ref_count = n, st_source_id = st_source_id st, st_dest_ids = [], st_source_mid = st_source_mid st,
     st_msg = restored_msg st\<rparr>"

definition add_store :: "msg_store \<Rightarrow> db \<Rightarrow> db" where
  "add_store st db = db\<lparr>db_next := db_next db + 1, db_msg_store_count := db_msg_store_count db + 1, db_msg_store := db_next db # db_msg_store db,
     db_heap := (db_heap db)(db_next db \<mapsto> restored_store st 0)\<rparr>"

fun apply_chunk :: "chunk \<Rightarrow> db \<Rightarrow> db_res" where
  "apply_chunk (Ch_cfg shutdown n) db = Some (0, db\<lparr>db_last_db_id := n\<rparr>)"
| "apply_chunk (Ch_store st) db = Some (0, add_store st db)"
| "apply_chunk (Ch_client cid mid t) db = client_restore db cid mid t"
| "apply_chunk (Ch_msg cid n m) db = db_client_msg_restore db cid n (m\<lparr>cm_store := 0, cm_timestamp := 0\<rparr>)"
| "apply_chunk (Ch_sub cid topic q) db = do { (rc, db) \<leftarrow> db_restore_sub db cid topic q; Some (if rc \<noteq> 0 then 1 else 0, db) }"
| "apply_chunk (Ch_retain n) db = do { db \<leftarrow> retain_restore db n; Some (0, db) }"

lemma read_e_append [simp]: "length a = n \<Longrightarrow> read_e n (a @ r) k e = k a r"
  by (simp add: read_e_def)

lemma slen_Nil [simp]: "slen [] = 0"
  by (simp add: slen_def)

lemma read_e_Cons [simp]: "read_e 0 bs k e = k [] bs" "read_e (Suc 0) (a # r) k e = k [a] r" "read_e 2 (a # b # r) k e = k [a, b] r"
  "read_e 5 (a # b # c # d # x # r) k e = k [a, b, c, d, x] r"
  by (simp_all add: read_e_def numeral_2_eq_2 eval_nat_numeral)

lemma slen_ok: "str_ok s \<Longrightarrow> unat (slen s) = length s \<and> str_bytes s = bytes_of_string s \<and> (slen s = 0 \<longleftrightarrow> s = [])"
proof -
  assume "str_ok s"
  then have u: "unat (slen s) = length s" by (simp add: slen_def unat_of_nat str_ok_def take_bit_nat_eq_self_iff [symmetric])
  then have "slen s = 0 \<longleftrightarrow> length s = 0" by (metis unat_eq_zero)
  then show ?thesis using u by (simp add: str_bytes_def)
qed

lemma str_back: "str_ok s \<Longrightarrow> cstr (bytes_of_string s) = s"
  by (simp add: str_ok_def)

lemma byte_back: "0 \<le> q \<Longrightarrow> q < 256 \<Longrightarrow> uint (of_int q :: u8) = q"
  by (simp add: uint_word_of_int_eq take_bit_int_eq_self)

lemma id_back: "n < 2 ^ 64 \<Longrightarrow> unat (of_nat n :: 64 word) = n"
  by (simp add: unat_of_nat take_bit_nat_eq_self)

lemma flag_back [simp]: "flag b \<noteq> 0 \<longleftrightarrow> b" "flag b = 0 \<longleftrightarrow> \<not> b"
  by (simp_all add: flag_def)

lemma direction_back [simp]: "direction_of_byte (direction_byte d) = Some d"
  by (cases d) simp_all

lemma state_back [simp]: "state_of_byte (state_byte s) = Some s"
  by (cases s) (simp_all add: Let_def)

lemma time_back: "- (2 ^ 63) \<le> t \<Longrightarrow> t < 2 ^ 63 \<Longrightarrow> sint (of_int t :: 64 word) = t"
  by (simp add: sint_sbintrunc' signed_take_bit_int_eq_self)

lemma cfg_back: "n < 2 ^ 64 \<Longrightarrow> db_cfg_chunk_restore ([flag s] @ [8] @ le64 (of_nat n) @ r) db = Some (0, r, db\<lparr>db_last_db_id := n\<rparr>)"
  by (simp add: db_cfg_chunk_restore_def id_back)

lemma client_back:
  assumes "str_ok cid" "cid \<noteq> []" "- (2 ^ 63) \<le> t" "t < 2 ^ 63" "db_allocs db = []" "version \<noteq> 2"
  shows "db_client_chunk_restore version (net16 (slen cid) @ str_bytes cid @ net16 mid @ le64 (of_int t) @ r) db
    = do { (rc, db) \<leftarrow> client_restore db cid mid t; Some (rc, r, db) }"
  using assms slen_ok [OF assms(1)] by (simp add: db_client_chunk_restore_def str_back time_back Let_def)

lemma msg_back:
  assumes "str_ok cid" "cid \<noteq> []" "n < 2 ^ 64" "0 \<le> cm_qos m" "cm_qos m < 256" "db_allocs db = []"
  shows "db_client_msg_chunk_restore (net16 (slen cid) @ str_bytes cid @ le64 (of_nat n) @ net16 (cm_mid m) @ [of_int (cm_qos m)] @ [flag (cm_retain m)]
      @ [direction_byte (cm_direction m)] @ [state_byte (cm_state m)] @ [flag (cm_dup m)] @ r) db
    = do { (rc, db) \<leftarrow> db_client_msg_restore db cid n (m\<lparr>cm_store := 0, cm_timestamp := 0\<rparr>); Some (rc, r, db) }"
proof -
  have e: "(\<lparr>cm_store = 0, cm_mid = cm_mid m, cm_qos = cm_qos m, cm_retain = cm_retain m, cm_timestamp = 0, cm_direction = cm_direction m,
      cm_state = cm_state m, cm_dup = cm_dup m\<rparr>) = m\<lparr>cm_store := 0, cm_timestamp := 0\<rparr>" by simp
  show ?thesis using assms slen_ok [OF assms(1)]
    by (simp add: db_client_msg_chunk_restore_def str_back byte_back id_back Let_def e del: state_of_byte.simps direction_of_byte.simps)
qed

lemma sub_back:
  assumes "str_ok cid" "str_ok topic" "0 \<le> q" "q < 256" "db_allocs db = []"
  shows "db_sub_chunk_restore (net16 (slen cid) @ bytes_of_string cid @ net16 (slen topic) @ bytes_of_string topic @ [of_int q] @ r) db
    = do { (rc, db) \<leftarrow> db_restore_sub db cid topic q; Some (if rc \<noteq> 0 then 1 else 0, r, db) }"
  using assms slen_ok [OF assms(1)] slen_ok [OF assms(2)] by (simp add: db_sub_chunk_restore_def str_back byte_back Let_def)

lemma retain_back: "n < 2 ^ 64 \<Longrightarrow> db_retain_chunk_restore (le64 (of_nat n) @ r) db = do { db \<leftarrow> retain_restore db n; Some (0, r, db) }"
  by (simp add: db_retain_chunk_restore_def id_back)

lemma length_back: "0 \<le> n \<Longrightarrow> n < 2 ^ 31 \<Longrightarrow> unat (of_int n :: u32) = nat n \<and> sint (of_int n :: u32) = n \<and> ((of_int n :: u32) = 0 \<longleftrightarrow> n = 0)"
proof -
  assume n: "0 \<le> n" "n < 2 ^ 31"
  have u: "uint (of_int n :: u32) = n" using n by (simp add: uint_word_of_int_eq take_bit_int_eq_self)
  have "sint (of_int n :: u32) = n" using n by (simp add: sint_sbintrunc' signed_take_bit_int_eq_self)
  moreover have "(of_int n :: u32) = 0 \<longleftrightarrow> n = 0" using u by (metis uint_0_iff)
  ultimately show ?thesis using u by (simp add: unat_eq_nat_uint)
qed

lemma store_back:
  assumes ok: "chunk_ok (Ch_store st)" and al: "db_allocs db = []"
  shows "chunk_restore version DB_CHUNK_MSG_STORE len (drop 6 (chunk_bytes (Ch_store st)) @ r) db = Some (0, r, add_store st db)"
proof -
  let ?m = "st_msg st"
  obtain topic where t: "m_topic ?m = Some topic" using ok by (auto simp: store_ready_def)
  have s: "str_ok (st_source_id st)" "str_ok topic" "topic \<noteq> []" "0 \<le> m_qos ?m" "m_qos ?m < 256" "0 \<le> m_payloadlen ?m" "m_payloadlen ?m < 2 ^ 31"
    "0 < st_db_id st" "st_db_id st < 2 ^ 64" using ok t by (auto simp: store_ready_def)
  note l1 = slen_ok [OF s(1)] and l2 = slen_ok [OF s(2)] and n = length_back [OF s(6,7)]
  define pay where "pay = (if m_payloadlen ?m = 0 then [] else take (nat (m_payloadlen ?m)) (the (m_payload ?m)))"
  have pay: "length pay = nat (m_payloadlen ?m)" using ok by (auto simp: pay_def store_ready_def)
  have body: "drop 6 (chunk_bytes (Ch_store st)) = le64 (of_nat (st_db_id st)) @ net16 (slen (st_source_id st)) @ bytes_of_string (st_source_id st)
      @ net16 (st_source_mid st) @ net16 (of_int (m_mid ?m)) @ net16 (slen topic) @ bytes_of_string topic @ [of_int (m_qos ?m)]
      @ [if take 4 topic \<noteq> ''$SYS'' then flag (m_retain ?m) else 0] @ net32 (of_int (m_payloadlen ?m)) @ pay"
    using t l1 l2 by (simp add: chunk_bytes_def store_fields_def pay_def)
  have flag: "((if take 4 topic \<noteq> ''$SYS'' then flag (m_retain ?m) else 0) \<noteq> 0) = (m_retain ?m \<and> take 4 topic \<noteq> ''$SYS'')" by simp
  have stored: "mqtt3_db_message_store db (if 0 < length (st_source_id st) then Some (st_source_id st) else None) (st_source_mid st) (Some topic) (m_qos ?m)
      (of_int (m_payloadlen ?m)) (if m_payloadlen ?m \<noteq> 0 then Some pay else None) (m_retain ?m \<and> take 4 topic \<noteq> ''$SYS'') (st_db_id st)
    = Some (0, Some (db_next db), add_store st db)"
    using al n pay s(8) t by (cases "st_source_id st = []") (auto simp: mqtt3_db_message_store_def new_store_def Let_def add_store_def restored_store_def restored_msg_def pay_def)
  show ?thesis unfolding body
    using al l1 l2 n pay s stored
    by (cases "st_source_id st = []"; cases "m_payloadlen ?m = 0"; cases "take 4 topic = ''$SYS''")
      (simp_all add: chunk_restore_def db_msg_store_chunk_restore_def Let_def str_back byte_back id_back)
qed

text \<open>The loop reads a chunk, and goes on behind it.\<close>

lemma chunk_head: "chunk_bytes c = concat (take 2 (chunk_fields c)) @ drop 6 (chunk_bytes c)" "length (concat (take 2 (chunk_fields c))) = 6"
  by (cases c; simp add: chunk_bytes_def store_fields_def)+

lemma loop_chunk:
  assumes ok: "chunk_ok c" and al: "db_allocs db = []"
  shows "restore_loop 3 (chunk_bytes c @ r) db
    = do { (rc, db) \<leftarrow> apply_chunk c db; if rc \<noteq> 0 then Some (1, db) else restore_loop 3 r db }"
proof -
  obtain n len where h: "concat (take 2 (chunk_fields c)) = net16 n @ net32 len"
    "chunk_restore 3 n len (drop 6 (chunk_bytes c) @ r) db = do { (rc, db) \<leftarrow> apply_chunk c db; Some (rc, r, db) }"
  proof (cases c)
    case (Ch_cfg s n)
    show ?thesis using cfg_back [of n s r db] ok Ch_cfg
      by (intro that [of DB_CHUNK_CFG "8 + 1 + 1"]) (simp_all add: chunk_restore_def chunk_bytes_def)
  next
    case (Ch_store st)
    show ?thesis using store_back [of st db 3 _ r] ok al Ch_store by (intro that [of DB_CHUNK_MSG_STORE]) (simp_all add: store_fields_def)
  next
    case (Ch_client cid mid t)
    show ?thesis using client_back [of cid t db 3 mid r] ok al Ch_client
      by (intro that [of DB_CHUNK_CLIENT "2 + of_nat (length cid) + 2 + 8"]) (simp_all add: chunk_restore_def chunk_bytes_def)
  next
    case (Ch_msg cid n m)
    show ?thesis using msg_back [of cid n m db r] ok al Ch_msg
      by (intro that [of DB_CHUNK_CLIENT_MSG "8 + 2 + 5 + 2 + ucast (slen cid)"]) (simp_all add: chunk_restore_def chunk_bytes_def)
  next
    case (Ch_sub cid topic q)
    show ?thesis using sub_back [of cid topic q db r] ok al Ch_sub
      by (intro that [of DB_CHUNK_SUB "2 + of_nat (length cid) + (2 + of_nat (length topic)) + 1"])
        (simp_all add: chunk_restore_def chunk_bytes_def split: bind_split)
  next
    case (Ch_retain n)
    show ?thesis using retain_back [of n r db] ok Ch_retain
      by (intro that [of DB_CHUNK_RETAIN 8]) (simp_all add: chunk_restore_def chunk_bytes_def)
  qed
  define body where "body = drop 6 (chunk_bytes c) @ r"
  have e: "chunk_bytes c @ r = net16 n @ net32 len @ body" unfolding body_def using chunk_head(1) [of c] h(1) by (metis append.assoc)
  have "restore_loop 3 (net16 n @ net32 len @ body) db = do {
       (rc, r, db) \<leftarrow> chunk_restore 3 n len body db;
       if rc \<noteq> 0 then Some (1, db) else restore_loop 3 r db
     }" by (subst restore_loop.simps) simp
  then show ?thesis using h(2) unfolding e body_def [symmetric] by (auto split: bind_split)
qed

fun apply_chunks :: "chunk list \<Rightarrow> db \<Rightarrow> db_res" where
  "apply_chunks [] db = Some (0, db)"
| "apply_chunks (c # cs) db = do { (rc, db) \<leftarrow> apply_chunk c db; if rc \<noteq> 0 then Some (1, db) else apply_chunks cs db }"

lemma context_init_allocs: "mqtt3_context_init cn db = (c, db') \<Longrightarrow> db_allocs db = [] \<Longrightarrow> db_allocs db' = []"
  by (auto simp: mqtt3_context_init_def Let_def split: option.splits if_splits)

lemma upd_mosq_allocs: "ctx_upd_mosq i f db = Some db' \<Longrightarrow> db_allocs db' = db_allocs db"
  by (auto simp: ctx_upd_mosq_def bind_eq_Some_conv)

lemma add_context_allocs:
  assumes a: "db_add_context db cid = Some (i, db')" and al: "db_allocs db = []"
  shows "db_allocs db' = []"
proof -
  obtain c db1 where i: "mqtt3_context_init \<lparr>cn_sock = -1, cn_nonblock = False, cn_address = None, cn_rx = [], cn_wr = []\<rparr> db = (c, db1)" by fastforce
  have "db_allocs db1 = []" by (rule context_init_allocs [OF i al])
  then show ?thesis using a by (cases c) (auto simp: db_add_context_def i Let_def bind_eq_Some_conv dest: upd_mosq_allocs split: if_splits)
qed

lemma find_or_add_allocs: "db_find_or_add_context db cid mid = Some (i, db') \<Longrightarrow> db_allocs db = [] \<Longrightarrow> db_allocs db' = []"
proof -
  assume a: "db_find_or_add_context db cid mid = Some (i, db')" and al: "db_allocs db = []"
  obtain found r db1 where f: "(case found of Some i \<Rightarrow> Some (Some i, db) | None \<Rightarrow> db_add_context db cid) = Some (r, db1)"
    and n: "(case r of
          None \<Rightarrow> Some (None, db1)
        | Some i \<Rightarrow>
            if mid \<noteq> 0 then do { db \<leftarrow> ctx_upd_mosq i (\<lambda>m. m\<lparr>c_last_mid := mid\<rparr>) db1; Some (Some i, db) }
            else Some (Some i, db1)) = Some (i, db')"
    using a by (auto simp: db_find_or_add_context_def bind_eq_Some_conv simp del: split_paired_Ex)
  have "db_allocs db1 = []" using f al add_context_allocs by (cases found) auto
  then show ?thesis using n by (cases r) (auto simp: bind_eq_Some_conv dest: upd_mosq_allocs split: if_splits)
qed

lemma apply_chunk_allocs: "apply_chunk c db = Some (rc, db') \<Longrightarrow> db_allocs db = [] \<Longrightarrow> db_allocs db' = []"
proof (cases c)
  case (Ch_sub cid topic q)
  assume a: "apply_chunk c db = Some (rc, db')" "db_allocs db = []"
  obtain i db1 where f: "db_find_or_add_context db cid 0 = Some (i, db1)" using a(1) Ch_sub by (auto simp: db_restore_sub_def bind_eq_Some_conv)
  have "db_allocs db1 = []" by (rule find_or_add_allocs [OF f a(2)])
  then show ?thesis using a(1) Ch_sub f sub_add_still
    by (cases i) (auto simp: db_restore_sub_def bind_eq_Some_conv db_still_def)
next
  case (Ch_retain n)
  assume a: "apply_chunk c db = Some (rc, db')" "db_allocs db = []"
  then show ?thesis using Ch_retain messages_queue_still by (fastforce simp: retain_restore_def bind_eq_Some_conv db_still_def split: option.splits)
next
  case (Ch_client cid mid t)
  assume a: "apply_chunk c db = Some (rc, db')" "db_allocs db = []"
  obtain i db1 where f: "db_find_or_add_context db cid mid = Some (i, db1)" using a(1) Ch_client by (auto simp: client_restore_def bind_eq_Some_conv)
  have "db_allocs db1 = []" by (rule find_or_add_allocs [OF f a(2)])
  then show ?thesis using a(1) Ch_client f by (cases i) (auto simp: client_restore_def bind_eq_Some_conv)
next
  case (Ch_msg cid n m)
  assume a: "apply_chunk c db = Some (rc, db')" "db_allocs db = []"
  have "db_allocs db2 = []" if "add_ref r 1 db = Some db1" "db_find_or_add_context db1 cid 0 = Some (i, db2)" for r db1 i db2
    using find_or_add_allocs [OF that(2)] that(1) a(2) by (auto simp: add_ref_def split: option.splits)
  then show ?thesis using a Ch_msg by (fastforce simp: db_client_msg_restore_def bind_eq_Some_conv split: option.splits)
qed (auto simp: add_store_def)

theorem restore_chunks:
  assumes "\<forall>c \<in> set cs. chunk_ok c" "db_allocs db = []"
  shows "restore_loop 3 (file_bytes cs) db = apply_chunks cs db"
  using assms
proof (induction cs arbitrary: db)
  case Nil
  show ?case by (subst restore_loop.simps) (simp add: read_e_def)
next
  case (Cons c cs)
  have "apply_chunk c db = Some (rc, db') \<Longrightarrow> restore_loop 3 (file_bytes cs) db' = apply_chunks cs db'" for rc db'
    using Cons.IH [of db'] Cons.prems apply_chunk_allocs by auto
  then show ?case using loop_chunk [of c db "file_bytes cs"] Cons.prems by (auto split: bind_split)
qed

lemma restore_file:
  assumes "\<forall>c \<in> set (db_chunks shutdown db). chunk_ok c" "db_allocs db0 = []"
  shows "mqtt3_db_restore db0 \<lparr>dk_path = p, dk_room = n, dk_rename = r, dk_file = Some (db_file shutdown db)\<rparr> = apply_chunks (db_chunks shutdown db) db0"
proof -
  have "length magic = 15" by (simp add: magic_def)
  then show ?thesis using restore_chunks [OF assms] by (simp add: mqtt3_db_restore_def db_file_def)
qed

section \<open>The stored messages come back\<close>

lemma apply_chunks_append: "apply_chunks (cs @ ds) db = do { (rc, db) \<leftarrow> apply_chunks cs db; if rc \<noteq> 0 then Some (1, db) else apply_chunks ds db }"
  by (induction cs arbitrary: db) (auto split: bind_splits)

lemma apply_stores: "apply_chunks (map Ch_store sts) db = Some (0, fold add_store sts db)"
  by (induction sts arbitrary: db) simp_all

text \<open>The messages \<open>sts\<close> are in the store from the place \<open>n\<close> on, the last of them first.\<close>

definition stores_in :: "nat \<Rightarrow> msg_store list \<Rightarrow> db \<Rightarrow> bool" where
  "stores_in n sts db \<longleftrightarrow> db_msg_store db = rev [n..<n + length sts] \<and> (\<forall>j < length sts. \<exists>c. db_heap db (n + j) = Some (restored_store (sts ! j) c))"

lemma add_store_sel [simp]: "db_next (add_store st db) = db_next db + 1" "db_msg_store (add_store st db) = db_next db # db_msg_store db"
  "db_heap (add_store st db) = (db_heap db)(db_next db \<mapsto> restored_store st 0)" "db_contexts (add_store st db) = db_contexts db"
  "db_subs (add_store st db) = db_subs db" "db_allocs (add_store st db) = db_allocs db" "db_clientid_index_hash (add_store st db) = db_clientid_index_hash db"
  by (simp_all add: add_store_def)

lemma add_stores:
  assumes "db_msg_store db = []"
  shows "stores_in (db_next db) sts (fold add_store sts db) \<and> db_next (fold add_store sts db) = db_next db + length sts
    \<and> db_contexts (fold add_store sts db) = db_contexts db \<and> db_subs (fold add_store sts db) = db_subs db \<and> db_allocs (fold add_store sts db) = db_allocs db
    \<and> db_clientid_index_hash (fold add_store sts db) = db_clientid_index_hash db"
  using assms
proof (induction sts rule: rev_induct)
  case (snoc st sts)
  let ?d = "fold add_store sts db" and ?n = "db_next db"
  have ih: "stores_in ?n sts ?d" "db_next ?d = ?n + length sts" using snoc by auto
  have "\<exists>c. db_heap (add_store st ?d) (?n + j) = Some (restored_store ((sts @ [st]) ! j) c)" if "j < length (sts @ [st])" for j
    using ih that by (cases "j = length sts") (auto simp: stores_in_def nth_append)
  moreover have "db_msg_store (add_store st ?d) = rev [?n..<?n + length (sts @ [st])]" using ih by (simp add: stores_in_def)
  ultimately show ?case using snoc ih unfolding stores_in_def by simp
qed (simp add: stores_in_def)

lemma store_by_id_found:
  assumes "\<forall>r \<in> set rs. \<exists>st. db_heap db r = Some st" "r \<in> set rs" "\<forall>r' \<in> set rs. store_id db r' = store_id db r \<longrightarrow> r' = r"
  shows "store_by_id db rs (store_id db r) = Some (Some r)"
  using assms
proof (induction rs)
  case (Cons x rs)
  obtain st where st: "db_heap db x = Some st" using Cons.prems(1) by auto
  then have x: "store_id db x = st_db_id st" by (simp add: store_id_def)
  show ?case
  proof (cases "x = r")
    case True
    then show ?thesis using st x by simp
  next
    case False
    then have "st_db_id st \<noteq> store_id db r" using Cons.prems(3) x by auto
    then show ?thesis using False Cons st by simp
  qed
qed simp

lemma stores_in_found:
  assumes s: "stores_in n sts db" and d: "distinct (map st_db_id sts)" and j: "j < length sts"
  shows "store_by_id db (db_msg_store db) (st_db_id (sts ! j)) = Some (Some (n + j))"
proof -
  have id: "store_id db (n + i) = st_db_id (sts ! i)" if "i < length sts" for i
    using s that by (fastforce simp: stores_in_def store_id_def restored_store_def)
  have r: "db_msg_store db = rev [n..<n + length sts]" using s by (simp add: stores_in_def)
  have "\<exists>st. db_heap db r = Some st" if "r \<in> set (db_msg_store db)" for r
  proof -
    have "r = n + (r - n)" "r - n < length sts" using that r by auto
    then show ?thesis using s unfolding stores_in_def by (metis)
  qed
  moreover have "r' = n + j" if "r' \<in> set (db_msg_store db)" "store_id db r' = store_id db (n + j)" for r'
  proof -
    have i: "r' = n + (r' - n)" "r' - n < length sts" using that(1) r by auto
    then have "st_db_id (sts ! (r' - n)) = st_db_id (sts ! j)" using that(2) id j by metis
    then have "r' - n = j" using d i(2) j by (simp add: distinct_conv_nth) metis
    then show ?thesis using i(1) by simp
  qed
  ultimately show ?thesis using store_by_id_found [of "db_msg_store db" db "n + j"] id [OF j] j r by auto
qed

lemma stores_in_ref: "stores_in n sts db \<Longrightarrow> j < length sts \<Longrightarrow> \<exists>db'. add_ref (n + j) 1 db = Some db' \<and> stores_in n sts db'
    \<and> db_contexts db' = db_contexts db \<and> db_subs db' = db_subs db \<and> db_allocs db' = db_allocs db
    \<and> db_clientid_index_hash db' = db_clientid_index_hash db"
proof -
  assume s: "stores_in n sts db" and j: "j < length sts"
  obtain c where c: "db_heap db (n + j) = Some (restored_store (sts ! j) c)" using s j by (auto simp: stores_in_def)
  let ?d = "db\<lparr>db_heap := (db_heap db)(n + j \<mapsto> restored_store (sts ! j) (c + 1))\<rparr>"
  have "add_ref (n + j) 1 db = Some ?d" using c by (simp add: add_ref_def restored_store_def)
  moreover have "stores_in n sts ?d" using s by (auto simp: stores_in_def)
  ultimately show ?thesis by auto
qed

lemma stores_in_cong: "\<lbrakk>stores_in n sts db; db_msg_store db' = db_msg_store db; db_heap db' = db_heap db\<rbrakk> \<Longrightarrow> stores_in n sts db'"
  by (simp add: stores_in_def)

section \<open>The sessions come back\<close>

definition ctxs_are :: "ctx list \<Rightarrow> db \<Rightarrow> bool" where
  "ctxs_are cs db \<longleftrightarrow> db_contexts db = (if cs = [] then [None] else map Some cs)"

definition ids :: "ctx list \<Rightarrow> string option list" where
  "ids cs = map (\<lambda>cx. c_id (cx_mosq cx)) cs"

text \<open>The state while the sessions \<open>cs\<close> are restored.\<close>

definition restoring :: "nat \<Rightarrow> msg_store list \<Rightarrow> subhier list \<Rightarrow> ctx list \<Rightarrow> db \<Rightarrow> bool" where
  "restoring n sts hs cs db \<longleftrightarrow> stores_in n sts db \<and> ctxs_are cs db \<and> db_allocs db = [] \<and> db_subs db = hs \<and> distinct (ids cs) \<and> None \<notin> set (ids cs)
     \<and> db_clientid_index_hash db = rev (zip (map the (ids cs)) [0..<length cs])"

lemma ids_Cons: "None \<notin> set (ids (cx # cs)) \<longleftrightarrow> (\<exists>n. c_id (cx_mosq cx) = Some n) \<and> None \<notin> set (ids cs)"
  by (cases "c_id (cx_mosq cx)") (auto simp: ids_def)

lemma ctx_by_id_none: "\<lbrakk>None \<notin> set (ids cs); Some cid \<notin> set (ids cs)\<rbrakk> \<Longrightarrow> ctx_by_id (map Some cs) cid i = Some None"
proof (induction cs arbitrary: i)
  case (Cons cx cs)
  obtain n where "c_id (cx_mosq cx) = Some n" using Cons.prems(1) ids_Cons by blast
  then show ?case using Cons by (auto simp: ids_def)
qed simp

lemma ctx_by_id_some:
  "\<lbrakk>None \<notin> set (ids cs); distinct (ids cs); k < length cs; c_id (cx_mosq (cs ! k)) = Some cid\<rbrakk> \<Longrightarrow> ctx_by_id (map Some cs) cid i = Some (Some (i + k))"
proof (induction cs arbitrary: i k)
  case (Cons cx cs)
  obtain n where n: "c_id (cx_mosq cx) = Some n" using Cons.prems(1) ids_Cons by blast
  show ?case
  proof (cases k)
    case 0
    then show ?thesis using Cons.prems n by simp
  next
    case (Suc k')
    then have "ids cs ! k' = Some cid" "k' < length (ids cs)" using Cons.prems by (simp_all add: ids_def)
    then have "Some cid \<in> set (ids cs)" using nth_mem by metis
    then have "n \<noteq> cid" using Cons.prems(2) n by (auto simp: ids_def)
    then show ?thesis using Cons.prems n Suc Cons.IH [of k' "i + 1"] by (simp add: ids_def)
  qed
qed simp

lemma find_known:
  assumes r: "restoring n sts hs cs db" and k: "k < length cs" "c_id (cx_mosq (cs ! k)) = Some cid"
  shows "db_find_or_add_context db cid 0 = Some (Some k, db)"
proof -
  have "cs \<noteq> []" using k by auto
  then have "db_contexts db = map Some cs" using r by (simp add: restoring_def ctxs_are_def)
  then show ?thesis using r ctx_by_id_some [OF _ _ k, of 0] by (simp add: db_find_or_add_context_def restoring_def)
qed

lemma free_slot_full: "free_slot i (map Some cs) = i + length cs"
  by (induction cs arbitrary: i) simp_all

lemma find_new:
  assumes r: "restoring n sts hs cs db" and new: "Some cid \<notin> set (ids cs)"
  shows "\<exists>cx. db_find_or_add_context db cid mid = Some (Some (length cs), db\<lparr>db_contexts := map Some (cs @ [cx])\<rparr>) \<and> c_id (cx_mosq cx) = Some cid
    \<and> c_last_mid (cx_mosq cx) = mid \<and> \<not> c_clean_session (cx_mosq cx) \<and> cx_msgs cx = []"
proof -
  have al: "db_allocs db = []" using r by (simp add: restoring_def)
  have al': "db_allocs (db\<lparr>db_allocs := []\<rparr>) = []" by simp
  have f: "ctx_by_id (db_contexts db) cid 0 = Some None"
    using r new ctx_by_id_none [of cs cid 0] by (auto simp: restoring_def ctxs_are_def)
  have slot: "free_slot 0 (db_contexts db) = length cs" "length (db_contexts db) = (if cs = [] then 1 else length cs)"
    using r by (simp_all add: restoring_def ctxs_are_def free_slot_full)
  obtain cx where i: "mqtt3_context_init \<lparr>cn_sock = -1, cn_nonblock = False, cn_address = None, cn_rx = [], cn_wr = []\<rparr> db = (Some cx, db)"
    "cx_msgs cx = []" "c_last_mid (cx_mosq cx) = 0" using al by (auto simp: mqtt3_context_init_def Let_def mosq_calloc_def)
  define cx1 where "cx1 = cx\<lparr>cx_mosq := (cx_mosq cx)\<lparr>c_clean_session := False, c_id := Some cid\<rparr>\<rparr>"
  have a: "db_add_context db cid = Some (Some (length cs), db\<lparr>db_contexts := map Some (cs @ [cx1])\<rparr>)"
    using r al slot i by (cases "cs = []") (auto simp: db_add_context_def Let_def ctx_upd_mosq_def put_ctx_def get_ctx_def cx1_def restoring_def ctxs_are_def list_update_append nth_append)
  define cx2 where "cx2 = cx1\<lparr>cx_mosq := (cx_mosq cx1)\<lparr>c_last_mid := mid\<rparr>\<rparr>"
  have m: "ctx_upd_mosq (length cs) (\<lambda>m. m\<lparr>c_last_mid := mid\<rparr>) (db\<lparr>db_contexts := map Some (cs @ [cx1])\<rparr>) = Some (db\<lparr>db_contexts := map Some (cs @ [cx2])\<rparr>)"
    by (simp add: ctx_upd_mosq_def get_ctx_def put_ctx_def nth_append list_update_append cx2_def)
  show ?thesis
  proof (cases "mid = 0")
    case True
    then show ?thesis using f a i by (intro exI [of _ cx1]) (simp add: db_find_or_add_context_def cx1_def)
  next
    case False
    then show ?thesis using f a i m by (intro exI [of _ cx2]) (simp add: db_find_or_add_context_def cx2_def cx1_def)
  qed
qed

text \<open>A queued message and its restored copy; \<open>sts\<close> are the stored messages in the order of the file.\<close>

definition same_msg :: "nat \<Rightarrow> msg_store list \<Rightarrow> db \<Rightarrow> client_msg \<Rightarrow> client_msg \<Rightarrow> bool" where
  "same_msg n sts src m m' \<longleftrightarrow> (\<exists>j < length sts. db_heap src (cm_store m) = Some (sts ! j) \<and> m' = m\<lparr>cm_timestamp := 0, cm_store := n + j\<rparr>)"

definition same_session :: "nat \<Rightarrow> msg_store list \<Rightarrow> db \<Rightarrow> ctx \<Rightarrow> ctx \<Rightarrow> bool" where
  "same_session n sts src cx cx' \<longleftrightarrow> c_id (cx_mosq cx') = c_id (cx_mosq cx) \<and> c_last_mid (cx_mosq cx') = c_last_mid (cx_mosq cx)
     \<and> cx_disconnect_t cx' = cx_disconnect_t cx \<and> \<not> c_clean_session (cx_mosq cx') \<and> list_all2 (same_msg n sts src) (cx_msgs cx) (cx_msgs cx')
     \<and> cx_last_msg cx' = (if cx_msgs cx = [] then cx_last_msg cx' else Last_at (length (cx_msgs cx) - 1))"

lemma put_last: "db_contexts db = map Some (cs @ [cx]) \<Longrightarrow> put_ctx (length cs) cx' db = db\<lparr>db_contexts := map Some (cs @ [cx'])\<rparr>"
  "db_contexts db = map Some (cs @ [cx]) \<Longrightarrow> get_ctx (length cs) db = Some cx"
  by (simp_all add: put_ctx_def get_ctx_def nth_append list_update_append)

lemma restore_msg:
  assumes r: "restoring n sts hs (cs @ [cx]) db" and d: "distinct (map st_db_id sts)" and j: "j < length sts" "db_heap src (cm_store m) = Some (sts ! j)"
    and cid: "c_id (cx_mosq cx) = Some cid" and l: "cx_msgs cx \<noteq> [] \<Longrightarrow> cx_last_msg cx = Last_at (length (cx_msgs cx) - 1)"
  shows "\<exists>db' m'. apply_chunk (Ch_msg cid (st_db_id (sts ! j)) m) db = Some (0, db') \<and> same_msg n sts src m m'
    \<and> restoring n sts hs (cs @ [cx\<lparr>cx_msgs := cx_msgs cx @ [m'], cx_last_msg := Last_at (length (cx_msgs cx))\<rparr>]) db'"
proof -
  have al: "db_allocs db = []" and s: "stores_in n sts db" using r by (simp_all add: restoring_def)
  obtain db1 where a: "add_ref (n + j) 1 db = Some db1" "stores_in n sts db1" "db_contexts db1 = db_contexts db" "db_subs db1 = db_subs db"
    "db_allocs db1 = db_allocs db" "db_clientid_index_hash db1 = db_clientid_index_hash db" using stores_in_ref [OF s j(1)] by auto
  have r1: "restoring n sts hs (cs @ [cx]) db1" using r a by (simp add: restoring_def ctxs_are_def)
  have f: "db_find_or_add_context db1 cid 0 = Some (Some (length cs), db1)" by (rule find_known [OF r1]) (simp_all add: cid)
  have c: "db_contexts db1 = map Some (cs @ [cx])" using r1 by (simp add: restoring_def ctxs_are_def)
  define m' where "m' = m\<lparr>cm_timestamp := 0, cm_store := n + j\<rparr>"
  define cx' where "cx' = cx\<lparr>cx_msgs := cx_msgs cx @ [m'], cx_last_msg := Last_at (length (cx_msgs cx))\<rparr>"
  have ap: "restore_append m' cx = Some cx'" using l by (cases "cx_msgs cx = []") (simp_all add: restore_append_def cx'_def)
  have "apply_chunk (Ch_msg cid (st_db_id (sts ! j)) m) db = Some (0, put_ctx (length cs) cx' db1)"
    using al stores_in_found [OF s d j(1)] a(1) f put_last(2) [OF c] ap by (simp add: db_client_msg_restore_def m'_def)
  moreover have "restoring n sts hs (cs @ [cx']) (put_ctx (length cs) cx' db1)"
    using r1 unfolding put_last(1) [OF c] by (simp add: restoring_def ctxs_are_def ids_def cx'_def stores_in_def)
  moreover have "same_msg n sts src m m'" using j by (auto simp: same_msg_def m'_def)
  ultimately show ?thesis unfolding cx'_def by blast
qed

lemma restore_msgs:
  assumes "restoring n sts hs (cs @ [cx]) db" "distinct (map st_db_id sts)" "\<forall>m \<in> set ms. \<exists>j < length sts. db_heap src (cm_store m) = Some (sts ! j)"
    "c_id (cx_mosq cx) = Some cid" "cx_msgs cx \<noteq> [] \<Longrightarrow> cx_last_msg cx = Last_at (length (cx_msgs cx) - 1)"
  shows "\<exists>db' ms'. apply_chunks (msg_chunks src cid ms) db = Some (0, db') \<and> list_all2 (same_msg n sts src) ms ms'
    \<and> restoring n sts hs (cs @ [cx\<lparr>cx_msgs := cx_msgs cx @ ms', cx_last_msg := (if ms = [] then cx_last_msg cx else Last_at (length (cx_msgs cx @ ms') - 1))\<rparr>]) db'"
  using assms
proof (induction ms arbitrary: cx db)
  case Nil
  then show ?case by (simp add: msg_chunks_def)
next
  case (Cons m ms)
  obtain j where j: "j < length sts" "db_heap src (cm_store m) = Some (sts ! j)" using Cons.prems(3) by auto
  obtain db1 m' where 1: "apply_chunk (Ch_msg cid (st_db_id (sts ! j)) m) db = Some (0, db1)" "same_msg n sts src m m'"
    "restoring n sts hs (cs @ [cx\<lparr>cx_msgs := cx_msgs cx @ [m'], cx_last_msg := Last_at (length (cx_msgs cx))\<rparr>]) db1"
    using restore_msg [OF Cons.prems(1,2) j Cons.prems(4,5)] by auto
  define cx1 where "cx1 = cx\<lparr>cx_msgs := cx_msgs cx @ [m'], cx_last_msg := Last_at (length (cx_msgs cx))\<rparr>"
  obtain db2 ms' where 2: "apply_chunks (msg_chunks src cid ms) db1 = Some (0, db2)" "list_all2 (same_msg n sts src) ms ms'"
    "restoring n sts hs (cs @ [cx1\<lparr>cx_msgs := cx_msgs cx1 @ ms', cx_last_msg := (if ms = [] then cx_last_msg cx1 else Last_at (length (cx_msgs cx1 @ ms') - 1))\<rparr>]) db2"
    using Cons.IH [of cx1 db1] 1(3) Cons.prems by (auto simp: cx1_def)
  have "ms' = [] \<longleftrightarrow> ms = []" using 2(2) by auto
  then have e: "cx1\<lparr>cx_msgs := cx_msgs cx1 @ ms', cx_last_msg := (if ms = [] then cx_last_msg cx1 else Last_at (length (cx_msgs cx1 @ ms') - 1))\<rparr>
      = cx\<lparr>cx_msgs := cx_msgs cx @ (m' # ms'), cx_last_msg := Last_at (length (cx_msgs cx @ (m' # ms')) - 1)\<rparr>"
    by (auto simp: cx1_def)
  have "apply_chunks (msg_chunks src cid (m # ms)) db = Some (0, db2)" using 1(1) 2(1) j by (simp add: msg_chunks_def store_id_def)
  moreover have "list_all2 (same_msg n sts src) (m # ms) (m' # ms')" using 1(2) 2(2) by simp
  ultimately show ?case using 2(3) unfolding e by (intro exI [of _ db2] exI [of _ "m' # ms'"]) simp
qed

text \<open>One session, and all of them.\<close>

lemma restore_session:
  assumes r: "restoring n sts hs cs db" and d: "distinct (map st_db_id sts)" and cid: "c_id (cx_mosq cx) = Some cid" "Some cid \<notin> set (ids cs)"
    and m: "\<forall>m \<in> set (cx_msgs cx). \<exists>j < length sts. db_heap src (cm_store m) = Some (sts ! j)"
  shows "\<exists>db' cx'. apply_chunks (session_chunks src cx) db = Some (0, db') \<and> same_session n sts src cx cx' \<and> restoring n sts hs (cs @ [cx']) db'"
proof -
  obtain cx0 where f: "db_find_or_add_context db cid (c_last_mid (cx_mosq cx)) = Some (Some (length cs), db\<lparr>db_contexts := map Some (cs @ [cx0])\<rparr>)"
    "c_id (cx_mosq cx0) = Some cid" "c_last_mid (cx_mosq cx0) = c_last_mid (cx_mosq cx)" "\<not> c_clean_session (cx_mosq cx0)" "cx_msgs cx0 = []"
    using find_new [OF r cid(2)] by blast
  define cx1 where "cx1 = cx0\<lparr>cx_disconnect_t := cx_disconnect_t cx\<rparr>"
  define db1 where "db1 = db\<lparr>db_contexts := map Some (cs @ [cx1]), db_clientid_index_hash := cih_add cid (length cs) (db_clientid_index_hash db)\<rparr>"
  have e1: "c_id (cx_mosq cx1) = Some cid" "cx_msgs cx1 = []" using f(2,5) by (simp_all add: cx1_def)
  have al: "db_allocs db = []" using r by (simp add: restoring_def)
  have c: "apply_chunk (Ch_client cid (c_last_mid (cx_mosq cx)) (cx_disconnect_t cx)) db = Some (0, db1)"
    using f al by (simp add: client_restore_def put_last [of _ cs cx0] cx1_def db1_def)
  have "restoring n sts hs (cs @ [cx1]) db1"
    using r cid(2) f(2) unfolding restoring_def db1_def by (simp add: ctxs_are_def ids_def cx1_def cih_add_def stores_in_def)
  then obtain db2 ms' where 2: "apply_chunks (msg_chunks src cid (cx_msgs cx)) db1 = Some (0, db2)" "list_all2 (same_msg n sts src) (cx_msgs cx) ms'"
    "restoring n sts hs (cs @ [cx1\<lparr>cx_msgs := ms', cx_last_msg := (if cx_msgs cx = [] then cx_last_msg cx1 else Last_at (length ms' - 1))\<rparr>]) db2"
    using restore_msgs [of n sts hs cs cx1 db1 "cx_msgs cx" src cid] d m e1 by (auto cong: if_cong)
  have "apply_chunks (session_chunks src cx) db = Some (0, db2)" using c 2(1) cid(1) by (simp add: session_chunks_def)
  moreover have "same_session n sts src cx (cx1\<lparr>cx_msgs := ms', cx_last_msg := (if cx_msgs cx = [] then cx_last_msg cx1 else Last_at (length ms' - 1))\<rparr>)"
    using f cid(1) 2(2) list_all2_lengthD [OF 2(2)] by (simp add: same_session_def cx1_def)
  ultimately show ?thesis using 2(3) by blast
qed

lemma restore_sessions:
  assumes "restoring n sts hs cs db" "distinct (map st_db_id sts)" "\<forall>cx \<in> set ds. c_id (cx_mosq cx) \<noteq> None
      \<and> (\<forall>m \<in> set (cx_msgs cx). \<exists>j < length sts. db_heap src (cm_store m) = Some (sts ! j))" "distinct (ids cs @ ids ds)"
  shows "\<exists>db' cs'. apply_chunks (concat (map (session_chunks src) ds)) db = Some (0, db') \<and> list_all2 (same_session n sts src) ds cs' \<and> restoring n sts hs (cs @ cs') db'"
  using assms
proof (induction ds arbitrary: cs db)
  case Nil
  then show ?case by simp
next
  case (Cons cx ds)
  obtain cid where cid: "c_id (cx_mosq cx) = Some cid" using Cons.prems(3) by auto
  obtain db1 cx' where 1: "apply_chunks (session_chunks src cx) db = Some (0, db1)" "same_session n sts src cx cx'" "restoring n sts hs (cs @ [cx']) db1"
  proof -
    have "Some cid \<notin> set (ids cs)" using Cons.prems(4) cid by (auto simp: ids_def)
    moreover have "\<forall>m \<in> set (cx_msgs cx). \<exists>j < length sts. db_heap src (cm_store m) = Some (sts ! j)" using Cons.prems(3) by simp
    ultimately show thesis using restore_session [OF Cons.prems(1,2) cid] that by blast
  qed
  have "c_id (cx_mosq cx') = Some cid" using 1(2) cid by (simp add: same_session_def)
  then have "distinct (ids (cs @ [cx']) @ ids ds)" using Cons.prems(4) cid by (auto simp: ids_def)
  then obtain db2 cs' where 2: "apply_chunks (concat (map (session_chunks src) ds)) db1 = Some (0, db2)" "list_all2 (same_session n sts src) ds cs'"
    "restoring n sts hs ((cs @ [cx']) @ cs') db2" using Cons.IH [OF 1(3) Cons.prems(2)] Cons.prems(3) by auto
  show ?case using 1(1,2) 2 by (intro exI [of _ db2] exI [of _ "cx' # cs'"]) (simp add: apply_chunks_append)
qed

end
