(* ===== verification/Broker_Restart.thy ===== *)
theory Broker_Restart
  imports Broker_Restore
begin

text \<open>
  The subscriptions of the durable sessions come back, too, and with that a restart of the broker loses no session. The topics that are written for
  the tree are the subscriptions again, except for those below \<open>$SYS\<close>. Retained messages go back into the tree, and no client gets them again.
\<close>

section \<open>The tree as a list\<close>

fun walk :: "subhier list \<Rightarrow> (string list \<times> nat \<times> int) list" where
  "walk [] = []"
| "walk (Subhier t subs ret ch # bs) = map (\<lambda>(ci, q). ([t], ci, q)) subs @ map (\<lambda>(toks, ci, q). (t # toks, ci, q)) (walk ch) @ walk bs"

lemma walk_toks: "(toks, ci, q) \<in> set (walk bs) \<Longrightarrow> toks \<noteq> [] \<and> hd toks \<in> sh_topic ` set bs"
  by (induction bs rule: walk.induct) auto

text \<open>The subscriptions at a path, for siblings with different names.\<close>

lemma walk_iff: "tree_ok bs \<Longrightarrow> (tok # toks, ci, q) \<in> set (walk bs) \<longleftrightarrow> (ci, q) \<in> set (child_subs bs tok toks)"
proof (induction bs arbitrary: tok toks rule: walk.induct)
  case (2 t subs ret ch bs)
  have n: "(tok # toks, ci, q) \<in> set (walk bs) \<Longrightarrow> tok \<noteq> t" using walk_toks [of "tok # toks" ci q bs] "2.prems" by auto
  show ?case
  proof (cases "tok = t")
    case True
    show ?thesis
    proof (cases toks)
      case Nil
      then show ?thesis using True n walk_toks [of "[]" ci q ch] by auto
    next
      case (Cons u us)
      then have "(toks, ci, q) \<in> set (walk ch) \<longleftrightarrow> (ci, q) \<in> set (child_subs ch u us)" using "2.IH"(1) [of u us] "2.prems" by simp
      then show ?thesis using True n Cons by auto
    qed
  next
    case False
    then show ?thesis using "2.IH"(2) [of tok toks] "2.prems" by auto
  qed
qed simp

lemma child_subs_distinct: "tree_ok bs \<Longrightarrow> distinct (map fst (child_subs bs tok toks))"
proof (induction toks arbitrary: bs tok)
  case Nil
  then show ?case by (induction bs rule: walk.induct) auto
next
  case (Cons t toks)
  then show ?case by (induction bs rule: walk.induct) auto
qed

lemma walk_map_of: "tree_ok bs \<Longrightarrow> (tok # toks, ci, q) \<in> set (walk bs) \<longleftrightarrow> map_of (child_subs bs tok toks) ci = Some q"
  using walk_iff child_subs_distinct by (simp add: map_of_eq_Some_iff)

text \<open>The chunks of a tree are its subscriptions by durable clients, and its retained messages.\<close>

fun tree_nodes_retained :: "db \<Rightarrow> subhier list \<Rightarrow> chunk list" where
  "tree_nodes_retained db [] = []"
| "tree_nodes_retained db (Subhier t subs ret ch # bs) = retain_chunks db ret @ tree_nodes_retained db ch @ tree_nodes_retained db bs"

text \<open>The chunk of a subscription.\<close>

definition sub_chunk :: "db \<Rightarrow> string \<Rightarrow> string list \<times> nat \<times> int \<Rightarrow> chunk \<Rightarrow> bool" where
  "sub_chunk db p w c \<longleftrightarrow> (case w of (toks, ci, q) \<Rightarrow> \<exists>cid. durable_id db ci = Some cid \<and> c = Ch_sub cid (foldl child_path p toks) q)"

lemma sub_chunk_Cons: "sub_chunk db p (t # toks, w) = sub_chunk db (child_path p t) (toks, w)"
  by (cases w) (simp add: sub_chunk_def fun_eq_iff)

lemma node_chunks_set: "c \<in> set (node_chunks db p subs) \<longleftrightarrow> (\<exists>(ci, q) \<in> set subs. sub_chunk db p ([], ci, q) c)"
  unfolding node_chunks_def List.map_filter_def sub_chunk_def by (force simp: bind_eq_Some_conv)

lemma tree_chunks_set:
  "c \<in> set (tree_chunks db bs p) \<longleftrightarrow> (\<exists>w \<in> set (walk bs). sub_chunk db p w c) \<or> c \<in> set (tree_nodes_retained db bs)"
proof (induction db bs p rule: tree_chunks.induct)
  case (2 db t subs ret ch bs p)
  have 1: "(\<exists>w \<in> set (map (\<lambda>(ci, q). ([t], ci, q)) subs). sub_chunk db p w c) \<longleftrightarrow> c \<in> set (node_chunks db (child_path p t) subs)"
    unfolding node_chunks_set by (simp add: case_prod_beta sub_chunk_Cons)
  have 2: "(\<exists>w \<in> set (map (\<lambda>(toks, ci, q). (t # toks, ci, q)) (walk ch)). sub_chunk db p w c) \<longleftrightarrow> (\<exists>w \<in> set (walk ch). sub_chunk db (child_path p t) w c)"
    by (simp add: case_prod_beta sub_chunk_Cons)
  show ?case unfolding walk.simps set_append bex_Un 1 2 using "2.IH" by auto
qed simp

section \<open>The subscriptions come back\<close>

text \<open>The state while the tree is restored for the sessions \<open>cs\<close>.\<close>

definition regrowing :: "nat \<Rightarrow> msg_store list \<Rightarrow> ctx list \<Rightarrow> db \<Rightarrow> bool" where
  "regrowing n sts cs db \<longleftrightarrow> restoring n sts (db_subs db) cs db \<and> tree_inv db \<and> map sh_topic (db_subs db) = ['''', ''$SYS'']
     \<and> (\<forall>r \<in> set (tree_retained (db_subs db)). db_heap db r \<noteq> None)"

lemma regrowing_id:
  assumes "regrowing n sts cs db" "k < length cs"
  shows "ctx_id db k = ids cs ! k" "ctx_id db k \<noteq> None"
proof -
  have "cs \<noteq> []" using assms(2) by auto
  then show e: "ctx_id db k = ids cs ! k"
    using assms by (simp add: regrowing_def restoring_def ctxs_are_def ctx_id_def get_ctx_def ids_def)
  have "ids cs ! k \<in> set (ids cs)" "None \<notin> set (ids cs)" using assms by (simp_all add: ids_def regrowing_def restoring_def)
  then show "ctx_id db k \<noteq> None" using e by metis
qed

lemma root_add_keeps:
  "root_add db ci q hs tok toks = Some (Some (rc, hs', db')) \<Longrightarrow> sub_only db db' \<and> tree_retained hs' = tree_retained hs"
proof (induction hs arbitrary: rc hs' db')
  case (Cons h hs)
  have c: "tree_retained (x # xs) = tree_retained [x] @ tree_retained xs" for x xs by (cases x) simp
  show ?case
  proof (cases "sh_topic h = tok")
    case True
    then obtain h' where h': "sub_add db (Some ci) q h (tok # toks) = Some (rc, h', db')" "hs' = h' # hs" using Cons.prems by (auto simp: bind_eq_Some_conv)
    then show ?thesis using sub_add_frame(1) [OF h'(1)] sub_add_shape(1) [OF h'(1)] c by metis
  next
    case False
    then obtain hs1 where h': "root_add db ci q hs tok toks = Some (Some (rc, hs1, db'))" "hs' = h # hs1" using Cons.prems by (auto simp: bind_eq_Some_conv)
    then show ?thesis using Cons.IH [OF h'(1)] c by metis
  qed
qed simp

lemma sub_add_exact:
  assumes "mqtt3_sub_add db ci sub q = Some (rc, db')" "db_allocs db = []" "root_known db sub" "tree_inv db" "ctx_id db ci \<noteq> None"
  shows "\<exists>n. db' = db\<lparr>db_subs := db_subs db', db_subscription_count := n\<rparr> \<and> tree_retained (db_subs db') = tree_retained (db_subs db)"
proof -
  have t: "sub_topic_tokenise sub db = (Some (tokens_of sub), db)" by (rule sub_topic_tokenise_tokens [OF assms(2)])
  have "add_ready db (Some ci) (db_subs db)" using assms by (auto simp: add_ready_def tree_inv_def)
  then obtain rc' hs db2 where a: "root_add db ci q (db_subs db) (hd (tokens_of sub)) (tl (tokens_of sub)) = Some (Some (rc', hs, db2))"
    using root_add_spec [of db ci "db_subs db"] assms(3) unfolding root_known_def by metis
  have f: "sub_only db db2" "tree_retained hs = tree_retained (db_subs db)" using root_add_keeps [OF a] by simp_all
  obtain al n where n: "db2 = db\<lparr>db_allocs := al, db_subscription_count := n\<rparr>" "al = []"
    using f(1) assms(2) by (auto simp: sub_only_def)
  have "db2 = db\<lparr>db_subscription_count := n\<rparr>" using n assms(2) by (cases db) simp
  moreover have "db' = db2\<lparr>db_subs := hs\<rparr>" using assms(1) t a by (simp add: mqtt3_sub_add_def)
  ultimately show ?thesis using f(2) by (intro exI [of _ n]) simp
qed

lemma restore_sub:
  assumes r: "regrowing n sts cs db" and k: "k < length cs" "ids cs ! k = Some cid" and known: "hd (tokens_of path) = ''''"
  shows "\<exists>db'. apply_chunk (Ch_sub cid path q) db = Some (0, db') \<and> regrowing n sts cs db' \<and> subscriptions db' = (subscriptions db)((tokens_of path, k) \<mapsto> q)"
proof -
  have f: "db_find_or_add_context db cid 0 = Some (Some k, db)"
    using r k by (intro find_known [of n sts "db_subs db" cs]) (simp_all add: regrowing_def ids_def)
  have al: "db_allocs db = []" and ti: "tree_inv db" using r by (simp_all add: regrowing_def restoring_def)
  have "'''' \<in> set (map sh_topic (db_subs db))" using r by (simp add: regrowing_def)
  then have rk: "root_known db path" using known by (simp add: root_known_def)
  note id = regrowing_id [OF r k(1)]
  obtain db' where a: "mqtt3_sub_add db k path q = Some (0, db')" "tree_inv db'" "map sh_topic (db_subs db') = map sh_topic (db_subs db)"
    "subscriptions db' = (subscriptions db)((tokens_of path, k) \<mapsto> q)"
    using sub_add_refines [OF ti id(2) rk, of q] al by auto
  obtain m where m: "db' = db\<lparr>db_subs := db_subs db', db_subscription_count := m\<rparr>" "tree_retained (db_subs db') = tree_retained (db_subs db)"
    using sub_add_exact [OF a(1) al rk ti id(2)] by blast
  have "db_contexts db' = db_contexts db" "db_heap db' = db_heap db" "db_msg_store db' = db_msg_store db" "db_allocs db' = []"
    "db_clientid_index_hash db' = db_clientid_index_hash db" using al by (subst m(1); simp)+
  then have "regrowing n sts cs db'" using r a m(2) by (simp add: regrowing_def restoring_def ctxs_are_def stores_in_def)
  then show ?thesis using f a by (simp add: db_restore_sub_def)
qed

section \<open>The retained messages come back\<close>

text \<open>Without a source only the reference counts and the statistics change.\<close>

definition no_refs :: "msg_store option \<Rightarrow> msg_store option" where
  "no_refs = map_option (st_ref_count_update (\<lambda>_. 0))"

lemma no_refs_simps [simp]: "no_refs None = None" "no_refs (Some st) = Some (st\<lparr>st_ref_count := 0\<rparr>)" "no_refs x = None \<longleftrightarrow> x = None"
  by (simp_all add: no_refs_def)

definition refs_only :: "db \<Rightarrow> db \<Rightarrow> bool" where
  "refs_only db db' \<longleftrightarrow> db' = db\<lparr>db_heap := db_heap db', db_retained_count := db_retained_count db', db_persistence_changes := db_persistence_changes db',
     db_subscription_count := db_subscription_count db'\<rparr> \<and> (\<forall>r. no_refs (db_heap db' r) = no_refs (db_heap db r))"

lemma refs_only_refl [simp]: "refs_only db db"
  by (simp add: refs_only_def)

lemma refs_only_trans [trans]: "\<lbrakk>refs_only a b; refs_only b c\<rbrakk> \<Longrightarrow> refs_only a c"
  unfolding refs_only_def by (cases a; cases b; cases c) simp

lemma refs_only_updates [simp]: "refs_only db (db\<lparr>db_retained_count := n\<rparr>)" "refs_only db (db\<lparr>db_persistence_changes := n\<rparr>)" "refs_only db (db\<lparr>db_subscription_count := n\<rparr>)"
  by (simp_all add: refs_only_def)

lemma refs_only_dom: "refs_only db db' \<Longrightarrow> db_heap db' r \<noteq> None \<longleftrightarrow> db_heap db r \<noteq> None"
  unfolding refs_only_def by (metis no_refs_simps(3))

lemma refs_only_sel:
  assumes "refs_only db db'"
  shows "db_contexts db' = db_contexts db" "db_allocs db' = db_allocs db" "db_msg_store db' = db_msg_store db" "db_subs db' = db_subs db"
    "db_clientid_index_hash db' = db_clientid_index_hash db"
proof -
  note e = assms [unfolded refs_only_def, THEN conjunct1]
  show "db_contexts db' = db_contexts db" "db_allocs db' = db_allocs db" "db_msg_store db' = db_msg_store db" "db_subs db' = db_subs db"
    "db_clientid_index_hash db' = db_clientid_index_hash db"
    using arg_cong [OF e, of db_contexts] arg_cong [OF e, of db_allocs] arg_cong [OF e, of db_msg_store] arg_cong [OF e, of db_subs]
      arg_cong [OF e, of db_clientid_index_hash] by simp_all
qed

lemma refs_only_ids: "refs_only db db' \<Longrightarrow> ctx_id db' = ctx_id db" "refs_only db db' \<Longrightarrow> ids_ok db' = ids_ok db"
  by (drule refs_only_sel(1), simp add: ctx_id_def ids_ok_def ctx_ids_def get_ctx_def fun_eq_iff)+

lemma add_ref_quiet: "db_heap db r \<noteq> None \<Longrightarrow> \<exists>db'. add_ref r n db = Some db' \<and> refs_only db db'"
  by (auto simp: add_ref_def refs_only_def)

lemma set_retained_quiet:
  assumes "\<forall>r \<in> set_option old. db_heap db r \<noteq> None" "db_heap db (pb_stored pb) \<noteq> None"
  shows "\<exists>ret db'. set_retained pb old db = Some (ret, db') \<and> refs_only db db' \<and> set_option ret \<subseteq> {pb_stored pb}"
proof -
  define db1 where "db1 = (if take 4 (pb_topic pb) \<noteq> ''$SYS'' then db\<lparr>db_persistence_changes := db_persistence_changes db + 1\<rparr> else db)"
  have q1: "refs_only db db1" by (simp add: db1_def)
  obtain db2 where db2: "(case old of None \<Rightarrow> Some db1
      | Some r \<Rightarrow> do { db \<leftarrow> add_ref r (-1) db1; Some (db\<lparr>db_retained_count := db_retained_count db - 1\<rparr>) }) = Some db2" "refs_only db1 db2"
  proof (cases old)
    case None
    then show thesis using that by simp
  next
    case (Some r)
    then have "db_heap db1 r \<noteq> None" using assms(1) refs_only_dom [OF q1] by auto
    from add_ref_quiet [OF this, of "-1"] obtain db' where d: "add_ref r (-1) db1 = Some db'" "refs_only db1 db'" by blast
    then have "refs_only db1 (db'\<lparr>db_retained_count := db_retained_count db' - 1\<rparr>)" using refs_only_trans refs_only_updates(1) by blast
    then show thesis using that Some d by simp
  qed
  have q: "refs_only db db2" using refs_only_trans [OF q1 db2(2)] .
  have st: "db_heap db2 (pb_stored pb) \<noteq> None" using refs_only_dom [OF q] assms(2) by blast
  obtain db3 where db3: "add_ref (pb_stored pb) 1 db2 = Some db3" "refs_only db2 db3" using add_ref_quiet [OF st] by blast
  obtain s where s: "db_heap db2 (pb_stored pb) = Some s" using st by auto
  have "set_retained pb old db = (if m_payloadlen (st_msg s) \<noteq> 0 then Some (Some (pb_stored pb), db3\<lparr>db_retained_count := db_retained_count db3 + 1\<rparr>)
      else Some (None, db2))"
    using s db3(1) by (simp add: set_retained_def Let_def db2 flip: db1_def)
  moreover have "refs_only db (db3\<lparr>db_retained_count := db_retained_count db3 + 1\<rparr>)" using q db3(2) refs_only_trans refs_only_updates(1) by blast
  ultimately show ?thesis using q by auto
qed

lemma subs_process_quiet:
  assumes "pb_source pb = None" "\<forall>r \<in> set_option ret. db_heap db r \<noteq> None" "db_heap db (pb_stored pb) \<noteq> None"
  shows "\<exists>ret' db'. subs_process pb (Subhier t subs ret ch) sr db = Some (0, Subhier t subs ret' ch, db') \<and> refs_only db db'
    \<and> set_option ret' \<subseteq> insert (pb_stored pb) (set_option ret)"
  using set_retained_quiet [OF assms(2,3)] assms(1) by (cases "pb_retain pb \<and> sr") (auto simp: subs_process_def)

lemma tree_retained_node: "set (tree_retained (Subhier t subs ret ch # bs)) = set_option ret \<union> set (tree_retained ch) \<union> set (tree_retained bs)"
  by (cases ret) auto

lemma sub_search_quiet:
  assumes "pb_source pb = None"
  shows "\<lbrakk>\<forall>r \<in> set (tree_retained bs). db_heap db r \<noteq> None; db_heap db (pb_stored pb) \<noteq> None\<rbrakk> \<Longrightarrow>
    \<exists>bs' db'. sub_search pb bs toks sr db = Some (bs', db') \<and> refs_only db db' \<and> strip bs' = strip bs
      \<and> set (tree_retained bs') \<subseteq> insert (pb_stored pb) (set (tree_retained bs))"
proof (induction bs arbitrary: toks sr db rule: tree_retained.induct)
  case (2 t subs ret ch bs)
  let ?h = "Subhier t subs ret ch"
  note pre = "2.prems" [unfolded tree_retained_node]
  define step where "step =
     (if toks \<noteq> [] \<and> (t = hd toks \<or> t = [PLUS]) then
        do {
          (ch, db) \<leftarrow> sub_search pb ch (tl toks) (t \<noteq> [PLUS] \<and> sr) db;
          if tl toks = []
          then do { (rc, b, db) \<leftarrow> subs_process pb (Subhier t subs ret ch) (t \<noteq> [PLUS] \<and> sr) db; Some (b, db) }
          else Some (Subhier t subs ret ch, db)
        }
      else if t = [HASH] \<and> ch = [] then do { (rc, b, db) \<leftarrow> subs_process pb ?h False db; Some (b, db) }
      else Some (?h, db))"
  have eq: "sub_search pb (?h # bs) toks sr db = do { (b, db) \<leftarrow> step; (bs, db) \<leftarrow> sub_search pb bs toks sr db; Some (b # bs, db) }"
    by (simp add: step_def Let_def)
  have "\<exists>ret' ch' db1. step = Some (Subhier t subs ret' ch', db1) \<and> refs_only db db1 \<and> strip ch' = strip ch
      \<and> set_option ret' \<union> set (tree_retained ch') \<subseteq> insert (pb_stored pb) (set_option ret \<union> set (tree_retained ch))"
  proof (cases "toks \<noteq> [] \<and> (t = hd toks \<or> t = [PLUS])")
    case True
    let ?sr = "t \<noteq> [PLUS] \<and> sr"
    obtain ch' db1 where c: "sub_search pb ch (tl toks) ?sr db = Some (ch', db1)" "refs_only db db1" "strip ch' = strip ch"
      "set (tree_retained ch') \<subseteq> insert (pb_stored pb) (set (tree_retained ch))"
      using "2.IH"(1) [of db "tl toks" ?sr] pre by auto
    show ?thesis
    proof (cases "tl toks = []")
      case nil: True
      have d: "\<forall>r \<in> set_option ret. db_heap db1 r \<noteq> None" "db_heap db1 (pb_stored pb) \<noteq> None" using pre refs_only_dom [OF c(2)] by blast+
      obtain ret' db2 where "subs_process pb (Subhier t subs ret ch') ?sr db1 = Some (0, Subhier t subs ret' ch', db2)" "refs_only db1 db2"
        "set_option ret' \<subseteq> insert (pb_stored pb) (set_option ret)"
        using subs_process_quiet [OF assms d] by blast
      then show ?thesis using c True nil refs_only_trans [of db db1 db2] by (intro exI [of _ ret'] exI [of _ ch'] exI [of _ db2]) (auto simp: step_def)
    next
      case False
      then show ?thesis using c True by (intro exI [of _ ret] exI [of _ ch'] exI [of _ db1]) (auto simp: step_def)
    qed
  next
    case False
    have d: "\<forall>r \<in> set_option ret. db_heap db r \<noteq> None" using pre by blast
    obtain ret' db2 where "subs_process pb ?h False db = Some (0, Subhier t subs ret' ch, db2)" "refs_only db db2"
      "set_option ret' \<subseteq> insert (pb_stored pb) (set_option ret)"
      using subs_process_quiet [OF assms d pre(2)] by blast
    then show ?thesis using False by (cases "t = [HASH] \<and> ch = []") (auto simp: step_def)
  qed
  then obtain ret' ch' db1 where s: "step = Some (Subhier t subs ret' ch', db1)" "refs_only db db1" "strip ch' = strip ch"
    "set_option ret' \<union> set (tree_retained ch') \<subseteq> insert (pb_stored pb) (set_option ret \<union> set (tree_retained ch))" by blast
  have "\<forall>r \<in> set (tree_retained bs). db_heap db1 r \<noteq> None" "db_heap db1 (pb_stored pb) \<noteq> None" using pre refs_only_dom [OF s(2)] by blast+
  then obtain bs' db2 where b: "sub_search pb bs toks sr db1 = Some (bs', db2)" "refs_only db1 db2" "strip bs' = strip bs"
    "set (tree_retained bs') \<subseteq> insert (pb_stored pb) (set (tree_retained bs))" using "2.IH"(2) by blast
  have "set (tree_retained (Subhier t subs ret' ch' # bs')) \<subseteq> insert (pb_stored pb) (set (tree_retained (?h # bs)))"
    unfolding tree_retained_node using s(4) b(4) by blast
  moreover have "refs_only db db2" using s(2) b(2) refs_only_trans by blast
  moreover have "strip (Subhier t subs ret' ch' # bs') = strip (?h # bs)" using s(3) b(3) by simp
  ultimately show ?case unfolding eq using s(1) b(1) by auto
qed simp

text \<open>The same for the roots: the subscriptions at every path stay, and the clients of the tree.\<close>

definition same_subs :: "subhier list \<Rightarrow> subhier list \<Rightarrow> bool" where
  "same_subs hs hs' \<longleftrightarrow> same_shape hs hs' \<and> root_subs hs' = root_subs hs"

lemma same_subs_refl [simp]: "same_subs hs hs"
  by (simp add: same_subs_def same_shape_def)

lemma sub_only_quiet:
  assumes "sub_only db db'" "db_allocs db = []"
  shows "refs_only db db'"
proof -
  obtain al n where "db' = db\<lparr>db_allocs := al, db_subscription_count := n\<rparr>" "al = []" using assms by (auto simp: sub_only_def)
  then have "db' = db\<lparr>db_subscription_count := n\<rparr>" using assms(2) by (cases db) simp
  then show ?thesis by simp
qed

lemma queue_root_quiet:
  assumes src: "pb_source pb = None" and h: "\<forall>r \<in> set (tree_retained [h]). db_heap db r \<noteq> None" "db_heap db (pb_stored pb) \<noteq> None"
    and r: "add_ready db None [h]" and al: "db_allocs db = []"
  shows "\<exists>h' db'. queue_roots pb [h] toks db = Some ([h'], db') \<and> refs_only db db' \<and> same_shape [h] [h'] \<and> node_subs h' = node_subs h
      \<and> set (tree_retained [h']) \<subseteq> insert (pb_stored pb) (set (tree_retained [h]))"
proof (cases "sh_topic h = hd toks")
  case True
  obtain rc h1 db1 where a: "(if pb_retain pb then sub_add db None 0 h toks else Some (0, h, db)) = Some (rc, h1, db1)" "refs_only db db1"
    "same_shape [h] [h1]" "node_subs h1 = node_subs h" "tree_retained [h1] = tree_retained [h]"
  proof (cases "pb_retain pb")
    case True
    obtain rc h1 db1 where a: "sub_add db None 0 h toks = Some (rc, h1, db1)" "add_frame db None rc [h] [h1] db1" "sh_topic h1 = sh_topic h"
      "\<And>p. node_subs h1 p = node_subs h p"
      using sub_add_spec(1) [OF r, of 0 toks] by (auto simp: ctx_upd_def)
    have "refs_only db db1" using a(2) al sub_only_quiet by (auto simp: add_frame_def)
    moreover have "same_shape [h] [h1]" using a(2,3) by (simp add: add_frame_def same_shape_def)
    moreover have "tree_retained [h1] = tree_retained [h]" using sub_add_shape(1) [OF a(1)] by blast
    ultimately show thesis using that a True by auto
  qed (use that in \<open>auto simp: same_shape_def\<close>)
  have c: "set (tree_retained [x]) = set_option (sh_retained x) \<union> set (tree_retained (sh_children x))" for x by (cases x) (simp add: tree_retained_node del: tree_retained.simps(2))
  have "\<forall>r \<in> set (tree_retained [h1]). db_heap db1 r \<noteq> None" "db_heap db1 (pb_stored pb) \<noteq> None" using h a(5) refs_only_dom [OF a(2)] by metis+
  then obtain ch db2 where s: "sub_search pb (sh_children h1) toks True db1 = Some (ch, db2)" "refs_only db1 db2" "strip ch = strip (sh_children h1)"
    "set (tree_retained ch) \<subseteq> insert (pb_stored pb) (set (tree_retained (sh_children h1)))"
    using sub_search_quiet [OF src, of "sh_children h1" db1 toks True] c [of h1] by blast
  define h' where "h' = Subhier (sh_topic h1) (sh_subs h1) (sh_retained h1) ch"
  have "node_subs h' p = node_subs h1 p" for p using strip_eqD(4) [OF s(3)] by (cases h1; cases p) (simp_all add: h'_def)
  then have "node_subs h' = node_subs h" using a(4) by auto
  moreover have "same_shape [h] [h']" using a(3) strip_eqD [OF s(3)] by (cases h1) (auto simp: same_shape_def h'_def)
  moreover have "set (tree_retained [h']) \<subseteq> insert (pb_stored pb) (set (tree_retained [h]))" using s(4) c [of h1] c [of h'] a(5) by (auto simp: h'_def)
  moreover have "queue_roots pb [h] toks db = Some ([h'], db2)" using True a(1) s(1) by (simp add: h'_def)
  ultimately show ?thesis using a(2) s(2) refs_only_trans by blast
qed (auto simp: same_shape_def)

lemma queue_roots_quiet:
  assumes "pb_source pb = None"
  shows "\<lbrakk>\<forall>r \<in> set (tree_retained hs). db_heap db r \<noteq> None; db_heap db (pb_stored pb) \<noteq> None; add_ready db None hs; db_allocs db = []\<rbrakk> \<Longrightarrow>
    \<exists>hs' db'. queue_roots pb hs toks db = Some (hs', db') \<and> refs_only db db' \<and> same_subs hs hs'
      \<and> set (tree_retained hs') \<subseteq> insert (pb_stored pb) (set (tree_retained hs))"
proof (induction hs arbitrary: db)
  case (Cons h hs)
  have c: "set (tree_retained (x # xs)) = set (tree_retained [x]) \<union> set (tree_retained xs)" for x xs by (cases x) (simp add: tree_retained_node del: tree_retained.simps(2))
  have n: "add_ready db None [h]" "add_ready db None hs" using Cons.prems(3) by (cases h; auto simp: add_ready_def)+
  obtain h' db1 where 1: "queue_roots pb [h] toks db = Some ([h'], db1)" "refs_only db db1" "same_shape [h] [h']" "node_subs h' = node_subs h"
    "set (tree_retained [h']) \<subseteq> insert (pb_stored pb) (set (tree_retained [h]))"
    using queue_root_quiet [OF assms _ Cons.prems(2) n(1) Cons.prems(4)] Cons.prems(1) c [of h hs] by blast
  have e: "db_allocs db1 = []" using refs_only_sel [OF 1(2)] Cons.prems(4) by simp
  have "add_ready db1 None hs" using n(2) refs_only_ids [OF 1(2)] by (simp add: add_ready_def)
  then obtain hs' db2 where 2: "queue_roots pb hs toks db1 = Some (hs', db2)" "refs_only db1 db2" "same_subs hs hs'"
    "set (tree_retained hs') \<subseteq> insert (pb_stored pb) (set (tree_retained hs))"
    using Cons.IH [of db1] Cons.prems(1,2) c [of h hs] refs_only_dom [OF 1(2)] e by blast
  have "same_subs (h # hs) (h' # hs')"
    using 1(3,4) 2(3) same_shape_Cons [OF 1(3)] by (auto simp: same_subs_def same_shape_def fun_eq_iff)
  then show ?case using 1(1,2,5) 2(1,2,4) refs_only_trans [of db db1 db2] c [of h hs] c [of h' hs'] unfolding queue_roots_Cons [of pb h hs] by auto
qed simp

lemma stores_in_quiet:
  assumes "stores_in n sts db" "refs_only db db'"
  shows "stores_in n sts db'"
proof -
  have "\<exists>c. db_heap db' (n + j) = Some (restored_store (sts ! j) c)" if j: "j < length sts" for j
  proof -
    obtain c where "db_heap db (n + j) = Some (restored_store (sts ! j) c)" using assms(1) j by (auto simp: stores_in_def)
    then have "no_refs (db_heap db' (n + j)) = Some ((restored_store (sts ! j) c)\<lparr>st_ref_count := 0\<rparr>)" using assms(2) by (simp add: refs_only_def)
    then obtain st where st: "db_heap db' (n + j) = Some st" "st\<lparr>st_ref_count := 0\<rparr> = (restored_store (sts ! j) c)\<lparr>st_ref_count := 0\<rparr>" by (auto simp: no_refs_def)
    then have "st = restored_store (sts ! j) (st_ref_count st)" by (cases st) (simp add: restored_store_def)
    then show ?thesis using st(1) by auto
  qed
  then show ?thesis using assms(1) refs_only_sel(3) [OF assms(2)] by (simp add: stores_in_def)
qed

lemma restore_retain:
  assumes r: "regrowing n sts cs db" and d: "distinct (map st_db_id sts)" and j: "j < length sts" "m_topic (st_msg (sts ! j)) = Some topic"
  shows "\<exists>db'. apply_chunk (Ch_retain (st_db_id (sts ! j))) db = Some (0, db') \<and> regrowing n sts cs db' \<and> subscriptions db' = subscriptions db"
proof -
  have si: "stores_in n sts db" and al: "db_allocs db = []" and ti: "tree_inv db" and ret: "\<forall>r \<in> set (tree_retained (db_subs db)). db_heap db r \<noteq> None"
    using r by (simp_all add: regrowing_def restoring_def)
  obtain c where st: "db_heap db (n + j) = Some (restored_store (sts ! j) c)" using si j(1) by (auto simp: stores_in_def)
  let ?st = "restored_store (sts ! j) c"
  define pb where "pb = \<lparr>pb_source = None, pb_topic = topic, pb_qos = m_qos (st_msg ?st), pb_retain = m_retain (st_msg ?st), pb_stored = n + j\<rparr>"
  have pb: "pb_source pb = None" "db_heap db (pb_stored pb) \<noteq> None" using st by (simp_all add: pb_def)
  have ready: "add_ready db None (db_subs db)" using ti by (auto simp: add_ready_def tree_inv_def)
  obtain hs db1 where q: "queue_roots pb (db_subs db) (tokens_of topic) db = Some (hs, db1)" "refs_only db db1" "same_subs (db_subs db) hs"
    "set (tree_retained hs) \<subseteq> insert (n + j) (set (tree_retained (db_subs db)))"
    using queue_roots_quiet [OF pb(1) ret pb(2) ready al, of "tokens_of topic"] by (auto simp: pb_def)
  have mt: "m_topic (st_msg ?st) = Some topic" using j(2) by (simp add: restored_store_def restored_msg_def Let_def)
  have "mqtt3_db_messages_queue db None topic (m_qos (st_msg ?st)) (m_retain (st_msg ?st)) (n + j) = Some (0, db1\<lparr>db_subs := hs\<rparr>)"
    using q(1) by (simp add: mqtt3_db_messages_queue_def sub_topic_tokenise_tokens [OF al] pb_def)
  then have "apply_chunk (Ch_retain (st_db_id (sts ! j))) db = Some (0, db1\<lparr>db_subs := hs\<rparr>)"
    using stores_in_found [OF si d j(1)] st mt by (simp add: retain_restore_def)
  moreover have "regrowing n sts cs (db1\<lparr>db_subs := hs\<rparr>)"
  proof -
    have "stores_in n sts (db1\<lparr>db_subs := hs\<rparr>)" using stores_in_quiet [OF si q(2)] by (simp add: stores_in_def)
    then have "restoring n sts hs cs (db1\<lparr>db_subs := hs\<rparr>)" using r refs_only_sel [OF q(2)] by (simp add: regrowing_def restoring_def ctxs_are_def)
    moreover have "tree_inv (db1\<lparr>db_subs := hs\<rparr>)"
      using ti q(3) refs_only_ids [OF q(2)] by (auto simp: tree_inv_def same_subs_def same_shape_def)
    moreover have "\<forall>r \<in> set (tree_retained hs). db_heap db1 r \<noteq> None" using q(4) ret st refs_only_dom [OF q(2)] by (metis insert_iff option.distinct(1) subsetD)
    ultimately show ?thesis using r q(3) by (simp add: regrowing_def same_subs_def same_shape_def)
  qed
  moreover have "subscriptions (db1\<lparr>db_subs := hs\<rparr>) = subscriptions db" using q(3) by (simp add: subscriptions_def same_subs_def)
  ultimately show ?thesis by blast
qed

section \<open>All chunks of the tree\<close>

text \<open>A chunk of a tree that can be restored, and what it does to the subscriptions; \<open>ix\<close> are the places of the clients.\<close>

fun tree_chunk_ok :: "msg_store list \<Rightarrow> ctx list \<Rightarrow> (string \<Rightarrow> nat) \<Rightarrow> chunk \<Rightarrow> bool" where
  "tree_chunk_ok sts cs ix (Ch_sub cid path q) \<longleftrightarrow> ix cid < length cs \<and> ids cs ! ix cid = Some cid \<and> hd (tokens_of path) = ''''"
| "tree_chunk_ok sts cs ix (Ch_retain i) \<longleftrightarrow> (\<exists>j topic. j < length sts \<and> st_db_id (sts ! j) = i \<and> m_topic (st_msg (sts ! j)) = Some topic)"
| "tree_chunk_ok sts cs ix _ \<longleftrightarrow> False"

fun chunk_sub :: "(string \<Rightarrow> nat) \<Rightarrow> chunk \<Rightarrow> sub_map \<Rightarrow> sub_map" where
  "chunk_sub ix (Ch_sub cid path q) m = m((tokens_of path, ix cid) \<mapsto> q)"
| "chunk_sub ix _ m = m"

lemma restore_tree:
  assumes "\<forall>c \<in> set chunks. tree_chunk_ok sts cs ix c" "regrowing n sts cs db" "distinct (map st_db_id sts)"
  shows "\<exists>db'. apply_chunks chunks db = Some (0, db') \<and> regrowing n sts cs db' \<and> subscriptions db' = fold (chunk_sub ix) chunks (subscriptions db)"
  using assms(1,2)
proof (induction chunks arbitrary: db)
  case (Cons c chunks)
  have "\<exists>db1. apply_chunk c db = Some (0, db1) \<and> regrowing n sts cs db1 \<and> subscriptions db1 = chunk_sub ix c (subscriptions db)"
    using Cons.prems restore_sub [OF Cons.prems(2)] restore_retain [OF Cons.prems(2) assms(3)]
    by (cases "(sts, cs, ix, c)" rule: tree_chunk_ok.cases) fastforce+
  then obtain db1 where 1: "apply_chunk c db = Some (0, db1)" "regrowing n sts cs db1" "subscriptions db1 = chunk_sub ix c (subscriptions db)" by blast
  then show ?case using Cons.IH [OF _ 1(2)] Cons.prems(1) by simp
qed simp

definition chunk_at :: "(string \<Rightarrow> nat) \<Rightarrow> string list \<times> nat \<Rightarrow> chunk \<Rightarrow> int option" where
  "chunk_at ix key c = (case c of Ch_sub cid path q \<Rightarrow> if (tokens_of path, ix cid) = key then Some q else None | _ \<Rightarrow> None)"

lemma chunk_sub_at: "chunk_sub ix c m key = (case chunk_at ix key c of None \<Rightarrow> m key | Some q \<Rightarrow> Some q)"
  by (cases c) (auto simp: chunk_at_def)

lemma fold_chunk_sub:
  "\<lbrakk>\<forall>c \<in> set chunks. chunk_at ix key c = None \<or> chunk_at ix key c = v; m key = None \<or> m key = v\<rbrakk> \<Longrightarrow>
     fold (chunk_sub ix) chunks m key = (if \<exists>c \<in> set chunks. chunk_at ix key c \<noteq> None then v else m key)"
proof (induction chunks arbitrary: m)
  case (Cons c chunks)
  have m: "chunk_sub ix c m key = None \<or> chunk_sub ix c m key = v" using Cons.prems by (auto simp: chunk_sub_at split: option.split)
  have "fold (chunk_sub ix) chunks (chunk_sub ix c m) key = (if \<exists>c \<in> set chunks. chunk_at ix key c \<noteq> None then v else chunk_sub ix c m key)"
    using Cons.prems(1) by (intro Cons.IH m) simp
  moreover have "chunk_sub ix c m key = (case chunk_at ix key c of None \<Rightarrow> m key | Some q \<Rightarrow> Some q)" by (rule chunk_sub_at)
  ultimately show ?case using Cons.prems(1) by (cases "chunk_at ix key c") auto
qed simp

section \<open>The restart\<close>

text \<open>
  The tree is as the broker opens it, and the durable clients have no subscriptions below \<open>$SYS\<close>, and none with tokens that do not come
  from their topic.
\<close>

definition tree_savable :: "db \<Rightarrow> bool" where
  "tree_savable db \<longleftrightarrow> tree_ok (db_subs db) \<and> map sh_topic (db_subs db) = ['''', ''$SYS'']
     \<and> list_all (\<lambda>h. sh_subs h = [] \<and> list_all (\<lambda>(toks, ci, q). durable_id db ci = None
          \<or> sh_topic h = '''' \<and> hd toks = '''' \<and> tokens_of (foldl child_path '''' toks) = toks) (walk (sh_children h))) (db_subs db)"

text \<open>The tokens of a subscription name a root, and its child of the same name.\<close>

lemma tree_subscription:
  assumes t: "tree_savable db" and d: "durable_id db ci = Some cid"
  shows "(\<exists>w \<in> set (walk (db_subs db)). w = ('''' # toks, ci, q) \<and> hd toks = '''' \<and> tokens_of (foldl child_path '''' toks) = toks) \<longleftrightarrow> subscriptions db (toks, ci) = Some q"
    "w \<in> set (walk (db_subs db)) \<Longrightarrow> fst (snd w) = ci \<Longrightarrow> \<exists>toks q. w = ('''' # toks, ci, q) \<and> hd toks = '''' \<and> tokens_of (foldl child_path '''' toks) = toks"
proof -
  obtain ch1 ret1 ch2 ret2 where hs: "db_subs db = [Subhier '''' [] ret1 ch1, Subhier ''$SYS'' [] ret2 ch2]"
  proof -
    obtain h1 h2 where h: "db_subs db = [h1, h2]" "sh_topic h1 = ''''" "sh_topic h2 = ''$SYS''" "sh_subs h1 = []" "sh_subs h2 = []"
      using t by (auto simp: tree_savable_def map_eq_Cons_conv)
    show thesis by (rule that [of "sh_retained h1" "sh_children h1" "sh_retained h2" "sh_children h2"]) (use h in \<open>cases h1; cases h2; simp\<close>)
  qed
  have ok: "tree_ok ch1" "tree_ok ch2" using t hs by (simp_all add: tree_savable_def)
  have none: "(toks, ci, q) \<notin> set (walk ch2)" for toks q using t d hs by (force simp: tree_savable_def list_all_iff)
  have good: "hd toks = '''' \<and> tokens_of (foldl child_path '''' toks) = toks" if "(toks, ci, q) \<in> set (walk ch1)" for toks q
    using t d hs that by (force simp: tree_savable_def list_all_iff)
  have w: "w \<in> set (walk (db_subs db)) \<longleftrightarrow> (\<exists>toks q. w = ('''' # toks, ci, q) \<and> (toks, ci, q) \<in> set (walk ch1))" if "fst (snd w) = ci" for w
    using none that hs by (cases w) (auto simp: image_iff, force)
  show "\<exists>toks q. w = ('''' # toks, ci, q) \<and> hd toks = '''' \<and> tokens_of (foldl child_path '''' toks) = toks" if "w \<in> set (walk (db_subs db))" "fst (snd w) = ci"
    using that w good by blast
  have "(toks, ci, q) \<in> set (walk ch1) \<longleftrightarrow> subscriptions db (toks, ci) = Some q"
  proof (cases toks)
    case Nil
    then show ?thesis using walk_toks [of "[]" ci q ch1] hs by (auto simp: subscriptions_def)
  next
    case (Cons tok toks')
    have 1: "(toks, ci, q) \<in> set (walk ch1) \<longleftrightarrow> map_of (child_subs ch1 tok toks') ci = Some q" using walk_map_of [OF ok(1)] Cons by simp
    show ?thesis
    proof (cases "tok = ''''")
      case True
      then show ?thesis using 1 Cons hs by (simp add: subscriptions_def)
    next
      case False
      then have "(toks, ci, q) \<notin> set (walk ch1)" using good [of toks q] Cons False by auto
      moreover have "map_of (child_subs ch2 tok toks') ci \<noteq> Some q" using none walk_map_of [OF ok(2)] by blast
      ultimately show ?thesis using False Cons hs by (auto simp: subscriptions_def)
    qed
  qed
  then show "(\<exists>w \<in> set (walk (db_subs db)). w = ('''' # toks, ci, q) \<and> hd toks = '''' \<and> tokens_of (foldl child_path '''' toks) = toks) \<longleftrightarrow> subscriptions db (toks, ci) = Some q"
    using w good by auto
qed

definition slot_durable :: "ctx option \<Rightarrow> string option" where
  "slot_durable c = do { cx \<leftarrow> c; if c_clean_session (cx_mosq cx) then None else c_id (cx_mosq cx) }"

lemma durable_id_slot: "durable_id db ci = (if ci < length (db_contexts db) then slot_durable (db_contexts db ! ci) else None)"
  by (simp add: durable_id_def slot_durable_def get_ctx_def)

lemma ids_durables: "None \<notin> set (ids (durables cs)) \<Longrightarrow> ids (durables cs) = map Some (List.map_filter slot_durable cs)"
proof (induction cs)
  case (Cons c cs)
  then show ?case by (cases c) (auto simp: slot_durable_def ids_def List.map_filter_simps split: if_splits option.splits)
qed (simp add: ids_def List.map_filter_simps)

lemma durable_inj:
  assumes "None \<notin> set (ids (durables (db_contexts db)))" "distinct (ids (durables (db_contexts db)))"
    "durable_id db ci = Some cid" "durable_id db cj = Some cid"
  shows "ci = cj"
proof -
  have "distinct (List.map_filter slot_durable (db_contexts db))" using assms(2) unfolding ids_durables [OF assms(1)] by (simp add: distinct_map)
  then show ?thesis using assms(3,4) map_filter_distinct_nth [of slot_durable "db_contexts db" ci cj cid] by (auto simp: durable_id_slot split: if_splits)
qed

text \<open>A database that can be saved and restored.\<close>

definition restartable :: "bool \<Rightarrow> db \<Rightarrow> bool" where
  "restartable shutdown db \<longleftrightarrow> savable db \<and> db_allocs db = [] \<and> list_all chunk_ok (db_chunks shutdown db)
     \<and> distinct (map (store_id db) (db_msg_store db)) \<and> distinct (ids (durables (db_contexts db)))
     \<and> list_all (\<lambda>cx. list_all (\<lambda>m. cm_store m \<in> set (db_msg_store db)) (cx_msgs cx)) (durables (db_contexts db))
     \<and> list_all (\<lambda>r. r \<in> set (db_msg_store db)) (tree_retained (db_subs db)) \<and> tree_savable db"

definition saved_stores :: "db \<Rightarrow> msg_store list" where
  "saved_stores db = map (\<lambda>r. the (db_heap db r)) (db_msg_store db)"

lemma saved_stores_at:
  assumes "savable db" "r \<in> set (db_msg_store db)"
  shows "\<exists>j < length (saved_stores db). db_heap db r = Some (saved_stores db ! j) \<and> store_ready (saved_stores db ! j)"
proof -
  obtain j where j: "j < length (db_msg_store db)" "db_msg_store db ! j = r" using assms(2) by (auto simp: in_set_conv_nth)
  obtain st where "db_heap db r = Some st" "store_ready st" using assms by (auto simp: savable_def)
  then show ?thesis using j by (intro exI [of _ j]) (simp add: saved_stores_def)
qed

lemma store_ids_saved: "savable db \<Longrightarrow> map st_db_id (saved_stores db) = map (store_id db) (db_msg_store db)"
  by (auto simp: saved_stores_def store_id_def savable_def split: option.split)

lemma nodes_retained_set:
  "c \<in> set (tree_nodes_retained db bs) \<Longrightarrow> \<exists>r st. r \<in> set (tree_retained bs) \<and> db_heap db r = Some st \<and> c = Ch_retain (st_db_id st)"
  by (induction bs rule: tree_retained.induct) (auto simp: retain_chunks_def dest!: sym [of "Some _"] split: option.splits if_splits)

lemma open_fresh:
  assumes "mqtt3_db_open (db_zero cf infl queued []) = (MOSQ_ERR_SUCCESS, db0)"
  shows "db_contexts db0 = [None]" "db_subs db0 = [Subhier '''' [] None [], Subhier ''$SYS'' [] None []]" "db_msg_store db0 = []" "db_allocs db0 = []"
    "db_clientid_index_hash db0 = []"
  using assms by (auto simp: mqtt3_db_open_def db_zero_def db_alloc_def)

text \<open>A fresh database is ready for the sessions, and what the sessions leave for the tree.\<close>

lemma fresh_restoring:
  assumes "db_contexts db0 = [None]" "db_msg_store db0 = []" "db_allocs db0 = []" "db_clientid_index_hash db0 = []"
  shows "restoring (db_next db0) sts (db_subs db0) [] (fold add_store sts (db0\<lparr>db_last_db_id := n\<rparr>))"
  using add_stores [of "db0\<lparr>db_last_db_id := n\<rparr>" sts] assms by (simp add: restoring_def ctxs_are_def ids_def)

lemma restoring_regrowing:
  assumes r: "restoring n sts hs cs db" and hs: "hs = [Subhier '''' [] None [], Subhier ''$SYS'' [] None []]"
  shows "regrowing n sts cs db" "subscriptions db = Map.empty"
proof -
  have s: "db_subs db = hs" and c: "ctxs_are cs db" and i: "distinct (ids cs)" "None \<notin> set (ids cs)" using r by (simp_all add: restoring_def)
  have "None \<notin> set (ids cs) \<Longrightarrow> ids cs = map Some (List.map_filter (\<lambda>c. do { cx \<leftarrow> c; c_id (cx_mosq cx) }) (map Some cs))" for cs
    by (induction cs) (auto simp: ids_def List.map_filter_simps split: option.splits)
  then have "distinct (List.map_filter (\<lambda>c. do { cx \<leftarrow> c; c_id (cx_mosq cx) }) (map Some cs))" using i by (metis distinct_map)
  then have "ids_ok db" using c by (cases "cs = []") (simp_all add: ids_ok_def ctx_ids_def ctxs_are_def List.map_filter_simps)
  then show "regrowing n sts cs db" using r s hs by (simp add: regrowing_def tree_inv_def)
  have "root_subs hs toks = []" for toks unfolding hs by (cases toks rule: list.exhaust; cases "tl toks") auto
  then show "subscriptions db = Map.empty" using s by (auto simp: subscriptions_def fun_eq_iff)
qed

lemma session_index:
  assumes "restoring n sts hs cs db" "k < length cs" "ids cs ! k = Some cid"
  shows "cih_find cid (db_clientid_index_hash db) = Some k" "get_ctx k db = Some (cs ! k)"
proof -
  have h: "db_clientid_index_hash db = rev (zip (map the (ids cs)) [0..<length cs])" and d: "distinct (ids cs)" "None \<notin> set (ids cs)" and c: "ctxs_are cs db"
    using assms(1) by (simp_all add: restoring_def)
  have l: "length (ids cs) = length cs" by (simp add: ids_def)
  have "inj_on the (set (ids cs))" using d(2) by (auto simp: inj_on_def) (metis option.expand)
  then have dz: "distinct (map fst (zip (map the (ids cs)) [0..<length cs]))" using d(1) l by (simp add: distinct_map)
  have "(cid, k) \<in> set (zip (map the (ids cs)) [0..<length cs])" unfolding set_zip using assms(2,3) l by (intro CollectI exI [of _ k]) simp
  then show "cih_find cid (db_clientid_index_hash db) = Some k" using dz unfolding h cih_find_def by (simp add: map_of_eq_Some_iff rev_map [symmetric])
  have "cs \<noteq> []" using assms(2) by auto
  then show "get_ctx k db = Some (cs ! k)" using c assms(2) by (simp add: ctxs_are_def get_ctx_def)
qed

section \<open>What a client finds\<close>

text \<open>
  A message and its copy after the restart: it refers to a stored message with the same content. The session has the same messages in the same
  order; a context is found by the id of the client.
\<close>

definition msg_back :: "db \<Rightarrow> db \<Rightarrow> client_msg \<Rightarrow> client_msg \<Rightarrow> bool" where
  "msg_back src db m m' \<longleftrightarrow> m' = m\<lparr>cm_timestamp := 0, cm_store := cm_store m'\<rparr>
     \<and> (\<exists>st c. db_heap src (cm_store m) = Some st \<and> db_heap db (cm_store m') = Some (restored_store st c))"

definition session_back :: "db \<Rightarrow> db \<Rightarrow> ctx \<Rightarrow> ctx \<Rightarrow> bool" where
  "session_back src db cx cx' \<longleftrightarrow> c_id (cx_mosq cx') = c_id (cx_mosq cx) \<and> c_last_mid (cx_mosq cx') = c_last_mid (cx_mosq cx)
     \<and> cx_disconnect_t cx' = cx_disconnect_t cx \<and> \<not> c_clean_session (cx_mosq cx') \<and> list_all2 (msg_back src db) (cx_msgs cx) (cx_msgs cx')"

lemma same_session_back:
  assumes "same_session n sts src cx cx'" "stores_in n sts db"
  shows "session_back src db cx cx'"
proof -
  have "msg_back src db m m'" if "same_msg n sts src m m'" for m m'
  proof -
    obtain j where j: "j < length sts" "db_heap src (cm_store m) = Some (sts ! j)" "m' = m\<lparr>cm_timestamp := 0, cm_store := n + j\<rparr>"
      using \<open>same_msg n sts src m m'\<close> by (auto simp: same_msg_def)
    then show ?thesis using assms(2) by (auto simp: msg_back_def stores_in_def)
  qed
  then have "list_all2 (msg_back src db) (cx_msgs cx) (cx_msgs cx')" using assms(1) unfolding same_session_def by (auto elim: list_all2_mono)
  then show ?thesis using assms(1) by (simp add: session_back_def same_session_def)
qed

text \<open>The chunks of the tree of a database are good for its restored sessions.\<close>

lemma tree_chunks_good:
  assumes src: "restartable shutdown src" and ids: "ids cs = ids (durables (db_contexts src))"
    and ix: "\<And>k cid. k < length cs \<Longrightarrow> ids cs ! k = Some cid \<Longrightarrow> ix cid = k"
  shows "\<forall>c \<in> set (tree_chunks src (db_subs src) ''''). tree_chunk_ok (saved_stores src) cs ix c"
    "durable_id src ci = Some cid \<Longrightarrow> fold (chunk_sub ix) (tree_chunks src (db_subs src) '''') Map.empty (toks, ix cid) = subscriptions src (toks, ci)"
proof -
  have none: "None \<notin> set (ids (durables (db_contexts src)))" and dist: "distinct (ids (durables (db_contexts src)))" and sv: "savable src" and ts: "tree_savable src"
    using src by (auto simp: restartable_def savable_def ids_def)
  have at: "ix cid < length cs \<and> ids cs ! ix cid = Some cid" if d: "durable_id src ci = Some cid" for ci cid
  proof -
    have c: "ci < length (db_contexts src)" "slot_durable (db_contexts src ! ci) = Some cid" using d by (auto simp: durable_id_slot split: if_splits)
    then have "db_contexts src ! ci \<in> set (db_contexts src)" by simp
    then have "cid \<in> set (List.map_filter slot_durable (db_contexts src))" using c(2) by (force simp: List.map_filter_def)
    then have "Some cid \<in> set (ids cs)" using ids ids_durables [OF none] by simp
    then obtain k where "k < length cs" "ids cs ! k = Some cid" by (auto simp: in_set_conv_nth ids_def)
    then show ?thesis using ix by metis
  qed
  have item: "\<exists>toks q. c = Ch_sub cid (foldl child_path '''' toks) q \<and> hd toks = '''' \<and> tokens_of (foldl child_path '''' toks) = toks \<and> subscriptions src (toks, ci) = Some q"
    if w: "w \<in> set (walk (db_subs src))" "sub_chunk src '''' w c" "durable_id src ci = Some cid" "fst (snd w) = ci" for w c ci cid
  proof -
    obtain toks q where t: "w = ('''' # toks, ci, q)" "hd toks = ''''" "tokens_of (foldl child_path '''' toks) = toks"
      using tree_subscription(2) [OF ts w(3,1,4)] by blast
    then have "subscriptions src (toks, ci) = Some q" using tree_subscription(1) [OF ts w(3)] w(1) by blast
    then show ?thesis using t w(2,3) by (auto simp: sub_chunk_def child_path_def)
  qed
  show "\<forall>c \<in> set (tree_chunks src (db_subs src) ''''). tree_chunk_ok (saved_stores src) cs ix c"
  proof
    fix c assume "c \<in> set (tree_chunks src (db_subs src) '''')"
    then consider (sub) w where "w \<in> set (walk (db_subs src))" "sub_chunk src '''' w c" | (ret) "c \<in> set (tree_nodes_retained src (db_subs src))"
      unfolding tree_chunks_set by blast
    then show "tree_chunk_ok (saved_stores src) cs ix c"
    proof cases
      case sub
      then obtain ci cid where d: "durable_id src ci = Some cid" "fst (snd w) = ci" by (auto simp: sub_chunk_def split: prod.splits)
      obtain toks q where "c = Ch_sub cid (foldl child_path '''' toks) q" "hd toks = ''''" "tokens_of (foldl child_path '''' toks) = toks"
        using item [OF sub d(1,2)] by blast
      then show ?thesis using at [OF d(1)] by simp
    next
      case ret
      obtain r st where r: "r \<in> set (tree_retained (db_subs src))" "db_heap src r = Some st" "c = Ch_retain (st_db_id st)" using nodes_retained_set [OF ret] by blast
      then have "r \<in> set (db_msg_store src)" using src by (simp add: restartable_def list_all_iff)
      then obtain j where "j < length (saved_stores src)" "db_heap src r = Some (saved_stores src ! j)" "store_ready (saved_stores src ! j)"
        using saved_stores_at [OF sv] by blast
      then show ?thesis using r by (auto simp: store_ready_def)
    qed
  qed
  assume d: "durable_id src ci = Some cid"
  let ?key = "(toks, ix cid)" and ?v = "subscriptions src (toks, ci)" and ?C = "tree_chunks src (db_subs src) ''''"
  have all: "chunk_at ix ?key c = None \<or> chunk_at ix ?key c = ?v" if c: "c \<in> set ?C" for c
  proof (cases "chunk_at ix ?key c")
    case (Some q)
    then obtain cid' path where c': "c = Ch_sub cid' path q" "tokens_of path = toks" "ix cid' = ix cid" by (auto simp: chunk_at_def split: chunk.splits if_splits)
    then have "c \<notin> set (tree_nodes_retained src (db_subs src))" using nodes_retained_set by fastforce
    then obtain w where w: "w \<in> set (walk (db_subs src))" "sub_chunk src '''' w c" using c unfolding tree_chunks_set by blast
    then obtain cj where cj: "durable_id src cj = Some cid'" "fst (snd w) = cj" using c'(1) by (auto simp: sub_chunk_def split: prod.splits)
    have "Some cid' = Some cid" using at [OF cj(1)] at [OF d] c'(3) by metis
    then have "cid' = cid" by simp
    then have "cj = ci" using durable_inj [OF none dist] cj(1) d by blast
    then show ?thesis using item [OF w cj] c' Some by auto
  qed simp
  have "?v = None" if "\<forall>c \<in> set ?C. chunk_at ix ?key c = None"
  proof (rule ccontr)
    assume "?v \<noteq> None"
    then obtain q where "?v = Some q" by auto
    then have w: "('''' # toks, ci, q) \<in> set (walk (db_subs src))" "tokens_of (foldl child_path '''' toks) = toks" using tree_subscription(1) [OF ts d] by blast+
    let ?c = "Ch_sub cid (foldl child_path '''' toks) q"
    have "sub_chunk src '''' ('''' # toks, ci, q) ?c" using d by (simp add: sub_chunk_def child_path_def)
    then have "?c \<in> set ?C" using w(1) unfolding tree_chunks_set by blast
    moreover have "chunk_at ix ?key ?c = Some q" using w(2) by (simp add: chunk_at_def)
    ultimately show False using that by fastforce
  qed
  moreover have "fold (chunk_sub ix) ?C Map.empty ?key = (if \<exists>c \<in> set ?C. chunk_at ix ?key c \<noteq> None then ?v else None)"
    using all by (intro fold_chunk_sub) simp_all
  ultimately show "fold (chunk_sub ix) ?C Map.empty ?key = ?v" by (cases "\<exists>c \<in> set ?C. chunk_at ix ?key c \<noteq> None") simp_all
qed

section \<open>The whole file\<close>

lemma durable_found:
  assumes "durable_id src ci = Some cid" "get_ctx ci src = Some cx"
  shows "cx \<in> set (durables (db_contexts src))" "c_id (cx_mosq cx) = Some cid"
proof -
  have c: "\<not> c_clean_session (cx_mosq cx)" "c_id (cx_mosq cx) = Some cid" using assms by (auto simp: durable_id_def split: if_splits)
  have "Some cx \<in> set (db_contexts src)" using assms(2) by (auto simp: get_ctx_def in_set_conv_nth split: if_splits)
  then have "cx \<in> set (List.map_filter id (db_contexts src))" by (force simp: List.map_filter_def)
  then show "cx \<in> set (durables (db_contexts src))" using c(1) by (simp add: durables_def)
  show "c_id (cx_mosq cx) = Some cid" by (rule c(2))
qed

lemma same_sessions_ids: "list_all2 (same_session n sts src) ds cs \<Longrightarrow> ids cs = ids ds"
  by (induction rule: list_all2_induct) (auto simp: ids_def same_session_def)

text \<open>The chunks of the messages and of the sessions, for a broker that has just been started.\<close>

lemma restore_sessions_fresh:
  assumes src: "restartable shutdown src"
    and o: "mqtt3_db_open (db_zero cf infl queued []) = (MOSQ_ERR_SUCCESS, db0)"
  shows "\<exists>db cs. apply_chunks (Ch_cfg shutdown (db_last_db_id src) # store_chunks src (db_msg_store src)
        @ concat (map (session_chunks src) (durables (db_contexts src)))) db0 = Some (0, db)
    \<and> list_all2 (same_session (db_next db0) (saved_stores src) src) (durables (db_contexts src)) cs
    \<and> regrowing (db_next db0) (saved_stores src) cs db \<and> subscriptions db = Map.empty"
proof -
  let ?sts = "saved_stores src" and ?ds = "durables (db_contexts src)" and ?n = "db_next db0"
  note f = open_fresh [OF o]
  have sv: "savable src" using src by (simp add: restartable_def)
  have st: "store_chunks src (db_msg_store src) = map Ch_store ?sts" by (simp add: store_chunks_def saved_stores_def)
  have dist: "distinct (map st_db_id ?sts)" using src store_ids_saved [OF sv] by (simp add: restartable_def)
  have msgs: "\<exists>j < length ?sts. db_heap src (cm_store m) = Some (?sts ! j)" if "cx \<in> set ?ds" "m \<in> set (cx_msgs cx)" for cx m
  proof -
    have "cm_store m \<in> set (db_msg_store src)" using src that by (auto simp: restartable_def list_all_iff)
    then show ?thesis using saved_stores_at [OF sv] by blast
  qed
  let ?db1 = "fold add_store ?sts (db0\<lparr>db_last_db_id := db_last_db_id src\<rparr>)"
  have r: "restoring ?n ?sts (db_subs db0) [] ?db1" by (rule fresh_restoring) (use f in simp_all)
  have d: "\<forall>cx \<in> set ?ds. c_id (cx_mosq cx) \<noteq> None \<and> (\<forall>m \<in> set (cx_msgs cx). \<exists>j < length ?sts. db_heap src (cm_store m) = Some (?sts ! j))"
    using sv msgs by (auto simp: savable_def)
  have i: "distinct (ids [] @ ids ?ds)" using src by (simp add: restartable_def ids_def)
  obtain db cs where s: "apply_chunks (concat (map (session_chunks src) ?ds)) ?db1 = Some (0, db)"
      "list_all2 (same_session ?n ?sts src) ?ds cs" "restoring ?n ?sts (db_subs db0) ([] @ cs) db"
    using restore_sessions [OF r dist d i] by blast
  have "apply_chunks (Ch_cfg shutdown (db_last_db_id src) # store_chunks src (db_msg_store src) @ concat (map (session_chunks src) ?ds)) db0 = Some (0, db)"
    using s(1) by (simp add: st apply_chunks_append apply_stores)
  then show ?thesis using s(2) restoring_regrowing [OF s(3) f(2)] by auto
qed

lemma restore_all:
  assumes src: "restartable shutdown src"
    and o: "mqtt3_db_open (db_zero cf infl queued []) = (MOSQ_ERR_SUCCESS, db0)"
  shows "\<exists>db. apply_chunks (db_chunks shutdown src) db0 = Some (0, db)
    \<and> (\<forall>ci cx cid. get_ctx ci src = Some cx \<longrightarrow> durable_id src ci = Some cid \<longrightarrow>
         (\<exists>k cx'. cih_find cid (db_clientid_index_hash db) = Some k \<and> get_ctx k db = Some cx' \<and> session_back src db cx cx'
            \<and> (\<forall>toks. subscriptions db (toks, k) = subscriptions src (toks, ci))))"
proof -
  let ?sts = "saved_stores src" and ?ds = "durables (db_contexts src)" and ?n = "db_next db0"
  have sv: "savable src" and al: "savable src \<Longrightarrow> distinct (map st_db_id ?sts)"
    using src store_ids_saved by (auto simp: restartable_def)
  obtain db1 cs where s: "apply_chunks (Ch_cfg shutdown (db_last_db_id src) # store_chunks src (db_msg_store src)
        @ concat (map (session_chunks src) ?ds)) db0 = Some (0, db1)"
      "list_all2 (same_session ?n ?sts src) ?ds cs" "regrowing ?n ?sts cs db1" "subscriptions db1 = Map.empty"
    using restore_sessions_fresh [OF src o] by blast
  have ids: "ids cs = ids ?ds" by (rule same_sessions_ids [OF s(2)])
  define ix where "ix cid = the (cih_find cid (db_clientid_index_hash db1))" for cid
  have r1: "restoring ?n ?sts (db_subs db1) cs db1" using s(3) by (simp add: regrowing_def)
  have ix: "ix cid = k" if "k < length cs" "ids cs ! k = Some cid" for k cid
    using session_index(1) [OF r1 that] by (simp add: ix_def)
  have good: "\<forall>c \<in> set (tree_chunks src (db_subs src) []). tree_chunk_ok ?sts cs ix c"
    "durable_id src ci = Some cid \<Longrightarrow>
       fold (chunk_sub ix) (tree_chunks src (db_subs src) []) Map.empty (toks, ix cid) = subscriptions src (toks, ci)" for ci cid toks
    using tree_chunks_good [OF src ids, of ix] ix by blast+
  obtain db where t: "apply_chunks (tree_chunks src (db_subs src) '''') db1 = Some (0, db)" "regrowing ?n ?sts cs db"
      "subscriptions db = fold (chunk_sub ix) (tree_chunks src (db_subs src) '''') Map.empty"
    using restore_tree [OF good(1) s(3) al [OF sv]] s(4) by auto
  have "apply_chunks (db_chunks shutdown src) db0 = Some (0, db)"
  proof -
    have "db_chunks shutdown src = (Ch_cfg shutdown (db_last_db_id src) # store_chunks src (db_msg_store src)
        @ concat (map (session_chunks src) ?ds)) @ tree_chunks src (db_subs src) []" by (simp add: db_chunks_def)
    then show ?thesis using t(1) by (simp only: apply_chunks_append s(1)) simp
  qed
  moreover have "\<exists>k cx'. cih_find cid (db_clientid_index_hash db) = Some k \<and> get_ctx k db = Some cx' \<and> session_back src db cx cx'
      \<and> (\<forall>toks. subscriptions db (toks, k) = subscriptions src (toks, ci))"
    if c: "get_ctx ci src = Some cx" "durable_id src ci = Some cid" for ci cx cid
  proof -
    note d = durable_found [OF c(2,1)]
    obtain k where k: "k < length ?ds" "?ds ! k = cx" using d(1) by (auto simp: in_set_conv_nth)
    have l: "length cs = length ?ds" using s(2) by (simp add: list_all2_lengthD)
    have kc: "k < length cs" "ids cs ! k = Some cid" using k l d(2) by (simp_all add: ids) (simp add: ids_def)
    have r: "restoring ?n ?sts (db_subs db) cs db" using t(2) by (simp add: regrowing_def)
    have "same_session ?n ?sts src cx (cs ! k)" using list_all2_nthD [OF s(2) k(1)] k(2) by simp
    moreover have "stores_in ?n ?sts db" using r by (simp add: restoring_def)
    ultimately have b: "session_back src db cx (cs ! k)" by (rule same_session_back)
    have "subscriptions db (toks, k) = subscriptions src (toks, ci)" for toks
      using good(2) [OF c(2), of toks] t(3) ix [OF kc] by simp
    then show ?thesis using session_index [OF r kc] b by blast
  qed
  ultimately show ?thesis by blast
qed

section \<open>Evaluation\<close>

lemma store_ready_code [code]: "store_ready st \<longleftrightarrow> m_topic (st_msg st) \<noteq> None \<and> 0 \<le> m_payloadlen (st_msg st)
    \<and> (m_payloadlen (st_msg st) = 0 \<or> (case m_payload (st_msg st) of None \<Rightarrow> False | Some p \<Rightarrow> nat (m_payloadlen (st_msg st)) \<le> length p))"
  by (auto simp: store_ready_def split: option.splits)

lemma tree_ready_code [code]: "tree_ready db [] = True"
  "tree_ready db (Subhier t subs ret ch # bs) \<longleftrightarrow> list_all (\<lambda>(ci, q). ctx_id db ci \<noteq> None) subs
     \<and> (case ret of None \<Rightarrow> True | Some r \<Rightarrow> (case db_heap db r of None \<Rightarrow> False | Some st \<Rightarrow> m_topic (st_msg st) \<noteq> None))
     \<and> tree_ready db ch \<and> tree_ready db bs"
proof -
  have "(\<exists>cx cid. get_ctx ci db = Some cx \<and> c_id (cx_mosq cx) = Some cid) \<longleftrightarrow> ctx_id db ci \<noteq> None" for ci
    by (auto simp: ctx_id_def bind_eq_Some_conv)
  then show "tree_ready db (Subhier t subs ret ch # bs) \<longleftrightarrow> list_all (\<lambda>(ci, q). ctx_id db ci \<noteq> None) subs
     \<and> (case ret of None \<Rightarrow> True | Some r \<Rightarrow> (case db_heap db r of None \<Rightarrow> False | Some st \<Rightarrow> m_topic (st_msg st) \<noteq> None))
     \<and> tree_ready db ch \<and> tree_ready db bs"
    by (auto simp: list_all_iff split: option.splits)
qed simp

lemma savable_code [code]: "savable db \<longleftrightarrow> list_all (\<lambda>r. case db_heap db r of None \<Rightarrow> False | Some st \<Rightarrow> store_ready st) (db_msg_store db)
    \<and> list_all (\<lambda>cx. c_id (cx_mosq cx) \<noteq> None \<and> list_all (\<lambda>m. db_heap db (cm_store m) \<noteq> None) (cx_msgs cx)) (durables (db_contexts db))
    \<and> tree_ready db (db_subs db)"
  by (auto simp: savable_def list_all_iff split: option.splits)

text \<open>Large bounds are compared as integers.\<close>

lemma str_ok_code [code]: "str_ok s \<longleftrightarrow> int (length s) < 65536 \<and> CHR 0x00 \<notin> set s"
  by (simp add: str_ok_def)

lemma chunk_ok_code [code]:
  "chunk_ok (Ch_cfg shutdown n) \<longleftrightarrow> int n < 2 ^ 64"
  "chunk_ok (Ch_store st) \<longleftrightarrow> store_ready st \<and> 0 < st_db_id st \<and> int (st_db_id st) < 2 ^ 64 \<and> str_ok (st_source_id st)
     \<and> str_ok (the (m_topic (st_msg st))) \<and> the (m_topic (st_msg st)) \<noteq> [] \<and> 0 \<le> m_qos (st_msg st) \<and> m_qos (st_msg st) < 256 \<and> m_payloadlen (st_msg st) < 2 ^ 31"
  "chunk_ok (Ch_client cid mid t) \<longleftrightarrow> str_ok cid \<and> cid \<noteq> [] \<and> - (2 ^ 63) \<le> t \<and> t < 2 ^ 63"
  "chunk_ok (Ch_msg cid n m) \<longleftrightarrow> str_ok cid \<and> cid \<noteq> [] \<and> int n < 2 ^ 64 \<and> 0 \<le> cm_qos m \<and> cm_qos m < 256"
  "chunk_ok (Ch_sub cid topic q) \<longleftrightarrow> str_ok cid \<and> str_ok topic \<and> 0 \<le> q \<and> q < 256"
  "chunk_ok (Ch_retain n) \<longleftrightarrow> int n < 2 ^ 64"
  by simp_all

text \<open>Alice has a durable session with a subscription, and Bob publishes a message for her.\<close>

definition demo_durable :: "conn list list" where
  "demo_durable = [[demo_conn 10 [demo_connect 0 ''alice'', [0x82, 8, 0, 1, 0, 3] @ bytes_of_string ''a/b'' @ [1]] [],
     demo_conn 11 [demo_connect 2 ''bob'', [0x32, 9, 0, 3] @ bytes_of_string ''a/b'' @ [0, 7] @ bytes_of_string ''hi''] []], [], []]"

lemma demo_durable_saved:
  "map_option (\<lambda>db. (restartable True db, map_option (\<lambda>cx. length (cx_msgs cx)) (get_ctx 0 db), durable_id db 0,
     subscriptions db (['''', ''a'', ''b''], 0))) (demo_run demo_durable demo_start)
   = Some (True, Some 1, Some ''alice'', Some 1)"
  by code_simp

section \<open>Properties\<close>

text \<open>
  C40: what a broker saves before it stops, a broker that is started finds. The file is written when it fits on the disk, and a new broker that reads it
  gives every client with a durable session, found by its id, the same id, last message id and time of disconnection, the same subscriptions, and
  the same queue of messages in the same order, each referring to a stored message with the same topic, payload and QoS. The databases
  are the \<open>restartable\<close> ones: memory is available, the durable clients have different ids, all queued and retained messages are in the store,
  which has each id once, strings contain no zero byte and numbers fit their fields, and no durable client has a subscription below \<open>$SYS\<close> or one
  that starts with two slashes. Such subscriptions the code does not bring back, as it writes another topic for them.
\<close>
theorem backup_restores_sessions:
  assumes "restartable shutdown src" "length (db_file shutdown src) \<le> room"
    and "mqtt3_db_open (db_zero cf infl queued []) = (MOSQ_ERR_SUCCESS, db0)"
  shows "\<exists>dk db. mqtt3_db_backup src \<lparr>dk_path = True, dk_room = Some room, dk_rename = True, dk_file = old\<rparr> False shutdown
        = Some (MOSQ_ERR_SUCCESS, dk, src)
    \<and> mqtt3_db_restore db0 dk = Some (MOSQ_ERR_SUCCESS, db)
    \<and> (\<forall>ci cx cid. get_ctx ci src = Some cx \<longrightarrow> durable_id src ci = Some cid \<longrightarrow>
         (\<exists>k cx'. cih_find cid (db_clientid_index_hash db) = Some k \<and> get_ctx k db = Some cx' \<and> session_back src db cx cx'
            \<and> (\<forall>toks. subscriptions db (toks, k) = subscriptions src (toks, ci))))"
proof -
  have s: "savable src" "db_allocs src = []" "\<forall>c \<in> set (db_chunks shutdown src). chunk_ok c"
    using assms(1) by (simp_all add: restartable_def list_all_iff)
  show ?thesis
    using backup_written [OF s(1,2) assms(2), of old] restore_all [OF assms(1,3)] restore_file [OF s(3) open_fresh(4) [OF assms(3)]]
    by simp
qed

theorem backup_restores_sessions_witness:
  "\<exists>src dk db0 db k cx'. demo_run demo_durable demo_start = Some src
    \<and> mqtt3_db_backup src \<lparr>dk_path = True, dk_room = Some (length (db_file True src)), dk_rename = True, dk_file = None\<rparr> False True
        = Some (MOSQ_ERR_SUCCESS, dk, src)
    \<and> mqtt3_db_restore db0 dk = Some (MOSQ_ERR_SUCCESS, db)
    \<and> cih_find ''alice'' (db_clientid_index_hash db) = Some k \<and> get_ctx k db = Some cx' \<and> length (cx_msgs cx') = 1
    \<and> subscriptions db (['''', ''a'', ''b''], k) = Some 1"
proof -
  obtain src where src: "demo_run demo_durable demo_start = Some src" "restartable True src" "map_option (\<lambda>cx. length (cx_msgs cx)) (get_ctx 0 src) = Some 1"
    "durable_id src 0 = Some ''alice''" "subscriptions src (['''', ''a'', ''b''], 0) = Some 1"
    using demo_durable_saved by auto
  then obtain cx where cx: "get_ctx 0 src = Some cx" "length (cx_msgs cx) = 1" by auto
  let ?r = "mqtt3_db_open (db_zero (db_config (demo_db [])) 20 100 [])"
  have "fst ?r = MOSQ_ERR_SUCCESS" by code_simp
  then have o: "?r = (MOSQ_ERR_SUCCESS, snd ?r)" by (metis prod.collapse)
  from backup_restores_sessions [OF src(2) order_refl o, of None] obtain dk db where
    b: "mqtt3_db_backup src \<lparr>dk_path = True, dk_room = Some (length (db_file True src)), dk_rename = True, dk_file = None\<rparr> False True
        = Some (MOSQ_ERR_SUCCESS, dk, src)" "mqtt3_db_restore (snd ?r) dk = Some (MOSQ_ERR_SUCCESS, db)"
    and all: "\<forall>ci cx cid. get_ctx ci src = Some cx \<longrightarrow> durable_id src ci = Some cid \<longrightarrow>
         (\<exists>k cx'. cih_find cid (db_clientid_index_hash db) = Some k \<and> get_ctx k db = Some cx' \<and> session_back src db cx cx'
            \<and> (\<forall>toks. subscriptions db (toks, k) = subscriptions src (toks, ci)))" by blast
  obtain k cx' where k: "cih_find ''alice'' (db_clientid_index_hash db) = Some k" "get_ctx k db = Some cx'" "session_back src db cx cx'"
    "subscriptions db (['''', ''a'', ''b''], k) = Some 1" using all cx(1) src(4,5) by metis
  have "length (cx_msgs cx') = 1" using k(3) cx(2) by (auto simp: session_back_def dest!: list_all2_lengthD)
  then show ?thesis using src(1) b k by blast
qed

end
