(* ===== verification/Spec2Isabelle.thy ===== *)
theory Spec2Isabelle
  imports Psn_Talk Psn_Cli Broker_Run Broker_Restart
begin

text \<open>
  A verification development of psn, a messenger over MQTT, and of the mosquitto library it is built on.

  \<^bold>\<open>The program.\<close> psn (\<open>src/psn.c\<close>) keeps a user's friends and friend requests in hash tables of
  uthash, sends requests and messages with the client library of mosquitto 1.3.1
  (\<open>src/mosquitto/lib\<close>), and gets what arrives through the callback that the network thread of the
  library calls. Users find each other through a broker by the topics \<open>users/<name>/frequest/<from>\<close>
  and \<open>chat/<from>/<to>\<close>.

  \<^bold>\<open>The model.\<close> Every function of the C code is a definition with the name of the function.
  \<^item> Undefined behaviour (a null or freed pointer, an access outside an array, a mutex locked twice by
    its thread, a failed assertion) is \<open>None\<close>; error codes are values of the code's own constants.
    A theorem that says a call equals \<open>Some\<close> of something therefore includes that nothing undefined happens.
    In a state machine such a call has no successor: what is proved of the reachable states holds for the runs without
    undefined behaviour. Where the code can be brought to it from outside this is stated: C8 says which
    friend requests overflow the name of a user, C31 shows a run of the broker into a failed assertion.
  \<^item> Fixed-width integers that can wrap are words (\<open>u8\<close>, \<open>u16\<close>, \<open>u32\<close>); C's \<open>int\<close> and \<open>time_t\<close> are
    integers where the code cannot overflow them.
  \<^item> The environment is part of the client record: a list of outcomes for the allocator (\<open>e_allocs\<close>, in
    which the empty list means success), what the socket will deliver and accept (\<open>e_rx\<close>, \<open>e_wr\<close>), the
    clock, and the contents of fresh memory. Theorems hold for all of them.
  \<^item> The callbacks of the application are the parameter \<open>app\<close> of the library, a function on the client.
  \<^item> Loops are functions with a termination proof; the two loops whose end depends on the
    application (\<open>packet_write_loop\<close>, \<open>retry_loop\<close>) are partial functions, and the theorems about them
    include that they return.

  \<^bold>\<open>Theories.\<close>
  \<^item> \<open>Prelude\<close>: types, the allocator, bytes and strings, splitting at a separator.
  \<^item> \<open>Topics\<close> (\<open>util_mosq.c\<close>, \<open>mosquitto.c\<close>): wildcard checks, matching and tokenising of topics, against
    a reference on lists of levels.
  \<^item> \<open>Packet\<close> (\<open>net_mosq.c\<close>, \<open>util_mosq.c\<close>): the packet buffer, its size field and its readers and writers.
  \<^item> \<open>Client_State\<close> (\<open>mosquitto_internal.h\<close>): the client structure and its environment.
  \<^item> \<open>Net\<close>, \<open>Assemble\<close> (\<open>net_mosq.c\<close>): queueing, writing and reading of packets over a socket that
    takes and gives any part of the bytes.
  \<^item> \<open>Send\<close> (\<open>send_mosq.c\<close>, \<open>send_client_mosq.c\<close>): the commands, byte by byte.
  \<^item> \<open>Messages\<close> (\<open>messages_mosq.c\<close>, \<open>will_mosq.c\<close>): the message lists, the window of messages in
    flight, retries and the reset at a reconnect, with the invariant \<open>msgs_ok\<close>. The last pointers are kept as a value that says
    where they point (\<open>msg_end\<close>), as after a reset one of them can point into the other list or at a freed message.
  \<^item> \<open>Handlers\<close> (\<open>read_handle*.c\<close>): one handler per packet type and their dispatch.
  \<^item> \<open>Client\<close> (\<open>mosquitto.c\<close>, \<open>thread_mosq.c\<close>): the interface of the library and its network loop, as
    steps of a state machine (\<open>client_step\<close>: connecting, the setters, publishing, the rounds of the loop), and how it
    stalls after a reconnect (\<open>stall_step\<close>).
  \<^item> \<open>Frame\<close>, \<open>Read_Frame\<close>, \<open>App_Inv\<close>: locales for what the library leaves alone. \<open>io_core\<close> and \<open>io_frame\<close>
    say which part of the client the transport keeps, \<open>read_frame\<close> lifts an invariant of the handlers to
    reading, and \<open>app_inv\<close> lifts an invariant of the application's data through every call of
    the library. They are interpreted on the message lists and on the user data.
  \<^item> \<open>Uthash\<close> (\<open>src/mosquitto/src/uthash.h\<close>): the locale \<open>hash_table\<close>, the contract of a table, and the
    macros of uthash, which satisfy it.
  \<^item> \<open>Psn\<close>, \<open>Psn_Steps\<close>, \<open>Psn_Talk\<close> (\<open>psn.c\<close>, \<open>psn.h\<close>, \<open>init.c\<close>): the messenger over any tables with
    that contract (locale \<open>psn_tables\<close>, interpreted on uthash), as a state machine with the network
    thread, and two instances that talk to each other.
  \<^item> \<open>Hex\<close>, \<open>Psn_Config\<close> (\<open>psn.c\<close>): the configuration as JSON, with keys in hexadecimal. jansson and
    libtomcrypt are not part of the sources: they are parameters, with their documented behaviour as hypotheses.
  \<^item> \<open>Psn_Cli\<close> (\<open>psn_cli.c\<close>): the terminal client, and what each of its commands does.
  \<^item> \<open>Broker_Db\<close> (\<open>src/mosquitto/src/database.c\<close>): the broker's store of shared messages with reference counts
    and the message queue of each client.
  \<^item> \<open>Broker_Subs\<close> (\<open>subs.c\<close>, \<open>security_default.c\<close>): the subscription tree, routing, retained messages and
    the access check.
  \<^item> \<open>Broker_Tree\<close>: the tree refines a map from token lists and clients to QoS (locale \<open>op_refinement\<close>).
  \<^item> \<open>Broker_Route\<close>: routing a message visits exactly the matching subscriptions, and puts the message once into
    the queue of each client that may read it. \<open>tokens_of\<close> models how the broker cuts a topic; the reference is the
    documented matching on levels (\<open>levels_match\<close>), from which the broker deviates for a topic with a slash in front.
  \<^item> \<open>Broker_Ctx\<close> (\<open>context.c\<close>, \<open>send_server.c\<close>, the accepting of \<open>net.c\<close>, the password check of \<open>security.c\<close>),
    \<open>Broker_Handle\<close> (\<open>read_handle*.c\<close> of the broker, \<open>loop.c\<close>): the clients of the broker, what each of their packets does, and one
    round of the main loop; the result of \<open>poll\<close>, new connections and the clock are inputs of a round.
  \<^item> \<open>Broker_Rel\<close>: locales that lift a relation on databases through the loops of the broker.
    \<open>Broker_Refs\<close>, \<open>Broker_Safe\<close>: every operation keeps the reference counts of the message store and the queues of the clients
    (\<open>store_inv\<close>, \<open>broker_inv\<close>). \<open>Broker_Frame\<close>: what an operation leaves of the other clients.
  \<^item> \<open>Broker_Live\<close>, \<open>Broker_Round\<close>: the invariant \<open>good\<close> of the whole broker, with rules for chains of calls (collection \<open>chain\<close>), and its proof
    for every packet, the takeover of sessions, the freeing of clients and a round of the main loop.
  \<^item> \<open>Broker_Run\<close> (\<open>mosquitto.c\<close>): the runs of the broker from its start, what holds in every state they reach, and a run that
    ends in a failed assertion.
  \<^item> \<open>Broker_Persist\<close> (\<open>persist.c\<close>): saving the database to a file and restoring it. \<open>Broker_Restore\<close>: the file as a list of chunks,
    what reading each of them does, and the message store and the queues after reading. \<open>Broker_Restart\<close>: the subscriptions and retained messages
    come back as well, and a restart loses no durable session.

  \<^bold>\<open>Not modelled.\<close> TLS, name resolution and the socket calls; logging; the asynchronous connects and
  \<open>mosquitto_loop_forever\<close>; interleavings of the main and the network thread inside a call (each call
  and each pass of the network loop is one step); of the broker the parsing of its configuration file,
  the reconnecting of bridges, the loading of plugins, the statistics, and the system calls of its start. The
  allocations of the functions under \<open>src/mosquitto/src\<close> may fail at any time (the list of the database), those that the shared
  functions of \<open>lib\<close> make for one client of the broker (the buffers of its packets) succeed: \<open>mqtt3_context_init\<close> leaves \<open>e_allocs\<close> of the client empty.
\<close>

end
